(* ===== verification/Manga_Prelude.thy ===== *)
theory Manga_Prelude
  imports Complex_Main
begin

text \<open>
  Shared vocabulary of the development.

  \<^item> SQLite: a table is the list of its rows in rowid order, a NULL is \<open>None\<close>.
    \<open>sql_eq\<close> and \<open>sql_neq\<close> are the comparisons that hold only between non-NULL
    values; the \<open>IS\<close> operator is plain equality of options. An \<open>UPDATE ... WHERE\<close>
    is \<open>sql_update\<close>: it returns the new table and the \<open>rowcount\<close>.
  \<^item> Python strings: a \<open>string\<close> is read as a sequence of code points below 256;
    \<open>py_lower\<close> and \<open>py_strip\<close> are \<open>str.lower\<close> and \<open>str.strip\<close> on that range,
    \<open>sql_lower\<close> and \<open>sql_trim\<close> are SQLite's ASCII-only \<open>lower\<close> and its \<open>trim\<close>,
    which removes blanks only.
  \<^item> Errors: \<open>'e + 'a\<close>, with \<open>Inl\<close> for the exception raised.
\<close>

named_theorems sql_simps "evaluation and frame rules of the SQL statement forms"
named_theorems py_text "rewrite rules for the Python text operations"

subsection \<open>Python exceptions\<close>

datatype py_exn = ValueError | TypeError | KeyError | OverflowError | AttributeError | IntegrityError
  | RuntimeError string

subsection \<open>Comparisons on nullable columns\<close>

definition sql_eq :: "'a option \<Rightarrow> 'a option \<Rightarrow> bool" where
  "sql_eq a b \<longleftrightarrow> a \<noteq> None \<and> a = b"

definition sql_neq :: "'a option \<Rightarrow> 'a option \<Rightarrow> bool" where
  "sql_neq a b \<longleftrightarrow> a \<noteq> None \<and> b \<noteq> None \<and> a \<noteq> b"

definition sql_coalesce :: "'a option \<Rightarrow> 'a option \<Rightarrow> 'a option" where
  "sql_coalesce a b = (case a of None \<Rightarrow> b | Some _ \<Rightarrow> a)"

lemma sql_eq_simps [simp, sql_simps]:
  "sql_eq None b = False" "sql_eq a None = False"
  "sql_eq (Some x) (Some y) \<longleftrightarrow> x = y"
  by (auto simp: sql_eq_def)

lemma sql_neq_simps [simp, sql_simps]:
  "sql_neq None b = False" "sql_neq a None = False"
  "sql_neq (Some x) (Some y) \<longleftrightarrow> x \<noteq> y"
  by (auto simp: sql_neq_def)

lemma sql_coalesce_simps [simp, sql_simps]:
  "sql_coalesce None b = b" "sql_coalesce (Some x) b = Some x"
  by (simp_all add: sql_coalesce_def)

lemma sql_eq_commute: "sql_eq a b = sql_eq b a"
  by (auto simp: sql_eq_def)

subsection \<open>UPDATE and DELETE\<close>

definition sql_update :: "('r \<Rightarrow> bool) \<Rightarrow> ('r \<Rightarrow> 'r) \<Rightarrow> 'r list \<Rightarrow> 'r list \<times> nat" where
  "sql_update P f rows =
     (map (\<lambda>r. if P r then f r else r) rows, length (filter P rows))"

lemma fst_sql_update [simp, sql_simps]:
  "fst (sql_update P f rows) = map (\<lambda>r. if P r then f r else r) rows"
  by (simp add: sql_update_def)

lemma snd_sql_update [simp, sql_simps]:
  "snd (sql_update P f rows) = length (filter P rows)"
  by (simp add: sql_update_def)

lemma sql_update_none:
  "(\<And>r. r \<in> set rows \<Longrightarrow> \<not> P r) \<Longrightarrow> sql_update P f rows = (rows, 0)"
  by (auto simp: sql_update_def filter_empty_conv intro: map_idI)

lemma map_key_update:
  assumes "\<And>r. key (f r) = key r"
  shows "map key (map (\<lambda>r. if P r then f r else r) rows) = map key rows"
  using assms by simp

lemma length_filter_key:
  assumes "distinct (map key rows)"
  shows "length (filter (\<lambda>r. key r = k \<and> P r) rows)
    = (if \<exists>r \<in> set rows. key r = k \<and> P r then 1 else 0)"
  using assms
proof (induction rows)
  case Nil
  then show ?case by simp
next
  case (Cons r rows)
  show ?case
  proof (cases "key r = k \<and> P r")
    case True
    with Cons.prems have "filter (\<lambda>r. key r = k \<and> P r) rows = []"
      by (auto simp: filter_empty_conv image_iff)
    with True show ?thesis by simp
  next
    case False
    then have "filter (\<lambda>r. key r = k \<and> P r) (r # rows) = filter (\<lambda>r. key r = k \<and> P r) rows"
      by auto
    moreover have "(\<exists>x \<in> set (r # rows). key x = k \<and> P x) = (\<exists>x \<in> set rows. key x = k \<and> P x)"
      using False by auto
    moreover have "distinct (map key rows)"
      using Cons.prems by simp
    ultimately show ?thesis
      using Cons.IH by presburger
  qed
qed

lemma distinct_key_unique:
  assumes "distinct (map key rows)" "r \<in> set rows" "s \<in> set rows" "key r = key s"
  shows "r = s"
  using assms by (auto simp: distinct_map dest: inj_onD)

lemma find_key_Some:
  assumes "distinct (map key rows)" "r \<in> set rows"
  shows "find (\<lambda>x. key x = key r) rows = Some r"
proof -
  obtain s where s: "find (\<lambda>x. key x = key r) rows = Some s"
    using assms(2) by (cases "find (\<lambda>x. key x = key r) rows") (auto simp: find_None_iff)
  then have "s \<in> set rows" "key s = key r"
    by (auto simp: find_Some_iff)
  with assms have "s = r" by (metis distinct_key_unique)
  with s show ?thesis by simp
qed

lemma find_map_key:
  assumes "\<And>r. key (g r) = key r"
  shows "find (\<lambda>r. key r = k) (map g rows) = map_option g (find (\<lambda>r. key r = k) rows)"
  by (induction rows) (simp_all add: assms)

lemma find_key_id: "find (\<lambda>r. key r = k) rows = Some r \<Longrightarrow> r \<in> set rows \<and> key r = k"
  by (auto simp: find_Some_iff)

subsection \<open>Python and SQLite text\<close>

definition py_lower_char :: "char \<Rightarrow> char" where
  "py_lower_char c = (let n = of_char c :: nat in
     if (65 \<le> n \<and> n \<le> 90) \<or> (192 \<le> n \<and> n \<le> 222 \<and> n \<noteq> 215) then char_of (n + 32) else c)"

definition py_is_space :: "char \<Rightarrow> bool" where
  "py_is_space c = (let n = of_char c :: nat in
     (9 \<le> n \<and> n \<le> 13) \<or> (28 \<le> n \<and> n \<le> 32) \<or> n = 133 \<or> n = 160)"

definition py_lower :: "string \<Rightarrow> string" where
  "py_lower s = map py_lower_char s"

definition strip_by :: "('a \<Rightarrow> bool) \<Rightarrow> 'a list \<Rightarrow> 'a list" where
  "strip_by p s = rev (dropWhile p (rev (dropWhile p s)))"

definition py_strip :: "string \<Rightarrow> string" where
  "py_strip s = strip_by py_is_space s"

definition sql_lower_char :: "char \<Rightarrow> char" where
  "sql_lower_char c = (let n = of_char c :: nat in if 65 \<le> n \<and> n \<le> 90 then char_of (n + 32) else c)"

definition sql_lower :: "string \<Rightarrow> string" where
  "sql_lower s = map sql_lower_char s"

definition sql_trim :: "string \<Rightarrow> string" where
  "sql_trim s = strip_by (\<lambda>c. c = CHR '' '') s"

definition sql_nocase_eq :: "string \<Rightarrow> string \<Rightarrow> bool" where
  "sql_nocase_eq a b \<longleftrightarrow> sql_lower a = sql_lower b"

lemma of_char_lt_256: "(of_char (c::char) :: nat) < 256"
  by (metis of_char_mod_256 mod_less_divisor zero_less_numeral)

lemma of_char_py_lower_char:
  "(of_char (py_lower_char c) :: nat) =
    (let n = of_char c :: nat in
     if (65 \<le> n \<and> n \<le> 90) \<or> (192 \<le> n \<and> n \<le> 222 \<and> n \<noteq> 215) then n + 32 else n)"
  by (auto simp: py_lower_char_def Let_def)

lemma py_lower_char_idem [simp, py_text]: "py_lower_char (py_lower_char c) = py_lower_char c"
  unfolding py_lower_char_def [of "py_lower_char c"] Let_def of_char_py_lower_char by auto

lemma py_is_space_lower [simp, py_text]: "py_is_space (py_lower_char c) = py_is_space c"
  unfolding py_is_space_def of_char_py_lower_char Let_def by auto

lemma py_lower_idem [simp, py_text]: "py_lower (py_lower s) = py_lower s"
  by (simp add: py_lower_def)

lemma py_lower_Nil_iff [simp, py_text]: "py_lower s = [] \<longleftrightarrow> s = []"
  by (simp add: py_lower_def)

lemma py_lower_Nil [simp]: "py_lower [] = []"
  by (simp add: py_lower_def)

lemma py_strip_Nil [simp, py_text]: "py_strip [] = []"
  by (simp add: py_strip_def strip_by_def)

lemma strip_by_map:
  assumes "\<And>x. p (f x) = p x"
  shows "strip_by p (map f s) = map f (strip_by p s)"
proof -
  have "p \<circ> f = p" using assms by auto
  then show ?thesis
    by (simp add: strip_by_def dropWhile_map rev_map)
qed

lemma py_strip_lower [py_text]: "py_strip (py_lower s) = py_lower (py_strip s)"
  by (simp add: py_strip_def py_lower_def strip_by_map)

lemma strip_by_ends:
  assumes "s \<noteq> []" "\<not> p (hd s)" "\<not> p (last s)"
  shows "strip_by p s = s"
proof -
  have 1: "dropWhile p s = s" using assms by (simp add: dropWhile_eq_self_iff)
  have 2: "dropWhile p (rev s) = rev s"
    using assms by (simp add: dropWhile_eq_self_iff hd_rev)
  show ?thesis by (simp add: strip_by_def 1 2)
qed

lemma strip_by_last: "strip_by p s \<noteq> [] \<Longrightarrow> \<not> p (last (strip_by p s))"
  by (simp add: strip_by_def last_rev hd_dropWhile)

lemma strip_by_hd: "strip_by p s \<noteq> [] \<Longrightarrow> \<not> p (hd (strip_by p s))"
proof -
  let ?d = "dropWhile p s"
  assume ne: "strip_by p s \<noteq> []"
  then have d: "?d \<noteq> []" by (metis dropWhile.simps(1) rev.simps(1) strip_by_def)
  obtain zs where zs: "rev ?d = zs @ dropWhile p (rev ?d)"
    by (metis takeWhile_dropWhile_id)
  then have "?d = strip_by p s @ rev zs"
    by (metis rev_append rev_rev_ident strip_by_def)
  then have "hd (strip_by p s) = hd ?d"
    using ne by (metis hd_append2)
  with d show ?thesis by (simp add: hd_dropWhile)
qed

lemma strip_by_idem [simp]: "strip_by p (strip_by p s) = strip_by p s"
proof (cases "strip_by p s = []")
  case True
  then show ?thesis by (metis dropWhile.simps(1) rev.simps(1) strip_by_def)
next
  case False
  then show ?thesis by (simp add: strip_by_ends strip_by_hd strip_by_last)
qed

lemma py_strip_idem [simp, py_text]: "py_strip (py_strip s) = py_strip s"
  by (simp add: py_strip_def)

subsection \<open>Decimal integers\<close>

fun dec_nat :: "nat \<Rightarrow> string" where
  "dec_nat n = (if n < 10 then [char_of (48 + n)] else dec_nat (n div 10) @ [char_of (48 + n mod 10)])"

declare dec_nat.simps [simp del]

definition is_digit :: "char \<Rightarrow> bool" where
  "is_digit c = (let n = of_char c :: nat in 48 \<le> n \<and> n \<le> 57)"

definition digit_val :: "char \<Rightarrow> nat" where
  "digit_val c = of_char c - 48"

definition undec :: "string \<Rightarrow> nat" where
  "undec s = foldl (\<lambda>a c. 10 * a + digit_val c) 0 s"

lemma digit_char [simp]: "n < 10 \<Longrightarrow> is_digit (char_of (48 + n)) \<and> digit_val (char_of (48 + n)) = n"
  by (simp add: is_digit_def digit_val_def Let_def)

lemma dec_nat_digits: "list_all is_digit (dec_nat n)"
proof (induction n rule: dec_nat.induct)
  case (1 n)
  then show ?case
    by (subst dec_nat.simps) auto
qed

lemma undec_dec_nat [simp]: "undec (dec_nat n) = n"
proof (induction n rule: dec_nat.induct)
  case (1 n)
  show ?case
  proof (cases "n < 10")
    case True
    then show ?thesis by (subst dec_nat.simps) (simp add: undec_def digit_val_def)
  next
    case False
    with "1.IH" have "undec (dec_nat (n div 10)) = n div 10" by blast
    with False show ?thesis
      by (subst dec_nat.simps) (simp add: undec_def digit_val_def)
  qed
qed

lemma dec_nat_inject [simp]: "dec_nat m = dec_nat n \<longleftrightarrow> m = n"
  by (metis undec_dec_nat)

lemma dec_nat_nonempty [simp]: "dec_nat n \<noteq> []"
  by (subst dec_nat.simps) simp

definition dec_int :: "int \<Rightarrow> string" where
  "dec_int i = (if i < 0 then CHR ''-'' # dec_nat (nat (- i)) else dec_nat (nat i))"


subsection \<open>Python floats and SQLite date arithmetic\<close>

text \<open>A Python float: every finite one is a rational number.\<close>

datatype py_float = Fin rat | PInf | NInf | NaN

text \<open>\<open>f"{x:.6f}"\<close> in millionths: the exact value rounded half to even.\<close>

definition round_half_even :: "rat \<Rightarrow> int" where
  "round_half_even x = (let f = \<lfloor>x\<rfloor>; d = x - of_int f in
     if d < 1/2 then f else if d > 1/2 then f + 1 else if even f then f else f + 1)"

definition format_micros :: "rat \<Rightarrow> int" where
  "format_micros x = round_half_even (x * 1000000)"

text \<open>
  The clock is in milliseconds since 1970, the resolution of SQLite's Julian day numbers.
  \<open>datetime('now')\<close> prints whole seconds, and a result after the year 9999 is NULL.
\<close>

definition sql_now :: "int \<Rightarrow> int" where
  "sql_now now = now div 1000"

definition max_date_ms :: int where
  "max_date_ms = 253402300799999"

definition datetime_plus :: "int \<Rightarrow> int \<Rightarrow> int option" where
  "datetime_plus now ms = (if now + ms \<le> max_date_ms then Some ((now + ms) div 1000) else None)"

end
