(* ===== verification/Json_Text.thy ===== *)
theory Json_Text
  imports Manga_Prelude
begin

text \<open>
  The part of \<open>json.dumps(..., ensure_ascii=False)\<close> the program's durable keys use:
  string literals. \<open>json_escape\<close> writes one character as Python's encoder does,
  \<open>json_string\<close> the quoted literal, and \<open>read_string\<close> is a reader of such a literal
  that returns what follows it; \<open>read_json_string\<close> shows that a literal determines
  its string and where it ends, whatever text follows.
\<close>

definition dquote :: char where "dquote = CHR 0x22"
definition backslash :: char where "backslash = CHR 0x5C"

definition hex_char :: "nat \<Rightarrow> char" where
  "hex_char n = (if n < 10 then char_of (48 + n) else char_of (87 + n))"

definition hex_val :: "char \<Rightarrow> nat" where
  "hex_val c = (let n = of_char c :: nat in if n \<le> 57 then n - 48 else n - 87)"

definition json_escape :: "char \<Rightarrow> string" where
  "json_escape c = (let n = of_char c :: nat in
     if n = 34 then [backslash, dquote]
     else if n = 92 then [backslash, backslash]
     else if n = 10 then [backslash, CHR ''n'']
     else if n = 13 then [backslash, CHR ''r'']
     else if n = 9 then [backslash, CHR ''t'']
     else if n = 12 then [backslash, CHR ''f'']
     else if n = 8 then [backslash, CHR ''b'']
     else if n < 32 then [backslash, CHR ''u'', CHR ''0'', CHR ''0'', hex_char (n div 16), hex_char (n mod 16)]
     else [c])"

definition json_string :: "string \<Rightarrow> string" where
  "json_string s = dquote # concat (map json_escape s) @ [dquote]"

text \<open>A reader of the text after the opening quote.\<close>

definition escaped_char :: "char \<Rightarrow> char" where
  "escaped_char c = (if c = CHR ''n'' then char_of (10::nat) else if c = CHR ''r'' then char_of (13::nat)
     else if c = CHR ''t'' then char_of (9::nat) else if c = CHR ''f'' then char_of (12::nat)
     else if c = CHR ''b'' then char_of (8::nat) else c)"

fun read_string :: "string \<Rightarrow> (string \<times> string) option" where
  "read_string [] = None"
| "read_string (c # cs) =
     (if c = dquote then Some ([], cs)
      else if c = backslash then
        (case cs of
           [] \<Rightarrow> None
         | e # ds \<Rightarrow>
             if e = CHR ''u'' then
               (case ds of
                  z1 # z2 # h # l # es \<Rightarrow>
                    map_option (\<lambda>(s, r). (char_of (16 * hex_val h + hex_val l) # s, r)) (read_string es)
                | _ \<Rightarrow> None)
             else map_option (\<lambda>(s, r). (escaped_char e # s, r)) (read_string ds))
      else map_option (\<lambda>(s, r). (c # s, r)) (read_string cs))"

lemma hex_round: "n < 16 \<Longrightarrow> hex_val (hex_char n) = n"
  by (auto simp: hex_val_def hex_char_def Let_def)

lemma dquote_neq_backslash [simp]: "dquote \<noteq> backslash" "backslash \<noteq> dquote"
  by (simp_all add: dquote_def backslash_def)

lemma read_escape:
  "read_string (json_escape c @ t) = map_option (\<lambda>(s, r). (c # s, r)) (read_string t)"
proof -
  let ?n = "of_char c :: nat"
  have c: "c = char_of ?n" by simp
  consider (q) "?n = 34" | (b) "?n = 92" | (n) "?n = 10" | (r) "?n = 13" | (t) "?n = 9"
    | (f) "?n = 12" | (bs) "?n = 8"
    | (ctl) "?n < 32" "?n \<notin> {10, 13, 9, 12, 8}"
    | (raw) "32 \<le> ?n" "?n \<noteq> 34" "?n \<noteq> 92"
    by (metis empty_iff insert_iff leI)
  then show ?thesis
  proof cases
    case ctl
    then have "16 * hex_val (hex_char (?n div 16)) + hex_val (hex_char (?n mod 16)) = ?n"
      by (simp add: hex_round)
    with ctl c show ?thesis by (simp add: json_escape_def Let_def)
  next
    case raw
    then have "c \<noteq> dquote" "c \<noteq> backslash"
      by (auto simp: dquote_def backslash_def)
    with raw show ?thesis by (simp add: json_escape_def)
  next
    case q
    then have "(of_char c :: nat) = of_char dquote" by (simp add: dquote_def)
    then have "c = dquote" by (simp only: of_char_eq_iff)
    then show ?thesis by (simp add: json_escape_def dquote_def backslash_def escaped_char_def)
  next
    case b
    then have "(of_char c :: nat) = of_char backslash" by (simp add: backslash_def)
    then have "c = backslash" by (simp only: of_char_eq_iff)
    then show ?thesis by (simp add: json_escape_def dquote_def backslash_def escaped_char_def)
  qed (use c in \<open>simp_all add: json_escape_def escaped_char_def\<close>)
qed

lemma read_escapes:
  "read_string (concat (map json_escape s) @ dquote # t) = Some (s, t)"
  by (induction s) (simp_all add: read_escape)

lemma read_json_string: "read_string (tl (json_string s @ t)) = Some (s, t)"
  by (simp add: json_string_def read_escapes)

lemma json_string_prefix:
  "json_string s @ t = json_string s' @ t' \<longleftrightarrow> s = s' \<and> t = t'"
  by (metis Pair_inject option.inject read_json_string)

lemma json_string_inject [simp]: "json_string s = json_string t \<longleftrightarrow> s = t"
  using json_string_prefix [of s "[]" t "[]"] by simp

lemma json_string_hd [simp]: "hd (json_string s) = dquote" "json_string s \<noteq> []"
  by (simp_all add: json_string_def)

text \<open>Decimal literals end at the first non-digit.\<close>

lemma dec_nat_prefix:
  assumes "dec_nat m @ a # s = dec_nat n @ b # t" "\<not> is_digit a" "\<not> is_digit b"
  shows "m = n \<and> a = b \<and> s = t"
proof -
  have "takeWhile is_digit (dec_nat k @ x # u) = dec_nat k" if "\<not> is_digit x" for k x u
    using dec_nat_digits [of k] that by (simp add: takeWhile_append2 list_all_iff)
  then have "dec_nat m = dec_nat n" using assms by metis
  then have "m = n" by simp
  with assms(1) show ?thesis by simp
qed

end
