(* ===== verification/Download_Identity.thy ===== *)
theory Download_Identity
  imports Json_Text
begin

text \<open>
  \<^verbatim>\<open>src/app/download_identity.py\<close>: which download rows belong to the same downloader
  item. A download identity is the downloader-local id with the client that owns it
  and its protocol, either of which may be unknown in rows written by old releases.

  \<open>coerce_download_client_id\<close>, \<open>normalize_download_protocol\<close>,
  \<open>protocol_for_client_type\<close> and \<open>normalize_download_id\<close> read stored columns;
  \<open>download_identity_key\<close> is the durable key of an identity, \<open>download_identities_match\<close>
  the conservative comparison, and \<open>resolve_download_protocol\<close> recovers a protocol from
  the client configuration or from unanimous rows of the tables \<open>seen\<close>, \<open>volumes\<close> and
  \<open>chapters\<close>. The locale \<open>wildcard_match\<close> is the contract the users of the
  comparison rely on; it is interpreted on the comparison itself.
\<close>

subsection \<open>Stored values\<close>

text \<open>A value of unknown type, as the functions taking \<open>object\<close> receive it.\<close>

datatype py_value = PyNone | PyBool bool | PyInt int | PyStr string

datatype download_protocol = Torrent | Nzb

definition coerce_download_client_id :: "py_value \<Rightarrow> int option" where
  "coerce_download_client_id v =
     (case v of PyInt n \<Rightarrow> if n > 0 then Some n else None | _ \<Rightarrow> None)"

text \<open>
  \<open>str(value or "").strip().lower()\<close>: for \<open>None\<close>, a bool or an int the text is empty,
  \<open>True\<close> or a number, none of which names a protocol or a client type.
\<close>

definition normalized_text :: "py_value \<Rightarrow> string" where
  "normalized_text v = (case v of PyStr s \<Rightarrow> py_lower (py_strip s) | PyNone \<Rightarrow> []
     | PyBool b \<Rightarrow> (if b then ''true'' else []) | PyInt n \<Rightarrow> (if n = 0 then [] else dec_int n))"

definition normalize_download_protocol :: "py_value \<Rightarrow> download_protocol option" where
  "normalize_download_protocol v =
     (let normalized = normalized_text v in
      if normalized = ''torrent'' then Some Torrent
      else if normalized = ''nzb'' \<or> normalized = ''usenet'' then Some Nzb
      else None)"

definition protocol_for_client_type :: "py_value \<Rightarrow> download_protocol option" where
  "protocol_for_client_type v =
     (let normalized = normalized_text v in
      if normalized = ''qbittorrent'' then Some Torrent
      else if normalized = ''sabnzbd'' then Some Nzb
      else None)"

definition normalize_download_id :: "string \<Rightarrow> download_protocol option \<Rightarrow> string" where
  "normalize_download_id raw protocol =
     (if protocol = Some Nzb then raw else py_lower (py_strip raw))"

record download_identity =
  download_client_id :: "int option"
  protocol :: "download_protocol option"
  download_id :: string

subsection \<open>The durable key\<close>

definition protocol_name :: "download_protocol option \<Rightarrow> string" where
  "protocol_name p = (case p of Some Torrent \<Rightarrow> ''torrent'' | Some Nzb \<Rightarrow> ''nzb'' | None \<Rightarrow> ''unknown'')"

definition owner_value :: "int option \<Rightarrow> py_value" where
  "owner_value c = (case c of None \<Rightarrow> PyNone | Some n \<Rightarrow> PyInt n)"

definition owner_text :: "int option \<Rightarrow> string" where
  "owner_text c = (case c of Some n \<Rightarrow> dec_int n | None \<Rightarrow> json_string ''legacy'')"

definition download_identity_key :: "download_identity \<Rightarrow> string" where
  "download_identity_key i =
     (let normalized_id = normalize_download_id (download_id i) (protocol i) in
      if normalized_id = [] then []
      else
        ''['' @ owner_text (coerce_download_client_id (owner_value (download_client_id i)))
        @ '','' @ json_string (protocol_name (protocol i))
        @ '','' @ json_string normalized_id @ '']'')"

definition download_identity_path_token :: "(string \<Rightarrow> string) \<Rightarrow> download_identity \<Rightarrow> string" where
  "download_identity_path_token sha256_hex i =
     (let key = download_identity_key i in if key = [] then [] else sha256_hex key)"

subsection \<open>The comparison\<close>

definition download_identities_match :: "download_identity \<Rightarrow> download_identity \<Rightarrow> bool" where
  "download_identities_match left right =
     (if download_id left = [] \<or> download_id right = [] then False
      else if download_client_id left \<noteq> None \<and> download_client_id right \<noteq> None
              \<and> download_client_id left \<noteq> download_client_id right then False
      else if protocol left \<noteq> None \<and> protocol right \<noteq> None \<and> protocol left \<noteq> protocol right
      then False
      else let p = (case protocol left of None \<Rightarrow> protocol right | Some q \<Rightarrow> Some q) in
        normalize_download_id (download_id left) p = normalize_download_id (download_id right) p)"

subsection \<open>Recovering the protocol\<close>

record evidence_row =
  ev_protocol :: py_value
  ev_download_id :: "string option"
  ev_series_id :: "int option"
  ev_client_id :: "int option"
  ev_url :: "string option"

record protocol_db =
  client_types :: "(int \<times> py_value) list"
  seen_rows :: "evidence_row list"
  volume_rows :: "evidence_row list"
  chapter_rows :: "evidence_row list"

definition evidence_rows :: "protocol_db \<Rightarrow> evidence_row list" where
  "evidence_rows db = seen_rows db @ volume_rows db @ chapter_rows db"

definition id_evidence ::
  "int \<Rightarrow> int option \<Rightarrow> string \<Rightarrow> evidence_row \<Rightarrow> download_protocol option" where
  "id_evidence series_id client did row =
     (case ev_download_id row of
        None \<Rightarrow> None
      | Some rid \<Rightarrow>
          if \<not> sql_nocase_eq rid did then None
          else case normalize_download_protocol (ev_protocol row) of
            None \<Rightarrow> None
          | Some p \<Rightarrow>
              if ev_series_id row \<noteq> Some series_id \<or> ev_client_id row \<noteq> client
                 \<or> normalize_download_id rid (Some p) \<noteq> normalize_download_id did (Some p)
              then None else Some p)"

definition url_evidence ::
  "int \<Rightarrow> int option \<Rightarrow> string \<Rightarrow> evidence_row \<Rightarrow> download_protocol option" where
  "url_evidence series_id client url row =
     (if ev_series_id row = Some series_id \<and> ev_client_id row = client \<and> ev_url row = Some url
      then normalize_download_protocol (ev_protocol row) else None)"

definition configured_protocol :: "protocol_db \<Rightarrow> int option \<Rightarrow> download_protocol option" where
  "configured_protocol db client =
     (case client of
        None \<Rightarrow> None
      | Some c \<Rightarrow> (case map_of (client_types db) c of
            None \<Rightarrow> None | Some ty \<Rightarrow> protocol_for_client_type ty))"

definition resolve_download_protocol ::
  "protocol_db \<Rightarrow> int option \<Rightarrow> int option \<Rightarrow> string \<Rightarrow> string \<Rightarrow> bool
     \<Rightarrow> download_protocol option" where
  "resolve_download_protocol db client series did url allow_client_configuration =
     (case (if allow_client_configuration then configured_protocol db client else None) of
        Some p \<Rightarrow> Some p
      | None \<Rightarrow>
          (case series of
             None \<Rightarrow> None
           | Some sid \<Rightarrow>
               let protocols =
                 remdups
                   ((if did = [] then [] else List.map_filter (id_evidence sid client did) (evidence_rows db))
                    @ (if url = [] then [] else List.map_filter (url_evidence sid client url) (evidence_rows db)))
               in (case protocols of [p] \<Rightarrow> Some p | _ \<Rightarrow> None)))"

subsection \<open>Lemmas: normalisation and the key\<close>

lemma normalize_download_id_idem [simp]:
  "normalize_download_id (normalize_download_id s p) p = normalize_download_id s p"
  by (simp add: normalize_download_id_def py_strip_lower)

lemma normalize_download_id_Nil [simp]: "normalize_download_id [] p = []"
  by (simp add: normalize_download_id_def)

lemma normalize_nonempty_id: "normalize_download_id s p \<noteq> [] \<Longrightarrow> s \<noteq> []"
  by auto

lemma coerce_owner [simp]:
  "coerce_download_client_id (owner_value c) = (case c of Some n \<Rightarrow> if n > 0 then Some n else None | None \<Rightarrow> None)"
  by (simp add: owner_value_def coerce_download_client_id_def split: option.splits)

lemma protocol_name_inject: "protocol_name p = protocol_name q \<longleftrightarrow> p = q"
  by (auto simp: protocol_name_def split: option.splits download_protocol.splits)

lemma dec_nat_hd: "is_digit (hd (dec_nat n))"
  using dec_nat_digits [of n] by (cases "dec_nat n") auto

lemma owner_text_prefix:
  assumes "owner_text c @ '','' @ s = owner_text d @ '','' @ t"
    and "c = Some m \<Longrightarrow> m > 0" "d = Some n \<Longrightarrow> n > 0"
    and "\<And>m. c = Some m \<Longrightarrow> m > 0" "\<And>m. d = Some m \<Longrightarrow> m > 0"
  shows "c = d \<and> s = t"
proof (cases c; cases d)
  fix i j assume ij: "c = Some i" "d = Some j"
  then have pos: "i > 0" "j > 0" using assms by auto
  have comma: "\<not> is_digit (CHR '','')" by (simp add: is_digit_def)
  have "dec_nat (nat i) @ CHR '','' # s = dec_nat (nat j) @ CHR '','' # t"
    using assms(1) ij pos by (simp add: owner_text_def dec_int_def)
  from dec_nat_prefix [OF this comma comma] pos ij show ?thesis by (simp add: eq_nat_nat_iff)
next
  fix i assume ij: "c = None" "d = Some i"
  with assms have "i > 0" by auto
  with assms(1) ij have "json_string ''legacy'' @ '','' @ s = dec_nat (nat i) @ '','' @ t"
    by (simp add: owner_text_def dec_int_def)
  then have "hd (json_string ''legacy'') = hd (dec_nat (nat i))"
    by (metis dec_nat_nonempty hd_append2 json_string_hd(2))
  then have "is_digit dquote" by (metis dec_nat_hd json_string_hd(1))
  then show ?thesis by (simp add: is_digit_def dquote_def)
next
  fix i assume ij: "c = Some i" "d = None"
  with assms have "i > 0" by auto
  with assms(1) ij have "dec_nat (nat i) @ '','' @ s = json_string ''legacy'' @ '','' @ t"
    by (simp add: owner_text_def dec_int_def)
  then have "hd (json_string ''legacy'') = hd (dec_nat (nat i))"
    by (metis dec_nat_nonempty hd_append2 json_string_hd(2))
  then have "is_digit dquote" by (metis dec_nat_hd json_string_hd(1))
  then show ?thesis by (simp add: is_digit_def dquote_def)
next
  assume "c = None" "d = None"
  with assms(1) show ?thesis by (simp add: owner_text_def json_string_prefix)
qed

definition identity_owner :: "download_identity \<Rightarrow> int option" where
  "identity_owner i = coerce_download_client_id (owner_value (download_client_id i))"

definition normalized_id :: "download_identity \<Rightarrow> string" where
  "normalized_id i = normalize_download_id (download_id i) (protocol i)"

lemma identity_owner_pos: "identity_owner i = Some n \<Longrightarrow> n > 0"
  by (simp add: identity_owner_def split: option.splits if_splits)

lemma key_nonempty_iff: "download_identity_key i \<noteq> [] \<longleftrightarrow> normalized_id i \<noteq> []"
  by (simp add: download_identity_key_def Let_def normalized_id_def)

lemma key_unfold:
  "download_identity_key i =
     (if normalized_id i = [] then []
      else ''['' @ owner_text (identity_owner i) @ '','' @ json_string (protocol_name (protocol i))
        @ '','' @ json_string (normalized_id i) @ '']'')"
  by (simp only: download_identity_key_def Let_def normalized_id_def identity_owner_def)

lemma key_eqI:
  assumes "download_identity_key a = download_identity_key b" "normalized_id a \<noteq> []"
  shows "identity_owner a = identity_owner b \<and> protocol a = protocol b \<and> normalized_id a = normalized_id b"
proof -
  have b: "normalized_id b \<noteq> []" using assms key_nonempty_iff by metis
  have eq: "owner_text (identity_owner a) @ '','' @ json_string (protocol_name (protocol a)) @ '','' @ json_string (normalized_id a) @ '']''
     = owner_text (identity_owner b) @ '','' @ json_string (protocol_name (protocol b)) @ '','' @ json_string (normalized_id b) @ '']''"
    using assms b by (simp add: download_identity_key_def Let_def normalized_id_def identity_owner_def)
  from owner_text_prefix [OF eq] identity_owner_pos
  have "identity_owner a = identity_owner b" and
    "json_string (protocol_name (protocol a)) @ '','' @ json_string (normalized_id a) @ '']''
     = json_string (protocol_name (protocol b)) @ '','' @ json_string (normalized_id b) @ '']''"
    by blast+
  then show ?thesis
    by (simp add: json_string_prefix json_string_inject protocol_name_inject)
qed

lemma key_eq_iff:
  assumes "normalized_id a \<noteq> []"
  shows "download_identity_key a = download_identity_key b \<longleftrightarrow>
    identity_owner a = identity_owner b \<and> protocol a = protocol b \<and> normalized_id a = normalized_id b"
proof
  assume "download_identity_key a = download_identity_key b"
  then show "identity_owner a = identity_owner b \<and> protocol a = protocol b \<and> normalized_id a = normalized_id b"
    using assms by (rule key_eqI)
next
  assume "identity_owner a = identity_owner b \<and> protocol a = protocol b \<and> normalized_id a = normalized_id b"
  then show "download_identity_key a = download_identity_key b"
    by (simp add: key_unfold)
qed

subsection \<open>The contract of a conservative comparison\<close>

text \<open>
  What callers rely on when they use the comparison as a fence: it is symmetric, every
  usable item matches itself, and an unusable one matches nothing. On \<open>concrete\<close> items,
  whose owner and protocol are known, it agrees with equality of a durable key.
\<close>

locale wildcard_match =
  fixes m :: "'a \<Rightarrow> 'a \<Rightarrow> bool" and usable :: "'a \<Rightarrow> bool"
  assumes m_sym: "m a b \<Longrightarrow> m b a"
    and m_refl: "usable a \<Longrightarrow> m a a"
    and m_usable: "m a b \<Longrightarrow> usable a"
begin

lemma m_commute: "m a b \<longleftrightarrow> m b a"
  using m_sym by blast

lemma m_usable2: "m a b \<Longrightarrow> usable b"
  using m_sym m_usable by blast

lemma fence_self: "usable a \<Longrightarrow> a \<in> set xs \<Longrightarrow> list_ex (m a) xs"
  by (auto simp: list_ex_iff intro: m_refl)

lemma fence_unusable: "\<not> usable a \<Longrightarrow> \<not> list_ex (m a) xs"
  by (auto simp: list_ex_iff dest: m_usable)

end

locale keyed_match = wildcard_match +
  fixes concrete :: "'a \<Rightarrow> bool" and key :: "'a \<Rightarrow> 'k"
  assumes m_key: "concrete a \<Longrightarrow> concrete b \<Longrightarrow> m a b \<longleftrightarrow> key a = key b"
begin

lemma m_trans_concrete:
  "concrete a \<Longrightarrow> concrete b \<Longrightarrow> concrete c \<Longrightarrow> m a b \<Longrightarrow> m b c \<Longrightarrow> m a c"
  by (simp add: m_key)

lemma fence_concrete:
  "concrete a \<Longrightarrow> list_all concrete xs \<Longrightarrow> list_ex (m a) xs \<longleftrightarrow> key a \<in> key ` set xs"
  by (auto simp: list_ex_iff list_all_iff m_key)

end

definition usable_identity :: "download_identity \<Rightarrow> bool" where
  "usable_identity i \<longleftrightarrow> download_id i \<noteq> []"

definition concrete_identity :: "download_identity \<Rightarrow> bool" where
  "concrete_identity i \<longleftrightarrow> (\<exists>n > 0. download_client_id i = Some n) \<and> protocol i \<noteq> None \<and> normalized_id i \<noteq> []"

lemma match_iff:
  "download_identities_match a b \<longleftrightarrow>
     download_id a \<noteq> [] \<and> download_id b \<noteq> []
     \<and> \<not> sql_neq (download_client_id a) (download_client_id b)
     \<and> \<not> sql_neq (protocol a) (protocol b)
     \<and> normalize_download_id (download_id a) (sql_coalesce (protocol a) (protocol b))
       = normalize_download_id (download_id b) (sql_coalesce (protocol a) (protocol b))"
  unfolding download_identities_match_def sql_neq_def sql_coalesce_def Let_def
  by (cases "protocol a") simp_all

lemma sql_neq_commute: "sql_neq x y = sql_neq y x"
  by (auto simp: sql_neq_def)

lemma coalesce_compatible: "\<not> sql_neq x y \<Longrightarrow> sql_coalesce x y = sql_coalesce y x"
  by (cases x; cases y) auto

lemma match_sym:
  assumes "download_identities_match a b"
  shows "download_identities_match b a"
proof -
  have "sql_coalesce (protocol b) (protocol a) = sql_coalesce (protocol a) (protocol b)"
    using assms by (metis coalesce_compatible match_iff)
  then show ?thesis
    using assms by (simp add: match_iff sql_neq_commute)
qed

lemma match_refl: "usable_identity a \<Longrightarrow> download_identities_match a a"
  by (simp add: match_iff usable_identity_def sql_neq_def)

lemma match_usable: "download_identities_match a b \<Longrightarrow> usable_identity a"
  by (simp add: match_iff usable_identity_def)

lemma match_key:
  assumes "concrete_identity a" "concrete_identity b"
  shows "download_identities_match a b \<longleftrightarrow> download_identity_key a = download_identity_key b"
proof -
  from assms obtain m n p q where
    ab: "download_client_id a = Some m" "m > 0" "download_client_id b = Some n" "n > 0"
      "protocol a = Some p" "protocol b = Some q" and ne: "normalized_id a \<noteq> []" "normalized_id b \<noteq> []"
    by (auto simp: concrete_identity_def)
  have ids: "download_id a \<noteq> []" "download_id b \<noteq> []"
    using ne by (auto simp: normalized_id_def)
  show ?thesis
    unfolding key_eq_iff [OF ne(1)]
    using ab ids by (auto simp: match_iff identity_owner_def normalized_id_def)
qed

interpretation identity_fence: keyed_match download_identities_match usable_identity
    concrete_identity download_identity_key
  by unfold_locales (auto intro: match_sym match_refl match_usable simp: match_key)

lemmas identity_match_facts =
  identity_fence.m_commute identity_fence.m_usable2 identity_fence.fence_concrete

subsection \<open>Properties\<close>

text \<open>
  C1: the durable key is unambiguous. Two identities with a non-empty normalised id have
  the same key text exactly when they agree on the (positive) owner, the protocol and the
  normalised id, whatever quotes, backslashes, control characters, commas or brackets the
  id contains.
\<close>

theorem download_identity_key_unambiguous:
  assumes "download_identity_key a \<noteq> []"
  shows "download_identity_key a = download_identity_key b \<longleftrightarrow>
    coerce_download_client_id (owner_value (download_client_id a))
      = coerce_download_client_id (owner_value (download_client_id b))
    \<and> protocol a = protocol b
    \<and> normalize_download_id (download_id a) (protocol a) = normalize_download_id (download_id b) (protocol b)"
  using key_eq_iff [of a b] assms
  by (simp add: key_nonempty_iff identity_owner_def normalized_id_def)

theorem download_identity_key_unambiguous_witness:
  "download_identity_key \<lparr>download_client_id = Some 3, protocol = Some Nzb, download_id = ''A,1''\<rparr>
    \<noteq> download_identity_key \<lparr>download_client_id = Some 3, protocol = Some Nzb, download_id = ''a,1''\<rparr>"
  by (subst download_identity_key_unambiguous)
    (simp_all add: key_nonempty_iff normalized_id_def normalize_download_id_def)

text \<open>
  for rows with a known owner and protocol, the conservative comparison is exactly
  equality of durable keys (so it is an equivalence there), and comparing one identity
  against a list of rows is membership of its key in their keys.
\<close>

theorem concrete_identities_match_by_key:
  assumes "concrete_identity a" "list_all concrete_identity rows"
  shows "list_ex (download_identities_match a) rows \<longleftrightarrow>
    download_identity_key a \<in> download_identity_key ` set rows"
  using assms by (rule identity_fence.fence_concrete)

theorem concrete_identities_match_by_key_witness:
  "list_ex (download_identities_match
      \<lparr>download_client_id = Some 2, protocol = Some Torrent, download_id = '' AbC''\<rparr>)
    [\<lparr>download_client_id = Some 2, protocol = Some Torrent, download_id = ''abc''\<rparr>]"
proof (subst concrete_identities_match_by_key)
  have "normalize_download_id '' AbC'' (Some Torrent) = ''abc''"
    "normalize_download_id ''abc'' (Some Torrent) = ''abc''"
    by code_simp+
  note norm = this
  show "concrete_identity \<lparr>download_client_id = Some 2, protocol = Some Torrent, download_id = '' AbC''\<rparr>"
    "list_all concrete_identity
      [\<lparr>download_client_id = Some 2, protocol = Some Torrent, download_id = ''abc''\<rparr>]"
    by (auto simp: concrete_identity_def normalized_id_def norm)
  show "download_identity_key \<lparr>download_client_id = Some 2, protocol = Some Torrent, download_id = '' AbC''\<rparr>
    \<in> download_identity_key ` set [\<lparr>download_client_id = Some 2, protocol = Some Torrent, download_id = ''abc''\<rparr>]"
    by (simp add: download_identity_key_def norm)
qed

end
