(* ===== verification/Import_Lease.thy ===== *)
theory Import_Lease
  imports Download_Identity "HOL-Library.Multiset"
begin

text \<open>
  \<^verbatim>\<open>src/app/import_lease.py\<close>: ownership leases on rows of \<open>import_queue\<close>.

  The state is the part of the database the module reads: the queue, its review files,
  the cleanup reservations, the publication journal, and the three journals that fence a
  series (volume deletions, rescans, chapter quarantine). One definition per function;
  the clock (milliseconds) is an argument, since every statement reads SQLite's own clock.
  The columns \<open>resolved\<close> of the deletion and rescan rows carry the value of the reciprocal
  fence predicates of \<^verbatim>\<open>file_identity_store.py\<close> on that row.
\<close>

subsection \<open>Tables\<close>

datatype queue_status = Pending | Partial | Importing | Imported | Failed | Skipped

datatype publication_state =
  Staging | Prepared | Publishing | Published | Db_committed | Cleaning | Finalized | Deleted

datatype rescan_state = RPrepared | RPublished | RDb_committed | RRollback | RDone

datatype quarantine_state =
  QReserved | QCaptured | QCommitted | QQuarantined | QRolled_back | QRestoring | QRestored

record queue_row =
  q_id :: int
  q_series :: "int option"
  q_download :: "string option"
  q_client :: "int option"
  q_protocol :: "download_protocol option"
  q_status :: queue_status
  q_failed_at :: "int option"
  q_owner :: "string option"
  q_expires :: "int option"

record queue_file = f_queue :: "int option"  f_needs_review :: bool

record reservation =
  res_client :: "int option"
  res_protocol :: "download_protocol option"
  res_normalized :: string
  res_download :: string
  res_cleanup :: bool

record publication = pub_queue :: int  pub_state :: publication_state
record deletion = del_series :: int  del_active :: bool  del_resolved :: bool
record rescan_op = rsc_series :: int  rsc_state :: rescan_state  rsc_resolved :: bool
record quarantine = qua_series :: int  qua_state :: quarantine_state

record lease_db =
  queue :: "queue_row list"
  queue_files :: "queue_file list"
  reservations :: "reservation list"
  publications :: "publication list"
  deletions :: "deletion list"
  rescans :: "rescan_op list"
  quarantines :: "quarantine list"

subsection \<open>The fences of the statements\<close>

definition publication_active :: "publication_state \<Rightarrow> bool" where
  "publication_active st \<longleftrightarrow> st \<in> {Staging, Prepared, Publishing, Published, Db_committed, Cleaning}"

definition has_active_publication :: "lease_db \<Rightarrow> int \<Rightarrow> bool" where
  "has_active_publication db qid \<longleftrightarrow>
     list_ex (\<lambda>p. pub_queue p = qid \<and> publication_active (pub_state p)) (publications db)"

definition reservation_blocks :: "reservation \<Rightarrow> queue_row \<Rightarrow> bool" where
  "reservation_blocks r q \<longleftrightarrow>
     res_cleanup r
     \<and> (res_client r = None \<or> q_client q = None \<or> res_client r = q_client q)
     \<and> (res_protocol r = None \<or> q_protocol q = None \<or> res_protocol r = q_protocol q)
     \<and> (if sql_coalesce (res_protocol r) (q_protocol q) = Some Nzb
        then sql_eq (Some (res_normalized r)) (q_download q)
        else sql_eq (Some (res_normalized r)) (map_option (\<lambda>d. sql_lower (sql_trim d)) (q_download q)))"

definition deletion_fences :: "lease_db \<Rightarrow> int option \<Rightarrow> bool" where
  "deletion_fences db s \<longleftrightarrow>
     list_ex (\<lambda>d. sql_eq (Some (del_series d)) s \<and> del_active d \<and> \<not> del_resolved d) (deletions db)"

definition rescan_fences :: "lease_db \<Rightarrow> int option \<Rightarrow> bool" where
  "rescan_fences db s \<longleftrightarrow>
     list_ex (\<lambda>d. sql_eq (Some (rsc_series d)) s \<and> \<not> rsc_resolved d
       \<and> rsc_state d \<in> {RPrepared, RPublished, RDb_committed, RRollback}) (rescans db)"

definition quarantine_fences :: "lease_db \<Rightarrow> int option \<Rightarrow> bool" where
  "quarantine_fences db s \<longleftrightarrow>
     list_ex (\<lambda>d. sql_eq (Some (qua_series d)) s
       \<and> qua_state d \<in> {QReserved, QCaptured, QCommitted, QRestoring}) (quarantines db)"

definition claim_fenced :: "lease_db \<Rightarrow> queue_row \<Rightarrow> bool" where
  "claim_fenced db q \<longleftrightarrow>
     list_ex (\<lambda>r. reservation_blocks r q) (reservations db)
     \<or> has_active_publication db (q_id q)
     \<or> deletion_fences db (q_series q)
     \<or> rescan_fences db (q_series q)
     \<or> quarantine_fences db (q_series q)"

subsection \<open>Operations\<close>

definition lease_modifier :: "py_float \<Rightarrow> py_exn + int" where
  "lease_modifier lease_seconds =
     (case lease_seconds of
        Fin x \<Rightarrow> if x \<le> 0 then Inl ValueError else Inr ((format_micros x + 500) div 1000)
      | _ \<Rightarrow> Inl ValueError)"

definition retryable :: "queue_status \<Rightarrow> bool" where
  "retryable st \<longleftrightarrow> st = Pending \<or> st = Partial"

definition claim_update ::
  "lease_db \<Rightarrow> int \<Rightarrow> int \<Rightarrow> string \<Rightarrow> queue_status list \<Rightarrow> int \<Rightarrow> string option
     \<Rightarrow> bool \<times> lease_db" where
  "claim_update db now queue_id lease_owner allowed ms observed_download_id =
     (let (rows, n) = sql_update
        (\<lambda>q. q_id q = queue_id \<and> q_status q \<in> set allowed \<and> q_owner q = None
             \<and> q_download q = observed_download_id \<and> \<not> claim_fenced db q)
        (\<lambda>q. q\<lparr>q_status := Importing, q_owner := Some lease_owner,
               q_expires := datetime_plus now ms, q_failed_at := None\<rparr>)
        (queue db)
      in (n = 1, db\<lparr>queue := rows\<rparr>))"

definition observed_download :: "lease_db \<Rightarrow> int \<Rightarrow> string option" where
  "observed_download db queue_id =
     (case find (\<lambda>q. q_id q = queue_id) (queue db) of None \<Rightarrow> None | Some q \<Rightarrow> q_download q)"

definition claim_import_queue_row ::
  "lease_db \<Rightarrow> int \<Rightarrow> int \<Rightarrow> string \<Rightarrow> queue_status list \<Rightarrow> py_float
     \<Rightarrow> py_exn + bool \<times> lease_db" where
  "claim_import_queue_row db now queue_id lease_owner allowed lease_seconds =
     (if lease_owner = [] then Inl ValueError
      else if allowed = [] then Inl ValueError
      else if \<not> list_all retryable allowed then Inl ValueError
      else case lease_modifier lease_seconds of
        Inl e \<Rightarrow> Inl e
      | Inr ms \<Rightarrow> Inr (claim_update db now queue_id lease_owner allowed ms
                          (observed_download db queue_id)))"

definition live_row :: "int \<Rightarrow> int \<Rightarrow> string \<Rightarrow> queue_row \<Rightarrow> bool" where
  "live_row now queue_id lease_owner q \<longleftrightarrow>
     q_id q = queue_id \<and> q_status q = Importing \<and> q_owner q = Some lease_owner
     \<and> (case q_expires q of None \<Rightarrow> False | Some x \<Rightarrow> x > sql_now now)"

definition refresh_import_queue_lease ::
  "lease_db \<Rightarrow> int \<Rightarrow> int \<Rightarrow> string \<Rightarrow> py_float \<Rightarrow> py_exn + bool \<times> lease_db" where
  "refresh_import_queue_lease db now queue_id lease_owner lease_seconds =
     (if lease_owner = [] then Inr (False, db)
      else case lease_modifier lease_seconds of
        Inl e \<Rightarrow> Inl e
      | Inr ms \<Rightarrow>
          (let (rows, n) = sql_update (live_row now queue_id lease_owner)
             (\<lambda>q. q\<lparr>q_expires := datetime_plus now ms\<rparr>) (queue db)
           in Inr (n = 1, db\<lparr>queue := rows\<rparr>)))"

definition owns_import_queue_lease :: "lease_db \<Rightarrow> int \<Rightarrow> int \<Rightarrow> string \<Rightarrow> bool" where
  "owns_import_queue_lease db now queue_id lease_owner \<longleftrightarrow>
     lease_owner \<noteq> [] \<and> list_ex (live_row now queue_id lease_owner) (queue db)"

definition transition_import_queue_row ::
  "lease_db \<Rightarrow> int \<Rightarrow> int \<Rightarrow> string \<Rightarrow> queue_status \<Rightarrow> py_exn + bool \<times> lease_db" where
  "transition_import_queue_row db now queue_id lease_owner new_status =
     (if new_status = Importing then Inl ValueError
      else if lease_owner = [] then Inr (False, db)
      else
        (let (rows, n) = sql_update
           (\<lambda>q. live_row now queue_id lease_owner q \<and> \<not> has_active_publication db (q_id q))
           (\<lambda>q. q\<lparr>q_status := new_status, q_owner := None, q_expires := None,
                  q_failed_at := (if new_status = Failed then Some (sql_now now) else q_failed_at q)\<rparr>)
           (queue db)
         in Inr (n = 1, db\<lparr>queue := rows\<rparr>)))"

definition retryable_import_queue_status :: "lease_db \<Rightarrow> int \<Rightarrow> queue_status" where
  "retryable_import_queue_status db queue_id =
     (if list_ex (\<lambda>f. f_queue f = Some queue_id \<and> f_needs_review f) (queue_files db)
      then Partial else Pending)"

definition release_import_queue_lease ::
  "lease_db \<Rightarrow> int \<Rightarrow> int \<Rightarrow> string \<Rightarrow> py_exn + bool \<times> lease_db" where
  "release_import_queue_lease db now queue_id lease_owner =
     transition_import_queue_row db now queue_id lease_owner
       (retryable_import_queue_status db queue_id)"

definition may_still_use :: "lease_db \<Rightarrow> queue_row \<Rightarrow> bool" where
  "may_still_use db q \<longleftrightarrow>
     q_status q \<in> {Pending, Partial, Importing} \<or> q_owner q \<noteq> None
     \<or> has_active_publication db (q_id q)"

definition stored_protocol :: "download_protocol option \<Rightarrow> py_value" where
  "stored_protocol p = (case p of None \<Rightarrow> PyNone | Some q \<Rightarrow> PyStr (protocol_name (Some q)))"

definition has_import_sibling_that_may_use_download ::
  "lease_db \<Rightarrow> int \<Rightarrow> string option \<Rightarrow> py_value \<Rightarrow> int option \<Rightarrow> download_protocol option
     \<Rightarrow> bool" where
  "has_import_sibling_that_may_use_download db queue_id download_id' client series proto =
     (case download_id' of
        None \<Rightarrow> False
      | Some did \<Rightarrow>
          if did = [] then False
          else
            let owner_id = coerce_download_client_id client;
                target_protocol =
                  (case normalize_download_protocol (stored_protocol proto) of
                     Some p \<Rightarrow> Some p
                   | None \<Rightarrow>
                       (case find (\<lambda>q. q_id q = queue_id) (queue db) of
                          None \<Rightarrow> None
                        | Some q \<Rightarrow> normalize_download_protocol (stored_protocol (q_protocol q))));
                id_filter =
                  (\<lambda>d. if target_protocol = Some Nzb then d = did else sql_nocase_eq d did);
                rows =
                  filter (\<lambda>q. q_id q \<noteq> queue_id
                    \<and> (case q_download q of None \<Rightarrow> False | Some d \<Rightarrow> id_filter d)
                    \<and> may_still_use db q) (queue db);
                target = \<lparr>download_client_id = owner_id, protocol = target_protocol,
                          download_id = did\<rparr>
            in list_ex (\<lambda>row.
                 \<not> (series \<noteq> None \<and> q_series row \<noteq> series)
                 \<and> download_identities_match target
                     \<lparr>download_client_id = coerce_download_client_id (owner_value (q_client row)),
                      protocol = normalize_download_protocol (stored_protocol (q_protocol row)),
                      download_id = (case q_download row of None \<Rightarrow> [] | Some d \<Rightarrow> d)\<rparr>) rows)"

text \<open>
  Recovery reads its candidates first, ordered by expiry (NULLs first) and id, and then
  changes each with a compare-and-set on the owner it read.
\<close>

definition lease_expired :: "int \<Rightarrow> queue_row \<Rightarrow> bool" where
  "lease_expired now q \<longleftrightarrow>
     q_owner q = None \<or> (case q_expires q of None \<Rightarrow> True | Some x \<Rightarrow> x \<le> sql_now now)"

definition recoverable :: "lease_db \<Rightarrow> int \<Rightarrow> queue_row \<Rightarrow> bool" where
  "recoverable db now q \<longleftrightarrow>
     q_status q = Importing \<and> \<not> has_active_publication db (q_id q) \<and> lease_expired now q"

definition expiry_le :: "int option \<times> int \<Rightarrow> int option \<times> int \<Rightarrow> bool" where
  "expiry_le a b = (case (fst a, fst b) of
      (None, None) \<Rightarrow> snd a \<le> snd b
    | (None, Some _) \<Rightarrow> True
    | (Some _, None) \<Rightarrow> False
    | (Some x, Some y) \<Rightarrow> x < y \<or> (x = y \<and> snd a \<le> snd b))"

fun insert_candidate :: "queue_row \<Rightarrow> queue_row list \<Rightarrow> queue_row list" where
  "insert_candidate q [] = [q]"
| "insert_candidate q (r # rs) =
     (if expiry_le (q_expires q, q_id q) (q_expires r, q_id r) then q # r # rs
      else r # insert_candidate q rs)"

definition recovery_candidates ::
  "lease_db \<Rightarrow> int \<Rightarrow> int \<Rightarrow> (int \<times> string option \<times> queue_status) list" where
  "recovery_candidates db now max_rows =
     map (\<lambda>q. (q_id q, q_owner q, retryable_import_queue_status db (q_id q)))
       (take (nat max_rows)
         (foldr insert_candidate (filter (recoverable db now) (queue db)) []))"

definition recover_one ::
  "int \<Rightarrow> int \<times> string option \<times> queue_status \<Rightarrow> lease_db \<times> int \<Rightarrow> lease_db \<times> int" where
  "recover_one now c st =
     (case c of (queue_id, lease_owner, retry_status) \<Rightarrow>
        (let db = fst st;
             (rows, n) = sql_update
               (\<lambda>q. q_id q = queue_id \<and> q_owner q = lease_owner \<and> recoverable db now q)
               (\<lambda>q. q\<lparr>q_status := retry_status, q_owner := None, q_expires := None\<rparr>)
               (queue db)
         in (db\<lparr>queue := rows\<rparr>, snd st + (if n = 1 then 1 else 0))))"

definition recover_expired_import_leases :: "lease_db \<Rightarrow> int \<Rightarrow> int \<Rightarrow> lease_db \<times> int" where
  "recover_expired_import_leases db now max_rows =
     (if max_rows \<le> 0 then (db, 0)
      else fold (recover_one now) (recovery_candidates db now max_rows) (db, 0))"

definition fail_stale_pending_import_queue_row ::
  "lease_db \<Rightarrow> int \<Rightarrow> int \<Rightarrow> queue_status \<Rightarrow> bool \<times> lease_db" where
  "fail_stale_pending_import_queue_row db now queue_id observed_status =
     (if \<not> retryable observed_status then (False, db)
      else
        (let (rows, n) = sql_update
           (\<lambda>q. q_id q = queue_id \<and> q_status q = observed_status \<and> q_owner q = None
                \<and> \<not> has_active_publication db (q_id q))
           (\<lambda>q. q\<lparr>q_status := Failed, q_failed_at := Some (sql_now now),
                  q_owner := None, q_expires := None\<rparr>)
           (queue db)
         in (n = 1, db\<lparr>queue := rows\<rparr>)))"


subsection \<open>The statements as row updates\<close>

definition lookup_row :: "lease_db \<Rightarrow> int \<Rightarrow> queue_row option" where
  "lookup_row db qid = find (\<lambda>q. q_id q = qid) (queue db)"

definition upd_queue :: "(queue_row \<Rightarrow> bool) \<Rightarrow> (queue_row \<Rightarrow> queue_row) \<Rightarrow> lease_db \<Rightarrow> lease_db" where
  "upd_queue P f db = db\<lparr>queue := map (\<lambda>q. if P q then f q else q) (queue db)\<rparr>"

lemma upd_queue_simps [simp]:
  "queue (upd_queue P f db) = map (\<lambda>q. if P q then f q else q) (queue db)"
  "queue_files (upd_queue P f db) = queue_files db"
  "publications (upd_queue P f db) = publications db"
  "reservations (upd_queue P f db) = reservations db"
  "deletions (upd_queue P f db) = deletions db"
  "rescans (upd_queue P f db) = rescans db"
  "quarantines (upd_queue P f db) = quarantines db"
  by (simp_all add: upd_queue_def)

lemma has_active_publication_upd [simp]:
  "has_active_publication (upd_queue P f db) = has_active_publication db"
  by (simp add: has_active_publication_def fun_eq_iff)

lemma recoverable_upd [simp]: "recoverable (upd_queue P f db) = recoverable db"
  by (simp add: recoverable_def fun_eq_iff)

lemma retry_status_upd [simp]:
  "retryable_import_queue_status (upd_queue P f db) = retryable_import_queue_status db"
  by (simp add: retryable_import_queue_status_def fun_eq_iff)

lemma lookup_upd_queue:
  assumes "\<And>r. q_id (f r) = q_id r"
  shows "lookup_row (upd_queue P f db) qid = map_option (\<lambda>q. if P q then f q else q) (lookup_row db qid)"
  unfolding lookup_row_def upd_queue_simps by (rule find_map_key) (simp add: assms)

lemma lookup_upd_idle:
  assumes "\<And>r. q_id (f r) = q_id r" "lookup_row db qid = Some r" "\<not> P r"
  shows "lookup_row (upd_queue P f db) qid = Some r"
  using assms by (simp add: lookup_upd_queue)

lemma lookup_row_Some: "lookup_row db qid = Some r \<Longrightarrow> r \<in> set (queue db) \<and> q_id r = qid"
  unfolding lookup_row_def by (rule find_key_id)

lemma upd_queue_twice:
  assumes "\<And>r. Q r \<Longrightarrow> \<not> P (f r)"
  shows "upd_queue P f (upd_queue Q f db) = upd_queue (\<lambda>r. Q r \<or> P r) f db"
  using assms by (auto simp: upd_queue_def)

text \<open>A single-row statement: what it returns and what it leaves behind.\<close>

definition claim_guard :: "lease_db \<Rightarrow> int \<Rightarrow> queue_status list \<Rightarrow> string option \<Rightarrow> queue_row \<Rightarrow> bool" where
  "claim_guard db qid allowed observed q \<longleftrightarrow>
     q_id q = qid \<and> q_status q \<in> set allowed \<and> q_owner q = None
     \<and> q_download q = observed \<and> \<not> claim_fenced db q"

definition claim_set :: "int \<Rightarrow> string \<Rightarrow> int \<Rightarrow> queue_row \<Rightarrow> queue_row" where
  "claim_set now w ms q = q\<lparr>q_status := Importing, q_owner := Some w,
      q_expires := datetime_plus now ms, q_failed_at := None\<rparr>"

definition transition_guard :: "lease_db \<Rightarrow> int \<Rightarrow> int \<Rightarrow> string \<Rightarrow> queue_row \<Rightarrow> bool" where
  "transition_guard db now qid w q \<longleftrightarrow> live_row now qid w q \<and> \<not> has_active_publication db (q_id q)"

definition transition_set :: "int \<Rightarrow> queue_status \<Rightarrow> queue_row \<Rightarrow> queue_row" where
  "transition_set now st q = q\<lparr>q_status := st, q_owner := None, q_expires := None,
      q_failed_at := (if st = Failed then Some (sql_now now) else q_failed_at q)\<rparr>"

definition fail_guard :: "lease_db \<Rightarrow> int \<Rightarrow> queue_status \<Rightarrow> queue_row \<Rightarrow> bool" where
  "fail_guard db qid st q \<longleftrightarrow> q_id q = qid \<and> q_status q = st \<and> q_owner q = None
     \<and> \<not> has_active_publication db (q_id q)"

definition fail_set :: "int \<Rightarrow> queue_row \<Rightarrow> queue_row" where
  "fail_set now q = q\<lparr>q_status := Failed, q_failed_at := Some (sql_now now),
      q_owner := None, q_expires := None\<rparr>"

definition recover_set :: "lease_db \<Rightarrow> queue_row \<Rightarrow> queue_row" where
  "recover_set db q = q\<lparr>q_status := retryable_import_queue_status db (q_id q),
      q_owner := None, q_expires := None\<rparr>"

lemma row_set_ids [simp]:
  "q_id (claim_set now w ms q) = q_id q" "q_id (transition_set now st q) = q_id q"
  "q_id (fail_set now q) = q_id q" "q_id (recover_set db q) = q_id q"
  by (simp_all add: claim_set_def transition_set_def fail_set_def recover_set_def)

lemma claim_update_eq:
  "claim_update db now qid w allowed ms obs =
     (length (filter (claim_guard db qid allowed obs) (queue db)) = 1,
      upd_queue (claim_guard db qid allowed obs) (claim_set now w ms) db)"
  by (simp add: claim_update_def sql_update_def upd_queue_def claim_guard_def [abs_def]
      claim_set_def [abs_def])

lemma transition_eq:
  assumes "st \<noteq> Importing" "w \<noteq> []"
  shows "transition_import_queue_row db now qid w st =
     Inr (length (filter (transition_guard db now qid w) (queue db)) = 1,
          upd_queue (transition_guard db now qid w) (transition_set now st) db)"
  using assms
  by (simp add: transition_import_queue_row_def sql_update_def upd_queue_def
      transition_guard_def [abs_def] transition_set_def [abs_def])

lemma fail_eq:
  assumes "retryable st"
  shows "fail_stale_pending_import_queue_row db now qid st =
     (length (filter (fail_guard db qid st) (queue db)) = 1,
      upd_queue (fail_guard db qid st) (fail_set now) db)"
  using assms
  by (simp add: fail_stale_pending_import_queue_row_def sql_update_def upd_queue_def
      fail_guard_def [abs_def] fail_set_def [abs_def])

lemma refresh_eq:
  assumes "w \<noteq> []" "lease_modifier secs = Inr ms"
  shows "refresh_import_queue_lease db now qid w secs =
     Inr (length (filter (live_row now qid w) (queue db)) = 1,
          upd_queue (live_row now qid w) (\<lambda>q. q\<lparr>q_expires := datetime_plus now ms\<rparr>) db)"
  using assms by (simp add: refresh_import_queue_lease_def sql_update_def upd_queue_def)

lemma one_row_iff:
  assumes "distinct (map q_id (queue db))" "\<And>q. P q \<Longrightarrow> q_id q = qid"
  shows "length (filter P (queue db)) = 1 \<longleftrightarrow> (\<exists>q \<in> set (queue db). P q)"
proof -
  have "filter P (queue db) = filter (\<lambda>q. q_id q = qid \<and> P q) (queue db)"
    using assms(2) by (intro filter_cong) auto
  then show ?thesis
    using length_filter_key [OF assms(1), of qid P] assms(2) by auto
qed

lemma no_row_upd: "(\<And>q. q \<in> set (queue db) \<Longrightarrow> \<not> P q) \<Longrightarrow> upd_queue P f db = db"
  by (simp add: upd_queue_def map_idI)


subsection \<open>Recovery\<close>

definition candidate :: "lease_db \<Rightarrow> queue_row \<Rightarrow> int \<times> string option \<times> queue_status" where
  "candidate db q = (q_id q, q_owner q, retryable_import_queue_status db (q_id q))"

lemma mset_insert_candidate [simp]: "mset (insert_candidate q rs) = add_mset q (mset rs)"
  by (induction rs) auto

lemma mset_sorted_candidates: "mset (foldr insert_candidate rs []) = mset rs"
  by (induction rs) simp_all

lemma expiry_le_linear: "\<not> expiry_le a b \<Longrightarrow> expiry_le b a"
  by (auto simp: expiry_le_def split: option.splits)

lemma expiry_le_trans: "expiry_le a b \<Longrightarrow> expiry_le b c \<Longrightarrow> expiry_le a c"
  by (auto simp: expiry_le_def split: option.splits)

definition oldest_first :: "queue_row \<Rightarrow> queue_row \<Rightarrow> bool" where
  "oldest_first q r \<longleftrightarrow> expiry_le (q_expires q, q_id q) (q_expires r, q_id r)"

lemma set_insert_candidate [simp]: "set (insert_candidate q rs) = insert q (set rs)"
  by (induction rs) auto

lemma sorted_insert_candidate:
  "sorted_wrt oldest_first rs \<Longrightarrow> sorted_wrt oldest_first (insert_candidate q rs)"
  by (induction rs) (auto simp: oldest_first_def dest: expiry_le_linear intro: expiry_le_trans)

lemma sorted_candidates: "sorted_wrt oldest_first (foldr insert_candidate rs [])"
  by (induction rs) (simp_all add: sorted_insert_candidate)

lemma recover_one_eq:
  "recover_one now (candidate db q) (db', k) =
     (upd_queue (\<lambda>r. q_id r = q_id q \<and> q_owner r = q_owner q \<and> recoverable db' now r)
        (\<lambda>r. r\<lparr>q_status := retryable_import_queue_status db (q_id q), q_owner := None, q_expires := None\<rparr>) db',
      k + (if length (filter (\<lambda>r. q_id r = q_id q \<and> q_owner r = q_owner q \<and> recoverable db' now r)
             (queue db')) = 1 then 1 else 0))"
  by (simp add: recover_one_def candidate_def sql_update_def upd_queue_def)

lemma recover_one_row:
  assumes "distinct (map q_id (queue db'))" "q \<in> set (queue db')" "recoverable db' now q"
    and "retryable_import_queue_status db = retryable_import_queue_status db'"
  shows "recover_one now (candidate db q) (db', k) = (upd_queue (\<lambda>r. r = q) (recover_set db') db', k + 1)"
proof -
  let ?P = "\<lambda>r. q_id r = q_id q \<and> q_owner r = q_owner q \<and> recoverable db' now r"
  have P: "?P r \<longleftrightarrow> r = q" if "r \<in> set (queue db')" for r
    using assms that by (metis distinct_key_unique)
  have "length (filter ?P (queue db')) = 1"
    using one_row_iff [OF assms(1), of ?P "q_id q"] assms(2,3) by blast
  moreover have "upd_queue ?P
      (\<lambda>r. r\<lparr>q_status := retryable_import_queue_status db (q_id q), q_owner := None, q_expires := None\<rparr>) db'
    = upd_queue (\<lambda>r. r = q) (recover_set db') db'"
    unfolding upd_queue_def using P assms(4) by (auto simp: recover_set_def)
  ultimately show ?thesis by (simp only: recover_one_eq) simp
qed

lemma recover_fold:
  assumes "distinct (map q_id (queue db'))" "distinct (map q_id qs)"
    and "set qs \<subseteq> set (queue db')" "\<forall>q \<in> set qs. recoverable db' now q"
    and "retryable_import_queue_status db = retryable_import_queue_status db'"
  shows "fold (recover_one now) (map (candidate db) qs) (db', k) =
    (upd_queue (\<lambda>r. r \<in> set qs) (recover_set db') db', k + int (length qs))"
  using assms
proof (induction qs arbitrary: db' k)
  case Nil
  then show ?case by (simp add: upd_queue_def)
next
  case (Cons q qs)
  let ?db = "upd_queue (\<lambda>r. r = q) (recover_set db') db'"
  have step: "recover_one now (candidate db q) (db', k) = (?db, k + 1)"
    using Cons.prems by (intro recover_one_row) auto
  have ids: "map q_id (queue ?db) = map q_id (queue db')"
    unfolding upd_queue_simps by (rule map_key_update) simp
  have new_id: "q_id (recover_set db' q) \<notin> q_id ` set qs" and q_new: "q \<notin> set qs"
    using Cons.prems(2) by auto
  have sub: "set qs \<subseteq> set (queue ?db)"
  proof
    fix r assume "r \<in> set qs"
    then have "r \<in> set (queue db')" "r \<noteq> q" using Cons.prems q_new by auto
    then show "r \<in> set (queue ?db)" by (auto intro!: image_eqI [where x = r])
  qed
  have "fold (recover_one now) (map (candidate db) qs) (?db, k + 1) =
      (upd_queue (\<lambda>r. r \<in> set qs) (recover_set ?db) ?db, (k + 1) + int (length qs))"
  proof (rule Cons.IH)
    show "distinct (map q_id (queue ?db))" unfolding ids by (rule Cons.prems(1))
  qed (use Cons.prems sub in simp_all)
  moreover have "recover_set ?db = recover_set db'"
    by (simp add: recover_set_def fun_eq_iff)
  moreover have "upd_queue (\<lambda>r. r \<in> set qs) (recover_set db') ?db
      = upd_queue (\<lambda>r. r \<in> set (q # qs)) (recover_set db') db'"
    using imageI [of "recover_set db' q" "set qs" q_id] new_id
    by (subst upd_queue_twice) (auto simp: upd_queue_def)
  ultimately show ?case using step by simp
qed

lemma recover_limited:
  fixes db :: lease_db and now max_rows :: int
  assumes "distinct (map q_id (queue db))" "max_rows > 0"
  defines "qs \<equiv> take (nat max_rows) (foldr insert_candidate (filter (recoverable db now) (queue db)) [])"
  shows "recover_expired_import_leases db now max_rows =
    (upd_queue (\<lambda>r. r \<in> set qs) (recover_set db) db, int (length qs))"
    and "set qs \<subseteq> set (filter (recoverable db now) (queue db))"
    and "length qs = min (nat max_rows) (length (filter (recoverable db now) (queue db)))"
proof -
  let ?all = "foldr insert_candidate (filter (recoverable db now) (queue db)) []"
  have m: "mset ?all = mset (filter (recoverable db now) (queue db))"
    by (rule mset_sorted_candidates)
  then have s: "set ?all = set (filter (recoverable db now) (queue db))"
    by (metis set_mset_mset)
  have "mset (map q_id ?all) = mset (map q_id (filter (recoverable db now) (queue db)))"
    using m by (metis mset_map)
  moreover have "distinct (map q_id (filter (recoverable db now) (queue db)))"
    using assms(1) by (metis distinct_map_filter)
  ultimately have d: "distinct (map q_id ?all)"
    by (metis mset_eq_imp_distinct_iff)
  have dqs: "distinct (map q_id qs)"
    unfolding qs_def using d by (metis distinct_take take_map)
  show sub: "set qs \<subseteq> set (filter (recoverable db now) (queue db))"
    unfolding qs_def using s set_take_subset by fast
  show "length qs = min (nat max_rows) (length (filter (recoverable db now) (queue db)))"
    unfolding qs_def using m by (metis length_take min.commute size_mset)
  have cands: "recovery_candidates db now max_rows = map (candidate db) qs"
    by (simp add: recovery_candidates_def qs_def candidate_def)
  have "fold (recover_one now) (map (candidate db) qs) (db, 0) =
      (upd_queue (\<lambda>r. r \<in> set qs) (recover_set db) db, 0 + int (length qs))"
    by (rule recover_fold) (use assms dqs sub in auto)
  then show "recover_expired_import_leases db now max_rows =
    (upd_queue (\<lambda>r. r \<in> set qs) (recover_set db) db, int (length qs))"
    using assms(2) cands by (simp add: recover_expired_import_leases_def)
qed

text \<open>With room for every expired row, one call recovers exactly the recoverable ones.\<close>

lemma recover_all:
  assumes "distinct (map q_id (queue db))"
    and "int (length (filter (recoverable db now) (queue db))) \<le> max_rows" "max_rows > 0"
  shows "recover_expired_import_leases db now max_rows =
    (upd_queue (recoverable db now) (recover_set db) db,
     int (length (filter (recoverable db now) (queue db))))"
proof -
  let ?all = "foldr insert_candidate (filter (recoverable db now) (queue db)) []"
  have m: "mset ?all = mset (filter (recoverable db now) (queue db))"
    by (rule mset_sorted_candidates)
  then have len: "length ?all = length (filter (recoverable db now) (queue db))"
    by (metis size_mset)
  with assms have "take (nat max_rows) ?all = ?all" by simp
  moreover have "set ?all = set (filter (recoverable db now) (queue db))"
    using m by (metis set_mset_mset)
  moreover have "upd_queue (\<lambda>r. r \<in> set (filter (recoverable db now) (queue db))) (recover_set db) db
      = upd_queue (recoverable db now) (recover_set db) db"
    by (auto simp: upd_queue_def)
  ultimately show ?thesis
    using recover_limited(1) [OF assms(1,3), where now = now] len by simp
qed

lemma recover_idle:
  assumes "lookup_row db qid = Some r" "\<not> recoverable db now r"
  shows "lookup_row (fst (recover_expired_import_leases db now max_rows)) qid = Some r"
proof -
  have "lookup_row (fst (fold (recover_one now) cs (db', k))) qid = Some r"
    if "lookup_row db' qid = Some r" "recoverable db' = recoverable db" for cs db' k
    using that
  proof (induction cs arbitrary: db' k)
    case Nil
    then show ?case by simp
  next
    case (Cons c cs)
    obtain i w st where c: "c = (i, w, st)" by (cases c)
    let ?P = "\<lambda>r. q_id r = i \<and> q_owner r = w \<and> recoverable db' now r"
    let ?f = "\<lambda>r. r\<lparr>q_status := st, q_owner := None, q_expires := None\<rparr>"
    have one: "fst (recover_one now c (db', k)) = upd_queue ?P ?f db'"
      by (simp add: recover_one_def c sql_update_def upd_queue_def)
    have "lookup_row (upd_queue ?P ?f db') qid = Some r"
      using Cons.prems assms(2) by (intro lookup_upd_idle) auto
    then show ?case
      using Cons.IH [of "upd_queue ?P ?f db'" "snd (recover_one now c (db', k))"] Cons.prems(2)
      by (metis fold_simps(2) one prod.collapse recoverable_upd)
  qed
  with assms(1) show ?thesis by (simp add: recover_expired_import_leases_def)
qed


subsection \<open>Events and runs\<close>

text \<open>
  The operations in the order the workers' statements reach the database, each with the
  clock it reads. An operation that raises leaves the database as it was: every check
  precedes the first statement.
\<close>

datatype lease_event =
    Claim int int string "queue_status list" py_float
  | Refresh int int string py_float
  | Transition int int string queue_status
  | Release int int string
  | Recover int int
  | Fail_stale int int queue_status

definition keep_on_error :: "lease_db \<Rightarrow> py_exn + bool \<times> lease_db \<Rightarrow> lease_db" where
  "keep_on_error db r = (case r of Inl _ \<Rightarrow> db | Inr (_, db') \<Rightarrow> db')"

fun lease_step :: "lease_db \<Rightarrow> lease_event \<Rightarrow> lease_db" where
  "lease_step db (Claim now q w allowed secs) = keep_on_error db (claim_import_queue_row db now q w allowed secs)"
| "lease_step db (Refresh now q w secs) = keep_on_error db (refresh_import_queue_lease db now q w secs)"
| "lease_step db (Transition now q w st) = keep_on_error db (transition_import_queue_row db now q w st)"
| "lease_step db (Release now q w) = keep_on_error db (release_import_queue_lease db now q w)"
| "lease_step db (Recover now k) = fst (recover_expired_import_leases db now k)"
| "lease_step db (Fail_stale now q st) = snd (fail_stale_pending_import_queue_row db now q st)"

fun event_actor :: "lease_event \<Rightarrow> string option" where
  "event_actor (Claim _ _ w _ _) = Some w"
| "event_actor (Refresh _ _ w _) = Some w"
| "event_actor (Transition _ _ w _) = Some w"
| "event_actor (Release _ _ w) = Some w"
| "event_actor _ = None"

fun event_clock :: "lease_event \<Rightarrow> int" where
  "event_clock (Claim now _ _ _ _) = now"
| "event_clock (Refresh now _ _ _) = now"
| "event_clock (Transition now _ _ _) = now"
| "event_clock (Release now _ _) = now"
| "event_clock (Recover now _) = now"
| "event_clock (Fail_stale now _ _) = now"

text \<open>Every event is the identity or a guarded row update, except recovery.\<close>

lemma keep_on_error_simps [simp]:
  "keep_on_error db (Inl e) = db" "keep_on_error db (Inr (b, db')) = db'"
  by (simp_all add: keep_on_error_def)

lemma claim_step_cases:
  obtains "lease_step db (Claim now q w allowed secs) = db"
  | ms where "list_all retryable allowed" "w \<noteq> []"
      "lease_step db (Claim now q w allowed secs)
        = upd_queue (claim_guard db q allowed (observed_download db q)) (claim_set now w ms) db"
proof (cases "w = [] \<or> allowed = [] \<or> \<not> list_all retryable allowed \<or> isl (lease_modifier secs)")
  case True
  then have "lease_step db (Claim now q w allowed secs) = db"
    by (auto simp: claim_import_queue_row_def isl_def)
  then show ?thesis by (rule that(1))
next
  case False
  then obtain ms where "lease_modifier secs = Inr ms" by (metis sum.collapse(2))
  with False show ?thesis using that(2) by (simp add: claim_import_queue_row_def claim_update_eq)
qed

lemma refresh_step_cases:
  obtains "lease_step db (Refresh now q w secs) = db"
  | ms where "lease_step db (Refresh now q w secs)
        = upd_queue (live_row now q w) (\<lambda>r. r\<lparr>q_expires := datetime_plus now ms\<rparr>) db"
proof (cases "w = []")
  case True
  then show ?thesis using that(1) by (simp add: refresh_import_queue_lease_def)
next
  case False
  show ?thesis
  proof (cases "lease_modifier secs")
    case (Inl e)
    with False show ?thesis using that(1) by (simp add: refresh_import_queue_lease_def)
  next
    case (Inr ms)
    with False show ?thesis using that(2) by (simp add: refresh_eq)
  qed
qed

lemma transition_step_cases:
  obtains "lease_step db (Transition now q w st) = db"
  | "st \<noteq> Importing" "w \<noteq> []"
      "lease_step db (Transition now q w st) = upd_queue (transition_guard db now q w) (transition_set now st) db"
proof (cases "st = Importing \<or> w = []")
  case True
  then show ?thesis using that(1) by (auto simp: transition_import_queue_row_def)
next
  case False
  then show ?thesis using that(2) by (simp add: transition_eq)
qed

lemma release_step:
  "lease_step db (Release now q w) = lease_step db (Transition now q w (retryable_import_queue_status db q))"
  by (simp add: release_import_queue_lease_def)

lemma fail_step_cases:
  obtains "lease_step db (Fail_stale now q st) = db"
  | "retryable st" "lease_step db (Fail_stale now q st) = upd_queue (fail_guard db q st) (fail_set now) db"
proof (cases "retryable st")
  case True
  then show ?thesis using that(2) by (simp add: fail_eq)
next
  case False
  then show ?thesis using that(1) by (simp add: fail_stale_pending_import_queue_row_def)
qed

declare lease_step.simps [simp del]

lemma recover_step [simp]:
  "lease_step db (Recover now k) = fst (recover_expired_import_leases db now k)"
  by (simp only: lease_step.simps)

lemma retry_status_not_importing [simp]: "retryable_import_queue_status db q \<noteq> Importing"
  by (simp add: retryable_import_queue_status_def)


subsection \<open>Invariants of a step\<close>

text \<open>
  \<open>queue_wf\<close>: ids are unique, and only a row being imported has an owner or an expiry
  (\<open>lease_consistent\<close>).
\<close>

definition lease_consistent :: "queue_row \<Rightarrow> bool" where
  "lease_consistent q \<longleftrightarrow> (q_owner q \<noteq> None \<or> q_expires q \<noteq> None \<longrightarrow> q_status q = Importing)"

definition queue_wf :: "lease_db \<Rightarrow> bool" where
  "queue_wf db \<longleftrightarrow> distinct (map q_id (queue db)) \<and> list_all lease_consistent (queue db)"

lemma queue_wf_upd:
  assumes "queue_wf db" "\<And>r. q_id (f r) = q_id r"
    and "\<And>r. lease_consistent r \<Longrightarrow> P r \<Longrightarrow> lease_consistent (f r)"
  shows "queue_wf (upd_queue P f db)"
proof -
  have "map q_id (queue (upd_queue P f db)) = map q_id (queue db)"
    unfolding upd_queue_simps by (rule map_key_update) (rule assms(2))
  then have "distinct (map q_id (queue (upd_queue P f db)))"
    using assms(1) by (simp only: queue_wf_def)
  moreover have "list_all lease_consistent (queue (upd_queue P f db))"
    using assms(1,3) by (auto simp: queue_wf_def list_all_iff)
  ultimately show ?thesis by (simp only: queue_wf_def)
qed

lemma row_set_consistent [simp]:
  "lease_consistent (claim_set now w ms r)" "lease_consistent (transition_set now st r)"
  "lease_consistent (fail_set now r)" "lease_consistent (recover_set db r)"
  by (simp_all add: lease_consistent_def claim_set_def transition_set_def fail_set_def recover_set_def)

lemma recover_wf:
  assumes "queue_wf db"
  shows "queue_wf (fst (recover_expired_import_leases db now k))"
proof (cases "k \<le> 0")
  case True
  with assms show ?thesis by (simp add: recover_expired_import_leases_def)
next
  case False
  then have "distinct (map q_id (queue db))" "k > 0" using assms by (auto simp: queue_wf_def)
  note eq = recover_limited(1) [OF this, of now]
  show ?thesis unfolding eq fst_conv by (rule queue_wf_upd [OF assms]) simp_all
qed

lemma lease_step_wf: "queue_wf db \<Longrightarrow> queue_wf (lease_step db e)"
proof (cases e)
  case (Claim now q w allowed secs)
  assume wf: "queue_wf db"
  show ?thesis unfolding Claim
    by (rule claim_step_cases [of db now q w allowed secs]) (simp_all only: wf queue_wf_upd row_set_ids row_set_consistent)
next
  case (Refresh now q w secs)
  assume wf: "queue_wf db"
  have "queue_wf (upd_queue (live_row now q w) (\<lambda>r. r\<lparr>q_expires := datetime_plus now ms\<rparr>) db)" for ms
    by (rule queue_wf_upd [OF wf]) (auto simp: lease_consistent_def live_row_def)
  with wf show ?thesis unfolding Refresh by (rule_tac refresh_step_cases [of db now q w secs]) simp_all
next
  case (Transition now q w st)
  assume wf: "queue_wf db"
  show ?thesis unfolding Transition
    by (rule transition_step_cases [of db now q w st]) (simp_all only: wf queue_wf_upd row_set_ids row_set_consistent)
next
  case (Release now q w)
  assume wf: "queue_wf db"
  show ?thesis unfolding Release release_step
    by (rule transition_step_cases [of db now q w "retryable_import_queue_status db q"])
      (simp_all only: wf queue_wf_upd row_set_ids row_set_consistent)
next
  case (Fail_stale now q st)
  assume wf: "queue_wf db"
  show ?thesis unfolding Fail_stale
    by (rule fail_step_cases [of db now q st]) (simp_all only: wf queue_wf_upd row_set_ids row_set_consistent)
next
  case (Recover now k)
  assume wf: "queue_wf db"
  then show ?thesis unfolding Recover by (simp add: recover_wf)
qed

text \<open>The row of one queue item after a step by somebody else, while its lease is live.\<close>

definition row_lease :: "int \<Rightarrow> lease_db \<Rightarrow> (string \<times> int) option" where
  "row_lease qid db =
     (case lookup_row db qid of
        Some r \<Rightarrow> if q_status r = Importing
                  then (case (q_owner r, q_expires r) of (Some w, Some x) \<Rightarrow> Some (w, x) | _ \<Rightarrow> None)
                  else None
      | None \<Rightarrow> None)"

lemma row_lease_eq:
  "row_lease qid db = Some (w, x) \<longleftrightarrow>
     (\<exists>r. lookup_row db qid = Some r \<and> q_status r = Importing \<and> q_owner r = Some w \<and> q_expires r = Some x)"
  by (auto simp: row_lease_def split: option.splits if_splits)

lemma leased_row_kept:
  assumes row: "lookup_row db qid = Some r" "q_status r = Importing" "q_owner r = Some w" "q_expires r = Some x"
    and time: "sql_now (event_clock e) < x" and other: "event_actor e \<noteq> Some w"
  shows "lookup_row (lease_step db e) qid = Some r"
proof (cases e)
  case (Claim now q w' allowed secs)
  have "\<not> claim_guard db q allowed obs r" for obs using row by (simp add: claim_guard_def)
  then show ?thesis unfolding Claim
    by (rule_tac claim_step_cases [of db now q w' allowed secs]) (simp_all add: row lookup_upd_idle)
next
  case (Refresh now q w' secs)
  have "\<not> live_row now q w' r" using row other Refresh by (simp add: live_row_def)
  then show ?thesis unfolding Refresh
    by (rule_tac refresh_step_cases [of db now q w' secs]) (simp_all add: row lookup_upd_idle)
next
  case (Transition now q w' st)
  have "\<not> transition_guard db now q w' r" using row other Transition
    by (simp add: transition_guard_def live_row_def)
  then show ?thesis unfolding Transition
    by (rule_tac transition_step_cases [of db now q w' st]) (simp_all add: row lookup_upd_idle)
next
  case (Release now q w')
  have "\<not> transition_guard db now q w' r" using row other Release
    by (simp add: transition_guard_def live_row_def)
  then show ?thesis unfolding Release release_step
    by (rule_tac transition_step_cases [of db now q w' "retryable_import_queue_status db q"])
      (simp_all add: row lookup_upd_idle)
next
  case (Recover now k)
  have "\<not> recoverable db now r"
    using row time Recover by (simp add: recoverable_def lease_expired_def)
  then show ?thesis unfolding Recover by (simp add: recover_idle row)
next
  case (Fail_stale now q st)
  have "\<not> fail_guard db q st r" using row by (simp add: fail_guard_def)
  then show ?thesis unfolding Fail_stale
    by (rule_tac fail_step_cases [of db now q st]) (simp_all add: row lookup_upd_idle)
qed


lemma row_lease_upd:
  assumes "row_lease qid (upd_queue P f db) = Some l" "\<And>r. q_id (f r) = q_id r"
    and "\<And>r. P r \<Longrightarrow> q_owner (f r) = None"
  shows "row_lease qid db = Some l"
proof -
  obtain w x where l: "l = (w, x)" by (cases l)
  from assms(1) obtain r where
    "map_option (\<lambda>q. if P q then f q else q) (lookup_row db qid) = Some r"
    "q_status r = Importing" "q_owner r = Some w" "q_expires r = Some x"
    unfolding l row_lease_eq lookup_upd_queue [where f = f, OF assms(2)] by blast
  with assms(3) show ?thesis by (auto simp: l row_lease_eq split: if_splits)
qed

lemma row_lease_upd_owner:
  assumes "row_lease qid (upd_queue P f db) = Some (w, x)" "\<And>r. q_id (f r) = q_id r"
    and "\<And>r. P r \<Longrightarrow> q_owner (f r) = Some v"
  shows "row_lease qid db = Some (w, x) \<or> v = w"
proof -
  from assms(1) obtain r where
    "map_option (\<lambda>q. if P q then f q else q) (lookup_row db qid) = Some r"
    "q_status r = Importing" "q_owner r = Some w" "q_expires r = Some x"
    unfolding row_lease_eq lookup_upd_queue [where f = f, OF assms(2)] by blast
  with assms(3) show ?thesis by (auto simp: row_lease_eq split: if_splits)
qed

lemma row_lease_recover:
  assumes "row_lease qid (fst (recover_expired_import_leases db now k)) = Some l"
  shows "row_lease qid db = Some l"
proof -
  have "row_lease qid (fst (fold (recover_one now) cs st)) = Some l \<Longrightarrow> row_lease qid (fst st) = Some l" for cs st
  proof (induction cs arbitrary: st)
    case Nil
    then show ?case by simp
  next
    case (Cons c cs)
    obtain i w t where c: "c = (i, w, t)" by (cases c)
    have one: "fst (recover_one now c st) = upd_queue (\<lambda>r. q_id r = i \<and> q_owner r = w \<and> recoverable (fst st) now r)
        (\<lambda>r. r\<lparr>q_status := t, q_owner := None, q_expires := None\<rparr>) (fst st)"
      by (simp add: recover_one_def c sql_update_def upd_queue_def Let_def)
    from Cons have "row_lease qid (fst (recover_one now c st)) = Some l" by simp
    then show ?case unfolding one by (rule row_lease_upd) simp_all
  qed
  from this [of _ "(db, 0)"] assms show ?thesis
    by (auto simp: recover_expired_import_leases_def split: if_splits)
qed

lemma transition_origin:
  assumes "row_lease qid (lease_step db (Transition now q v st)) = Some l"
  shows "row_lease qid db = Some l"
proof -
  have "row_lease qid db = Some l"
    if "row_lease qid (upd_queue (transition_guard db now q v) (transition_set now st) db) = Some l"
    using that by (rule row_lease_upd) (simp_all add: transition_set_def)
  with assms show ?thesis
    by (rule_tac transition_step_cases [of db now q v st]) auto
qed

lemma lease_origin:
  assumes "row_lease qid (lease_step db e) = Some (w, x)"
  shows "row_lease qid db = Some (w, x) \<or> event_actor e = Some w"
proof (cases e)
  case (Claim now q v allowed secs)
  have "row_lease qid db = Some (w, x) \<or> v = w"
    if "row_lease qid (upd_queue (claim_guard db q allowed obs) (claim_set now v ms) db) = Some (w, x)" for obs ms
    using that by (rule row_lease_upd_owner) (simp_all add: claim_set_def)
  with assms show ?thesis unfolding Claim
    by (rule_tac claim_step_cases [of db now q v allowed secs]) auto
next
  case (Refresh now q v secs)
  have "row_lease qid db = Some (w, x) \<or> v = w"
    if "row_lease qid (upd_queue (live_row now q v) (\<lambda>r. r\<lparr>q_expires := datetime_plus now ms\<rparr>) db) = Some (w, x)" for ms
    using that by (rule row_lease_upd_owner) (auto simp: live_row_def)
  with assms show ?thesis unfolding Refresh
    by (rule_tac refresh_step_cases [of db now q v secs]) auto
next
  case (Transition now q v st)
  have "row_lease qid db = Some (w, x)"
    using assms unfolding Transition by (rule transition_origin)
  then show ?thesis ..
next
  case (Release now q v)
  have "row_lease qid db = Some (w, x)"
    using assms unfolding Release release_step by (rule transition_origin)
  then show ?thesis ..
next
  case (Recover now k)
  have "row_lease qid db = Some (w, x)"
    using assms unfolding Recover recover_step by (rule row_lease_recover)
  then show ?thesis ..
next
  case (Fail_stale now q st)
  have "row_lease qid db = Some (w, x)"
    if "row_lease qid (upd_queue (fail_guard db q st) (fail_set now) db) = Some (w, x)"
    using that by (rule row_lease_upd) (simp_all add: fail_set_def)
  with assms show ?thesis unfolding Fail_stale
    by (rule_tac fail_step_cases [of db now q st]) auto
qed

subsection \<open>The contract of a lease service\<close>

text \<open>
  What a worker relies on: a lease stays with its holder until it expires or the holder
  itself acts, and nobody obtains one except by acting. From it: over any run, whoever
  else acts, an unexpired lease is kept, and a change of holder means that the first one
  acted or its lease ran out.
\<close>

locale lease_service =
  fixes step :: "'s \<Rightarrow> 'e \<Rightarrow> 's" and lease :: "'s \<Rightarrow> ('w \<times> int) option"
    and actor :: "'e \<Rightarrow> 'w option" and clock :: "'e \<Rightarrow> int"
  assumes kept: "lease s = Some (w, x) \<Longrightarrow> clock e < x \<Longrightarrow> actor e \<noteq> Some w \<Longrightarrow> lease (step s e) = Some (w, x)"
    and origin: "lease (step s e) = Some (w, x) \<Longrightarrow> lease s = Some (w, x) \<or> actor e = Some w"
begin

lemma run_kept:
  "lease s = Some (w, x) \<Longrightarrow> list_all (\<lambda>e. clock e < x \<and> actor e \<noteq> Some w) es
     \<Longrightarrow> lease (foldl step s es) = Some (w, x)"
  by (induction es arbitrary: s) (simp_all add: kept)

lemma run_origin:
  "lease (foldl step s es) = Some (w, x) \<Longrightarrow> lease s = Some (w, x) \<or> list_ex (\<lambda>e. actor e = Some w) es"
  by (induction es arbitrary: s) (auto dest: origin)

lemma handover:
  assumes "lease s = Some (w, x)" "lease (foldl step s es) = Some (v, y)" "v \<noteq> w"
  shows "list_ex (\<lambda>e. x \<le> clock e \<or> actor e = Some w) es"
proof (rule ccontr)
  assume "\<not> list_ex (\<lambda>e. x \<le> clock e \<or> actor e = Some w) es"
  then have "list_all (\<lambda>e. clock e < x \<and> actor e \<noteq> Some w) es"
    by (auto simp: list_ex_iff list_all_iff not_le)
  with assms(1) have "lease (foldl step s es) = Some (w, x)" by (rule run_kept)
  with assms(2,3) show False by simp
qed

end

interpretation queue_lease: lease_service lease_step "row_lease qid" event_actor
    "\<lambda>e. sql_now (event_clock e)" for qid :: int
proof unfold_locales
  fix s w x e
  assume "row_lease qid s = Some (w, x)" "sql_now (event_clock e) < x" "event_actor e \<noteq> Some w"
  then show "row_lease qid (lease_step s e) = Some (w, x)"
    unfolding row_lease_eq using leased_row_kept by blast
next
  fix s e w x
  assume "row_lease qid (lease_step s e) = Some (w, x)"
  then show "row_lease qid s = Some (w, x) \<or> event_actor e = Some w"
    by (rule lease_origin)
qed


subsection \<open>What each operation returns\<close>

lemma owns_row_lease:
  assumes "distinct (map q_id (queue db))"
  shows "owns_import_queue_lease db now q w \<longleftrightarrow> w \<noteq> [] \<and> (\<exists>x. row_lease q db = Some (w, x) \<and> sql_now now < x)"
proof -
  have "list_ex (live_row now q w) (queue db) \<longleftrightarrow> (\<exists>r. lookup_row db q = Some r \<and> live_row now q w r)"
  proof
    assume "list_ex (live_row now q w) (queue db)"
    then obtain r where r: "r \<in> set (queue db)" "live_row now q w r" by (auto simp: list_ex_iff)
    then have "q_id r = q" by (simp add: live_row_def)
    with r find_key_Some [OF assms r(1)] show "\<exists>r. lookup_row db q = Some r \<and> live_row now q w r"
      by (auto simp: lookup_row_def)
  next
    assume "\<exists>r. lookup_row db q = Some r \<and> live_row now q w r"
    then show "list_ex (live_row now q w) (queue db)" by (auto simp: list_ex_iff dest: lookup_row_Some)
  qed
  moreover have "(\<exists>r. lookup_row db q = Some r \<and> live_row now q w r) \<longleftrightarrow>
      (\<exists>x. row_lease q db = Some (w, x) \<and> sql_now now < x)"
    by (auto simp: row_lease_eq live_row_def dest: lookup_row_Some split: option.splits)
  ultimately show ?thesis by (simp add: owns_import_queue_lease_def)
qed

lemma claim_result:
  assumes "queue_wf db" "lookup_row db q = Some r" "w \<noteq> []" "allowed \<noteq> []"
    and "list_all retryable allowed" "lease_modifier secs = Inr ms"
  defines "granted \<equiv> q_status r \<in> set allowed \<and> q_owner r = None \<and> \<not> claim_fenced db r"
  shows "\<exists>db'. claim_import_queue_row db now q w allowed secs = Inr (granted, db')
    \<and> lookup_row db' q = Some (if granted then claim_set now w ms r else r)
    \<and> (\<forall>p. p \<noteq> q \<longrightarrow> lookup_row db' p = lookup_row db p)"
proof -
  let ?P = "claim_guard db q allowed (observed_download db q)"
  let ?db = "upd_queue ?P (claim_set now w ms) db"
  have r: "r \<in> set (queue db)" "q_id r = q" using assms(2) by (auto dest: lookup_row_Some)
  have d: "distinct (map q_id (queue db))" using assms(1) by (simp add: queue_wf_def)
  have obs: "observed_download db q = q_download r"
    using assms(2) by (simp add: observed_download_def lookup_row_def)
  have P: "?P r \<longleftrightarrow> granted" by (simp add: claim_guard_def granted_def r obs)
  have "(length (filter ?P (queue db)) = 1) = (\<exists>x \<in> set (queue db). ?P x)"
    by (rule one_row_iff [OF d, of _ q]) (simp add: claim_guard_def)
  also have "\<dots> = granted"
  proof
    assume "\<exists>x \<in> set (queue db). ?P x"
    then obtain x where "x \<in> set (queue db)" "?P x" by blast
    moreover from this have "x = r" using distinct_key_unique [OF d] r by (metis claim_guard_def)
    ultimately show granted using P by simp
  qed (use P r in blast)
  finally have n: "(length (filter ?P (queue db)) = 1) = granted" .
  have look: "lookup_row ?db p = map_option (\<lambda>x. if ?P x then claim_set now w ms x else x) (lookup_row db p)" for p
    by (rule lookup_upd_queue) simp
  have "claim_import_queue_row db now q w allowed secs = Inr (granted, ?db)"
    using assms(3-6) n by (simp add: claim_import_queue_row_def claim_update_eq)
  moreover have "lookup_row ?db q = Some (if granted then claim_set now w ms r else r)"
    by (simp add: look assms(2) P)
  moreover have "lookup_row ?db p = lookup_row db p" if "p \<noteq> q" for p
    unfolding look using that by (cases "lookup_row db p") (auto simp: claim_guard_def dest: lookup_row_Some)
  ultimately show ?thesis by blast
qed

lemma not_owner_no_row:
  assumes "\<not> owns_import_queue_lease db now q w" "w \<noteq> []" "r \<in> set (queue db)"
  shows "\<not> live_row now q w r"
  using assms by (auto simp: owns_import_queue_lease_def list_ex_iff)

lemma row_status_upd:
  assumes "lookup_row db qid = Some r" "\<And>r. q_id (f r) = q_id r"
    and "P r \<Longrightarrow> q_status (f r) = q_status r \<and> q_owner (f r) = q_owner r"
  shows "\<exists>r'. lookup_row (upd_queue P f db) qid = Some r' \<and> q_status r' = q_status r \<and> q_owner r' = q_owner r"
  using assms by (simp add: lookup_upd_queue)

lemma published_row_frozen:
  assumes row: "lookup_row db qid = Some r" and pub: "has_active_publication db qid"
  shows "\<exists>r'. lookup_row (lease_step db e) qid = Some r' \<and> q_status r' = q_status r \<and> q_owner r' = q_owner r"
proof -
  have id: "q_id r = qid" using row by (auto dest: lookup_row_Some)
  have tr: "\<exists>r'. lookup_row (lease_step db (Transition now q w st)) qid = Some r'
      \<and> q_status r' = q_status r \<and> q_owner r' = q_owner r" for now q w st
  proof -
    have "\<not> transition_guard db now q w r" using pub id by (simp add: transition_guard_def)
    then show ?thesis
      by (rule_tac transition_step_cases [of db now q w st]) (simp_all add: row lookup_upd_idle)
  qed
  show ?thesis
  proof (cases e)
    case (Claim now q w allowed secs)
    have "\<not> claim_guard db q allowed obs r" for obs
      using pub id by (simp add: claim_guard_def claim_fenced_def)
    then show ?thesis unfolding Claim
      by (rule_tac claim_step_cases [of db now q w allowed secs]) (simp_all add: row lookup_upd_idle)
  next
    case (Refresh now q w secs)
    show ?thesis unfolding Refresh
      by (rule refresh_step_cases [of db now q w secs]) (auto simp: row intro: row_status_upd)
  next
    case (Transition now q w st)
    then show ?thesis by (simp only: tr)
  next
    case (Release now q w)
    then show ?thesis by (simp only: tr release_step)
  next
    case (Recover now k)
    have "\<not> recoverable db now r" using pub id by (simp add: recoverable_def)
    then show ?thesis unfolding Recover by (simp add: recover_idle row)
  next
    case (Fail_stale now q st)
    have "\<not> fail_guard db q st r" using pub id by (simp add: fail_guard_def)
    then show ?thesis unfolding Fail_stale
      by (rule_tac fail_step_cases [of db now q st]) (simp_all add: row lookup_upd_idle)
  qed
qed


subsection \<open>The download fence\<close>

text \<open>
  A plain id is ASCII without surrounding white space; hashes and SAB ids are. On plain
  ids SQLite's \<open>NOCASE\<close> and \<open>lower(trim(...))\<close> agree with Python's normalisation.
\<close>

definition plain_id :: "string \<Rightarrow> bool" where
  "plain_id s \<longleftrightarrow> py_strip s = s \<and> list_all (\<lambda>c. of_char c < (128::nat)) s"

lemma plain_lower: "plain_id s \<Longrightarrow> sql_lower s = py_lower s"
  by (auto simp: plain_id_def sql_lower_def py_lower_def list_all_iff sql_lower_char_def py_lower_char_def Let_def)

lemma plain_trim:
  assumes "plain_id s"
  shows "sql_trim s = s"
proof (cases "s = []")
  case True
  then show ?thesis by (simp add: sql_trim_def strip_by_def)
next
  case False
  have s: "py_strip s = s" using assms by (simp add: plain_id_def)
  then have "\<not> py_is_space (hd s)" "\<not> py_is_space (last s)"
    using False strip_by_hd [of py_is_space s] strip_by_last [of py_is_space s]
    by (simp_all add: py_strip_def)
  then have "hd s \<noteq> CHR '' ''" "last s \<noteq> CHR '' ''"
    by (auto simp: py_is_space_def)
  then show ?thesis using False by (simp add: sql_trim_def strip_by_ends)
qed

lemma plain_normalize:
  "plain_id s \<Longrightarrow> normalize_download_id s p = (if p = Some Nzb then s else sql_lower s)"
  by (simp add: normalize_download_id_def plain_lower) (simp add: plain_id_def)

definition row_identity :: "queue_row \<Rightarrow> download_identity" where
  "row_identity q = \<lparr>download_client_id = coerce_download_client_id (owner_value (q_client q)),
     protocol = q_protocol q, download_id = (case q_download q of None \<Rightarrow> [] | Some d \<Rightarrow> d)\<rparr>"

lemma stored_protocol_round [simp]: "normalize_download_protocol (stored_protocol p) = p"
proof -
  have "normalize_download_protocol (PyStr ''torrent'') = Some Torrent"
    "normalize_download_protocol (PyStr ''nzb'') = Some Nzb"
    "normalize_download_protocol PyNone = None"
    by code_simp+
  then show ?thesis
    by (auto simp: stored_protocol_def protocol_name_def split: option.splits download_protocol.splits)
qed

text \<open>The SQL prefilter of the sibling query drops no row the comparison would accept.\<close>

lemma prefilter_sound:
  assumes "download_identities_match \<lparr>download_client_id = c, protocol = p, download_id = did\<rparr> (row_identity q)"
    and "plain_id did" "\<And>d. q_download q = Some d \<Longrightarrow> plain_id d"
  shows "\<exists>d. q_download q = Some d \<and> (if p = Some Nzb then d = did else sql_nocase_eq d did)"
proof -
  let ?m = "sql_coalesce p (q_protocol q)"
  from assms(1) obtain d where d: "q_download q = Some d"
    by (cases "q_download q") (auto simp: match_iff row_identity_def)
  with assms(1) have eq: "normalize_download_id did ?m = normalize_download_id d ?m"
    by (simp add: match_iff row_identity_def)
  have plain: "plain_id did" "plain_id d" using assms(2,3) d by auto
  have "p = Some Nzb \<Longrightarrow> ?m = Some Nzb" by simp
  then show ?thesis
    using eq d plain by (auto simp: plain_normalize sql_nocase_eq_def split: if_splits)
qed

definition target_identity ::
  "lease_db \<Rightarrow> int \<Rightarrow> string \<Rightarrow> py_value \<Rightarrow> download_protocol option \<Rightarrow> download_identity" where
  "target_identity db queue_id did client proto =
     \<lparr>download_client_id = coerce_download_client_id client,
      protocol = (case proto of Some p \<Rightarrow> Some p
                  | None \<Rightarrow> (case lookup_row db queue_id of None \<Rightarrow> None | Some q \<Rightarrow> q_protocol q)),
      download_id = did\<rparr>"

lemma sibling_spec:
  assumes "did \<noteq> []" "plain_id did"
    and "\<forall>q \<in> set (queue db). \<forall>d. q_download q = Some d \<longrightarrow> plain_id d"
  shows "has_import_sibling_that_may_use_download db queue_id (Some did) client series proto \<longleftrightarrow>
    (\<exists>q \<in> set (queue db). q_id q \<noteq> queue_id \<and> may_still_use db q
       \<and> (series = None \<or> q_series q = series)
       \<and> download_identities_match (target_identity db queue_id did client proto) (row_identity q))"
proof -
  define p where "p = protocol (target_identity db queue_id did client proto)"
  let ?t = "target_identity db queue_id did client proto"
  have t: "?t = \<lparr>download_client_id = coerce_download_client_id client, protocol = p, download_id = did\<rparr>"
    by (simp add: p_def target_identity_def)
  have p: "p = (case proto of Some p \<Rightarrow> Some p | None \<Rightarrow>
      (case find (\<lambda>q. q_id q = queue_id) (queue db) of None \<Rightarrow> None | Some q \<Rightarrow> q_protocol q))"
    unfolding p_def target_identity_def lookup_row_def by simp
  have pre: "\<exists>d. q_download q = Some d \<and> (if p = Some Nzb then d = did else sql_nocase_eq d did)"
    if "q \<in> set (queue db)" "download_identities_match ?t (row_identity q)" for q
    using that assms(2,3) t by (intro prefilter_sound) auto
  have "has_import_sibling_that_may_use_download db queue_id (Some did) client series proto \<longleftrightarrow>
    (\<exists>q \<in> set (queue db). q_id q \<noteq> queue_id
       \<and> (case q_download q of None \<Rightarrow> False | Some d \<Rightarrow> if p = Some Nzb then d = did else sql_nocase_eq d did)
       \<and> may_still_use db q \<and> (series = None \<or> q_series q = series)
       \<and> download_identities_match ?t (row_identity q))"
    unfolding has_import_sibling_that_may_use_download_def stored_protocol_round
      p [symmetric] row_identity_def [symmetric] t Let_def
    using assms(1) by (auto simp: list_ex_iff)
  with pre show ?thesis by (fastforce split: option.splits)
qed

definition reservation_identity :: "reservation \<Rightarrow> download_identity" where
  "reservation_identity r =
     \<lparr>download_client_id = res_client r, protocol = res_protocol r, download_id = res_download r\<rparr>"

lemma reservation_fence:
  assumes "res_cleanup r" "res_download r \<noteq> []" "plain_id (res_download r)"
    and "res_normalized r = normalize_download_id (res_download r) (res_protocol r)"
    and "q_download q = Some d" "d \<noteq> []" "plain_id d" "\<And>c. q_client q = Some c \<Longrightarrow> c > 0"
    and "\<not> (res_protocol r = None \<and> q_protocol q = Some Nzb)"
  shows "reservation_blocks r q \<longleftrightarrow> download_identities_match (reservation_identity r) (row_identity q)"
proof -
  have client: "coerce_download_client_id (owner_value (q_client q)) = q_client q"
    using assms(8) by (auto split: option.splits)
  have nzb: "sql_coalesce (res_protocol r) (q_protocol q) = Some Nzb \<longleftrightarrow> res_protocol r = Some Nzb"
    using assms(9) by (cases "res_protocol r") auto
  have row: "row_identity q = \<lparr>download_client_id = q_client q, protocol = q_protocol q, download_id = d\<rparr>"
    by (simp only: row_identity_def client assms(5)) simp
  have fence: "reservation_blocks r q \<longleftrightarrow>
      \<not> sql_neq (res_client r) (q_client q) \<and> \<not> sql_neq (res_protocol r) (q_protocol q)
      \<and> (if res_protocol r = Some Nzb then res_normalized r = d else res_normalized r = sql_lower d)"
    using assms(1,5,7) nzb by (auto simp: reservation_blocks_def sql_neq_def plain_trim)
  show ?thesis
    unfolding fence match_iff row reservation_identity_def
    using assms(2-4,6,7) nzb by (simp add: plain_normalize)
qed


subsection \<open>Properties\<close>

definition sample_row :: "int \<Rightarrow> queue_status \<Rightarrow> string option \<Rightarrow> int option \<Rightarrow> queue_row" where
  "sample_row i st w x = \<lparr>q_id = i, q_series = Some 1, q_download = Some ''abc'', q_client = Some 2,
     q_protocol = Some Torrent, q_status = st, q_failed_at = None, q_owner = w, q_expires = x\<rparr>"

definition sample_db :: "queue_row list \<Rightarrow> publication list \<Rightarrow> lease_db" where
  "sample_db rows pubs = \<lparr>queue = rows, queue_files = [], reservations = [], publications = pubs,
     deletions = [], rescans = [], quarantines = []\<rparr>"

lemmas sample_defs = sample_row_def sample_db_def

text \<open>
  C2: an import lease is exclusive. While worker \<open>w\<close> holds an unexpired lease on a queue
  row, no sequence of operations by anybody else (claims, refreshes, transitions and
  releases of other workers, recovery of expired leases, failing of stale rows, in any
  order and with any arguments) changes the lease.
\<close>

theorem import_lease_exclusive:
  assumes "row_lease q db = Some (w, x)"
    and "list_all (\<lambda>e. sql_now (event_clock e) < x \<and> event_actor e \<noteq> Some w) es"
  shows "row_lease q (foldl lease_step db es) = Some (w, x)"
  using assms by (rule queue_lease.run_kept)

theorem import_lease_exclusive_witness:
  "row_lease 7 (foldl lease_step (sample_db [sample_row 7 Importing (Some ''w'') (Some 300)] [])
     [Claim 5000 7 ''v'' [Pending, Partial] (Fin 300), Recover 9000 500, Transition 9500 7 ''v'' Failed])
   = Some (''w'', 300)"
  by (rule import_lease_exclusive)
    (simp_all add: row_lease_def lookup_row_def sample_defs sql_now_def)

text \<open>
  a lease changes hands only lawfully. If a row leased to \<open>w\<close> is later leased to
  somebody else, then in between \<open>w\<close> acted itself or some operation read a clock at or
  past the expiry of the lease of \<open>w\<close>.
\<close>

theorem import_lease_handover:
  assumes "row_lease q db = Some (w, x)" "row_lease q (foldl lease_step db es) = Some (v, y)" "v \<noteq> w"
  shows "list_ex (\<lambda>e. x \<le> sql_now (event_clock e) \<or> event_actor e = Some w) es"
  using assms by (rule queue_lease.handover)

theorem import_lease_handover_witness:
  "list_ex (\<lambda>e. 300 \<le> sql_now (event_clock e) \<or> event_actor e = Some ''w'')
     [Recover 400000 500, Claim 401000 7 ''v'' [Pending] (Fin 300)]"
proof (rule import_lease_handover)
  let ?db = "sample_db [sample_row 7 Importing (Some ''w'') (Some 300)] []"
  show "row_lease 7 ?db = Some (''w'', 300)"
    by (simp add: row_lease_def lookup_row_def sample_defs)
  show "row_lease 7 (foldl lease_step ?db [Recover 400000 500, Claim 401000 7 ''v'' [Pending] (Fin 300)])
      = Some (''v'', 701)"
    by code_simp
qed simp

text \<open>
  a claim is granted exactly when the row is unowned, in one of the requested retryable
  states, and not fenced by a cleanup reservation, an active publication, an unresolved
  deletion or rescan, or a running chapter quarantine; a granted claim of at least one
  second makes the claimant the live owner, and no other row changes.
\<close>

theorem claim_granted_iff:
  assumes "queue_wf db" "lookup_row db q = Some r" "w \<noteq> []" "allowed \<noteq> []"
    and "list_all retryable allowed" "lease_modifier secs = Inr ms" "1000 \<le> ms" "now + ms \<le> max_date_ms"
  shows "\<exists>db' granted. claim_import_queue_row db now q w allowed secs = Inr (granted, db')
    \<and> (granted \<longleftrightarrow> q_status r \<in> set allowed \<and> q_owner r = None \<and> \<not> claim_fenced db r)
    \<and> (granted \<longrightarrow> row_lease q db' = Some (w, (now + ms) div 1000) \<and> sql_now now < (now + ms) div 1000)
    \<and> (\<not> granted \<longrightarrow> lookup_row db' q = Some r)
    \<and> (\<forall>p. p \<noteq> q \<longrightarrow> lookup_row db' p = lookup_row db p)"
proof -
  have later: "sql_now now < (now + ms) div 1000" using assms(7) by (simp add: sql_now_def)
  show ?thesis
    using claim_result [OF assms(1-6), of now] later assms(8)
    by (auto simp: row_lease_eq claim_set_def datetime_plus_def split: if_splits)
qed

theorem claim_granted_iff_witness:
  "\<exists>db'. claim_import_queue_row (sample_db [sample_row 7 Pending None None] []) 5000 7 ''w'' [Pending, Partial] (Fin 300)
     = Inr (True, db') \<and> row_lease 7 db' = Some (''w'', 305)"
proof -
  let ?db = "sample_db [sample_row 7 Pending None None] []"
  have ms: "lease_modifier (Fin 300) = Inr 300000" by code_simp
  have "\<exists>db' granted. claim_import_queue_row ?db 5000 7 ''w'' [Pending, Partial] (Fin 300) = Inr (granted, db')
    \<and> (granted \<longleftrightarrow> q_status (sample_row 7 Pending None None) \<in> set [Pending, Partial]
        \<and> q_owner (sample_row 7 Pending None None) = None \<and> \<not> claim_fenced ?db (sample_row 7 Pending None None))
    \<and> (granted \<longrightarrow> row_lease 7 db' = Some (''w'', (5000 + 300000) div 1000) \<and> sql_now 5000 < (5000 + 300000) div 1000)
    \<and> (\<not> granted \<longrightarrow> lookup_row db' 7 = Some (sample_row 7 Pending None None))
    \<and> (\<forall>p. p \<noteq> 7 \<longrightarrow> lookup_row db' p = lookup_row ?db p)"
    by (rule claim_granted_iff [OF _ _ _ _ _ ms])
      (simp_all add: queue_wf_def lease_consistent_def lookup_row_def retryable_def max_date_ms_def sample_defs)
  moreover have "\<not> claim_fenced ?db (sample_row 7 Pending None None)" by code_simp
  ultimately show ?thesis by (auto simp: sample_row_def)
qed

text \<open>
  C3: a stale worker is fenced off. Once a worker's lease has expired or its row has been
  taken over, its refresh and its transition both return false and leave the database
  unchanged, whatever the row looks like.
\<close>

theorem stale_worker_fenced:
  assumes "\<not> owns_import_queue_lease db now q w" "st \<noteq> Importing" "lease_modifier secs = Inr ms"
  shows "transition_import_queue_row db now q w st = Inr (False, db)
    \<and> refresh_import_queue_lease db now q w secs = Inr (False, db)"
proof (cases "w = []")
  case True
  with assms show ?thesis
    by (simp add: transition_import_queue_row_def refresh_import_queue_lease_def)
next
  case False
  note idle = not_owner_no_row [OF assms(1) False]
  then have "filter (live_row now q w) (queue db) = []"
    "filter (transition_guard db now q w) (queue db) = []"
    by (auto simp: filter_empty_conv transition_guard_def)
  moreover have "upd_queue (live_row now q w) f db = db" "upd_queue (transition_guard db now q w) f db = db" for f
    using idle by (auto intro!: no_row_upd simp: transition_guard_def)
  ultimately show ?thesis
    using assms False by (simp add: transition_eq refresh_eq)
qed

theorem stale_worker_fenced_witness:
  "transition_import_queue_row (sample_db [sample_row 7 Importing (Some ''w'') (Some 300)] []) 300000 7 ''w'' Imported
     = Inr (False, sample_db [sample_row 7 Importing (Some ''w'') (Some 300)] [])"
proof -
  have "lease_modifier (Fin 300) = Inr 300000"
    "\<not> owns_import_queue_lease (sample_db [sample_row 7 Importing (Some ''w'') (Some 300)] []) 300000 7 ''w''"
    by code_simp+
  then show ?thesis using stale_worker_fenced [where st = Imported] by simp
qed

text \<open>
  recovery is complete and touches nothing else. With room for every candidate, one
  call to \<open>recover_expired_import_leases\<close> counts and releases exactly the importing rows
  whose lease is missing or expired and that no publication protects: each becomes
  \<open>partial\<close> or \<open>pending\<close> by its review files, every other row is unchanged, and nothing
  is left to recover.
\<close>

theorem recovery_complete:
  assumes "queue_wf db" "int (length (filter (recoverable db now) (queue db))) \<le> max_rows" "0 < max_rows"
  shows "recover_expired_import_leases db now max_rows =
      (db\<lparr>queue := map (\<lambda>r. if recoverable db now r
           then r\<lparr>q_status := retryable_import_queue_status db (q_id r), q_owner := None, q_expires := None\<rparr>
           else r) (queue db)\<rparr>,
       int (length (filter (recoverable db now) (queue db))))
    \<and> list_all (\<lambda>r. \<not> recoverable db now r) (queue (fst (recover_expired_import_leases db now max_rows)))"
proof -
  have "distinct (map q_id (queue db))" using assms(1) by (simp add: queue_wf_def)
  note eq = recover_all [OF this assms(2,3)]
  have "\<not> recoverable db now (recover_set db r)" for r
    by (simp add: recoverable_def recover_set_def)
  then have "list_all (\<lambda>r. \<not> recoverable db now r) (queue (upd_queue (recoverable db now) (recover_set db) db))"
    by (auto simp: list_all_iff)
  with eq show ?thesis
    by (simp only: fst_conv upd_queue_def recover_set_def simp_thms)
qed

theorem recovery_complete_witness:
  "snd (recover_expired_import_leases
     (sample_db [sample_row 7 Importing (Some ''w'') (Some 300), sample_row 8 Importing None None,
                 sample_row 9 Importing (Some ''v'') (Some 900)] []) 400000 500) = 2"
proof -
  let ?db = "sample_db [sample_row 7 Importing (Some ''w'') (Some 300), sample_row 8 Importing None None,
                 sample_row 9 Importing (Some ''v'') (Some 900)] []"
  have wf: "queue_wf ?db" by (simp add: queue_wf_def lease_consistent_def sample_defs)
  have len: "int (length (filter (recoverable ?db 400000) (queue ?db))) = 2" by code_simp
  then show ?thesis using recovery_complete [OF wf, of 400000 500] by simp
qed



text \<open>
  every operation keeps the queue well formed: ids stay unique and only a row that is
  being imported has an owner or an expiry.
\<close>

theorem lease_operations_keep_queue_wf:
  assumes "queue_wf db"
  shows "queue_wf (foldl lease_step db es)"
  using assms by (induction es arbitrary: db) (simp_all add: lease_step_wf)

theorem lease_operations_keep_queue_wf_witness:
  "queue_wf (foldl lease_step (sample_db [sample_row 7 Pending None None] [])
     [Claim 5000 7 ''w'' [Pending] (Fin 300), Release 6000 7 ''w''])"
  by (rule lease_operations_keep_queue_wf) (simp add: queue_wf_def lease_consistent_def sample_defs)

text \<open>
  the sibling query means what its docstring says. On plain ids the SQL prefilter and
  the Python loop together decide whether another queue row (of the given series, if one is
  given) that is retryable, importing, owned or being published has a download identity
  that may be the target's.
\<close>

theorem sibling_query_correct:
  assumes "did \<noteq> []" "plain_id did"
    and "\<forall>q \<in> set (queue db). \<forall>d. q_download q = Some d \<longrightarrow> plain_id d"
  shows "has_import_sibling_that_may_use_download db queue_id (Some did) client series proto \<longleftrightarrow>
    (\<exists>q \<in> set (queue db). q_id q \<noteq> queue_id \<and> may_still_use db q
       \<and> (series = None \<or> q_series q = series)
       \<and> download_identities_match (target_identity db queue_id did client proto) (row_identity q))"
  using assms by (rule sibling_spec)

theorem sibling_query_correct_witness:
  "has_import_sibling_that_may_use_download
     (sample_db [sample_row 7 Pending None None, sample_row 8 Imported None None] []) 8 (Some ''ABC'') PyNone None None"
proof -
  have plain: "plain_id ''ABC''" "plain_id ''abc''" by code_simp+
  have m: "download_identities_match
      (target_identity (sample_db [sample_row 7 Pending None None, sample_row 8 Imported None None] []) 8 ''ABC'' PyNone None)
      (row_identity (sample_row 7 Pending None None))"
    "may_still_use (sample_db [sample_row 7 Pending None None, sample_row 8 Imported None None] []) (sample_row 7 Pending None None)"
    by code_simp+
  show ?thesis
    by (subst sibling_query_correct) (use plain m in \<open>auto simp: sample_defs\<close>)
qed

text \<open>
  the reservation fence of a claim agrees with the identity comparison. For a cleanup
  reservation that stores the normalised form of a plain id, and a queue row with a plain id
  and a valid client, the SQL predicate holds exactly when the two download identities may be
  the same, except for an NZB row against a reservation of unknown protocol.
\<close>

theorem reservation_fence_matches_identity:
  assumes "res_cleanup r" "res_download r \<noteq> []" "plain_id (res_download r)"
    and "res_normalized r = normalize_download_id (res_download r) (res_protocol r)"
    and "q_download q = Some d" "d \<noteq> []" "plain_id d" "\<And>c. q_client q = Some c \<Longrightarrow> c > 0"
    and "\<not> (res_protocol r = None \<and> q_protocol q = Some Nzb)"
  shows "reservation_blocks r q \<longleftrightarrow> download_identities_match (reservation_identity r) (row_identity q)"
  using assms by (rule reservation_fence)

theorem reservation_fence_matches_identity_witness:
  "reservation_blocks \<lparr>res_client = None, res_protocol = None, res_normalized = ''abc'',
       res_download = ''ABC'', res_cleanup = True\<rparr> (sample_row 7 Pending None None)"
proof -
  have "plain_id ''ABC''" "plain_id ''abc''" "normalize_download_id ''ABC'' None = ''abc''"
    "normalize_download_id ''ABC'' (Some Torrent) = ''abc''" "normalize_download_id ''abc'' (Some Torrent) = ''abc''"
    by code_simp+
  then show ?thesis
    by (subst reservation_fence_matches_identity [where d = "''abc''"])
      (simp_all add: sample_row_def match_iff reservation_identity_def row_identity_def)
qed

text \<open>
  The excluded case is real: a reservation written with an unknown protocol holds the
  lower-cased id, which the predicate then compares with the exact id of an NZB row, so a
  mixed-case SAB id that the identity comparison matches is not fenced.
\<close>

lemma unknown_protocol_reservation_gap:
  "\<exists>r q. res_cleanup r \<and> res_normalized r = normalize_download_id (res_download r) (res_protocol r)
     \<and> download_identities_match (reservation_identity r) (row_identity q) \<and> \<not> reservation_blocks r q"
proof -
  let ?r = "\<lparr>res_client = None, res_protocol = None, res_normalized = ''sab_x'', res_download = ''SAB_x'', res_cleanup = True\<rparr>"
  let ?q = "(sample_row 7 Pending None None)\<lparr>q_download := Some ''SAB_x'', q_protocol := Some Nzb\<rparr>"
  have "res_cleanup ?r" "res_normalized ?r = normalize_download_id (res_download ?r) (res_protocol ?r)"
    "download_identities_match (reservation_identity ?r) (row_identity ?q)" "\<not> reservation_blocks ?r ?q"
    by code_simp+
  then show ?thesis by blast
qed

end
