(* ===== verification/Py_Number.thy ===== *)
theory Py_Number
  imports Manga_Prelude
begin

text \<open>
  Python numbers as the library code uses them. A finite float is a rational number;
  \<open>round_double\<close> rounds an exact rational to the nearest 53-bit float, ties to even
  (the range of normal floats: neither underflow nor overflow occurs for volume and
  chapter numbers). \<open>py_float_str\<close> is \<open>float(str)\<close> on decimal literals, \<open>py_repr_float\<close> is
  \<open>repr(float)\<close> (the shortest decimal that reads back as the same float), \<open>format_0d\<close> is
  the format \<open>{:0Nd}\<close>, and \<open>json\<close> is what \<open>json.loads\<close> returns. The spellings of infinity
  and of not-a-number are not read.
\<close>

function bitlen :: "int \<Rightarrow> nat" where
  "bitlen n = (if n \<le> 0 then 0 else Suc (bitlen (n div 2)))"
  by pat_completeness auto
termination
  by (relation "measure nat") auto

declare bitlen.simps [simp del]

definition pow2 :: "int \<Rightarrow> rat" where
  "pow2 k = (if k \<ge> 0 then 2 ^ nat k else 1 / 2 ^ nat (- k))"

definition round_double :: "rat \<Rightarrow> rat" where
  "round_double x =
     (if x = 0 then 0
      else let (n, d) = quotient_of \<bar>x\<bar>;
               k = 53 - (int (bitlen n) - int (bitlen d));
               j = (if \<bar>x\<bar> * pow2 k \<ge> 2 ^ 53 then k - 1 else k)
           in sgn x * of_int (round_half_even (\<bar>x\<bar> * pow2 j)) / pow2 j)"

subsection \<open>Reading a float\<close>

function read_digits :: "string \<Rightarrow> string \<times> string" where
  "read_digits [] = ([], [])"
| "read_digits (c # cs) =
     (if is_digit c then
        (let cs' = (case cs of u # e # r \<Rightarrow> if u = CHR ''_'' \<and> is_digit e then e # r else cs | _ \<Rightarrow> cs);
             (ds, r) = read_digits cs'
         in (c # ds, r))
      else ([], c # cs))"
  by pat_completeness auto
termination
  by (relation "measure length") (auto split: list.splits)

definition read_sign :: "string \<Rightarrow> rat \<times> string" where
  "read_sign s = (case s of [] \<Rightarrow> (1, [])
     | c # cs \<Rightarrow> if c = CHR ''-'' then (-1, cs) else if c = CHR ''+'' then (1, cs) else (1, c # cs))"

definition read_exponent :: "string \<Rightarrow> int option" where
  "read_exponent s = (case s of [] \<Rightarrow> Some 0
     | c # cs \<Rightarrow>
         if c = CHR ''e'' \<or> c = CHR ''E'' then
           (let (sg, r) = read_sign cs; (ds, t) = read_digits r
            in if ds \<noteq> [] \<and> t = [] then Some (\<lfloor>sg\<rfloor> * int (undec ds)) else None)
         else None)"

definition pow10 :: "int \<Rightarrow> rat" where
  "pow10 k = (if k \<ge> 0 then 10 ^ nat k else 1 / 10 ^ nat (- k))"

definition py_float_str :: "string \<Rightarrow> rat option" where
  "py_float_str s =
     (let (sg, r) = read_sign (py_strip s);
          (whole, r1) = read_digits r;
          (frac, r2) = (case r1 of [] \<Rightarrow> ([], []) | c # cs \<Rightarrow> if c = CHR ''.'' then read_digits cs else ([], r1))
      in if whole = [] \<and> frac = [] then None
         else case read_exponent r2 of
            None \<Rightarrow> None
          | Some e \<Rightarrow> Some (round_double
              (sg * of_nat (undec (whole @ frac)) * pow10 (e - int (length frac)))))"

subsection \<open>Printing\<close>

function dec_pos :: "int \<Rightarrow> string" where
  "dec_pos n = (if n < 10 then [char_of (48 + nat n)] else dec_pos (n div 10) @ [char_of (48 + nat (n mod 10))])"
  by pat_completeness auto
termination
  by (relation "measure nat") auto

declare dec_pos.simps [simp del]

lemma dec_pos_eq: "n \<ge> 0 \<Longrightarrow> dec_pos n = dec_nat (nat n)"
proof (induction n rule: dec_pos.induct)
  case (1 n)
  show ?case
  proof (cases "n < 10")
    case True
    with "1.prems" have "nat n < 10" by simp
    with True show ?thesis by (simp add: dec_pos.simps [of n] dec_nat.simps [of "nat n"])
  next
    case False
    with "1.IH" have "dec_pos (n div 10) = dec_nat (nat (n div 10))" by simp
    with False show ?thesis
      by (simp add: dec_pos.simps [of n] dec_nat.simps [of "nat n"] nat_div_distrib nat_mod_distrib)
  qed
qed

definition format_0d :: "nat \<Rightarrow> int \<Rightarrow> string" where
  "format_0d width i =
     (let ds = dec_pos \<bar>i\<bar>; sign = (if i < 0 then ''-'' else [])
      in sign @ replicate (width - length sign - length ds) (CHR ''0'') @ ds)"

text \<open>The decimal exponent of a positive rational: \<open>10 ^ e \<le> x < 10 ^ (e + 1)\<close>.\<close>

definition dec_exponent :: "rat \<Rightarrow> int" where
  "dec_exponent x =
     (let (n, d) = quotient_of x;
          e = int (length (dec_pos n)) - int (length (dec_pos d))
      in if pow10 e \<le> x then e else e - 1)"

definition shortest_digits :: "rat \<Rightarrow> int \<times> nat" where
  "shortest_digits x =
     (let e = dec_exponent x;
          digits = (\<lambda>p. round_half_even (x * pow10 (int p - 1 - e)));
          p = (case find (\<lambda>p. round_double (of_int (digits p) * pow10 (e + 1 - int p)) = x) [1..<18] of
                 Some p \<Rightarrow> p | None \<Rightarrow> 17)
      in (digits p, p))"

definition py_repr_float :: "rat \<Rightarrow> string" where
  "py_repr_float x =
     (if x = 0 then ''0.0''
      else
        let (m, p) = shortest_digits \<bar>x\<bar>;
            e = dec_exponent (of_int m * pow10 (dec_exponent \<bar>x\<bar> + 1 - int p));
            ds = rev (dropWhile (\<lambda>c. c = CHR ''0'') (rev (dec_pos m)));
            sign = (if x < 0 then ''-'' else []);
            pad = (\<lambda>n s. s @ replicate (n - length s) (CHR ''0''))
        in sign @
          (if -4 \<le> e \<and> e < 16 then
             (if e < 0 then ''0.'' @ replicate (nat (- e - 1)) (CHR ''0'') @ ds
              else let w = pad (nat e + 1) ds
                in take (nat e + 1) w @ ''.'' @ (if drop (nat e + 1) w = [] then ''0'' else drop (nat e + 1) w))
           else
             take 1 ds @ (if drop 1 ds = [] then [] else ''.'' @ drop 1 ds)
             @ ''e'' @ (if e < 0 then ''-'' else ''+'') @ format_0d 2 \<bar>e\<bar>))"

text \<open>\<open>format(x, 'g')\<close>: six significant digits of the exact value, trailing zeros dropped.\<close>

definition format_g :: "rat \<Rightarrow> string" where
  "format_g x =
     (if x = 0 then ''0''
      else
        let e0 = dec_exponent \<bar>x\<bar>;
            m0 = round_half_even (\<bar>x\<bar> * pow10 (5 - e0));
            (m, e) = (if m0 = 1000000 then (100000, e0 + 1) else (m0, e0));
            digits = dec_pos m;
            trim = (\<lambda>s. rev (dropWhile (\<lambda>c. c = CHR ''0'') (rev s)));
            join = (\<lambda>whole frac. if frac = [] then whole else whole @ ''.'' @ frac)
        in (if x < 0 then ''-'' else []) @
          (if -4 \<le> e \<and> e < 6 then
             (if e < 0 then join ''0'' (trim (replicate (nat (- e - 1)) (CHR ''0'') @ digits))
              else join (take (nat e + 1) digits) (trim (drop (nat e + 1) digits)))
           else join (take 1 digits) (trim (drop 1 digits))
             @ ''e'' @ (if e < 0 then ''-'' else ''+'') @ format_0d 2 \<bar>e\<bar>))"

subsection \<open>JSON values\<close>

datatype json = JNull | JBool bool | JInt int | JFloat rat | JStr string
  | JArr "json list" | JObj "(string \<times> json) list"

text \<open>The outcome of \<open>json.loads\<close> on a nullable text column.\<close>

datatype json_column = JsonEmpty | JsonMalformed | JsonParsed json

definition json_float :: "json \<Rightarrow> py_exn + rat" where
  "json_float j = (case j of
      JInt i \<Rightarrow> Inr (round_double (of_int i))
    | JFloat x \<Rightarrow> Inr x
    | JBool b \<Rightarrow> Inr (if b then 1 else 0)
    | JStr s \<Rightarrow> (case py_float_str s of None \<Rightarrow> Inl ValueError | Some x \<Rightarrow> Inr x)
    | _ \<Rightarrow> Inl TypeError)"

definition json_truthy :: "json \<Rightarrow> bool" where
  "json_truthy j = (case j of JNull \<Rightarrow> False | JBool b \<Rightarrow> b | JInt i \<Rightarrow> i \<noteq> 0 | JFloat x \<Rightarrow> x \<noteq> 0
     | JStr s \<Rightarrow> s \<noteq> [] | JArr xs \<Rightarrow> xs \<noteq> [] | JObj kvs \<Rightarrow> kvs \<noteq> [])"

subsection \<open>Exactness on integers\<close>

lemma bitlen_bound: "n < 2 ^ k \<Longrightarrow> bitlen n \<le> k"
proof (induction n arbitrary: k rule: bitlen.induct)
  case (1 n)
  show ?case
  proof (cases "n \<le> 0")
    case True
    then show ?thesis by (simp add: bitlen.simps [of n])
  next
    case False
    with "1.prems" obtain j where k: "k = Suc j" by (cases k) auto
    with "1.prems" have "n div 2 < 2 ^ j" by auto
    with "1.IH" False have "bitlen (n div 2) \<le> j" by blast
    with k show ?thesis by (simp add: bitlen.simps [of n])
  qed
qed

lemma round_half_even_int [simp]: "round_half_even (of_int i) = i"
  by (simp add: round_half_even_def Let_def)

lemma bitlen_1 [simp]: "bitlen 1 = 1"
  by (simp add: bitlen.simps [of 1] bitlen.simps [of 0])

lemma round_double_int:
  assumes "\<bar>i\<bar> < 2 ^ 53"
  shows "round_double (of_int i) = of_int i"
proof (cases "i = 0")
  case True
  then show ?thesis by (simp add: round_double_def)
next
  case False
  let ?x = "of_int i :: rat"
  have q: "quotient_of \<bar>?x\<bar> = (\<bar>i\<bar>, 1)"
    unfolding of_int_abs [symmetric] by (rule quotient_of_rat_of_int)
  define k where "k = 53 - (int (bitlen \<bar>i\<bar>) - 1)"
  define j where "j = (if \<bar>?x\<bar> * pow2 k \<ge> 2 ^ 53 then k - 1 else k)"
  have "bitlen \<bar>i\<bar> \<le> 53" using assms by (rule bitlen_bound)
  then have "j \<ge> 0" by (simp add: j_def k_def)
  then have p: "pow2 j = of_int (2 ^ nat j)" by (simp add: pow2_def)
  have "\<bar>?x\<bar> * pow2 j = of_int (\<bar>i\<bar> * 2 ^ nat j)" by (simp add: p)
  then have "round_half_even (\<bar>?x\<bar> * pow2 j) = \<bar>i\<bar> * 2 ^ nat j"
    by (simp only: round_half_even_int)
  moreover have "round_double ?x = sgn ?x * of_int (round_half_even (\<bar>?x\<bar> * pow2 j)) / pow2 j"
    unfolding round_double_def q j_def k_def Let_def prod.case bitlen_1 of_nat_1 using False by simp
  ultimately have "round_double ?x = sgn ?x * of_int (\<bar>i\<bar> * 2 ^ nat j) / of_int (2 ^ nat j)"
    by (simp only: p)
  also have "\<dots> = sgn ?x * \<bar>?x\<bar>" by simp
  also have "\<dots> = ?x" by (simp add: sgn_mult_abs)
  finally show ?thesis .
qed

end
