(* ===== verification/Volumes.thy ===== *)
theory Volumes
  imports Py_Number
begin

text \<open>
  \<^verbatim>\<open>src/app/volumes.py\<close>: keeping the tables \<open>volumes\<close> and \<open>chapters\<close> consistent with the
  chapter-to-volume map of a series. The state is the three tables with the AUTOINCREMENT
  counters; \<open>insert_chapter\<close> enforces \<open>UNIQUE(series_id, chapter_num)\<close> and
  \<open>set_volume_downloaded\<close> includes the trigger \<open>trg_vol_downloaded_cascade\<close> of
  \<^verbatim>\<open>schema.py\<close>. Numbers of volumes and chapters are finite floats; the status columns
  hold one of their three values. An exception that leaves a function is \<open>Inl\<close> (the
  caller's transaction is rolled back).
\<close>

subsection \<open>Tables\<close>

datatype status = Wanted | Grabbed | Downloaded

datatype sql_value = SqlNull | SqlInt int | SqlText string

record volume_row =
  v_id :: int
  v_series :: int
  v_num :: "rat option"
  v_status :: status
  v_monitored :: bool
  v_special :: bool
  v_imported_at :: "int option"

record chapter_row =
  c_id :: int
  c_series :: int
  c_volume :: "int option"
  c_num :: rat
  c_status :: status
  c_monitored :: bool
  c_range_end :: "rat option"
  c_cols :: "string \<Rightarrow> sql_value"

record series_row =
  s_id :: int
  s_title :: string
  s_monitor_mode :: "string option"
  s_total_volumes :: "int option"
  s_total_chapters :: "int option"
  s_chapter_map :: json_column

record library =
  series :: "series_row list"
  volumes :: "volume_row list"
  chapters :: "chapter_row list"
  next_volume_id :: int
  next_chapter_id :: int

definition series_by_id :: "library \<Rightarrow> int \<Rightarrow> series_row option" where
  "series_by_id lib sid = find (\<lambda>s. s_id s = sid) (series lib)"

definition volume_by_id :: "library \<Rightarrow> int \<Rightarrow> volume_row option" where
  "volume_by_id lib vid = find (\<lambda>v. v_id v = vid) (volumes lib)"

subsection \<open>Volume stubs\<close>

definition insert_volume :: "int \<Rightarrow> bool \<Rightarrow> rat \<Rightarrow> library \<Rightarrow> library" where
  "insert_volume sid mon num lib = lib\<lparr>
     volumes := volumes lib @ [\<lparr>v_id = next_volume_id lib, v_series = sid, v_num = Some num,
       v_status = Wanted, v_monitored = mon, v_special = False, v_imported_at = None\<rparr>],
     next_volume_id := next_volume_id lib + 1\<rparr>"

definition numbered_volumes :: "library \<Rightarrow> int \<Rightarrow> (rat \<times> int) list" where
  "numbered_volumes lib sid =
     List.map_filter (\<lambda>v. if v_series v = sid then map_option (\<lambda>n. (n, v_id v)) (v_num v) else None)
       (volumes lib)"

text \<open>\<open>vol_id_map\<close>: a dict comprehension, so the last row of a number wins.\<close>

definition vol_id_map :: "library \<Rightarrow> int \<Rightarrow> rat \<Rightarrow> int option" where
  "vol_id_map lib sid = map_of (rev (numbered_volumes lib sid))"

definition monitor_mode :: "library \<Rightarrow> int \<Rightarrow> string" where
  "monitor_mode lib sid =
     (case series_by_id lib sid of None \<Rightarrow> ''all''
      | Some s \<Rightarrow> (case s_monitor_mode s of None \<Rightarrow> ''all'' | Some m \<Rightarrow> if m = [] then ''all'' else m))"

definition missing_numbers :: "library \<Rightarrow> int \<Rightarrow> int \<Rightarrow> rat list" where
  "missing_numbers lib sid total_volumes =
     (let existing = map fst (numbered_volumes lib sid)
      in filter (\<lambda>n. n \<notin> set existing) (map (\<lambda>v. round_double (of_int v)) [1..total_volumes]))"

definition insert_stubs :: "int \<Rightarrow> int \<Rightarrow> library \<Rightarrow> library" where
  "insert_stubs sid total_volumes lib =
     (let new_monitored = monitor_mode lib sid \<in> {''all'', ''missing''}
      in fold (insert_volume sid new_monitored) (missing_numbers lib sid total_volumes) lib)"

definition link_unlinked :: "int \<Rightarrow> int \<Rightarrow> rat \<Rightarrow> library \<Rightarrow> library" where
  "link_unlinked sid vid num lib = lib\<lparr>chapters := fst (sql_update
     (\<lambda>c. c_series c = sid \<and> c_num c = num \<and> c_volume c = None)
     (\<lambda>c. c\<lparr>c_volume := Some vid\<rparr>) (chapters lib))\<rparr>"

text \<open>\<open>vol_id_map.get(float(vol_num)) if vol_num is not None else None\<close>, 0 counting as absent.\<close>

definition map_target :: "(rat \<Rightarrow> int option) \<Rightarrow> json \<Rightarrow> py_exn + int option" where
  "map_target ids vol_num =
     (if vol_num = JNull then Inr None
      else case json_float vol_num of
        Inl e \<Rightarrow> Inl e
      | Inr x \<Rightarrow> Inr (case ids x of Some vid \<Rightarrow> if vid = 0 then None else Some vid | None \<Rightarrow> None))"

fun link_chapters ::
  "int \<Rightarrow> (rat \<Rightarrow> int option) \<Rightarrow> (string \<times> json) list \<Rightarrow> library \<Rightarrow> py_exn + library" where
  "link_chapters sid ids [] lib = Inr lib"
| "link_chapters sid ids ((ch_str, vol_num) # kvs) lib =
     (case map_target ids vol_num of
        Inl e \<Rightarrow> Inl e
      | Inr None \<Rightarrow> link_chapters sid ids kvs lib
      | Inr (Some vid) \<Rightarrow>
          (case py_float_str ch_str of
             None \<Rightarrow> link_chapters sid ids kvs lib
           | Some num \<Rightarrow> link_chapters sid ids kvs (link_unlinked sid vid num lib)))"

definition series_map_column :: "library \<Rightarrow> int \<Rightarrow> json_column" where
  "series_map_column lib sid = (case series_by_id lib sid of None \<Rightarrow> JsonEmpty | Some s \<Rightarrow> s_chapter_map s)"

definition create_volume_stubs :: "int \<Rightarrow> int \<Rightarrow> library \<Rightarrow> py_exn + library" where
  "create_volume_stubs sid total_volumes lib =
     (if series_by_id lib sid = None \<and> missing_numbers lib sid total_volumes \<noteq> [] then Inl IntegrityError
      else
        let lib1 = insert_stubs sid total_volumes lib
        in case series_map_column lib1 sid of
             JsonEmpty \<Rightarrow> Inr lib1
           | JsonMalformed \<Rightarrow> Inr lib1
           | JsonParsed (JObj ch_map) \<Rightarrow> link_chapters sid (vol_id_map lib1 sid) ch_map lib1
           | JsonParsed _ \<Rightarrow> Inl AttributeError)"

subsection \<open>Chapter stubs\<close>

definition chapter_is_special :: "library \<Rightarrow> chapter_row \<Rightarrow> bool" where
  "chapter_is_special lib c =
     (case c_volume c of None \<Rightarrow> False
      | Some vid \<Rightarrow> (case volume_by_id lib vid of None \<Rightarrow> False | Some v \<Rightarrow> v_special v))"

definition covers :: "library \<Rightarrow> int \<Rightarrow> rat \<Rightarrow> chapter_row \<Rightarrow> bool" where
  "covers lib sid num c \<longleftrightarrow>
     c_series c = sid \<and> c_num c \<le> num
     \<and> num \<le> (case c_range_end c of Some e \<Rightarrow> e | None \<Rightarrow> c_num c)
     \<and> \<not> chapter_is_special lib c"

definition insert_chapter :: "int \<Rightarrow> int option \<Rightarrow> rat \<Rightarrow> library \<Rightarrow> library \<times> nat" where
  "insert_chapter sid vid num lib =
     (if list_ex (\<lambda>c. c_series c = sid \<and> c_num c = num) (chapters lib) then (lib, 0)
      else (lib\<lparr>chapters := chapters lib @ [\<lparr>c_id = next_chapter_id lib, c_series = sid,
                 c_volume = vid, c_num = num, c_status = Wanted, c_monitored = True,
                 c_range_end = None, c_cols = (\<lambda>_. SqlNull)\<rparr>],
               next_chapter_id := next_chapter_id lib + 1\<rparr>, 1))"

definition populate_one :: "int \<Rightarrow> int option \<Rightarrow> rat \<Rightarrow> library \<Rightarrow> library \<times> nat" where
  "populate_one sid vid num lib =
     (case (vid, find (\<lambda>c. c_series c = sid \<and> c_num c = num \<and> c_volume c = None) (chapters lib)) of
        (Some v, Some unlinked) \<Rightarrow>
          (lib\<lparr>chapters := fst (sql_update (\<lambda>c. c_id c = c_id unlinked)
                 (\<lambda>c. c\<lparr>c_volume := Some v\<rparr>) (chapters lib))\<rparr>, 0)
      | _ \<Rightarrow>
          if list_ex (covers lib sid num) (chapters lib) then (lib, 0)
          else insert_chapter sid vid num lib)"

fun populate_items ::
  "int \<Rightarrow> (rat \<Rightarrow> int option) \<Rightarrow> (string \<times> json) list \<Rightarrow> library \<Rightarrow> py_exn + library \<times> nat" where
  "populate_items sid ids [] lib = Inr (lib, 0)"
| "populate_items sid ids ((ch_str, vol_num) # kvs) lib =
     (case py_float_str ch_str of
        None \<Rightarrow> populate_items sid ids kvs lib
      | Some num \<Rightarrow>
          (case map_target ids vol_num of
             Inl e \<Rightarrow> Inl e
           | Inr vid \<Rightarrow>
               (let (lib1, n) = populate_one sid vid num lib
                in case populate_items sid ids kvs lib1 of
                     Inl e \<Rightarrow> Inl e
                   | Inr (lib2, m) \<Rightarrow> Inr (lib2, n + m))))"

definition populate_chapters :: "int \<Rightarrow> library \<Rightarrow> py_exn + library \<times> nat" where
  "populate_chapters sid lib =
     (case series_map_column lib sid of
        JsonEmpty \<Rightarrow> Inr (lib, 0)
      | JsonMalformed \<Rightarrow> Inr (lib, 0)
      | JsonParsed j \<Rightarrow>
          if \<not> json_truthy j then Inr (lib, 0)
          else (case j of JObj ch_map \<Rightarrow> populate_items sid (vol_id_map lib sid) ch_map lib
                | _ \<Rightarrow> Inl AttributeError))"

subsection \<open>Completion and cascades\<close>

definition set_volume_downloaded :: "int \<Rightarrow> int \<Rightarrow> library \<Rightarrow> library" where
  "set_volume_downloaded now vid lib =
     (let hit = list_ex (\<lambda>v. v_id v = vid \<and> v_status v \<noteq> Downloaded) (volumes lib)
      in lib\<lparr>volumes := fst (sql_update (\<lambda>v. v_id v = vid \<and> v_status v \<noteq> Downloaded)
               (\<lambda>v. v\<lparr>v_status := Downloaded,
                      v_imported_at := sql_coalesce (v_imported_at v) (Some (sql_now now))\<rparr>) (volumes lib)),
             chapters := fst (sql_update (\<lambda>c. hit \<and> c_volume c = Some vid \<and> c_status c \<noteq> Downloaded)
               (\<lambda>c. c\<lparr>c_status := Downloaded\<rparr>) (chapters lib))\<rparr>)"

definition check_volume_completion :: "int \<Rightarrow> int \<Rightarrow> int \<Rightarrow> library \<Rightarrow> bool \<times> library" where
  "check_volume_completion now sid vid lib =
     (let rows = filter (\<lambda>c. c_series c = sid \<and> c_volume c = Some vid \<and> c_monitored c) (chapters lib);
          total_rows = length rows;
          done_rows = length (filter (\<lambda>c. c_status c = Downloaded) rows)
      in if total_rows > 0 \<and> total_rows = done_rows then (True, set_volume_downloaded now vid lib) else (False, lib))"

definition allowed_cols :: "string list" where
  "allowed_cols = [''grabbed_at'', ''torrent_name'', ''torrent_url'', ''indexer'',
     ''protocol'', ''client'', ''download_id'', ''download_client_id'',
     ''release_group'', ''size_bytes'', ''import_path'', ''quality'', ''imported_at'']"

definition set_cols :: "(string \<times> sql_value) list \<Rightarrow> chapter_row \<Rightarrow> chapter_row" where
  "set_cols extra c = c\<lparr>c_cols := (\<lambda>k. case map_of extra k of Some x \<Rightarrow> x | None \<Rightarrow> c_cols c k)\<rparr>"

definition cascade_chapters ::
  "int \<Rightarrow> int list option \<Rightarrow> status \<Rightarrow> bool \<Rightarrow> (string \<times> sql_value) list \<Rightarrow> library
     \<Rightarrow> library \<times> nat" where
  "cascade_chapters sid volume_ids status respect_monitoring kwargs lib =
     (let extra = filter (\<lambda>(k, _). k \<in> set allowed_cols) kwargs;
          status_filter = (\<lambda>c. if status = Grabbed
             then (if respect_monitoring then c_status c = Wanted else c_status c \<noteq> Downloaded) else True);
          scope = (\<lambda>c. case volume_ids of None \<Rightarrow> True
             | Some ids \<Rightarrow> (case c_volume c of None \<Rightarrow> False | Some v \<Rightarrow> v \<in> set ids))
      in if volume_ids = Some [] then (lib, 0)
         else
           (let (rows, n) = sql_update
              (\<lambda>c. c_series c = sid \<and> scope c \<and> c_monitored c \<and> status_filter c)
              (\<lambda>c. set_cols extra (c\<lparr>c_status := status\<rparr>)) (chapters lib)
            in (lib\<lparr>chapters := rows\<rparr>, n)))"


subsection \<open>Stubs: lemmas\<close>

lemma insert_volume_fields [simp]:
  "chapters (insert_volume sid mon n lib) = chapters lib"
  "series (insert_volume sid mon n lib) = series lib"
  by (simp_all add: insert_volume_def)

definition new_stub :: "int \<Rightarrow> bool \<Rightarrow> volume_row \<Rightarrow> bool" where
  "new_stub sid mon v \<longleftrightarrow> v_series v = sid \<and> v_status v = Wanted \<and> v_monitored v = mon \<and> \<not> v_special v"

lemma fold_insert_volume:
  "\<exists>new. volumes (fold (insert_volume sid mon) ns lib) = volumes lib @ new
     \<and> map v_num new = map Some ns \<and> list_all (new_stub sid mon) new
     \<and> chapters (fold (insert_volume sid mon) ns lib) = chapters lib
     \<and> series (fold (insert_volume sid mon) ns lib) = series lib"
proof (induction ns arbitrary: lib)
  case Nil
  then show ?case by simp
next
  case (Cons n ns)
  obtain row where row: "volumes (insert_volume sid mon n lib) = volumes lib @ [row]"
    "v_num row = Some n" "new_stub sid mon row"
    by (simp add: insert_volume_def new_stub_def)
  obtain new where "volumes (fold (insert_volume sid mon) ns (insert_volume sid mon n lib))
      = volumes (insert_volume sid mon n lib) @ new"
    "map v_num new = map Some ns" "list_all (new_stub sid mon) new"
    "chapters (fold (insert_volume sid mon) ns (insert_volume sid mon n lib)) = chapters lib"
    "series (fold (insert_volume sid mon) ns (insert_volume sid mon n lib)) = series lib"
    using Cons.IH [of "insert_volume sid mon n lib"] by auto
  with row show ?case
    by (intro exI [of _ "row # new"]) simp
qed

lemma numbered_volumes_cong: "volumes lib' = volumes lib \<Longrightarrow> numbered_volumes lib' = numbered_volumes lib"
  by (simp add: numbered_volumes_def fun_eq_iff)

lemma missing_numbers_cong:
  assumes "volumes lib' = volumes lib"
  shows "missing_numbers lib' = missing_numbers lib"
  by (simp add: missing_numbers_def fun_eq_iff numbered_volumes_cong [OF assms])

lemma numbered_volumes_new:
  assumes "volumes lib' = volumes lib @ new" "map v_num new = map Some ns" "list_all (new_stub sid mon) new"
  shows "map fst (numbered_volumes lib' sid) = map fst (numbered_volumes lib sid) @ ns"
proof -
  have "map fst (List.map_filter (\<lambda>v. if v_series v = sid then map_option (\<lambda>n. (n, v_id v)) (v_num v) else None) new) = ns"
    using assms(2,3)
  proof (induction new arbitrary: ns)
    case Nil
    then show ?case by (simp add: List.map_filter_simps)
  next
    case (Cons v new)
    then obtain m ms where "ns = m # ms" "v_num v = Some m" by (cases ns) auto
    with Cons show ?case by (simp add: List.map_filter_simps new_stub_def)
  qed
  with assms(1) show ?thesis by (simp add: numbered_volumes_def List.map_filter_def)
qed

lemma insert_stubs_spec:
  "\<exists>new. volumes (insert_stubs sid n lib) = volumes lib @ new
     \<and> map v_num new = map Some (missing_numbers lib sid n)
     \<and> list_all (new_stub sid (monitor_mode lib sid \<in> {''all'', ''missing''})) new
     \<and> chapters (insert_stubs sid n lib) = chapters lib \<and> series (insert_stubs sid n lib) = series lib"
  unfolding insert_stubs_def Let_def by (rule fold_insert_volume)

lemma insert_stubs_numbers:
  "map fst (numbered_volumes (insert_stubs sid n lib) sid)
     = map fst (numbered_volumes lib sid) @ missing_numbers lib sid n"
  using insert_stubs_spec numbered_volumes_new by metis

lemma insert_stubs_none_missing: "missing_numbers (insert_stubs sid n lib) sid n = []"
  unfolding missing_numbers_def [of "insert_stubs sid n lib"] Let_def insert_stubs_numbers
  by (auto simp: missing_numbers_def filter_empty_conv)

lemma fold_nothing_missing: "missing_numbers lib sid n = [] \<Longrightarrow> insert_stubs sid n lib = lib"
  by (simp add: insert_stubs_def)

text \<open>Linking only fills empty links.\<close>

definition linked_from :: "chapter_row \<Rightarrow> chapter_row \<Rightarrow> bool" where
  "linked_from c d \<longleftrightarrow> d = c\<lparr>c_volume := c_volume d\<rparr> \<and> (c_volume c \<noteq> None \<longrightarrow> c_volume d = c_volume c)"

lemma linked_from_refl [simp]: "linked_from c c"
  by (simp add: linked_from_def)

lemma linked_from_trans: "linked_from a b \<Longrightarrow> linked_from b c \<Longrightarrow> linked_from a c"
  unfolding linked_from_def
  by (metis chapter_row.update_convs(3) chapter_row.cases chapter_row.select_convs(3))

lemma linked_from_set: "c_volume c = None \<Longrightarrow> linked_from c (c\<lparr>c_volume := x\<rparr>)"
  by (simp add: linked_from_def)

definition only_linked :: "library \<Rightarrow> library \<Rightarrow> bool" where
  "only_linked lib lib' \<longleftrightarrow> volumes lib' = volumes lib \<and> series lib' = series lib
     \<and> list_all2 linked_from (chapters lib) (chapters lib')"

lemma only_linked_refl [simp]: "only_linked lib lib"
  by (simp add: only_linked_def list.rel_refl)

lemma only_linked_trans: "only_linked a b \<Longrightarrow> only_linked b c \<Longrightarrow> only_linked a c"
  unfolding only_linked_def using list_all2_trans [where ?P1.0 = linked_from and ?P2.0 = linked_from and ?P3.0 = linked_from]
  by (metis linked_from_trans)

lemma only_linked_unlinked: "only_linked lib (link_unlinked sid vid num lib)"
  by (auto simp: only_linked_def link_unlinked_def list.rel_map intro!: list.rel_refl_strong linked_from_set)

lemma link_chapters_only: "link_chapters sid ids kvs lib = Inr lib' \<Longrightarrow> only_linked lib lib'"
proof (induction sid ids kvs lib rule: link_chapters.induct)
  case (1 sid ids lib)
  then show ?case by simp
next
  case (2 sid ids ch_str vol_num kvs lib)
  then show ?case
    by (auto split: sum.splits option.splits intro: only_linked_trans [OF only_linked_unlinked])
qed

lemma create_volume_stubs_cases:
  assumes "create_volume_stubs sid n lib = Inr lib'"
  shows "only_linked (insert_stubs sid n lib) lib'"
  using assms unfolding create_volume_stubs_def Let_def
  by (auto split: if_splits json_column.splits json.splits dest: link_chapters_only)


subsection \<open>Populating: lemmas\<close>

definition unique_chapters :: "library \<Rightarrow> bool" where
  "unique_chapters lib \<longleftrightarrow> distinct (map (\<lambda>c. (c_series c, c_num c)) (chapters lib))
     \<and> distinct (map c_id (chapters lib)) \<and> list_all (\<lambda>c. c_id c < next_chapter_id lib) (chapters lib)"

text \<open>Linking the (unique) unlinked row of a number.\<close>

lemma unlinked_row_update:
  assumes "unique_chapters lib" "find (\<lambda>c. c_series c = sid \<and> c_num c = num \<and> c_volume c = None) (chapters lib) = Some u"
  shows "sql_update (\<lambda>c. c_id c = c_id u) f (chapters lib)
    = sql_update (\<lambda>c. c_series c = sid \<and> c_num c = num \<and> c_volume c = None) f (chapters lib)"
proof -
  from assms(2) have u: "u \<in> set (chapters lib)" "c_series u = sid" "c_num u = num" "c_volume u = None"
    by (auto simp: find_Some_iff)
  have "(c_id c = c_id u) = (c_series c = sid \<and> c_num c = num \<and> c_volume c = None)"
    if "c \<in> set (chapters lib)" for c
  proof
    assume "c_id c = c_id u"
    then have "c = u"
      using assms(1) that u(1) distinct_key_unique [of c_id "chapters lib" c u] by (simp add: unique_chapters_def)
    with u show "c_series c = sid \<and> c_num c = num \<and> c_volume c = None" by simp
  next
    assume "c_series c = sid \<and> c_num c = num \<and> c_volume c = None"
    then have "c = u"
      using assms(1) that u distinct_key_unique [of "\<lambda>c. (c_series c, c_num c)" "chapters lib" c u]
      by (simp add: unique_chapters_def)
    then show "c_id c = c_id u" by simp
  qed
  then show ?thesis by (auto simp: sql_update_def intro!: arg_cong [of _ _ length] filter_cong)
qed

lemma populate_one_eq:
  assumes "unique_chapters lib"
  shows "populate_one sid vid num lib =
    (if vid \<noteq> None \<and> list_ex (\<lambda>c. c_series c = sid \<and> c_num c = num \<and> c_volume c = None) (chapters lib)
     then (link_unlinked sid (the vid) num lib, 0)
     else if list_ex (covers lib sid num) (chapters lib) then (lib, 0)
     else insert_chapter sid vid num lib)"
proof (cases "find (\<lambda>c. c_series c = sid \<and> c_num c = num \<and> c_volume c = None) (chapters lib)")
  case None
  then have "\<not> list_ex (\<lambda>c. c_series c = sid \<and> c_num c = num \<and> c_volume c = None) (chapters lib)"
    by (simp add: find_None_iff list_ex_iff)
  with None show ?thesis by (simp add: populate_one_def split: option.splits)
next
  case (Some u)
  then have "list_ex (\<lambda>c. c_series c = sid \<and> c_num c = num \<and> c_volume c = None) (chapters lib)"
    by (auto simp: find_Some_iff list_ex_iff)
  with Some unlinked_row_update [OF assms Some] show ?thesis
    by (simp add: populate_one_def link_unlinked_def split: option.splits)
qed

text \<open>What one item may do: nothing, fill empty links, or append one wanted stub.\<close>

definition fresh_stub :: "int \<Rightarrow> chapter_row \<Rightarrow> bool" where
  "fresh_stub sid c \<longleftrightarrow> c_series c = sid \<and> c_status c = Wanted \<and> c_monitored c \<and> c_range_end c = None"

definition grown :: "int \<Rightarrow> library \<Rightarrow> library \<Rightarrow> nat \<Rightarrow> bool" where
  "grown sid lib lib' k \<longleftrightarrow> volumes lib' = volumes lib \<and> series lib' = series lib
     \<and> (\<exists>old new. chapters lib' = old @ new \<and> list_all2 linked_from (chapters lib) old
          \<and> length new = k \<and> list_all (fresh_stub sid) new)"

lemma grown_linked: "only_linked lib lib' \<Longrightarrow> grown sid lib lib' 0"
  by (auto simp: only_linked_def grown_def)

lemma linked_from_frame:
  "linked_from c d \<Longrightarrow> c_id d = c_id c \<and> c_series d = c_series c \<and> c_num d = c_num c
     \<and> c_status d = c_status c \<and> c_monitored d = c_monitored c \<and> c_range_end d = c_range_end c \<and> c_cols d = c_cols c"
  unfolding linked_from_def by (cases c, cases d) simp

lemma grown_trans:
  assumes "grown sid a b m" "grown sid b c n"
  shows "grown sid a c (m + n)"
proof -
  from assms(1) obtain o1 n1 where 1: "chapters b = o1 @ n1" "list_all2 linked_from (chapters a) o1"
    "length n1 = m" "list_all (fresh_stub sid) n1" "volumes b = volumes a" "series b = series a"
    by (auto simp: grown_def)
  from assms(2) obtain o2 n2 where 2: "chapters c = o2 @ n2" "list_all2 linked_from (o1 @ n1) o2"
    "length n2 = n" "list_all (fresh_stub sid) n2" "volumes c = volumes b" "series c = series b"
    using 1(1) by (auto simp: grown_def)
  from 2(2) obtain p q where o2: "o2 = p @ q" "list_all2 linked_from o1 p" "list_all2 linked_from n1 q"
    by (auto simp: list_all2_append1)
  have "list_all2 linked_from (chapters a) p"
    using 1(2) o2(2) list_all2_trans [of linked_from linked_from linked_from] linked_from_trans by blast
  moreover have "list_all (fresh_stub sid) q"
    using o2(3) 1(4) by (induction rule: list_all2_induct)
      (auto simp: fresh_stub_def dest: linked_from_frame)
  moreover have "length q = m" using o2(3) 1(3) by (simp add: list_all2_lengthD)
  ultimately show ?thesis
    unfolding grown_def using 1 2 o2(1) by (intro conjI exI [of _ p] exI [of _ "q @ n2"]) simp_all
qed

lemma insert_chapter_grown:
  "insert_chapter sid vid num lib = (lib', k) \<Longrightarrow> grown sid lib lib' k"
proof (cases "list_ex (\<lambda>c. c_series c = sid \<and> c_num c = num) (chapters lib)")
  case True
  assume "insert_chapter sid vid num lib = (lib', k)"
  with True have "lib' = lib" "k = 0" by (simp_all add: insert_chapter_def)
  then show ?thesis by (simp add: grown_linked)
next
  case False
  assume "insert_chapter sid vid num lib = (lib', k)"
  with False obtain c where "k = 1" "chapters lib' = chapters lib @ [c]" "fresh_stub sid c"
    "volumes lib' = volumes lib" "series lib' = series lib"
    by (auto simp: insert_chapter_def fresh_stub_def)
  then show ?thesis
    unfolding grown_def by (intro conjI exI [of _ "chapters lib"] exI [of _ "[c]"]) (simp_all add: list.rel_refl)
qed

lemma populate_one_grown:
  assumes "unique_chapters lib" "populate_one sid vid num lib = (lib', k)"
  shows "grown sid lib lib' k"
  using assms unfolding populate_one_eq [OF assms(1)]
  by (auto split: if_splits intro: grown_linked only_linked_unlinked insert_chapter_grown)

lemma unique_link: "unique_chapters lib \<Longrightarrow> unique_chapters (link_unlinked sid vid num lib)"
proof -
  assume u: "unique_chapters lib"
  let ?f = "\<lambda>c. if c_series c = sid \<and> c_num c = num \<and> c_volume c = None then c\<lparr>c_volume := Some vid\<rparr> else c"
  have c: "chapters (link_unlinked sid vid num lib) = map ?f (chapters lib)"
    "next_chapter_id (link_unlinked sid vid num lib) = next_chapter_id lib"
    by (simp_all add: link_unlinked_def)
  have k: "map (\<lambda>c. (c_series c, c_num c)) (map ?f (chapters lib)) = map (\<lambda>c. (c_series c, c_num c)) (chapters lib)"
    "map c_id (map ?f (chapters lib)) = map c_id (chapters lib)"
    by simp_all
  show ?thesis unfolding unique_chapters_def c k
    using u by (auto simp: unique_chapters_def list_all_iff)
qed

lemma unique_insert:
  assumes "unique_chapters lib"
  shows "unique_chapters (fst (insert_chapter sid vid num lib))"
  using assms
  by (auto simp: unique_chapters_def insert_chapter_def list_ex_iff list_all_iff image_iff; fastforce)

lemma unique_populate_one:
  "unique_chapters lib \<Longrightarrow> unique_chapters (fst (populate_one sid vid num lib))"
  by (simp add: populate_one_eq unique_link unique_insert)


lemma populate_items_grown:
  "unique_chapters lib \<Longrightarrow> populate_items sid ids kvs lib = Inr (lib', k)
    \<Longrightarrow> grown sid lib lib' k \<and> unique_chapters lib'"
proof (induction sid ids kvs lib arbitrary: k rule: populate_items.induct)
  case (1 sid ids lib)
  then show ?case by (auto intro: grown_linked)
next
  case (2 sid ids ch_str vol_num kvs lib)
  show ?case
  proof (cases "py_float_str ch_str")
    case None
    with 2 show ?thesis by simp
  next
    case (Some num)
    with "2.prems"(2) obtain vid where vid: "map_target ids vol_num = Inr vid"
      by (auto split: sum.splits)
    obtain lib1 n where one: "populate_one sid vid num lib = (lib1, n)" by fastforce
    from "2.prems"(2) Some vid one obtain m where
      rest: "populate_items sid ids kvs lib1 = Inr (lib', m)" "k = n + m"
      by (auto split: sum.splits)
    have "unique_chapters lib1" using unique_populate_one [OF "2.prems"(1), of sid vid num] one by simp
    with "2.IH"(2) [OF Some vid refl one [symmetric]] rest
    have "grown sid lib1 lib' m \<and> unique_chapters lib'" by simp
    with populate_one_grown [OF "2.prems"(1) one] rest(2) grown_trans show ?thesis by blast
  qed
qed

lemma populate_cases:
  assumes "populate_chapters sid lib = Inr (lib', k)"
  obtains "lib' = lib" "k = 0" "\<And>kvs. series_map_column lib sid = JsonParsed (JObj kvs) \<Longrightarrow> kvs = []"
  | kvs where "series_map_column lib sid = JsonParsed (JObj kvs)"
      "populate_items sid (vol_id_map lib sid) kvs lib = Inr (lib', k)"
  using assms that unfolding populate_chapters_def
  by (cases "series_map_column lib sid") (auto split: if_splits json.splits simp: json_truthy_def)

text \<open>An item is settled when processing it again changes nothing.\<close>

definition settled :: "int \<Rightarrow> int option \<Rightarrow> rat \<Rightarrow> library \<Rightarrow> bool" where
  "settled sid vid num lib \<longleftrightarrow>
     (vid = None \<or> \<not> list_ex (\<lambda>c. c_series c = sid \<and> c_num c = num \<and> c_volume c = None) (chapters lib))
     \<and> (list_ex (covers lib sid num) (chapters lib) \<or> list_ex (\<lambda>c. c_series c = sid \<and> c_num c = num) (chapters lib))"

definition regular_target :: "library \<Rightarrow> int option \<Rightarrow> bool" where
  "regular_target lib vid \<longleftrightarrow>
     (case vid of None \<Rightarrow> True
      | Some v \<Rightarrow> (case volume_by_id lib v of None \<Rightarrow> True | Some row \<Rightarrow> \<not> v_special row))"

lemma settled_again:
  "unique_chapters lib \<Longrightarrow> settled sid vid num lib \<Longrightarrow> populate_one sid vid num lib = (lib, 0)"
  by (auto simp: populate_one_eq settled_def insert_chapter_def)

lemma covers_cong:
  assumes "volumes a = volumes b"
  shows "covers a = covers b"
proof -
  have v: "volume_by_id a = volume_by_id b" using assms by (simp add: volume_by_id_def fun_eq_iff)
  show ?thesis by (intro ext) (unfold covers_def chapter_is_special_def v, rule refl)
qed

lemma list_ex_map_eq: "list_ex P (map f xs) = list_ex (\<lambda>x. P (f x)) xs"
  by (induction xs) auto

lemma link_unlinked_rows:
  "list_ex (\<lambda>c. c_series c = sid \<and> c_num c = num) (chapters (link_unlinked sid' v num' lib))
    = list_ex (\<lambda>c. c_series c = sid \<and> c_num c = num) (chapters lib)"
  unfolding link_unlinked_def
  by (simp add: list_ex_map_eq) (rule list_ex_cong, auto)

lemma link_unlinked_clears:
  "\<not> list_ex (\<lambda>c. c_series c = sid \<and> c_num c = num \<and> c_volume c = None) (chapters (link_unlinked sid v num lib))"
proof -
  have "\<not> (c_series (if u then c\<lparr>c_volume := Some v\<rparr> else c) = sid
      \<and> c_num (if u then c\<lparr>c_volume := Some v\<rparr> else c) = num
      \<and> c_volume (if u then c\<lparr>c_volume := Some v\<rparr> else c) = None)"
    if "u \<longleftrightarrow> c_series c = sid \<and> c_num c = num \<and> c_volume c = None" for u c
    using that by (cases u) auto
  then show ?thesis unfolding link_unlinked_def by (simp add: list_ex_map_eq list_ex_iff del: if_image_distrib)
qed

lemma covers_linked:
  assumes "regular_target lib (Some v)" "covers lib sid num c" "c_volume c = None"
  shows "covers lib sid num (c\<lparr>c_volume := Some v\<rparr>)"
  using assms by (auto simp: covers_def chapter_is_special_def regular_target_def split: option.splits)

lemma link_settled:
  assumes "regular_target lib (Some v)" "settled sid vid num lib"
  shows "settled sid vid num (link_unlinked sid' v num' lib)"
proof -
  let ?u = "\<lambda>c. c_series c = sid' \<and> c_num c = num' \<and> c_volume c = None"
  let ?f = "\<lambda>c. if ?u c then c\<lparr>c_volume := Some v\<rparr> else c"
  let ?lib = "link_unlinked sid' v num' lib"
  have ch: "chapters ?lib = map ?f (chapters lib)" by (simp add: link_unlinked_def)
  have cv: "covers ?lib = covers lib" by (rule covers_cong) (simp add: link_unlinked_def)
  have "covers lib sid num (?f c)" if "covers lib sid num c" for c
    using covers_linked [OF assms(1) that] that by simp
  then have "list_ex (covers lib sid num) (map ?f (chapters lib))"
    if "list_ex (covers lib sid num) (chapters lib)"
    using that unfolding list_ex_iff set_map by blast
  moreover have "list_ex (\<lambda>c. c_series c = sid \<and> c_num c = num) (map ?f (chapters lib))
      = list_ex (\<lambda>c. c_series c = sid \<and> c_num c = num) (chapters lib)"
    unfolding ch [symmetric] by (rule link_unlinked_rows)
  moreover have "list_ex (\<lambda>c. c_series c = sid \<and> c_num c = num \<and> c_volume c = None) (chapters lib)"
    if "list_ex (\<lambda>c. c_series c = sid \<and> c_num c = num \<and> c_volume c = None) (map ?f (chapters lib))"
    using that by (auto simp: list_ex_iff split: if_splits)
  ultimately show ?thesis using assms(2) unfolding settled_def ch cv by blast
qed

lemma insert_settled:
  assumes "settled sid vid num lib" "sid' = sid \<longrightarrow> num' \<noteq> num"
  shows "settled sid vid num (fst (insert_chapter sid' w num' lib))"
proof -
  have cv: "covers (fst (insert_chapter sid' w num' lib)) = covers lib"
    by (rule covers_cong) (simp add: insert_chapter_def)
  show ?thesis using assms unfolding settled_def cv
    by (auto simp: insert_chapter_def list_ex_iff)
qed

lemma populate_one_keeps_settled:
  assumes "unique_chapters lib" "regular_target lib vid'" "settled sid vid num lib"
  shows "settled sid vid num (fst (populate_one sid vid' num' lib))"
proof -
  let ?un = "list_ex (\<lambda>c. c_series c = sid \<and> c_num c = num' \<and> c_volume c = None) (chapters lib)"
  consider (link) v where "vid' = Some v" "?un" | (covered) "\<not> (vid' \<noteq> None \<and> ?un)" "list_ex (covers lib sid num') (chapters lib)"
    | (insert) "\<not> (vid' \<noteq> None \<and> ?un)" "\<not> list_ex (covers lib sid num') (chapters lib)"
    by blast
  then show ?thesis
  proof cases
    case link
    with assms show ?thesis by (simp add: populate_one_eq link_settled)
  next
    case covered
    with assms show ?thesis by (auto simp: populate_one_eq)
  next
    case insert
    then have eq: "populate_one sid vid' num' lib = insert_chapter sid vid' num' lib"
      using assms(1) by (auto simp: populate_one_eq)
    show ?thesis
    proof (cases "num' = num")
      case True
      with insert assms(3) have "list_ex (\<lambda>c. c_series c = sid \<and> c_num c = num') (chapters lib)"
        by (simp add: settled_def)
      with assms(3) eq show ?thesis by (simp add: insert_chapter_def)
    next
      case False
      with assms(3) eq show ?thesis by (simp add: insert_settled)
    qed
  qed
qed

lemma populate_one_settles:
  assumes "unique_chapters lib" "regular_target lib vid"
  shows "settled sid vid num (fst (populate_one sid vid num lib))"
proof -
  let ?un = "list_ex (\<lambda>c. c_series c = sid \<and> c_num c = num \<and> c_volume c = None) (chapters lib)"
  consider (link) v where "vid = Some v" "?un" | (covered) "\<not> (vid \<noteq> None \<and> ?un)" "list_ex (covers lib sid num) (chapters lib)"
    | (insert) "\<not> (vid \<noteq> None \<and> ?un)" "\<not> list_ex (covers lib sid num) (chapters lib)"
    by blast
  then show ?thesis
  proof cases
    case link
    then have eq: "fst (populate_one sid vid num lib) = link_unlinked sid v num lib"
      using assms(1) by (simp add: populate_one_eq)
    have "list_ex (\<lambda>c. c_series c = sid \<and> c_num c = num) (chapters lib)"
      using link(2) by (auto simp: list_ex_iff)
    then show ?thesis unfolding eq settled_def
      by (simp add: link_unlinked_rows link_unlinked_clears)
  next
    case covered
    with assms(1) have "populate_one sid vid num lib = (lib, 0)" by (auto simp: populate_one_eq)
    with covered show ?thesis by (auto simp: settled_def)
  next
    case insert
    then have eq: "populate_one sid vid num lib = insert_chapter sid vid num lib"
      using assms(1) by (auto simp: populate_one_eq)
    from insert show ?thesis unfolding eq
      by (auto simp: settled_def insert_chapter_def list_ex_iff)
  qed
qed


lemma populate_one_frame: "volumes (fst (populate_one sid vid num lib)) = volumes lib"
    "series (fst (populate_one sid vid num lib)) = series lib"
  by (auto simp: populate_one_def insert_chapter_def split: option.splits)

lemma regular_target_cong:
  assumes "volumes a = volumes b"
  shows "regular_target a = regular_target b"
proof -
  have v: "volume_by_id a = volume_by_id b" using assms by (simp add: volume_by_id_def fun_eq_iff)
  show ?thesis by (intro ext) (unfold regular_target_def v, rule refl)
qed

text \<open>The items of a map that are read: a key that parses, with its target.\<close>

fun parsed_items :: "(rat \<Rightarrow> int option) \<Rightarrow> (string \<times> json) list \<Rightarrow> (rat \<times> int option) list" where
  "parsed_items ids [] = []"
| "parsed_items ids ((ch_str, vol_num) # kvs) =
     (case (py_float_str ch_str, map_target ids vol_num) of
        (Some num, Inr vid) \<Rightarrow> (num, vid) # parsed_items ids kvs
      | _ \<Rightarrow> parsed_items ids kvs)"

definition all_settled :: "int \<Rightarrow> (rat \<times> int option) list \<Rightarrow> library \<Rightarrow> bool" where
  "all_settled sid items lib \<longleftrightarrow> list_all (\<lambda>(num, vid). settled sid vid num lib) items"

lemma populate_items_keeps_settled:
  "unique_chapters lib \<Longrightarrow> list_all (\<lambda>(n, vid). regular_target lib vid) (parsed_items ids kvs)
    \<Longrightarrow> populate_items sid ids kvs lib = Inr (lib', k) \<Longrightarrow> settled sid w m lib
    \<Longrightarrow> settled sid w m lib'"
proof (induction sid ids kvs lib arbitrary: k rule: populate_items.induct)
  case (1 sid ids lib)
  then show ?case by simp
next
  case (2 sid ids ch_str vol_num kvs lib)
  show ?case
  proof (cases "py_float_str ch_str")
    case None
    with 2 show ?thesis by simp
  next
    case (Some num)
    with "2.prems"(3) obtain vid where vid: "map_target ids vol_num = Inr vid"
      by (auto split: sum.splits)
    obtain lib1 n where one: "populate_one sid vid num lib = (lib1, n)" by fastforce
    from "2.prems"(3) Some vid one obtain j where
      rest: "populate_items sid ids kvs lib1 = Inr (lib', j)" by (auto split: sum.splits)
    have "unique_chapters lib1" using unique_populate_one [OF "2.prems"(1), of sid vid num] one by simp
    moreover have reg: "regular_target lib1 = regular_target lib"
      using populate_one_frame(1) [of sid vid num lib] one by (intro regular_target_cong) simp
    moreover have "settled sid w m lib1"
      using populate_one_keeps_settled [OF "2.prems"(1) _ "2.prems"(4), of vid num] one "2.prems"(2) Some vid by simp
    ultimately show ?thesis
      using "2.IH"(2) [OF Some vid refl one [symmetric]] rest "2.prems"(2) Some vid by simp
  qed
qed

lemma populate_items_settles:
  "unique_chapters lib \<Longrightarrow> list_all (\<lambda>(n, vid). regular_target lib vid) (parsed_items ids kvs)
    \<Longrightarrow> populate_items sid ids kvs lib = Inr (lib', k) \<Longrightarrow> all_settled sid (parsed_items ids kvs) lib'"
proof (induction sid ids kvs lib arbitrary: k rule: populate_items.induct)
  case (1 sid ids lib)
  then show ?case by (simp add: all_settled_def)
next
  case (2 sid ids ch_str vol_num kvs lib)
  show ?case
  proof (cases "py_float_str ch_str")
    case None
    with 2 show ?thesis by simp
  next
    case (Some num)
    with "2.prems"(3) obtain vid where vid: "map_target ids vol_num = Inr vid"
      by (auto split: sum.splits)
    obtain lib1 n where one: "populate_one sid vid num lib = (lib1, n)" by fastforce
    from "2.prems"(3) Some vid one obtain j where
      rest: "populate_items sid ids kvs lib1 = Inr (lib', j)" by (auto split: sum.splits)
    have u: "unique_chapters lib1" using unique_populate_one [OF "2.prems"(1), of sid vid num] one by simp
    have reg: "regular_target lib1 = regular_target lib"
      using populate_one_frame(1) [of sid vid num lib] one by (intro regular_target_cong) simp
    have s: "settled sid vid num lib1"
      using populate_one_settles [OF "2.prems"(1), of vid sid num] one "2.prems"(2) Some vid by simp
    have t: "list_all (\<lambda>(n, vid). regular_target lib1 vid) (parsed_items ids kvs)"
      using "2.prems"(2) Some vid reg by simp
    from "2.IH"(2) [OF Some vid refl one [symmetric] u t rest] populate_items_keeps_settled [OF u t rest s]
    show ?thesis using Some vid by (simp add: all_settled_def)
  qed
qed

lemma populate_items_again:
  "unique_chapters lib \<Longrightarrow> all_settled sid (parsed_items ids kvs) lib
    \<Longrightarrow> populate_items sid ids kvs lib = Inr r \<Longrightarrow> populate_items sid ids kvs lib = Inr (lib, 0)"
proof (induction sid ids kvs lib arbitrary: r rule: populate_items.induct)
  case (1 sid ids lib)
  then show ?case by simp
next
  case (2 sid ids ch_str vol_num kvs lib)
  show ?case
  proof (cases "py_float_str ch_str")
    case None
    with 2 show ?thesis by simp
  next
    case (Some num)
    with "2.prems"(3) obtain vid where vid: "map_target ids vol_num = Inr vid"
      by (auto split: sum.splits)
    have s: "settled sid vid num lib" "all_settled sid (parsed_items ids kvs) lib"
      using "2.prems"(2) Some vid by (simp_all add: all_settled_def)
    have one: "populate_one sid vid num lib = (lib, 0)" by (rule settled_again [OF "2.prems"(1) s(1)])
    from "2.prems"(3) Some vid one obtain j where rest: "populate_items sid ids kvs lib = Inr j"
      by (cases "populate_items sid ids kvs lib") auto
    show ?thesis
      using "2.IH"(2) [OF Some vid refl one [symmetric] "2.prems"(1) s(2) rest] Some vid one by simp
  qed
qed

text \<open>Whether an item raises does not depend on the library.\<close>

lemma populate_items_total:
  "populate_items sid ids kvs lib = Inr r \<Longrightarrow> \<exists>r'. populate_items sid ids kvs lib' = Inr r'"
proof (induction kvs arbitrary: lib lib' r)
  case Nil
  then show ?case by simp
next
  case (Cons kv kvs)
  obtain ch_str vol_num where kv: "kv = (ch_str, vol_num)" by fastforce
  show ?case
  proof (cases "py_float_str ch_str")
    case None
    with Cons kv show ?thesis by simp
  next
    case (Some num)
    with Cons.prems kv obtain vid where vid: "map_target ids vol_num = Inr vid"
      by (auto split: sum.splits)
    obtain lib1 n where one: "populate_one sid vid num lib = (lib1, n)" by fastforce
    obtain lib2 n' where two: "populate_one sid vid num lib' = (lib2, n')" by fastforce
    from Cons.prems kv Some vid one obtain q where "populate_items sid ids kvs lib1 = Inr q"
      by (cases "populate_items sid ids kvs lib1") auto
    with Cons.IH obtain q' where "populate_items sid ids kvs lib2 = Inr q'" by blast
    with kv Some vid two show ?thesis by (cases q') auto
  qed
qed


lemma vol_id_map_cong: "volumes a = volumes b \<Longrightarrow> vol_id_map a = vol_id_map b"
  using numbered_volumes_cong [of a b] by (simp add: vol_id_map_def fun_eq_iff)

definition targets_regular :: "int \<Rightarrow> library \<Rightarrow> bool" where
  "targets_regular sid lib \<longleftrightarrow> list_all (\<lambda>(_, vid). regular_target lib (Some vid)) (numbered_volumes lib sid)"

lemma parsed_items_regular:
  assumes "targets_regular sid lib"
  shows "list_all (\<lambda>(n, vid). regular_target lib vid) (parsed_items (vol_id_map lib sid) kvs)"
proof (induction kvs)
  case Nil
  then show ?case by simp
next
  case (Cons kv kvs)
  obtain k j where kv: "kv = (k, j)" by fastforce
  have "regular_target lib vid" if m: "map_target (vol_id_map lib sid) j = Inr vid" for vid
  proof (cases vid)
    case None
    then show ?thesis by (simp add: regular_target_def)
  next
    case (Some v)
    with m obtain x where "vol_id_map lib sid x = Some v"
      by (auto simp: map_target_def split: if_splits sum.splits option.splits)
    then have "(x, v) \<in> set (numbered_volumes lib sid)"
      by (auto simp: vol_id_map_def dest: map_of_SomeD)
    with assms Some show ?thesis by (auto simp: targets_regular_def list_all_iff)
  qed
  with Cons.IH kv show ?case by (simp split: option.splits sum.splits)
qed

text \<open>Linking again changes nothing.\<close>

definition no_unlinked :: "int \<Rightarrow> rat \<Rightarrow> library \<Rightarrow> bool" where
  "no_unlinked sid num lib \<longleftrightarrow>
     \<not> list_ex (\<lambda>c. c_series c = sid \<and> c_num c = num \<and> c_volume c = None) (chapters lib)"

lemma link_unlinked_id: "no_unlinked sid num lib \<Longrightarrow> link_unlinked sid v num lib = lib"
proof -
  assume "no_unlinked sid num lib"
  then have "map (\<lambda>c. if c_series c = sid \<and> c_num c = num \<and> c_volume c = None
      then c\<lparr>c_volume := Some v\<rparr> else c) (chapters lib) = chapters lib"
    by (intro map_idI) (auto simp: no_unlinked_def list_ex_iff)
  then show ?thesis by (simp add: link_unlinked_def)
qed

lemma no_unlinked_mono:
  assumes "only_linked lib lib'" "no_unlinked sid num lib"
  shows "no_unlinked sid num lib'"
proof -
  have "list_all2 linked_from (chapters lib) (chapters lib')" using assms(1) by (simp add: only_linked_def)
  moreover have "list_all2 linked_from xs ys \<Longrightarrow>
      list_ex (\<lambda>c. c_series c = sid \<and> c_num c = num \<and> c_volume c = None) ys
      \<Longrightarrow> list_ex (\<lambda>c. c_series c = sid \<and> c_num c = num \<and> c_volume c = None) xs" for xs ys
    by (induction rule: list_all2_induct) (auto simp: linked_from_def dest: linked_from_frame)
  ultimately show ?thesis using assms(2) by (auto simp: no_unlinked_def)
qed

lemma link_chapters_idem:
  "link_chapters sid ids kvs lib = Inr lib' \<Longrightarrow> only_linked lib' lib''
    \<Longrightarrow> link_chapters sid ids kvs lib'' = Inr lib''"
proof (induction sid ids kvs lib rule: link_chapters.induct)
  case (1 sid ids lib)
  then show ?case by simp
next
  case (2 sid ids ch_str vol_num kvs lib)
  from "2.prems"(1) obtain t where t: "map_target ids vol_num = Inr t" by (auto split: sum.splits)
  show ?case
  proof (cases t)
    case None
    with "2.IH"(1) [OF t None] "2.prems" t show ?thesis by simp
  next
    case (Some v)
    show ?thesis
    proof (cases "py_float_str ch_str")
      case None
      with "2.IH"(2) [OF t Some None] "2.prems" t Some show ?thesis by simp
    next
      case (Some num)
      note num = this
      have l: "link_chapters sid ids kvs (link_unlinked sid v num lib) = Inr lib'"
        using "2.prems"(1) t \<open>t = Some v\<close> num by simp
      have "no_unlinked sid num (link_unlinked sid v num lib)"
        using link_unlinked_clears by (simp add: no_unlinked_def)
      then have "no_unlinked sid num lib''"
        using no_unlinked_mono only_linked_trans [OF link_chapters_only [OF l] "2.prems"(2)] by blast
      then have "link_unlinked sid v num lib'' = lib''" by (rule link_unlinked_id)
      with "2.IH"(3) [OF t \<open>t = Some v\<close> num l "2.prems"(2)] t \<open>t = Some v\<close> num show ?thesis by simp
    qed
  qed
qed


subsection \<open>Properties\<close>

text \<open>\<open>range(1, n + 1)\<close> as floats is exact below \<open>2 ^ 53\<close>.\<close>

lemma missing_numbers_exact:
  assumes "n < 2 ^ 53"
  shows "missing_numbers lib sid n
    = filter (\<lambda>x. x \<notin> fst ` set (numbered_volumes lib sid)) (map of_int [1..n])"
proof -
  have "map (\<lambda>v. round_double (of_int v)) [1..n] = map of_int [1..n]"
    using assms by (intro map_cong refl round_double_int) simp
  then show ?thesis unfolding missing_numbers_def Let_def set_map by (rule arg_cong)
qed

lemma create_volume_stubs_again:
  assumes "create_volume_stubs sid n lib = Inr lib'"
  shows "create_volume_stubs sid n lib' = Inr lib'"
proof -
  let ?lib1 = "insert_stubs sid n lib"
  have ol: "only_linked ?lib1 lib'" by (rule create_volume_stubs_cases [OF assms])
  then have vs: "volumes lib' = volumes ?lib1" "series lib' = series ?lib1" by (simp_all add: only_linked_def)
  have miss: "missing_numbers lib' sid n = []"
    using insert_stubs_none_missing [of sid n lib] missing_numbers_cong [OF vs(1)] by simp
  then have st: "insert_stubs sid n lib' = lib'" by (rule fold_nothing_missing)
  have col: "series_map_column lib' sid = series_map_column ?lib1 sid"
    using vs(2) by (simp add: series_map_column_def series_by_id_def)
  have ids: "vol_id_map lib' = vol_id_map ?lib1" by (rule vol_id_map_cong [OF vs(1)])
  show ?thesis
  proof (cases "series_map_column ?lib1 sid")
    case (JsonParsed j)
    then show ?thesis
    proof (cases j)
      case (JObj kvs)
      with assms JsonParsed have "link_chapters sid (vol_id_map ?lib1 sid) kvs ?lib1 = Inr lib'"
        by (simp add: create_volume_stubs_def Let_def split: if_splits)
      then have "link_chapters sid (vol_id_map ?lib1 sid) kvs lib' = Inr lib'"
        by (rule link_chapters_idem) simp
      with JsonParsed JObj show ?thesis by (simp add: create_volume_stubs_def Let_def st miss col ids)
    qed (use assms JsonParsed in \<open>auto simp: create_volume_stubs_def Let_def split: if_splits\<close>)
  qed (simp_all add: create_volume_stubs_def Let_def st miss col)
qed

text \<open>
  C5: When create_volume_stubs returns, exactly the numbers of 1..total_volumes that no volume
  of the series had are appended, in order, as wanted non-special stubs that are monitored iff
  monitor_mode is all or missing; no volume is changed, chapters only have empty links filled,
  and running it again changes nothing at all.\<close>

theorem create_volume_stubs_correct:
  assumes "create_volume_stubs sid n lib = Inr lib'" "n < 2 ^ 53"
  shows "\<exists>new. volumes lib' = volumes lib @ new
      \<and> map v_num new = map Some (filter (\<lambda>x. x \<notin> fst ` set (numbered_volumes lib sid)) (map of_int [1..n]))
      \<and> list_all (new_stub sid (monitor_mode lib sid \<in> {''all'', ''missing''})) new
      \<and> list_all2 linked_from (chapters lib) (chapters lib')
      \<and> create_volume_stubs sid n lib' = Inr lib'"
  using create_volume_stubs_again [OF assms(1)] create_volume_stubs_cases [OF assms(1)]
    insert_stubs_spec [of sid n lib] missing_numbers_exact [OF assms(2)]
  by (auto simp: only_linked_def)

definition demo_library :: library where
  "demo_library = \<lparr>
     series = [\<lparr>s_id = 1, s_title = ''Demo'', s_monitor_mode = Some ''missing'', s_total_volumes = Some 2,
       s_total_chapters = None,
       s_chapter_map = JsonParsed (JObj [(''1'', JInt 1), (''2.5'', JStr ''1''), (''3'', JInt 2), (''x'', JNull)])\<rparr>],
     volumes = [\<lparr>v_id = 7, v_series = 1, v_num = Some 1, v_status = Wanted, v_monitored = True,
       v_special = False, v_imported_at = None\<rparr>],
     chapters = [\<lparr>c_id = 4, c_series = 1, c_volume = None, c_num = 1, c_status = Downloaded,
       c_monitored = True, c_range_end = None, c_cols = (\<lambda>_. SqlNull)\<rparr>],
     next_volume_id = 8, next_chapter_id = 5\<rparr>"

definition demo_stubbed :: library where
  "demo_stubbed = (case create_volume_stubs 1 2 demo_library of Inr l \<Rightarrow> l | Inl _ \<Rightarrow> demo_library)"

lemma demo_stubbed_Inr: "create_volume_stubs 1 2 demo_library = Inr demo_stubbed"
proof -
  have "\<not> isl (create_volume_stubs 1 2 demo_library)" by code_simp
  then show ?thesis by (cases "create_volume_stubs 1 2 demo_library") (simp_all add: demo_stubbed_def)
qed

theorem create_volume_stubs_correct_witness:
  "create_volume_stubs 1 2 demo_stubbed = Inr demo_stubbed \<and> length (volumes demo_stubbed) = 2"
proof -
  have "length (volumes demo_stubbed) = 2" by code_simp
  with create_volume_stubs_correct [OF demo_stubbed_Inr] show ?thesis by auto
qed

text \<open>
  populate_chapters keeps UNIQUE(series_id, chapter_num) and the row ids, changes no volume,
  never changes a link that is set nor any other column of an existing chapter, and the count it
  returns is the number of wanted, monitored stubs it appended.\<close>

theorem populate_chapters_grows:
  assumes "unique_chapters lib" "populate_chapters sid lib = Inr (lib', k)"
  shows "unique_chapters lib'
      \<and> volumes lib' = volumes lib \<and> series lib' = series lib
      \<and> (\<exists>old new. chapters lib' = old @ new \<and> list_all2 linked_from (chapters lib) old
           \<and> length new = k \<and> list_all (fresh_stub sid) new)"
proof -
  have "grown sid lib lib' k \<and> unique_chapters lib'"
    using assms(2)
  proof (cases rule: populate_cases)
    case 1
    with assms(1) show ?thesis by (simp add: grown_linked)
  next
    case (2 kvs)
    with populate_items_grown [OF assms(1)] show ?thesis by blast
  qed
  then show ?thesis by (simp add: grown_def)
qed

definition demo_populated :: library where
  "demo_populated = (case populate_chapters 1 demo_stubbed of Inr (l, _) \<Rightarrow> l | Inl _ \<Rightarrow> demo_library)"

lemma demo_populated_Inr: "populate_chapters 1 demo_stubbed = Inr (demo_populated, 2)"
proof -
  have "case populate_chapters 1 demo_stubbed of Inr (_, n) \<Rightarrow> n = 2 | Inl _ \<Rightarrow> False" by code_simp
  then show ?thesis
    by (cases "populate_chapters 1 demo_stubbed") (auto simp: demo_populated_def)
qed

lemma demo_stubbed_unique: "unique_chapters demo_stubbed"
  by code_simp

theorem populate_chapters_grows_witness: "unique_chapters demo_populated"
  using populate_chapters_grows [OF demo_stubbed_unique demo_populated_Inr] by simp

text \<open>
  Where no numbered volume of the series is special, populate_chapters leaves every entry of
  the map settled (its chapter exists or is covered by a range row, and no row of it stays
  unlinked when its volume exists), and running it again creates and changes nothing.\<close>

theorem populate_chapters_idempotent:
  assumes "unique_chapters lib" "targets_regular sid lib" "populate_chapters sid lib = Inr (lib', k)"
  shows "populate_chapters sid lib' = Inr (lib', 0)
      \<and> (\<forall>kvs. series_map_column lib sid = JsonParsed (JObj kvs)
           \<longrightarrow> all_settled sid (parsed_items (vol_id_map lib sid) kvs) lib')"
  using assms(3)
proof (cases rule: populate_cases)
  case 1
  have "all_settled sid (parsed_items (vol_id_map lib sid) kvs) lib'"
    if "series_map_column lib sid = JsonParsed (JObj kvs)" for kvs
    using 1(3) [OF that] by (simp add: all_settled_def)
  with 1 assms(3) show ?thesis by blast
next
  case (2 kvs)
  note reg = parsed_items_regular [OF assms(2), of kvs]
  have g: "unique_chapters lib'" "volumes lib' = volumes lib" "series lib' = series lib"
    using populate_items_grown [OF assms(1) 2(2)] by (simp_all add: grown_def)
  have s: "all_settled sid (parsed_items (vol_id_map lib sid) kvs) lib'"
    by (rule populate_items_settles [OF assms(1) reg 2(2)])
  obtain r where "populate_items sid (vol_id_map lib sid) kvs lib' = Inr r"
    using populate_items_total [OF 2(2)] by blast
  from populate_items_again [OF g(1) s this]
  have "populate_items sid (vol_id_map lib' sid) kvs lib' = Inr (lib', 0)"
    using vol_id_map_cong [OF g(2)] by simp
  moreover have "series_map_column lib' sid = series_map_column lib sid"
    using g(3) by (simp add: series_map_column_def series_by_id_def)
  ultimately show ?thesis using 2(1) s by (simp add: populate_chapters_def)
qed

theorem populate_chapters_idempotent_witness:
  "populate_chapters 1 demo_populated = Inr (demo_populated, 0)"
proof -
  have "targets_regular 1 demo_stubbed" by code_simp
  from populate_chapters_idempotent [OF demo_stubbed_unique this demo_populated_Inr] show ?thesis by simp
qed


text \<open>
  The comment in populate_chapters says that a special must not keep the mainline stub from
  existing. The coverage guard lets it through, but the special's own row occupies
  \<open>UNIQUE(series_id, chapter_num)\<close>, so the INSERT OR IGNORE that follows is ignored.\<close>

definition gaiden_library :: library where
  "gaiden_library = demo_library\<lparr>
     volumes := volumes demo_library @ [\<lparr>v_id = 9, v_series = 1, v_num = None, v_status = Downloaded,
       v_monitored = True, v_special = True, v_imported_at = Some 0\<rparr>],
     chapters := [\<lparr>c_id = 4, c_series = 1, c_volume = Some 9, c_num = 1, c_status = Downloaded,
       c_monitored = True, c_range_end = Some 2, c_cols = (\<lambda>_. SqlNull)\<rparr>]\<rparr>"

lemma special_row_suppresses_mainline_stub:
  "case populate_chapters 1 gaiden_library of
     Inl _ \<Rightarrow> False
   | Inr (lib', _) \<Rightarrow> \<not> list_ex (\<lambda>c. c_num c = 1 \<and> \<not> chapter_is_special lib' c) (chapters lib')"
  by code_simp

subsection \<open>Completion and cascades: properties\<close>

definition volume_members :: "int \<Rightarrow> int \<Rightarrow> library \<Rightarrow> chapter_row list" where
  "volume_members sid vid lib =
     filter (\<lambda>c. c_series c = sid \<and> c_volume c = Some vid \<and> c_monitored c) (chapters lib)"

lemma filter_all_length: "length (filter P xs) = length xs \<longleftrightarrow> list_all P xs"
  unfolding list_all_iff by (metis filter_True length_filter_less less_irrefl)

lemma check_volume_completion_eq:
  "check_volume_completion now sid vid lib =
     (if volume_members sid vid lib \<noteq> [] \<and> list_all (\<lambda>c. c_status c = Downloaded) (volume_members sid vid lib)
      then (True, set_volume_downloaded now vid lib) else (False, lib))"
  using filter_all_length [of "\<lambda>c. c_status c = Downloaded" "volume_members sid vid lib"]
  unfolding check_volume_completion_def Let_def volume_members_def [symmetric] by (simp add: eq_commute)

text \<open>
  _check_volume_completion returns True iff the volume has a monitored chapter and every
  monitored one is downloaded. Then every row of that volume is downloaded, an imported_at that
  was set is kept, and (by the trigger) a volume that was not yet downloaded takes all its
  chapters with it, the unmonitored ones included; every other volume and chapter is left as it
  was. When it returns False the library is unchanged.\<close>

theorem volume_completion_correct:
  "case check_volume_completion now sid vid lib of (done_flag, lib') \<Rightarrow>
     (done_flag \<longleftrightarrow> volume_members sid vid lib \<noteq> []
        \<and> list_all (\<lambda>c. c_status c = Downloaded) (volume_members sid vid lib))
     \<and> (if done_flag then
          list_all2 (\<lambda>v v'. if v_id v = vid then v_status v' = Downloaded
              \<and> v' = v\<lparr>v_status := Downloaded, v_imported_at :=
                   (if v_status v = Downloaded then v_imported_at v
                    else sql_coalesce (v_imported_at v) (Some (sql_now now)))\<rparr> else v' = v)
            (volumes lib) (volumes lib')
          \<and> list_all2 (\<lambda>c c'. if c_volume c = Some vid
               \<and> list_ex (\<lambda>v. v_id v = vid \<and> v_status v \<noteq> Downloaded) (volumes lib)
              then c' = c\<lparr>c_status := Downloaded\<rparr> else c' = c)
            (chapters lib) (chapters lib')
        else lib' = lib)"
proof -
  have v: "list_all2 (\<lambda>v v'. if v_id v = vid then v_status v' = Downloaded
              \<and> v' = v\<lparr>v_status := Downloaded, v_imported_at :=
                   (if v_status v = Downloaded then v_imported_at v
                    else sql_coalesce (v_imported_at v) (Some (sql_now now)))\<rparr> else v' = v)
            (volumes lib) (volumes (set_volume_downloaded now vid lib))"
    unfolding set_volume_downloaded_def Let_def
    by (simp add: list.rel_map list.rel_refl)
  have c: "list_all2 (\<lambda>c c'. if c_volume c = Some vid
               \<and> list_ex (\<lambda>v. v_id v = vid \<and> v_status v \<noteq> Downloaded) (volumes lib)
              then c' = c\<lparr>c_status := Downloaded\<rparr> else c' = c)
            (chapters lib) (chapters (set_volume_downloaded now vid lib))"
    unfolding set_volume_downloaded_def Let_def
    by (simp add: list.rel_map list.rel_refl)
  from v c show ?thesis by (simp add: check_volume_completion_eq)
qed

definition in_scope :: "int \<Rightarrow> int list option \<Rightarrow> chapter_row \<Rightarrow> bool" where
  "in_scope sid volume_ids c \<longleftrightarrow> c_series c = sid
     \<and> (case volume_ids of None \<Rightarrow> True
        | Some ids \<Rightarrow> (case c_volume c of None \<Rightarrow> False | Some v \<Rightarrow> v \<in> set ids))"

definition claimable :: "status \<Rightarrow> bool \<Rightarrow> chapter_row \<Rightarrow> bool" where
  "claimable status respect c \<longleftrightarrow> c_monitored c \<and>
     (status = Grabbed \<longrightarrow> (if respect then c_status c = Wanted else c_status c \<noteq> Downloaded))"

definition cascaded :: "status \<Rightarrow> (string \<times> sql_value) list \<Rightarrow> chapter_row \<Rightarrow> chapter_row" where
  "cascaded status kwargs c = c\<lparr>c_status := status,
     c_cols := (\<lambda>k. if k \<in> set allowed_cols then (case map_of kwargs k of Some x \<Rightarrow> x | None \<Rightarrow> c_cols c k)
                else c_cols c k)\<rparr>"

lemma map_of_allowed:
  "map_of (filter (\<lambda>(k, _). k \<in> A) kvs) k = (if k \<in> A then map_of kvs k else None)"
  by (induction kvs) auto

lemma cascade_chapters_eq:
  "cascade_chapters sid vids st respect kwargs lib =
     (lib\<lparr>chapters := map (\<lambda>c. if in_scope sid vids c \<and> claimable st respect c then cascaded st kwargs c else c) (chapters lib)\<rparr>,
      length (filter (\<lambda>c. in_scope sid vids c \<and> claimable st respect c) (chapters lib)))"
proof (cases "vids = Some []")
  case True
  then have "\<not> in_scope sid vids c" for c by (simp add: in_scope_def split: option.splits)
  with True show ?thesis by (simp add: cascade_chapters_def)
next
  case False
  have set_eq: "set_cols (filter (\<lambda>(k, _). k \<in> set allowed_cols) kwargs) (c\<lparr>c_status := st\<rparr>) = cascaded st kwargs c" for c
  proof -
    have "(\<lambda>k. case map_of (filter (\<lambda>(k, _). k \<in> set allowed_cols) kwargs) k of Some x \<Rightarrow> x | None \<Rightarrow> c_cols (c\<lparr>c_status := st\<rparr>) k)
        = (\<lambda>k. if k \<in> set allowed_cols then (case map_of kwargs k of Some x \<Rightarrow> x | None \<Rightarrow> c_cols c k) else c_cols c k)"
      by (intro ext) (simp add: map_of_allowed split: option.split)
    then show ?thesis unfolding set_cols_def cascaded_def by simp
  qed
  have sel: "(\<lambda>c. c_series c = sid
        \<and> (case vids of None \<Rightarrow> True
           | Some ids \<Rightarrow> (case c_volume c of None \<Rightarrow> False | Some v \<Rightarrow> v \<in> set ids))
        \<and> c_monitored c
        \<and> (if st = Grabbed then if respect then c_status c = Wanted else c_status c \<noteq> Downloaded else True))
      = (\<lambda>c. in_scope sid vids c \<and> claimable st respect c)"
    by (intro ext) (auto simp: in_scope_def claimable_def)
  show ?thesis
    using False unfolding cascade_chapters_def Let_def set_eq sel by (simp add: sql_update_def)
qed


text \<open>
  _cascade_chapters reports exactly the number of chapters it updates: the monitored ones in
  scope, for a grab only those that an automatic grab finds wanted or a manual one finds not yet
  downloaded. Those get the status and only the allowed columns; unmonitored chapters, chapters
  out of scope and, for a grab, downloaded chapters are left exactly as they were. After an
  automatic grab a second one over the same volumes claims nothing.\<close>

theorem cascade_chapters_correct:
  "case cascade_chapters sid vids st respect kwargs lib of (lib', n) \<Rightarrow>
     n = length (filter (\<lambda>c. in_scope sid vids c \<and> claimable st respect c) (chapters lib))
     \<and> lib' = lib\<lparr>chapters := chapters lib'\<rparr>
     \<and> list_all2 (\<lambda>c c'. if in_scope sid vids c \<and> claimable st respect c then c' = cascaded st kwargs c else c' = c)
         (chapters lib) (chapters lib')
     \<and> list_all2 (\<lambda>c c'. c' = c \<or> (c_monitored c \<and> c_series c = sid
            \<and> (st = Grabbed \<longrightarrow> c_status c \<noteq> Downloaded))) (chapters lib) (chapters lib')
     \<and> (st = Grabbed \<and> respect \<longrightarrow> cascade_chapters sid vids Grabbed True kwargs' lib' = (lib', 0))"
proof -
  define f where "f = (\<lambda>c. if in_scope sid vids c \<and> claimable st respect c then cascaded st kwargs c else c)"
  have again: "\<not> (in_scope sid vids (f c) \<and> claimable Grabbed True (f c))" if "st = Grabbed" "respect" for c
    using that by (auto simp: f_def claimable_def cascaded_def)
  have "cascade_chapters sid vids Grabbed True kwargs' (lib\<lparr>chapters := map f (chapters lib)\<rparr>)
      = (lib\<lparr>chapters := map f (chapters lib)\<rparr>, 0)" if "st = Grabbed" "respect"
  proof -
    have "map (\<lambda>c. if in_scope sid vids c \<and> claimable Grabbed True c then cascaded Grabbed kwargs' c else c)
        (map f (chapters lib)) = map f (chapters lib)"
      using again [OF that] by (intro map_idI) auto
    moreover have "filter (\<lambda>c. in_scope sid vids c \<and> claimable Grabbed True c) (map f (chapters lib)) = []"
      using again [OF that] by (auto simp: filter_empty_conv)
    ultimately show ?thesis unfolding cascade_chapters_eq by simp
  qed
  moreover have "list_all2 (\<lambda>c c'. c' = c \<or> (c_monitored c \<and> c_series c = sid
      \<and> (st = Grabbed \<longrightarrow> c_status c \<noteq> Downloaded))) (chapters lib) (map f (chapters lib))"
    unfolding list.rel_map by (rule list.rel_refl_strong) (auto simp: f_def in_scope_def claimable_def)
  moreover have "list_all2 (\<lambda>c c'. if in_scope sid vids c \<and> claimable st respect c
      then c' = cascaded st kwargs c else c' = c) (chapters lib) (map f (chapters lib))"
    unfolding list.rel_map by (rule list.rel_refl_strong) (simp add: f_def)
  moreover have "cascade_chapters sid vids st respect kwargs lib
      = (lib\<lparr>chapters := map f (chapters lib)\<rparr>, length (filter (\<lambda>c. in_scope sid vids c \<and> claimable st respect c) (chapters lib)))"
    by (simp add: cascade_chapters_eq f_def)
  ultimately show ?thesis by simp
qed

text \<open>The last clause of the property has a hypothesis; the grab of the demo library shows it.\<close>

theorem cascade_chapters_correct_witness:
  "snd (cascade_chapters 1 (Some [7, 8]) Grabbed True [] demo_populated) = 2
   \<and> snd (cascade_chapters 1 (Some [7, 8]) Grabbed True []
        (fst (cascade_chapters 1 (Some [7, 8]) Grabbed True [] demo_populated))) = 0"
proof -
  have "snd (cascade_chapters 1 (Some [7, 8]) Grabbed True [] demo_populated) = 2" by code_simp
  moreover have "snd (cascade_chapters 1 (Some [7, 8]) Grabbed True []
      (fst (cascade_chapters 1 (Some [7, 8]) Grabbed True [] demo_populated))) = 0"
    using cascade_chapters_correct [of 1 "Some [7, 8]" Grabbed True demo_populated "[]" "[]"]
    by (simp split: prod.splits)
  ultimately show ?thesis by simp
qed

end
