(* ===== verification/Reconcile_Map.thy ===== *)
theory Reconcile_Map
  imports Volumes "HOL-Library.Multiset"
begin

text \<open>
  \<^verbatim>\<open>src/app/reconcile_map.py\<close>: the operator-triggered reconciliation of chapter links with the
  series' chapter-to-volume map, and the read-only readiness and health reports. A plan row
  keeps the fields of the source's dict, a report the fields of its dict; operator messages
  are the constructors of \<open>next_step\<close> with the values they print. \<open>catalog_state\<close> (what
  \<open>build_catalog_metadata_health\<close> returns under \<open>state\<close>) is an argument.
\<close>

subsection \<open>Looking a chapter up in the map\<close>

definition series_cvm :: "library \<Rightarrow> int \<Rightarrow> (string \<times> json) list" where
  "series_cvm lib sid = (case series_map_column lib sid of JsonParsed (JObj kvs) \<Rightarrow> kvs | _ \<Rightarrow> [])"

fun dedup :: "'a list \<Rightarrow> 'a list \<Rightarrow> 'a list" where
  "dedup seen [] = []"
| "dedup seen (c # cs) = (if c \<in> set seen then dedup seen cs else c # dedup (c # seen) cs)"

definition py_trunc :: "rat \<Rightarrow> int" where
  "py_trunc x = (if x < 0 then - \<lfloor>- x\<rfloor> else \<lfloor>x\<rfloor>)"

definition chapter_key_candidates :: "rat \<Rightarrow> string list" where
  "chapter_key_candidates num =
     (if num = of_int (py_trunc num) then
        (let as_int = py_trunc num
         in dedup [] [format_0d 0 as_int, format_0d 0 as_int @ ''.0'', py_repr_float num,
                      format_0d 2 as_int, format_0d 3 as_int])
      else [py_repr_float num])"

fun lookup_first :: "string list \<Rightarrow> (string \<times> json) list \<Rightarrow> json option" where
  "lookup_first [] cvm = None"
| "lookup_first (k # ks) cvm = (case map_of cvm k of Some j \<Rightarrow> Some j | None \<Rightarrow> lookup_first ks cvm)"

definition lookup_target_vol_num :: "rat \<Rightarrow> (string \<times> json) list \<Rightarrow> rat option" where
  "lookup_target_vol_num num cvm =
     (case lookup_first (chapter_key_candidates num) cvm of None \<Rightarrow> None
      | Some j \<Rightarrow> (case json_float j of Inr x \<Rightarrow> Some x | Inl _ \<Rightarrow> None))"

definition find_mainline_target :: "library \<Rightarrow> int \<Rightarrow> rat \<Rightarrow> int list \<times> int list" where
  "find_mainline_target lib sid num =
     (let rows = filter (\<lambda>v. v_series v = sid \<and> v_num v = Some num) (volumes lib)
      in (map v_id (filter (\<lambda>v. \<not> v_special v) rows), map v_id (filter v_special rows)))"

subsection \<open>The plan\<close>

datatype reason = OkMove | AlreadyCorrect | NoMapEntry | TargetVolumeMissing | TargetAmbiguous | SpecialParent

record plan_row =
  p_chapter :: int
  p_num :: rat
  p_current :: "int option"
  p_current_num :: "rat option"
  p_proposed :: "int option"
  p_proposed_num :: "rat option"
  p_safe :: bool
  p_review :: bool
  p_reason :: reason

definition current_volume :: "library \<Rightarrow> chapter_row \<Rightarrow> rat option \<times> bool" where
  "current_volume lib c =
     (case c_volume c of None \<Rightarrow> (None, False)
      | Some vid \<Rightarrow> (case volume_by_id lib vid of None \<Rightarrow> (None, False) | Some v \<Rightarrow> (v_num v, v_special v)))"

definition chapter_plan_row :: "library \<Rightarrow> int \<Rightarrow> chapter_row \<Rightarrow> (string \<times> json) list \<Rightarrow> plan_row" where
  "chapter_plan_row lib sid c cvm =
     (let (current_num, is_special) = current_volume lib c;
          plan = (\<lambda>proposed proposed_num safe review reason.
            \<lparr>p_chapter = c_id c, p_num = c_num c, p_current = c_volume c, p_current_num = current_num,
             p_proposed = proposed, p_proposed_num = proposed_num, p_safe = safe, p_review = review,
             p_reason = reason\<rparr>)
      in if is_special then plan None (lookup_target_vol_num (c_num c) cvm) False True SpecialParent
         else case lookup_target_vol_num (c_num c) cvm of
           None \<Rightarrow> plan None None False False NoMapEntry
         | Some num \<Rightarrow>
             if current_num = Some num then plan (c_volume c) (Some num) False False AlreadyCorrect
             else (case fst (find_mainline_target lib sid num) of
                 [] \<Rightarrow> plan None (Some num) False True TargetVolumeMissing
               | [vid] \<Rightarrow> plan (Some vid) (Some num) True False OkMove
               | _ # _ # _ \<Rightarrow> plan None (Some num) False True TargetAmbiguous))"

record history_entry =
  h_event :: string
  h_series :: int
  h_title :: string
  h_label :: string
  h_source :: string
  h_data :: "int \<times> int option \<times> rat option \<times> int option \<times> rat option"

definition reconcile_history :: "int \<Rightarrow> string \<Rightarrow> plan_row \<Rightarrow> history_entry" where
  "reconcile_history sid title r =
     \<lparr>h_event = ''reconcile_chapter_vol'', h_series = sid, h_title = title,
      h_label = ''Ch '' @ format_g (p_num r), h_source = ''chapter '' @ format_g (p_num r),
      h_data = (p_chapter r, p_current r, p_current_num r, p_proposed r, p_proposed_num r)\<rparr>"

record reconcile_result =
  rr_series :: int
  rr_rows :: "plan_row list"
  rr_applied :: nat
  rr_skipped :: nat
  rr_count :: "reason \<Rightarrow> nat"

definition count_reason :: "plan_row list \<Rightarrow> reason \<Rightarrow> nat" where
  "count_reason rows r = length (filter (\<lambda>p. p_reason p = r) rows)"

definition empty_result :: "int \<Rightarrow> reconcile_result" where
  "empty_result sid = \<lparr>rr_series = sid, rr_rows = [], rr_applied = 0, rr_skipped = 0, rr_count = (\<lambda>_. 0)\<rparr>"

definition chapter_plan :: "library \<Rightarrow> int \<Rightarrow> plan_row list" where
  "chapter_plan lib sid =
     map (\<lambda>c. chapter_plan_row lib sid c (series_cvm lib sid))
       (sort_key c_num (filter (\<lambda>c. c_series c = sid) (chapters lib)))"

definition apply_move :: "int \<Rightarrow> plan_row \<Rightarrow> library \<Rightarrow> library" where
  "apply_move sid r lib = lib\<lparr>chapters := fst (sql_update
     (\<lambda>c. c_id c = p_chapter r \<and> c_series c = sid) (\<lambda>c. c\<lparr>c_volume := p_proposed r\<rparr>) (chapters lib))\<rparr>"

fun apply_rows ::
  "int \<Rightarrow> string \<Rightarrow> plan_row list \<Rightarrow> library \<times> history_entry list \<times> nat \<Rightarrow> library \<times> history_entry list \<times> nat" where
  "apply_rows sid title [] st = st"
| "apply_rows sid title (r # rs) (lib, history, applied) =
     apply_rows sid title rs (apply_move sid r lib, history @ [reconcile_history sid title r], applied + 1)"

definition reconcile_series_chapter_map ::
  "int \<Rightarrow> bool \<Rightarrow> library \<times> history_entry list \<Rightarrow> reconcile_result \<times> library \<times> history_entry list" where
  "reconcile_series_chapter_map sid dry_run st =
     (let (lib, history) = st
      in case series_by_id lib sid of
        None \<Rightarrow> (empty_result sid, lib, history)
      | Some s \<Rightarrow>
          let rows = chapter_plan lib sid;
              safe_rows = filter p_safe rows;
              result = \<lparr>rr_series = sid, rr_rows = rows, rr_applied = 0,
                rr_skipped = length (filter (\<lambda>r. p_reason r \<notin> {AlreadyCorrect, OkMove}) rows),
                rr_count = count_reason rows\<rparr>
          in if dry_run then (result, lib, history)
             else let (lib', history', n) = apply_rows sid (s_title s) safe_rows (lib, history, 0)
               in (result\<lparr>rr_applied := n\<rparr>, lib', history'))"

subsection \<open>Readiness and health\<close>

datatype blocker = NeedsTotalVolumes | NeedsChapterVolMap | MissingMainlineStubs
  | UnlinkedChapters | SpecialBlocksMainline | ExtraMainlineStubs

datatype next_step = SeriesNotFound int | SetTotalVolumes | RefreshMap | ResolveSpecial
  | MissingStubs nat | ExtraStubs nat "int option" "int list" | LinkChapters nat | MappingComplete

record readiness =
  rd_series :: int
  rd_title :: "string option"
  rd_total_volumes :: "int option"
  rd_total_chapters :: "int option"
  rd_map_size :: nat
  rd_existing :: "rat list"
  rd_expected :: "rat list"
  rd_missing :: "rat list"
  rd_extra :: "rat list"
  rd_downloaded :: nat
  rd_wanted_packs :: nat
  rd_specials :: nat
  rd_unlinked :: nat
  rd_blockers :: "blocker list"
  rd_ready :: bool
  rd_step :: next_step

definition recommend_next_step :: "readiness \<Rightarrow> next_step" where
  "recommend_next_step r =
     (if NeedsTotalVolumes \<in> set (rd_blockers r) then SetTotalVolumes
      else if NeedsChapterVolMap \<in> set (rd_blockers r) then RefreshMap
      else if SpecialBlocksMainline \<in> set (rd_blockers r) then ResolveSpecial
      else if MissingMainlineStubs \<in> set (rd_blockers r) then MissingStubs (length (rd_missing r))
      else if ExtraMainlineStubs \<in> set (rd_blockers r) then
        ExtraStubs (length (rd_extra r)) (rd_total_volumes r) (map py_trunc (rd_extra r))
      else if UnlinkedChapters \<in> set (rd_blockers r) then LinkChapters (rd_unlinked r)
      else MappingComplete)"

definition metadata_readiness_report :: "int \<Rightarrow> library \<Rightarrow> readiness" where
  "metadata_readiness_report sid lib =
     (case series_by_id lib sid of
        None \<Rightarrow> \<lparr>rd_series = sid, rd_title = None, rd_total_volumes = None, rd_total_chapters = None,
          rd_map_size = 0, rd_existing = [], rd_expected = [], rd_missing = [], rd_extra = [],
          rd_downloaded = 0, rd_wanted_packs = 0, rd_specials = 0, rd_unlinked = 0, rd_blockers = [],
          rd_ready = False, rd_step = SeriesNotFound sid\<rparr>
      | Some s \<Rightarrow>
          let cvm = series_cvm lib sid;
              vols = filter (\<lambda>v. v_series v = sid) (volumes lib);
              mainline = filter (\<lambda>v. \<not> v_special v) vols;
              numbered = filter (\<lambda>v. v_num v \<noteq> None) mainline;
              existing = sort (remdups (map (\<lambda>v. the (v_num v)) numbered));
              special_nums = map (\<lambda>v. the (v_num v)) (filter (\<lambda>v. v_special v \<and> v_num v \<noteq> None) vols);
              has_total = (case s_total_volumes s of None \<Rightarrow> False | Some n \<Rightarrow> n > 0);
              top = (case s_total_volumes s of None \<Rightarrow> 0 | Some n \<Rightarrow> n);
              expected = (if has_total then map (\<lambda>i. round_double (of_int i)) [1..top] else []);
              missing = filter (\<lambda>v. v \<notin> set existing) expected;
              extra = (if has_total then filter (\<lambda>v. v > round_double (of_int top)) existing else []);
              unlinked = length (filter (\<lambda>c. c_series c = sid \<and> c_volume c = None) (chapters lib));
              blockers =
                (if has_total then
                   (if filter (\<lambda>v. v \<in> set special_nums) missing \<noteq> [] then [SpecialBlocksMainline] else [])
                   @ (if missing \<noteq> [] then [MissingMainlineStubs] else [])
                   @ (if extra \<noteq> [] then [ExtraMainlineStubs] else [])
                 else [NeedsTotalVolumes])
                @ (if cvm = [] then [NeedsChapterVolMap] else [])
                @ (if unlinked > 0 then [UnlinkedChapters] else []);
              report = \<lparr>rd_series = sid, rd_title = Some (s_title s), rd_total_volumes = s_total_volumes s,
                rd_total_chapters = s_total_chapters s, rd_map_size = length cvm, rd_existing = existing,
                rd_expected = expected, rd_missing = missing, rd_extra = extra,
                rd_downloaded = length (filter (\<lambda>v. v_status v = Downloaded) numbered),
                rd_wanted_packs = length (filter (\<lambda>v. v_num v = None) mainline),
                rd_specials = length (filter v_special vols), rd_unlinked = unlinked,
                rd_blockers = blockers, rd_ready = (blockers = []), rd_step = MappingComplete\<rparr>
          in report\<lparr>rd_step := recommend_next_step report\<rparr>)"

record reconcile_counts =
  rc_count :: "reason \<Rightarrow> nat"
  rc_total :: nat

definition reconcile_summary :: "int \<Rightarrow> library \<times> history_entry list \<Rightarrow> reconcile_counts" where
  "reconcile_summary sid st =
     (let (plan, _) = reconcile_series_chapter_map sid True st
      in \<lparr>rc_count = rr_count plan, rc_total = length (rr_rows plan)\<rparr>)"

datatype health = Unknown | MissingMetadata | NoMapping | NeedsReview | BlockedByMissingVolumes
  | DriftDetected | Healthy

definition health_state :: "readiness \<Rightarrow> reconcile_counts \<Rightarrow> health" where
  "health_state r rec =
     (let blocked = (\<lambda>b. b \<in> set (rd_blockers r)); n = rc_count rec
      in if rd_title r = None then Unknown
         else if blocked NeedsTotalVolumes then MissingMetadata
         else if blocked NeedsChapterVolMap then NoMapping
         else if n SpecialParent + n TargetAmbiguous > 0 then NeedsReview
         else if n TargetVolumeMissing > 0 then BlockedByMissingVolumes
         else if n OkMove > 0 then DriftDetected
         else if blocked MissingMainlineStubs \<or> blocked SpecialBlocksMainline then BlockedByMissingVolumes
         else if blocked UnlinkedChapters then NeedsReview
         else if blocked ExtraMainlineStubs then NeedsReview
         else Healthy)"

definition build_metadata_health ::
  "string \<Rightarrow> int \<Rightarrow> library \<times> history_entry list
     \<Rightarrow> readiness \<times> reconcile_counts \<times> health \<times> (health + string)" where
  "build_metadata_health catalog_state sid st =
     (let report = metadata_readiness_report sid (fst st);
          summary = reconcile_summary sid st;
          state = health_state report summary
      in (report, summary, state, if state \<noteq> Healthy then Inl state else Inr catalog_state))"

subsection \<open>The classifier\<close>

lemma plan_row_fields [simp]:
  "p_chapter (chapter_plan_row lib sid c cvm) = c_id c"
  "p_num (chapter_plan_row lib sid c cvm) = c_num c"
  "p_current (chapter_plan_row lib sid c cvm) = c_volume c"
  by (auto simp: chapter_plan_row_def Let_def split: prod.splits option.splits list.splits)

lemma plan_safe_iff [simp]:
  "p_safe (chapter_plan_row lib sid c cvm) \<longleftrightarrow> p_reason (chapter_plan_row lib sid c cvm) = OkMove"
  by (auto simp: chapter_plan_row_def Let_def split: prod.splits option.splits list.splits)

lemma plan_reason:
  "p_reason (chapter_plan_row lib sid c cvm) =
     (if snd (current_volume lib c) then SpecialParent
      else case lookup_target_vol_num (c_num c) cvm of None \<Rightarrow> NoMapEntry
        | Some num \<Rightarrow> if fst (current_volume lib c) = Some num then AlreadyCorrect
            else (case fst (find_mainline_target lib sid num) of
                [] \<Rightarrow> TargetVolumeMissing | [vid] \<Rightarrow> OkMove | _ # _ # _ \<Rightarrow> TargetAmbiguous))"
  by (auto simp: chapter_plan_row_def Let_def split: prod.splits option.splits list.splits)

lemma plan_ok_move:
  assumes "p_reason (chapter_plan_row lib sid c cvm) = OkMove"
  obtains num vid where "lookup_target_vol_num (c_num c) cvm = Some num"
    "fst (find_mainline_target lib sid num) = [vid]"
    "p_proposed (chapter_plan_row lib sid c cvm) = Some vid"
    "fst (current_volume lib c) \<noteq> Some num" "\<not> snd (current_volume lib c)"
  using assms that by (auto simp: chapter_plan_row_def Let_def split: prod.splits option.splits list.splits if_splits)

lemma mainline_target_member:
  assumes "vid \<in> set (fst (find_mainline_target lib sid num))"
  obtains v where "v \<in> set (volumes lib)" "v_id v = vid" "v_series v = sid" "v_num v = Some num" "\<not> v_special v"
  using assms that by (auto simp: find_mainline_target_def Let_def)

lemma volume_by_id_member:
  "distinct (map v_id (volumes lib)) \<Longrightarrow> v \<in> set (volumes lib) \<Longrightarrow> volume_by_id lib (v_id v) = Some v"
  unfolding volume_by_id_def by (metis find_key_Some)

text \<open>Moving a chapter where its plan says makes it correct.\<close>

lemma moved_is_correct:
  assumes "distinct (map v_id (volumes lib))" "volumes lib' = volumes lib"
    "p_reason (chapter_plan_row lib sid c cvm) = OkMove"
  shows "p_reason (chapter_plan_row lib' sid (c\<lparr>c_volume := p_proposed (chapter_plan_row lib sid c cvm)\<rparr>) cvm)
    = AlreadyCorrect"
proof -
  from assms(3) obtain num vid where r: "lookup_target_vol_num (c_num c) cvm = Some num"
    "fst (find_mainline_target lib sid num) = [vid]"
    "p_proposed (chapter_plan_row lib sid c cvm) = Some vid" by (rule plan_ok_move)
  have "vid \<in> set (fst (find_mainline_target lib sid num))" using r(2) by simp
  then obtain v where v: "v \<in> set (volumes lib)" "v_id v = vid" "v_num v = Some num" "\<not> v_special v"
    by (rule mainline_target_member)
  have "volume_by_id lib' vid = volume_by_id lib vid" by (simp add: volume_by_id_def assms(2))
  with volume_by_id_member [OF assms(1) v(1)] v(2) have "volume_by_id lib' vid = Some v" by simp
  with r v show ?thesis unfolding plan_reason by (simp add: current_volume_def)
qed

lemma plan_row_cong:
  assumes "volumes lib' = volumes lib"
  shows "chapter_plan_row lib' = chapter_plan_row lib"
proof -
  have v: "volume_by_id lib' = volume_by_id lib" by (simp add: volume_by_id_def fun_eq_iff assms)
  have cv: "current_volume lib' = current_volume lib"
    by (intro ext) (unfold current_volume_def v, rule refl)
  have ft: "find_mainline_target lib' = find_mainline_target lib"
    by (simp add: find_mainline_target_def fun_eq_iff assms)
  show ?thesis by (intro ext) (unfold chapter_plan_row_def cv ft, rule refl)
qed

subsection \<open>Applying the plan\<close>

definition planned_volume :: "int \<Rightarrow> plan_row list \<Rightarrow> chapter_row \<Rightarrow> chapter_row" where
  "planned_volume sid rs c =
     (if c_series c = sid then
        (case find (\<lambda>r. p_chapter r = c_id c) rs of Some r \<Rightarrow> c\<lparr>c_volume := p_proposed r\<rparr> | None \<Rightarrow> c)
      else c)"

lemma apply_rows_spec:
  "distinct (map p_chapter rs) \<Longrightarrow>
   apply_rows sid title rs (lib, h, n) =
     (lib\<lparr>chapters := map (planned_volume sid rs) (chapters lib)\<rparr>,
      h @ map (reconcile_history sid title) rs, n + length rs)"
proof (induction rs arbitrary: lib h n)
  case Nil
  then show ?case by (simp add: planned_volume_def map_idI)
next
  case (Cons r rs)
  have none: "find (\<lambda>q. p_chapter q = p_chapter r) rs = None"
    using Cons.prems by (auto simp: find_None_iff image_iff)
  have eq: "planned_volume sid rs (if c_id c = p_chapter r \<and> c_series c = sid then c\<lparr>c_volume := p_proposed r\<rparr> else c)
      = planned_volume sid (r # rs) c" for c
    using none by (auto simp: planned_volume_def)
  have "map (planned_volume sid rs) (chapters (apply_move sid r lib))
      = map (planned_volume sid (r # rs)) (chapters lib)"
    by (simp add: apply_move_def eq del: if_image_distrib)
  with Cons show ?case by (simp add: apply_move_def)
qed

definition reconciled :: "library \<Rightarrow> int \<Rightarrow> chapter_row \<Rightarrow> chapter_row" where
  "reconciled lib sid c =
     (let plan = chapter_plan_row lib sid c (series_cvm lib sid)
      in if c_series c = sid \<and> p_reason plan = OkMove then c\<lparr>c_volume := p_proposed plan\<rparr> else c)"

lemma chapter_plan_keys:
  assumes "distinct (map c_id (chapters lib))"
  shows "distinct (map p_chapter (filter p_safe (chapter_plan lib sid)))"
proof -
  have "distinct (map c_id (filter (\<lambda>c. c_series c = sid) (chapters lib)))"
    using assms by (rule distinct_map_filter)
  then have "distinct (map c_id (sort_key c_num (filter (\<lambda>c. c_series c = sid) (chapters lib))))"
    by (simp add: distinct_map)
  then have "distinct (map p_chapter (chapter_plan lib sid))"
    by (simp add: chapter_plan_def comp_def)
  then show ?thesis by (rule distinct_map_filter)
qed

lemma planned_volume_plan:
  assumes "distinct (map c_id (chapters lib))" "c \<in> set (chapters lib)"
  shows "planned_volume sid (filter p_safe (chapter_plan lib sid)) c = reconciled lib sid c"
proof (cases "c_series c = sid")
  case False
  then show ?thesis by (simp add: planned_volume_def reconciled_def)
next
  case True
  let ?plan = "chapter_plan_row lib sid c (series_cvm lib sid)"
  let ?rs = "filter p_safe (chapter_plan lib sid)"
  have mem: "?plan \<in> set (chapter_plan lib sid)" using assms(2) True by (simp add: chapter_plan_def)
  show ?thesis
  proof (cases "p_reason ?plan = OkMove")
    case ok: True
    with mem have "?plan \<in> set ?rs" by simp
    then have "find (\<lambda>r. p_chapter r = p_chapter ?plan) ?rs = Some ?plan"
      using chapter_plan_keys [OF assms(1)] find_key_Some by metis
    with True ok show ?thesis by (simp add: planned_volume_def reconciled_def)
  next
    case notok: False
    have "p_chapter r \<noteq> c_id c" if r: "r \<in> set ?rs" for r
    proof
      assume eq: "p_chapter r = c_id c"
      from r obtain d where d: "d \<in> set (chapters lib)" "r = chapter_plan_row lib sid d (series_cvm lib sid)" "p_safe r"
        by (auto simp: chapter_plan_def)
      with eq have "d = c" using distinct_key_unique [OF assms(1) _ assms(2), of d] by simp
      with d notok show False by simp
    qed
    then have "find (\<lambda>r. p_chapter r = c_id c) ?rs = None" by (auto simp: find_None_iff)
    with True notok show ?thesis by (simp add: planned_volume_def reconciled_def)
  qed
qed

lemma reconcile_apply_eq:
  assumes "distinct (map c_id (chapters lib))" "series_by_id lib sid = Some s"
  shows "reconcile_series_chapter_map sid False (lib, h) =
    ((fst (reconcile_series_chapter_map sid True (lib, h)))\<lparr>rr_applied := count_reason (chapter_plan lib sid) OkMove\<rparr>,
     lib\<lparr>chapters := map (reconciled lib sid) (chapters lib)\<rparr>,
     h @ map (reconcile_history sid (s_title s)) (filter p_safe (chapter_plan lib sid)))"
proof -
  have "map (planned_volume sid (filter p_safe (chapter_plan lib sid))) (chapters lib)
      = map (reconciled lib sid) (chapters lib)"
    using planned_volume_plan [OF assms(1)] by (intro map_cong refl)
  moreover have "length (filter p_safe (chapter_plan lib sid)) = count_reason (chapter_plan lib sid) OkMove"
    unfolding count_reason_def by (intro arg_cong [of _ _ length] filter_cong refl) (auto simp: chapter_plan_def)
  ultimately show ?thesis
    by (simp add: reconcile_series_chapter_map_def assms(2) Let_def
        apply_rows_spec [OF chapter_plan_keys [OF assms(1)]])
qed


subsection \<open>Properties\<close>

lemma count_partition:
  "length rows = count_reason rows OkMove + count_reason rows AlreadyCorrect + count_reason rows NoMapEntry
     + count_reason rows TargetVolumeMissing + count_reason rows TargetAmbiguous + count_reason rows SpecialParent"
proof (induction rows)
  case Nil
  then show ?case by (simp add: count_reason_def)
next
  case (Cons r rows)
  then show ?case by (cases "p_reason r") (simp_all add: count_reason_def)
qed

lemma count_skipped:
  "length (filter (\<lambda>r. p_reason r \<notin> {AlreadyCorrect, OkMove}) rows)
     = count_reason rows NoMapEntry + count_reason rows TargetVolumeMissing
       + count_reason rows TargetAmbiguous + count_reason rows SpecialParent"
proof (induction rows)
  case Nil
  then show ?case by (simp add: count_reason_def)
next
  case (Cons r rows)
  then show ?case by (cases "p_reason r") (simp_all add: count_reason_def)
qed

text \<open>
  A dry run of the reconciler changes neither library nor history and applies nothing; the
  plan has one row per chapter of the series, the six reason counts partition its rows, and
  skipped counts every row that is neither correct nor movable.\<close>

theorem reconcile_dry_run_read_only:
  "case reconcile_series_chapter_map sid True (lib, h) of (res, st') \<Rightarrow>
     st' = (lib, h) \<and> rr_applied res = 0
     \<and> length (rr_rows res) = rr_count res OkMove + rr_count res AlreadyCorrect + rr_count res NoMapEntry
         + rr_count res TargetVolumeMissing + rr_count res TargetAmbiguous + rr_count res SpecialParent
     \<and> rr_skipped res = rr_count res NoMapEntry + rr_count res TargetVolumeMissing
         + rr_count res TargetAmbiguous + rr_count res SpecialParent
     \<and> mset (map p_chapter (rr_rows res)) =
         (if series_by_id lib sid = None then {#}
          else image_mset c_id (mset (filter (\<lambda>c. c_series c = sid) (chapters lib))))"
proof (cases "series_by_id lib sid")
  case None
  then show ?thesis by (simp add: reconcile_series_chapter_map_def empty_result_def)
next
  case (Some s)
  have "map p_chapter (chapter_plan lib sid) = map c_id (sort_key c_num (filter (\<lambda>c. c_series c = sid) (chapters lib)))"
    by (simp add: chapter_plan_def)
  then have "mset (map p_chapter (chapter_plan lib sid))
      = mset (map c_id (sort_key c_num (filter (\<lambda>c. c_series c = sid) (chapters lib))))"
    by (rule arg_cong)
  then have m: "mset (map p_chapter (chapter_plan lib sid))
      = image_mset c_id (mset (filter (\<lambda>c. c_series c = sid) (chapters lib)))"
    unfolding mset_map [of c_id] by simp
  from Some count_partition [of "chapter_plan lib sid"] count_skipped [of "chapter_plan lib sid"] m
  show ?thesis by (simp add: reconcile_series_chapter_map_def Let_def)
qed

text \<open>
  C6: Applying the reconciler moves exactly the chapters whose plan row says ok_move, each to the
  only mainline volume of the series with the number the map gives, records one history entry
  per move, and touches no other column, chapter, volume or series; a chapter on a special
  volume stays where it is.\<close>

theorem reconcile_apply_exact:
  assumes "distinct (map c_id (chapters lib))" "series_by_id lib sid = Some s"
    "reconcile_series_chapter_map sid False (lib, h) = (res, lib', h')"
  shows "lib' = lib\<lparr>chapters := map (reconciled lib sid) (chapters lib)\<rparr>
      \<and> rr_applied res = rr_count res OkMove \<and> length h' = length h + rr_applied res
      \<and> list_all (\<lambda>c. reconciled lib sid c \<noteq> c \<longrightarrow>
            c_series c = sid \<and> \<not> snd (current_volume lib c)
            \<and> (\<exists>num vid. lookup_target_vol_num (c_num c) (series_cvm lib sid) = Some num
                 \<and> fst (find_mainline_target lib sid num) = [vid]
                 \<and> reconciled lib sid c = c\<lparr>c_volume := Some vid\<rparr>)) (chapters lib)"
proof -
  from reconcile_apply_eq [OF assms(1,2), of h] assms(3)
  have l: "lib' = lib\<lparr>chapters := map (reconciled lib sid) (chapters lib)\<rparr>"
    and r: "res = (fst (reconcile_series_chapter_map sid True (lib, h)))\<lparr>rr_applied := count_reason (chapter_plan lib sid) OkMove\<rparr>"
    and hh: "h' = h @ map (reconcile_history sid (s_title s)) (filter p_safe (chapter_plan lib sid))"
    by simp_all
  have "length (filter p_safe (chapter_plan lib sid)) = count_reason (chapter_plan lib sid) OkMove"
    unfolding count_reason_def by (intro arg_cong [of _ _ length] filter_cong refl) (auto simp: chapter_plan_def)
  then have n: "length h' = length h + rr_applied res" "rr_applied res = rr_count res OkMove"
    using assms(2) by (simp_all add: hh r reconcile_series_chapter_map_def Let_def)
  have "c_series c = sid \<and> \<not> snd (current_volume lib c)
      \<and> (\<exists>num vid. lookup_target_vol_num (c_num c) (series_cvm lib sid) = Some num
           \<and> fst (find_mainline_target lib sid num) = [vid]
           \<and> reconciled lib sid c = c\<lparr>c_volume := Some vid\<rparr>)" if moved: "reconciled lib sid c \<noteq> c" for c
  proof -
    have ok: "p_reason (chapter_plan_row lib sid c (series_cvm lib sid)) = OkMove" "c_series c = sid"
      using moved by (auto simp: reconciled_def Let_def split: if_splits)
    then show ?thesis by (auto simp: reconciled_def elim!: plan_ok_move)
  qed
  with l n show ?thesis by (simp add: list_all_iff)
qed

definition demo_drift :: library where
  "demo_drift = \<lparr>
     series = [\<lparr>s_id = 1, s_title = ''Demo'', s_monitor_mode = None, s_total_volumes = Some 2,
       s_total_chapters = None,
       s_chapter_map = JsonParsed (JObj [(''01'', JInt 1), (''2.5'', JStr ''2''), (''3'', JInt 9), (''4'', JInt 1)])\<rparr>],
     volumes = [\<lparr>v_id = 7, v_series = 1, v_num = Some 1, v_status = Wanted, v_monitored = True,
         v_special = False, v_imported_at = None\<rparr>,
       \<lparr>v_id = 8, v_series = 1, v_num = Some 2, v_status = Wanted, v_monitored = True,
         v_special = False, v_imported_at = None\<rparr>,
       \<lparr>v_id = 9, v_series = 1, v_num = Some 2, v_status = Wanted, v_monitored = True,
         v_special = True, v_imported_at = None\<rparr>],
     chapters = map (\<lambda>(i, v, n). \<lparr>c_id = i, c_series = 1, c_volume = v, c_num = n, c_status = Downloaded,
         c_monitored = True, c_range_end = None, c_cols = (\<lambda>_. SqlNull)\<rparr>)
       [(1, Some 8, 1), (2, Some 7, 5/2), (3, None, 3), (4, Some 9, 4)],
     next_volume_id = 10, next_chapter_id = 5\<rparr>"

lemma demo_drift_wf:
  "distinct (map c_id (chapters demo_drift))" "distinct (map v_id (volumes demo_drift))"
  "series_by_id demo_drift 1 = Some (hd (series demo_drift))"
  by (simp_all add: demo_drift_def series_by_id_def)

definition demo_reconciled :: "reconcile_result \<times> library \<times> history_entry list" where
  "demo_reconciled = reconcile_series_chapter_map 1 False (demo_drift, [])"

theorem reconcile_apply_exact_witness:
  "map c_volume (chapters (fst (snd demo_reconciled))) = [Some 7, Some 8, None, Some 9]
   \<and> length (snd (snd demo_reconciled)) = 2"
proof -
  have "reconcile_series_chapter_map 1 False (demo_drift, [])
      = (fst demo_reconciled, fst (snd demo_reconciled), snd (snd demo_reconciled))"
    by (simp add: demo_reconciled_def)
  note r = reconcile_apply_exact [OF demo_drift_wf(1,3) this]
  have "map c_volume (chapters (fst (snd demo_reconciled))) = [Some 7, Some 8, None, Some 9]"
    "rr_count (fst demo_reconciled) OkMove = 2"
    by code_simp+
  with r show ?thesis by simp
qed


lemma reconciled_frame [simp]:
  "c_id (reconciled lib sid c) = c_id c" "c_series (reconciled lib sid c) = c_series c"
  "c_num (reconciled lib sid c) = c_num c"
  by (simp_all add: reconciled_def Let_def)

lemma replan_reason:
  assumes "distinct (map v_id (volumes lib))" "volumes lib' = volumes lib" "c_series c = sid"
  shows "p_reason (chapter_plan_row lib' sid (reconciled lib sid c) (series_cvm lib sid))
    = (let r = p_reason (chapter_plan_row lib sid c (series_cvm lib sid))
       in if r = OkMove then AlreadyCorrect else r)"
proof (cases "p_reason (chapter_plan_row lib sid c (series_cvm lib sid)) = OkMove")
  case True
  with moved_is_correct [OF assms(1,2) True] assms(3) show ?thesis by (simp add: reconciled_def)
next
  case False
  then show ?thesis by (simp add: reconciled_def plan_row_cong [OF assms(2)])
qed

lemma count_reason_map:
  "count_reason (map (\<lambda>c. chapter_plan_row lib sid c m) (sort_key k cs)) r
    = length (filter (\<lambda>c. p_reason (chapter_plan_row lib sid c m) = r) cs)"
proof -
  have "count_reason (map (\<lambda>c. chapter_plan_row lib sid c m) (sort_key k cs)) r
      = length (filter (\<lambda>c. p_reason (chapter_plan_row lib sid c m) = r) (sort_key k cs))"
    by (simp add: count_reason_def filter_map comp_def)
  also have "\<dots> = size (mset (filter (\<lambda>c. p_reason (chapter_plan_row lib sid c m) = r) (sort_key k cs)))"
    by (rule size_mset [symmetric])
  also have "\<dots> = size (mset (filter (\<lambda>c. p_reason (chapter_plan_row lib sid c m) = r) cs))"
    unfolding mset_filter mset_sort ..
  also have "\<dots> = length (filter (\<lambda>c. p_reason (chapter_plan_row lib sid c m) = r) cs)"
    by (rule size_mset)
  finally show ?thesis .
qed

lemma length_filter_split:
  "length (filter (\<lambda>x. P x \<or> Q x) xs) = length (filter P xs) + length (filter Q xs)"
  if "\<And>x. \<not> (P x \<and> Q x)"
  using that by (induction xs) auto

text \<open>
  Reconciliation converges in one step: planning again after an apply finds no move left, the
  moved chapters now count as already correct, and the counts of all other reasons are as before.\<close>

theorem reconcile_converges:
  assumes "distinct (map c_id (chapters lib))" "distinct (map v_id (volumes lib))"
    "series_by_id lib sid = Some s"
    "reconcile_series_chapter_map sid False (lib, h) = (res, lib', h')"
  shows "rr_count (fst (reconcile_series_chapter_map sid True (lib', h'))) =
    (rr_count res)(OkMove := 0, AlreadyCorrect := rr_count res AlreadyCorrect + rr_count res OkMove)"
proof
  fix r
  let ?m = "series_cvm lib sid"
  let ?cs = "filter (\<lambda>c. c_series c = sid) (chapters lib)"
  let ?old = "\<lambda>c. p_reason (chapter_plan_row lib sid c ?m)"
  from reconcile_apply_eq [OF assms(1,3), of h] assms(4)
  have l: "lib' = lib\<lparr>chapters := map (reconciled lib sid) (chapters lib)\<rparr>"
    and cnt: "rr_count res = count_reason (chapter_plan lib sid)"
    using assms(3) by (auto simp: reconcile_series_chapter_map_def Let_def)
  have vs: "volumes lib' = volumes lib" by (simp add: l)
  have m': "series_cvm lib' sid = ?m" by (simp add: l series_cvm_def series_map_column_def series_by_id_def)
  have old: "rr_count res r = length (filter (\<lambda>c. ?old c = r) ?cs)" for r
    unfolding cnt chapter_plan_def by (rule count_reason_map)
  have new_cs: "filter (\<lambda>c. c_series c = sid) (chapters lib') = map (reconciled lib sid) ?cs"
    by (simp add: l filter_map comp_def)
  have "series_by_id lib' sid = Some s" using assms(3) by (simp add: l series_by_id_def)
  then have "rr_count (fst (reconcile_series_chapter_map sid True (lib', h'))) r = count_reason (chapter_plan lib' sid) r"
    by (simp add: reconcile_series_chapter_map_def Let_def)
  also have "\<dots> = length (filter (\<lambda>c. p_reason (chapter_plan_row lib' sid c ?m) = r) (map (reconciled lib sid) ?cs))"
    unfolding chapter_plan_def m' new_cs by (rule count_reason_map)
  also have "\<dots> = length (filter (\<lambda>c. p_reason (chapter_plan_row lib' sid (reconciled lib sid c) ?m) = r) ?cs)"
    by (simp add: filter_map comp_def)
  also have "\<dots> = length (filter (\<lambda>c. (if ?old c = OkMove then AlreadyCorrect else ?old c) = r) ?cs)"
  proof (intro arg_cong [of _ _ length] filter_cong refl)
    fix c assume "c \<in> set ?cs"
    then have "c_series c = sid" by simp
    from replan_reason [OF assms(2) vs this]
    show "(p_reason (chapter_plan_row lib' sid (reconciled lib sid c) ?m) = r)
        = ((if ?old c = OkMove then AlreadyCorrect else ?old c) = r)" by (simp add: Let_def)
  qed
  finally have *: "rr_count (fst (reconcile_series_chapter_map sid True (lib', h'))) r
      = length (filter (\<lambda>c. (if ?old c = OkMove then AlreadyCorrect else ?old c) = r) ?cs)" .
  have "length (filter (\<lambda>c. (if ?old c = OkMove then AlreadyCorrect else ?old c) = r) ?cs)
      = ((rr_count res)(OkMove := 0, AlreadyCorrect := rr_count res AlreadyCorrect + rr_count res OkMove)) r"
  proof (cases "r = AlreadyCorrect")
    case True
    then have "(\<lambda>c. (if ?old c = OkMove then AlreadyCorrect else ?old c) = r)
        = (\<lambda>c. ?old c = AlreadyCorrect \<or> ?old c = OkMove)" by auto
    with True show ?thesis by (simp only: length_filter_split old fun_upd_same) (subst length_filter_split, auto)
  next
    case False
    then have "(\<lambda>c. (if ?old c = OkMove then AlreadyCorrect else ?old c) = r)
        = (\<lambda>c. ?old c = r \<and> r \<noteq> OkMove)" by auto
    with False show ?thesis by (simp add: old)
  qed
  with * show "rr_count (fst (reconcile_series_chapter_map sid True (lib', h'))) r
      = ((rr_count res)(OkMove := 0, AlreadyCorrect := rr_count res AlreadyCorrect + rr_count res OkMove)) r" by simp
qed

theorem reconcile_converges_witness:
  "rr_count (fst (reconcile_series_chapter_map 1 True (snd demo_reconciled))) OkMove = 0"
proof -
  have "reconcile_series_chapter_map 1 False (demo_drift, [])
      = (fst demo_reconciled, fst (snd demo_reconciled), snd (snd demo_reconciled))"
    by (simp add: demo_reconciled_def)
  from reconcile_converges [OF demo_drift_wf(1,2,3) this] show ?thesis by simp
qed

lemma readiness_some:
  assumes "series_by_id lib sid = Some s"
  shows "rd_title (metadata_readiness_report sid lib) = Some (s_title s)"
    "rd_unlinked (metadata_readiness_report sid lib)
       = length (filter (\<lambda>c. c_series c = sid \<and> c_volume c = None) (chapters lib))"
    "UnlinkedChapters \<in> set (rd_blockers (metadata_readiness_report sid lib))
       \<longleftrightarrow> rd_unlinked (metadata_readiness_report sid lib) > 0"
    "NeedsChapterVolMap \<in> set (rd_blockers (metadata_readiness_report sid lib)) \<longleftrightarrow> series_cvm lib sid = []"
    "rd_ready (metadata_readiness_report sid lib) \<longleftrightarrow> rd_blockers (metadata_readiness_report sid lib) = []"
  using assms by (auto simp: metadata_readiness_report_def Let_def)

lemma readiness_none:
  "series_by_id lib sid = None \<Longrightarrow> rd_title (metadata_readiness_report sid lib) = None
     \<and> \<not> rd_ready (metadata_readiness_report sid lib)"
  by (simp add: metadata_readiness_report_def)

text \<open>No health state but healthy is reached when every blocker is absent, and conversely.\<close>

lemma health_state_Healthy_iff:
  "health_state r rec = Healthy \<longleftrightarrow> rd_title r \<noteq> None \<and> rd_blockers r = []
     \<and> rc_count rec SpecialParent = 0 \<and> rc_count rec TargetAmbiguous = 0
     \<and> rc_count rec TargetVolumeMissing = 0 \<and> rc_count rec OkMove = 0"
proof -
  have "xs = [] \<longleftrightarrow> NeedsTotalVolumes \<notin> set xs \<and> NeedsChapterVolMap \<notin> set xs
      \<and> MissingMainlineStubs \<notin> set xs \<and> UnlinkedChapters \<notin> set xs
      \<and> SpecialBlocksMainline \<notin> set xs \<and> ExtraMainlineStubs \<notin> set xs" for xs
  proof (cases xs)
    case (Cons b bs)
    then show ?thesis by (cases b) auto
  qed simp
  from this [of "rd_blockers r"] show ?thesis by (auto simp: health_state_def Let_def)
qed

text \<open>
  The health panel says healthy exactly when the series exists, the readiness report is
  ready (no blocker), and no chapter would move, is blocked or needs review; then every chapter
  of the series is linked, and is where the map wants it or not in the map at all.\<close>

theorem healthy_iff_nothing_to_do:
  "health_state (metadata_readiness_report sid lib) (reconcile_summary sid (lib, h)) = Healthy
    \<longleftrightarrow> series_by_id lib sid \<noteq> None
      \<and> rd_ready (metadata_readiness_report sid lib)
      \<and> filter (\<lambda>c. c_series c = sid \<and> (c_volume c = None \<or>
            p_reason (chapter_plan_row lib sid c (series_cvm lib sid))
              \<in> {OkMove, TargetVolumeMissing, TargetAmbiguous, SpecialParent})) (chapters lib) = []"
proof (cases "series_by_id lib sid")
  case None
  then show ?thesis by (simp add: health_state_Healthy_iff readiness_none)
next
  case (Some s)
  let ?reason = "\<lambda>c. p_reason (chapter_plan_row lib sid c (series_cvm lib sid))"
  note f = readiness_some [OF Some]
  have cnt: "rc_count (reconcile_summary sid (lib, h)) r
      = length (filter (\<lambda>c. ?reason c = r) (filter (\<lambda>c. c_series c = sid) (chapters lib)))" for r
  proof -
    have "rc_count (reconcile_summary sid (lib, h)) r = count_reason (chapter_plan lib sid) r"
      using Some by (simp add: reconcile_summary_def reconcile_series_chapter_map_def Let_def)
    then show ?thesis unfolding chapter_plan_def count_reason_map .
  qed
  have zero: "rc_count (reconcile_summary sid (lib, h)) r = 0
      \<longleftrightarrow> (\<forall>c \<in> set (chapters lib). c_series c = sid \<longrightarrow> ?reason c \<noteq> r)" for r
    unfolding cnt by (auto simp: filter_empty_conv)
  have linked: "\<forall>c \<in> set (chapters lib). c_series c = sid \<longrightarrow> c_volume c \<noteq> None"
    if "rd_blockers (metadata_readiness_report sid lib) = []"
    using that f(2,3) by (auto simp: filter_empty_conv)
  show ?thesis
    unfolding health_state_Healthy_iff zero f(5) filter_empty_conv
    using Some f(1) linked by fastforce
qed


lemma numbered_volumes_set:
  "x \<in> fst ` set (numbered_volumes lib sid)
    \<longleftrightarrow> (\<exists>v \<in> set (volumes lib). v_series v = sid \<and> v_num v = Some x)"
  by (force simp: numbered_volumes_def List.map_filter_def image_iff split: if_splits)

definition special_numbered :: "library \<Rightarrow> int \<Rightarrow> rat \<Rightarrow> bool" where
  "special_numbered lib sid x \<longleftrightarrow> list_ex (\<lambda>v. v_series v = sid \<and> v_num v = Some x \<and> v_special v) (volumes lib)"

lemma readiness_missing:
  assumes "series_by_id lib sid = Some s"
  shows "x \<in> set (rd_missing (metadata_readiness_report sid lib)) \<longleftrightarrow>
      (\<exists>n. s_total_volumes s = Some n \<and> n > 0 \<and> x \<in> set (map (\<lambda>i. round_double (of_int i)) [1..n]))
      \<and> \<not> list_ex (\<lambda>v. v_series v = sid \<and> v_num v = Some x \<and> \<not> v_special v) (volumes lib)"
  using assms by (auto simp: metadata_readiness_report_def Let_def list_ex_iff split: option.splits; force)

lemma readiness_stub_blockers:
  assumes "series_by_id lib sid = Some s"
  shows "MissingMainlineStubs \<in> set (rd_blockers (metadata_readiness_report sid lib))
      \<longleftrightarrow> rd_missing (metadata_readiness_report sid lib) \<noteq> []"
    "SpecialBlocksMainline \<in> set (rd_blockers (metadata_readiness_report sid lib))
      \<longleftrightarrow> list_ex (special_numbered lib sid) (rd_missing (metadata_readiness_report sid lib))"
proof -
  have sp: "x \<in> set (map (\<lambda>v. the (v_num v)) (filter (\<lambda>v. v_special v \<and> v_num v \<noteq> None)
      (filter (\<lambda>v. v_series v = sid) (volumes lib)))) \<longleftrightarrow> special_numbered lib sid x" for x
    by (force simp: special_numbered_def list_ex_iff)
  show "MissingMainlineStubs \<in> set (rd_blockers (metadata_readiness_report sid lib))
      \<longleftrightarrow> rd_missing (metadata_readiness_report sid lib) \<noteq> []"
    using assms by (auto simp: metadata_readiness_report_def Let_def split: option.splits)
  let ?has = "case s_total_volumes s of None \<Rightarrow> False | Some n \<Rightarrow> n > 0"
  let ?miss = "rd_missing (metadata_readiness_report sid lib)"
  have b: "rd_blockers (metadata_readiness_report sid lib) =
      (if ?has then (if filter (special_numbered lib sid) ?miss \<noteq> [] then [SpecialBlocksMainline] else [])
          @ (if ?miss \<noteq> [] then [MissingMainlineStubs] else [])
          @ (if rd_extra (metadata_readiness_report sid lib) \<noteq> [] then [ExtraMainlineStubs] else [])
       else [NeedsTotalVolumes])
      @ (if series_cvm lib sid = [] then [NeedsChapterVolMap] else [])
      @ (if rd_unlinked (metadata_readiness_report sid lib) > 0 then [UnlinkedChapters] else [])"
    unfolding metadata_readiness_report_def Let_def assms option.case sp by simp
  have "?miss = []" if "\<not> ?has" using assms that by (simp add: metadata_readiness_report_def Let_def)
  then show "SpecialBlocksMainline \<in> set (rd_blockers (metadata_readiness_report sid lib))
      \<longleftrightarrow> list_ex (special_numbered lib sid) ?miss"
    unfolding b by (cases ?has) (simp_all add: list_ex_iff filter_empty_conv)
qed

text \<open>
  C7: After create_volume_stubs for a series' total_volumes, the readiness report misses a
  mainline volume only where a special volume carries its number, so the blockers
  missing_mainline_stubs and special_blocks_mainline are raised together or not at all.\<close>

theorem stubs_leave_only_special_gaps:
  assumes "series_by_id lib sid = Some s" "s_total_volumes s = Some n"
    "create_volume_stubs sid n lib = Inr lib'"
  shows "list_all (special_numbered lib' sid) (rd_missing (metadata_readiness_report sid lib'))
    \<and> (MissingMainlineStubs \<in> set (rd_blockers (metadata_readiness_report sid lib'))
        \<longleftrightarrow> SpecialBlocksMainline \<in> set (rd_blockers (metadata_readiness_report sid lib')))"
proof -
  have ol: "only_linked (insert_stubs sid n lib) lib'" by (rule create_volume_stubs_cases [OF assms(3)])
  have "series (insert_stubs sid n lib) = series lib" using insert_stubs_spec by blast
  with ol have s': "series_by_id lib' sid = Some s" using assms(1) by (simp add: only_linked_def series_by_id_def)
  have vs: "volumes lib' = volumes (insert_stubs sid n lib)" using ol by (simp add: only_linked_def)
  have "missing_numbers lib' sid n = []"
    using insert_stubs_none_missing [of sid n lib] missing_numbers_cong [OF vs] by simp
  then have ex: "x \<in> fst ` set (numbered_volumes lib' sid)"
    if "x \<in> set (map (\<lambda>i. round_double (of_int i)) [1..n])" for x
    using that by (auto simp: missing_numbers_def Let_def filter_empty_conv)
  have all: "special_numbered lib' sid x" if "x \<in> set (rd_missing (metadata_readiness_report sid lib'))" for x
  proof -
    from that have m: "x \<in> set (map (\<lambda>i. round_double (of_int i)) [1..n])"
      "\<not> list_ex (\<lambda>v. v_series v = sid \<and> v_num v = Some x \<and> \<not> v_special v) (volumes lib')"
      unfolding readiness_missing [OF s'] using assms(2) by auto
    from ex [OF m(1)] obtain v where "v \<in> set (volumes lib')" "v_series v = sid" "v_num v = Some x"
      unfolding numbered_volumes_set by blast
    with m(2) show ?thesis by (auto simp: special_numbered_def list_ex_iff)
  qed
  then have l: "list_all (special_numbered lib' sid) (rd_missing (metadata_readiness_report sid lib'))"
    by (simp add: list_all_iff)
  moreover have "rd_missing (metadata_readiness_report sid lib') \<noteq> []
      \<longleftrightarrow> list_ex (special_numbered lib' sid) (rd_missing (metadata_readiness_report sid lib'))"
    using l by (cases "rd_missing (metadata_readiness_report sid lib')") auto
  ultimately show ?thesis unfolding readiness_stub_blockers [OF s'] by simp
qed

theorem stubs_leave_only_special_gaps_witness:
  "list_all (special_numbered demo_stubbed 1) (rd_missing (metadata_readiness_report 1 demo_stubbed))
   \<and> length (rd_existing (metadata_readiness_report 1 demo_stubbed)) = 2"
proof -
  have "series_by_id demo_library 1 = Some (hd (series demo_library))"
    "s_total_volumes (hd (series demo_library)) = Some 2"
    by (simp_all add: demo_library_def series_by_id_def)
  from stubs_leave_only_special_gaps [OF this demo_stubbed_Inr]
  have "list_all (special_numbered demo_stubbed 1) (rd_missing (metadata_readiness_report 1 demo_stubbed))" by simp
  moreover have "length (rd_existing (metadata_readiness_report 1 demo_stubbed)) = 2" by code_simp
  ultimately show ?thesis by simp
qed

end
