(* ===== verification/Json_Codec.thy ===== *)
theory Json_Codec
  imports Json_Text Py_Number
begin

text \<open>
  \<open>json.dumps\<close> with compact separators and \<open>json.loads\<close> on the values of type \<open>json\<close>, as the
  durable evidence columns use them. \<open>dumps\<close> prints objects in the order given (callers pass
  their keys sorted); \<open>loads\<close> keeps every pair of an object in order, as an
  \<open>object_pairs_hook\<close> receives them, and \<open>unique_pairs\<close> is the hook that refuses a repeated
  key. Code points from 256 on and the constants NaN and Infinity are not represented; the fuel
  of the parser is the length of the text, and \<open>loads_dumps\<close> shows that it is enough.
\<close>

subsection \<open>Printing\<close>

definition ascii_escape :: "char \<Rightarrow> string" where
  "ascii_escape c = (let n = of_char c :: nat in
     if n < 127 then json_escape c
     else if n = 127 then [c]
     else [backslash, CHR ''u'', CHR ''0'', CHR ''0'', hex_char (n div 16), hex_char (n mod 16)])"

definition json_text :: "bool \<Rightarrow> string \<Rightarrow> string" where
  "json_text ensure_ascii s =
     dquote # concat (map (if ensure_ascii then ascii_escape else json_escape) s) @ [dquote]"

fun join_with :: "string \<Rightarrow> string list \<Rightarrow> string" where
  "join_with sep [] = []"
| "join_with sep [x] = x"
| "join_with sep (x # y # zs) = x @ sep @ join_with sep (y # zs)"

fun dumps :: "bool \<Rightarrow> json \<Rightarrow> string" where
  "dumps ea JNull = ''null''"
| "dumps ea (JBool b) = (if b then ''true'' else ''false'')"
| "dumps ea (JInt i) = dec_int i"
| "dumps ea (JFloat x) = py_repr_float x"
| "dumps ea (JStr s) = json_text ea s"
| "dumps ea (JArr xs) = ''['' @ join_with '','' (map (dumps ea) xs) @ '']''"
| "dumps ea (JObj kvs) = ''{'' @ join_with '','' (map (\<lambda>(k, v). json_text ea k @ '':'' @ dumps ea v) kvs) @ ''}''"

subsection \<open>Parsing\<close>

definition json_ws :: "char \<Rightarrow> bool" where
  "json_ws c = (c = CHR '' '' \<or> c = CHR 0x09 \<or> c = CHR 0x0A \<or> c = CHR 0x0D)"

definition skip_ws :: "string \<Rightarrow> string" where
  "skip_ws = dropWhile json_ws"

definition hex_digit :: "char \<Rightarrow> nat option" where
  "hex_digit c = (let n = of_char c :: nat in
     if 48 \<le> n \<and> n \<le> 57 then Some (n - 48)
     else if 97 \<le> n \<and> n \<le> 102 then Some (n - 87)
     else if 65 \<le> n \<and> n \<le> 70 then Some (n - 55) else None)"

definition simple_escape :: "char \<Rightarrow> char option" where
  "simple_escape c =
     (if c = dquote \<or> c = backslash \<or> c = CHR ''/'' then Some c
      else if c \<in> {CHR ''n'', CHR ''r'', CHR ''t'', CHR ''f'', CHR ''b''} then Some (escaped_char c) else None)"

fun parse_text :: "string \<Rightarrow> (string \<times> string) option" where
  "parse_text [] = None"
| "parse_text (c # cs) =
     (if c = dquote then Some ([], cs)
      else if c = backslash then
        (case cs of
           [] \<Rightarrow> None
         | e # ds \<Rightarrow>
             if e = CHR ''u'' then
               (case ds of
                  z1 # z2 # h # l # es \<Rightarrow>
                    (case (hex_digit z1, hex_digit z2, hex_digit h, hex_digit l) of
                       (Some 0, Some 0, Some a, Some b) \<Rightarrow>
                         map_option (\<lambda>(s, r). (char_of (16 * a + b) # s, r)) (parse_text es)
                     | _ \<Rightarrow> None)
                | _ \<Rightarrow> None)
             else (case simple_escape e of
                 None \<Rightarrow> None | Some x \<Rightarrow> map_option (\<lambda>(s, r). (x # s, r)) (parse_text ds)))
      else if (of_char c :: nat) < 32 then None
      else map_option (\<lambda>(s, r). (c # s, r)) (parse_text cs))"

definition take_digits :: "string \<Rightarrow> string \<times> string" where
  "take_digits s = (takeWhile is_digit s, dropWhile is_digit s)"

text \<open>\<open>(-?(?:0|[1-9][0-9]*))(\.[0-9]+)?([eE][-+]?[0-9]+)?\<close>\<close>

definition parse_fraction :: "string \<Rightarrow> string \<times> string" where
  "parse_fraction s = (case s of
      c # r \<Rightarrow> if c = CHR ''.'' \<and> fst (take_digits r) \<noteq> [] then (c # fst (take_digits r), snd (take_digits r)) else ([], s)
    | [] \<Rightarrow> ([], s))"

definition parse_exponent :: "string \<Rightarrow> string \<times> string" where
  "parse_exponent s = (case s of
      c # r \<Rightarrow>
        if c = CHR ''e'' \<or> c = CHR ''E'' then
          (let (sg, t) = (case r of d # q \<Rightarrow> if d = CHR ''-'' \<or> d = CHR ''+'' then ([d], q) else ([], r) | [] \<Rightarrow> ([], r));
               (ds, u) = take_digits t
           in if ds \<noteq> [] then (c # sg @ ds, u) else ([], s))
        else ([], s)
    | [] \<Rightarrow> ([], s))"

definition parse_number :: "string \<Rightarrow> (json \<times> string) option" where
  "parse_number s =
     (let (neg, r) = (case s of c # q \<Rightarrow> if c = CHR ''-'' then (True, q) else (False, s) | [] \<Rightarrow> (False, s));
          (ds0, t0) = take_digits r
      in if ds0 = [] then None
         else
           let (ds, t) = (if hd ds0 = CHR ''0'' then ([hd ds0], tl ds0 @ t0) else (ds0, t0));
               (frac, t1) = parse_fraction t;
               (ex, t2) = parse_exponent t1
           in if frac = [] \<and> ex = [] then Some (JInt (if neg then - int (undec ds) else int (undec ds)), t2)
              else map_option (\<lambda>x. (JFloat x, t2)) (py_float_str ((if neg then ''-'' else []) @ ds @ frac @ ex)))"

definition strip_prefix :: "string \<Rightarrow> string \<Rightarrow> string option" where
  "strip_prefix p s = (if take (length p) s = p then Some (drop (length p) s) else None)"

fun parse_value :: "nat \<Rightarrow> string \<Rightarrow> (json \<times> string) option"
  and parse_elements :: "nat \<Rightarrow> string \<Rightarrow> (json list \<times> string) option"
  and parse_members :: "nat \<Rightarrow> string \<Rightarrow> ((string \<times> json) list \<times> string) option" where
  "parse_value 0 s = None"
| "parse_value (Suc n) s =
     (case skip_ws s of
        [] \<Rightarrow> None
      | c # r \<Rightarrow>
          if c = dquote then map_option (\<lambda>(x, t). (JStr x, t)) (parse_text r)
          else if c = CHR ''{'' then
            (case skip_ws r of
               [] \<Rightarrow> None
             | d # t \<Rightarrow> if d = CHR ''}'' then Some (JObj [], t)
                        else map_option (\<lambda>(x, u). (JObj x, u)) (parse_members n (d # t)))
          else if c = CHR ''['' then
            (case skip_ws r of
               [] \<Rightarrow> None
             | d # t \<Rightarrow> if d = CHR '']'' then Some (JArr [], t)
                        else map_option (\<lambda>(x, u). (JArr x, u)) (parse_elements n (d # t)))
          else if c = CHR ''n'' then map_option (\<lambda>t. (JNull, t)) (strip_prefix ''null'' (c # r))
          else if c = CHR ''t'' then map_option (\<lambda>t. (JBool True, t)) (strip_prefix ''true'' (c # r))
          else if c = CHR ''f'' then map_option (\<lambda>t. (JBool False, t)) (strip_prefix ''false'' (c # r))
          else parse_number (c # r))"
| "parse_elements 0 s = None"
| "parse_elements (Suc n) s =
     (case parse_value n s of
        None \<Rightarrow> None
      | Some (x, t) \<Rightarrow>
          (case skip_ws t of
             [] \<Rightarrow> None
           | d # u \<Rightarrow> if d = CHR '']'' then Some ([x], u)
                      else if d = CHR '','' then map_option (\<lambda>(xs, v). (x # xs, v)) (parse_elements n u)
                      else None))"
| "parse_members 0 s = None"
| "parse_members (Suc n) s =
     (case skip_ws s of
        [] \<Rightarrow> None
      | q # r \<Rightarrow>
          if q \<noteq> dquote then None
          else (case parse_text r of
            None \<Rightarrow> None
          | Some (k, t) \<Rightarrow>
              (case skip_ws t of
                 [] \<Rightarrow> None
               | c # u \<Rightarrow>
                   if c \<noteq> CHR '':'' then None
                   else (case parse_value n u of
                     None \<Rightarrow> None
                   | Some (x, v) \<Rightarrow>
                       (case skip_ws v of
                          [] \<Rightarrow> None
                        | d # w \<Rightarrow> if d = CHR ''}'' then Some ([(k, x)], w)
                                   else if d = CHR '','' then map_option (\<lambda>(kvs, z). ((k, x) # kvs, z)) (parse_members n w)
                                   else None)))))"

definition loads :: "string \<Rightarrow> json option" where
  "loads s = (case parse_value (Suc (length s)) s of
      Some (j, r) \<Rightarrow> if skip_ws r = [] then Some j else None | None \<Rightarrow> None)"

fun unique_pairs :: "json \<Rightarrow> bool" where
  "unique_pairs (JObj kvs) \<longleftrightarrow> distinct (map fst kvs) \<and> list_all (\<lambda>(_, v). unique_pairs v) kvs"
| "unique_pairs (JArr xs) \<longleftrightarrow> list_all unique_pairs xs"
| "unique_pairs _ \<longleftrightarrow> True"

definition loads_unique :: "string \<Rightarrow> json option" where
  "loads_unique s = (case loads s of Some j \<Rightarrow> if unique_pairs j then Some j else None | None \<Rightarrow> None)"

subsection \<open>Reading back what was printed\<close>

lemma hex_digit_char: "n < 16 \<Longrightarrow> hex_digit (hex_char n) = Some n"
  by (auto simp: hex_digit_def hex_char_def Let_def)

lemma hex_digit_zero: "hex_digit (CHR ''0'') = Some 0"
  by (simp add: hex_digit_def)

lemma parse_hex_escape:
  assumes "n = (of_char c :: nat)"
  shows "parse_text ([backslash, CHR ''u'', CHR ''0'', CHR ''0'', hex_char (n div 16), hex_char (n mod 16)] @ t)
    = map_option (\<lambda>(s, r). (c # s, r)) (parse_text t)"
proof -
  have "n < 256" using of_char_lt_256 assms by simp
  then have "n div 16 < 16" "n mod 16 < 16" by simp_all
  then have h: "hex_digit (hex_char (n div 16)) = Some (n div 16)" "hex_digit (hex_char (n mod 16)) = Some (n mod 16)"
    by (simp_all add: hex_digit_char)
  have "16 * (n div 16) + n mod 16 = n" by simp
  then have "char_of (16 * (n div 16) + n mod 16) = c" by (simp only: assms char_of_char)
  then show ?thesis by (simp add: h hex_digit_zero)
qed

lemma parse_simple_escape:
  "simple_escape e = Some c \<Longrightarrow> e \<noteq> CHR ''u'' \<Longrightarrow> parse_text ([backslash, e] @ t) = map_option (\<lambda>(s, r). (c # s, r)) (parse_text t)"
  by simp

lemma parse_json_escape: "parse_text (json_escape c @ t) = map_option (\<lambda>(s, r). (c # s, r)) (parse_text t)"
proof -
  let ?n = "of_char c :: nat"
  have c: "c = char_of ?n" by simp
  consider (q) "?n = 34" | (b) "?n = 92" | (n) "?n = 10" | (r) "?n = 13" | (t) "?n = 9"
    | (f) "?n = 12" | (bs) "?n = 8"
    | (ctl) "?n < 32" "?n \<notin> {10, 13, 9, 12, 8}"
    | (raw) "32 \<le> ?n" "?n \<noteq> 34" "?n \<noteq> 92"
    by (metis empty_iff insert_iff leI)
  then show ?thesis
  proof cases
    case ctl
    then have "json_escape c = [backslash, CHR ''u'', CHR ''0'', CHR ''0'', hex_char (?n div 16), hex_char (?n mod 16)]"
      by (simp add: json_escape_def Let_def)
    then show ?thesis using parse_hex_escape [OF refl, of c t] by simp
  next
    case raw
    then have "c \<noteq> dquote" "c \<noteq> backslash" by (auto simp: dquote_def backslash_def)
    with raw show ?thesis by (simp add: json_escape_def)
  next
    case q
    then have "(of_char c :: nat) = of_char dquote" by (simp add: dquote_def)
    then have "c = dquote" by (simp only: of_char_eq_iff)
    then have "json_escape c = [backslash, dquote]" by (simp add: json_escape_def dquote_def)
    then show ?thesis using \<open>c = dquote\<close> parse_simple_escape [of dquote dquote t]
      by (simp add: simple_escape_def dquote_def)
  next
    case b
    then have "(of_char c :: nat) = of_char backslash" by (simp add: backslash_def)
    then have "c = backslash" by (simp only: of_char_eq_iff)
    then have "json_escape c = [backslash, backslash]" by (simp add: json_escape_def backslash_def)
    then show ?thesis using \<open>c = backslash\<close> parse_simple_escape [of backslash backslash t]
      by (simp add: simple_escape_def backslash_def)
  qed (use c in \<open>simp_all add: json_escape_def escaped_char_def simple_escape_def dquote_def backslash_def\<close>)
qed

lemma parse_ascii_escape: "parse_text (ascii_escape c @ t) = map_option (\<lambda>(s, r). (c # s, r)) (parse_text t)"
proof -
  let ?n = "of_char c :: nat"
  consider "?n < 127" | "?n = 127" | "?n > 127" by linarith
  then show ?thesis
  proof cases
    case 1
    then show ?thesis by (simp add: ascii_escape_def parse_json_escape)
  next
    case 2
    then have "c \<noteq> dquote" "c \<noteq> backslash" by (auto simp: dquote_def backslash_def)
    with 2 show ?thesis by (simp add: ascii_escape_def)
  next
    case 3
    then have "ascii_escape c = [backslash, CHR ''u'', CHR ''0'', CHR ''0'', hex_char (?n div 16), hex_char (?n mod 16)]"
      by (simp add: ascii_escape_def Let_def)
    then show ?thesis using parse_hex_escape [OF refl, of c t] by simp
  qed
qed

lemma parse_json_text: "parse_text (tl (json_text ea s) @ t) = Some (s, t)"
proof -
  have "parse_text (concat (map (if ea then ascii_escape else json_escape) s) @ dquote # t) = Some (s, t)"
    by (cases ea; induction s) (simp_all add: parse_ascii_escape parse_json_escape)
  then show ?thesis by (simp add: json_text_def)
qed

lemma json_text_Cons: "json_text ea s = dquote # tl (json_text ea s)"
  by (simp add: json_text_def)


text \<open>A number ends where a comma, a bracket or the text ends.\<close>

definition number_end :: "string \<Rightarrow> bool" where
  "number_end t \<longleftrightarrow> (case t of [] \<Rightarrow> True | c # _ \<Rightarrow> c \<in> {CHR '','', CHR ''}'', CHR '']''})"

lemma number_end_simps [simp]:
  "number_end []" "number_end (CHR '','' # t)" "number_end (CHR ''}'' # t)" "number_end (CHR '']'' # t)"
  by (simp_all add: number_end_def)

lemma number_end_cases: "number_end t \<Longrightarrow> take_digits t = ([], t) \<and> parse_fraction t = ([], t) \<and> parse_exponent t = ([], t)"
  by (cases t) (auto simp: number_end_def take_digits_def parse_fraction_def parse_exponent_def is_digit_def)

lemma take_digits_dec: "number_end t \<Longrightarrow> take_digits (dec_nat n @ t) = (dec_nat n, t)"
proof -
  assume t: "number_end t"
  have a: "\<And>c. c \<in> set (dec_nat n) \<Longrightarrow> is_digit c" using dec_nat_digits [of n] by (simp add: list_all_iff)
  have "takeWhile is_digit (dec_nat n @ t) = dec_nat n @ takeWhile is_digit t"
    "dropWhile is_digit (dec_nat n @ t) = dropWhile is_digit t"
    using a by (simp_all add: takeWhile_append2 dropWhile_append2)
  with number_end_cases [OF t] show ?thesis by (simp add: take_digits_def)
qed

lemma char_zero: "char_of (48 :: nat) = CHR ''0''"
  by code_simp

lemma dec_nat_first_digit: "hd (dec_nat n) = CHR ''0'' \<Longrightarrow> n = 0"
proof (induction n rule: dec_nat.induct)
  case (1 n)
  show ?case
  proof (cases "n < 10")
    case True
    then have "dec_nat n = [char_of (48 + n)]" by (simp add: dec_nat.simps)
    with "1.prems" have "(char_of (48 + n) :: char) = char_of (48 :: nat)" by (simp add: char_zero)
    then have "(of_char (char_of (48 + n) :: char) :: nat) = of_char (char_of (48 :: nat) :: char)" by (rule arg_cong)
    with True show ?thesis by simp
  next
    case False
    then have "hd (dec_nat n) = hd (dec_nat (n div 10))" by (simp add: dec_nat.simps [of n])
    with "1.IH" [OF False] "1.prems" have "n div 10 = 0" by simp
    with False show ?thesis by simp
  qed
qed

lemma dec_nat_0: "dec_nat 0 = ''0''"
  by (simp add: dec_nat.simps char_zero)

lemma dec_nat_no_sign: "dec_nat n = c # cs \<Longrightarrow> c \<noteq> CHR ''-''"
  using dec_nat_digits [of n] by (auto simp: is_digit_def)

lemma parse_number_nat:
  assumes "number_end t"
  shows "parse_number (dec_nat n @ t) = Some (JInt (int n), t)"
    "parse_number (CHR ''-'' # dec_nat n @ t) = Some (JInt (- int n), t)"
proof -
  obtain c cs where c: "dec_nat n = c # cs" using dec_nat_nonempty by (cases "dec_nat n") auto
  have nz: "hd (dec_nat n) = CHR ''0'' \<Longrightarrow> dec_nat n = [CHR ''0''] \<and> n = 0"
    using dec_nat_first_digit [of n] dec_nat_0 by auto
  note e = number_end_cases [OF assms]
  have sign: "(case dec_nat n @ t of c # q \<Rightarrow> if c = CHR ''-'' then (True, q) else (False, dec_nat n @ t)
      | [] \<Rightarrow> (False, dec_nat n @ t)) = (False, dec_nat n @ t)"
    using dec_nat_no_sign [OF c] c by simp
  have body: "(if hd (dec_nat n) = CHR ''0'' then ([hd (dec_nat n)], tl (dec_nat n) @ t) else (dec_nat n, t)) = (dec_nat n, t)"
    using nz by auto
  show "parse_number (dec_nat n @ t) = Some (JInt (int n), t)"
    unfolding parse_number_def sign Let_def prod.case take_digits_dec [OF assms] fst_conv snd_conv body
    using e by (simp add: undec_dec_nat)
  show "parse_number (CHR ''-'' # dec_nat n @ t) = Some (JInt (- int n), t)"
    unfolding parse_number_def list.case Let_def prod.case if_True simp_thms take_digits_dec [OF assms] fst_conv snd_conv body
    using e by (simp add: undec_dec_nat)
qed

lemma parse_number_int: "number_end t \<Longrightarrow> parse_number (dec_int i @ t) = Some (JInt i, t)"
  using parse_number_nat [of t "nat i"] parse_number_nat [of t "nat (- i)"] by (auto simp: dec_int_def)

lemma digit_not_special: "is_digit c \<Longrightarrow> \<not> json_ws c \<and> c \<noteq> dquote \<and> c \<noteq> CHR ''{'' \<and> c \<noteq> CHR ''[''
    \<and> c \<noteq> CHR ''n'' \<and> c \<noteq> CHR ''t'' \<and> c \<noteq> CHR ''f''"
  by (auto simp: is_digit_def json_ws_def dquote_def)

lemma dec_int_first:
  obtains c cs where "dec_int i = c # cs" "is_digit c \<or> c = CHR ''-''"
proof -
  have "dec_int i \<noteq> []" by (simp add: dec_int_def)
  then obtain c cs where c: "dec_int i = c # cs" by (cases "dec_int i") auto
  have "is_digit c \<or> c = CHR ''-''"
    using c dec_nat_digits [of "nat i"] dec_nat_digits [of "nat (- i)"] by (auto simp: dec_int_def split: if_splits)
  with c that show thesis by blast
qed

lemma skip_ws_nonws: "\<not> json_ws c \<Longrightarrow> skip_ws (c # cs) = c # cs"
  by (simp add: skip_ws_def)

lemma parse_value_number:
  assumes "\<not> json_ws c \<and> c \<noteq> dquote \<and> c \<noteq> CHR ''{'' \<and> c \<noteq> CHR ''[''
    \<and> c \<noteq> CHR ''n'' \<and> c \<noteq> CHR ''t'' \<and> c \<noteq> CHR ''f''"
  shows "parse_value (Suc n) (c # r) = parse_number (c # r)"
  using assms by (simp add: skip_ws_nonws)

lemma parse_value_int: "number_end t \<Longrightarrow> parse_value (Suc n) (dec_int i @ t) = Some (JInt i, t)"
proof -
  assume t: "number_end t"
  obtain c cs where c: "dec_int i = c # cs" "is_digit c \<or> c = CHR ''-''" by (rule dec_int_first)
  have "\<not> json_ws c \<and> c \<noteq> dquote \<and> c \<noteq> CHR ''{'' \<and> c \<noteq> CHR ''[''
    \<and> c \<noteq> CHR ''n'' \<and> c \<noteq> CHR ''t'' \<and> c \<noteq> CHR ''f''"
    using c(2)
  proof
    assume "is_digit c"
    then show ?thesis by (rule digit_not_special)
  next
    assume "c = CHR ''-''"
    then show ?thesis by (simp add: json_ws_def dquote_def)
  qed
  from parse_value_number [OF this, of n "cs @ t"] parse_number_int [OF t, of i]
  show ?thesis unfolding c(1) append_Cons by (simp only:)
qed

text \<open>Values without floats.\<close>

fun float_free :: "json \<Rightarrow> bool" where
  "float_free (JFloat x) \<longleftrightarrow> False"
| "float_free (JArr xs) \<longleftrightarrow> list_all float_free xs"
| "float_free (JObj kvs) \<longleftrightarrow> list_all (\<lambda>(_, v). float_free v) kvs"
| "float_free _ \<longleftrightarrow> True"

lemma dquote_not_ws [simp]: "\<not> json_ws dquote"
  by (simp add: json_ws_def dquote_def)

lemma dumps_nonempty: "float_free j \<Longrightarrow> dumps ea j \<noteq> []"
  by (cases j) (simp_all add: dec_int_def json_text_def)


definition dump_member :: "bool \<Rightarrow> string \<times> json \<Rightarrow> string" where
  "dump_member ea kv = json_text ea (fst kv) @ '':'' @ dumps ea (snd kv)"

lemma dumps_obj: "dumps ea (JObj kvs) = ''{'' @ join_with '','' (map (dump_member ea) kvs) @ ''}''"
proof -
  have "(\<lambda>(k, v). json_text ea k @ '':'' @ dumps ea v) = dump_member ea"
    by (simp add: dump_member_def fun_eq_iff)
  then show ?thesis by (simp only: dumps.simps)
qed

text \<open>The first character of a printed value; values end where an item may end.\<close>

lemma dumps_first:
  assumes "float_free j"
  obtains c cs where "dumps ea j = c # cs" "\<not> json_ws c" "c \<noteq> CHR ''}''" "c \<noteq> CHR '']''"
proof (cases j)
  case (JInt i)
  obtain c cs where c: "dec_int i = c # cs" "is_digit c \<or> c = CHR ''-''" by (rule dec_int_first)
  from c(2) have "\<not> json_ws c \<and> c \<noteq> CHR ''}'' \<and> c \<noteq> CHR '']''"
  proof
    assume "is_digit c"
    then show ?thesis by (auto simp: is_digit_def json_ws_def)
  next
    assume "c = CHR ''-''"
    then show ?thesis by (simp add: json_ws_def)
  qed
  with that c(1) JInt show thesis by simp
next
  case (JStr s)
  have "dumps ea j = dquote # tl (json_text ea s)" using JStr json_text_Cons by simp
  with that show thesis by (simp add: dquote_def json_ws_def)
next
  case JNull
  have "dumps ea j = CHR ''n'' # ''ull''" by (simp add: JNull)
  with that show thesis by (simp add: json_ws_def)
next
  case (JBool b)
  have "dumps ea j = (if b then CHR ''t'' # ''rue'' else CHR ''f'' # ''alse'')" by (simp add: JBool)
  with that show thesis by (cases b) (simp_all add: json_ws_def)
next
  case (JArr xs)
  have "dumps ea j = CHR ''['' # join_with '','' (map (dumps ea) xs) @ '']''" by (simp add: JArr)
  with that show thesis by (simp add: json_ws_def)
next
  case (JObj kvs)
  have "dumps ea j = CHR ''{'' # join_with '','' (map (dump_member ea) kvs) @ ''}''" by (simp add: JObj dumps_obj del: dumps.simps)
  with that show thesis by (simp add: json_ws_def)
qed (use assms in simp)

lemma parse_elements_last:
  "parse_value n s = Some (x, CHR '']'' # u) \<Longrightarrow> parse_elements (Suc n) s = Some ([x], u)"
  by (simp add: skip_ws_def json_ws_def)

lemma parse_elements_more:
  "parse_value n s = Some (x, CHR '','' # u) \<Longrightarrow> parse_elements n u = Some (xs, v)
    \<Longrightarrow> parse_elements (Suc n) s = Some (x # xs, v)"
  by (simp add: skip_ws_def json_ws_def)

lemma elements_loads:
  assumes "xs \<noteq> []"
    "\<And>x n t. x \<in> set xs \<Longrightarrow> length (dumps ea x) \<le> n \<Longrightarrow> number_end t \<Longrightarrow> parse_value n (dumps ea x @ t) = Some (x, t)"
    "length (join_with '','' (map (dumps ea) xs)) < n"
  shows "parse_elements n (join_with '','' (map (dumps ea) xs) @ CHR '']'' # t) = Some (xs, t)"
  using assms
proof (induction xs arbitrary: n)
  case Nil
  then show ?case by simp
next
  case (Cons x xs)
  then obtain m where n: "n = Suc m" by (cases n) auto
  show ?case
  proof (cases xs)
    case Nil
    have "parse_value m (dumps ea x @ CHR '']'' # t) = Some (x, CHR '']'' # t)"
      using Cons.prems Nil n by simp
    from parse_elements_last [OF this] show ?thesis
      unfolding n by (simp add: Nil del: parse_elements.simps)
  next
    case (Cons y ys)
    have l: "length (dumps ea x) + 1 + length (join_with '','' (map (dumps ea) xs)) \<le> m"
      using Cons.prems(3) n \<open>xs = y # ys\<close> by simp
    have "parse_value m (dumps ea x @ CHR '','' # join_with '','' (map (dumps ea) xs) @ CHR '']'' # t)
        = Some (x, CHR '','' # join_with '','' (map (dumps ea) xs) @ CHR '']'' # t)"
      using Cons.prems(2) l by simp
    moreover have "parse_elements m (join_with '','' (map (dumps ea) xs) @ CHR '']'' # t) = Some (xs, t)"
      using Cons.prems(2) l \<open>xs = y # ys\<close> by (intro Cons.IH) simp_all
    ultimately have "parse_elements (Suc m) (dumps ea x @ CHR '','' # join_with '','' (map (dumps ea) xs) @ CHR '']'' # t)
        = Some (x # xs, t)" by (rule parse_elements_more)
    then show ?thesis unfolding n using \<open>xs = y # ys\<close> by (simp del: parse_elements.simps)
  qed
qed

lemma parse_member:
  assumes "parse_value n (dumps ea x @ v) = Some (x, v)"
  shows "parse_members (Suc n) (dump_member ea (k, x) @ v) =
    (case skip_ws v of [] \<Rightarrow> None
     | d # w \<Rightarrow> if d = CHR ''}'' then Some ([(k, x)], w)
        else if d = CHR '','' then map_option (\<lambda>(kvs, z). ((k, x) # kvs, z)) (parse_members n w) else None)"
proof -
  have s: "dump_member ea (k, x) @ v = dquote # tl (json_text ea k) @ CHR '':'' # dumps ea x @ v"
    using json_text_Cons [of ea k] by (simp add: dump_member_def)
  have p: "parse_text (tl (json_text ea k) @ CHR '':'' # dumps ea x @ v) = Some (k, CHR '':'' # dumps ea x @ v)"
    by (rule parse_json_text)
  have c: "skip_ws (CHR '':'' # r) = CHR '':'' # r" for r by (simp add: skip_ws_def json_ws_def)
  have d: "skip_ws (dquote # r) = dquote # r" for r by (simp add: skip_ws_def)
  show ?thesis unfolding s parse_members.simps(2) d by (simp add: p c assms)
qed

lemma members_loads:
  assumes "kvs \<noteq> []"
    "\<And>k x n t. (k, x) \<in> set kvs \<Longrightarrow> length (dumps ea x) \<le> n \<Longrightarrow> number_end t \<Longrightarrow> parse_value n (dumps ea x @ t) = Some (x, t)"
    "length (join_with '','' (map (dump_member ea) kvs)) < n"
  shows "parse_members n (join_with '','' (map (dump_member ea) kvs) @ CHR ''}'' # t) = Some (kvs, t)"
  using assms
proof (induction kvs arbitrary: n)
  case Nil
  then show ?case by simp
next
  case (Cons kv kvs)
  obtain k x where kv: "kv = (k, x)" by fastforce
  obtain m where n: "n = Suc m" using Cons.prems(3) by (cases n) auto
  have len: "length (dumps ea x) \<le> length (dump_member ea kv)" by (simp add: kv dump_member_def)
  show ?case
  proof (cases kvs)
    case Nil
    have "parse_value m (dumps ea x @ CHR ''}'' # t) = Some (x, CHR ''}'' # t)"
      using Cons.prems Nil n kv len by simp
    from parse_member [OF this, of k] show ?thesis
      unfolding n by (simp add: Nil kv skip_ws_def json_ws_def)
  next
    case (Cons y ys)
    let ?rest = "join_with '','' (map (dump_member ea) kvs) @ CHR ''}'' # t"
    have l: "length (dump_member ea kv) + 1 + length (join_with '','' (map (dump_member ea) kvs)) \<le> m"
      using Cons.prems(3) n \<open>kvs = y # ys\<close> by simp
    have v: "parse_value m (dumps ea x @ CHR '','' # ?rest) = Some (x, CHR '','' # ?rest)"
      using Cons.prems(2) [of k x m "CHR '','' # ?rest"] l len kv by simp
    have "parse_value n (dumps ea x @ t) = Some (x, t)"
      if "(k, x) \<in> set kvs" "length (dumps ea x) \<le> n" "number_end t" for k x n t
      by (rule Cons.prems(2) [of k]) (use that in simp_all)
    moreover have "kvs \<noteq> []" using \<open>kvs = y # ys\<close> by simp
    ultimately have "parse_members m ?rest = Some (kvs, t)"
      using l by (intro Cons.IH) simp_all
    with parse_member [OF v, of k] show ?thesis
      unfolding n using \<open>kvs = y # ys\<close> kv by (simp add: skip_ws_def json_ws_def)
  qed
qed

lemma parse_value_obj:
  "skip_ws r = d # t \<Longrightarrow> d \<noteq> CHR ''}'' \<Longrightarrow> parse_members n (d # t) = Some (kvs, u)
    \<Longrightarrow> parse_value (Suc n) (CHR ''{'' # r) = Some (JObj kvs, u)"
  by (simp add: skip_ws_nonws json_ws_def dquote_def)

lemma parse_value_arr:
  "skip_ws r = d # t \<Longrightarrow> d \<noteq> CHR '']'' \<Longrightarrow> parse_elements n (d # t) = Some (xs, u)
    \<Longrightarrow> parse_value (Suc n) (CHR ''['' # r) = Some (JArr xs, u)"
  by (simp add: skip_ws_nonws json_ws_def dquote_def)

lemma join_with_first: "xs \<noteq> [] \<Longrightarrow> hd xs = c # cs \<Longrightarrow> \<exists>ds. join_with sep xs = c # ds"
  by (cases xs; cases "tl xs") auto


lemma join_dumps_first:
  assumes "xs \<noteq> []" "list_all float_free xs"
  obtains d t where "join_with '','' (map (dumps ea) xs) = d # t" "\<not> json_ws d" "d \<noteq> CHR '']''"
proof -
  obtain x ys where x: "xs = x # ys" using assms(1) by (cases xs) auto
  with assms(2) have "float_free x" by simp
  then obtain c cs where c: "dumps ea x = c # cs" "\<not> json_ws c" "c \<noteq> CHR ''}''" "c \<noteq> CHR '']''" by (rule dumps_first)
  have "\<exists>ds. join_with '','' (map (dumps ea) xs) = c # ds" by (rule join_with_first) (simp_all add: x c)
  with that c show thesis by blast
qed

lemma join_members_first:
  assumes "kvs \<noteq> []"
  obtains t where "join_with '','' (map (dump_member ea) kvs) = dquote # t"
proof -
  obtain kv ys where kv: "kvs = kv # ys" using assms by (cases kvs) auto
  have "dump_member ea kv = dquote # (tl (json_text ea (fst kv)) @ '':'' @ dumps ea (snd kv))"
    using json_text_Cons [of ea "fst kv"] by (simp add: dump_member_def)
  then have "\<exists>ds. join_with '','' (map (dump_member ea) kvs) = dquote # ds"
    by (intro join_with_first) (simp_all add: kv)
  with that show thesis by blast
qed

lemma strip_prefix_append [simp]: "strip_prefix p (p @ t) = Some t"
  by (simp add: strip_prefix_def)

lemma parse_value_dumps:
  "float_free j \<Longrightarrow> length (dumps ea j) \<le> n \<Longrightarrow> number_end t \<Longrightarrow> parse_value n (dumps ea j @ t) = Some (j, t)"
proof (induction j arbitrary: n t)
  case JNull
  then obtain m where n: "n = Suc m" by (cases n) auto
  show ?case unfolding n using strip_prefix_append [of "''null''" t]
    by (simp add: skip_ws_nonws json_ws_def dquote_def)
next
  case (JBool b)
  then obtain m where n: "n = Suc m" by (cases n) (auto split: if_splits)
  show ?case unfolding n using strip_prefix_append [of "''true''" t] strip_prefix_append [of "''false''" t]
    by (cases b) (simp_all add: skip_ws_nonws json_ws_def dquote_def)
next
  case (JInt i)
  have "dec_int i \<noteq> []" by (simp add: dec_int_def)
  with JInt.prems obtain m where n: "n = Suc m" by (cases n) auto
  show ?case unfolding n using parse_value_int [OF JInt.prems(3)] by simp
next
  case (JFloat x)
  then show ?case by simp
next
  case (JStr s)
  have e: "dumps ea (JStr s) @ t = dquote # tl (json_text ea s) @ t" using json_text_Cons [of ea s] by simp
  with JStr.prems obtain m where n: "n = Suc m" by (cases n) (auto simp: json_text_def)
  have d: "skip_ws (dquote # r) = dquote # r" for r by (simp add: skip_ws_def)
  show ?case unfolding n e parse_value.simps(2) d by (simp add: parse_json_text)
next
  case (JArr xs)
  have l: "length (join_with '','' (map (dumps ea) xs)) + 2 \<le> n" using JArr.prems(2) by simp
  then obtain m where n: "n = Suc m" by (cases n) auto
  show ?case
  proof (cases "xs = []")
    case True
    then show ?thesis unfolding n by (simp add: skip_ws_def json_ws_def dquote_def)
  next
    case False
    have f: "list_all float_free xs" using JArr.prems(1) by simp
    obtain d r where d: "join_with '','' (map (dumps ea) xs) = d # r" "\<not> json_ws d" "d \<noteq> CHR '']''"
      by (rule join_dumps_first [OF False f])
    have "parse_value k (dumps ea x @ u) = Some (x, u)"
      if "x \<in> set xs" "length (dumps ea x) \<le> k" "number_end u" for x k u
      using JArr.IH [OF that(1) _ that(2,3)] f that(1) by (simp add: list_all_iff)
    then have p: "parse_elements m (join_with '','' (map (dumps ea) xs) @ CHR '']'' # t) = Some (xs, t)"
      using l n False by (intro elements_loads) simp_all
    have s: "skip_ws ((d # r) @ CHR '']'' # t) = d # r @ CHR '']'' # t" using skip_ws_nonws [OF d(2)] by simp
    have "parse_value (Suc m) (CHR ''['' # (d # r) @ CHR '']'' # t) = Some (JArr xs, t)"
      by (rule parse_value_arr [OF s d(3)]) (use p d(1) in simp)
    then show ?thesis unfolding n by (simp add: d(1) del: parse_value.simps)
  qed
next
  case (JObj kvs)
  have l: "length (join_with '','' (map (dump_member ea) kvs)) + 2 \<le> n" using JObj.prems(2) unfolding dumps_obj by simp
  then obtain m where n: "n = Suc m" by (cases n) auto
  show ?case
  proof (cases "kvs = []")
    case True
    then show ?thesis unfolding n by (simp add: skip_ws_def json_ws_def dquote_def)
  next
    case False
    obtain r where r: "join_with '','' (map (dump_member ea) kvs) = dquote # r"
      by (rule join_members_first [OF False])
    have f: "float_free x" if "(k, x) \<in> set kvs" for k x using JObj.prems(1) that by (auto simp: list_all_iff)
    have "parse_value i (dumps ea x @ u) = Some (x, u)"
      if kx: "(k, x) \<in> set kvs" "length (dumps ea x) \<le> i" "number_end u" for k x i u
      by (rule JObj.IH [of "(k, x)" x]) (use kx f in simp_all)
    then have p: "parse_members m (join_with '','' (map (dump_member ea) kvs) @ CHR ''}'' # t) = Some (kvs, t)"
      using l n False by (intro members_loads) simp_all
    have s: "skip_ws ((dquote # r) @ CHR ''}'' # t) = dquote # r @ CHR ''}'' # t" by (simp add: skip_ws_def)
    have "parse_value (Suc m) (CHR ''{'' # (dquote # r) @ CHR ''}'' # t) = Some (JObj kvs, t)"
      by (rule parse_value_obj [OF s]) (use p r in \<open>simp_all add: dquote_def\<close>)
    then show ?thesis unfolding n dumps_obj by (simp add: r del: parse_value.simps)
  qed
qed

text \<open>Reading a printed value returns it, whatever characters its strings hold.\<close>

lemma loads_dumps: "float_free j \<Longrightarrow> loads (dumps ea j) = Some j"
  using parse_value_dumps [of j ea "Suc (length (dumps ea j))" "[]"]
  by (simp add: loads_def skip_ws_def del: parse_value.simps)

lemma loads_unique_dumps: "float_free j \<Longrightarrow> unique_pairs j \<Longrightarrow> loads_unique (dumps ea j) = Some j"
  by (simp add: loads_unique_def loads_dumps)

end
