(* ===== verification/Import_Policy.thy ===== *)
theory Import_Policy
  imports Download_Identity Json_Codec
begin

text \<open>
  What an import is and who may import it: \<^verbatim>\<open>src/app/import_kinds.py\<close> (the canonical kinds of
  an import row), \<^verbatim>\<open>src/app/acquisition_policy.py\<close> (whether a download was grabbed under
  monitoring, from the table \<open>seen\<close> or from unanimous grab history) and
  \<^verbatim>\<open>src/app/grab_dedup.py\<close> (the rate limit on rejection events).
\<close>

subsection \<open>Import kinds\<close>

datatype import_kind = KVolume | KVolumeRange | KChapter | KChapterRange | KSpecial | KSkip

definition kind_name :: "import_kind \<Rightarrow> string" where
  "kind_name k = (case k of KVolume \<Rightarrow> ''volume'' | KVolumeRange \<Rightarrow> ''volume_range''
     | KChapter \<Rightarrow> ''chapter'' | KChapterRange \<Rightarrow> ''chapter_range'' | KSpecial \<Rightarrow> ''special'' | KSkip \<Rightarrow> ''skip'')"

definition valid_import_kinds :: "import_kind list" where
  "valid_import_kinds = [KVolume, KVolumeRange, KChapter, KChapterRange, KSpecial, KSkip]"

record legacy_fields =
  lf_file_type :: "string option"
  lf_pack_type :: "string option"
  lf_is_special :: bool
  lf_volume_end :: "rat option"
  lf_chapter_end :: "rat option"

definition infer_import_kind :: "legacy_fields \<Rightarrow> import_kind" where
  "infer_import_kind f =
     (if lf_is_special f \<or> lf_pack_type f = Some ''special'' then KSpecial
      else if lf_chapter_end f \<noteq> None \<or> lf_pack_type f = Some ''chapter_range'' then KChapterRange
      else if lf_volume_end f \<noteq> None \<or> lf_pack_type f = Some ''volume_range'' then KVolumeRange
      else if lf_file_type f = Some ''chapter'' \<or> lf_pack_type f = Some ''chapter'' then KChapter
      else KVolume)"

definition normalize_import_kind :: "string option \<Rightarrow> legacy_fields \<Rightarrow> import_kind" where
  "normalize_import_kind value legacy =
     (let normalized = py_lower (py_strip (case value of Some s \<Rightarrow> s | None \<Rightarrow> []))
      in case find (\<lambda>k. kind_name k = normalized) valid_import_kinds of
           Some k \<Rightarrow> k | None \<Rightarrow> infer_import_kind legacy)"

subsection \<open>Acquisition policy\<close>

definition policy_value :: "py_value \<Rightarrow> int option" where
  "policy_value v = (case v of PyInt n \<Rightarrow> if n = 0 \<or> n = 1 then Some n else None | _ \<Rightarrow> None)"

text \<open>
  A data column is the outcome of \<open>json.loads\<close> with every pair of an object kept; the hook
  \<open>_unique_pairs\<close> (\<open>unique_pairs\<close> of \<open>Json_Codec\<close>) refuses an object with a repeated key.
\<close>

record acquisition_row =
  aq_series :: "int option"
  aq_url :: "string option"
  aq_download_id :: "string option"
  aq_client :: "int option"
  aq_protocol :: "string option"

record seen_claim = acquisition_row +
  sn_policy :: py_value

record grab_history = acquisition_row +
  gh_event :: string
  gh_data :: json_column

definition text_value :: "string option \<Rightarrow> py_value" where
  "text_value s = (case s of None \<Rightarrow> PyNone | Some t \<Rightarrow> PyStr t)"

definition same_identity :: "('a) acquisition_row_scheme \<Rightarrow> download_identity \<Rightarrow> bool" where
  "same_identity row i =
     (let prot = normalize_download_protocol (text_value (aq_protocol row))
      in if aq_client row \<noteq> download_client_id i \<or> prot \<noteq> protocol i then False
         else if aq_protocol row \<noteq> None \<and> aq_protocol row \<noteq> Some [] \<and> prot = None then False
         else
           let raw_id = (case aq_download_id row of None \<Rightarrow> [] | Some t \<Rightarrow> t)
           in if raw_id = [] \<or> download_id i = [] then False
              else if prot = None then raw_id = download_id i
              else normalize_download_id raw_id prot = normalize_download_id (download_id i) prot)"

definition row_evidence :: "json_column \<Rightarrow> bool option" where
  "row_evidence data =
     (case (case data of JsonEmpty \<Rightarrow> JsonParsed (JObj []) | d \<Rightarrow> d) of
        JsonParsed (JObj kvs) \<Rightarrow>
          if \<not> unique_pairs (JObj kvs) then None
          else if map_of kvs ''claim_lost'' = Some (JBool True) then Some True
          else (case map_of kvs ''respect_monitoring'' of Some (JBool b) \<Rightarrow> Some b | _ \<Rightarrow> None)
      | _ \<Rightarrow> None)"

text \<open>The loop over the history rows: \<open>None\<close> is the early return, otherwise the evidence set.\<close>

fun collect_evidence :: "download_identity \<Rightarrow> grab_history list \<Rightarrow> bool list \<Rightarrow> bool list option" where
  "collect_evidence i [] acc = Some acc"
| "collect_evidence i (row # rows) acc =
     (if \<not> same_identity row i then collect_evidence i rows acc
      else case row_evidence (gh_data row) of
             None \<Rightarrow> None
           | Some b \<Rightarrow> collect_evidence i rows (List.insert b acc))"

definition seen_policy :: "seen_claim list \<Rightarrow> int \<Rightarrow> string \<Rightarrow> download_identity \<Rightarrow> int option" where
  "seen_policy seen sid url i =
     (case find (\<lambda>r. aq_series r = Some sid \<and> aq_url r = Some url) seen of
        None \<Rightarrow> None
      | Some r \<Rightarrow> if same_identity r i then policy_value (sn_policy r) else None)"

definition acquisition_policy ::
  "seen_claim list \<Rightarrow> grab_history list \<Rightarrow> int \<Rightarrow> string \<Rightarrow> download_identity \<Rightarrow> int option" where
  "acquisition_policy seen history sid url i =
     (if url = [] then None
      else case seen_policy seen sid url i of
        Some p \<Rightarrow> Some p
      | None \<Rightarrow>
          (case collect_evidence i
                  (filter (\<lambda>r. aq_series r = Some sid \<and> aq_url r = Some url \<and> gh_event r = ''grabbed'') history) [] of
             Some [b] \<Rightarrow> Some (if b then 1 else 0)
           | _ \<Rightarrow> None))"

subsection \<open>The rejection log\<close>

type_synonym rejection_key = "int \<times> string \<times> string"

record rejection_log =
  rl_last :: "(rejection_key \<times> rat) list"
  rl_events :: "(string \<times> string \<times> int) list"

definition rejection_log_ttl :: rat where
  "rejection_log_ttl = 3600"

definition rejection_log_prune_every :: nat where
  "rejection_log_prune_every = 10"

definition prune_rejection_log :: "rat \<Rightarrow> (rejection_key \<times> rat) list \<Rightarrow> (rejection_key \<times> rat) list" where
  "prune_rejection_log now entries = filter (\<lambda>(_, t). \<not> t < now - rejection_log_ttl) entries"

fun dict_set :: "'k \<Rightarrow> 'v \<Rightarrow> ('k \<times> 'v) list \<Rightarrow> ('k \<times> 'v) list" where
  "dict_set k v [] = [(k, v)]"
| "dict_set k v ((k', v') # d) = (if k' = k then (k, v) # d else (k', v') # dict_set k v d)"

text \<open>\<open>later\<close> is the second reading of the clock, in \<open>_prune_rejection_log\<close>.\<close>

definition log_grab_rejection ::
  "rat \<Rightarrow> rat \<Rightarrow> int \<Rightarrow> string \<Rightarrow> string \<Rightarrow> rejection_log \<Rightarrow> rejection_log" where
  "log_grab_rejection now later sid title reason st =
     (let key = (sid, take 120 title, take 80 reason)
      in if (case map_of (rl_last st) key of None \<Rightarrow> False | Some t \<Rightarrow> now - t < rejection_log_ttl) then st
         else
           let last1 = dict_set key now (rl_last st);
               last2 = (if length last1 > rejection_log_prune_every * 2
                        then prune_rejection_log later last1 else last1)
           in st\<lparr>rl_last := last2,
                 rl_events := rl_events st @ [(''rejected_release'', reason @ '': '' @ take 120 title, sid)]\<rparr>)"


subsection \<open>Import kinds: properties\<close>

lemma kind_name_inject [simp]: "kind_name a = kind_name b \<longleftrightarrow> a = b"
  by (cases a; cases b) (simp_all add: kind_name_def)

lemma kind_in_valid [simp]: "k \<in> set valid_import_kinds"
  by (cases k) (simp_all add: valid_import_kinds_def)

lemma kind_name_canonical: "py_lower (py_strip (kind_name k)) = kind_name k"
proof -
  have "list_all (\<lambda>k. py_lower (py_strip (kind_name k)) = kind_name k) valid_import_kinds"
    by code_simp
  then show ?thesis by (simp add: list_all_iff)
qed

lemma find_kind: "find (\<lambda>k. kind_name k = kind_name a) valid_import_kinds = Some a"
  by (cases a) (simp_all add: valid_import_kinds_def)

lemma normalize_stored [simp]: "normalize_import_kind (Some (kind_name k)) f = k"
  unfolding normalize_import_kind_def Let_def option.case kind_name_canonical find_kind ..

lemma infer_not_skip [simp]: "infer_import_kind f \<noteq> KSkip"
  by (simp add: infer_import_kind_def)

text \<open>
  A kind written back to the row is read as the same kind whatever the legacy columns say
  then, so normalising is durable; rows are skipped only when the stored value says skip, never
  by inference; and a value that is none of the six names yields the inferred kind.\<close>

theorem import_kind_durable:
  "normalize_import_kind (Some (kind_name (normalize_import_kind v f))) g = normalize_import_kind v f
   \<and> (normalize_import_kind v f = KSkip \<longleftrightarrow> py_lower (py_strip (case v of Some s \<Rightarrow> s | None \<Rightarrow> [])) = ''skip'')
   \<and> (normalize_import_kind v f =
        (if py_lower (py_strip (case v of Some s \<Rightarrow> s | None \<Rightarrow> [])) \<in> set (map kind_name valid_import_kinds)
         then the (find (\<lambda>k. kind_name k = py_lower (py_strip (case v of Some s \<Rightarrow> s | None \<Rightarrow> []))) valid_import_kinds)
         else infer_import_kind f))"
proof -
  let ?n = "py_lower (py_strip (case v of Some s \<Rightarrow> s | None \<Rightarrow> []))"
  have skip: "''skip'' = kind_name KSkip" by (simp add: kind_name_def)
  have eq: "normalize_import_kind v f = (if ?n \<in> set (map kind_name valid_import_kinds)
      then the (find (\<lambda>k. kind_name k = ?n) valid_import_kinds) else infer_import_kind f)"
  proof (cases "?n \<in> set (map kind_name valid_import_kinds)")
    case True
    then obtain k where k: "?n = kind_name k" by auto
    then have "find (\<lambda>k. kind_name k = ?n) valid_import_kinds = Some k" using find_kind by metis
    with True show ?thesis unfolding normalize_import_kind_def Let_def by simp
  next
    case False
    then have "kind_name k \<noteq> ?n" for k by (metis image_eqI kind_in_valid set_map)
    then have "find (\<lambda>k. kind_name k = ?n) valid_import_kinds = None"
      by (simp add: find_None_iff)
    with False show ?thesis unfolding normalize_import_kind_def Let_def by simp
  qed
  have "normalize_import_kind v f = KSkip \<longleftrightarrow> ?n = ''skip''"
  proof (cases "?n \<in> set (map kind_name valid_import_kinds)")
    case True
    then obtain k where k: "?n = kind_name k" by auto
    then have "find (\<lambda>k. kind_name k = ?n) valid_import_kinds = Some k" using find_kind by metis
    with True eq have "normalize_import_kind v f = k" by simp
    then show ?thesis unfolding k skip kind_name_inject by simp
  next
    case False
    have "kind_name KSkip \<in> set (map kind_name valid_import_kinds)" by (simp add: valid_import_kinds_def)
    with False have "?n \<noteq> ''skip''" unfolding skip by metis
    with False eq show ?thesis by simp
  qed
  with eq show ?thesis by simp
qed

subsection \<open>Acquisition policy: properties\<close>

definition matching_evidence :: "download_identity \<Rightarrow> grab_history list \<Rightarrow> bool option list" where
  "matching_evidence i rows = map (\<lambda>r. row_evidence (gh_data r)) (filter (\<lambda>r. same_identity r i) rows)"

lemma collect_evidence_spec:
  "distinct acc \<Longrightarrow>
   (case collect_evidence i rows acc of
      None \<Rightarrow> None \<in> set (matching_evidence i rows)
    | Some r \<Rightarrow> None \<notin> set (matching_evidence i rows) \<and> distinct r
        \<and> Some ` set r = Some ` set acc \<union> set (matching_evidence i rows))"
proof (induction rows arbitrary: acc)
  case Nil
  then show ?case by (simp add: matching_evidence_def)
next
  case (Cons row rows)
  show ?case
  proof (cases "same_identity row i")
    case False
    then have m: "matching_evidence i (row # rows) = matching_evidence i rows"
      and c: "collect_evidence i (row # rows) acc = collect_evidence i rows acc"
      by (simp_all add: matching_evidence_def)
    show ?thesis unfolding m c by (rule Cons.IH [OF Cons.prems])
  next
    case True
    show ?thesis
    proof (cases "row_evidence (gh_data row)")
      case None
      with True show ?thesis by (simp add: matching_evidence_def)
    next
      case (Some b)
      have "distinct (List.insert b acc)" using Cons.prems by simp
      from Cons.IH [OF this] True Some show ?thesis
        by (cases "collect_evidence i rows (List.insert b acc)") (auto simp: matching_evidence_def)
    qed
  qed
qed

lemma set_singleton_iff: "set xs = {a} \<longleftrightarrow> xs \<noteq> [] \<and> list_all (\<lambda>e. e = a) xs"
  by (cases xs) (auto simp: list_all_iff)

lemma distinct_singleton_set: "distinct r \<Longrightarrow> set r = {b} \<longleftrightarrow> r = [b]"
proof (cases r)
  case (Cons x r')
  then show "distinct r \<Longrightarrow> ?thesis" by (cases r') auto
qed simp

lemma collect_evidence_single:
  "collect_evidence i rows [] = Some [b] \<longleftrightarrow>
     matching_evidence i rows \<noteq> [] \<and> list_all (\<lambda>e. e = Some b) (matching_evidence i rows)"
proof (cases "collect_evidence i rows []")
  case None
  with collect_evidence_spec [of "[]" i rows] show ?thesis by (auto simp: list_all_iff)
next
  case (Some r)
  with collect_evidence_spec [of "[]" i rows] have r: "distinct r" "Some ` set r = set (matching_evidence i rows)"
    by auto
  have "collect_evidence i rows [] = Some [b] \<longleftrightarrow> set r = {b}" using Some r(1) by (simp add: distinct_singleton_set)
  also have "\<dots> \<longleftrightarrow> Some ` set r = {Some b}" using inj_image_eq_iff [of Some "set r" "{b}"] by simp
  also have "\<dots> \<longleftrightarrow> matching_evidence i rows \<noteq> [] \<and> list_all (\<lambda>e. e = Some b) (matching_evidence i rows)"
    unfolding r(2) by (rule set_singleton_iff)
  finally show ?thesis .
qed

text \<open>What a row has to say for itself, read off its columns: which download it names, and what a
  history row states.\<close>

definition names_download :: "('a) acquisition_row_scheme \<Rightarrow> download_identity \<Rightarrow> bool" where
  "names_download r i \<longleftrightarrow> aq_client r = download_client_id i \<and> normalize_download_protocol (text_value (aq_protocol r)) = protocol i
     \<and> (protocol i = None \<longrightarrow> aq_protocol r = None \<or> aq_protocol r = Some [])
     \<and> (\<exists>did. aq_download_id r = Some did \<and> did \<noteq> [] \<and> download_id i \<noteq> []
          \<and> (if protocol i = None then did = download_id i
             else normalize_download_id did (protocol i) = normalize_download_id (download_id i) (protocol i)))"

definition history_states :: "grab_history \<Rightarrow> bool \<Rightarrow> bool" where
  "history_states r b \<longleftrightarrow> (\<exists>kvs. gh_data r = JsonParsed (JObj kvs) \<and> unique_pairs (JObj kvs)
     \<and> (if (''claim_lost'', JBool True) \<in> set kvs then b else (''respect_monitoring'', JBool b) \<in> set kvs))"

definition unanimous_history :: "grab_history list \<Rightarrow> int \<Rightarrow> string \<Rightarrow> download_identity \<Rightarrow> bool \<Rightarrow> bool" where
  "unanimous_history history sid url i b \<longleftrightarrow>
     (let rows = filter (\<lambda>r. aq_series r = Some sid \<and> aq_url r = Some url \<and> gh_event r = ''grabbed'' \<and> names_download r i) history
      in rows \<noteq> [] \<and> list_all (\<lambda>r. history_states r b) rows)"

lemma same_identity_names: "same_identity r i = names_download r i"
proof (cases "aq_client r = download_client_id i \<and> normalize_download_protocol (text_value (aq_protocol r)) = protocol i")
  case True
  then show ?thesis
    by (cases "aq_download_id r"; cases "aq_protocol r")
       (auto simp: same_identity_def names_download_def Let_def)
qed (auto simp: same_identity_def names_download_def Let_def)

lemma row_evidence_states: "row_evidence (gh_data r) = Some b \<longleftrightarrow> history_states r b"
proof (cases "\<exists>kvs. gh_data r = JsonParsed (JObj kvs) \<and> unique_pairs (JObj kvs)")
  case True
  then obtain kvs where kvs: "gh_data r = JsonParsed (JObj kvs)" "unique_pairs (JObj kvs)" by blast
  then have member: "(k, v) \<in> set kvs \<longleftrightarrow> map_of kvs k = Some v" for k v by (simp add: map_of_eq_Some_iff)
  have "history_states r b \<longleftrightarrow> (if (''claim_lost'', JBool True) \<in> set kvs then b else (''respect_monitoring'', JBool b) \<in> set kvs)"
    using kvs by (auto simp: history_states_def simp del: unique_pairs.simps)
  then show ?thesis unfolding member
    using kvs by (auto simp: row_evidence_def simp del: map_of_eq_Some_iff unique_pairs.simps split: option.splits json.splits)
next
  case False
  then show ?thesis
    by (auto simp: row_evidence_def history_states_def split: json_column.splits json.splits if_splits)
qed

text \<open>
  C8: The acquisition policy is never guessed. It is p, automatic or manual, exactly when the URL is
  known and either the seen row of that URL names this very download and stores p, or that row says
  nothing and the history does: some grab of the URL by this download is recorded and every such
  record states p, by an object without repeated fields that holds a lost claim or, without one, the
  monitoring flag. A row without a statement, with malformed data or of another download leaves the
  policy unknown.
\<close>

theorem acquisition_policy_never_guessed:
  "acquisition_policy seen history sid url i = Some p \<longleftrightarrow>
     url \<noteq> [] \<and> p \<in> {0, 1}
     \<and> (case find (\<lambda>r. aq_series r = Some sid \<and> aq_url r = Some url) seen of
          None \<Rightarrow> unanimous_history history sid url i (p = 1)
        | Some r \<Rightarrow> if names_download r i \<and> sn_policy r \<in> {PyInt 0, PyInt 1} then sn_policy r = PyInt p
            else unanimous_history history sid url i (p = 1))"
proof -
  let ?rows = "filter (\<lambda>r. aq_series r = Some sid \<and> aq_url r = Some url \<and> gh_event r = ''grabbed'') history"
  have unanimous: "collect_evidence i ?rows [] = Some [b] \<longleftrightarrow> unanimous_history history sid url i b" for b
    unfolding collect_evidence_single unanimous_history_def matching_evidence_def
    by (auto simp: list_all_iff Let_def same_identity_names row_evidence_states filter_empty_conv)
  have "(case collect_evidence i ?rows [] of Some [b] \<Rightarrow> Some (if b then 1 else 0) | _ \<Rightarrow> None) = Some p
      \<longleftrightarrow> (p \<in> {0, 1} \<and> collect_evidence i ?rows [] = Some [p = 1])"
    by (auto split: option.splits list.splits if_splits)
  note history = this [unfolded unanimous]
  have stored: "policy_value v = Some q \<longleftrightarrow> v \<in> {PyInt 0, PyInt 1} \<and> v = PyInt q" for v q
    by (auto simp: policy_value_def split: py_value.splits if_splits)
  then have unstored: "policy_value v = None \<longleftrightarrow> v \<notin> {PyInt 0, PyInt 1}" for v
    by (auto simp: policy_value_def split: py_value.splits)
  show ?thesis
  proof (cases "find (\<lambda>r. aq_series r = Some sid \<and> aq_url r = Some url) seen")
    case None
    then show ?thesis using history by (auto simp: acquisition_policy_def seen_policy_def)
  next
    case (Some r)
    show ?thesis
    proof (cases "names_download r i \<and> sn_policy r \<in> {PyInt 0, PyInt 1}")
      case True
      then obtain q where "sn_policy r = PyInt q" "q = 0 \<or> q = 1" by auto
      with True Some show ?thesis
        by (auto simp: acquisition_policy_def seen_policy_def same_identity_names policy_value_def)
    next
      case False
      then have "seen_policy seen sid url i = None"
        using Some by (auto simp: seen_policy_def same_identity_names unstored)
      then show ?thesis using Some False history by (auto simp: acquisition_policy_def)
    qed
  qed
qed

subsection \<open>The rejection log: properties\<close>

record rejection =
  rj_now :: rat
  rj_later :: rat
  rj_series :: int
  rj_title :: string
  rj_reason :: string

definition rejection_key_of :: "rejection \<Rightarrow> rejection_key" where
  "rejection_key_of r = (rj_series r, take 120 (rj_title r), take 80 (rj_reason r))"

definition log_one :: "rejection \<Rightarrow> rejection_log \<Rightarrow> rejection_log" where
  "log_one r = log_grab_rejection (rj_now r) (rj_later r) (rj_series r) (rj_title r) (rj_reason r)"

text \<open>The rejections that append an event, with their time and key.\<close>

fun emissions :: "rejection list \<Rightarrow> rejection_log \<Rightarrow> (rat \<times> rejection_key) list" where
  "emissions [] st = []"
| "emissions (r # rs) st =
     (if rl_events (log_one r st) = rl_events st then [] else [(rj_now r, rejection_key_of r)])
     @ emissions rs (log_one r st)"

fun clock_monotone :: "rat \<Rightarrow> rejection list \<Rightarrow> bool" where
  "clock_monotone t [] \<longleftrightarrow> True"
| "clock_monotone t (r # rs) \<longleftrightarrow> t \<le> rj_now r \<and> rj_now r \<le> rj_later r \<and> clock_monotone (rj_later r) rs"

lemma map_of_dict_set [simp]: "map_of (dict_set k v d) = (map_of d)(k \<mapsto> v)"
  by (induction k v d rule: dict_set.induct) auto

lemma dict_set_keys [simp]: "set (map fst (dict_set k v d)) = insert k (set (map fst d))"
  by (induction k v d rule: dict_set.induct) auto

lemma distinct_dict_set [simp]: "distinct (map fst d) \<Longrightarrow> distinct (map fst (dict_set k v d))"
proof (induction k v d rule: dict_set.induct)
  case (2 k v k' v' d)
  have "fst ` set (dict_set k v d) = insert k (fst ` set d)" using dict_set_keys [of k v d] by simp
  with 2 show ?case by auto
qed simp

lemma map_of_filter_value:
  "distinct (map fst d) \<Longrightarrow> map_of (filter (\<lambda>(_, t). P t) d) k = Option.bind (map_of d k) (\<lambda>t. if P t then Some t else None)"
  by (induction d) (auto simp: map_of_eq_None_iff rev_image_eqI split: option.splits bind_splits)

definition log_inv :: "rat \<Rightarrow> (rat \<times> rejection_key) list \<Rightarrow> rejection_log \<Rightarrow> bool" where
  "log_inv clock es st \<longleftrightarrow> distinct (map fst (rl_last st))
     \<and> (\<forall>(t, k) \<in> set es. t \<le> clock
          \<and> (clock - t < rejection_log_ttl \<longrightarrow> (\<exists>t'. map_of (rl_last st) k = Some t' \<and> t \<le> t')))
     \<and> (\<forall>k t. map_of (rl_last st) k = Some t \<longrightarrow> (t, k) \<in> set es)"

lemma log_inv_source: "log_inv clock es st \<Longrightarrow> map_of (rl_last st) k = Some t \<Longrightarrow> (t, k) \<in> set es"
  unfolding log_inv_def by blast

lemma log_inv_clock: "log_inv clock es st \<Longrightarrow> (t, k) \<in> set es \<Longrightarrow> t \<le> clock"
  unfolding log_inv_def by blast

definition suppressed :: "rejection \<Rightarrow> rejection_log \<Rightarrow> bool" where
  "suppressed r st \<longleftrightarrow>
     (case map_of (rl_last st) (rejection_key_of r) of None \<Rightarrow> False | Some t \<Rightarrow> rj_now r - t < rejection_log_ttl)"

lemma log_one_suppressed: "suppressed r st \<Longrightarrow> log_one r st = st"
  by (simp add: suppressed_def log_one_def log_grab_rejection_def rejection_key_of_def Let_def)

lemma log_one_emits:
  assumes "\<not> suppressed r st"
  shows "rl_events (log_one r st) \<noteq> rl_events st"
    "rl_last (log_one r st) = dict_set (rejection_key_of r) (rj_now r) (rl_last st)
     \<or> rl_last (log_one r st) = prune_rejection_log (rj_later r) (dict_set (rejection_key_of r) (rj_now r) (rl_last st))"
  using assms by (simp_all add: suppressed_def log_one_def log_grab_rejection_def rejection_key_of_def Let_def)

lemma log_inv_suppressed:
  assumes "log_inv clock es st" "clock \<le> now"
  shows "log_inv now es st"
  using assms by (fastforce simp: log_inv_def)

lemma log_inv_emit:
  assumes "log_inv clock es st" "clock \<le> rj_now r" "rj_now r \<le> rj_later r" "\<not> suppressed r st"
  shows "log_inv (rj_later r) (es @ [(rj_now r, rejection_key_of r)]) (log_one r st)"
    "\<And>t. (t, rejection_key_of r) \<in> set es \<Longrightarrow> rejection_log_ttl \<le> rj_now r - t"
proof -
  let ?k = "rejection_key_of r"
  show sep: "rejection_log_ttl \<le> rj_now r - t" if "(t, ?k) \<in> set es" for t
  proof (rule ccontr)
    assume "\<not> ?thesis"
    then have a: "rj_now r - t < rejection_log_ttl" by simp
    then have "clock - t < rejection_log_ttl" using assms(2) by simp
    with that assms(1) obtain t' where t': "map_of (rl_last st) ?k = Some t'" "t \<le> t'"
      by (auto simp: log_inv_def)
    with a have "rj_now r - t' < rejection_log_ttl" by simp
    with t' assms(4) show False by (simp add: suppressed_def)
  qed
  let ?d = "dict_set ?k (rj_now r) (rl_last st)"
  have d: "distinct (map fst ?d)" using assms(1) by (simp add: log_inv_def)
  have inv: "t \<le> rj_later r \<and> (rj_later r - t < rejection_log_ttl \<longrightarrow> (\<exists>t'. map_of ?d k = Some t' \<and> t \<le> t'))"
    if "(t, k) \<in> set (es @ [(rj_now r, ?k)])" for t k
  proof (cases "k = ?k")
    case True
    with that assms show ?thesis by (auto simp: log_inv_def)
  next
    case False
    with that have m: "(t, k) \<in> set es" by auto
    with assms(1) have "t \<le> clock"
      "clock - t < rejection_log_ttl \<longrightarrow> (\<exists>t'. map_of (rl_last st) k = Some t' \<and> t \<le> t')"
      by (auto simp: log_inv_def)
    with False assms(2,3) show ?thesis by auto
  qed
  have src: "(t, k) \<in> set (es @ [(rj_now r, ?k)])" if "map_of ?d k = Some t" for t k
    using that log_inv_source [OF assms(1), of k t] by (auto split: if_splits)
  have pruned: "map_of (prune_rejection_log (rj_later r) ?d) k
      = Option.bind (map_of ?d k) (\<lambda>t. if \<not> t < rj_later r - rejection_log_ttl then Some t else None)" for k
    unfolding prune_rejection_log_def using map_of_filter_value [OF d, of "\<lambda>t. \<not> t < rj_later r - rejection_log_ttl" k] by simp
  have dp: "distinct (map fst (prune_rejection_log (rj_later r) ?d))"
    unfolding prune_rejection_log_def using d by (rule distinct_map_filter)
  from log_one_emits(2) [OF assms(4)]
  show "log_inv (rj_later r) (es @ [(rj_now r, ?k)]) (log_one r st)"
  proof
    assume e: "rl_last (log_one r st) = ?d"
    show ?thesis unfolding log_inv_def e using d inv src by blast
  next
    assume e: "rl_last (log_one r st) = prune_rejection_log (rj_later r) ?d"
    have "\<exists>t'. map_of (prune_rejection_log (rj_later r) ?d) k = Some t' \<and> t \<le> t'"
      if "(t, k) \<in> set (es @ [(rj_now r, ?k)])" "rj_later r - t < rejection_log_ttl" for t k
    proof -
      from inv [OF that(1)] that(2) obtain t' where t': "map_of ?d k = Some t'" "t \<le> t'" by blast
      then have "\<not> t' < rj_later r - rejection_log_ttl" using that(2) by simp
      with t' show ?thesis unfolding pruned by simp
    qed
    moreover have "(t, k) \<in> set (es @ [(rj_now r, ?k)])"
      if "map_of (prune_rejection_log (rj_later r) ?d) k = Some t" for t k
      using that src unfolding pruned by (cases "map_of ?d k") (auto split: if_splits)
    ultimately show ?thesis unfolding log_inv_def e using dp inv by blast
  qed
qed

lemma emissions_run:
  "log_inv clock es st \<Longrightarrow> clock_monotone clock rs
    \<Longrightarrow> sorted_wrt (\<lambda>(t, k) (t', k'). k = k' \<longrightarrow> rejection_log_ttl \<le> t' - t) es
    \<Longrightarrow> sorted_wrt (\<lambda>(t, k) (t', k'). k = k' \<longrightarrow> rejection_log_ttl \<le> t' - t) (es @ emissions rs st)
      \<and> list_all (\<lambda>r. list_ex (\<lambda>(t, k). k = rejection_key_of r \<and> t \<le> rj_now r \<and> rj_now r - t < rejection_log_ttl)
           (es @ emissions rs st)) rs"
proof (induction rs arbitrary: clock es st)
  case Nil
  then show ?case by simp
next
  case (Cons r rs)
  have mono: "clock \<le> rj_now r" "rj_now r \<le> rj_later r" "clock_monotone (rj_later r) rs"
    using Cons.prems(2) by simp_all
  show ?case
  proof (cases "suppressed r st")
    case True
    then have eq: "emissions (r # rs) st = emissions rs st" by (simp add: log_one_suppressed)
    have inv: "log_inv (rj_later r) es st"
      using log_inv_suppressed [OF Cons.prems(1), of "rj_later r"] mono by simp
    from True obtain t where t: "map_of (rl_last st) (rejection_key_of r) = Some t" "rj_now r - t < rejection_log_ttl"
      by (auto simp: suppressed_def split: option.splits)
    then have m: "(t, rejection_key_of r) \<in> set es" using log_inv_source [OF Cons.prems(1)] by blast
    then have "t \<le> clock" by (rule log_inv_clock [OF Cons.prems(1)])
    with m t(2) mono(1) have "list_ex (\<lambda>(t, k). k = rejection_key_of r \<and> t \<le> rj_now r
        \<and> rj_now r - t < rejection_log_ttl) (es @ emissions rs st)"
      unfolding list_ex_iff by (intro bexI [of _ "(t, rejection_key_of r)"]) auto
    with Cons.IH [OF inv mono(3) Cons.prems(3)] show ?thesis unfolding eq by simp
  next
    case False
    then have eq: "es @ emissions (r # rs) st
        = (es @ [(rj_now r, rejection_key_of r)]) @ emissions rs (log_one r st)"
      by (simp add: log_one_emits(1))
    note inv = log_inv_emit [OF Cons.prems(1) mono(1,2) False]
    have "sorted_wrt (\<lambda>(t, k) (t', k'). k = k' \<longrightarrow> rejection_log_ttl \<le> t' - t) (es @ [(rj_now r, rejection_key_of r)])"
      using Cons.prems(3) inv(2) by (auto simp: sorted_wrt_append)
    note ih = Cons.IH [OF inv(1) mono(3) this]
    have "list_ex (\<lambda>(t, k). k = rejection_key_of r \<and> t \<le> rj_now r \<and> rj_now r - t < rejection_log_ttl)
        ((es @ [(rj_now r, rejection_key_of r)]) @ emissions rs (log_one r st))"
      by (simp add: rejection_log_ttl_def)
    with ih show ?thesis unfolding eq by simp
  qed
qed

definition no_rejections :: rejection_log where
  "no_rejections = \<lparr>rl_last = [], rl_events = []\<rparr>"

text \<open>
  Rejection events are rate limited without losing any rejection: under a monotone clock two
  events of one (series, title, reason) key are at least an hour apart, pruning included, and
  every rejection has an event of its key less than an hour old.\<close>

theorem rejection_log_rate_limited:
  assumes "clock_monotone t0 calls"
  shows "sorted_wrt (\<lambda>(t, k) (t', k'). k = k' \<longrightarrow> rejection_log_ttl \<le> t' - t) (emissions calls no_rejections)
    \<and> list_all (\<lambda>r. list_ex (\<lambda>(t, k). k = rejection_key_of r \<and> t \<le> rj_now r \<and> rj_now r - t < rejection_log_ttl)
         (emissions calls no_rejections)) calls"
proof -
  have "log_inv t0 [] no_rejections" by (simp add: log_inv_def no_rejections_def)
  from emissions_run [OF this assms] show ?thesis by simp
qed

definition demo_rejections :: "rejection list" where
  "demo_rejections = map (\<lambda>(t, s). \<lparr>rj_now = t, rj_later = t, rj_series = s, rj_title = ''Demo v1'',
     rj_reason = ''blocklisted''\<rparr>) [(0, 1), (10, 1), (20, 2), (3599, 1), (3600, 1), (3700, 2)]"

theorem rejection_log_rate_limited_witness:
  "map fst (emissions demo_rejections no_rejections) = [0, 20, 3600, 3700]
   \<and> sorted_wrt (\<lambda>(t, k) (t', k'). k = k' \<longrightarrow> rejection_log_ttl \<le> t' - t) (emissions demo_rejections no_rejections)"
proof -
  have "clock_monotone 0 demo_rejections" by (simp add: demo_rejections_def)
  from rejection_log_rate_limited [OF this]
  have "sorted_wrt (\<lambda>(t, k) (t', k'). k = k' \<longrightarrow> rejection_log_ttl \<le> t' - t) (emissions demo_rejections no_rejections)" ..
  moreover have "map fst (emissions demo_rejections no_rejections) = [0, 20, 3600, 3700]" by code_simp
  ultimately show ?thesis by simp
qed

end
