(* ===== verification/Metadata_State.thy ===== *)
theory Metadata_State
  imports Py_Number "HOL-Library.Char_ord" "HOL-Library.List_Lexorder" "HOL-Library.Product_Lexorder"
begin

text \<open>
  \<^verbatim>\<open>src/app/metadata_state.py\<close>: persistent state of metadata refreshes, with the startup
  recovery of \<^verbatim>\<open>schema.py\<close>. The clock \<open>now\<close> is in microseconds of UTC, as
  \<open>datetime.isoformat\<close> writes it; SQLite's \<open>datetime\<close> reads such a text in milliseconds and
  prints seconds. A stored text that is no date is \<open>Garbled\<close>. Whether the cached cover file
  is valid is an argument; an exception that leaves an operation is \<open>Inl\<close> and changes nothing.
\<close>

datatype stamp = At int | Garbled

datatype meta_status = MsPending | MsRefreshing | MsHealthy | MsDegraded | MsFailed

record meta_series =
  ms_id :: int
  ms_monitored :: bool
  ms_deleted :: bool
  ms_strategy :: "string option"
  ms_status :: "meta_status option"
  ms_last_attempt :: "int option"
  ms_last_refresh :: "stamp option"
  ms_error :: "string option"
  ms_anilist :: "int option"
  ms_mangadex :: "string option"
  ms_description :: "string option"
  ms_cover_url :: "string option"
  ms_map :: "string option"

record source_row =
  sr_series :: int
  sr_source :: string
  sr_status :: meta_status
  sr_last_attempt :: "int option"
  sr_last_success :: "int option"
  sr_next_retry :: "stamp option"
  sr_failures :: nat
  sr_error :: "string option"
  sr_details :: json_column

record meta_db =
  meta_series :: "meta_series list"
  sources :: "source_row list"

definition find_meta_series :: "meta_db \<Rightarrow> int \<Rightarrow> meta_series option" where
  "find_meta_series db sid = find (\<lambda>s. ms_id s = sid) (meta_series db)"

definition source_key :: "source_row \<Rightarrow> int \<times> string" where
  "source_key r = (sr_series r, sr_source r)"

definition find_source :: "meta_db \<Rightarrow> int \<Rightarrow> string \<Rightarrow> source_row option" where
  "find_source db sid src = find (\<lambda>r. source_key r = (sid, src)) (sources db)"

definition update_meta :: "int \<Rightarrow> (meta_series \<Rightarrow> meta_series) \<Rightarrow> meta_db \<Rightarrow> meta_db" where
  "update_meta sid f db = db\<lparr>meta_series := fst (sql_update (\<lambda>s. ms_id s = sid) f (meta_series db))\<rparr>"

text \<open>\<open>INSERT ... ON CONFLICT(series_id, source) DO UPDATE\<close>; the foreign key is checked.\<close>

definition upsert_source ::
  "source_row \<Rightarrow> (source_row \<Rightarrow> source_row) \<Rightarrow> meta_db \<Rightarrow> py_exn + meta_db" where
  "upsert_source row f db =
     (if find_source db (sr_series row) (sr_source row) \<noteq> None then
        Inr (db\<lparr>sources := fst (sql_update
          (\<lambda>r. source_key r = source_key row) f (sources db))\<rparr>)
      else if find_meta_series db (sr_series row) = None then Inl IntegrityError
      else Inr (db\<lparr>sources := sources db @ [row]\<rparr>))"

subsection \<open>Transitions\<close>

definition mark_series_attempt :: "int \<Rightarrow> int \<Rightarrow> meta_db \<Rightarrow> meta_db" where
  "mark_series_attempt now sid = update_meta sid
     (\<lambda>s. s\<lparr>ms_status := Some MsRefreshing, ms_last_attempt := Some now, ms_error := None\<rparr>)"

definition finish_series_refresh ::
  "int \<Rightarrow> int \<Rightarrow> meta_status \<Rightarrow> string option \<Rightarrow> bool \<Rightarrow> meta_db \<Rightarrow> py_exn + meta_db" where
  "finish_series_refresh now sid status err successful db =
     (if status \<notin> {MsHealthy, MsDegraded, MsFailed} then Inl ValueError
      else if successful then
        Inr (update_meta sid (\<lambda>s. s\<lparr>ms_status := Some status, ms_error := err, ms_last_refresh := Some (At now)\<rparr>) db)
      else Inr (update_meta sid (\<lambda>s. s\<lparr>ms_status := Some status, ms_error := err\<rparr>) db))"

definition new_source :: "int \<Rightarrow> string \<Rightarrow> meta_status \<Rightarrow> int \<Rightarrow> source_row" where
  "new_source sid src status now = \<lparr>sr_series = sid, sr_source = src, sr_status = status,
     sr_last_attempt = Some now, sr_last_success = None, sr_next_retry = None, sr_failures = 0,
     sr_error = None, sr_details = JsonEmpty\<rparr>"

definition mark_source_attempt :: "int \<Rightarrow> int \<Rightarrow> string \<Rightarrow> meta_db \<Rightarrow> py_exn + meta_db" where
  "mark_source_attempt now sid src =
     upsert_source (new_source sid src MsRefreshing now)
       (\<lambda>r. r\<lparr>sr_status := MsRefreshing, sr_last_attempt := Some now, sr_error := None\<rparr>)"

definition details_column :: "json option \<Rightarrow> json_column" where
  "details_column details = (case details of None \<Rightarrow> JsonEmpty | Some j \<Rightarrow> JsonParsed j)"

definition mark_source_success ::
  "int \<Rightarrow> int \<Rightarrow> string \<Rightarrow> json option \<Rightarrow> bool \<Rightarrow> string option \<Rightarrow> meta_db \<Rightarrow> py_exn + meta_db" where
  "mark_source_success now sid src details degraded err =
     (let status = (if degraded then MsDegraded else MsHealthy)
      in upsert_source
           ((new_source sid src status now)\<lparr>sr_last_success := Some now, sr_error := err, sr_details := details_column details\<rparr>)
           (\<lambda>r. r\<lparr>sr_status := status, sr_last_attempt := Some now, sr_last_success := Some now,
                  sr_next_retry := None, sr_failures := 0, sr_error := err, sr_details := details_column details\<rparr>))"

definition retry_minutes :: "nat \<Rightarrow> nat" where
  "retry_minutes failures = min (24 * 60) (5 * 2 ^ min (failures - 1) 8)"

definition minute_us :: int where
  "minute_us = 60000000"

definition failure_count :: "source_row option \<Rightarrow> nat" where
  "failure_count row = (case row of None \<Rightarrow> 0 | Some r \<Rightarrow> sr_failures r)"

definition failure_status :: "bool \<Rightarrow> source_row option \<Rightarrow> meta_status" where
  "failure_status has_usable_cache row =
     (if has_usable_cache \<or> (case row of None \<Rightarrow> False | Some r \<Rightarrow> sr_last_success r \<noteq> None)
      then MsDegraded else MsFailed)"

definition mark_source_failure ::
  "int \<Rightarrow> int \<Rightarrow> string \<Rightarrow> string \<Rightarrow> json option \<Rightarrow> bool \<Rightarrow> meta_db \<Rightarrow> py_exn + meta_db" where
  "mark_source_failure now sid src err details has_usable_cache db =
     (let row = find_source db sid src;
          failures = failure_count row + 1;
          retry_at = now + minute_us * int (retry_minutes failures);
          status = failure_status has_usable_cache row
      in upsert_source
           ((new_source sid src status now)\<lparr>sr_next_retry := Some (At retry_at), sr_failures := failures,
              sr_error := Some (take 500 err), sr_details := details_column details\<rparr>)
           (\<lambda>r. r\<lparr>sr_status := status, sr_last_attempt := Some now, sr_next_retry := Some (At retry_at),
                  sr_failures := failures, sr_error := Some (take 500 err),
                  sr_details := (case details of None \<Rightarrow> sr_details r | Some j \<Rightarrow> JsonParsed j)\<rparr>) db)"

text \<open>At startup no refresh is running: what was refreshing was interrupted.\<close>

definition recover_interrupted :: "meta_db \<Rightarrow> meta_db" where
  "recover_interrupted db = db\<lparr>
     meta_series := fst (sql_update (\<lambda>s. ms_status s = Some MsRefreshing)
       (\<lambda>s. s\<lparr>ms_status := Some (if ms_last_refresh s = None then MsPending else MsDegraded),
              ms_error := Some ''previous metadata refresh was interrupted''\<rparr>) (meta_series db)),
     sources := fst (sql_update (\<lambda>r. sr_status r = MsRefreshing)
       (\<lambda>r. r\<lparr>sr_status := (if sr_last_success r = None then MsPending else MsDegraded),
              sr_error := Some ''previous provider refresh was interrupted''\<rparr>) (sources db))\<rparr>"

subsection \<open>Due work\<close>

definition source_retry_due :: "int \<Rightarrow> int \<Rightarrow> string \<Rightarrow> meta_db \<Rightarrow> bool" where
  "source_retry_due now sid src db =
     (case find_source db sid src of
        None \<Rightarrow> True
      | Some r \<Rightarrow> (case sr_next_retry r of None \<Rightarrow> True | Some Garbled \<Rightarrow> True | Some (At t) \<Rightarrow> t \<le> now))"

definition sql_seconds :: "stamp \<Rightarrow> int option" where
  "sql_seconds t = (case t of Garbled \<Rightarrow> None | At us \<Rightarrow> Some ((us + 500) div 1000 div 1000))"

definition now_seconds :: "int \<Rightarrow> int" where
  "now_seconds now = now div 1000 div 1000"

definition automatic_strategy :: "int \<Rightarrow> meta_series \<Rightarrow> bool" where
  "automatic_strategy now s =
     (let strategy = (case ms_strategy s of None \<Rightarrow> ''always'' | Some x \<Rightarrow> x)
      in strategy \<noteq> ''once''
         \<and> (strategy \<noteq> ''throttled''
            \<or> (case Option.bind (ms_last_refresh s) sql_seconds of
                 None \<Rightarrow> True | Some t \<Rightarrow> t \<le> now_seconds now - 7 * 86400)))"

definition source_wants_retry :: "int \<Rightarrow> source_row \<Rightarrow> bool" where
  "source_wants_retry now r =
     (sr_status r = MsPending
      \<or> (sr_status r \<in> {MsFailed, MsDegraded}
         \<and> (case Option.bind (sr_next_retry r) sql_seconds of None \<Rightarrow> False | Some t \<Rightarrow> t \<le> now_seconds now)))"

definition retry_candidate :: "int \<Rightarrow> meta_db \<Rightarrow> meta_series \<Rightarrow> bool" where
  "retry_candidate now db s \<longleftrightarrow>
     ms_monitored s \<and> \<not> ms_deleted s \<and> automatic_strategy now s
     \<and> ((case ms_status s of None \<Rightarrow> MsPending | Some x \<Rightarrow> x) = MsPending
        \<or> list_ex (\<lambda>r. sr_series r = ms_id s \<and> source_wants_retry now r) (sources db))"

definition attempt_key :: "meta_series \<Rightarrow> int \<times> int \<times> int" where
  "attempt_key s = (case ms_last_attempt s of None \<Rightarrow> (0, 0, ms_id s) | Some t \<Rightarrow> (1, t, ms_id s))"

definition metadata_retry_candidates :: "int \<Rightarrow> int \<Rightarrow> meta_db \<Rightarrow> int list" where
  "metadata_retry_candidates now limit db =
     (let safe_limit = nat (max 1 (min limit 100))
      in map ms_id (take safe_limit (sort_key attempt_key (filter (retry_candidate now db) (meta_series db)))))"

subsection \<open>Catalogue health\<close>

definition get_source_states :: "int \<Rightarrow> meta_db \<Rightarrow> (source_row \<times> json) list" where
  "get_source_states sid db =
     map (\<lambda>r. (r, case sr_details r of JsonParsed j \<Rightarrow> j | _ \<Rightarrow> JObj []))
       (sort_key sr_source (filter (\<lambda>r. sr_series r = sid) (sources db)))"

datatype issue = SeriesNotFound_issue | MissingAnilist | MissingMangadex | MissingDescription | MissingCoverUrl
  | MissingChapterMap | MissingLocalCover | StaleMetadata | ProviderFailures

definition blank_text :: "string option \<Rightarrow> bool" where
  "blank_text t = (py_strip (case t of None \<Rightarrow> [] | Some s \<Rightarrow> s) = [])"

definition metadata_stale :: "int \<Rightarrow> stamp option \<Rightarrow> bool" where
  "metadata_stale now t = (case t of None \<Rightarrow> True | Some Garbled \<Rightarrow> True
     | Some (At us) \<Rightarrow> now - us > 30 * 86400 * 1000000)"

definition source_failed :: "source_row \<times> json \<Rightarrow> bool" where
  "source_failed = (\<lambda>(r, details). sr_status r \<in> {MsFailed, MsDegraded}
     \<and> \<not> (sr_source r = ''chapter_map'' \<and> sr_failures r = 0
          \<and> (case details of JObj kvs \<Rightarrow> map_of kvs ''outcome'' = Some (JStr ''insufficient_coverage'') | _ \<Rightarrow> False)))"

record catalog_health =
  ch_state :: "meta_status option"
  ch_issues :: "issue list"
  ch_failed :: "string list"
  ch_sources :: "(source_row \<times> json) list"

definition build_catalog_metadata_health :: "int \<Rightarrow> bool \<Rightarrow> int \<Rightarrow> meta_db \<Rightarrow> catalog_health" where
  "build_catalog_metadata_health now local_cover sid db =
     (case find_meta_series db sid of
        None \<Rightarrow> \<lparr>ch_state = None, ch_issues = [SeriesNotFound_issue], ch_failed = [], ch_sources = []\<rparr>
      | Some s \<Rightarrow>
          let states = get_source_states sid db;
              failed = map (\<lambda>p. sr_source (fst p)) (filter source_failed states);
              issues =
                (if ms_anilist s = None \<or> ms_anilist s = Some 0 then [MissingAnilist] else [])
                @ (if ms_mangadex s = None \<or> ms_mangadex s = Some [] then [MissingMangadex] else [])
                @ (if blank_text (ms_description s) then [MissingDescription] else [])
                @ (if blank_text (ms_cover_url s) then [MissingCoverUrl] else [])
                @ (if ms_map s = None \<or> ms_map s = Some [] then [MissingChapterMap] else [])
                @ (if local_cover then [] else [MissingLocalCover])
                @ (if metadata_stale now (ms_last_refresh s) then [StaleMetadata] else [])
                @ (if failed \<noteq> [] then [ProviderFailures] else []);
              state = (case ms_status s of None \<Rightarrow> MsPending | Some x \<Rightarrow> x)
          in \<lparr>ch_state = Some (if state = MsHealthy \<and> issues \<noteq> [] then MsDegraded else state),
              ch_issues = issues, ch_failed = failed, ch_sources = states\<rparr>)"


subsection \<open>The table of sources\<close>

definition unique_sources :: "meta_db \<Rightarrow> bool" where
  "unique_sources db \<longleftrightarrow> distinct (map source_key (sources db))"

lemma upsert_series: "upsert_source row f db = Inr db' \<Longrightarrow> meta_series db' = meta_series db"
  by (auto simp: upsert_source_def split: if_splits)

lemma find_source_key: "find_source db sid src = Some r \<Longrightarrow> source_key r = (sid, src)"
  by (auto simp: find_source_def find_Some_iff)

lemma find_key_update:
  assumes "\<And>r. source_key (f r) = source_key r"
  shows "find (\<lambda>r. source_key r = k) (map (\<lambda>r. if P r then f r else r) xs)
    = map_option (\<lambda>r. if P r then f r else r) (find (\<lambda>r. source_key r = k) xs)"
  by (induction xs) (auto simp: assms)

lemma find_append:
  "find P (xs @ [y]) = (case find P xs of Some r \<Rightarrow> Some r | None \<Rightarrow> if P y then Some y else None)"
  by (induction xs) auto

lemma upsert_find:
  assumes "upsert_source row f db = Inr db'" "\<And>r. source_key (f r) = source_key r" "source_key row = (sid, src)"
  shows "find_source db' sid src = Some (case find_source db sid src of Some r \<Rightarrow> f r | None \<Rightarrow> row)"
    and "k \<noteq> (sid, src) \<Longrightarrow> find_source db' (fst k) (snd k) = find_source db (fst k) (snd k)"
proof -
  have key: "sr_series row = sid" "sr_source row = src" using assms(3) by (simp_all add: source_key_def)
  have *: "find (\<lambda>r. source_key r = k) (sources db') =
      (if k = (sid, src) then Some (case find_source db sid src of Some r \<Rightarrow> f r | None \<Rightarrow> row)
       else find (\<lambda>r. source_key r = k) (sources db))" for k
  proof (cases "find_source db sid src")
    case None
    with assms(1) key have "sources db' = sources db @ [row]"
      by (auto simp: upsert_source_def split: if_splits)
    with None assms(3) show ?thesis by (auto simp: find_append find_source_def split: option.splits)
  next
    case (Some r)
    with assms(1,3) key have d: "sources db' = map (\<lambda>r. if source_key r = (sid, src) then f r else r) (sources db)"
      by (auto simp: upsert_source_def)
    have "map_option (\<lambda>r. if source_key r = (sid, src) then f r else r) (find (\<lambda>r. source_key r = k) (sources db))
        = (if k = (sid, src) then map_option f (find (\<lambda>r. source_key r = k) (sources db))
           else find (\<lambda>r. source_key r = k) (sources db))"
    proof (cases "find (\<lambda>r. source_key r = k) (sources db)")
      case (Some x)
      then have "source_key x = k" by (auto simp: find_Some_iff)
      then show ?thesis unfolding Some by simp
    next
      case None
      then show ?thesis unfolding None by simp
    qed
    with Some show ?thesis unfolding d find_key_update [OF assms(2)] by (auto simp: find_source_def)
  qed
  show "find_source db' sid src = Some (case find_source db sid src of Some r \<Rightarrow> f r | None \<Rightarrow> row)"
    using * [of "(sid, src)"] by (simp add: find_source_def)
  show "find_source db' (fst k) (snd k) = find_source db (fst k) (snd k)" if "k \<noteq> (sid, src)"
    using * [of k] that by (simp add: find_source_def)
qed

lemma upsert_total: "find_meta_series db (sr_series row) \<noteq> None \<Longrightarrow> \<exists>db'. upsert_source row f db = Inr db'"
  by (auto simp: upsert_source_def)

subsection \<open>Backoff\<close>

text \<open>The contract of a store that counts failures per key and says when a key is due again.\<close>

locale backoff_service =
  fixes failures :: "'k \<Rightarrow> 's \<Rightarrow> nat"
    and due_at :: "'k \<Rightarrow> 's \<Rightarrow> int option"
    and fail_op :: "int \<Rightarrow> 'k \<Rightarrow> 's \<Rightarrow> 's"
    and known :: "'k \<Rightarrow> 's \<Rightarrow> bool"
  assumes fail_count: "known k s \<Longrightarrow> failures k (fail_op now k s) = Suc (failures k s)"
    and fail_due: "known k s \<Longrightarrow>
      due_at k (fail_op now k s) = Some (now + minute_us * int (retry_minutes (Suc (failures k s))))"
    and fail_known: "known k s \<Longrightarrow> known k (fail_op now k s)"
begin

lemma failures_run:
  "known k s \<Longrightarrow> known k (fold (\<lambda>now. fail_op now k) ts s)
     \<and> failures k (fold (\<lambda>now. fail_op now k) ts s) = failures k s + length ts"
  by (induction ts arbitrary: s) (simp_all add: fail_known fail_count)

lemma backoff_run:
  assumes "known k s" "ts \<noteq> []"
  shows "due_at k (fold (\<lambda>now. fail_op now k) ts s)
    = Some (last ts + minute_us * int (retry_minutes (failures k s + length ts)))"
proof -
  obtain us t where us: "ts = us @ [t]" using assms(2) by (cases ts rule: rev_cases) auto
  with failures_run [OF assms(1), of us] show ?thesis by (simp add: fail_due)
qed

end

definition source_failures :: "int \<times> string \<Rightarrow> meta_db \<Rightarrow> nat" where
  "source_failures k db = failure_count (find_source db (fst k) (snd k))"

definition source_due_at :: "int \<times> string \<Rightarrow> meta_db \<Rightarrow> int option" where
  "source_due_at k db = (case find_source db (fst k) (snd k) of None \<Rightarrow> None
     | Some r \<Rightarrow> (case sr_next_retry r of Some (At t) \<Rightarrow> Some t | _ \<Rightarrow> None))"

definition known_source :: "int \<times> string \<Rightarrow> meta_db \<Rightarrow> bool" where
  "known_source k db \<longleftrightarrow> find_meta_series db (fst k) \<noteq> None"

definition failed_once :: "string \<Rightarrow> json option \<Rightarrow> bool \<Rightarrow> int \<Rightarrow> int \<times> string \<Rightarrow> meta_db \<Rightarrow> meta_db" where
  "failed_once err details cached now k db =
     (case mark_source_failure now (fst k) (snd k) err details cached db of Inr db' \<Rightarrow> db' | Inl _ \<Rightarrow> db)"

lemma failure_find:
  assumes "find_meta_series db sid \<noteq> None"
  obtains db' r where "mark_source_failure now sid src err details cached db = Inr db'"
    "find_source db' sid src = Some r" "meta_series db' = meta_series db"
    "sr_failures r = Suc (failure_count (find_source db sid src))"
    "sr_next_retry r = Some (At (now + minute_us * int (retry_minutes (sr_failures r))))"
    "sr_status r = failure_status cached (find_source db sid src)"
    "\<And>k. k \<noteq> (sid, src) \<Longrightarrow> find_source db' (fst k) (snd k) = find_source db (fst k) (snd k)"
proof -
  let ?old = "find_source db sid src"
  let ?n = "failure_count ?old + 1"
  let ?at = "now + minute_us * int (retry_minutes ?n)"
  let ?row = "(new_source sid src (failure_status cached ?old) now)\<lparr>sr_next_retry := Some (At ?at), sr_failures := ?n,
      sr_error := Some (take 500 err), sr_details := details_column details\<rparr>"
  let ?f = "\<lambda>r. r\<lparr>sr_status := failure_status cached ?old, sr_last_attempt := Some now, sr_next_retry := Some (At ?at),
      sr_failures := ?n, sr_error := Some (take 500 err),
      sr_details := (case details of None \<Rightarrow> sr_details r | Some j \<Rightarrow> JsonParsed j)\<rparr>"
  have m: "mark_source_failure now sid src err details cached db = upsert_source ?row ?f db"
    by (simp add: mark_source_failure_def Let_def)
  obtain db' where u: "upsert_source ?row ?f db = Inr db'"
    using upsert_total [of db ?row ?f] assms by (auto simp: new_source_def)
  have k: "\<And>r. source_key (?f r) = source_key r" "source_key ?row = (sid, src)"
    by (simp_all add: source_key_def new_source_def)
  let ?r = "case ?old of Some r \<Rightarrow> ?f r | None \<Rightarrow> ?row"
  have "sr_failures ?r = ?n" "sr_next_retry ?r = Some (At ?at)" "sr_status ?r = failure_status cached ?old"
    by (simp_all add: new_source_def split: option.split)
  with upsert_find [OF u k] upsert_series [OF u] u m show thesis
    by (intro that [of db' ?r]) simp_all
qed

interpretation sources: backoff_service source_failures source_due_at "failed_once err details cached" known_source
proof
  fix k and s :: meta_db and now
  assume "known_source k s"
  then have "find_meta_series s (fst k) \<noteq> None" by (simp add: known_source_def)
  from failure_find [OF this, of now "snd k" err details cached] obtain db' r
    where d: "mark_source_failure now (fst k) (snd k) err details cached s = Inr db'"
      "find_source db' (fst k) (snd k) = Some r" "meta_series db' = meta_series s"
      "sr_failures r = Suc (failure_count (find_source s (fst k) (snd k)))"
      "sr_next_retry r = Some (At (now + minute_us * int (retry_minutes (sr_failures r))))" by blast
  have f: "failed_once err details cached now k s = db'" by (simp add: failed_once_def d(1))
  show "source_failures k (failed_once err details cached now k s) = Suc (source_failures k s)"
    unfolding f by (simp add: source_failures_def d(2,4) failure_count_def [of "Some r"])
  show "source_due_at k (failed_once err details cached now k s)
      = Some (now + minute_us * int (retry_minutes (Suc (source_failures k s))))"
    unfolding f by (simp add: source_due_at_def source_failures_def d(2,4,5))
  show "known_source k (failed_once err details cached now k s)"
    unfolding f using \<open>known_source k s\<close> by (simp add: known_source_def find_meta_series_def d(3))
qed


lemma retry_minutes_bounds: "5 \<le> retry_minutes n \<and> retry_minutes n \<le> 1280"
proof -
  have "(2::nat) ^ min (n - 1) 8 \<le> 2 ^ 8" by (rule power_increasing) simp_all
  then show ?thesis by (simp add: retry_minutes_def min_le_iff_disj)
qed

lemma retry_minutes_double: "n \<ge> 1 \<Longrightarrow> retry_minutes (Suc n) = min 1280 (2 * retry_minutes n)"
proof -
  assume n: "n \<ge> 1"
  show ?thesis
  proof (cases "n \<le> 8")
    case True
    then have "n \<in> {1..8}" using n by simp
    then have "n \<in> set [1..<9]" by simp
    moreover have "list_all (\<lambda>n. retry_minutes (Suc n) = min 1280 (2 * retry_minutes n)) [1..<9]" by code_simp
    ultimately show ?thesis by (simp only: list_all_iff)
  next
    case False
    then show ?thesis by (simp add: retry_minutes_def)
  qed
qed

text \<open>
  After any run of failures of a source of an existing series, without a success in between,
  the stored count has grown by their number and the source becomes due exactly
  min(24h, 5 min * 2^min(count - 1, 8)) after the last failure: 5 minutes after a first failure,
  doubling with each further one and never more than 1280 minutes; other sources are unaffected.\<close>

theorem source_backoff:
  assumes "find_meta_series db sid \<noteq> None" "ts \<noteq> []"
  shows "(let db' = fold (\<lambda>now. failed_once err details cached now (sid, src)) ts db;
             n = source_failures (sid, src) db + length ts
         in source_failures (sid, src) db' = n
            \<and> (source_retry_due now sid src db' \<longleftrightarrow> last ts + minute_us * int (retry_minutes n) \<le> now)
            \<and> 5 \<le> retry_minutes n \<and> retry_minutes n \<le> 1280
            \<and> retry_minutes (Suc n) = min 1280 (2 * retry_minutes n)
            \<and> retry_minutes 1 = 5)"
proof -
  have k: "known_source (sid, src) db" using assms(1) by (simp add: known_source_def)
  let ?db = "fold (\<lambda>now. failed_once err details cached now (sid, src)) ts db"
  let ?n = "source_failures (sid, src) db + length ts"
  have due: "source_due_at (sid, src) ?db = Some (last ts + minute_us * int (retry_minutes ?n))"
    by (rule sources.backoff_run [OF k assms(2)])
  then have "source_retry_due now sid src ?db \<longleftrightarrow> last ts + minute_us * int (retry_minutes ?n) \<le> now"
    by (auto simp: source_due_at_def source_retry_due_def split: option.splits stamp.splits)
  moreover have "source_failures (sid, src) ?db = ?n" using sources.failures_run [OF k] by simp
  moreover have "?n \<ge> 1" using assms(2) by (cases ts) simp_all
  ultimately show ?thesis
    unfolding Let_def using retry_minutes_bounds retry_minutes_double by (simp add: retry_minutes_def [of "Suc 0"])
qed

definition demo_meta :: meta_db where
  "demo_meta = \<lparr>
     meta_series = [\<lparr>ms_id = 7, ms_monitored = True, ms_deleted = False, ms_strategy = Some ''throttled'',
       ms_status = Some MsDegraded, ms_last_attempt = Some 0, ms_last_refresh = None, ms_error = None,
       ms_anilist = Some 1, ms_mangadex = None, ms_description = None, ms_cover_url = None, ms_map = None\<rparr>],
     sources = []\<rparr>"

theorem source_backoff_witness:
  "source_retry_due (1000000 + 20 * minute_us) 7 ''anilist''
      (fold (\<lambda>now. failed_once ''timeout'' None False now (7, ''anilist'')) [0, 500000, 1000000] demo_meta)
   \<and> \<not> source_retry_due (19 * minute_us) 7 ''anilist''
      (fold (\<lambda>now. failed_once ''timeout'' None False now (7, ''anilist'')) [0, 500000, 1000000] demo_meta)"
proof -
  have s: "find_meta_series demo_meta 7 \<noteq> None" "[0, 500000, 1000000::int] \<noteq> []"
    by (simp_all add: demo_meta_def find_meta_series_def)
  have n: "source_failures (7, ''anilist'') demo_meta = 0"
    by (simp add: demo_meta_def source_failures_def find_source_def failure_count_def)
  have r: "retry_minutes 3 = 20" by (simp add: retry_minutes_def)
  from source_backoff [OF s, where err = "''timeout''" and details = None and cached = False and src = "''anilist''"] n r
  show ?thesis by (simp add: Let_def minute_us_def numeral_3_eq_3)
qed

text \<open>
  The automatic retry query returns at most min(max(limit, 1), 100) series, only monitored
  ones that are not deleted, whose strategy allows it (never once, throttled at most weekly) and
  that are pending or have a source that is pending or past its backoff; when the limit cuts the
  list, every series left out was attempted no earlier than every series taken.\<close>

theorem retry_candidates_fair:
  "\<exists>taken. metadata_retry_candidates now limit db = map ms_id taken
      \<and> length taken = min (nat (max 1 (min limit 100))) (length (filter (retry_candidate now db) (meta_series db)))
      \<and> list_all (retry_candidate now db) taken
      \<and> list_all (\<lambda>s. s \<in> set taken \<or> list_all (\<lambda>t. attempt_key t \<le> attempt_key s) taken)
          (filter (retry_candidate now db) (meta_series db))"
proof -
  let ?n = "nat (max 1 (min limit 100))"
  let ?c = "filter (retry_candidate now db) (meta_series db)"
  let ?s = "sort_key attempt_key ?c"
  have sorted: "sorted (map attempt_key ?s)" by simp
  have "attempt_key t \<le> attempt_key s" if "s \<in> set ?c" "s \<notin> set (take ?n ?s)" "t \<in> set (take ?n ?s)" for s t
  proof -
    have "set ?s = set (take ?n ?s) \<union> set (drop ?n ?s)"
      by (metis append_take_drop_id set_append)
    then have "s \<in> set (drop ?n ?s)" using that(1,2) by (metis UnE set_sort)
    moreover have "sorted (map attempt_key (take ?n ?s) @ map attempt_key (drop ?n ?s))"
      using sorted by (metis append_take_drop_id map_append)
    ultimately show ?thesis using that(3) by (auto simp: sorted_append)
  qed
  then have "list_all (\<lambda>s. s \<in> set (take ?n ?s) \<or> list_all (\<lambda>t. attempt_key t \<le> attempt_key s) (take ?n ?s)) ?c"
    unfolding list_all_iff by blast
  moreover have "list_all (retry_candidate now db) (take ?n ?s)"
    unfolding list_all_iff by (auto dest: in_set_takeD)
  ultimately show ?thesis
    by (intro exI [of _ "take ?n ?s"]) (simp add: metadata_retry_candidates_def min.commute)
qed


text \<open>
  A refresh interrupted by a restart: every row leaves the state refreshing. A source that had
  succeeded before becomes degraded with an error but, unless an earlier failure left a retry
  time, without one, and the retry query passes over it.\<close>

lemma interrupted_source_not_retried:
  assumes "find_source db sid src = Some r" "sr_status r = MsRefreshing" "sr_last_success r \<noteq> None"
    "sr_next_retry r = None"
  shows "\<exists>r'. find_source (recover_interrupted db) sid src = Some r' \<and> sr_status r' = MsDegraded
    \<and> sr_error r' \<noteq> None \<and> \<not> source_wants_retry now r'"
proof -
  let ?f = "\<lambda>r. r\<lparr>sr_status := (if sr_last_success r = None then MsPending else MsDegraded),
      sr_error := Some ''previous provider refresh was interrupted''\<rparr>"
  have k: "source_key (?f r) = source_key r" for r by (simp add: source_key_def)
  have "find_source (recover_interrupted db) sid src
      = map_option (\<lambda>r. if sr_status r = MsRefreshing then ?f r else r) (find_source db sid src)"
    unfolding find_source_def recover_interrupted_def by (simp add: find_key_update [OF k])
  with assms show ?thesis by (simp add: source_wants_retry_def)
qed

lemma recover_sources: "sources (recover_interrupted db) = map (\<lambda>r. if sr_status r = MsRefreshing
    then r\<lparr>sr_status := (if sr_last_success r = None then MsPending else MsDegraded),
      sr_error := Some ''previous provider refresh was interrupted''\<rparr> else r) (sources db)"
  by (simp add: recover_interrupted_def)

lemma recover_series: "meta_series (recover_interrupted db) = map (\<lambda>s. if ms_status s = Some MsRefreshing
    then s\<lparr>ms_status := Some (if ms_last_refresh s = None then MsPending else MsDegraded),
      ms_error := Some ''previous metadata refresh was interrupted''\<rparr> else s) (meta_series db)"
  by (simp add: recover_interrupted_def)

text \<open>
  C9: Startup recovery leaves no series and no source refreshing, keeps every other status,
  running it twice is the same as once, and a monitored, not deleted series whose strategy allows
  it and whose first refresh was interrupted is a retry candidate again.\<close>

theorem interrupted_refreshes_recovered:
  "list_all (\<lambda>s. ms_status s \<noteq> Some MsRefreshing) (meta_series (recover_interrupted db))
   \<and> list_all (\<lambda>r. sr_status r \<noteq> MsRefreshing) (sources (recover_interrupted db))
   \<and> list_all2 (\<lambda>s s'. if ms_status s = Some MsRefreshing
        then (if ms_monitored s \<and> \<not> ms_deleted s \<and> automatic_strategy now s \<and> ms_last_refresh s = None
              then retry_candidate now (recover_interrupted db) s' else True)
        else s' = s) (meta_series db) (meta_series (recover_interrupted db))
   \<and> list_all2 (\<lambda>r r'. if sr_status r = MsRefreshing then source_key r' = source_key r else r' = r)
        (sources db) (sources (recover_interrupted db))
   \<and> recover_interrupted (recover_interrupted db) = recover_interrupted db"
proof -
  have s: "list_all (\<lambda>s. ms_status s \<noteq> Some MsRefreshing) (meta_series (recover_interrupted db))"
    unfolding recover_series by (auto simp: list_all_iff split: if_splits)
  have r: "list_all (\<lambda>r. sr_status r \<noteq> MsRefreshing) (sources (recover_interrupted db))"
    unfolding recover_sources by (auto simp: list_all_iff split: if_splits)
  have fs: "list_all2 (\<lambda>s s'. if ms_status s = Some MsRefreshing
        then (if ms_monitored s \<and> \<not> ms_deleted s \<and> automatic_strategy now s \<and> ms_last_refresh s = None
              then retry_candidate now (recover_interrupted db) s' else True)
        else s' = s) (meta_series db) (meta_series (recover_interrupted db))"
    unfolding recover_series list.rel_map
    by (rule list.rel_refl_strong) (simp add: retry_candidate_def automatic_strategy_def Let_def)
  have fr: "list_all2 (\<lambda>r r'. if sr_status r = MsRefreshing then source_key r' = source_key r else r' = r)
        (sources db) (sources (recover_interrupted db))"
    unfolding recover_sources list.rel_map by (rule list.rel_refl_strong) (simp add: source_key_def)
  have "sources (recover_interrupted (recover_interrupted db)) = sources (recover_interrupted db)"
    unfolding recover_sources [of "recover_interrupted db"] using r by (intro map_idI) (simp add: list_all_iff)
  moreover have "meta_series (recover_interrupted (recover_interrupted db)) = meta_series (recover_interrupted db)"
    unfolding recover_series [of "recover_interrupted db"] using s by (intro map_idI) (simp add: list_all_iff)
  ultimately have "recover_interrupted (recover_interrupted db) = recover_interrupted db"
    by (cases "recover_interrupted (recover_interrupted db)", cases "recover_interrupted db") simp
  with s r fs fr show ?thesis by blast
qed

text \<open>
  Catalogue health is healthy exactly when the series' last refresh ended healthy within the
  last 30 days, ids, description, cover and chapter map are all present, the cached cover is
  valid, and no source is failed or degraded, a chapter-map source that merely reported
  insufficient coverage without a failure apart.\<close>

theorem catalog_healthy_iff:
  "ch_state (build_catalog_metadata_health now local_cover sid db) = Some MsHealthy \<longleftrightarrow>
    (case find_meta_series db sid of None \<Rightarrow> False
     | Some s \<Rightarrow> ms_status s = Some MsHealthy
         \<and> (case ms_last_refresh s of Some (At us) \<Rightarrow> now - us \<le> 30 * 86400 * 1000000 | _ \<Rightarrow> False)
         \<and> (case ms_anilist s of Some n \<Rightarrow> n \<noteq> 0 | None \<Rightarrow> False)
         \<and> (case ms_mangadex s of Some t \<Rightarrow> t \<noteq> [] | None \<Rightarrow> False)
         \<and> (case ms_map s of Some t \<Rightarrow> t \<noteq> [] | None \<Rightarrow> False)
         \<and> \<not> blank_text (ms_description s) \<and> \<not> blank_text (ms_cover_url s) \<and> local_cover
         \<and> list_all (\<lambda>r. sr_series r = sid \<and> sr_status r \<in> {MsFailed, MsDegraded}
              \<longrightarrow> sr_source r = ''chapter_map'' \<and> sr_failures r = 0
                 \<and> (case sr_details r of JsonParsed (JObj kvs) \<Rightarrow> map_of kvs ''outcome'' = Some (JStr ''insufficient_coverage'')
                    | _ \<Rightarrow> False)) (sources db))"
proof (cases "find_meta_series db sid")
  case None
  then show ?thesis by (simp add: build_catalog_metadata_health_def)
next
  case (Some s)
  let ?sf = "\<lambda>r. source_failed (r, case sr_details r of JsonParsed j \<Rightarrow> j | _ \<Rightarrow> JObj [])"
  have f1: "filter source_failed (get_source_states sid db) = [] \<longleftrightarrow>
      list_all (\<lambda>r. sr_series r = sid \<longrightarrow> \<not> ?sf r) (sources db)"
    by (auto simp: get_source_states_def filter_empty_conv list_all_iff)
  have f2: "?sf r \<longleftrightarrow> sr_status r \<in> {MsFailed, MsDegraded} \<and> \<not> (sr_source r = ''chapter_map'' \<and> sr_failures r = 0
      \<and> (case sr_details r of JsonParsed (JObj kvs) \<Rightarrow> map_of kvs ''outcome'' = Some (JStr ''insufficient_coverage'')
         | _ \<Rightarrow> False))" for r
    by (auto simp: source_failed_def split: json_column.splits json.splits)
  have stale: "\<not> metadata_stale now (ms_last_refresh s) \<longleftrightarrow>
      (case ms_last_refresh s of Some (At us) \<Rightarrow> now - us \<le> 30 * 86400 * 1000000 | _ \<Rightarrow> False)"
    by (auto simp: metadata_stale_def split: option.splits stamp.splits)
  have opt: "\<not> (ms_anilist s = None \<or> ms_anilist s = Some 0) \<longleftrightarrow> (case ms_anilist s of Some n \<Rightarrow> n \<noteq> 0 | None \<Rightarrow> False)"
    "\<not> (ms_mangadex s = None \<or> ms_mangadex s = Some []) \<longleftrightarrow> (case ms_mangadex s of Some t \<Rightarrow> t \<noteq> [] | None \<Rightarrow> False)"
    "\<not> (ms_map s = None \<or> ms_map s = Some []) \<longleftrightarrow> (case ms_map s of Some t \<Rightarrow> t \<noteq> [] | None \<Rightarrow> False)"
    by (auto split: option.splits)
  have st: "Some (if a = MsHealthy \<and> xs \<noteq> [] then MsDegraded else a) = Some MsHealthy \<longleftrightarrow> a = MsHealthy \<and> xs = []"
    for a and xs :: "issue list" by auto
  have ms: "(case ms_status s of None \<Rightarrow> MsPending | Some x \<Rightarrow> x) = MsHealthy \<longleftrightarrow> ms_status s = Some MsHealthy"
    by (simp split: option.splits)
  have ap: "(if b then [x] else []) = [] \<longleftrightarrow> \<not> b" "(if b then [] else [x]) = [] \<longleftrightarrow> b" for b and x :: issue by simp_all
  have "ch_state (build_catalog_metadata_health now local_cover sid db) = Some MsHealthy \<longleftrightarrow>
      ms_status s = Some MsHealthy \<and> \<not> (ms_anilist s = None \<or> ms_anilist s = Some 0)
      \<and> \<not> (ms_mangadex s = None \<or> ms_mangadex s = Some []) \<and> \<not> blank_text (ms_description s)
      \<and> \<not> blank_text (ms_cover_url s) \<and> \<not> (ms_map s = None \<or> ms_map s = Some []) \<and> local_cover
      \<and> \<not> metadata_stale now (ms_last_refresh s) \<and> filter source_failed (get_source_states sid db) = []"
    unfolding build_catalog_metadata_health_def Some option.case Let_def catalog_health.select_convs
    unfolding st unfolding ms append_is_Nil_conv ap map_is_Nil_conv not_not by (rule refl)
  then show ?thesis
    unfolding Some option.case f1 f2 stale opt by (auto simp: list_all_iff)
qed

definition demo_catalog :: meta_db where
  "demo_catalog = \<lparr>
     meta_series = [\<lparr>ms_id = 7, ms_monitored = True, ms_deleted = False, ms_strategy = None,
       ms_status = Some MsHealthy, ms_last_attempt = Some 0, ms_last_refresh = Some (At 0), ms_error = None,
       ms_anilist = Some 1, ms_mangadex = Some ''m'', ms_description = Some ''d'', ms_cover_url = Some ''u'',
       ms_map = Some ''m''\<rparr>],
     sources = [(new_source 7 ''chapter_map'' MsDegraded 0)\<lparr>
       sr_details := JsonParsed (JObj [(''outcome'', JStr ''insufficient_coverage'')])\<rparr>]\<rparr>"

theorem catalog_healthy_iff_witness:
  "ch_state (build_catalog_metadata_health (30 * 86400 * 1000000) True 7 demo_catalog) = Some MsHealthy
   \<and> ch_state (build_catalog_metadata_health (30 * 86400 * 1000000 + 1) True 7 demo_catalog) \<noteq> Some MsHealthy"
  unfolding catalog_healthy_iff
  by (simp add: demo_catalog_def find_meta_series_def new_source_def blank_text_def py_strip_def strip_by_def py_is_space_def)

theorem interrupted_refreshes_recovered_witness:
  "list_all (\<lambda>s. ms_status s \<noteq> Some MsRefreshing) (meta_series (recover_interrupted (mark_series_attempt 5 7 demo_meta)))"
  using interrupted_refreshes_recovered [of "mark_series_attempt 5 7 demo_meta" 0] by blast

end
