(* ===== verification/Py_Path.thy ===== *)
theory Py_Path
  imports Manga_Prelude
begin

text \<open>
  \<open>os.path\<close> on POSIX paths, as the components that name files use it: \<open>basename\<close>,
  \<open>dirname\<close>, \<open>join\<close> and \<open>splitext\<close>.
\<close>

definition path_basename :: "string \<Rightarrow> string" where
  "path_basename p = rev (takeWhile (\<lambda>c. c \<noteq> CHR ''/'') (rev p))"

definition path_dirname :: "string \<Rightarrow> string" where
  "path_dirname p =
     (let head = rev (dropWhile (\<lambda>c. c \<noteq> CHR ''/'') (rev p));
          stripped = rev (dropWhile (\<lambda>c. c = CHR ''/'') (rev head))
      in if stripped = [] then head else stripped)"

definition path_join :: "string \<Rightarrow> string \<Rightarrow> string" where
  "path_join d name = (if take 1 name = ''/'' then name else if d \<noteq> [] \<and> last d \<noteq> CHR ''/'' then d @ ''/'' @ name else d @ name)"

text \<open>The extension starts at the last dot of the base name unless only dots precede it.\<close>

definition splitext :: "string \<Rightarrow> string \<times> string" where
  "splitext p =
     (let base = path_basename p;
          after = rev (takeWhile (\<lambda>c. c \<noteq> CHR ''.'') (rev base));
          stem = take (length base - length after - 1) base
      in if CHR ''.'' \<notin> set base \<or> list_all (\<lambda>c. c = CHR ''.'') stem then (p, [])
         else (take (length p - length after - 1) p, CHR ''.'' # after))"

lemma basename_plain: "CHR ''/'' \<notin> set p \<Longrightarrow> path_basename p = p"
  unfolding path_basename_def by (subst takeWhile_eq_all_conv [THEN iffD2]) auto

lemma splitext_plain:
  assumes "CHR ''/'' \<notin> set stem" "CHR ''/'' \<notin> set ext" "CHR ''.'' \<notin> set ext" "\<not> list_all (\<lambda>c. c = CHR ''.'') stem"
  shows "splitext (stem @ CHR ''.'' # ext) = (stem, CHR ''.'' # ext)"
proof -
  have b: "path_basename (stem @ CHR ''.'' # ext) = stem @ CHR ''.'' # ext" using assms by (intro basename_plain) auto
  have "takeWhile (\<lambda>c. c \<noteq> CHR ''.'') (rev ext @ CHR ''.'' # rev stem) = rev ext"
    using assms(3) by (subst takeWhile_append2) auto
  then show ?thesis using assms(4) by (simp add: splitext_def b Let_def)
qed

lemma splitext_ext:
  assumes "snd (splitext p) \<noteq> []"
  obtains ext where "snd (splitext p) = CHR ''.'' # ext" "CHR ''.'' \<notin> set ext" "CHR ''/'' \<notin> set ext"
proof -
  let ?after = "rev (takeWhile (\<lambda>c. c \<noteq> CHR ''.'') (rev (path_basename p)))"
  have "snd (splitext p) = CHR ''.'' # ?after" using assms by (simp add: splitext_def Let_def split: if_splits)
  moreover have "CHR ''.'' \<notin> set ?after" using set_takeWhileD [of "CHR ''.''"] by force
  moreover have "CHR ''/'' \<notin> set ?after"
    using set_takeWhileD [of "CHR ''/''" "\<lambda>c. c \<noteq> CHR ''.''" "rev (path_basename p)"]
      set_takeWhileD [of "CHR ''/''" "\<lambda>c. c \<noteq> CHR ''/''" "rev p"]
    by (auto simp: path_basename_def)
  ultimately show thesis using that by blast
qed

end
