(* ===== verification/Ownership_Locks.thy ===== *)
theory Ownership_Locks
  imports Py_Path "HOL-Library.Word"
begin

text \<open>
  \<^verbatim>\<open>src/app/maintenance_lock.py\<close> and \<^verbatim>\<open>src/app/file_mutation_lock.py\<close>: advisory ownership of a
  database through \<open>flock\<close> on an empty sidecar file beside it. Both context managers are split
  at the points where other processes may run: opening the sidecar, verifying and locking,
  verifying again and entering, and leaving. The world is what the system calls see: the
  directory entries (\<open>lstat\<close>), the open descriptors (\<open>fstat\<close>) and the kernel's table of flock
  holds. Paths are absolute and normalised (\<open>os.path.abspath\<close> is the identity); descriptors that
  a child inherits and the durability of \<open>fsync\<close> are outside the model.
\<close>

unbundle bit_operations_syntax

subsection \<open>The operating system\<close>

record file_stat =
  st_reg :: bool
  st_dir :: bool
  st_dev :: int
  st_ino :: int
  st_uid :: int
  st_mode :: "12 word"
  st_size :: int
  st_nlink :: int

type_synonym inode = "int \<times> int"

definition identity :: "file_stat \<Rightarrow> inode" where
  "identity st = (st_dev st, st_ino st)"

record world =
  w_lstat :: "string \<Rightarrow> file_stat option"
  w_fstat :: "(int \<times> file_stat) list"
  w_flocks :: "(int \<times> inode \<times> bool) list"
  w_inheritable :: "int list"
  w_euid :: int

datatype lock_error = LockError | LockBusy | NoSuchFile

definition lstat :: "world \<Rightarrow> string \<Rightarrow> lock_error + file_stat" where
  "lstat w path = (case w_lstat w path of None \<Rightarrow> Inl NoSuchFile | Some st \<Rightarrow> Inr st)"

definition fstat :: "world \<Rightarrow> int \<Rightarrow> lock_error + file_stat" where
  "fstat w fd = (case map_of (w_fstat w) fd of None \<Rightarrow> Inl NoSuchFile | Some st \<Rightarrow> Inr st)"

text \<open>\<open>flock(fd, mode | LOCK_NB)\<close>: refused when another descriptor holds an incompatible lock.\<close>

definition flock_nb :: "int \<Rightarrow> bool \<Rightarrow> world \<Rightarrow> lock_error + world" where
  "flock_nb fd exclusive w =
     (case map_of (w_fstat w) fd of None \<Rightarrow> Inl NoSuchFile
      | Some st \<Rightarrow>
          if list_ex (\<lambda>(fd', i, ex). fd' \<noteq> fd \<and> i = identity st \<and> (ex \<or> exclusive)) (w_flocks w) then Inl LockBusy
          else Inr (w\<lparr>w_flocks := (fd, identity st, exclusive) # filter (\<lambda>(fd', _). fd' \<noteq> fd) (w_flocks w)\<rparr>))"

definition close_fd :: "int \<Rightarrow> world \<Rightarrow> world" where
  "close_fd fd w = w\<lparr>w_fstat := filter (\<lambda>(f, _). f \<noteq> fd) (w_fstat w),
     w_flocks := filter (\<lambda>(f, _). f \<noteq> fd) (w_flocks w)\<rparr>"

text \<open>A descriptor that is not in use, and opening what a path names now.\<close>

definition fresh_fd :: "world \<Rightarrow> int" where
  "fresh_fd w = 1 + Max (set (2 # map fst (w_fstat w)))"

definition os_open :: "string \<Rightarrow> world \<Rightarrow> lock_error + int \<times> world" where
  "os_open path w =
     (case w_lstat w path of None \<Rightarrow> Inl NoSuchFile
      | Some st \<Rightarrow> Inr (fresh_fd w, w\<lparr>w_fstat := (fresh_fd w, st) # w_fstat w\<rparr>))"

text \<open>\<open>open(O_CREAT | O_EXCL, 0o600)\<close>; the inode of the new file is the kernel's choice.\<close>

definition os_create :: "string \<Rightarrow> inode \<Rightarrow> world \<Rightarrow> int \<times> world" where
  "os_create path ino w =
     (let st = \<lparr>st_reg = True, st_dir = False, st_dev = fst ino, st_ino = snd ino, st_uid = w_euid w,
               st_mode = 0x180, st_size = 0, st_nlink = 1\<rparr>
      in (fresh_fd w, w\<lparr>w_lstat := (w_lstat w)(path \<mapsto> st), w_fstat := (fresh_fd w, st) # w_fstat w\<rparr>))"

subsection \<open>Validation\<close>

definition validate_parent :: "file_stat \<Rightarrow> lock_error + unit" where
  "validate_parent parent = (if \<not> st_dir parent \<or> st_mode parent AND 2 \<noteq> 0 then Inl LockError else Inr ())"

definition database_identity :: "world \<Rightarrow> string \<Rightarrow> lock_error + inode option" where
  "database_identity w path =
     (case w_lstat w path of None \<Rightarrow> Inr None
      | Some st \<Rightarrow> if st_reg st then Inr (Some (identity st)) else Inl LockError)"

definition validate_lock :: "world \<Rightarrow> file_stat \<Rightarrow> inode option \<Rightarrow> lock_error + unit" where
  "validate_lock w lock db_identity =
     (if \<not> st_reg lock \<or> st_uid lock \<noteq> w_euid w \<or> st_mode lock \<noteq> 0x180 \<or> st_size lock \<noteq> 0
         \<or> st_nlink lock \<noteq> 1 \<or> Some (identity lock) = db_identity
      then Inl LockError else Inr ())"

text \<open>
  \<open>_open_sidecar\<close>; \<open>appeared\<close> is the entry another process may create between the failed
  \<open>lstat\<close> and the exclusive creation.
\<close>

definition open_existing :: "string \<Rightarrow> inode option \<Rightarrow> file_stat \<Rightarrow> world \<Rightarrow> lock_error + (int \<times> file_stat option) \<times> world" where
  "open_existing path db_identity existing w =
     (case validate_lock w existing db_identity of
        Inl e \<Rightarrow> Inl e
      | Inr _ \<Rightarrow> (case os_open path w of Inl e \<Rightarrow> Inl e | Inr (fd, w') \<Rightarrow> Inr ((fd, Some existing), w')))"

definition open_sidecar ::
  "string \<Rightarrow> inode option \<Rightarrow> file_stat option \<Rightarrow> inode \<Rightarrow> world \<Rightarrow> lock_error + (int \<times> file_stat option) \<times> world" where
  "open_sidecar path db_identity appeared ino w =
     (case w_lstat w path of
        Some existing \<Rightarrow> open_existing path db_identity existing w
      | None \<Rightarrow>
          (case appeared of
             None \<Rightarrow> (let (fd, w') = os_create path ino w in Inr ((fd, None), w'))
           | Some st \<Rightarrow> open_existing path db_identity st (w\<lparr>w_lstat := (w_lstat w)(path \<mapsto> st)\<rparr>)))"

subsection \<open>Maintenance ownership\<close>

record guard =
  g_path :: string
  g_db_id :: "inode option"
  g_parent :: string
  g_parent_id :: inode
  g_lock_path :: string
  g_lock_id :: inode
  g_fd :: int
  g_created :: bool
  g_exclusive :: bool
  g_pid :: int
  g_tid :: int
  g_active :: bool

definition open_guard ::
  "string \<Rightarrow> string \<Rightarrow> inode option \<Rightarrow> bool \<Rightarrow> int \<Rightarrow> int \<Rightarrow> file_stat option \<Rightarrow> inode \<Rightarrow> world
     \<Rightarrow> lock_error + guard \<times> world" where
  "open_guard suffix path db_id exclusive pid tid appeared ino w =
     (let parent_path = path_dirname path in
      case lstat w parent_path of
        Inl e \<Rightarrow> Inl e
      | Inr parent \<Rightarrow>
          (case validate_parent parent of
             Inl e \<Rightarrow> Inl e
           | Inr _ \<Rightarrow>
               let lock_path = path_join parent_path (''.'' @ path_basename path @ suffix) in
               (case open_sidecar lock_path db_id appeared ino w of
                  Inl e \<Rightarrow> Inl e
                | Inr ((fd, existing), w') \<Rightarrow>
                    (case (case existing of Some st \<Rightarrow> Inr st | None \<Rightarrow> fstat w' fd) of
                       Inl e \<Rightarrow> Inl e
                     | Inr st \<Rightarrow> Inr (\<lparr>g_path = path, g_db_id = db_id, g_parent = parent_path,
                         g_parent_id = identity parent, g_lock_path = lock_path, g_lock_id = identity st,
                         g_fd = fd, g_created = (existing = None), g_exclusive = exclusive,
                         g_pid = pid, g_tid = tid, g_active = False\<rparr>, w')))))"

definition maintenance_open ::
  "string \<Rightarrow> bool \<Rightarrow> int \<Rightarrow> int \<Rightarrow> file_stat option \<Rightarrow> inode \<Rightarrow> world \<Rightarrow> lock_error + guard \<times> world" where
  "maintenance_open path exclusive pid tid appeared ino w =
     (case database_identity w path of
        Inl e \<Rightarrow> Inl e
      | Inr db_id \<Rightarrow> open_guard ''.ownership-maintenance.lock'' path db_id exclusive pid tid appeared ino w)"

definition verify_entry :: "world \<Rightarrow> guard \<Rightarrow> inode option \<Rightarrow> (lock_error + file_stat) \<Rightarrow> bool" where
  "verify_entry w g db_identity candidate =
     (case candidate of Inl _ \<Rightarrow> False
      | Inr st \<Rightarrow> validate_lock w st db_identity = Inr () \<and> identity st = g_lock_id g)"

definition verify_parent :: "world \<Rightarrow> guard \<Rightarrow> bool" where
  "verify_parent w g =
     (case lstat w (g_parent g) of Inl _ \<Rightarrow> False
      | Inr st \<Rightarrow> validate_parent st = Inr () \<and> identity st = g_parent_id g)"

definition maintenance_verify :: "world \<Rightarrow> guard \<Rightarrow> bool" where
  "maintenance_verify w g =
     (case database_identity w (g_path g) of
        Inl _ \<Rightarrow> False
      | Inr current \<Rightarrow>
          (g_db_id g = None \<or> current = g_db_id g)
          \<and> verify_parent w g
          \<and> verify_entry w g current (fstat w (g_fd g))
          \<and> verify_entry w g current (lstat w (g_lock_path g)))"

text \<open>The first \<open>verify()\<close> with the nonblocking lock, and the entry after it.\<close>

definition maintenance_lock :: "guard \<Rightarrow> world \<Rightarrow> lock_error + world" where
  "maintenance_lock g w = (if maintenance_verify w g then flock_nb (g_fd g) (g_exclusive g) w else Inl LockError)"

definition maintenance_enter :: "guard \<Rightarrow> world \<Rightarrow> lock_error + guard" where
  "maintenance_enter g w = (if maintenance_verify w g then Inr (g\<lparr>g_active := True\<rparr>) else Inl LockError)"

text \<open>\<open>_exclusive_holds\<close> has an entry for the worker of every exclusive guard that has entered.\<close>

definition assert_exclusive_maintenance :: "guard list \<Rightarrow> int \<Rightarrow> int \<Rightarrow> string \<Rightarrow> world \<Rightarrow> lock_error + guard" where
  "assert_exclusive_maintenance holds pid tid path w =
     (case find (\<lambda>g. g_active g \<and> g_exclusive g \<and> g_pid g = pid \<and> g_tid g = tid \<and> g_path g = path) holds of
        None \<Rightarrow> Inl LockError
      | Some g \<Rightarrow> if maintenance_verify w g then Inr g else Inl LockError)"

subsection \<open>File mutation ownership\<close>

definition mutation_open ::
  "string \<Rightarrow> int \<Rightarrow> int \<Rightarrow> file_stat option \<Rightarrow> inode \<Rightarrow> world \<Rightarrow> lock_error + guard \<times> world" where
  "mutation_open path pid tid appeared ino w =
     (case lstat w path of
        Inl e \<Rightarrow> Inl e
      | Inr database \<Rightarrow>
          if \<not> st_reg database then Inl LockError
          else open_guard ''.file-mutation.lock'' path (Some (identity database)) True pid tid appeared ino w)"

definition mutation_verify_identity :: "world \<Rightarrow> guard \<Rightarrow> bool" where
  "mutation_verify_identity w g =
     (case lstat w (g_path g) of
        Inl _ \<Rightarrow> False
      | Inr current \<Rightarrow>
          st_reg current \<and> Some (identity current) = g_db_id g
          \<and> verify_parent w g
          \<and> verify_entry w g (g_db_id g) (fstat w (g_fd g))
          \<and> verify_entry w g (g_db_id g) (lstat w (g_lock_path g)))"

definition mutation_verify :: "int \<Rightarrow> int \<Rightarrow> world \<Rightarrow> guard \<Rightarrow> bool" where
  "mutation_verify pid tid w g \<longleftrightarrow>
     g_active g \<and> pid = g_pid g \<and> tid = g_tid g \<and> mutation_verify_identity w g"

definition mutation_lock :: "guard \<Rightarrow> world \<Rightarrow> lock_error + world" where
  "mutation_lock g w = (if mutation_verify_identity w g then flock_nb (g_fd g) True w else Inl LockError)"

definition mutation_enter :: "int \<Rightarrow> int \<Rightarrow> guard \<Rightarrow> world \<Rightarrow> lock_error + guard" where
  "mutation_enter pid tid g w =
     (let g' = g\<lparr>g_active := True\<rparr> in if mutation_verify pid tid w g' then Inr g' else Inl LockError)"

definition subprocess_fd :: "int \<Rightarrow> int \<Rightarrow> world \<Rightarrow> guard \<Rightarrow> lock_error + int" where
  "subprocess_fd pid tid w g =
     (if \<not> mutation_verify pid tid w g then Inl LockError
      else if g_fd g < 3 \<or> g_fd g \<in> set (w_inheritable w) then Inl LockError
      else Inr (g_fd g))"


subsection \<open>The protocol\<close>

datatype guard_kind = Maintenance | Mutation

definition verified :: "guard_kind \<Rightarrow> world \<Rightarrow> guard \<Rightarrow> bool" where
  "verified kind w g = (case kind of Maintenance \<Rightarrow> maintenance_verify w g | Mutation \<Rightarrow> mutation_verify_identity w g)"

definition lock_op :: "guard_kind \<Rightarrow> guard \<Rightarrow> world \<Rightarrow> lock_error + world" where
  "lock_op kind g w = (case kind of Maintenance \<Rightarrow> maintenance_lock g w | Mutation \<Rightarrow> mutation_lock g w)"

definition open_op ::
  "guard_kind \<Rightarrow> string \<Rightarrow> bool \<Rightarrow> int \<Rightarrow> int \<Rightarrow> file_stat option \<Rightarrow> inode \<Rightarrow> world \<Rightarrow> lock_error + guard \<times> world" where
  "open_op kind path exclusive pid tid appeared ino w =
     (case kind of Maintenance \<Rightarrow> maintenance_open path exclusive pid tid appeared ino w
      | Mutation \<Rightarrow> mutation_open path pid tid appeared ino w)"

definition enter_op :: "guard_kind \<Rightarrow> guard \<Rightarrow> world \<Rightarrow> lock_error + guard" where
  "enter_op kind g w = (case kind of Maintenance \<Rightarrow> maintenance_enter g w
     | Mutation \<Rightarrow> mutation_enter (g_pid g) (g_tid g) g w)"

definition holds_lock :: "world \<Rightarrow> guard \<Rightarrow> bool" where
  "holds_lock w g \<longleftrightarrow> list_ex (\<lambda>(fd, _). fd = g_fd g) (w_flocks w)"

text \<open>
  Any number of workers take guards of one kind, on any databases; between their steps the
  environment may replace directory entries and change file attributes at will. A descriptor
  keeps its inode, and only workers touch the table of locks.
\<close>

inductive ownership_step :: "guard_kind \<Rightarrow> world \<times> guard list \<Rightarrow> world \<times> guard list \<Rightarrow> bool" for kind where
  Open: "open_op kind path exclusive pid tid appeared ino w = Inr (g, w')
    \<Longrightarrow> ownership_step kind (w, gs) (w', g # gs)"
| Lock: "g \<in> set gs \<Longrightarrow> lock_op kind g w = Inr w' \<Longrightarrow> ownership_step kind (w, gs) (w', gs)"
| Enter: "holds_lock w g \<Longrightarrow> enter_op kind g w = Inr g'
    \<Longrightarrow> ownership_step kind (w, xs @ g # ys) (w, xs @ g' # ys)"
| Leave: "ownership_step kind (w, xs @ g # ys) (close_fd (g_fd g) w, xs @ ys)"
| Environment: "w_flocks w' = w_flocks w
    \<Longrightarrow> map (\<lambda>(fd, st). (fd, identity st)) (w_fstat w') = map (\<lambda>(fd, st). (fd, identity st)) (w_fstat w)
    \<Longrightarrow> ownership_step kind (w, gs) (w', gs)"

inductive reachable :: "guard_kind \<Rightarrow> world \<times> guard list \<Rightarrow> bool" for kind where
  Start: "w_flocks w = [] \<Longrightarrow> reachable kind (w, [])"
| Step: "reachable kind s \<Longrightarrow> ownership_step kind s s' \<Longrightarrow> reachable kind s'"

definition fd_inode :: "world \<Rightarrow> int \<Rightarrow> inode option" where
  "fd_inode w fd = map_option identity (map_of (w_fstat w) fd)"

definition table_ok :: "world \<Rightarrow> bool" where
  "table_ok w \<longleftrightarrow> distinct (map fst (w_flocks w))
     \<and> (\<forall>(fd, i, ex) \<in> set (w_flocks w). fd_inode w fd = Some i)
     \<and> (\<forall>(fd, i, ex) \<in> set (w_flocks w). \<forall>(fd', i', ex') \<in> set (w_flocks w).
          fd \<noteq> fd' \<and> i = i' \<longrightarrow> \<not> ex \<and> \<not> ex')"

definition sidecar_path :: "guard_kind \<Rightarrow> string \<Rightarrow> string" where
  "sidecar_path kind path = path_join (path_dirname path) (''.'' @ path_basename path
     @ (case kind of Maintenance \<Rightarrow> ''.ownership-maintenance.lock'' | Mutation \<Rightarrow> ''.file-mutation.lock''))"

definition guard_ok :: "guard_kind \<Rightarrow> world \<Rightarrow> guard \<Rightarrow> bool" where
  "guard_ok kind w g \<longleftrightarrow> fd_inode w (g_fd g) \<noteq> None \<and> g_lock_path g = sidecar_path kind (g_path g)
     \<and> (kind = Mutation \<longrightarrow> g_exclusive g) \<and> (g_active g \<longrightarrow> holds_lock w g)
     \<and> (\<forall>(fd, i, ex) \<in> set (w_flocks w). fd = g_fd g \<longrightarrow> ex = g_exclusive g)"

definition guards_ok :: "guard_kind \<Rightarrow> world \<Rightarrow> guard list \<Rightarrow> bool" where
  "guards_ok kind w gs \<longleftrightarrow> distinct (map g_fd gs) \<and> list_all (guard_ok kind w) gs"

subsection \<open>Exclusion, from the laws of verification\<close>

text \<open>What a successful verification promises, whatever else the guard checks.\<close>

locale advisory_lock =
  fixes verify :: "world \<Rightarrow> guard \<Rightarrow> bool"
  assumes verify_named: "verify w g \<Longrightarrow> map_option identity (w_lstat w (g_lock_path g)) = Some (g_lock_id g)"
    and verify_held: "verify w g \<Longrightarrow> fd_inode w (g_fd g) = Some (g_lock_id g)"
begin

lemma same_inode:
  assumes "verify w g" "verify w h" "g_lock_path g = g_lock_path h"
  shows "fd_inode w (g_fd g) = fd_inode w (g_fd h)"
  using verify_named [OF assms(1)] verify_named [OF assms(2)] verify_held [OF assms(1)] verify_held [OF assms(2)] assms(3)
  by simp

lemma exclusion:
  assumes "table_ok w" "verify w g" "verify w h" "g_lock_path g = g_lock_path h" "g_fd g \<noteq> g_fd h"
    "(g_fd g, i, ex) \<in> set (w_flocks w)" "(g_fd h, j, ex') \<in> set (w_flocks w)"
  shows "\<not> ex \<and> \<not> ex'"
proof -
  have "fd_inode w (g_fd g) = Some i" "fd_inode w (g_fd h) = Some j"
    using assms(1,6,7) by (auto simp: table_ok_def)
  with same_inode [OF assms(2,3,4)] have "i = j" by simp
  with assms(1,5,6,7) show ?thesis by (fastforce simp: table_ok_def)
qed

end

lemma verify_entry_identity:
  "verify_entry w g d c \<Longrightarrow> \<exists>st. c = Inr st \<and> identity st = g_lock_id g"
  by (auto simp: verify_entry_def split: sum.splits)

lemma lstat_identity: "lstat w p = Inr st \<Longrightarrow> map_option identity (w_lstat w p) = Some (identity st)"
  by (auto simp: lstat_def split: option.splits)

lemma fstat_identity: "fstat w fd = Inr st \<Longrightarrow> fd_inode w fd = Some (identity st)"
  by (auto simp: fstat_def fd_inode_def split: option.splits)

interpretation maintenance: advisory_lock maintenance_verify
proof
  fix w g
  assume "maintenance_verify w g"
  then obtain d where v: "verify_entry w g d (fstat w (g_fd g))" "verify_entry w g d (lstat w (g_lock_path g))"
    by (auto simp: maintenance_verify_def split: sum.splits)
  from verify_entry_identity [OF v(2)] lstat_identity
  show "map_option identity (w_lstat w (g_lock_path g)) = Some (g_lock_id g)" by fastforce
  from verify_entry_identity [OF v(1)] fstat_identity
  show "fd_inode w (g_fd g) = Some (g_lock_id g)" by fastforce
qed

interpretation mutation: advisory_lock mutation_verify_identity
proof
  fix w g
  assume "mutation_verify_identity w g"
  then obtain d where v: "verify_entry w g d (fstat w (g_fd g))" "verify_entry w g d (lstat w (g_lock_path g))"
    by (auto simp: mutation_verify_identity_def split: sum.splits)
  from verify_entry_identity [OF v(2)] lstat_identity
  show "map_option identity (w_lstat w (g_lock_path g)) = Some (g_lock_id g)" by fastforce
  from verify_entry_identity [OF v(1)] fstat_identity
  show "fd_inode w (g_fd g) = Some (g_lock_id g)" by fastforce
qed

subsection \<open>The invariant\<close>

lemma fresh_fd_above: "fd \<in> fst ` set (w_fstat w) \<Longrightarrow> fd < fresh_fd w"
proof -
  assume "fd \<in> fst ` set (w_fstat w)"
  then have "fd \<le> Max (set (2 # map fst (w_fstat w)))" by (intro Max_ge) auto
  then show ?thesis by (simp add: fresh_fd_def)
qed

lemma fresh_fd_lstat [simp]: "fresh_fd (w\<lparr>w_lstat := f\<rparr>) = fresh_fd w"
  by (simp add: fresh_fd_def)

lemma fd_inode_fresh: "fd_inode w (fresh_fd w) = None"
proof -
  have "fresh_fd w \<notin> fst ` set (w_fstat w)" using fresh_fd_above [of "fresh_fd w" w] by blast
  then show ?thesis by (simp add: fd_inode_def map_of_eq_None_iff)
qed

definition opened :: "world \<Rightarrow> int \<Rightarrow> world \<Rightarrow> bool" where
  "opened w fd w' \<longleftrightarrow> fd = fresh_fd w \<and> w_flocks w' = w_flocks w \<and> (\<exists>st. w_fstat w' = (fd, st) # w_fstat w)"

lemma open_existing_opened: "open_existing p d e w = Inr ((fd, ex), w') \<Longrightarrow> opened w fd w'"
  by (auto simp: open_existing_def os_open_def opened_def split: sum.splits option.splits)

lemma open_sidecar_opened: "open_sidecar p d a i w = Inr ((fd, ex), w') \<Longrightarrow> opened w fd w'"
proof (cases "w_lstat w p")
  case (Some e)
  then show "open_sidecar p d a i w = Inr ((fd, ex), w') \<Longrightarrow> ?thesis"
    by (simp add: open_sidecar_def open_existing_opened)
next
  case None
  assume o: "open_sidecar p d a i w = Inr ((fd, ex), w')"
  show ?thesis
  proof (cases a)
    case None
    with \<open>w_lstat w p = None\<close> o show ?thesis
      by (auto simp: open_sidecar_def os_create_def opened_def Let_def)
  next
    case (Some st)
    with \<open>w_lstat w p = None\<close> o
    have "open_existing p d st (w\<lparr>w_lstat := (w_lstat w)(p \<mapsto> st)\<rparr>) = Inr ((fd, ex), w')"
      by (simp add: open_sidecar_def)
    from open_existing_opened [OF this] show ?thesis by (auto simp: opened_def)
  qed
qed

lemma open_guard_spec:
  assumes "open_guard suffix path d exclusive pid tid a i w = Inr (g, w')"
  shows "opened w (g_fd g) w'" "g_path g = path" "\<not> g_active g" "g_exclusive g = exclusive"
    "g_lock_path g = path_join (path_dirname path) (''.'' @ path_basename path @ suffix)"
  using assms by (auto simp: open_guard_def Let_def split: sum.splits dest!: open_sidecar_opened)

lemma open_op_spec:
  assumes "open_op kind path exclusive pid tid a i w = Inr (g, w')"
  shows "opened w (g_fd g) w'" "\<not> g_active g" "kind = Mutation \<longrightarrow> g_exclusive g"
    "g_lock_path g = sidecar_path kind (g_path g)"
proof -
  have "opened w (g_fd g) w' \<and> \<not> g_active g \<and> (kind = Mutation \<longrightarrow> g_exclusive g)
      \<and> g_lock_path g = sidecar_path kind (g_path g)"
  proof (cases kind)
    case Maintenance
    with assms obtain d where "open_guard ''.ownership-maintenance.lock'' path d exclusive pid tid a i w = Inr (g, w')"
      by (auto simp: open_op_def maintenance_open_def split: sum.splits)
    from open_guard_spec [OF this] Maintenance show ?thesis by (simp add: sidecar_path_def)
  next
    case Mutation
    with assms obtain d where "open_guard ''.file-mutation.lock'' path d True pid tid a i w = Inr (g, w')"
      by (auto simp: open_op_def mutation_open_def split: sum.splits if_splits)
    from open_guard_spec [OF this] Mutation show ?thesis by (simp add: sidecar_path_def)
  qed
  then show "opened w (g_fd g) w'" "\<not> g_active g" "kind = Mutation \<longrightarrow> g_exclusive g"
    "g_lock_path g = sidecar_path kind (g_path g)" by blast+
qed

lemma lock_op_flock:
  "lock_op kind g w = Inr w' \<Longrightarrow> (kind = Mutation \<longrightarrow> g_exclusive g) \<Longrightarrow> flock_nb (g_fd g) (g_exclusive g) w = Inr w'"
  by (cases kind) (auto simp: lock_op_def maintenance_lock_def mutation_lock_def split: if_splits)

lemma enter_op_active: "enter_op kind g w = Inr g' \<Longrightarrow> g' = g\<lparr>g_active := True\<rparr> \<and> verified kind w g"
  by (cases kind) (auto simp: enter_op_def maintenance_enter_def mutation_enter_def mutation_verify_def
      verified_def Let_def mutation_verify_identity_def verify_parent_def verify_entry_def split: if_splits sum.splits)

lemma flock_spec:
  assumes "flock_nb fd exclusive w = Inr w'"
  shows "\<exists>i. fd_inode w fd = Some i \<and> w_fstat w' = w_fstat w
    \<and> w_flocks w' = (fd, i, exclusive) # filter (\<lambda>(f, _). f \<noteq> fd) (w_flocks w)
    \<and> (\<forall>(fd', i', ex) \<in> set (w_flocks w). i' = i \<and> fd' \<noteq> fd \<longrightarrow> \<not> ex \<and> \<not> exclusive)"
proof -
  from assms obtain st where st: "map_of (w_fstat w) fd = Some st" by (auto simp: flock_nb_def split: option.splits)
  let ?busy = "list_ex (\<lambda>(fd', i, ex). fd' \<noteq> fd \<and> i = identity st \<and> (ex \<or> exclusive)) (w_flocks w)"
  have b: "\<not> ?busy" and w': "w' = w\<lparr>w_flocks := (fd, identity st, exclusive) # filter (\<lambda>(f, _). f \<noteq> fd) (w_flocks w)\<rparr>"
    using assms st by (auto simp: flock_nb_def split: if_splits)
  have "\<forall>(fd', i', ex) \<in> set (w_flocks w). i' = identity st \<and> fd' \<noteq> fd \<longrightarrow> \<not> ex \<and> \<not> exclusive"
    using b unfolding list_ex_iff by blast
  with st w' show ?thesis by (intro exI [of _ "identity st"]) (simp add: fd_inode_def)
qed

lemma fd_inode_opened: "opened w fd w' \<Longrightarrow> fd_inode w x \<noteq> None \<Longrightarrow> fd_inode w' x = fd_inode w x"
  using fd_inode_fresh [of w] by (auto simp: opened_def fd_inode_def)

lemma distinct_fst_filter: "distinct (map fst xs) \<Longrightarrow> distinct (map fst (filter P xs))"
  by (rule distinct_map_filter)

lemma table_ok_flock:
  assumes "table_ok w" "flock_nb fd exclusive w = Inr w'"
  shows "table_ok w'"
proof -
  from assms(2) obtain i where f: "fd_inode w fd = Some i" "w_fstat w' = w_fstat w"
    "w_flocks w' = (fd, i, exclusive) # filter (\<lambda>(f, _). f \<noteq> fd) (w_flocks w)"
    "\<forall>(fd', i', ex) \<in> set (w_flocks w). i' = i \<and> fd' \<noteq> fd \<longrightarrow> \<not> ex \<and> \<not> exclusive"
    using flock_spec by blast
  have ino: "fd_inode w' = fd_inode w" by (simp add: fd_inode_def f(2) fun_eq_iff)
  have "distinct (map fst (w_flocks w'))"
    using assms(1) f(3) distinct_fst_filter by (auto simp: table_ok_def)
  moreover have "\<forall>(fd, i, ex) \<in> set (w_flocks w'). fd_inode w' fd = Some i"
    using assms(1) f(1) unfolding f(3) ino table_ok_def by auto
  moreover have "\<forall>(fd1, i1, ex1) \<in> set (w_flocks w'). \<forall>(fd2, i2, ex2) \<in> set (w_flocks w').
      fd1 \<noteq> fd2 \<and> i1 = i2 \<longrightarrow> \<not> ex1 \<and> \<not> ex2"
    using assms(1) f(4) unfolding f(3) table_ok_def by fastforce
  ultimately show ?thesis by (simp add: table_ok_def)
qed


definition ownership_inv :: "guard_kind \<Rightarrow> world \<times> guard list \<Rightarrow> bool" where
  "ownership_inv kind s \<longleftrightarrow> table_ok (fst s) \<and> guards_ok kind (fst s) (snd s)"

lemma guard_ok_fd: "guard_ok kind w g \<Longrightarrow> fd_inode w (g_fd g) \<noteq> None"
  by (simp add: guard_ok_def)

lemma table_fds: "table_ok w \<Longrightarrow> (fd, i, ex) \<in> set (w_flocks w) \<Longrightarrow> fd_inode w fd = Some i"
  by (auto simp: table_ok_def)

lemma inv_open:
  assumes "table_ok w" "guards_ok kind w gs" "open_op kind path exclusive pid tid a i w = Inr (g, w')"
  shows "table_ok w' \<and> guards_ok kind w' (g # gs)"
proof -
  note o = open_op_spec [OF assms(3)]
  have fd: "g_fd g = fresh_fd w" and fl: "w_flocks w' = w_flocks w" using o(1) by (auto simp: opened_def)
  have keep: "fd_inode w' x = fd_inode w x" if "fd_inode w x \<noteq> None" for x by (rule fd_inode_opened [OF o(1) that])
  have "table_ok w'" unfolding table_ok_def fl
    using assms(1) keep table_fds [OF assms(1)] by (auto simp: table_ok_def)
  moreover have "list_all (guard_ok kind w') gs"
    using assms(2) keep unfolding guards_ok_def by (auto simp: list_all_iff guard_ok_def fl holds_lock_def)
  moreover have "g_fd g \<notin> g_fd ` set gs"
    using assms(2) fd_inode_fresh [of w] unfolding fd guards_ok_def by (auto simp: list_all_iff guard_ok_def)
  moreover have "guard_ok kind w' g"
  proof -
    have "fd_inode w' (g_fd g) \<noteq> None" using o(1) by (auto simp: opened_def fd_inode_def)
    moreover have "fd' \<noteq> g_fd g" if "(fd', i', ex) \<in> set (w_flocks w')" for fd' i' ex
    proof
      assume "fd' = g_fd g"
      with that have "(fresh_fd w, i', ex) \<in> set (w_flocks w)" unfolding fl fd by simp
      from table_fds [OF assms(1) this] fd_inode_fresh [of w] show False by simp
    qed
    ultimately show ?thesis using o(2,3,4) by (fastforce simp: guard_ok_def)
  qed
  ultimately show ?thesis using assms(2) by (simp add: guards_ok_def)
qed

lemma inv_lock:
  assumes "table_ok w" "guards_ok kind w gs" "g \<in> set gs" "lock_op kind g w = Inr w'"
  shows "table_ok w' \<and> guards_ok kind w' gs"
proof -
  have gok: "guard_ok kind w g" using assms(2,3) by (simp add: guards_ok_def list_all_iff)
  have fl: "flock_nb (g_fd g) (g_exclusive g) w = Inr w'"
    using lock_op_flock [OF assms(4)] gok by (simp add: guard_ok_def)
  from flock_spec [OF fl] obtain i where f: "w_fstat w' = w_fstat w"
    "w_flocks w' = (g_fd g, i, g_exclusive g) # filter (\<lambda>(f, _). f \<noteq> g_fd g) (w_flocks w)" by blast
  have ino: "fd_inode w' = fd_inode w" by (simp add: fd_inode_def f(1) fun_eq_iff)
  have "guard_ok kind w' h" if h: "h \<in> set gs" for h
  proof (cases "h = g")
    case True
    with gok show ?thesis unfolding guard_ok_def ino f(2) by (auto simp: holds_lock_def f(2))
  next
    case False
    have "g_fd h \<noteq> g_fd g"
    proof
      assume "g_fd h = g_fd g"
      with assms(2,3) h have "h = g" using distinct_key_unique [of g_fd gs h g] by (simp add: guards_ok_def)
      with False show False by simp
    qed
    moreover have "guard_ok kind w h" using assms(2) h by (simp add: guards_ok_def list_all_iff)
    ultimately show ?thesis unfolding guard_ok_def ino f(2) by (auto simp: holds_lock_def f(2) list_ex_iff)
  qed
  then have "guards_ok kind w' gs" using assms(2) by (simp add: guards_ok_def list_all_iff)
  with table_ok_flock [OF assms(1) fl] show ?thesis ..
qed

lemma map_of_without: "map_of (filter (\<lambda>(f, _). f \<noteq> fd) xs) x = (if x = fd then None else map_of xs x)"
  by (induction xs) auto

lemma fd_inode_close: "fd_inode (close_fd fd w) x = (if x = fd then None else fd_inode w x)"
  unfolding fd_inode_def close_fd_def by (simp add: map_of_without)

lemma inv_leave:
  assumes "table_ok w" "guards_ok kind w (xs @ g # ys)"
  shows "table_ok (close_fd (g_fd g) w) \<and> guards_ok kind (close_fd (g_fd g) w) (xs @ ys)"
proof -
  let ?w = "close_fd (g_fd g) w"
  have fl: "w_flocks ?w = filter (\<lambda>(f, _). f \<noteq> g_fd g) (w_flocks w)" by (simp add: close_fd_def)
  have "table_ok ?w"
    using assms(1) unfolding table_ok_def fl fd_inode_close by (auto intro: distinct_fst_filter)
  moreover have "guard_ok kind ?w h" if h: "h \<in> set (xs @ ys)" for h
  proof -
    have "g_fd g \<notin> g_fd ` set (xs @ ys)" "guard_ok kind w h"
      using assms(2) h by (auto simp: guards_ok_def list_all_iff)
    with h have "g_fd h \<noteq> g_fd g" "guard_ok kind w h" by (metis image_eqI, blast)
    then show ?thesis unfolding guard_ok_def fl fd_inode_close by (auto simp: holds_lock_def fl list_ex_iff)
  qed
  ultimately show ?thesis using assms(2) by (simp add: guards_ok_def list_all_iff)
qed

lemma fd_inode_env:
  assumes "map (\<lambda>(fd, st). (fd, identity st)) (w_fstat w') = map (\<lambda>(fd, st). (fd, identity st)) (w_fstat w)"
  shows "fd_inode w' = fd_inode w"
proof -
  have "fd_inode v x = map_of (map (\<lambda>(fd, st). (fd, identity st)) (w_fstat v)) x" for v x
    by (simp add: fd_inode_def map_of_map)
  with assms show ?thesis by (simp add: fun_eq_iff)
qed

lemma ownership_inv_step: "ownership_step kind s s' \<Longrightarrow> ownership_inv kind s \<Longrightarrow> ownership_inv kind s'"
proof (induction rule: ownership_step.induct)
  case (Open path exclusive pid tid appeared ino w g w' gs)
  then show ?case unfolding ownership_inv_def fst_conv snd_conv by (blast dest: inv_open)
next
  case (Lock g gs w w')
  then show ?case unfolding ownership_inv_def fst_conv snd_conv by (blast dest: inv_lock)
next
  case (Enter w g g' xs ys)
  then have "g' = g\<lparr>g_active := True\<rparr>" using enter_op_active by blast
  with Enter show ?case
    by (simp add: ownership_inv_def guards_ok_def guard_ok_def holds_lock_def)
next
  case (Leave w xs g ys)
  then show ?case unfolding ownership_inv_def fst_conv snd_conv by (blast dest: inv_leave)
next
  case (Environment w' w gs)
  note ino = fd_inode_env [OF Environment(2)]
  have "guard_ok kind w' = guard_ok kind w"
    by (intro ext) (simp add: guard_ok_def holds_lock_def ino Environment(1))
  with Environment(3) show ?case
    by (simp add: ownership_inv_def table_ok_def guards_ok_def ino Environment(1))
qed

lemma reachable_inv: "reachable kind s \<Longrightarrow> ownership_inv kind s"
proof (induction rule: reachable.induct)
  case (Start w)
  then show ?case by (simp add: ownership_inv_def table_ok_def guards_ok_def)
next
  case (Step s s')
  then show ?case using ownership_inv_step by blast
qed


lemma active_entry:
  assumes "reachable kind (w, gs)" "g \<in> set gs" "g_active g"
  obtains i where "(g_fd g, i, g_exclusive g) \<in> set (w_flocks w)"
proof -
  have "guard_ok kind w g"
    using reachable_inv [OF assms(1)] assms(2) by (simp add: ownership_inv_def guards_ok_def list_all_iff)
  then have "holds_lock w g" "\<forall>(fd, i, ex) \<in> set (w_flocks w). fd = g_fd g \<longrightarrow> ex = g_exclusive g"
    using assms(3) by (simp_all add: guard_ok_def)
  then obtain i ex where "(g_fd g, i, ex) \<in> set (w_flocks w)" "ex = g_exclusive g"
    unfolding holds_lock_def list_ex_iff by fast
  with that show thesis by blast
qed

lemma guard_in:
  assumes "reachable kind (w, gs)" "g \<in> set gs"
  shows "g_lock_path g = sidecar_path kind (g_path g)" "kind = Mutation \<Longrightarrow> g_exclusive g"
  using reachable_inv [OF assms(1)] assms(2)
  by (auto simp: ownership_inv_def guards_ok_def list_all_iff guard_ok_def)

lemma verified_exclusion:
  assumes "table_ok w" "verified kind w g" "verified kind w h" "g_lock_path g = g_lock_path h" "g_fd g \<noteq> g_fd h"
    "(g_fd g, i, ex) \<in> set (w_flocks w)" "(g_fd h, j, ex') \<in> set (w_flocks w)"
  shows "\<not> ex \<and> \<not> ex'"
  using assms maintenance.exclusion [of w g h i ex j ex'] mutation.exclusion [of w g h i ex j ex']
  by (cases kind) (simp_all add: verified_def)

subsection \<open>Properties\<close>

text \<open>
  C10: Whatever the environment does to the sidecar, the database entry and their directory
  between the steps, two workers whose guards of one database are both entered and both pass
  verification hold it shared: no exclusive maintenance owner coexists with any other owner, and
  two file mutation guards never coexist.\<close>

theorem guards_exclude:
  assumes "reachable kind (w, gs)" "g \<in> set gs" "h \<in> set gs" "g_active g" "g_active h"
    "verified kind w g" "verified kind w h" "g_path g = g_path h" "g_fd g \<noteq> g_fd h"
  shows "kind = Maintenance \<and> \<not> g_exclusive g \<and> \<not> g_exclusive h"
proof -
  obtain i j where e: "(g_fd g, i, g_exclusive g) \<in> set (w_flocks w)" "(g_fd h, j, g_exclusive h) \<in> set (w_flocks w)"
    using active_entry [OF assms(1,2,4)] active_entry [OF assms(1,3,5)] by metis
  have t: "table_ok w" using reachable_inv [OF assms(1)] by (simp add: ownership_inv_def)
  have p: "g_lock_path g = g_lock_path h"
    using guard_in(1) [OF assms(1,2)] guard_in(1) [OF assms(1,3)] assms(8) by simp
  have "\<not> g_exclusive g \<and> \<not> g_exclusive h"
    by (rule verified_exclusion [OF t assms(6,7) p assms(9) e])
  moreover from this have "kind \<noteq> Mutation" using guard_in(2) [OF assms(1,2)] by blast
  ultimately show ?thesis by (cases kind) auto
qed

text \<open>
  C11: While an exclusive owner has entered and verifies, no other worker that opened a guard of
  the same database obtains the lock: the attempt fails at once, busy or refused.\<close>

theorem second_owner_refused:
  assumes "reachable kind (w, gs)" "g \<in> set gs" "h \<in> set gs" "g_active g" "g_exclusive g"
    "verified kind w g" "g_path g = g_path h" "g_fd g \<noteq> g_fd h"
  shows "lock_op kind h w = (if verified kind w h then Inl LockBusy else Inl LockError)"
proof (cases "verified kind w h")
  case False
  then show ?thesis by (cases kind) (simp_all add: lock_op_def verified_def maintenance_lock_def mutation_lock_def)
next
  case True
  obtain i where e: "(g_fd g, i, True) \<in> set (w_flocks w)"
    using active_entry [OF assms(1,2,4)] assms(5) by metis
  have t: "table_ok w" using reachable_inv [OF assms(1)] by (simp add: ownership_inv_def)
  have p: "g_lock_path g = g_lock_path h"
    using guard_in(1) [OF assms(1,2)] guard_in(1) [OF assms(1,3)] assms(7) by simp
  have same: "fd_inode w (g_fd h) = Some i"
    using table_fds [OF t e] maintenance.same_inode [of w g h] mutation.same_inode [of w g h] True assms(6) p
    by (cases kind) (simp_all add: verified_def)
  then obtain st where st: "map_of (w_fstat w) (g_fd h) = Some st" "identity st = i" by (auto simp: fd_inode_def)
  have "list_ex (\<lambda>(fd', i', ex'). fd' \<noteq> g_fd h \<and> i' = identity st \<and> (ex' \<or> x)) (w_flocks w)" for x
    unfolding list_ex_iff using e st(2) assms(8) by (intro bexI [of _ "(g_fd g, i, True)"]) auto
  then have "flock_nb (g_fd h) x w = Inl LockBusy" for x by (simp add: flock_nb_def st(1))
  with True show ?thesis
    by (cases kind) (simp_all add: lock_op_def verified_def maintenance_lock_def mutation_lock_def)
qed

text \<open>
  The exclusive-maintenance assertion succeeds only for an entered exclusive owner of this
  very process, thread and database, whose sidecar is not the database file, and then no other
  entered guard of the database passes verification.\<close>

theorem exclusive_assertion_sound:
  assumes "reachable Maintenance (w, gs)" "assert_exclusive_maintenance gs pid tid path w = Inr g"
  shows "g \<in> set gs \<and> g_active g \<and> g_exclusive g \<and> g_pid g = pid \<and> g_tid g = tid \<and> g_path g = path
    \<and> database_identity w path \<noteq> Inr (Some (g_lock_id g))
    \<and> list_all (\<lambda>h. if g_active h \<and> g_path h = path \<and> g_fd h \<noteq> g_fd g then \<not> maintenance_verify w h else True) gs"
proof -
  let ?P = "\<lambda>g. g_active g \<and> g_exclusive g \<and> g_pid g = pid \<and> g_tid g = tid \<and> g_path g = path"
  from assms(2) have f: "find ?P gs = Some g" and v: "maintenance_verify w g"
    by (auto simp: assert_exclusive_maintenance_def split: option.splits if_splits)
  from f have g: "g \<in> set gs" "?P g" by (auto simp: find_Some_iff)
  have "\<not> maintenance_verify w h" if "h \<in> set gs" "g_active h" "g_path h = path" "g_fd h \<noteq> g_fd g" for h
    using guards_exclude [OF assms(1) g(1) that(1)] g(2) that v by (auto simp: verified_def)
  moreover have "database_identity w path \<noteq> Inr (Some (g_lock_id g))"
    using v g(2) by (auto simp: maintenance_verify_def verify_entry_def validate_lock_def split: sum.splits if_splits)
  ultimately show ?thesis using g by (auto simp: list_all_iff)
qed


subsection \<open>Concrete runs\<close>

definition demo_world :: world where
  "demo_world = \<lparr>w_lstat = (\<lambda>_. None)(
       ''/c'' \<mapsto> \<lparr>st_reg = False, st_dir = True, st_dev = 8, st_ino = 1, st_uid = 0, st_mode = 0x1ED, st_size = 0, st_nlink = 2\<rparr>,
       ''/c/m.db'' \<mapsto> \<lparr>st_reg = True, st_dir = False, st_dev = 8, st_ino = 2, st_uid = 1000, st_mode = 0x1A4, st_size = 100, st_nlink = 1\<rparr>),
     w_fstat = [], w_flocks = [], w_inheritable = [], w_euid = 1000\<rparr>"

definition take_guard :: "guard_kind \<Rightarrow> bool \<Rightarrow> int \<Rightarrow> world \<times> guard list \<Rightarrow> lock_error + world \<times> guard list" where
  "take_guard kind exclusive pid s =
     (case open_op kind ''/c/m.db'' exclusive pid pid None (8, 100) (fst s) of
        Inl e \<Rightarrow> Inl e
      | Inr (g, w1) \<Rightarrow>
          (case lock_op kind g w1 of
             Inl e \<Rightarrow> Inl e
           | Inr w2 \<Rightarrow> (case enter_op kind g w2 of Inl e \<Rightarrow> Inl e | Inr g' \<Rightarrow> Inr (w2, g' # snd s))))"

definition only_open :: "guard_kind \<Rightarrow> bool \<Rightarrow> int \<Rightarrow> world \<times> guard list \<Rightarrow> lock_error + world \<times> guard list" where
  "only_open kind exclusive pid s =
     (case open_op kind ''/c/m.db'' exclusive pid pid None (8, 100) (fst s) of
        Inl e \<Rightarrow> Inl e | Inr (g, w1) \<Rightarrow> Inr (w1, g # snd s))"

lemma only_open_reachable: "reachable kind s \<Longrightarrow> only_open kind exclusive pid s = Inr s' \<Longrightarrow> reachable kind s'"
proof -
  assume r: "reachable kind s" and o: "only_open kind exclusive pid s = Inr s'"
  obtain w gs where s: "s = (w, gs)" by fastforce
  from o s obtain g w1 where "open_op kind ''/c/m.db'' exclusive pid pid None (8, 100) w = Inr (g, w1)" "s' = (w1, g # gs)"
    by (auto simp: only_open_def split: sum.splits)
  with r s show ?thesis using reachable.Step ownership_step.Open by blast
qed

lemma take_guard_reachable: "reachable kind s \<Longrightarrow> take_guard kind exclusive pid s = Inr s' \<Longrightarrow> reachable kind s'"
proof -
  assume r: "reachable kind s" and o: "take_guard kind exclusive pid s = Inr s'"
  obtain w gs where s: "s = (w, gs)" by fastforce
  from o s obtain g w1 w2 g' where st: "open_op kind ''/c/m.db'' exclusive pid pid None (8, 100) w = Inr (g, w1)"
    "lock_op kind g w1 = Inr w2" "enter_op kind g w2 = Inr g'" "s' = (w2, g' # gs)"
    by (auto simp: take_guard_def split: sum.splits)
  have "flock_nb (g_fd g) (g_exclusive g) w1 = Inr w2"
    using lock_op_flock [OF st(2)] open_op_spec(3) [OF st(1)] by blast
  from flock_spec [OF this] have "holds_lock w2 g" by (auto simp: holds_lock_def)
  from ownership_step.Enter [OF this st(3), of "[]" gs] have e: "ownership_step kind (w2, g # gs) (w2, g' # gs)" by simp
  have "reachable kind (w1, g # gs)" using r s reachable.Step ownership_step.Open [OF st(1)] by blast
  then have "reachable kind (w2, g # gs)"
    by (rule reachable.Step) (rule ownership_step.Lock [OF _ st(2)], simp)
  then show ?thesis unfolding st(4) by (rule reachable.Step) (rule e)
qed

definition demo_owner :: "guard_kind \<Rightarrow> bool \<Rightarrow> world \<times> guard list" where
  "demo_owner kind exclusive = (case take_guard kind exclusive 10 (demo_world, []) of Inr s \<Rightarrow> s | Inl _ \<Rightarrow> (demo_world, []))"

definition demo_shared :: "world \<times> guard list" where
  "demo_shared = (case take_guard Maintenance False 11 (demo_owner Maintenance False) of Inr s \<Rightarrow> s | Inl _ \<Rightarrow> (demo_world, []))"

definition demo_contender :: "world \<times> guard list" where
  "demo_contender = (case only_open Mutation True 11 (demo_owner Mutation True) of Inr s \<Rightarrow> s | Inl _ \<Rightarrow> (demo_world, []))"

lemma demo_start: "reachable kind (demo_world, [])"
  by (rule reachable.Start) (simp add: demo_world_def)

lemma demo_reachable:
  "reachable kind (demo_owner kind exclusive)" "reachable Maintenance demo_shared" "reachable Mutation demo_contender"
proof -
  show o: "reachable kind (demo_owner kind exclusive)" for kind exclusive
    unfolding demo_owner_def using demo_start take_guard_reachable [OF demo_start] by (auto split: sum.splits)
  show "reachable Maintenance demo_shared"
    unfolding demo_shared_def using demo_start take_guard_reachable [OF o] by (auto split: sum.splits)
  show "reachable Mutation demo_contender"
    unfolding demo_contender_def using demo_start only_open_reachable [OF o] by (auto split: sum.splits)
qed

lemma demo_shared_facts:
  "case demo_shared of (w, [h, g]) \<Rightarrow> g_active g \<and> g_active h \<and> verified Maintenance w g \<and> verified Maintenance w h
     \<and> g_path g = g_path h \<and> g_fd g \<noteq> g_fd h | _ \<Rightarrow> False"
  by code_simp

lemma demo_contender_facts:
  "case demo_contender of (w, [h, g]) \<Rightarrow> g_active g \<and> g_exclusive g \<and> verified Mutation w g \<and> verified Mutation w h
     \<and> g_path g = g_path h \<and> g_fd g \<noteq> g_fd h | _ \<Rightarrow> False"
  by code_simp

theorem guards_exclude_witness: "list_all (\<lambda>g. \<not> g_exclusive g) (snd demo_shared) \<and> length (snd demo_shared) = 2"
proof -
  from demo_shared_facts obtain w h g where s: "demo_shared = (w, [h, g])"
    "g_active g" "g_active h" "verified Maintenance w g" "verified Maintenance w h" "g_path g = g_path h" "g_fd g \<noteq> g_fd h"
    by (auto split: prod.splits list.splits)
  have "reachable Maintenance (w, [h, g])" using demo_reachable(2) s(1) by simp
  from guards_exclude [OF this _ _ s(2,3,4,5,6,7)] show ?thesis unfolding s(1) by simp
qed

theorem second_owner_refused_witness:
  "lock_op Mutation (hd (snd demo_contender)) (fst demo_contender) = Inl LockBusy"
proof -
  from demo_contender_facts obtain w h g where s: "demo_contender = (w, [h, g])"
    "g_active g" "g_exclusive g" "verified Mutation w g" "g_path g = g_path h" "g_fd g \<noteq> g_fd h" "verified Mutation w h"
    by (auto split: prod.splits list.splits)
  have "reachable Mutation (w, [h, g])" using demo_reachable(3) s(1) by simp
  from second_owner_refused [OF this _ _ s(2,3,4,5,6)] s(7) show ?thesis unfolding s(1) by simp
qed

theorem exclusive_assertion_sound_witness:
  "case assert_exclusive_maintenance (snd (demo_owner Maintenance True)) 10 10 ''/c/m.db'' (fst (demo_owner Maintenance True)) of
     Inr g \<Rightarrow> g_exclusive g \<and> g_tid g = 10 | Inl _ \<Rightarrow> False"
proof -
  let ?r = "assert_exclusive_maintenance (snd (demo_owner Maintenance True)) 10 10 ''/c/m.db'' (fst (demo_owner Maintenance True))"
  have "\<not> isl ?r" by code_simp
  then obtain g where g: "?r = Inr g" by (cases ?r) auto
  have "reachable Maintenance (fst (demo_owner Maintenance True), snd (demo_owner Maintenance True))"
    using demo_reachable(1) by simp
  from exclusive_assertion_sound [OF this g] g show ?thesis by simp
qed

end
