(* ===== verification/Release_Identity.thy ===== *)
theory Release_Identity
  imports Import_Policy
begin

text \<open>
  \<^verbatim>\<open>src/app/release_identity.py\<close>: observed release identities (which indexer epoch a release
  was seen at, its protocol and GUID), the durable text of a source context, the evidence kept
  in history rows, and the block list anchored at URLs. Constructors check their arguments as
  \<open>__post_init__\<close> does and take JSON values, so that a value of the wrong type is an argument
  too; every refusal is a \<open>ValueError\<close>.
\<close>

subsection \<open>Scopes\<close>

definition max_id :: int where
  "max_id = 9223372036854775807"

definition positive_int :: "int \<Rightarrow> bool" where
  "positive_int i \<longleftrightarrow> 0 < i \<and> i \<le> max_id"

definition positive_id :: "json \<Rightarrow> bool" where
  "positive_id v = (case v of JInt i \<Rightarrow> positive_int i | _ \<Rightarrow> False)"

definition scope_hex :: "char \<Rightarrow> bool" where
  "scope_hex c = (is_digit c \<or> c \<in> set ''abcdef'')"

text \<open>The regular expression \<open>bs1:([dp]):([0-9a-f]{64})(?::([1-9][0-9]{0,18}))?\<close>.\<close>

definition match_scope :: "string \<Rightarrow> (char \<times> string \<times> string option) option" where
  "match_scope s =
     (if take 4 s \<noteq> ''bs1:'' then None
      else case drop 4 s of
        kind # colon # rest \<Rightarrow>
          if kind \<notin> {CHR ''d'', CHR ''p''} \<or> colon \<noteq> CHR '':'' then None
          else
            (let epoch = take 64 rest; tail = drop 64 rest in
             if length epoch \<noteq> 64 \<or> \<not> list_all scope_hex epoch then None
             else case tail of
               [] \<Rightarrow> Some (kind, epoch, None)
             | c # ds \<Rightarrow>
                 if c = CHR '':'' \<and> ds \<noteq> [] \<and> length ds \<le> 19 \<and> list_all is_digit ds \<and> hd ds \<noteq> CHR ''0''
                 then Some (kind, epoch, Some ds) else None)
      | _ \<Rightarrow> None)"

definition parse_scope :: "json \<Rightarrow> bool \<Rightarrow> py_exn + char \<times> string \<times> int option" where
  "parse_scope value allow_root =
     (case (case value of JStr s \<Rightarrow> match_scope s | _ \<Rightarrow> None) of
        None \<Rightarrow> Inl ValueError
      | Some (kind, epoch, raw_sub) \<Rightarrow>
          (let sub = map_option (\<lambda>ds. int (undec ds)) raw_sub in
           if (kind = CHR ''d'' \<and> sub \<noteq> None)
              \<or> (case sub of None \<Rightarrow> False | Some i \<Rightarrow> \<not> positive_int i) then Inl ValueError
           else if kind = CHR ''p'' \<and> sub = None \<and> \<not> allow_root then Inl ValueError
           else Inr (kind, epoch, sub)))"

definition canonical_protocol :: "json \<Rightarrow> download_protocol option" where
  "canonical_protocol v =
     (case v of
        JStr s \<Rightarrow>
          (let normalized = py_lower (py_strip s) in
           if normalized = ''torrent'' then Some Torrent
           else if normalized = ''nzb'' \<or> normalized = ''usenet'' then Some Nzb else None)
      | _ \<Rightarrow> None)"

definition utf8_length :: "string \<Rightarrow> nat" where
  "utf8_length s = sum_list (map (\<lambda>c. if (of_char c :: nat) < 128 then 1 else 2) s)"

definition normalized_guid :: "json \<Rightarrow> string option" where
  "normalized_guid v =
     (case v of JStr s \<Rightarrow> (let guid = py_strip s in if guid \<noteq> [] \<and> utf8_length guid \<le> 4096 then Some guid else None)
      | _ \<Rightarrow> None)"

subsection \<open>Source contexts\<close>

datatype indexer_kind = Prowlarr | Torznab | Newznab

datatype purpose = Rss | Auto | Interactive

record source_context =
  sc_indexer :: int
  sc_scope :: string
  sc_impl :: indexer_kind
  sc_sub :: "int option"
  sc_protocol :: download_protocol
  sc_purpose :: purpose
  sc_series :: "int option"

definition impl_name :: "indexer_kind \<Rightarrow> string" where
  "impl_name k = (case k of Prowlarr \<Rightarrow> ''prowlarr'' | Torznab \<Rightarrow> ''torznab'' | Newznab \<Rightarrow> ''newznab'')"

definition purpose_name :: "purpose \<Rightarrow> string" where
  "purpose_name p = (case p of Rss \<Rightarrow> ''rss'' | Auto \<Rightarrow> ''auto'' | Interactive \<Rightarrow> ''interactive'')"

definition release_protocol_name :: "download_protocol \<Rightarrow> string" where
  "release_protocol_name p = (case p of Torrent \<Rightarrow> ''torrent'' | Nzb \<Rightarrow> ''nzb'')"

definition exact_protocol :: "json \<Rightarrow> download_protocol option" where
  "exact_protocol v = find (\<lambda>p. v = JStr (release_protocol_name p)) [Torrent, Nzb]"

definition exact_purpose :: "json \<Rightarrow> purpose option" where
  "exact_purpose v = find (\<lambda>p. v = JStr (purpose_name p)) [Rss, Auto, Interactive]"

definition exact_impl :: "json \<Rightarrow> indexer_kind option" where
  "exact_impl v = find (\<lambda>k. v = JStr (impl_name k)) [Prowlarr, Torznab, Newznab]"

definition json_id :: "json \<Rightarrow> int option option" where
  "json_id v = (case v of JNull \<Rightarrow> Some None | JInt i \<Rightarrow> if positive_int i then Some (Some i) else None | _ \<Rightarrow> None)"

definition make_source_context ::
  "json \<Rightarrow> json \<Rightarrow> json \<Rightarrow> json \<Rightarrow> json \<Rightarrow> json \<Rightarrow> json \<Rightarrow> py_exn + source_context" where
  "make_source_context indexer_id row_scope impl sub_id prot purp fetch_series_id =
     (case (positive_id indexer_id, json_id fetch_series_id, parse_scope row_scope True) of
        (True, Some series, Inr (kind, _, encoded_sub)) \<Rightarrow>
          (case (exact_protocol prot, exact_purpose purp, json_id sub_id) of
             (Some p, Some q, Some sub) \<Rightarrow>
               (let ctx = (\<lambda>k. \<lparr>sc_indexer = (case indexer_id of JInt i \<Rightarrow> i | _ \<Rightarrow> 0),
                      sc_scope = (case row_scope of JStr s \<Rightarrow> s | _ \<Rightarrow> []), sc_impl = k, sc_sub = sub,
                      sc_protocol = p, sc_purpose = q, sc_series = series\<rparr>)
                in case exact_impl impl of
                     Some Prowlarr \<Rightarrow>
                       if kind \<noteq> CHR ''p'' \<or> encoded_sub \<noteq> None \<or> sub = None then Inl ValueError else Inr (ctx Prowlarr)
                   | Some k \<Rightarrow>
                       if p \<noteq> (if k = Torznab then Torrent else Nzb)
                          \<or> (kind = CHR ''p'' \<and> encoded_sub = None) \<or> sub \<noteq> encoded_sub
                       then Inl ValueError else Inr (ctx k)
                   | None \<Rightarrow> Inl ValueError)
           | _ \<Rightarrow> Inl ValueError)
      | _ \<Rightarrow> Inl ValueError)"

definition source_scope :: "source_context \<Rightarrow> string" where
  "source_scope c =
     (if sc_impl c = Prowlarr then sc_scope c @ '':'' @ (case sc_sub c of Some i \<Rightarrow> dec_int i | None \<Rightarrow> ''None'')
      else sc_scope c)"

definition id_json :: "int option \<Rightarrow> json" where
  "id_json v = (case v of None \<Rightarrow> JNull | Some i \<Rightarrow> JInt i)"

text \<open>\<open>asdict\<close> with the version, keys sorted.\<close>

definition context_json :: "source_context \<Rightarrow> json" where
  "context_json c = JObj
     [(''fetch_series_id'', id_json (sc_series c)), (''implementation'', JStr (impl_name (sc_impl c))),
      (''indexer_id'', JInt (sc_indexer c)), (''protocol'', JStr (release_protocol_name (sc_protocol c))),
      (''purpose'', JStr (purpose_name (sc_purpose c))), (''row_scope'', JStr (sc_scope c)),
      (''sub_id'', id_json (sc_sub c)), (''version'', JInt 1)]"

definition encode_context :: "source_context \<Rightarrow> string" where
  "encode_context c = dumps True (context_json c)"

definition context_keys :: "string list" where
  "context_keys = [''version'', ''indexer_id'', ''row_scope'', ''implementation'', ''sub_id'', ''protocol'',
     ''purpose'', ''fetch_series_id'']"

definition field :: "(string \<times> json) list \<Rightarrow> string \<Rightarrow> json" where
  "field kvs k = (case map_of kvs k of Some j \<Rightarrow> j | None \<Rightarrow> JNull)"

definition context_of_json :: "json \<Rightarrow> py_exn + source_context" where
  "context_of_json data =
     (case data of
        JObj kvs \<Rightarrow>
          if set (map fst kvs) \<noteq> set context_keys \<or> field kvs ''version'' \<noteq> JInt 1 then Inl ValueError
          else make_source_context (field kvs ''indexer_id'') (field kvs ''row_scope'') (field kvs ''implementation'')
                 (field kvs ''sub_id'') (field kvs ''protocol'') (field kvs ''purpose'') (field kvs ''fetch_series_id'')
      | _ \<Rightarrow> Inl ValueError)"

definition decode_context :: "string \<Rightarrow> py_exn + source_context" where
  "decode_context value = (case loads_unique value of None \<Rightarrow> Inl ValueError | Some data \<Rightarrow> context_of_json data)"

subsection \<open>Release identities\<close>

record release_identity =
  ri_series :: int
  ri_scope :: string
  ri_protocol :: download_protocol
  ri_guid :: string

definition make_release_identity :: "json \<Rightarrow> json \<Rightarrow> json \<Rightarrow> json \<Rightarrow> py_exn + release_identity" where
  "make_release_identity series_id scope prot guid =
     (case (series_id, exact_protocol prot, parse_scope scope False, normalized_guid guid) of
        (JInt i, Some p, Inr _, Some g) \<Rightarrow>
          if positive_int i
          then Inr \<lparr>ri_series = i, ri_scope = (case scope of JStr s \<Rightarrow> s | _ \<Rightarrow> []), ri_protocol = p, ri_guid = g\<rparr>
          else Inl ValueError
      | _ \<Rightarrow> Inl ValueError)"

definition py_ok :: "'e + 'a \<Rightarrow> 'a option" where
  "py_ok r = (case r of Inr x \<Rightarrow> Some x | Inl _ \<Rightarrow> None)"

text \<open>\<open>item\<close> is the search result; \<open>context\<close> its \<open>_source_context\<close>, if it is one.\<close>

definition identity_for :: "source_context option \<Rightarrow> (string \<times> json) list \<Rightarrow> json \<Rightarrow> release_identity option" where
  "identity_for context item series_id =
     (case context of None \<Rightarrow> None
      | Some c \<Rightarrow>
          if canonical_protocol (field item ''protocol'') \<noteq> Some (sc_protocol c) then None
          else (case normalized_guid (field item ''guid'') of None \<Rightarrow> None
            | Some guid \<Rightarrow> py_ok (make_release_identity series_id (JStr (source_scope c))
                (JStr (release_protocol_name (sc_protocol c))) (JStr guid))))"

definition seen_identity :: "(string \<times> json) list \<Rightarrow> release_identity option" where
  "seen_identity row =
     (case (canonical_protocol (field row ''protocol''), field row ''release_source_scope'', field row ''release_guid'') of
        (Some p, JStr scope, JStr guid) \<Rightarrow>
          py_ok (make_release_identity (field row ''series_id'') (JStr scope) (JStr (release_protocol_name p)) (JStr guid))
      | _ \<Rightarrow> None)"

record block_evidence =
  be_url :: string
  be_identity :: release_identity

datatype evidence_state = EvAbsent | EvInvalid | EvValid block_evidence

definition evidence_keys :: "string list" where
  "evidence_keys = [''version'', ''series_id'', ''url'', ''source_scope'', ''protocol'', ''release_guid'']"

text \<open>A row column that is set must be of the same type and equal.\<close>

definition outer_ok :: "(string \<times> json) list \<Rightarrow> string \<Rightarrow> json \<Rightarrow> bool" where
  "outer_ok row outer inner = (field row outer = JNull \<or> field row outer = JStr [] \<or> field row outer = inner)"

definition read_evidence :: "(string \<times> json) list \<Rightarrow> json \<Rightarrow> evidence_state" where
  "read_evidence row value =
     (case value of
        JObj kvs \<Rightarrow>
          if set (map fst kvs) \<noteq> set evidence_keys \<or> field kvs ''version'' \<noteq> JInt 1 then EvInvalid
          else
            (case (make_release_identity (field kvs ''series_id'') (field kvs ''source_scope'')
                     (field kvs ''protocol'') (field kvs ''release_guid''), field kvs ''url'') of
               (Inr i, JStr url) \<Rightarrow>
                 if url = [] then EvInvalid
                 else if outer_ok row ''series_id'' (JInt (ri_series i)) \<and> outer_ok row ''torrent_url'' (JStr url)
                     \<and> outer_ok row ''protocol'' (JStr (release_protocol_name (ri_protocol i)))
                 then EvValid \<lparr>be_url = url, be_identity = i\<rparr> else EvInvalid
             | _ \<Rightarrow> EvInvalid)
      | _ \<Rightarrow> EvInvalid)"

definition read_history_evidence :: "(string \<times> json) list \<Rightarrow> evidence_state" where
  "read_history_evidence row =
     (case field row ''data'' of
        JNull \<Rightarrow> EvAbsent
      | JStr raw \<Rightarrow>
          if raw = [] then EvAbsent
          else (case loads_unique raw of
              Some (JObj kvs) \<Rightarrow>
                (case map_of kvs ''release_identity'' of None \<Rightarrow> EvAbsent | Some value \<Rightarrow> read_evidence row value)
            | _ \<Rightarrow> EvInvalid)
      | _ \<Rightarrow> EvInvalid)"

subsection \<open>The block list\<close>

record block_anchor =
  ba_id :: int
  ba_series :: "int option"
  ba_url :: string
  ba_title :: string
  ba_reason :: string
  ba_indexer :: "string option"
  ba_protocol :: "string option"
  ba_size :: "int option"

record block_db =
  anchors :: "block_anchor list"
  blocked_ids :: "(int \<times> release_identity) list"
  next_anchor :: int
  known_series :: "int list"

definition insert_identity :: "int \<Rightarrow> release_identity \<Rightarrow> block_db \<Rightarrow> block_db" where
  "insert_identity anchor i db =
     (if (anchor, i) \<in> set (blocked_ids db) then db else db\<lparr>blocked_ids := blocked_ids db @ [(anchor, i)]\<rparr>)"

definition add_block ::
  "block_anchor \<Rightarrow> release_identity list \<Rightarrow> block_db \<Rightarrow> py_exn + int \<times> block_db" where
  "add_block meta identities db =
     (if ba_url meta = [] \<or> (case ba_series meta of None \<Rightarrow> False | Some i \<Rightarrow> \<not> positive_int i) then Inl ValueError
      else
        let found = find (\<lambda>a. ba_url a = ba_url meta) (anchors db);
            anchor = (case found of Some a \<Rightarrow> ba_id a | None \<Rightarrow> next_anchor db);
            db1 = (case found of Some _ \<Rightarrow> db
              | None \<Rightarrow> db\<lparr>anchors := anchors db @ [meta\<lparr>ba_id := next_anchor db\<rparr>], next_anchor := next_anchor db + 1\<rparr>)
        in if (found = None \<and> (case ba_series meta of None \<Rightarrow> False | Some i \<Rightarrow> i \<notin> set (known_series db)))
              \<or> list_ex (\<lambda>i. ri_series i \<notin> set (known_series db)) identities
           then Inl IntegrityError
           else Inr (anchor, fold (insert_identity anchor) identities db1))"

definition is_blocked :: "block_db \<Rightarrow> string \<Rightarrow> release_identity option \<Rightarrow> bool" where
  "is_blocked db url i =
     (if list_ex (\<lambda>a. ba_url a = url) (anchors db) then True
      else case i of None \<Rightarrow> False
        | Some r \<Rightarrow> list_ex (\<lambda>(bid, s). s = r \<and> list_ex (\<lambda>a. ba_id a = bid) (anchors db)) (blocked_ids db))"


subsection \<open>Scopes: lemmas\<close>

lemma match_scope_root:
  assumes "match_scope s = Some (k, e, raw)"
  obtains t where "s = ''bs1:'' @ k # CHR '':'' # e @ t" "length e = 64" "list_all scope_hex e" "k \<in> {CHR ''d'', CHR ''p''}"
    "case raw of None \<Rightarrow> t = [] | Some ds \<Rightarrow> t = CHR '':'' # ds \<and> ds \<noteq> [] \<and> length ds \<le> 19 \<and> list_all is_digit ds \<and> hd ds \<noteq> CHR ''0''"
proof -
  from assms have 4: "take 4 s = ''bs1:''" by (auto simp: match_scope_def split: if_splits)
  with assms obtain kind colon rest where d: "drop 4 s = kind # colon # rest"
    by (auto simp: match_scope_def split: list.splits)
  with assms 4 have b: "kind \<in> {CHR ''d'', CHR ''p''}" "colon = CHR '':''" "length (take 64 rest) = 64"
    "list_all scope_hex (take 64 rest)"
    by (auto simp: match_scope_def Let_def split: if_splits)
  have m: "(case drop 64 rest of [] \<Rightarrow> Some (kind, take 64 rest, None)
      | c # ds \<Rightarrow> if c = CHR '':'' \<and> ds \<noteq> [] \<and> length ds \<le> 19 \<and> list_all is_digit ds \<and> hd ds \<noteq> CHR ''0''
          then Some (kind, take 64 rest, Some ds) else None) = Some (k, e, raw)"
    using assms 4 d b unfolding match_scope_def Let_def by (cases "kind = CHR ''d''") (auto split: list.splits if_splits)
  have s: "s = ''bs1:'' @ kind # CHR '':'' # take 64 rest @ drop 64 rest"
    using append_take_drop_id [of 4 s] 4 d b(2) by simp
  show thesis
  proof (cases "drop 64 rest")
    case Nil
    with m s b that [of "[]"] show thesis by simp
  next
    case (Cons c ds)
    with m have "c = CHR '':'' \<and> ds \<noteq> [] \<and> length ds \<le> 19 \<and> list_all is_digit ds \<and> hd ds \<noteq> CHR ''0''"
      by (simp split: if_splits)
    moreover from this Cons m have "kind = k" "take 64 rest = e" "raw = Some ds" by simp_all
    ultimately show thesis
      using Cons s b by (intro that [of "drop 64 rest"]) simp_all
  qed
qed

lemma match_scope_build:
  assumes "length e = 64" "list_all scope_hex e" "k \<in> {CHR ''d'', CHR ''p''}"
  shows "match_scope (''bs1:'' @ k # CHR '':'' # e) = Some (k, e, None)"
    "ds \<noteq> [] \<Longrightarrow> length ds \<le> 19 \<Longrightarrow> list_all is_digit ds \<Longrightarrow> hd ds \<noteq> CHR ''0'' \<Longrightarrow>
       match_scope (''bs1:'' @ k # CHR '':'' # e @ CHR '':'' # ds) = Some (k, e, Some ds)"
  using assms by (simp_all add: match_scope_def Let_def)

lemma length_dec_nat: "n < 10 ^ k \<Longrightarrow> k > 0 \<Longrightarrow> length (dec_nat n) \<le> k"
proof (induction n arbitrary: k rule: dec_nat.induct)
  case (1 n)
  show ?case
  proof (cases "n < 10")
    case True
    with "1.prems" show ?thesis by (simp add: dec_nat.simps [of n])
  next
    case False
    then obtain j where j: "k = Suc j" "j > 0" using "1.prems" by (cases k; cases "k - 1") auto
    with "1.prems" have "n div 10 < 10 ^ j" by auto
    with "1.IH" [OF False] j have "length (dec_nat (n div 10)) \<le> j" by blast
    with False j show ?thesis by (simp add: dec_nat.simps [of n])
  qed
qed

lemma dec_positive:
  assumes "positive_int i"
  shows "dec_int i \<noteq> [] \<and> length (dec_int i) \<le> 19 \<and> list_all is_digit (dec_int i) \<and> hd (dec_int i) \<noteq> CHR ''0''
    \<and> int (undec (dec_int i)) = i"
proof -
  have i: "0 < i" "i \<le> 9223372036854775807" using assms by (simp_all add: positive_int_def max_id_def)
  then have "nat i < 10 ^ 19" by simp
  then have "length (dec_nat (nat i)) \<le> 19" by (rule length_dec_nat) simp
  moreover have "hd (dec_nat (nat i)) \<noteq> CHR ''0''" using dec_nat_first_digit [of "nat i"] i by auto
  ultimately show ?thesis using i dec_nat_digits [of "nat i"] by (simp add: dec_int_def)
qed

lemma parse_scope_child:
  assumes "parse_scope (JStr s) True = Inr (CHR ''p'', e, None)" "positive_int i"
  shows "parse_scope (JStr (s @ '':'' @ dec_int i)) False = Inr (CHR ''p'', e, Some i)"
proof -
  from assms(1) obtain raw where m: "match_scope s = Some (CHR ''p'', e, raw)" "map_option (\<lambda>ds. int (undec ds)) raw = None"
    by (auto simp: parse_scope_def Let_def split: option.splits if_splits)
  then have "match_scope s = Some (CHR ''p'', e, None)" by simp
  then have s: "s = ''bs1:'' @ CHR ''p'' # CHR '':'' # e" "length e = 64" "list_all scope_hex e"
    by (auto elim!: match_scope_root)
  note d = dec_positive [OF assms(2)]
  have "match_scope (''bs1:'' @ CHR ''p'' # CHR '':'' # e @ CHR '':'' # dec_int i) = Some (CHR ''p'', e, Some (dec_int i))"
    using match_scope_build(2) [OF s(2,3), of "CHR ''p''" "dec_int i"] d by blast
  moreover have "s @ '':'' @ dec_int i = ''bs1:'' @ CHR ''p'' # CHR '':'' # e @ CHR '':'' # dec_int i"
    by (simp add: s(1))
  ultimately show ?thesis using d assms(2) by (simp add: parse_scope_def Let_def)
qed

lemma parse_scope_no_root:
  "parse_scope v True = Inr (k, e, sub) \<Longrightarrow> k = CHR ''p'' \<longrightarrow> sub \<noteq> None \<Longrightarrow> parse_scope v False = Inr (k, e, sub)"
  by (auto simp: parse_scope_def Let_def split: option.splits if_splits)

subsection \<open>Contexts: lemmas\<close>

lemma exact_protocol_name [simp]: "exact_protocol (JStr (release_protocol_name p)) = Some p"
  by (cases p) (simp_all add: exact_protocol_def release_protocol_name_def)

lemma exact_purpose_name [simp]: "exact_purpose (JStr (purpose_name q)) = Some q"
  by (cases q) (simp_all add: exact_purpose_def purpose_name_def)

lemma exact_impl_name [simp]: "exact_impl (JStr (impl_name k)) = Some k"
  by (cases k) (simp_all add: exact_impl_def impl_name_def)

lemma json_id_id [simp]:
  "json_id (id_json v) = (case v of None \<Rightarrow> Some None | Some i \<Rightarrow> if positive_int i then Some (Some i) else None)"
  by (simp add: json_id_def id_json_def split: option.split)

definition valid_context :: "source_context \<Rightarrow> bool" where
  "valid_context c \<longleftrightarrow>
     positive_int (sc_indexer c) \<and> (case sc_series c of None \<Rightarrow> True | Some i \<Rightarrow> positive_int i)
     \<and> (case sc_sub c of None \<Rightarrow> True | Some i \<Rightarrow> positive_int i)
     \<and> (case parse_scope (JStr (sc_scope c)) True of
          Inl _ \<Rightarrow> False
        | Inr (kind, _, encoded_sub) \<Rightarrow>
            (case sc_impl c of
               Prowlarr \<Rightarrow> kind = CHR ''p'' \<and> encoded_sub = None \<and> sc_sub c \<noteq> None
             | k \<Rightarrow> sc_protocol c = (if k = Torznab then Torrent else Nzb)
                 \<and> (kind = CHR ''p'' \<longrightarrow> encoded_sub \<noteq> None) \<and> sc_sub c = encoded_sub))"

lemma json_id_Some: "json_id v = Some x \<Longrightarrow> v = id_json x \<and> (case x of None \<Rightarrow> True | Some i \<Rightarrow> positive_int i)"
  by (cases v) (auto simp: json_id_def id_json_def split: if_splits)

lemma exact_protocol_Some: "exact_protocol v = Some p \<Longrightarrow> v = JStr (release_protocol_name p)"
  by (auto simp: exact_protocol_def split: if_splits)

lemma make_source_context_valid:
  assumes "make_source_context i r k b p q f = Inr c"
  shows "valid_context c"
proof -
  from assms obtain series kind e sub0 where 1: "positive_id i" "json_id f = Some series" "parse_scope r True = Inr (kind, e, sub0)"
    by (auto simp: make_source_context_def split: prod.splits bool.splits option.splits sum.splits)
  with assms obtain p' q' sub where 2: "exact_protocol p = Some p'" "exact_purpose q = Some q'" "json_id b = Some sub"
    by (auto simp: make_source_context_def split: prod.splits option.splits)
  from 1(1) obtain n where n: "i = JInt n" "positive_int n" by (auto simp: positive_id_def split: json.splits)
  from 1(3) obtain s where s: "r = JStr s" by (auto simp: parse_scope_def split: json.splits)
  show ?thesis
    using assms n s 1 2 json_id_Some [OF 1(2)] json_id_Some [OF 2(3)]
    unfolding make_source_context_def valid_context_def Let_def
    by (auto split: option.splits indexer_kind.splits if_splits)
qed

lemma make_source_context_self:
  assumes "valid_context c"
  shows "make_source_context (JInt (sc_indexer c)) (JStr (sc_scope c)) (JStr (impl_name (sc_impl c)))
     (id_json (sc_sub c)) (JStr (release_protocol_name (sc_protocol c))) (JStr (purpose_name (sc_purpose c)))
     (id_json (sc_series c)) = Inr c"
proof -
  obtain kind e sub0 where s: "parse_scope (JStr (sc_scope c)) True = Inr (kind, e, sub0)"
    using assms by (auto simp: valid_context_def split: sum.splits)
  have ids: "json_id (id_json (sc_sub c)) = Some (sc_sub c)" "json_id (id_json (sc_series c)) = Some (sc_series c)"
    "positive_id (JInt (sc_indexer c))"
    using assms by (auto simp: valid_context_def positive_id_def split: option.splits)
  show ?thesis
    using assms s ids(3) unfolding make_source_context_def valid_context_def Let_def exact_protocol_name exact_purpose_name exact_impl_name ids(1,2)
    by (cases "sc_impl c") (auto split: if_splits)
qed

lemma context_json_plain [simp]: "float_free (context_json c)" "unique_pairs (context_json c)"
  by (simp_all add: context_json_def id_json_def split: option.split)

lemma context_of_json_self: "valid_context c \<Longrightarrow> context_of_json (context_json c) = Inr c"
  using make_source_context_self [of c]
  by (simp add: context_of_json_def context_json_def field_def context_keys_def insert_commute)


subsection \<open>Properties\<close>

lemma make_source_context_error: "make_source_context i r k b p q f = Inl e \<Longrightarrow> e = ValueError"
  unfolding make_source_context_def Let_def
  by (cases "positive_id i"; cases "json_id f"; cases "parse_scope r True"; cases "exact_protocol p";
      cases "exact_purpose q"; cases "json_id b"; cases "exact_impl k")
    (auto split: if_splits indexer_kind.splits)

lemma context_of_json_error: "context_of_json d = Inl e \<Longrightarrow> e = ValueError"
  by (cases d) (auto simp: context_of_json_def dest: make_source_context_error split: if_splits)

lemma context_of_json_valid: "context_of_json d = Inr c \<Longrightarrow> valid_context c"
  by (cases d) (auto simp: context_of_json_def dest: make_source_context_valid split: if_splits)

text \<open>
  The durable text of a source context is read back to the same context: every context that
  can be constructed survives encode_context and decode_context, and whatever decode_context
  accepts is a context its constructor would have accepted.\<close>

theorem context_roundtrip:
  assumes "make_source_context i r k b p q f = Inr c"
  shows "decode_context (encode_context c) = Inr c
    \<and> (case decode_context text of Inl e \<Rightarrow> e = ValueError
       | Inr d \<Rightarrow> valid_context d \<and> decode_context (encode_context d) = Inr d)"
proof -
  have enc: "decode_context (encode_context d) = Inr d" if "valid_context d" for d
    using context_of_json_self [OF that] loads_unique_dumps [of "context_json d" True]
    by (simp add: decode_context_def encode_context_def)
  have dec: "valid_context d" if "decode_context text = Inr d" for d
    using that context_of_json_valid by (cases "loads_unique text") (auto simp: decode_context_def)
  have err: "e = ValueError" if "decode_context text = Inl e" for e
    using that context_of_json_error by (cases "loads_unique text") (auto simp: decode_context_def)
  have "decode_context (encode_context c) = Inr c" by (rule enc [OF make_source_context_valid [OF assms]])
  with enc dec err show ?thesis by (cases "decode_context text") simp_all
qed

definition demo_epoch :: string where
  "demo_epoch = replicate 64 (CHR ''a'')"

definition demo_context :: source_context where
  "demo_context = \<lparr>sc_indexer = 3, sc_scope = ''bs1:p:'' @ demo_epoch, sc_impl = Prowlarr, sc_sub = Some 12,
     sc_protocol = Torrent, sc_purpose = Interactive, sc_series = Some 5\<rparr>"

lemma demo_context_made:
  "make_source_context (JInt 3) (JStr (''bs1:p:'' @ demo_epoch)) (JStr ''prowlarr'') (JInt 12) (JStr ''torrent'')
     (JStr ''interactive'') (JInt 5) = Inr demo_context"
  by code_simp

theorem context_roundtrip_witness: "decode_context (encode_context demo_context) = Inr demo_context"
  using context_roundtrip [OF demo_context_made] by blast

text \<open>
  The release scope of every constructible source context is canonical release evidence:
  it parses without the parent-root exception, to the kind and epoch of the context's row and
  to the context's own sub-indexer. So contexts with the same release scope agree on all three.\<close>

theorem release_scope_canonical:
  assumes "make_source_context i r k b p q f = Inr c"
  shows "\<exists>kind epoch sub0. parse_scope (JStr (sc_scope c)) True = Inr (kind, epoch, sub0)
    \<and> parse_scope (JStr (source_scope c)) False = Inr (kind, epoch, sc_sub c)"
proof -
  have v: "valid_context c" by (rule make_source_context_valid [OF assms])
  then obtain kind e sub0 where s: "parse_scope (JStr (sc_scope c)) True = Inr (kind, e, sub0)"
    by (auto simp: valid_context_def split: sum.splits)
  have "parse_scope (JStr (source_scope c)) False = Inr (kind, e, sc_sub c)"
  proof (cases "sc_impl c = Prowlarr")
    case True
    with v s have k: "kind = CHR ''p''" "sub0 = None" "sc_sub c \<noteq> None" by (auto simp: valid_context_def)
    then obtain n where n: "sc_sub c = Some n" by auto
    with v have "positive_int n" by (simp add: valid_context_def)
    from parse_scope_child [OF _ this] s k n True show ?thesis by (simp add: source_scope_def)
  next
    case False
    with v s have "kind = CHR ''p'' \<longrightarrow> sub0 \<noteq> None" "sc_sub c = sub0"
      by (auto simp: valid_context_def split: indexer_kind.splits)
    with parse_scope_no_root [OF s] False show ?thesis by (simp add: source_scope_def)
  qed
  with s show ?thesis by blast
qed

theorem release_scope_canonical_witness:
  "parse_scope (JStr (source_scope demo_context)) False = Inr (CHR ''p'', demo_epoch, Some 12)"
proof -
  have "parse_scope (JStr (sc_scope demo_context)) True = Inr (CHR ''p'', demo_epoch, None)" by code_simp
  with release_scope_canonical [OF demo_context_made] show ?thesis by (auto simp: demo_context_def)
qed

text \<open>Well-formed block lists: unique ids and URLs, identities anchored.\<close>

definition block_wf :: "block_db \<Rightarrow> bool" where
  "block_wf db \<longleftrightarrow> distinct (map ba_id (anchors db)) \<and> distinct (map ba_url (anchors db))
     \<and> list_all (\<lambda>a. ba_id a < next_anchor db) (anchors db)
     \<and> distinct (blocked_ids db)
     \<and> list_all (\<lambda>(bid, _). list_ex (\<lambda>a. ba_id a = bid) (anchors db)) (blocked_ids db)"

lemma insert_identity_frame [simp]:
  "anchors (insert_identity a i db) = anchors db" "next_anchor (insert_identity a i db) = next_anchor db"
  "set (blocked_ids (insert_identity a i db)) = insert (a, i) (set (blocked_ids db))"
  "distinct (blocked_ids db) \<Longrightarrow> distinct (blocked_ids (insert_identity a i db))"
  by (auto simp: insert_identity_def)

lemma fold_insert_identity:
  "anchors (fold (insert_identity a) ids db) = anchors db"
  "next_anchor (fold (insert_identity a) ids db) = next_anchor db"
  "set (blocked_ids (fold (insert_identity a) ids db)) = set (blocked_ids db) \<union> Pair a ` set ids"
  "distinct (blocked_ids db) \<Longrightarrow> distinct (blocked_ids (fold (insert_identity a) ids db))"
  by (induction ids arbitrary: db) auto

lemma is_blocked_iff:
  assumes "block_wf db"
  shows "is_blocked db url i \<longleftrightarrow> url \<in> ba_url ` set (anchors db)
    \<or> (case i of None \<Rightarrow> False | Some r \<Rightarrow> r \<in> snd ` set (blocked_ids db))"
proof -
  have "list_ex (\<lambda>(bid, s). s = r \<and> list_ex (\<lambda>a. ba_id a = bid) (anchors db)) (blocked_ids db)
      \<longleftrightarrow> r \<in> snd ` set (blocked_ids db)" for r
    using assms by (force simp: block_wf_def list_ex_iff list_all_iff)
  then show ?thesis by (auto simp: is_blocked_def list_ex_iff split: option.splits)
qed

text \<open>
  add_block on a well-formed list keeps it well-formed, leaves an existing anchor of the URL
  exactly as it was (otherwise appends one), and blocks exactly what was blocked before, the URL,
  and the given identities at any URL; adding the same again changes nothing.\<close>

theorem add_block_correct:
  assumes "block_wf db" "add_block meta ids db = Inr (anchor, db')"
  shows "block_wf db'
    \<and> anchors db' = (if ba_url meta \<in> set (map ba_url (anchors db)) then anchors db
                      else anchors db @ [meta\<lparr>ba_id := next_anchor db\<rparr>])
    \<and> (\<forall>url i. is_blocked db' url i = (is_blocked db url i \<or> url = ba_url meta
          \<or> (case i of None \<Rightarrow> False | Some r \<Rightarrow> r \<in> set ids)))"
proof -
  let ?found = "find (\<lambda>a. ba_url a = ba_url meta) (anchors db)"
  show ?thesis
  proof (cases ?found)
    case None
    then have new: "ba_url meta \<notin> ba_url ` set (anchors db)" by (auto simp: find_None_iff)
    let ?db1 = "db\<lparr>anchors := anchors db @ [meta\<lparr>ba_id := next_anchor db\<rparr>], next_anchor := next_anchor db + 1\<rparr>"
    have d: "db' = fold (insert_identity (next_anchor db)) ids ?db1"
      using assms(2) None by (auto simp: add_block_def Let_def split: if_splits)
    note f = fold_insert_identity [where a = "next_anchor db" and ids = ids and db = ?db1, folded d]
    have ids: "snd ` set (blocked_ids db') = snd ` set (blocked_ids db) \<union> set ids"
      unfolding f(3) image_Un image_image by simp
    have wf: "block_wf db'"
      using assms(1) new f unfolding block_wf_def by (auto simp: list_all_iff list_ex_iff)
    show ?thesis
      using wf f(1) new unfolding is_blocked_iff [OF wf] is_blocked_iff [OF assms(1)] ids
      by (auto split: option.splits)
  next
    case (Some a)
    then have a: "a \<in> set (anchors db)" "ba_url a = ba_url meta" by (auto simp: find_Some_iff)
    then have old: "ba_url meta \<in> ba_url ` set (anchors db)" by (metis image_eqI)
    have d: "db' = fold (insert_identity (ba_id a)) ids db"
      using assms(2) Some by (auto simp: add_block_def Let_def split: if_splits)
    note f = fold_insert_identity [where a = "ba_id a" and ids = ids and db = db, folded d]
    have ids: "snd ` set (blocked_ids db') = snd ` set (blocked_ids db) \<union> set ids"
      unfolding f(3) image_Un image_image by simp
    have wf: "block_wf db'"
      using assms(1) a(1) f unfolding block_wf_def by (auto simp: list_all_iff list_ex_iff)
    show ?thesis
      using wf f(1) old unfolding is_blocked_iff [OF wf] is_blocked_iff [OF assms(1)] ids
      by (auto split: option.splits)
  qed
qed

definition demo_block_db :: block_db where
  "demo_block_db = \<lparr>anchors = [], blocked_ids = [], next_anchor = 1, known_series = [5]\<rparr>"

definition demo_anchor :: block_anchor where
  "demo_anchor = \<lparr>ba_id = 0, ba_series = Some 5, ba_url = ''http://x/1'', ba_title = ''Demo v1'', ba_reason = ''bad'',
     ba_indexer = None, ba_protocol = None, ba_size = None\<rparr>"

definition demo_release :: release_identity where
  "demo_release = \<lparr>ri_series = 5, ri_scope = ''bs1:d:'' @ demo_epoch, ri_protocol = Nzb, ri_guid = ''g''\<rparr>"

theorem add_block_correct_witness:
  "case add_block demo_anchor [demo_release] demo_block_db of
     Inl _ \<Rightarrow> False | Inr (_, db') \<Rightarrow> is_blocked db' ''http://other'' (Some demo_release) \<and> \<not> is_blocked db' ''http://other'' None"
proof -
  have wf: "block_wf demo_block_db" by (simp add: block_wf_def demo_block_db_def)
  have "\<not> isl (add_block demo_anchor [demo_release] demo_block_db)" by code_simp
  then obtain r where r: "add_block demo_anchor [demo_release] demo_block_db = Inr r"
    by (cases "add_block demo_anchor [demo_release] demo_block_db") auto
  obtain a db' where ad: "r = (a, db')" by fastforce
  from add_block_correct [OF wf r [unfolded ad]]
  have "is_blocked db' ''http://other'' (Some demo_release)" "is_blocked db' ''http://other'' None = is_blocked demo_block_db ''http://other'' None"
    by (simp_all add: demo_anchor_def)
  moreover have "\<not> is_blocked demo_block_db ''http://other'' None" by (simp add: is_blocked_def demo_block_db_def)
  ultimately show ?thesis by (simp add: r ad)
qed

end
