(* ===== verification/Release_Selections.thy ===== *)
theory Release_Selections
  imports Release_Identity "HOL-Library.Multiset" "HOL-Library.Char_ord" "HOL-Library.List_Lexorder" "HOL-Library.Product_Lexorder"
begin

text \<open>
  \<^verbatim>\<open>src/app/release_selections.py\<close>: bounded, one-use receipts for search results. A receipt is a
  random handle whose digest keys a row with the issuer, the target and the canonical text of
  the snapshot. Arguments of the model: the digest function, the random handles, and which source
  contexts are current (the active indexer rows). Session timestamps are seconds since 1970.
  An operation that raises returns \<open>Inl\<close>; the caller rolls its transaction back.
\<close>

definition lifetime :: int where "lifetime = 900"
definition issuer_limit :: nat where "issuer_limit = 256"
definition global_limit :: nat where "global_limit = 2048"
definition snapshot_limit :: nat where "snapshot_limit = 16384"
definition session_idle_seconds :: rat where "session_idle_seconds = 86400"

datatype selection_error = SelInvalid | SelGone | SelMismatch | SelUnavailable | SelValueError

datatype issuer = BrowserIssuer string | ApiIssuer

text \<open>\<open>issuer_for_request\<close>; the session is what \<open>validate_session\<close> returns for the cookie.\<close>

definition issuer_for_request :: "bool \<Rightarrow> bool \<Rightarrow> string option \<Rightarrow> selection_error + issuer" where
  "issuer_for_request api_key_authenticated browser_authenticated session =
     (if api_key_authenticated then Inr ApiIssuer
      else if browser_authenticated then (case session of Some d \<Rightarrow> Inr (BrowserIssuer d) | None \<Rightarrow> Inl SelMismatch)
      else Inl SelMismatch)"

subsection \<open>Snapshots\<close>

definition canonical_guid :: "json \<Rightarrow> string" where
  "canonical_guid v = (case v of JStr s \<Rightarrow> py_strip s | _ \<Rightarrow> [])"

definition text_field :: "json \<Rightarrow> nat option \<Rightarrow> bool \<Rightarrow> bool" where
  "text_field v limit nonempty =
     (case v of
        JStr s \<Rightarrow> (\<not> nonempty \<or> s \<noteq> []) \<and> (case limit of None \<Rightarrow> True | Some n \<Rightarrow> utf8_length s \<le> n)
      | _ \<Rightarrow> False)"

definition natural_field :: "json \<Rightarrow> bool" where
  "natural_field v = (case v of JInt i \<Rightarrow> i \<ge> 0 | _ \<Rightarrow> False)"

definition behavior_keys :: "string list" where
  "behavior_keys = [''url'', ''guid'', ''protocol'', ''title'', ''indexer'', ''size_bytes'', ''seeders'']"

definition preferred_key :: string where
  "preferred_key = ''preferred_client_id''"

definition behavior :: "(string \<times> json) list \<Rightarrow> (string \<times> json) list option" where
  "behavior data =
     (if \<not> list_all (\<lambda>k. map_of data k \<noteq> None) behavior_keys then None
      else if text_field (field data ''url'') (Some 8192) True \<and> text_field (field data ''title'') (Some 2048) False
         \<and> text_field (field data ''indexer'') None False \<and> text_field (field data ''guid'') None False
         \<and> field data ''guid'' = JStr (canonical_guid (field data ''guid''))
         \<and> exact_protocol (field data ''protocol'') \<noteq> None
         \<and> natural_field (field data ''size_bytes'') \<and> natural_field (field data ''seeders'')
         \<and> (case map_of data preferred_key of None \<Rightarrow> True | Some v \<Rightarrow> positive_id v)
      then Some (map (\<lambda>k. (k, field data k)) behavior_keys
             @ (case map_of data preferred_key of None \<Rightarrow> [] | Some v \<Rightarrow> [(preferred_key, v)]))
      else None)"

record snapshot =
  sn_series :: int
  sn_volume :: int
  sn_context :: source_context
  sn_item :: "(string \<times> json) list"

definition make_snapshot :: "json \<Rightarrow> json \<Rightarrow> source_context \<Rightarrow> json \<Rightarrow> snapshot option" where
  "make_snapshot series_id volume_id context item =
     (case (series_id, volume_id, item) of
        (JInt s, JInt v, JObj data) \<Rightarrow>
          if \<not> positive_int s \<or> \<not> positive_int v then None
          else (case behavior data of
              None \<Rightarrow> None
            | Some canonical \<Rightarrow>
                if sc_purpose context \<noteq> Interactive \<or> sc_series context \<noteq> Some s
                   \<or> JStr (release_protocol_name (sc_protocol context)) \<noteq> field canonical ''protocol'' then None
                else Some \<lparr>sn_series = s, sn_volume = v, sn_context = context, sn_item = canonical\<rparr>)
      | _ \<Rightarrow> None)"

text \<open>\<open>json.dumps(..., sort_keys=True)\<close>: the keys of the release sorted.\<close>

definition release_keys :: "string list" where
  "release_keys = [''guid'', ''indexer'', preferred_key, ''protocol'', ''seeders'', ''size_bytes'', ''title'', ''url'']"

definition release_json :: "(string \<times> json) list \<Rightarrow> json" where
  "release_json item = JObj (List.map_filter (\<lambda>k. map_option (\<lambda>v. (k, v)) (map_of item k)) release_keys)"

definition snapshot_json :: "snapshot \<Rightarrow> json" where
  "snapshot_json s = JObj
     [(''context'', context_json (sn_context s)), (''purpose'', JStr ''blocklist-release-selection''),
      (''release'', release_json (sn_item s)), (''series_id'', JInt (sn_series s)), (''version'', JInt 1),
      (''volume_id'', JInt (sn_volume s))]"

definition encode_snapshot :: "snapshot \<Rightarrow> string option" where
  "encode_snapshot s =
     (let raw = dumps False (snapshot_json s)
      in if 0 < utf8_length raw \<and> utf8_length raw \<le> snapshot_limit then Some raw else None)"

definition snapshot_keys :: "string list" where
  "snapshot_keys = [''version'', ''purpose'', ''series_id'', ''volume_id'', ''context'', ''release'']"

definition decode_snapshot :: "string \<Rightarrow> snapshot option" where
  "decode_snapshot raw =
     (if \<not> text_field (JStr raw) (Some snapshot_limit) True then None
      else case loads_unique raw of
        Some (JObj value) \<Rightarrow>
          if set (map fst value) \<noteq> set snapshot_keys \<or> field value ''version'' \<noteq> JInt 1
             \<or> field value ''purpose'' \<noteq> JStr ''blocklist-release-selection'' then None
          else (case field value ''release'' of
              JObj release \<Rightarrow>
                if \<not> set (map fst release) \<subseteq> set (behavior_keys @ [preferred_key]) then None
                else (case decode_context (dumps True (field value ''context'')) of
                    Inl _ \<Rightarrow> None
                  | Inr context \<Rightarrow>
                      (case make_snapshot (field value ''series_id'') (field value ''volume_id'') context (JObj release) of
                         None \<Rightarrow> None
                       | Some s \<Rightarrow> if encode_snapshot s = None then None else Some s))
            | _ \<Rightarrow> None)
      | _ \<Rightarrow> None)"

subsection \<open>The table of receipts\<close>

record evidence =
  ev_handle :: string
  ev_issuer :: issuer
  ev_issued :: int
  ev_expires :: int
  ev_series :: int
  ev_volume :: int
  ev_snapshot :: string

record session_row =
  se_hash :: string
  se_last_seen :: rat
  se_expires :: rat

record selection_db =
  receipts :: "evidence list"
  sessions :: "session_row list"
  volume_ids :: "(int \<times> int) list"
  series_ids :: "int list"

definition validate_now :: "int \<Rightarrow> bool" where
  "validate_now now \<longleftrightarrow> 0 \<le> now \<and> now \<le> max_id - lifetime"

definition delete_receipts :: "(evidence \<Rightarrow> bool) \<Rightarrow> selection_db \<Rightarrow> selection_db" where
  "delete_receipts p db = db\<lparr>receipts := filter (\<lambda>e. \<not> p e) (receipts db)\<rparr>"

definition prune :: "int \<Rightarrow> selection_db \<Rightarrow> selection_db" where
  "prune now = delete_receipts (\<lambda>e. ev_expires e \<le> now \<or> ev_issued e > now)"

definition active_issuer :: "selection_db \<Rightarrow> issuer \<Rightarrow> int \<Rightarrow> bool" where
  "active_issuer db i now =
     (case i of
        ApiIssuer \<Rightarrow> True
      | BrowserIssuer d \<Rightarrow>
          (case find (\<lambda>s. se_hash s = d) (sessions db) of
             None \<Rightarrow> False
           | Some s \<Rightarrow> of_int now < se_expires s \<and> of_int now - se_last_seen s < session_idle_seconds))"

text \<open>\<open>ORDER BY issued_at DESC, handle_digest DESC LIMIT -1 OFFSET n\<close> over the selected rows.\<close>

definition overflow_rows :: "(evidence \<Rightarrow> bool) \<Rightarrow> nat \<Rightarrow> evidence list \<Rightarrow> evidence list" where
  "overflow_rows p n rows = drop n (rev (sort_key (\<lambda>e. (ev_issued e, ev_handle e)) (filter p rows)))"

definition keep_newest :: "(evidence \<Rightarrow> bool) \<Rightarrow> nat \<Rightarrow> selection_db \<Rightarrow> selection_db" where
  "keep_newest p n db =
     (let gone = map ev_handle (overflow_rows p n (receipts db))
      in delete_receipts (\<lambda>e. ev_handle e \<in> set gone) db)"

definition insert_receipt :: "evidence \<Rightarrow> selection_db \<Rightarrow> selection_db option" where
  "insert_receipt e db =
     (if list_ex (\<lambda>r. ev_handle r = ev_handle e) (receipts db) \<or> ev_series e \<notin> set (series_ids db)
         \<or> ev_volume e \<notin> fst ` set (volume_ids db) then None
      else Some (db\<lparr>receipts := receipts db @ [e]\<rparr>))"

fun insert_receipts :: "evidence list \<Rightarrow> selection_db \<Rightarrow> selection_db option" where
  "insert_receipts [] db = Some db"
| "insert_receipts (e # es) db = (case insert_receipt e db of None \<Rightarrow> None | Some db' \<Rightarrow> insert_receipts es db')"

fun encode_all :: "snapshot list \<Rightarrow> string list option" where
  "encode_all [] = Some []"
| "encode_all (s # ss) = (case encode_snapshot s of None \<Rightarrow> None | Some raw \<Rightarrow> map_option ((#) raw) (encode_all ss))"

definition receipt_rows :: "(string \<Rightarrow> string) \<Rightarrow> issuer \<Rightarrow> int \<Rightarrow> string list \<Rightarrow> snapshot list \<Rightarrow> string list \<Rightarrow> evidence list" where
  "receipt_rows digest i now handles snapshots encoded =
     map (\<lambda>(handle, snap, raw). \<lparr>ev_handle = digest handle, ev_issuer = i, ev_issued = now, ev_expires = now + lifetime,
        ev_series = sn_series snap, ev_volume = sn_volume snap, ev_snapshot = raw\<rparr>) (zip handles (zip snapshots encoded))"

definition issue_selections ::
  "(string \<Rightarrow> string) \<Rightarrow> (source_context \<Rightarrow> bool) \<Rightarrow> string list \<Rightarrow> issuer \<Rightarrow> snapshot list \<Rightarrow> int \<Rightarrow> selection_db
     \<Rightarrow> selection_error + string list \<times> selection_db" where
  "issue_selections digest current handles i snapshots now db =
     (if \<not> validate_now now then Inl SelValueError
      else if length snapshots > issuer_limit then Inl SelInvalid
      else case encode_all snapshots of
        None \<Rightarrow> Inl SelValueError
      | Some encoded \<Rightarrow>
          (let db1 = prune now db in
           if \<not> active_issuer db1 i now then Inl SelMismatch
           else if list_ex (\<lambda>s. \<not> current (sn_context s)) snapshots then Inl SelMismatch
           else
             (let reserve = length snapshots;
                  db2 = keep_newest (\<lambda>e. ev_issuer e = i) (issuer_limit - reserve) db1;
                  db3 = keep_newest (\<lambda>_. True) (global_limit - reserve) db2
              in case insert_receipts (receipt_rows digest i now (take reserve handles) snapshots encoded) db3 of
                   None \<Rightarrow> Inl SelUnavailable
                 | Some db4 \<Rightarrow> Inr (take reserve handles, db4))))"

definition handle_char :: "char \<Rightarrow> bool" where
  "handle_char c \<longleftrightarrow> is_digit c \<or> c \<in> set ''ABCDEFGHIJKLMNOPQRSTUVWXYZabcdefghijklmnopqrstuvwxyz_-''"

definition valid_handle :: "string \<Rightarrow> bool" where
  "valid_handle h \<longleftrightarrow> length h = 64 \<and> list_all handle_char h"

definition consume_selection ::
  "(string \<Rightarrow> string) \<Rightarrow> (source_context \<Rightarrow> bool) \<Rightarrow> string \<Rightarrow> issuer \<Rightarrow> int \<Rightarrow> int \<Rightarrow> (string \<times> json) list \<Rightarrow> int
     \<Rightarrow> selection_db \<Rightarrow> selection_error + snapshot \<times> selection_db" where
  "consume_selection digest current handle i series_id volume_id posted now db =
     (if \<not> validate_now now then Inl SelValueError
      else if \<not> valid_handle handle then Inl SelInvalid
      else
        let db1 = prune now db in
        case find (\<lambda>e. ev_handle e = digest handle) (receipts db1) of
          None \<Rightarrow> Inl SelGone
        | Some row \<Rightarrow>
            if ev_issuer row \<noteq> i \<or> \<not> active_issuer db1 i now then Inl SelMismatch
            else case decode_snapshot (ev_snapshot row) of
              None \<Rightarrow> Inl SelUnavailable
            | Some snap \<Rightarrow>
                if (ev_series row, ev_volume row) \<noteq> (sn_series snap, sn_volume snap) then Inl SelUnavailable
                else if (series_id, volume_id) \<noteq> (sn_series snap, sn_volume snap) then Inl SelMismatch
                else case behavior posted of
                  None \<Rightarrow> Inl SelMismatch
                | Some b \<Rightarrow>
                    if b \<noteq> sn_item snap then Inl SelMismatch
                    else if (volume_id, series_id) \<notin> set (volume_ids db1) \<or> \<not> current (sn_context snap) then Inl SelMismatch
                    else Inr (snap, delete_receipts (\<lambda>e. ev_handle e = digest handle) db1))"

definition clear_selection_evidence :: "int \<Rightarrow> bool \<Rightarrow> bool \<Rightarrow> selection_db \<Rightarrow> string + selection_db" where
  "clear_selection_evidence version table_exists allow_legacy db =
     (if version > 8 then Inl ''unsupported selection evidence schema''
      else if \<not> table_exists then
        (if allow_legacy \<and> version < 7 then Inr db else Inl ''selection evidence table unavailable'')
      else Inr (delete_receipts (\<lambda>_. True) db))"


subsection \<open>Snapshots survive their text\<close>

lemma behavior_cong:
  assumes "\<And>k. k \<in> set (behavior_keys @ [preferred_key]) \<Longrightarrow> map_of a k = map_of b k"
  shows "behavior a = behavior b"
proof -
  have m: "list_all (\<lambda>k. map_of a k \<noteq> None) behavior_keys = list_all (\<lambda>k. map_of b k \<noteq> None) behavior_keys"
    using assms by (simp add: list_all_iff)
  have f: "field a k = field b k" if "k \<in> set behavior_keys" for k using assms that by (simp add: field_def)
  have g: "map (\<lambda>k. (k, field a k)) behavior_keys = map (\<lambda>k. (k, field b k)) behavior_keys"
    using f by (intro map_cong refl) simp
  have p: "map_of a preferred_key = map_of b preferred_key" using assms by simp
  have k: "''url'' \<in> set behavior_keys" "''title'' \<in> set behavior_keys" "''indexer'' \<in> set behavior_keys"
    "''guid'' \<in> set behavior_keys" "''protocol'' \<in> set behavior_keys" "''size_bytes'' \<in> set behavior_keys"
    "''seeders'' \<in> set behavior_keys" by (simp_all add: behavior_keys_def)
  show ?thesis unfolding behavior_def m p g f [OF k(1)] f [OF k(2)] f [OF k(3)] f [OF k(4)] f [OF k(5)]
    f [OF k(6)] f [OF k(7)] by (rule refl)
qed

lemma behavior_Some:
  assumes "behavior data = Some b"
  shows "b = map (\<lambda>k. (k, field data k)) behavior_keys
      @ (case map_of data preferred_key of None \<Rightarrow> [] | Some v \<Rightarrow> [(preferred_key, v)])"
    and "list_all (\<lambda>k. map_of data k \<noteq> None) behavior_keys"
  using assms by (auto simp: behavior_def split: if_splits)

lemma preferred_not_behavior: "preferred_key \<notin> set behavior_keys"
  by (simp add: preferred_key_def behavior_keys_def)

lemma distinct_behavior_keys: "distinct behavior_keys"
  by (simp add: behavior_keys_def)

lemma behavior_map_of:
  assumes "behavior data = Some b" "k \<in> set (behavior_keys @ [preferred_key])"
  shows "map_of b k = map_of data k"
proof -
  have m: "map_of (map (\<lambda>k. (k, field data k)) ks) k = (if k \<in> set ks then Some (field data k) else None)" for ks
    by (induction ks) auto
  show ?thesis
  proof (cases "k = preferred_key")
    case True
    then show ?thesis
      unfolding behavior_Some(1) [OF assms(1)] using m preferred_not_behavior
      by (auto simp: map_add_def split: option.splits)
  next
    case False
    with assms(2) have k: "k \<in> set behavior_keys" by simp
    then obtain v where v: "map_of data k = Some v"
      using behavior_Some(2) [OF assms(1)] by (auto simp: list_all_iff)
    have "map_of (case map_of data preferred_key of None \<Rightarrow> [] | Some v \<Rightarrow> [(preferred_key, v)]) k = None"
      using False by (simp split: option.split)
    then show ?thesis
      unfolding behavior_Some(1) [OF assms(1)] using m k v by (simp add: map_add_def field_def)
  qed
qed

lemma behavior_idem: "behavior data = Some b \<Longrightarrow> behavior b = Some b"
  using behavior_cong [of b data] behavior_map_of by metis

lemma release_keys_set: "set release_keys = set (behavior_keys @ [preferred_key])"
  by (auto simp: release_keys_def behavior_keys_def)

lemma map_of_map_filter:
  "map_of (List.map_filter (\<lambda>k. map_option (\<lambda>v. (k, v)) (map_of item k)) ks) k
    = (if k \<in> set ks then map_of item k else None)"
  by (induction ks) (auto simp: List.map_filter_simps split: option.splits)

lemma release_json_obj:
  "release_json item = JObj (List.map_filter (\<lambda>k. map_option (\<lambda>v. (k, v)) (map_of item k)) release_keys)"
  by (simp add: release_json_def)

lemma map_filter_keys:
  "map fst (List.map_filter (\<lambda>k. map_option (\<lambda>v. (k, v)) (map_of item k)) ks) = filter (\<lambda>k. map_of item k \<noteq> None) ks"
  by (induction ks) (auto simp: List.map_filter_simps split: option.splits)

lemma behavior_release:
  assumes "behavior data = Some b"
  shows "behavior (List.map_filter (\<lambda>k. map_option (\<lambda>v. (k, v)) (map_of b k)) release_keys) = Some b"
proof -
  have "behavior (List.map_filter (\<lambda>k. map_option (\<lambda>v. (k, v)) (map_of b k)) release_keys) = behavior b"
    by (rule behavior_cong) (simp add: map_of_map_filter release_keys_set)
  with behavior_idem [OF assms] show ?thesis by simp
qed

lemma behavior_plain:
  assumes "behavior data = Some b" "(k, v) \<in> set b"
  shows "float_free v \<and> unique_pairs v"
proof -
  have fields: "text_field (field data ''url'') (Some 8192) True" "text_field (field data ''title'') (Some 2048) False"
    "text_field (field data ''indexer'') None False" "text_field (field data ''guid'') None False"
    "exact_protocol (field data ''protocol'') \<noteq> None"
    "natural_field (field data ''size_bytes'')" "natural_field (field data ''seeders'')"
    "case map_of data preferred_key of None \<Rightarrow> True | Some v \<Rightarrow> positive_id v"
    using assms(1) by (auto simp: behavior_def split: if_splits)
  have t: "float_free x \<and> unique_pairs x" if "text_field x l n" for x l n
    using that by (auto simp: text_field_def split: json.splits)
  have n: "float_free x \<and> unique_pairs x" if "natural_field x" for x
    using that by (auto simp: natural_field_def split: json.splits)
  have p: "float_free x \<and> unique_pairs x" if "exact_protocol x \<noteq> None" for x
    using that by (auto dest: exact_protocol_Some)
  have i: "float_free x \<and> unique_pairs x" if "positive_id x" for x
    using that by (auto simp: positive_id_def split: json.splits)
  from assms(2) consider "k \<in> set behavior_keys" "v = field data k" | "map_of data preferred_key = Some v"
    unfolding behavior_Some(1) [OF assms(1)] by (auto split: option.splits)
  then show ?thesis
  proof cases
    case 1
    then show ?thesis using fields t n p by (auto simp: behavior_keys_def)
  next
    case 2
    then show ?thesis using fields(8) i by simp
  qed
qed

lemma map_filter_mem:
  "(k, v) \<in> set (List.map_filter (\<lambda>k. map_option (\<lambda>v. (k, v)) (map_of item k)) ks) \<Longrightarrow> (k, v) \<in> set item"
  by (auto simp: List.map_filter_def dest: map_of_SomeD)

lemma snapshot_json_plain:
  assumes "behavior data = Some (sn_item s)"
  shows "float_free (snapshot_json s) \<and> unique_pairs (snapshot_json s)"
proof -
  let ?kvs = "List.map_filter (\<lambda>k. map_option (\<lambda>v. (k, v)) (map_of (sn_item s) k)) release_keys"
  have v: "float_free v \<and> unique_pairs v" if "(k, v) \<in> set ?kvs" for k v
    using behavior_plain [OF assms] map_filter_mem [OF that] by blast
  have "distinct (map fst ?kvs)"
    unfolding map_filter_keys by (rule distinct_filter) (simp add: release_keys_def preferred_key_def)
  with v have "float_free (release_json (sn_item s)) \<and> unique_pairs (release_json (sn_item s))"
    unfolding release_json_obj by (auto simp: list_all_iff)
  then show ?thesis by (simp add: snapshot_json_def)
qed

lemma make_snapshot_Some:
  assumes "make_snapshot sid vid context item = Some s"
  obtains data where "item = JObj data" "behavior data = Some (sn_item s)" "sn_context s = context"
    "positive_int (sn_series s)" "positive_int (sn_volume s)" "sc_purpose context = Interactive"
    "sc_series context = Some (sn_series s)"
    "JStr (release_protocol_name (sc_protocol context)) = field (sn_item s) ''protocol''"
    "sid = JInt (sn_series s)" "vid = JInt (sn_volume s)"
  using assms that by (auto simp: make_snapshot_def split: prod.splits json.splits if_splits option.splits)

lemma decode_encode_snapshot:
  assumes "make_snapshot sid vid context item = Some s" "valid_context context" "encode_snapshot s = Some raw"
  shows "decode_snapshot raw = Some s"
proof -
  from assms(1) obtain data where d: "item = JObj data" "behavior data = Some (sn_item s)" "sn_context s = context"
    "positive_int (sn_series s)" "positive_int (sn_volume s)" "sc_purpose context = Interactive"
    "sc_series context = Some (sn_series s)"
    "JStr (release_protocol_name (sc_protocol context)) = field (sn_item s) ''protocol''" by (rule make_snapshot_Some)
  have raw: "raw = dumps False (snapshot_json s)" "0 < utf8_length raw" "utf8_length raw \<le> snapshot_limit"
    using assms(3) by (auto simp: encode_snapshot_def Let_def split: if_splits)
  then have t: "text_field (JStr raw) (Some snapshot_limit) True" by (auto simp: text_field_def utf8_length_def)
  have l: "loads_unique raw = Some (snapshot_json s)"
    unfolding raw(1) using snapshot_json_plain [OF d(2)] by (simp add: loads_unique_dumps)
  let ?kvs = "List.map_filter (\<lambda>k. map_option (\<lambda>v. (k, v)) (map_of (sn_item s) k)) release_keys"
  have rel: "release_json (sn_item s) = JObj ?kvs" by (rule release_json_obj)
  have sub: "set (map fst ?kvs) \<subseteq> set (behavior_keys @ [preferred_key])"
    unfolding map_filter_keys release_keys_set [symmetric] by auto
  have ctx: "decode_context (dumps True (context_json context)) = Inr context"
    using context_of_json_self [OF assms(2)] loads_unique_dumps [of "context_json context" True]
    by (simp add: decode_context_def)
  have mk: "make_snapshot (JInt (sn_series s)) (JInt (sn_volume s)) context (JObj ?kvs) = Some s"
    using behavior_release [OF d(2)] d(3-8) by (simp add: make_snapshot_def)
  show ?thesis
    unfolding decode_snapshot_def l option.case
    using t sub ctx mk assms(3) d(3)
    by (simp add: snapshot_json_def rel snapshot_keys_def field_def insert_commute del: set_map)
qed


subsection \<open>The table: lemmas\<close>

lemma delete_frame [simp]:
  "sessions (delete_receipts p db) = sessions db" "volume_ids (delete_receipts p db) = volume_ids db"
  "series_ids (delete_receipts p db) = series_ids db"
  "receipts (delete_receipts p db) = filter (\<lambda>e. \<not> p e) (receipts db)"
  by (simp_all add: delete_receipts_def)

lemma prune_receipts: "receipts (prune now db) = filter (\<lambda>e. ev_issued e \<le> now \<and> now < ev_expires e) (receipts db)"
  by (simp add: prune_def not_le not_less conj_commute)

lemma prune_frame [simp]: "sessions (prune now db) = sessions db" "volume_ids (prune now db) = volume_ids db"
  "series_ids (prune now db) = series_ids db"
  by (simp_all add: prune_def)

lemma active_issuer_cong: "sessions a = sessions b \<Longrightarrow> active_issuer a i now = active_issuer b i now"
  by (simp add: active_issuer_def split: issuer.split)

lemma keep_newest_bound: "length (filter p (receipts (keep_newest p n db))) \<le> n"
proof -
  let ?rows = "filter p (receipts db)"
  let ?s = "rev (sort_key (\<lambda>e. (ev_issued e, ev_handle e)) ?rows)"
  let ?gone = "set (map ev_handle (drop n ?s))"
  let ?q = "\<lambda>e. ev_handle e \<notin> ?gone"
  have "filter p (receipts (keep_newest p n db)) = filter ?q ?rows"
    by (simp add: keep_newest_def overflow_rows_def Let_def conj_commute)
  moreover have "mset (filter ?q ?rows) = mset (filter ?q ?s)" unfolding mset_filter mset_rev mset_sort by (rule refl)
  then have "length (filter ?q ?rows) = length (filter ?q ?s)" by (rule mset_eq_length)
  ultimately have "length (filter p (receipts (keep_newest p n db))) = length (filter ?q ?s)" by (rule trans [OF arg_cong [where f = length]])
  also have "\<dots> = length (filter ?q (take n ?s) @ filter ?q (drop n ?s))"
    by (metis append_take_drop_id filter_append)
  also have "filter ?q (drop n ?s) = []" by (auto simp: filter_empty_conv)
  finally show ?thesis using length_filter_le [of ?q "take n ?s"] by simp
qed

lemma keep_newest_sub: "set (receipts (keep_newest p n db)) \<subseteq> set (receipts db)"
  "length (filter q (receipts (keep_newest p n db))) \<le> length (filter q (receipts db))"
proof -
  show "set (receipts (keep_newest p n db)) \<subseteq> set (receipts db)" by (auto simp: keep_newest_def Let_def)
  have "filter q (receipts (keep_newest p n db)) = filter (\<lambda>e. ev_handle e \<notin> set (map ev_handle (overflow_rows p n (receipts db)))) (filter q (receipts db))"
    by (simp add: keep_newest_def Let_def conj_commute del: set_map)
  then show "length (filter q (receipts (keep_newest p n db))) \<le> length (filter q (receipts db))"
    using length_filter_le by metis
qed

lemma insert_receipts_Some:
  "insert_receipts es db = Some db' \<Longrightarrow> receipts db' = receipts db @ es \<and> sessions db' = sessions db
     \<and> volume_ids db' = volume_ids db \<and> series_ids db' = series_ids db
     \<and> distinct (map ev_handle es) \<and> set (map ev_handle es) \<inter> set (map ev_handle (receipts db)) = {}"
proof (induction es arbitrary: db)
  case Nil
  then show ?case by simp
next
  case (Cons e es)
  then obtain d where d: "insert_receipt e db = Some d" "insert_receipts es d = Some db'"
    by (auto split: option.splits)
  then have e: "d = db\<lparr>receipts := receipts db @ [e]\<rparr>" "\<not> list_ex (\<lambda>r. ev_handle r = ev_handle e) (receipts db)"
    by (auto simp: insert_receipt_def split: if_splits)
  from Cons.IH [OF d(2)] e show ?case by (auto simp: list_ex_iff)
qed

lemma encode_all_Some:
  "encode_all ss = Some raws \<Longrightarrow> length raws = length ss \<and> (\<forall>j < length ss. encode_snapshot (ss ! j) = Some (raws ! j))"
proof (induction ss arbitrary: raws)
  case Nil
  then show ?case by simp
next
  case (Cons s ss)
  then obtain r rs where "encode_snapshot s = Some r" "encode_all ss = Some rs" "raws = r # rs"
    by (auto split: option.splits)
  with Cons.IH [of rs] show ?case by (auto simp: nth_Cons split: nat.split)
qed

lemma issue_Inr:
  assumes "issue_selections digest current handles i snapshots now db = Inr (hs, db')"
  obtains encoded db3 where "validate_now now" "length snapshots \<le> issuer_limit" "encode_all snapshots = Some encoded"
    "active_issuer db i now" "list_all (\<lambda>s. current (sn_context s)) snapshots"
    "db3 = keep_newest (\<lambda>_. True) (global_limit - length snapshots)
        (keep_newest (\<lambda>e. ev_issuer e = i) (issuer_limit - length snapshots) (prune now db))"
    "hs = take (length snapshots) handles"
    "insert_receipts (receipt_rows digest i now hs snapshots encoded) db3 = Some db'"
proof -
  have "active_issuer (prune now db) i now = active_issuer db i now" by (rule active_issuer_cong) simp
  with assms that show thesis
    by (auto simp: issue_selections_def Let_def list_all_iff list_ex_iff split: if_splits option.splits)
qed

subsection \<open>Properties\<close>

text \<open>
  The table stays bounded however often receipts are issued: after every successful issue at
  most 2048 rows exist and at most 256 of them belong to the issuer, all of them live at that
  moment, and no row of another kind was added.\<close>

theorem receipts_bounded:
  assumes "issue_selections digest current handles i snapshots now db = Inr (hs, db')"
  shows "length (receipts db') \<le> 2048 \<and> length (filter (\<lambda>e. ev_issuer e = i) (receipts db')) \<le> 256
    \<and> list_all (\<lambda>e. ev_issued e \<le> now \<and> now < ev_expires e
          \<and> (e \<in> set (receipts db) \<or> (ev_issuer e = i \<and> ev_issued e = now))) (receipts db')"
proof -
  from assms obtain encoded db3 where i: "length snapshots \<le> issuer_limit" "encode_all snapshots = Some encoded"
    "db3 = keep_newest (\<lambda>_. True) (global_limit - length snapshots)
        (keep_newest (\<lambda>e. ev_issuer e = i) (issuer_limit - length snapshots) (prune now db))"
    "insert_receipts (receipt_rows digest i now hs snapshots encoded) db3 = Some db'" by (rule issue_Inr)
  let ?rows = "receipt_rows digest i now hs snapshots encoded"
  have r: "receipts db' = receipts db3 @ ?rows" using insert_receipts_Some [OF i(4)] by blast
  have len: "length ?rows \<le> length snapshots" by (simp add: receipt_rows_def)
  have rows: "ev_issuer e = i \<and> ev_issued e = now \<and> ev_expires e = now + lifetime" if "e \<in> set ?rows" for e
    using that by (auto simp: receipt_rows_def)
  have g: "length (receipts db3) \<le> global_limit - length snapshots"
    using keep_newest_bound [of "\<lambda>_. True" "global_limit - length snapshots"] unfolding i(3) by simp
  have own: "length (filter (\<lambda>e. ev_issuer e = i) (receipts db3)) \<le> issuer_limit - length snapshots"
    unfolding i(3) using keep_newest_sub(2) keep_newest_bound order_trans by metis
  have "set (receipts db3) \<subseteq> set (receipts (prune now db))"
    unfolding i(3) using keep_newest_sub(1) by blast
  then have live: "ev_issued e \<le> now \<and> now < ev_expires e \<and> e \<in> set (receipts db)" if "e \<in> set (receipts db3)" for e
    using that by (auto simp: prune_receipts)
  have "length (receipts db') \<le> 2048"
    using g len i(1) by (simp add: r global_limit_def issuer_limit_def)
  moreover have "length (filter (\<lambda>e. ev_issuer e = i) (receipts db')) \<le> 256"
  proof -
    have "length (filter (\<lambda>e. ev_issuer e = i) (receipts db'))
        \<le> length (filter (\<lambda>e. ev_issuer e = i) (receipts db3)) + length ?rows"
      by (simp add: r)
    then show ?thesis using own len i(1) by (simp add: issuer_limit_def)
  qed
  moreover have "list_all (\<lambda>e. ev_issued e \<le> now \<and> now < ev_expires e
      \<and> (e \<in> set (receipts db) \<or> (ev_issuer e = i \<and> ev_issued e = now))) (receipts db')"
    using live rows by (auto simp: r list_all_iff lifetime_def)
  ultimately show ?thesis by blast
qed

lemma receipt_current: "consume_selection digest current handle i sid vid posted now db = Inr (snap, db') \<Longrightarrow> current (sn_context snap)"
  by (auto simp: consume_selection_def Let_def split: if_splits option.splits)

text \<open>
  C12: A receipt is consumed only on its own terms: consumption succeeds only while an unexpired
  row of the handle's digest exists, for the issuer it was issued to (a browser session still
  alive), for the series and volume it was issued for, with posted fields equal to the stored
  ones, an existing volume and a source that is still current. It removes that row (and expired
  ones) and nothing else, so the same handle is gone for every later attempt.\<close>

theorem receipt_consumed_once:
  assumes "consume_selection digest current handle i sid vid posted now db = Inr (snap, db')"
  shows "(\<exists>row \<in> set (receipts db). ev_handle row = digest handle \<and> ev_issuer row = i \<and> active_issuer db i now
        \<and> ev_issued row \<le> now \<and> now < ev_expires row \<and> decode_snapshot (ev_snapshot row) = Some snap
        \<and> ev_series row = sid \<and> ev_volume row = vid)
    \<and> sn_series snap = sid \<and> sn_volume snap = vid \<and> behavior posted = Some (sn_item snap)
    \<and> (vid, sid) \<in> set (volume_ids db) \<and> current (sn_context snap)
    \<and> receipts db' = filter (\<lambda>e. ev_handle e \<noteq> digest handle \<and> ev_issued e \<le> now \<and> now < ev_expires e) (receipts db)
    \<and> (if validate_now now' then consume_selection digest current' handle j sid' vid' posted' now' db' = Inl SelGone
        else consume_selection digest current' handle j sid' vid' posted' now' db' = Inl SelValueError)"
proof -
  let ?db1 = "prune now db"
  have act: "active_issuer ?db1 i now = active_issuer db i now" by (rule active_issuer_cong) simp
  from assms have v: "validate_now now" "valid_handle handle"
    by (auto simp: consume_selection_def split: if_splits)
  with assms obtain row where f: "find (\<lambda>e. ev_handle e = digest handle) (receipts ?db1) = Some row"
    by (auto simp: consume_selection_def Let_def split: option.splits)
  then have row: "row \<in> set (receipts ?db1)" "ev_handle row = digest handle" by (auto simp: find_Some_iff)
  from assms v f have c: "ev_issuer row = i" "active_issuer ?db1 i now" "decode_snapshot (ev_snapshot row) = Some snap"
    "ev_series row = sn_series snap" "ev_volume row = sn_volume snap" "sid = sn_series snap" "vid = sn_volume snap"
    "behavior posted = Some (sn_item snap)" "(vid, sid) \<in> set (volume_ids db)" "current (sn_context snap)"
    "db' = delete_receipts (\<lambda>e. ev_handle e = digest handle) ?db1"
    by (auto simp: consume_selection_def Let_def split: if_splits option.splits)
  have rec: "receipts db' = filter (\<lambda>e. ev_handle e \<noteq> digest handle \<and> ev_issued e \<le> now \<and> now < ev_expires e) (receipts db)"
    by (simp add: c(11) prune_receipts conj_commute)
  have "find (\<lambda>e. ev_handle e = digest handle) (receipts (prune now' db')) = None"
    by (auto simp: find_None_iff prune_receipts rec)
  then have "if validate_now now' then consume_selection digest current' handle j sid' vid' posted' now' db' = Inl SelGone
        else consume_selection digest current' handle j sid' vid' posted' now' db' = Inl SelValueError"
    using v(2) by (simp add: consume_selection_def Let_def)
  with row c act rec show ?thesis by (auto simp: prune_receipts)
qed

text \<open>
  C13: An issued receipt is honoured: within its 900 seconds, the issuer (still active) that posts
  back the observed fields for the snapshot's series and volume receives the very snapshot it was
  issued for, provided the volume still exists and the source is still current.\<close>

theorem receipt_honoured:
  assumes "issue_selections digest current handles i snapshots now db = Inr (hs, db')"
    "j < length snapshots" "j < length hs" "valid_handle (hs ! j)"
    "make_snapshot sid vid ctx item = Some (snapshots ! j)" "valid_context ctx"
    "validate_now now'" "now \<le> now'" "now' < now + 900"
    "active_issuer db' i now'" "behavior posted = Some (sn_item (snapshots ! j))"
    "(sn_volume (snapshots ! j), sn_series (snapshots ! j)) \<in> set (volume_ids db')"
    "current' (sn_context (snapshots ! j))"
  shows "\<exists>db''. consume_selection digest current' (hs ! j) i (sn_series (snapshots ! j)) (sn_volume (snapshots ! j))
     posted now' db' = Inr (snapshots ! j, db'')"
proof -
  let ?s = "snapshots ! j"
  from assms(1) obtain encoded db3 where i: "encode_all snapshots = Some encoded"
    "insert_receipts (receipt_rows digest i now hs snapshots encoded) db3 = Some db'" by (rule issue_Inr)
  let ?rows = "receipt_rows digest i now hs snapshots encoded"
  note ins = insert_receipts_Some [OF i(2)]
  have enc: "length encoded = length snapshots" "encode_snapshot ?s = Some (encoded ! j)"
    using encode_all_Some [OF i(1)] assms(2) by auto
  let ?row = "\<lparr>ev_handle = digest (hs ! j), ev_issuer = i, ev_issued = now, ev_expires = now + lifetime,
      ev_series = sn_series ?s, ev_volume = sn_volume ?s, ev_snapshot = encoded ! j\<rparr>"
  have "?rows ! j = ?row" "j < length ?rows"
    using assms(2,3) enc(1) by (simp_all add: receipt_rows_def)
  then have mem: "?row \<in> set ?rows" by (metis nth_mem)
  then have "?row \<in> set (receipts db')" using ins by simp
  moreover have "e = ?row" if "e \<in> set (receipts db')" "ev_handle e = digest (hs ! j)" for e
  proof -
    from that ins consider "e \<in> set (receipts db3)" | "e \<in> set ?rows" by auto
    then show ?thesis
    proof cases
      case 1
      then have "digest (hs ! j) \<in> set (map ev_handle (receipts db3))" using that(2) by (metis image_eqI set_map)
      moreover have "digest (hs ! j) \<in> set (map ev_handle ?rows)" using mem by (force simp del: set_map simp: set_map)
      ultimately show ?thesis using ins by blast
    next
      case 2
      then show ?thesis using distinct_key_unique [of ev_handle ?rows e ?row] ins mem that(2) by simp
    qed
  qed
  ultimately have f: "find (\<lambda>e. ev_handle e = digest (hs ! j)) (receipts (prune now' db')) = Some ?row"
  proof -
    assume a: "?row \<in> set (receipts db')"
      and u: "\<And>e. e \<in> set (receipts db') \<Longrightarrow> ev_handle e = digest (hs ! j) \<Longrightarrow> e = ?row"
    have live: "?row \<in> set (receipts (prune now' db'))" using a assms(8,9) by (simp add: prune_receipts lifetime_def)
    obtain e where e: "find (\<lambda>e. ev_handle e = digest (hs ! j)) (receipts (prune now' db')) = Some e"
      using live by (cases "find (\<lambda>e. ev_handle e = digest (hs ! j)) (receipts (prune now' db'))") (auto simp: find_None_iff)
    then have "e \<in> set (receipts (prune now' db'))" "ev_handle e = digest (hs ! j)" by (auto simp: find_Some_iff)
    with u have "e = ?row" by (simp add: prune_receipts)
    with e show ?thesis by simp
  qed
  have dec: "decode_snapshot (encoded ! j) = Some ?s" by (rule decode_encode_snapshot [OF assms(5,6) enc(2)])
  have act: "active_issuer (prune now' db') i now'" using assms(10) active_issuer_cong [of "prune now' db'" db'] by simp
  show ?thesis
    unfolding consume_selection_def Let_def f option.case
    using assms(4,7,11-13) dec act by simp
qed

definition demo_item :: "(string \<times> json) list" where
  "demo_item = [(''url'', JStr ''magnet:?xt=1''), (''guid'', JStr ''g-1''), (''protocol'', JStr ''torrent''),
     (''title'', JStr ''Vol 2''), (''indexer'', JStr ''Nyaa''), (''size_bytes'', JInt 10), (''seeders'', JInt 4)]"

definition demo_snapshot :: snapshot where
  "demo_snapshot = \<lparr>sn_series = 5, sn_volume = 9, sn_context = demo_context, sn_item = demo_item\<rparr>"

definition demo_handle :: string where
  "demo_handle = replicate 64 (CHR ''Z'')"

definition demo_receipts :: selection_db where
  "demo_receipts = \<lparr>receipts = [], sessions = [], volume_ids = [(9, 5)], series_ids = [5]\<rparr>"

definition demo_issue :: "selection_error + string list \<times> selection_db" where
  "demo_issue = issue_selections (\<lambda>h. h) (\<lambda>_. True) [demo_handle] ApiIssuer [demo_snapshot] 100 demo_receipts"

definition demo_issued :: selection_db where
  "demo_issued = snd (projr demo_issue)"

lemma demo_made: "make_snapshot (JInt 5) (JInt 9) demo_context (JObj demo_item) = Some demo_snapshot"
  by code_simp

lemma demo_issue_eq: "demo_issue = Inr ([demo_handle], demo_issued)"
proof -
  have "\<not> isl demo_issue" "fst (projr demo_issue) = [demo_handle]" by code_simp+
  then show ?thesis by (metis demo_issued_def prod.collapse sum.collapse(2))
qed

lemma demo_issued_volumes: "volume_ids demo_issued = [(9, 5)]"
  by code_simp

theorem receipts_bounded_witness:
  "length (receipts demo_issued) \<le> 2048 \<and> length (filter (\<lambda>e. ev_issuer e = ApiIssuer) (receipts demo_issued)) \<le> 256"
  using receipts_bounded [OF demo_issue_eq [unfolded demo_issue_def]] by blast

theorem receipt_honoured_witness:
  "\<exists>db''. consume_selection (\<lambda>h. h) (\<lambda>_. True) demo_handle ApiIssuer 5 9 demo_item 500 demo_issued = Inr (demo_snapshot, db'')"
proof -
  have "valid_handle demo_handle" by code_simp
  moreover have "behavior demo_item = Some demo_item" by code_simp
  ultimately show ?thesis
    using receipt_honoured [OF demo_issue_eq [unfolded demo_issue_def], where j = 0 and sid = "JInt 5" and vid = "JInt 9"
        and ctx = demo_context and item = "JObj demo_item" and now' = 500 and posted = demo_item and current' = "\<lambda>_. True"]
      demo_made make_source_context_valid [OF demo_context_made] demo_issued_volumes
    by (simp add: validate_now_def max_id_def lifetime_def active_issuer_def demo_snapshot_def)
qed

definition demo_row :: evidence where
  "demo_row = \<lparr>ev_handle = demo_handle, ev_issuer = ApiIssuer, ev_issued = 100, ev_expires = 1000, ev_series = 5,
     ev_volume = 9, ev_snapshot = dumps False (snapshot_json demo_snapshot)\<rparr>"

definition demo_stored :: selection_db where
  "demo_stored = demo_receipts\<lparr>receipts := [demo_row]\<rparr>"

lemma demo_consume:
  "consume_selection (\<lambda>h. h) (\<lambda>_. True) demo_handle ApiIssuer 5 9 demo_item 500 demo_stored
     = Inr (demo_snapshot, demo_receipts)"
proof -
  have "encode_snapshot demo_snapshot = Some (ev_snapshot demo_row)" by code_simp
  then have "decode_snapshot (ev_snapshot demo_row) = Some demo_snapshot"
    by (rule decode_encode_snapshot [OF demo_made make_source_context_valid [OF demo_context_made]])
  moreover have "valid_handle demo_handle" "validate_now 500" "behavior demo_item = Some demo_item" by code_simp+
  moreover have "prune 500 demo_stored = demo_stored" by (simp add: prune_def delete_receipts_def demo_stored_def demo_row_def)
  moreover have "receipts demo_stored = [demo_row]" "ev_handle demo_row = demo_handle" "ev_issuer demo_row = ApiIssuer"
    "ev_series demo_row = 5" "ev_volume demo_row = 9" "volume_ids demo_stored = [(9, 5)]"
    "delete_receipts (\<lambda>e. ev_handle e = demo_handle) demo_stored = demo_receipts"
    by (simp_all add: demo_stored_def demo_row_def demo_receipts_def delete_receipts_def)
  moreover have "sn_series demo_snapshot = 5" "sn_volume demo_snapshot = 9" "sn_item demo_snapshot = demo_item"
    by (simp_all add: demo_snapshot_def)
  ultimately show ?thesis by (simp add: consume_selection_def active_issuer_def)
qed

theorem receipt_consumed_once_witness:
  "(9, 5) \<in> set (volume_ids demo_stored)
   \<and> consume_selection (\<lambda>h. h) (\<lambda>_. True) demo_handle ApiIssuer 5 9 demo_item 501 demo_receipts = Inl SelGone"
proof -
  note once = receipt_consumed_once [OF demo_consume, where now' = 501 and current' = "\<lambda>_. True"
      and j = ApiIssuer and sid' = 5 and vid' = 9 and posted' = demo_item]
  have now: "validate_now 501" by code_simp
  have "(9, 5) \<in> set (volume_ids demo_stored)" using once by (elim conjE)
  moreover from once have "consume_selection (\<lambda>h. h) (\<lambda>_. True) demo_handle ApiIssuer 5 9 demo_item 501
      demo_receipts = Inl SelGone"
    unfolding if_P [OF now] by (elim conjE)
  ultimately show ?thesis by (rule conjI)
qed

end
