(* ===== verification/Release_Sources.thy ===== *)
theory Release_Sources
  imports Release_Identity "HOL-Library.Product_Lexorder"
begin

text \<open>
  \<^verbatim>\<open>src/app/release_sources.py\<close>, with the selection of active indexers from
  \<^verbatim>\<open>src/app/routers/indexers.py\<close>: every indexer row carries a scope, an epoch of its
  configuration; a request captures the row's scope before the network is used, and what was
  observed counts later only while the row still has that scope. Rows given as mappings
  (\<open>pending_grabs\<close>, search results) are JSON objects; configured rows are records.
\<close>

subsection \<open>Indexer rows\<close>

record indexer_row =
  ix_id :: int
  ix_type :: string
  ix_url :: "string option"
  ix_parent :: "int option"
  ix_prowlarr :: "int option"
  ix_scope :: "string option"
  ix_enabled :: "int option"
  ix_use_rss :: "int option"
  ix_use_auto :: "int option"
  ix_use_interactive :: "int option"
  ix_priority :: "int option"

record indexer_db =
  indexer_rows :: "indexer_row list"
  indexer_tags :: "(int \<times> string) list"
  series_tag_rows :: "(int \<times> string) list"

definition use_flag :: "purpose \<Rightarrow> indexer_row \<Rightarrow> int option" where
  "use_flag p r = (case p of Rss \<Rightarrow> ix_use_rss r | Auto \<Rightarrow> ix_use_auto r | Interactive \<Rightarrow> ix_use_interactive r)"

definition tag_eligible :: "indexer_db \<Rightarrow> int option \<Rightarrow> indexer_row \<Rightarrow> bool" where
  "tag_eligible db series r =
     (case series of None \<Rightarrow> True
      | Some s \<Rightarrow>
          (let own = filter (\<lambda>(i, _). i = ix_id r) (indexer_tags db)
           in own = [] \<or> list_ex (\<lambda>(_, t). (s, t) \<in> set (series_tag_rows db)) own))"

definition indexer_active :: "indexer_db \<Rightarrow> purpose \<Rightarrow> int option \<Rightarrow> indexer_row \<Rightarrow> bool" where
  "indexer_active db p series r \<longleftrightarrow>
     ix_enabled r = Some 1 \<and> (use_flag p r = Some 1 \<or> use_flag p r = None) \<and> tag_eligible db series r"

definition priority_key :: "indexer_row \<Rightarrow> nat \<times> int" where
  "priority_key r = (case ix_priority r of None \<Rightarrow> (0, 0) | Some p \<Rightarrow> (1, p))"

definition active_indexer_rows :: "indexer_db \<Rightarrow> purpose \<Rightarrow> int option \<Rightarrow> indexer_row list" where
  "active_indexer_rows db p series = sort_key priority_key (filter (indexer_active db p series) (indexer_rows db))"

subsection \<open>Requests\<close>

record source_request =
  sq_indexer :: int
  sq_scope :: string
  sq_impl :: indexer_kind
  sq_sub :: "int option"
  sq_purpose :: purpose
  sq_series :: "int option"

definition make_source_request ::
  "json \<Rightarrow> json \<Rightarrow> json \<Rightarrow> json \<Rightarrow> json \<Rightarrow> json \<Rightarrow> py_exn + source_request" where
  "make_source_request indexer_id row_scope impl sub_id purp fetch_series_id =
     (case (positive_id indexer_id, json_id fetch_series_id, exact_purpose purp, parse_scope row_scope True, json_id sub_id) of
        (True, Some series, Some q, Inr (kind, _, encoded_sub), Some sub) \<Rightarrow>
          (let req = (\<lambda>k. \<lparr>sq_indexer = (case indexer_id of JInt i \<Rightarrow> i | _ \<Rightarrow> 0),
                 sq_scope = (case row_scope of JStr s \<Rightarrow> s | _ \<Rightarrow> []), sq_impl = k, sq_sub = sub,
                 sq_purpose = q, sq_series = series\<rparr>)
           in case exact_impl impl of
                Some Prowlarr \<Rightarrow>
                  if kind \<noteq> CHR ''p'' \<or> encoded_sub \<noteq> None then Inl ValueError else Inr (req Prowlarr)
              | Some k \<Rightarrow>
                  if (kind = CHR ''p'' \<and> encoded_sub = None) \<or> sub \<noteq> encoded_sub then Inl ValueError else Inr (req k)
              | None \<Rightarrow> Inl ValueError)
      | _ \<Rightarrow> Inl ValueError)"

definition text_json :: "string option \<Rightarrow> json" where
  "text_json t = (case t of None \<Rightarrow> JNull | Some s \<Rightarrow> JStr s)"

definition capture_source_request :: "indexer_row \<Rightarrow> purpose \<Rightarrow> int option \<Rightarrow> source_request option" where
  "capture_source_request row p series =
     (case parse_scope (text_json (ix_scope row)) True of
        Inl _ \<Rightarrow> None
      | Inr (_, _, sub_id) \<Rightarrow>
          py_ok (make_source_request (JInt (ix_id row)) (text_json (ix_scope row)) (JStr (ix_type row)) (id_json sub_id)
            (JStr (purpose_name p)) (id_json series)))"

definition context_of_request :: "source_request \<Rightarrow> download_protocol \<Rightarrow> py_exn + source_context" where
  "context_of_request r p =
     make_source_context (JInt (sq_indexer r)) (JStr (sq_scope r)) (JStr (impl_name (sq_impl r))) (id_json (sq_sub r))
       (JStr (release_protocol_name p)) (JStr (purpose_name (sq_purpose r))) (id_json (sq_series r))"

definition request_from_context :: "source_context \<Rightarrow> py_exn + source_request" where
  "request_from_context c =
     make_source_request (JInt (sc_indexer c)) (JStr (sc_scope c)) (JStr (impl_name (sc_impl c))) (id_json (sc_sub c))
       (JStr (purpose_name (sc_purpose c))) (id_json (sc_series c))"

text \<open>
  A search result: its JSON fields and the runtime values the server attaches. A key
  \<open>_source_request\<close> may be present with the value None.
\<close>

record source_item =
  it_fields :: "(string \<times> json) list"
  it_evidence :: json
  it_request :: "source_request option option"
  it_context :: "source_context option"

definition observe_item :: "source_request option \<Rightarrow> download_protocol option \<Rightarrow> source_item \<Rightarrow> source_item" where
  "observe_item request expected item =
     (let observed = canonical_protocol (it_evidence item);
          item1 = item\<lparr>it_request := Some request, it_context := None, it_evidence := JNull\<rparr>
      in case (request, expected) of
           (Some r, Some e) \<Rightarrow>
             if observed = Some e then item1\<lparr>it_context := py_ok (context_of_request r e)\<rparr> else item1
         | _ \<Rightarrow> item1)"

definition observe_source_items :: "source_item list \<Rightarrow> source_request option \<Rightarrow> json \<Rightarrow> source_item list" where
  "observe_source_items items request expected_protocol =
     map (observe_item request (canonical_protocol expected_protocol)) items"

subsection \<open>Freshness\<close>

definition source_is_current ::
  "indexer_db \<Rightarrow> indexer_kind \<Rightarrow> int option \<Rightarrow> int \<Rightarrow> string \<Rightarrow> purpose \<Rightarrow> int option \<Rightarrow> bool" where
  "source_is_current db impl sub indexer_id scope p series =
     (if impl = Prowlarr \<and> sub = None then False
      else case find (\<lambda>r. ix_id r = indexer_id) (active_indexer_rows db p series) of
             None \<Rightarrow> False
           | Some r \<Rightarrow> ix_type r = impl_name impl \<and> ix_scope r = Some scope)"

definition request_is_current :: "indexer_db \<Rightarrow> source_request \<Rightarrow> bool" where
  "request_is_current db r =
     source_is_current db (sq_impl r) (sq_sub r) (sq_indexer r) (sq_scope r) (sq_purpose r) (sq_series r)"

definition source_context_is_current :: "indexer_db \<Rightarrow> source_context \<Rightarrow> bool" where
  "source_context_is_current db c =
     source_is_current db (sc_impl c) (sc_sub c) (sc_indexer c) (sc_scope c) (sc_purpose c) (sc_series c)"

definition item_source_is_current :: "indexer_db \<Rightarrow> source_item \<Rightarrow> bool" where
  "item_source_is_current db item =
     (let protocol_ok = (\<lambda>c. canonical_protocol (field (it_fields item) ''protocol'') = Some (sc_protocol c))
      in case it_request item of
           None \<Rightarrow>
             (case it_context item of None \<Rightarrow> True
              | Some c \<Rightarrow> protocol_ok c \<and> source_context_is_current db c)
         | Some None \<Rightarrow> False
         | Some (Some r) \<Rightarrow>
             if \<not> request_is_current db r then False
             else (case it_context item of None \<Rightarrow> True
                   | Some c \<Rightarrow> if request_from_context c \<noteq> Inr r then False else protocol_ok c))"

subsection \<open>Pending evidence\<close>

definition request_json :: "source_request \<Rightarrow> json" where
  "request_json r = JObj
     [(''fetch_series_id'', id_json (sq_series r)), (''implementation'', JStr (impl_name (sq_impl r))),
      (''indexer_id'', JInt (sq_indexer r)), (''purpose'', JStr (purpose_name (sq_purpose r))),
      (''row_scope'', JStr (sq_scope r)), (''sub_id'', id_json (sq_sub r))]"

definition freshness_kind :: string where
  "freshness_kind = ''blocklist-request-freshness''"

definition freshness_json :: "source_request option \<Rightarrow> json \<Rightarrow> json" where
  "freshness_json request prot = JObj
     [(''kind'', JStr freshness_kind), (''protocol'', prot),
      (''request'', case request of None \<Rightarrow> JNull | Some r \<Rightarrow> request_json r), (''version'', JInt 1)]"

definition stripped_guid :: "(string \<times> json) list \<Rightarrow> string option" where
  "stripped_guid item =
     (case field item ''guid'' of JStr s \<Rightarrow> if py_strip s = [] then None else Some (py_strip s) | _ \<Rightarrow> None)"

definition pending_source_fields :: "source_item \<Rightarrow> string option \<times> string option \<times> string option" where
  "pending_source_fields item =
     (let guid = stripped_guid (it_fields item) in
      case it_context item of
        Some c \<Rightarrow> (Some (source_scope c), guid, Some (encode_context c))
      | None \<Rightarrow>
          (case it_request item of
             None \<Rightarrow> (None, None, None)
           | Some request \<Rightarrow> (None, guid, Some (dumps True (freshness_json request (field (it_fields item) ''protocol''))))))"

record pending_row =
  pn_scope :: json
  pn_guid :: json
  pn_context :: json
  pn_protocol :: json
  pn_series :: int

definition request_keys :: "string list" where
  "request_keys = [''indexer_id'', ''row_scope'', ''implementation'', ''sub_id'', ''purpose'', ''fetch_series_id'']"

text \<open>\<open>SourceRequest(**value)\<close>: missing or unknown keys are a \<open>TypeError\<close>, refused alike.\<close>

definition request_of_json :: "json \<Rightarrow> source_request option" where
  "request_of_json v =
     (case v of
        JObj kvs \<Rightarrow>
          if set (map fst kvs) \<noteq> set request_keys then None
          else py_ok (make_source_request (field kvs ''indexer_id'') (field kvs ''row_scope'') (field kvs ''implementation'')
                 (field kvs ''sub_id'') (field kvs ''purpose'') (field kvs ''fetch_series_id''))
      | _ \<Rightarrow> None)"

definition restore_freshness :: "pending_row \<Rightarrow> string \<Rightarrow> source_request option" where
  "restore_freshness row raw =
     (case loads_unique raw of
        Some (JObj value) \<Rightarrow>
          if set (map fst value) \<noteq> {''version'', ''kind'', ''request'', ''protocol''} \<or> field value ''version'' \<noteq> JInt 1
             \<or> field value ''kind'' \<noteq> JStr freshness_kind \<or> exact_protocol (field value ''protocol'') = None
             \<or> field value ''protocol'' \<noteq> pn_protocol row \<or> pn_scope row \<noteq> JNull then None
          else request_of_json (field value ''request'')
      | _ \<Rightarrow> None)"

definition guid_ok :: "json \<Rightarrow> bool" where
  "guid_ok v = (case v of JNull \<Rightarrow> True | JStr s \<Rightarrow> s \<noteq> [] \<and> s = py_strip s | _ \<Rightarrow> False)"

text \<open>The request and the context a pending row names; \<open>Inr None\<close> for a row without evidence.\<close>

definition pending_evidence :: "pending_row \<Rightarrow> py_exn + (source_request \<times> source_context option) option" where
  "pending_evidence row =
     (if pn_context row = JNull \<and> pn_scope row = JNull \<and> pn_guid row = JNull then Inr None
      else case pn_context row of
        JStr raw \<Rightarrow>
          if raw = [] \<or> \<not> guid_ok (pn_guid row) then Inl ValueError
          else (case decode_context raw of
              Inl _ \<Rightarrow> (case restore_freshness row raw of None \<Rightarrow> Inl ValueError | Some r \<Rightarrow> Inr (Some (r, None)))
            | Inr c \<Rightarrow>
                if pn_scope row \<noteq> JStr (source_scope c) \<or> pn_protocol row \<noteq> JStr (release_protocol_name (sc_protocol c))
                then Inl ValueError
                else (case request_from_context c of Inl e \<Rightarrow> Inl e | Inr r \<Rightarrow> Inr (Some (r, Some c))))
      | _ \<Rightarrow> Inl ValueError)"

definition set_field :: "string \<Rightarrow> json \<Rightarrow> (string \<times> json) list \<Rightarrow> (string \<times> json) list" where
  "set_field k v = dict_set k v"

definition restore_pending_source :: "pending_row \<Rightarrow> source_item \<Rightarrow> py_exn + source_item" where
  "restore_pending_source row item =
     (case pending_evidence row of
        Inl e \<Rightarrow> Inl e
      | Inr None \<Rightarrow> Inr item
      | Inr (Some (r, context)) \<Rightarrow>
          if sq_impl r = Prowlarr \<and> sq_sub r = None then Inl ValueError
          else if (case sq_series r of None \<Rightarrow> False | Some s \<Rightarrow> s \<noteq> pn_series row) then Inl ValueError
          else
            Inr (item\<lparr>it_request := Some (Some r),
                 it_context := (case context of None \<Rightarrow> it_context item | Some c \<Rightarrow> Some c),
                 it_fields := set_field ''guid'' (case pn_guid row of JNull \<Rightarrow> JStr [] | g \<Rightarrow> g) (it_fields item)\<rparr>))"

subsection \<open>Binding a scope to a row\<close>

definition rstrip_slash :: "string \<Rightarrow> string" where
  "rstrip_slash s = rev (dropWhile (\<lambda>c. c = CHR ''/'') (rev s))"

definition effective_endpoint :: "indexer_row \<Rightarrow> string" where
  "effective_endpoint r = rstrip_slash (case ix_url r of None \<Rightarrow> [] | Some u \<Rightarrow> u)"

definition facade_matches :: "indexer_row \<Rightarrow> indexer_row \<Rightarrow> int option \<Rightarrow> bool" where
  "facade_matches row parent sub =
     (case sub of None \<Rightarrow> False
      | Some i \<Rightarrow>
          ix_type parent = ''prowlarr'' \<and> (ix_type row = ''torznab'' \<or> ix_type row = ''newznab'')
          \<and> positive_int i \<and> positive_int (ix_id parent)
          \<and> ix_parent row = Some (ix_id parent) \<and> ix_prowlarr row = Some i
          \<and> effective_endpoint parent \<noteq> [] \<and> effective_endpoint row = effective_endpoint parent @ ''/'' @ dec_int i)"

definition same_configuration :: "indexer_row \<Rightarrow> indexer_row \<Rightarrow> bool" where
  "same_configuration row old \<longleftrightarrow>
     ix_type row = ix_type old \<and> ix_parent row = ix_parent old \<and> ix_prowlarr row = ix_prowlarr old
     \<and> effective_endpoint row = effective_endpoint old"

definition kept_scope :: "indexer_row \<Rightarrow> indexer_row \<Rightarrow> string option" where
  "kept_scope row old =
     (if same_configuration row old \<and> ix_scope old \<noteq> None then
        (case parse_scope (text_json (ix_scope old)) True of
           Inl _ \<Rightarrow> None
         | Inr (kind, _, child) \<Rightarrow>
             if (ix_type row = ''prowlarr'') = (kind = CHR ''p'' \<and> child = None) then ix_scope old else None)
      else None)"

definition fresh_scope :: "indexer_row \<Rightarrow> string \<Rightarrow> string" where
  "fresh_scope row token = ''bs1:'' @ (if ix_type row = ''prowlarr'' then CHR ''p'' else CHR ''d'') # CHR '':'' # token"

definition verified_scope :: "indexer_row \<Rightarrow> indexer_row \<Rightarrow> int option \<Rightarrow> py_exn + string" where
  "verified_scope row parent sub =
     (if \<not> facade_matches row parent sub then Inl ValueError
      else case parse_scope (text_json (ix_scope parent)) True of
        Inl e \<Rightarrow> Inl e
      | Inr (kind, _, child) \<Rightarrow>
          if kind \<noteq> CHR ''p'' \<or> child \<noteq> None then Inl ValueError
          else Inr ((case ix_scope parent of Some base \<Rightarrow> base | None \<Rightarrow> []) @ '':''
                    @ (case sub of Some i \<Rightarrow> dec_int i | None \<Rightarrow> ''None'')))"

definition set_scope :: "int \<Rightarrow> string \<Rightarrow> indexer_db \<Rightarrow> indexer_db" where
  "set_scope i scope db =
     db\<lparr>indexer_rows := map (\<lambda>r. if ix_id r = i then r\<lparr>ix_scope := Some scope\<rparr> else r) (indexer_rows db)\<rparr>"

text \<open>\<open>token\<close> is the value of \<open>secrets.token_hex(32)\<close>.\<close>

definition bind_indexer_scope ::
  "string \<Rightarrow> int \<Rightarrow> indexer_row option \<Rightarrow> indexer_row option \<Rightarrow> int option \<Rightarrow> indexer_db \<Rightarrow> py_exn + string \<times> indexer_db" where
  "bind_indexer_scope token indexer_id previous verified_parent sub db =
     (case find (\<lambda>r. ix_id r = indexer_id) (indexer_rows db) of
        None \<Rightarrow> Inl ValueError
      | Some row \<Rightarrow>
          (case (case verified_parent of
                   Some parent \<Rightarrow> map_sum id Some (verified_scope row parent sub)
                 | None \<Rightarrow> Inr (case previous of None \<Rightarrow> None | Some old \<Rightarrow> kept_scope row old)) of
             Inl e \<Rightarrow> Inl e
           | Inr found \<Rightarrow>
               (let scope = (case found of Some s \<Rightarrow> s | None \<Rightarrow> fresh_scope row token)
                in Inr (scope, set_scope indexer_id scope db))))"

definition known_protocol :: "string \<Rightarrow> download_protocol option" where
  "known_protocol impl = (if impl = ''torznab'' then Some Torrent else if impl = ''newznab'' then Some Nzb else None)"

definition capture_source_context ::
  "indexer_row \<Rightarrow> purpose \<Rightarrow> int option \<Rightarrow> int option \<Rightarrow> json \<Rightarrow> source_context option" where
  "capture_source_context row p series sub observed_protocol =
     (let known = known_protocol (ix_type row);
          prot = (if observed_protocol \<noteq> JNull then canonical_protocol observed_protocol else known)
      in case prot of None \<Rightarrow> None
         | Some q \<Rightarrow>
             if known \<noteq> None \<and> known \<noteq> Some q then None
             else (case parse_scope (text_json (ix_scope row)) True of
                 Inl _ \<Rightarrow> None
               | Inr (_, _, encoded_sub) \<Rightarrow>
                   (let sub' = (if sub = None \<and> ix_type row \<noteq> ''prowlarr'' then encoded_sub else sub)
                    in py_ok (make_source_context (JInt (ix_id row)) (text_json (ix_scope row)) (JStr (ix_type row))
                         (id_json sub') (JStr (release_protocol_name q)) (JStr (purpose_name p)) (id_json series)))))"


subsection \<open>Requests: lemmas\<close>

definition valid_request :: "source_request \<Rightarrow> bool" where
  "valid_request r \<longleftrightarrow>
     positive_int (sq_indexer r) \<and> (case sq_series r of None \<Rightarrow> True | Some i \<Rightarrow> positive_int i)
     \<and> (case sq_sub r of None \<Rightarrow> True | Some i \<Rightarrow> positive_int i)
     \<and> (case parse_scope (JStr (sq_scope r)) True of
          Inl _ \<Rightarrow> False
        | Inr (kind, _, encoded_sub) \<Rightarrow>
            (case sq_impl r of
               Prowlarr \<Rightarrow> kind = CHR ''p'' \<and> encoded_sub = None
             | k \<Rightarrow> (kind = CHR ''p'' \<longrightarrow> encoded_sub \<noteq> None) \<and> sq_sub r = encoded_sub))"

lemma exact_purpose_Some: "exact_purpose v = Some q \<Longrightarrow> v = JStr (purpose_name q)"
  by (auto simp: exact_purpose_def split: if_splits)

lemma exact_impl_Some: "exact_impl v = Some k \<Longrightarrow> v = JStr (impl_name k)"
  by (auto simp: exact_impl_def split: if_splits)

lemma make_source_request_Inr:
  assumes "make_source_request i s k b q f = Inr r"
  shows "valid_request r \<and> i = JInt (sq_indexer r) \<and> s = JStr (sq_scope r) \<and> k = JStr (impl_name (sq_impl r))
    \<and> b = id_json (sq_sub r) \<and> q = JStr (purpose_name (sq_purpose r)) \<and> f = id_json (sq_series r)"
proof -
  from assms obtain series q' kind e sub0 sub where 1: "positive_id i" "json_id f = Some series" "exact_purpose q = Some q'"
    "parse_scope s True = Inr (kind, e, sub0)" "json_id b = Some sub"
    by (auto simp: make_source_request_def split: prod.splits bool.splits option.splits sum.splits)
  from 1(1) obtain n where n: "i = JInt n" "positive_int n" by (auto simp: positive_id_def split: json.splits)
  from 1(4) obtain t where t: "s = JStr t" by (auto simp: parse_scope_def split: json.splits)
  from assms 1 obtain k' where k: "exact_impl k = Some k'" by (auto simp: make_source_request_def split: option.splits)
  show ?thesis
    using assms n t 1 k json_id_Some [OF 1(2)] json_id_Some [OF 1(5)] exact_purpose_Some [OF 1(3)] exact_impl_Some [OF k]
    unfolding make_source_request_def valid_request_def Let_def
    by (cases k') (auto split: if_splits)
qed

lemma make_source_request_self:
  assumes "valid_request r"
  shows "make_source_request (JInt (sq_indexer r)) (JStr (sq_scope r)) (JStr (impl_name (sq_impl r)))
     (id_json (sq_sub r)) (JStr (purpose_name (sq_purpose r))) (id_json (sq_series r)) = Inr r"
proof -
  obtain kind e sub0 where s: "parse_scope (JStr (sq_scope r)) True = Inr (kind, e, sub0)"
    using assms by (auto simp: valid_request_def split: sum.splits)
  have ids: "json_id (id_json (sq_sub r)) = Some (sq_sub r)" "json_id (id_json (sq_series r)) = Some (sq_series r)"
    "positive_id (JInt (sq_indexer r))"
    using assms by (auto simp: valid_request_def positive_id_def split: option.splits)
  show ?thesis
    using assms s ids(3) unfolding make_source_request_def valid_request_def Let_def exact_purpose_name exact_impl_name ids(1,2)
    by (cases "sq_impl r") (auto split: if_splits)
qed

definition request_of :: "source_context \<Rightarrow> source_request" where
  "request_of c = \<lparr>sq_indexer = sc_indexer c, sq_scope = sc_scope c, sq_impl = sc_impl c, sq_sub = sc_sub c,
     sq_purpose = sc_purpose c, sq_series = sc_series c\<rparr>"

lemma request_of_simps [simp]:
  "sq_indexer (request_of c) = sc_indexer c" "sq_scope (request_of c) = sc_scope c" "sq_impl (request_of c) = sc_impl c"
  "sq_sub (request_of c) = sc_sub c" "sq_purpose (request_of c) = sc_purpose c" "sq_series (request_of c) = sc_series c"
  by (simp_all add: request_of_def)

lemma valid_request_of: "valid_context c \<Longrightarrow> valid_request (request_of c)"
  by (auto simp: valid_context_def valid_request_def split: sum.splits indexer_kind.splits)

lemma request_from_context: "valid_context c \<Longrightarrow> request_from_context c = Inr (request_of c)"
  using make_source_request_self [OF valid_request_of] by (simp add: request_from_context_def)

lemma context_of_request_Inr:
  assumes "context_of_request r p = Inr c"
  shows "request_of c = r \<and> sc_protocol c = p \<and> valid_context c"
proof -
  have v: "valid_context c" by (rule make_source_context_valid [OF assms [unfolded context_of_request_def]])
  have self: "json_id (id_json x) = Some y \<Longrightarrow> y = x" for x y by (auto split: option.splits if_splits)
  from assms have "sc_indexer c = sq_indexer r \<and> sc_scope c = sq_scope r \<and> sc_impl c = sq_impl r \<and> sc_sub c = sq_sub r
      \<and> sc_purpose c = sq_purpose r \<and> sc_series c = sq_series r \<and> sc_protocol c = p"
    unfolding context_of_request_def make_source_context_def Let_def
    by (auto simp del: json_id_id dest!: self split: prod.splits bool.splits option.splits sum.splits indexer_kind.splits if_splits)
  with v show ?thesis by (simp add: request_of_def)
qed

subsection \<open>Rows and scopes: lemmas\<close>

lemma active_rows_set: "set (active_indexer_rows db p series) = {r \<in> set (indexer_rows db). indexer_active db p series r}"
  by (auto simp: active_indexer_rows_def)

lemma set_scope_rows:
  assumes "r \<in> set (indexer_rows (set_scope i scope db))" "ix_id r = i"
  shows "ix_scope r = Some scope"
proof -
  from assms(1) have "r \<in> (\<lambda>x. if ix_id x = i then x\<lparr>ix_scope := Some scope\<rparr> else x) ` set (indexer_rows db)"
    by (simp add: set_scope_def)
  then obtain x where "r = (if ix_id x = i then x\<lparr>ix_scope := Some scope\<rparr> else x)" by (rule imageE)
  then show ?thesis using assms(2) by (cases "ix_id x = i") simp_all
qed

lemma set_scope_frame [simp]:
  "indexer_tags (set_scope i scope db) = indexer_tags db" "series_tag_rows (set_scope i scope db) = series_tag_rows db"
  "filter (\<lambda>r. ix_id r \<noteq> i) (indexer_rows (set_scope i scope db)) = filter (\<lambda>r. ix_id r \<noteq> i) (indexer_rows db)"
proof -
  show "indexer_tags (set_scope i scope db) = indexer_tags db" "series_tag_rows (set_scope i scope db) = series_tag_rows db"
    by (simp_all add: set_scope_def)
  have "filter (\<lambda>r. ix_id r \<noteq> i) (map (\<lambda>r. if ix_id r = i then r\<lparr>ix_scope := Some scope\<rparr> else r) rows)
      = filter (\<lambda>r. ix_id r \<noteq> i) rows" for rows by (induction rows) auto
  then show "filter (\<lambda>r. ix_id r \<noteq> i) (indexer_rows (set_scope i scope db)) = filter (\<lambda>r. ix_id r \<noteq> i) (indexer_rows db)"
    by (simp add: set_scope_def)
qed

lemma current_needs_scope:
  assumes "source_is_current db impl sub i scope p series"
  shows "\<exists>r \<in> set (indexer_rows db). ix_id r = i \<and> ix_scope r = Some scope"
proof -
  from assms obtain r where "find (\<lambda>r. ix_id r = i) (active_indexer_rows db p series) = Some r" "ix_scope r = Some scope"
    by (auto simp: source_is_current_def split: if_splits option.splits)
  then show ?thesis using active_rows_set [of db p series] by (auto simp: find_Some_iff)
qed

lemma rebound_not_current: "scope \<noteq> old \<Longrightarrow> \<not> source_is_current (set_scope i scope db) impl sub i old p series"
  using current_needs_scope set_scope_rows by (metis option.inject)

text \<open>The shape a row's scope must have: a parent root for Prowlarr, anything else otherwise.\<close>

definition scope_fits :: "string \<Rightarrow> string \<Rightarrow> bool" where
  "scope_fits typ scope =
     (case parse_scope (JStr scope) True of
        Inl _ \<Rightarrow> False
      | Inr (kind, _, child) \<Rightarrow> (typ = ''prowlarr'') = (kind = CHR ''p'' \<and> child = None))"

lemma fresh_scope_fits:
  "length token = 64 \<Longrightarrow> list_all scope_hex token \<Longrightarrow> scope_fits (ix_type row) (fresh_scope row token)"
  using match_scope_build(1) [of token "CHR ''p''"] match_scope_build(1) [of token "CHR ''d''"]
  unfolding scope_fits_def fresh_scope_def parse_scope_def by (cases "ix_type row = ''prowlarr''") simp_all

lemma kept_scope_fits: "kept_scope row old = Some scope \<Longrightarrow> scope_fits (ix_type row) scope \<and> ix_scope old = Some scope"
  by (auto simp: kept_scope_def scope_fits_def text_json_def split: if_splits sum.splits option.splits prod.splits)

lemma verified_scope_fits:
  assumes "verified_scope row parent sub = Inr scope"
  shows "scope_fits (ix_type row) scope \<and> ix_type row \<noteq> ''prowlarr'' \<and> (\<exists>base e i. ix_scope parent = Some base \<and> sub = Some i
    \<and> parse_scope (JStr base) True = Inr (CHR ''p'', e, None) \<and> parse_scope (JStr scope) False = Inr (CHR ''p'', e, Some i))"
proof -
  from assms obtain kind e child where m: "facade_matches row parent sub"
    "parse_scope (text_json (ix_scope parent)) True = Inr (kind, e, child)" "kind = CHR ''p''" "child = None"
    by (auto simp: verified_scope_def split: if_splits sum.splits)
  then obtain base where b: "ix_scope parent = Some base" by (cases "ix_scope parent") (auto simp: text_json_def parse_scope_def)
  from m(1) obtain i where i: "sub = Some i" "positive_int i" "ix_type row \<noteq> ''prowlarr''"
    by (auto simp: facade_matches_def split: option.splits)
  have sc: "scope = base @ '':'' @ dec_int i" using assms m b i by (simp add: verified_scope_def)
  have base: "parse_scope (JStr base) True = Inr (CHR ''p'', e, None)" using m b by (simp add: text_json_def)
  have child: "parse_scope (JStr scope) False = Inr (CHR ''p'', e, Some i)"
    unfolding sc by (rule parse_scope_child [OF base i(2)])
  then have "parse_scope (JStr scope) True = Inr (CHR ''p'', e, Some i)"
    by (auto simp: parse_scope_def Let_def split: option.splits if_splits)
  with base child b i show ?thesis by (simp add: scope_fits_def)
qed

lemma bind_Inr:
  assumes "bind_indexer_scope token i previous parent sub db = Inr (scope, db')"
  obtains row where "row \<in> set (indexer_rows db)" "ix_id row = i" "find (\<lambda>r. ix_id r = i) (indexer_rows db) = Some row"
    "db' = set_scope i scope db"
    "case parent of Some p \<Rightarrow> verified_scope row p sub = Inr scope
     | None \<Rightarrow> scope = (case (case previous of None \<Rightarrow> None | Some old \<Rightarrow> kept_scope row old) of
         Some s \<Rightarrow> s | None \<Rightarrow> fresh_scope row token)"
proof -
  from assms obtain row where f: "find (\<lambda>r. ix_id r = i) (indexer_rows db) = Some row"
    by (auto simp: bind_indexer_scope_def split: option.splits)
  then have "row \<in> set (indexer_rows db)" "ix_id row = i" by (auto simp: find_Some_iff)
  moreover have "db' = set_scope i scope db \<and> (case parent of Some p \<Rightarrow> verified_scope row p sub = Inr scope
     | None \<Rightarrow> scope = (case (case previous of None \<Rightarrow> None | Some old \<Rightarrow> kept_scope row old) of
         Some s \<Rightarrow> s | None \<Rightarrow> fresh_scope row token))"
  proof (cases parent)
    case None
    then show ?thesis using assms f by (auto simp: bind_indexer_scope_def Let_def)
  next
    case (Some p)
    then show ?thesis using assms f
      by (cases "verified_scope row p sub") (auto simp: bind_indexer_scope_def Let_def)
  qed
  ultimately show thesis using that f by blast
qed

lemma observe_item_base:
  "it_request (observe_item request expected item) = Some request"
  "it_fields (observe_item request expected item) = it_fields item"
  by (simp_all add: observe_item_def Let_def split: option.split)

lemma observe_item_context:
  assumes "it_context (observe_item request expected item) = Some c"
  shows "valid_context c \<and> Some (request_of c) = request \<and> expected = Some (sc_protocol c)
      \<and> canonical_protocol (it_evidence item) = expected"
proof -
  from assms obtain r e where re: "request = Some r" "expected = Some e" "canonical_protocol (it_evidence item) = Some e"
    "context_of_request r e = Inr c"
    by (auto simp: observe_item_def py_ok_def Let_def split: option.splits if_splits sum.splits)
  then show ?thesis using context_of_request_Inr [OF re(4)] by simp
qed

subsection \<open>Properties\<close>


text \<open>
  A request captured from a configured row is valid and names that row, and it is current
  exactly while the row is active for its purpose and series (a parent Prowlarr row needs a
  concrete sub-source first), provided row ids are unique.\<close>

theorem captured_request_current:
  assumes "capture_source_request row p series = Some r" "row \<in> set (indexer_rows db)"
    "distinct (map ix_id (indexer_rows db))"
  shows "valid_request r \<and> sq_indexer r = ix_id row \<and> ix_scope row = Some (sq_scope r) \<and> impl_name (sq_impl r) = ix_type row
    \<and> sq_purpose r = p \<and> sq_series r = series
    \<and> (request_is_current db r \<longleftrightarrow> indexer_active db p series row \<and> ix_type row \<noteq> ''prowlarr'')"
proof -
  from assms(1) obtain k e sub where c: "parse_scope (text_json (ix_scope row)) True = Inr (k, e, sub)"
    "make_source_request (JInt (ix_id row)) (text_json (ix_scope row)) (JStr (ix_type row)) (id_json sub)
            (JStr (purpose_name p)) (id_json series) = Inr r"
    by (auto simp: capture_source_request_def py_ok_def split: sum.splits)
  note m = make_source_request_Inr [OF c(2)]
  have ids: "sq_sub r = sub" "sq_series r = series" using m by (auto simp: id_json_def split: option.splits)
  have names: "purpose_name a = purpose_name b \<longleftrightarrow> a = b" for a b by (cases a; cases b) (simp_all add: purpose_name_def)
  have scope: "ix_scope row = Some (sq_scope r)" using m by (cases "ix_scope row") (simp_all add: text_json_def)
  have prow: "sq_impl r = Prowlarr \<longleftrightarrow> ix_type row = ''prowlarr''"
    using m by (cases "sq_impl r") (auto simp: impl_name_def)
  have noroot: "sq_impl r = Prowlarr \<Longrightarrow> sq_sub r = None"
    using m c(1) scope ids by (auto simp: valid_request_def text_json_def)
  have "find (\<lambda>x. ix_id x = ix_id row) (active_indexer_rows db p series)
      = (if indexer_active db p series row then Some row else None)"
  proof (cases "find (\<lambda>x. ix_id x = ix_id row) (active_indexer_rows db p series)")
    case None
    then show ?thesis using active_rows_set [of db p series] assms(2) by (auto simp: find_None_iff)
  next
    case (Some x)
    then have "x \<in> set (indexer_rows db)" "indexer_active db p series x" "ix_id x = ix_id row"
      using active_rows_set [of db p series] by (auto simp: find_Some_iff)
    moreover from this assms(2,3) have "x = row" by (metis distinct_key_unique)
    ultimately show ?thesis using Some by simp
  qed
  then have "request_is_current db r \<longleftrightarrow> indexer_active db p series row \<and> ix_type row \<noteq> ''prowlarr''"
    using m ids scope prow noroot names by (auto simp: request_is_current_def source_is_current_def)
  with m ids scope names show ?thesis by simp
qed

text \<open>
  What is attached to an observed search result is sound: whatever the result carried before,
  it names the request alone, and carries a context only when its protocol evidence agrees with
  the expected protocol; that context is valid, of that protocol and of that request. The result
  is current exactly if there was a request, the request is current, and the protocol the result
  shows is still the one of its context.\<close>

theorem observed_evidence_sound:
  "it_request (observe_item request expected item) = Some request
   \<and> it_fields (observe_item request expected item) = it_fields item
   \<and> (case it_context (observe_item request expected item) of
        None \<Rightarrow> True
      | Some c \<Rightarrow> valid_context c \<and> Some (request_of c) = request \<and> expected = Some (sc_protocol c)
          \<and> canonical_protocol (it_evidence item) = expected)
   \<and> (item_source_is_current db (observe_item request expected item) \<longleftrightarrow>
        (case request of None \<Rightarrow> False
         | Some r \<Rightarrow> request_is_current db r
             \<and> (case it_context (observe_item request expected item) of None \<Rightarrow> True
                | Some c \<Rightarrow> canonical_protocol (field (it_fields item) ''protocol'') = Some (sc_protocol c))))"
proof -
  let ?item = "observe_item request expected item"
  note base = observe_item_base [of request expected item]
  note ctx = observe_item_context [of request expected item]
  show ?thesis
  proof (cases request)
    case None
    with ctx have "it_context ?item = None" by (cases "it_context ?item") auto
    with None base show ?thesis by (simp add: item_source_is_current_def Let_def)
  next
    case (Some r)
    show ?thesis
    proof (cases "it_context ?item")
      case None
      with Some base show ?thesis by (simp add: item_source_is_current_def Let_def)
    next
      case (Some c)
      note v = ctx [OF Some]
      from v have "request_from_context c = Inr (request_of c)" by (simp add: request_from_context)
      with v Some base \<open>request = Some r\<close> show ?thesis by (simp add: item_source_is_current_def Let_def)
    qed
  qed
qed

lemma request_json_plain: "float_free (request_json r) \<and> unique_pairs (request_json r)"
  by (simp add: request_json_def id_json_def split: option.split)

lemma request_of_json_self: "valid_request r \<Longrightarrow> request_of_json (request_json r) = Some r"
  using make_source_request_self [of r]
  by (simp add: request_of_json_def request_json_def field_def request_keys_def insert_commute py_ok_def)

lemma freshness_text:
  assumes "valid_request r" "exact_protocol prot \<noteq> None"
  shows "decode_context (dumps True (freshness_json (Some r) prot)) = Inl ValueError"
    and "pn_scope row = JNull \<Longrightarrow> pn_protocol row = prot \<Longrightarrow>
      restore_freshness row (dumps True (freshness_json (Some r) prot)) = Some r"
proof -
  from assms(2) obtain p where p: "prot = JStr (release_protocol_name p)" by (auto dest: exact_protocol_Some)
  then have "loads_unique (dumps True (freshness_json (Some r) prot)) = Some (freshness_json (Some r) prot)"
    using request_json_plain [of r] by (intro loads_unique_dumps) (simp_all add: freshness_json_def)
  note l = this
  have "''kind'' \<notin> set context_keys" by (simp add: context_keys_def)
  then have "set (map fst [(''kind'', JStr freshness_kind), (''protocol'', prot), (''request'', request_json r), (''version'', JInt 1)])
      \<noteq> set context_keys" by auto
  then show "decode_context (dumps True (freshness_json (Some r) prot)) = Inl ValueError"
    unfolding decode_context_def l by (simp add: context_of_json_def freshness_json_def)
  show "restore_freshness row (dumps True (freshness_json (Some r) prot)) = Some r"
    if "pn_scope row = JNull" "pn_protocol row = prot"
    unfolding restore_freshness_def l using that p request_of_json_self [OF assms(1)]
    by (auto simp: freshness_json_def field_def)
qed

text \<open>
  Pending evidence survives the queue: an observed result written to a pending row (with the
  result's own protocol and a series the request allows) and restored later into a bare result
  yields the same request, the same context and the stripped GUID; only a Prowlarr request
  without a concrete sub-source is refused.\<close>

theorem pending_source_roundtrip:
  assumes "valid_request r" "sq_series r = None \<or> sq_series r = Some s"
    "exact_protocol (field (it_fields item) ''protocol'') = Some q" "expected = None \<or> expected = Some q"
    "pending_source_fields (observe_item (Some r) expected item) = (scope, guid, evidence)" "it_context bare = None"
    "row = \<lparr>pn_scope = text_json scope, pn_guid = text_json guid, pn_context = text_json evidence,
       pn_protocol = field (it_fields item) ''protocol'', pn_series = s\<rparr>"
  shows "if sq_impl r = Prowlarr \<and> sq_sub r = None then restore_pending_source row bare = Inl ValueError
    else restore_pending_source row bare = Inr (bare\<lparr>it_request := Some (Some r),
       it_context := it_context (observe_item (Some r) expected item),
       it_fields := set_field ''guid'' (JStr (case stripped_guid (it_fields item) of None \<Rightarrow> [] | Some g \<Rightarrow> g)) (it_fields bare)\<rparr>)"
proof -
  let ?item = "observe_item (Some r) expected item"
  have base: "it_request ?item = Some (Some r)" "it_fields ?item = it_fields item"
    using observe_item_base by simp_all
  have g: "guid = stripped_guid (it_fields item)"
    using assms(5) base by (auto simp: pending_source_fields_def Let_def split: option.splits)
  have gok: "guid_ok (pn_guid row)"
    unfolding assms(7) g by (auto simp: guid_ok_def text_json_def stripped_guid_def split: json.splits option.splits)
  have prot: "field (it_fields item) ''protocol'' = JStr (release_protocol_name q)" using exact_protocol_Some [OF assms(3)] .
  have ev: "pending_evidence row = Inr (Some (r, it_context ?item))"
  proof (cases "it_context ?item")
    case None
    then have sc: "scope = None" "evidence = Some (dumps True (freshness_json (Some r) (JStr (release_protocol_name q))))"
      using assms(5) base prot by (auto simp: pending_source_fields_def)
    note t = freshness_text [OF assms(1), of "JStr (release_protocol_name q)"]
    have "dumps True (freshness_json (Some r) (JStr (release_protocol_name q))) \<noteq> []" by (simp add: freshness_json_def)
    then show ?thesis
      using gok None t(1) t(2) [of row] by (simp add: pending_evidence_def assms(7) sc text_json_def prot)
  next
    case (Some c)
    then have sc: "scope = Some (source_scope c)" "evidence = Some (encode_context c)"
      using assms(5) by (simp_all add: pending_source_fields_def)
    have c: "valid_context c" "request_of c = r" "expected = Some (sc_protocol c)"
      using observe_item_context [OF Some] by simp_all
    then have q: "sc_protocol c = q" using assms(4) by simp
    have "decode_context (encode_context c) = Inr c"
      using context_of_json_self [OF c(1)] loads_unique_dumps [of "context_json c" True]
      by (simp add: decode_context_def encode_context_def)
    moreover have "encode_context c \<noteq> []" by (simp add: encode_context_def context_json_def)
    ultimately show ?thesis
      using gok Some c(2) request_from_context [OF c(1)] q by (simp add: pending_evidence_def assms(7) sc text_json_def prot)
  qed
  have pg: "(case pn_guid row of JNull \<Rightarrow> JStr [] | g \<Rightarrow> g) = JStr (case stripped_guid (it_fields item) of None \<Rightarrow> [] | Some g \<Rightarrow> g)"
    by (simp add: assms(7) g text_json_def split: option.split)
  have ctx: "(case it_context ?item of None \<Rightarrow> it_context bare | Some c \<Rightarrow> Some c) = it_context ?item"
    using assms(6) by (simp split: option.split)
  have ser: "\<not> (case sq_series r of None \<Rightarrow> False | Some x \<Rightarrow> x \<noteq> pn_series row)"
    using assms(2) by (auto simp: assms(7))
  show ?thesis unfolding restore_pending_source_def ev sum.case option.case prod.case pg ctx using ser by simp
qed

subsection \<open>A configuration\<close>

definition demo_indexer :: indexer_row where
  "demo_indexer = \<lparr>ix_id = 3, ix_type = ''torznab'', ix_url = Some ''http://a/1'', ix_parent = None, ix_prowlarr = None,
     ix_scope = Some (''bs1:d:'' @ demo_epoch), ix_enabled = Some 1, ix_use_rss = None, ix_use_auto = Some 0,
     ix_use_interactive = Some 1, ix_priority = Some 25\<rparr>"

definition demo_indexers :: indexer_db where
  "demo_indexers = \<lparr>indexer_rows = [demo_indexer\<lparr>ix_url := Some ''http://b/1/''\<rparr>], indexer_tags = [], series_tag_rows = []\<rparr>"

definition demo_token :: string where
  "demo_token = replicate 64 (CHR ''b'')"

definition demo_request :: source_request where
  "demo_request = \<lparr>sq_indexer = 3, sq_scope = ''bs1:d:'' @ demo_epoch, sq_impl = Torznab, sq_sub = None,
     sq_purpose = Rss, sq_series = Some 5\<rparr>"

lemma demo_bind:
  "bind_indexer_scope demo_token 3 (Some demo_indexer) None None demo_indexers
     = Inr (''bs1:d:'' @ demo_token, set_scope 3 (''bs1:d:'' @ demo_token) demo_indexers)"
proof -
  have "find (\<lambda>r. ix_id r = 3) (indexer_rows demo_indexers) = Some (demo_indexer\<lparr>ix_url := Some ''http://b/1/''\<rparr>)"
    by (simp add: demo_indexers_def demo_indexer_def)
  moreover have "\<not> same_configuration (demo_indexer\<lparr>ix_url := Some ''http://b/1/''\<rparr>) demo_indexer" by code_simp
  ultimately show ?thesis
    by (simp add: bind_indexer_scope_def kept_scope_def fresh_scope_def Let_def demo_indexer_def)
qed


theorem captured_request_current_witness:
  "request_is_current (demo_indexers\<lparr>indexer_rows := [demo_indexer]\<rparr>) demo_request"
proof -
  have c: "capture_source_request demo_indexer Rss (Some 5) = Some demo_request" by code_simp
  have "indexer_active (demo_indexers\<lparr>indexer_rows := [demo_indexer]\<rparr>) Rss (Some 5) demo_indexer" "ix_type demo_indexer \<noteq> ''prowlarr''"
    by code_simp+
  then show ?thesis
    using captured_request_current [OF c, of "demo_indexers\<lparr>indexer_rows := [demo_indexer]\<rparr>"] by simp
qed

definition demo_found :: source_item where
  "demo_found = \<lparr>it_fields = [(''guid'', JStr '' g-7 ''), (''protocol'', JStr ''torrent'')], it_evidence = JStr ''Torrent'',
     it_request = None, it_context = None\<rparr>"

theorem pending_source_roundtrip_witness:
  "case pending_source_fields (observe_item (Some demo_request) (Some Torrent) demo_found) of (scope, guid, evidence) \<Rightarrow>
     restore_pending_source
       \<lparr>pn_scope = text_json scope, pn_guid = text_json guid, pn_context = text_json evidence,
        pn_protocol = field (it_fields demo_found) ''protocol'', pn_series = 5\<rparr>
       (demo_found\<lparr>it_fields := []\<rparr>)
     = Inr (demo_found\<lparr>it_fields := [(''guid'', JStr ''g-7'')], it_request := Some (Some demo_request),
         it_context := it_context (observe_item (Some demo_request) (Some Torrent) demo_found)\<rparr>)"
proof -
  have 1: "valid_request demo_request" "exact_protocol (field (it_fields demo_found) ''protocol'') = Some Torrent"
    "sq_series demo_request = None \<or> sq_series demo_request = Some 5" "sq_impl demo_request = Torznab"
    "it_context (demo_found\<lparr>it_fields := []\<rparr>) = None"
    "set_field ''guid'' (JStr (case stripped_guid (it_fields demo_found) of None \<Rightarrow> [] | Some g \<Rightarrow> g))
       (it_fields (demo_found\<lparr>it_fields := []\<rparr>)) = [(''guid'', JStr ''g-7'')]"
    by code_simp+
  obtain scope guid evidence where p:
    "pending_source_fields (observe_item (Some demo_request) (Some Torrent) demo_found) = (scope, guid, evidence)"
    by (rule prod_cases3)
  show ?thesis
    unfolding p prod.case
    using pending_source_roundtrip [OF 1(1,3,2) _ p 1(5) refl] 1(4,6) by (simp add: demo_found_def)
qed

end
