(* ===== verification/Volume_Assembly.thy ===== *)
theory Volume_Assembly
  imports Py_Path "HOL-Library.Word" "HOL-Library.Char_ord" "HOL-Library.List_Lexorder"
begin

text \<open>
  \<^verbatim>\<open>src/app/volume_assembly.py\<close> and \<open>fingerprint\<close> of \<^verbatim>\<open>chapter_provenance.py\<close>: merging
  chapter archives into one volume, and the evidence of which pages came from which chapter.
  An archive is the list of its members; the digest is an argument, and so is what the file
  system answers while a volume is staged and published (\<open>stage_env\<close>).
\<close>

subsection \<open>Archives and pages\<close>

type_synonym bytes = "8 word list"

record zip_member =
  zm_name :: string
  zm_size :: nat
  zm_data :: bytes

type_synonym archive = "zip_member list"

datatype assembly_error = ProvenanceError | OsError | BadZipFile | FileExists

definition image_extensions :: "string list" where
  "image_extensions = [''.jpg'', ''.jpeg'', ''.png'', ''.webp'', ''.avif'', ''.gif'']"

definition is_image :: "string \<Rightarrow> bool" where
  "is_image n \<longleftrightarrow> py_lower (snd (splitext n)) \<in> set image_extensions"

definition image_members :: "string list \<Rightarrow> string list" where
  "image_members names = sort (filter (\<lambda>n. is_image n \<and> take 1 (path_basename n) \<noteq> ''.'') names)"

fun to_bytes :: "nat \<Rightarrow> nat \<Rightarrow> bytes" where
  "to_bytes 0 n = []"
| "to_bytes (Suc k) n = to_bytes k (n div 256) @ [word_of_nat (n mod 256)]"

definition to_bytes8 :: "nat \<Rightarrow> bytes" where
  "to_bytes8 n = to_bytes 8 n"

definition frame :: "bytes list \<Rightarrow> bytes" where
  "frame pages = concat (map (\<lambda>p. to_bytes8 (length p) @ p) pages)"

definition page_digest :: "(bytes \<Rightarrow> string) \<Rightarrow> bytes list \<Rightarrow> string" where
  "page_digest sha pages = sha (frame pages)"

text \<open>\<open>getinfo\<close>: a repeated name stands for its last member.\<close>

definition getinfo :: "archive \<Rightarrow> string \<Rightarrow> zip_member option" where
  "getinfo a name = find (\<lambda>m. zm_name m = name) (rev a)"

definition zip_read :: "archive \<Rightarrow> string \<Rightarrow> assembly_error + bytes" where
  "zip_read a name =
     (case getinfo a name of None \<Rightarrow> Inl BadZipFile
      | Some m \<Rightarrow> if zm_size m = length (zm_data m) then Inr (zm_data m) else Inl BadZipFile)"

text \<open>The page numbers and their members; \<open>pages\<close> is the dictionary built so far.\<close>

fun number_pages :: "string list \<Rightarrow> (nat \<times> string) list \<Rightarrow> assembly_error + (nat \<times> string) list" where
  "number_pages [] pages = Inr pages"
| "number_pages (name # names) pages =
     (let (stem, ext) = splitext name in
      if py_lower ext \<notin> set image_extensions then number_pages names pages
      else if stem = [] \<or> \<not> list_all is_digit stem then Inl ProvenanceError
      else if undec stem \<in> fst ` set pages then Inl ProvenanceError
      else number_pages names (pages @ [(undec stem, name)]))"

definition volume_pages :: "archive \<Rightarrow> assembly_error + (nat \<times> string) list" where
  "volume_pages a = number_pages (map zm_name a) []"

fun collect_names :: "(nat \<times> string) list \<Rightarrow> nat list \<Rightarrow> assembly_error + string list" where
  "collect_names pages [] = Inr []"
| "collect_names pages (n # ns) =
     (case map_of pages n of None \<Rightarrow> Inl ProvenanceError
      | Some name \<Rightarrow> map_sum id ((#) name) (collect_names pages ns))"

definition range_members :: "(nat \<times> string) list \<Rightarrow> nat \<Rightarrow> nat \<Rightarrow> assembly_error + string list" where
  "range_members pages lo hi = collect_names pages [lo..<Suc hi]"

fun digest_bytes :: "archive \<Rightarrow> string list \<Rightarrow> assembly_error + bytes" where
  "digest_bytes a [] = Inr []"
| "digest_bytes a (name # names) =
     (case getinfo a name of None \<Rightarrow> Inl ProvenanceError
      | Some m \<Rightarrow>
          if length (zm_data m) \<noteq> zm_size m then Inl ProvenanceError
          else map_sum id (\<lambda>rest. to_bytes8 (zm_size m) @ zm_data m @ rest) (digest_bytes a names))"

definition members_digest :: "(bytes \<Rightarrow> string) \<Rightarrow> archive \<Rightarrow> string list \<Rightarrow> assembly_error + string" where
  "members_digest sha a names = map_sum id sha (digest_bytes a names)"

definition range_digest :: "(bytes \<Rightarrow> string) \<Rightarrow> archive \<Rightarrow> nat \<Rightarrow> nat \<Rightarrow> assembly_error + string" where
  "range_digest sha a lo hi =
     (case volume_pages a of Inl e \<Rightarrow> Inl e
      | Inr pages \<Rightarrow> (case range_members pages lo hi of Inl e \<Rightarrow> Inl e | Inr names \<Rightarrow> members_digest sha a names))"

subsection \<open>Merging\<close>

record source_identity =
  si_client :: int
  si_server :: string
  si_manga :: int
  si_source :: string
  si_chapter :: int

record assembly_source =
  as_path :: string
  as_identity :: "source_identity option"

text \<open>(device, inode, size, mtime).\<close>

type_synonym file_identity = "int \<times> int \<times> int \<times> int"

definition id_size :: "file_identity \<Rightarrow> int" where
  "id_size i = fst (snd (snd i))"

text \<open>What an opened source answered: its stat before and after, its bytes and its archive.\<close>

record source_view =
  sv_regular :: bool
  sv_before :: file_identity
  sv_after :: file_identity
  sv_bytes :: bytes
  sv_archive :: "archive option"

record chapter_pages =
  cp_position :: nat
  cp_identity :: source_identity
  cp_sha :: string
  cp_size :: int
  cp_first :: nat
  cp_last :: nat
  cp_pages_sha :: string

definition fingerprint_max :: int where
  "fingerprint_max = 4 * 1024 * 1024 * 1024"

definition page_name :: "nat \<Rightarrow> string \<Rightarrow> string" where
  "page_name n ext = replicate (4 - length (dec_nat n)) (CHR ''0'') @ dec_nat n @ ext"

definition write_page :: "nat \<Rightarrow> string \<Rightarrow> bytes \<Rightarrow> archive \<Rightarrow> archive" where
  "write_page n name data out = out @ [\<lparr>zm_name = page_name n (snd (splitext name)), zm_size = length data, zm_data = data\<rparr>]"

fun read_pages :: "archive \<Rightarrow> string list \<Rightarrow> assembly_error + bytes list" where
  "read_pages a [] = Inr []"
| "read_pages a (name # names) =
     (case zip_read a name of Inl e \<Rightarrow> Inl e | Inr d \<Rightarrow> map_sum id ((#) d) (read_pages a names))"

fun write_pages :: "nat \<Rightarrow> (string \<times> bytes) list \<Rightarrow> archive \<Rightarrow> archive" where
  "write_pages page [] out = out"
| "write_pages page ((name, data) # rest) out = write_pages (Suc page) rest (write_page page name data out)"

record merge_state =
  mg_page :: nat
  mg_chapters :: "chapter_pages list"
  mg_provable :: bool
  mg_out :: archive

definition merge_source ::
  "(bytes \<Rightarrow> string) \<Rightarrow> (string \<Rightarrow> assembly_error + source_view) \<Rightarrow> nat \<Rightarrow> assembly_source \<Rightarrow> merge_state
     \<Rightarrow> assembly_error + merge_state" where
  "merge_source sha view position source st =
     (case view (as_path source) of
        Inl e \<Rightarrow> Inl e
      | Inr v \<Rightarrow>
          if \<not> sv_regular v then Inl ProvenanceError
          else (case sv_archive v of
              None \<Rightarrow> Inl BadZipFile
            | Some a \<Rightarrow>
                (let names = image_members (map zm_name a);
                     source_sha = (if mg_provable st \<and> id_size (sv_before v) \<le> fingerprint_max then Some (sha (sv_bytes v)) else None)
                 in case read_pages a names of
                      Inl e \<Rightarrow> Inl e
                    | Inr datas \<Rightarrow>
                        (let page = mg_page st + length names;
                             st' = st\<lparr>mg_page := page, mg_out := write_pages (mg_page st) (zip names datas) (mg_out st)\<rparr>
                         in case (source_sha, as_identity source) of
                              (Some s, Some i) \<Rightarrow>
                                if sv_before v \<noteq> sv_after v \<or> page = mg_page st then Inr (st'\<lparr>mg_provable := False\<rparr>)
                                else Inr (st'\<lparr>mg_chapters := mg_chapters st @
                                  [\<lparr>cp_position = position, cp_identity = i, cp_sha = s, cp_size = id_size (sv_after v),
                                    cp_first = mg_page st, cp_last = page - 1, cp_pages_sha = page_digest sha datas\<rparr>]\<rparr>)
                            | _ \<Rightarrow> Inr (st'\<lparr>mg_provable := False\<rparr>)))))"

fun merge_sources ::
  "(bytes \<Rightarrow> string) \<Rightarrow> (string \<Rightarrow> assembly_error + source_view) \<Rightarrow> nat \<Rightarrow> assembly_source list \<Rightarrow> merge_state
     \<Rightarrow> assembly_error + merge_state" where
  "merge_sources sha view n [] st = Inr st"
| "merge_sources sha view n (s # ss) st =
     (case merge_source sha view n s st of Inl e \<Rightarrow> Inl e | Inr st' \<Rightarrow> merge_sources sha view (Suc n) ss st')"

definition merge_start :: "assembly_source list \<Rightarrow> merge_state" where
  "merge_start sources = \<lparr>mg_page = 1, mg_chapters = [], mg_provable = list_all (\<lambda>s. as_identity s \<noteq> None) sources, mg_out = []\<rparr>"

definition merge_into ::
  "(bytes \<Rightarrow> string) \<Rightarrow> (string \<Rightarrow> assembly_error + source_view) \<Rightarrow> assembly_source list
     \<Rightarrow> assembly_error + archive \<times> chapter_pages list option" where
  "merge_into sha view sources =
     (case merge_sources sha view 0 sources (merge_start sources) of
        Inl e \<Rightarrow> Inl e
      | Inr st \<Rightarrow>
          if mg_page st = 1 then Inl ProvenanceError
          else Inr (mg_out st, if mg_provable st then Some (mg_chapters st) else None))"

subsection \<open>Verifying, assembling\<close>

fun ranges_verify :: "(bytes \<Rightarrow> string) \<Rightarrow> archive \<Rightarrow> (nat \<times> string) list \<Rightarrow> chapter_pages list \<Rightarrow> bool" where
  "ranges_verify sha a pages [] = True"
| "ranges_verify sha a pages (c # cs) =
     (case range_members pages (cp_first c) (cp_last c) of
        Inl _ \<Rightarrow> False
      | Inr names \<Rightarrow> members_digest sha a names = Inr (cp_pages_sha c) \<and> ranges_verify sha a pages cs)"

definition verify_pages :: "(bytes \<Rightarrow> string) \<Rightarrow> archive option \<Rightarrow> chapter_pages list \<Rightarrow> bool" where
  "verify_pages sha opened chapters =
     (case opened of None \<Rightarrow> False
      | Some a \<Rightarrow>
          (case volume_pages a of Inl _ \<Rightarrow> False
           | Inr pages \<Rightarrow>
               ranges_verify sha a pages chapters
               \<and> foldr max (map fst pages) 0 = (if chapters = [] then 0 else cp_last (last chapters))))"

record file_evidence =
  fe_id :: file_identity
  fe_sha :: string

text \<open>The answers of the file system, in the order \<open>assemble\<close> asks.\<close>

record stage_env =
  en_carrier :: bool
  en_create :: "assembly_error option"
  en_view :: "string \<Rightarrow> assembly_error + source_view"
  en_flush :: bool
  en_finish :: "archive \<Rightarrow> assembly_error + archive"
  en_finished :: "assembly_error + file_identity"
  en_fingerprint :: "assembly_error + file_evidence"
  en_before :: "assembly_error + file_identity"
  en_publish :: "assembly_error option"
  en_fsync :: bool
  en_current :: "assembly_error + file_identity"
  en_size :: "assembly_error + int"

record volume_evidence =
  ve_file :: file_evidence
  ve_chapters :: "chapter_pages list"

record assembled_volume =
  av_path :: "string option"
  av_size :: int
  av_assembly :: "volume_evidence option"

definition no_volume :: assembled_volume where
  "no_volume = \<lparr>av_path = None, av_size = 0, av_assembly = None\<rparr>"

text \<open>The stage up to publication: the finished archive, its identity, the evidence and the chapters.\<close>

definition stage_volume ::
  "(bytes \<Rightarrow> string) \<Rightarrow> stage_env \<Rightarrow> assembly_source list
     \<Rightarrow> assembly_error + archive \<times> file_identity \<times> file_evidence option \<times> chapter_pages list option" where
  "stage_volume sha env sources =
     (case en_create env of Some e \<Rightarrow> Inl e | None \<Rightarrow>
      case merge_into sha (en_view env) sources of Inl e \<Rightarrow> Inl e | Inr (merged, chapters) \<Rightarrow>
      if \<not> en_flush env then Inl OsError else
      case en_finish env merged of Inl e \<Rightarrow> Inl e | Inr stage \<Rightarrow>
      case en_finished env of Inl e \<Rightarrow> Inl e | Inr finished \<Rightarrow>
        (let checked = (case chapters of
               None \<Rightarrow> Inr (None, None)
             | Some cs \<Rightarrow>
                 if id_size finished > fingerprint_max then Inr (None, None)
                 else (case en_fingerprint env of Inl e \<Rightarrow> Inl e | Inr ev \<Rightarrow>
                        if fe_id ev \<noteq> finished then Inl ProvenanceError
                        else Inr (Some ev, if verify_pages sha (Some stage) cs then Some cs else None)))
         in case checked of Inl e \<Rightarrow> Inl e | Inr (ev, cs) \<Rightarrow>
            (case en_before env of Inl e \<Rightarrow> Inl e
             | Inr now \<Rightarrow> if now \<noteq> finished then Inl ProvenanceError else Inr (stage, finished, ev, cs))))"

text \<open>\<open>out\<close> is the archive at the final name, if any.\<close>

definition assemble ::
  "(bytes \<Rightarrow> string) \<Rightarrow> stage_env \<Rightarrow> assembly_source list \<Rightarrow> string \<Rightarrow> archive option
     \<Rightarrow> (assembly_error + assembled_volume) \<times> archive option" where
  "assemble sha env sources out_path out =
     (if \<not> en_carrier env then (Inr no_volume, out)
      else case stage_volume sha env sources of
        Inl _ \<Rightarrow> (Inr no_volume, out)
      | Inr (stage, finished, ev, chapters) \<Rightarrow>
          if out \<noteq> None \<or> en_publish env \<noteq> None then (Inr no_volume, out)
          else
            (let unchanged = (en_current env = Inr finished);
                 kept = (if en_fsync env \<and> unchanged then chapters else None)
             in (case en_size env of
                   Inl e \<Rightarrow> Inl e
                 | Inr sz \<Rightarrow> Inr \<lparr>av_path = Some out_path, av_size = sz,
                     av_assembly = (case (ev, kept) of
                       (Some e, Some (c # cs)) \<Rightarrow> Some \<lparr>ve_file = e, ve_chapters = c # cs\<rparr> | _ \<Rightarrow> None)\<rparr>, Some stage)))"

subsection \<open>Recording\<close>

record assembly_row =
  va_id :: int
  va_volume :: int
  va_series :: int
  va_path :: string
  va_file :: file_evidence
  va_context :: "int \<times> string \<times> int \<times> string"
  va_job :: "int option"
  va_chapters :: "chapter_pages list"

record library_volume =
  lv_id :: int
  lv_series :: int
  lv_num :: rat
  lv_status :: string
  lv_path :: "string option"

record assembly_db =
  assemblies :: "assembly_row list"
  library_volumes :: "library_volume list"
  next_assembly :: int

definition chapter_context :: "chapter_pages \<Rightarrow> int \<times> string \<times> int \<times> string" where
  "chapter_context c =
     (si_client (cp_identity c), si_server (cp_identity c), si_manga (cp_identity c), si_source (cp_identity c))"

fun chapters_well_formed :: "nat \<Rightarrow> nat \<Rightarrow> chapter_pages list \<Rightarrow> bool" where
  "chapters_well_formed position expected_first [] = True"
| "chapters_well_formed position expected_first (c # cs) =
     (if cp_position c \<noteq> position \<or> cp_first c \<noteq> expected_first \<or> cp_last c < cp_first c \<or> cp_size c \<le> 0
         \<or> length (cp_sha c) \<noteq> 64 \<or> length (cp_pages_sha c) \<noteq> 64 then False
      else chapters_well_formed (Suc position) (cp_last c + 1) cs)"

definition well_formed :: "volume_evidence \<Rightarrow> bool" where
  "well_formed a \<longleftrightarrow>
     chapters_well_formed 0 1 (ve_chapters a) \<and> id_size (fe_id (ve_file a)) > 0 \<and> length (fe_sha (ve_file a)) = 64"

text \<open>The inserts; \<open>None\<close> is an \<open>sqlite3.Error\<close> from a key or a CHECK.\<close>

definition insert_assembly ::
  "int \<Rightarrow> int \<Rightarrow> string \<Rightarrow> volume_evidence \<Rightarrow> source_identity \<Rightarrow> int option \<Rightarrow> assembly_db \<Rightarrow> (int \<times> assembly_db) option" where
  "insert_assembly volume_id series_id path assembly origin job_id db =
     (let kept = filter (\<lambda>r. va_path r \<noteq> path) (assemblies db);
          row = \<lparr>va_id = next_assembly db, va_volume = volume_id, va_series = series_id, va_path = path,
             va_file = ve_file assembly, va_context = (si_client origin, si_server origin, si_manga origin, si_source origin),
             va_job = job_id, va_chapters = ve_chapters assembly\<rparr>
      in if \<not> distinct (map (\<lambda>c. si_chapter (cp_identity c)) (ve_chapters assembly))
            \<or> \<not> distinct (map cp_position (ve_chapters assembly))
            \<or> list_ex (\<lambda>c. cp_first c < 1 \<or> cp_last c < cp_first c \<or> cp_size c \<le> 0) (ve_chapters assembly) then None
         else Some (next_assembly db, db\<lparr>assemblies := kept @ [row], next_assembly := next_assembly db + 1\<rparr>))"

definition record_assembly ::
  "int \<Rightarrow> rat \<Rightarrow> string \<Rightarrow> volume_evidence \<Rightarrow> int option \<Rightarrow> assembly_db \<Rightarrow> int option \<times> assembly_db" where
  "record_assembly series_id volume_num path assembly job_id db =
     (case find (\<lambda>v. lv_series v = series_id \<and> lv_num v = volume_num \<and> lv_status v = ''downloaded''
                  \<and> lv_path v = Some path) (library_volumes db) of
        None \<Rightarrow> (None, db)
      | Some v \<Rightarrow>
          (case ve_chapters assembly of
             [] \<Rightarrow> (None, db)
           | c # cs \<Rightarrow>
               if list_ex (\<lambda>d. chapter_context d \<noteq> chapter_context c) (ve_chapters assembly) then (None, db)
               else if \<not> well_formed assembly then (None, db)
               else (case insert_assembly (lv_id v) series_id path assembly (cp_identity c) job_id db of
                       None \<Rightarrow> (None, db) | Some (i, db') \<Rightarrow> (Some i, db'))))"

definition void_assembly :: "int \<Rightarrow> assembly_db \<Rightarrow> assembly_db" where
  "void_assembly i db = db\<lparr>assemblies := filter (\<lambda>r. va_id r \<noteq> i) (assemblies db)\<rparr>"


subsection \<open>Framing\<close>

lemma length_to_bytes: "length (to_bytes k n) = k"
  by (induction k arbitrary: n) simp_all

lemma length_to_bytes8 [simp]: "length (to_bytes8 n) = 8"
  by (simp add: to_bytes8_def length_to_bytes)

lemma to_bytes8_nonempty [simp]: "to_bytes8 n \<noteq> []"
  using length_to_bytes8 [of n] by (metis list.size(3) zero_neq_numeral)

definition of_bytes :: "bytes \<Rightarrow> nat" where
  "of_bytes bs = foldl (\<lambda>a b. a * 256 + unat b) 0 bs"

lemma of_bytes_to_bytes: "n < 256 ^ k \<Longrightarrow> of_bytes (to_bytes k n) = n"
proof (induction k arbitrary: n)
  case 0
  then show ?case by (simp add: of_bytes_def)
next
  case (Suc k)
  then have "of_bytes (to_bytes k (n div 256)) = n div 256" by (intro Suc.IH) (simp add: less_mult_imp_div_less mult.commute)
  moreover have "unat (word_of_nat (n mod 256) :: 8 word) = n mod 256" by (simp add: unat_of_nat)
  ultimately show ?case by (simp add: of_bytes_def)
qed

lemma to_bytes8_inject: "m < 2 ^ 64 \<Longrightarrow> n < 2 ^ 64 \<Longrightarrow> to_bytes8 m = to_bytes8 n \<Longrightarrow> m = n"
proof -
  assume a: "m < 2 ^ 64" "n < 2 ^ 64" "to_bytes8 m = to_bytes8 n"
  have e: "(2::nat) ^ 64 = 256 ^ 8" by simp
  have "of_bytes (to_bytes8 m) = m" "of_bytes (to_bytes8 n) = n"
    unfolding to_bytes8_def by (rule of_bytes_to_bytes [OF a(1) [unfolded e]], rule of_bytes_to_bytes [OF a(2) [unfolded e]])
  then show "m = n" using a(3) by metis
qed

text \<open>No two lists of pages below \<open>2 ^ 64\<close> bytes have the same framing.\<close>

lemma frame_simps [simp]: "frame [] = []" "frame (p # ps) = to_bytes8 (length p) @ p @ frame ps"
  by (simp_all add: frame_def)

lemma frame_inject:
  "list_all (\<lambda>p. length p < 2 ^ 64) ps \<Longrightarrow> list_all (\<lambda>p. length p < 2 ^ 64) qs \<Longrightarrow> frame ps = frame qs \<Longrightarrow> ps = qs"
proof (induction ps arbitrary: qs)
  case Nil
  then show ?case by (cases qs) simp_all
next
  case (Cons p ps)
  then obtain q qs' where q: "qs = q # qs'" by (cases qs) simp_all
  from Cons.prems(3) have "to_bytes8 (length p) = to_bytes8 (length q)" and r: "p @ frame ps = q @ frame qs'"
    by (simp_all add: q append_eq_append_conv)
  then have "length p = length q" using Cons.prems(1,2) to_bytes8_inject by (simp add: q)
  with r have "p = q" "frame ps = frame qs'" by (simp_all add: append_eq_append_conv)
  with Cons.IH [of qs'] Cons.prems q show ?case by simp
qed

subsection \<open>Page names\<close>

lemma undec_zeros: "undec (replicate k (CHR ''0'') @ s) = undec s"
proof -
  have "digit_val (CHR ''0'') = 0" by (simp add: digit_val_def)
  then have "foldl (\<lambda>a c. 10 * a + digit_val c) 0 (replicate k (CHR ''0'')) = 0" by (induction k) simp_all
  then show ?thesis by (simp add: undec_def)
qed

definition page_stem :: "nat \<Rightarrow> string" where
  "page_stem n = replicate (4 - length (dec_nat n)) (CHR ''0'') @ dec_nat n"

lemma page_stem_digits: "list_all is_digit (page_stem n)" "page_stem n \<noteq> []" "undec (page_stem n) = n"
proof -
  have "is_digit (CHR ''0'')" by (simp add: is_digit_def Let_def)
  then have "list_all is_digit (replicate k (CHR ''0''))" for k by (induction k) simp_all
  then show "list_all is_digit (page_stem n)" using dec_nat_digits by (simp add: page_stem_def)
qed (simp_all add: page_stem_def undec_zeros)

lemma splitext_page:
  assumes "snd (splitext name) \<noteq> []"
  shows "splitext (page_name n (snd (splitext name))) = (page_stem n, snd (splitext name))"
proof -
  from assms obtain ext where e: "snd (splitext name) = CHR ''.'' # ext" "CHR ''.'' \<notin> set ext" "CHR ''/'' \<notin> set ext"
    by (rule splitext_ext)
  have d: "c \<noteq> CHR ''/'' \<and> c \<noteq> CHR ''.''" if "c \<in> set (page_stem n)" for c
    using that page_stem_digits(1) [of n] by (auto simp: list_all_iff is_digit_def Let_def)
  have "\<not> list_all (\<lambda>c. c = CHR ''.'') (page_stem n)"
    using d page_stem_digits(2) [of n] by (cases "page_stem n") auto
  then have "splitext (page_stem n @ CHR ''.'' # ext) = (page_stem n, CHR ''.'' # ext)"
    using d e by (intro splitext_plain) auto
  then show ?thesis by (simp add: page_name_def page_stem_def e)
qed

lemma is_image_ext: "is_image name \<Longrightarrow> snd (splitext name) \<noteq> []"
  by (auto simp: is_image_def image_extensions_def)

subsection \<open>What a merge writes\<close>

text \<open>The members written for named pages from page \<open>p\<close> on, and their numbers.\<close>

fun members_from :: "nat \<Rightarrow> (string \<times> bytes) list \<Rightarrow> archive" where
  "members_from p [] = []"
| "members_from p ((name, d) # r) =
     \<lparr>zm_name = page_name p (snd (splitext name)), zm_size = length d, zm_data = d\<rparr> # members_from (Suc p) r"

lemma write_pages_eq: "write_pages p xs out = out @ members_from p xs"
  by (induction p xs out rule: write_pages.induct) (simp_all add: write_page_def)

lemma members_from_append: "members_from p (xs @ ys) = members_from p xs @ members_from (p + length xs) ys"
  by (induction p xs rule: members_from.induct) simp_all

lemma length_members_from [simp]: "length (members_from p xs) = length xs"
  by (induction p xs rule: members_from.induct) simp_all

lemma nth_members_from:
  "k < length xs \<Longrightarrow> members_from p xs ! k =
     \<lparr>zm_name = page_name (p + k) (snd (splitext (fst (xs ! k)))), zm_size = length (snd (xs ! k)), zm_data = snd (xs ! k)\<rparr>"
  by (induction p xs arbitrary: k rule: members_from.induct) (auto simp: nth_Cons split: nat.split)

definition named_pages :: "nat \<Rightarrow> (string \<times> bytes) list \<Rightarrow> (nat \<times> string) list" where
  "named_pages p xs = map (\<lambda>k. (p + k, zm_name (members_from p xs ! k))) [0..<length xs]"

lemma named_pages_Cons:
  "named_pages p ((name, d) # xs) = (p, page_name p (snd (splitext name))) # named_pages (Suc p) xs"
proof -
  have "[0..<length ((name, d) # xs)] = 0 # map Suc [0..<length xs]" 
    using upt_conv_Cons [of 0 "Suc (length xs)"] by (simp add: map_Suc_upt del: upt_Suc)
  then show ?thesis unfolding named_pages_def by (simp add: comp_def del: upt_Suc)
qed

lemma page_is_image: "is_image name \<Longrightarrow> is_image (page_name p (snd (splitext name)))"
  unfolding is_image_def [of "page_name p _"] using splitext_page [OF is_image_ext] by (simp add: is_image_def)

lemma number_members:
  assumes "list_all (\<lambda>x. is_image (fst x)) xs" "list_all (\<lambda>x. fst x < p) acc"
  shows "number_pages (map zm_name (members_from p xs)) acc = Inr (acc @ named_pages p xs)"
  using assms
proof (induction xs arbitrary: p acc)
  case Nil
  then show ?case by (simp add: named_pages_def)
next
  case (Cons x xs)
  obtain name d where x: "x = (name, d)" by (cases x)
  with Cons.prems have i: "is_image name" by simp
  note sp = splitext_page [OF is_image_ext [OF i], of p]
  have new: "p \<notin> fst ` set acc" using Cons.prems(2) by (auto simp: list_all_iff)
  have "py_lower (snd (splitext name)) \<in> set image_extensions" using i by (simp add: is_image_def)
  moreover have "list_all (\<lambda>y. fst y < Suc p) (acc @ [(p, page_name p (snd (splitext name)))])"
    using Cons.prems(2) by (auto simp: list_all_iff)
  ultimately show ?case
    using Cons.IH [of "Suc p" "acc @ [(p, page_name p (snd (splitext name)))]"] Cons.prems(1) new page_stem_digits [of p]
    by (simp add: x sp named_pages_Cons)
qed

text \<open>Members that are no images do not count.\<close>

lemma number_pages_images: "number_pages names acc = number_pages (filter is_image names) acc"
  by (induction names acc rule: number_pages.induct) (auto simp: is_image_def Let_def split: prod.splits)

text \<open>Chapters that partition the written pages, each with the digest of its own pages.\<close>

fun ranges_cover :: "(bytes \<Rightarrow> string) \<Rightarrow> nat \<Rightarrow> chapter_pages list \<Rightarrow> (string \<times> bytes) list \<Rightarrow> bool" where
  "ranges_cover sha p [] xs \<longleftrightarrow> xs = []"
| "ranges_cover sha p (c # cs) xs \<longleftrightarrow>
     (let k = Suc (cp_last c) - p
      in cp_first c = p \<and> p \<le> cp_last c \<and> k \<le> length xs \<and> cp_pages_sha c = page_digest sha (map snd (take k xs))
         \<and> ranges_cover sha (Suc (cp_last c)) cs (drop k xs))"

lemma ranges_cover_snoc:
  assumes "ranges_cover sha p cs xs" "ys \<noteq> []" "cp_first c = p + length xs" "cp_last c = p + length xs + length ys - 1"
    "cp_pages_sha c = page_digest sha (map snd ys)"
  shows "ranges_cover sha p (cs @ [c]) (xs @ ys)"
  using assms
proof (induction cs arbitrary: p xs)
  case Nil
  then show ?case by (cases ys) (simp_all add: Let_def)
next
  case (Cons d cs)
  let ?k = "Suc (cp_last d) - p"
  have d: "cp_first d = p" "p \<le> cp_last d" "?k \<le> length xs" "cp_pages_sha d = page_digest sha (map snd (take ?k xs))"
    "ranges_cover sha (Suc (cp_last d)) cs (drop ?k xs)"
    using Cons.prems(1) by (simp_all add: Let_def)
  have "ranges_cover sha (Suc (cp_last d)) (cs @ [c]) (drop ?k xs @ ys)"
    using d Cons.prems(2-5) by (intro Cons.IH) simp_all
  with d show ?case by (simp add: Let_def)
qed

definition source_chapter ::
  "(bytes \<Rightarrow> string) \<Rightarrow> (string \<Rightarrow> assembly_error + source_view) \<Rightarrow> assembly_source \<Rightarrow> chapter_pages \<Rightarrow> bool" where
  "source_chapter sha view src c \<longleftrightarrow>
     (\<exists>v a datas. view (as_path src) = Inr v \<and> sv_archive v = Some a
        \<and> read_pages a (image_members (map zm_name a)) = Inr datas \<and> datas \<noteq> []
        \<and> as_identity src = Some (cp_identity c) \<and> cp_sha c = sha (sv_bytes v) \<and> cp_size c = id_size (sv_after v)
        \<and> sv_before v = sv_after v \<and> cp_pages_sha c = page_digest sha datas)"

definition merged ::
  "(bytes \<Rightarrow> string) \<Rightarrow> (string \<Rightarrow> assembly_error + source_view) \<Rightarrow> assembly_source list \<Rightarrow> merge_state \<Rightarrow> bool" where
  "merged sha view done st \<longleftrightarrow>
     (\<exists>xs. mg_out st = members_from 1 xs \<and> list_all (\<lambda>x. is_image (fst x)) xs \<and> mg_page st = 1 + length xs
        \<and> (mg_provable st \<longrightarrow> ranges_cover sha 1 (mg_chapters st) xs
             \<and> list_all2 (source_chapter sha view) done (mg_chapters st)
             \<and> map cp_position (mg_chapters st) = [0..<length done]))"

lemma length_read_pages: "read_pages a names = Inr datas \<Longrightarrow> length datas = length names"
proof (induction names arbitrary: datas)
  case (Cons n names)
  then show ?case by (cases "zip_read a n"; cases "read_pages a names") auto
qed simp

lemma image_members_image: "n \<in> set (image_members names) \<Longrightarrow> is_image n"
  by (simp add: image_members_def)

lemma merge_source_merged:
  assumes "merged sha view pre st" "merge_source sha view (length pre) src st = Inr st'"
  shows "merged sha view (pre @ [src]) st'"
proof -
  from assms(2) obtain v a where v: "view (as_path src) = Inr v" "sv_archive v = Some a"
    by (auto simp: merge_source_def split: sum.splits if_splits option.splits)
  let ?names = "image_members (map zm_name a)"
  from assms(2) v obtain datas where d: "read_pages a ?names = Inr datas"
    by (auto simp: merge_source_def Let_def split: sum.splits if_splits)
  note len = length_read_pages [OF d]
  from assms(1) obtain xs where xs: "mg_out st = members_from 1 xs" "list_all (\<lambda>x. is_image (fst x)) xs" "mg_page st = 1 + length xs"
    "mg_provable st \<Longrightarrow> ranges_cover sha 1 (mg_chapters st) xs
       \<and> list_all2 (source_chapter sha view) pre (mg_chapters st) \<and> map cp_position (mg_chapters st) = [0..<length pre]"
    by (auto simp: merged_def)
  let ?ys = "zip ?names datas"
  have img: "list_all (\<lambda>x. is_image (fst x)) (xs @ ?ys)"
    using xs(2) image_members_image by (auto simp: list_all_iff dest!: set_zip_leftD)
  have out: "write_pages (mg_page st) ?ys (mg_out st) = members_from 1 (xs @ ?ys)"
    by (simp add: write_pages_eq members_from_append xs(1,3))
  let ?st1 = "st\<lparr>mg_page := mg_page st + length ?names, mg_out := write_pages (mg_page st) ?ys (mg_out st)\<rparr>"
  have unproved: "merged sha view (pre @ [src]) (?st1\<lparr>mg_provable := False\<rparr>)"
    unfolding merged_def using img out xs(3) len by (intro exI [of _ "xs @ ?ys"]) simp
  consider "st' = ?st1\<lparr>mg_provable := False\<rparr>"
    | i where "mg_provable st" "as_identity src = Some i" "sv_before v = sv_after v" "?names \<noteq> []"
      "st' = ?st1\<lparr>mg_chapters := mg_chapters st @
         [\<lparr>cp_position = length pre, cp_identity = i, cp_sha = sha (sv_bytes v), cp_size = id_size (sv_after v),
           cp_first = mg_page st, cp_last = mg_page st + length ?names - 1, cp_pages_sha = page_digest sha datas\<rparr>]\<rparr>"
    using assms(2) v d
    by (auto simp: merge_source_def Let_def split: if_splits option.splits)
  then show ?thesis
  proof cases
    case 1
    then show ?thesis using unproved by simp
  next
    case (2 i)
    let ?c = "\<lparr>cp_position = length pre, cp_identity = i, cp_sha = sha (sv_bytes v), cp_size = id_size (sv_after v),
           cp_first = mg_page st, cp_last = mg_page st + length ?names - 1, cp_pages_sha = page_digest sha datas\<rparr>"
    note old = xs(4) [OF 2(1)]
    have "ranges_cover sha 1 (mg_chapters st @ [?c]) (xs @ ?ys)"
      using old 2(4) len xs(3) by (intro ranges_cover_snoc) (auto simp: map_snd_zip)
    moreover have "source_chapter sha view src ?c"
      unfolding source_chapter_def using v d 2(2,3,4) len by auto
    ultimately show ?thesis
      unfolding merged_def 2(5) using img out xs(3) len old
      by (intro exI [of _ "xs @ ?ys"]) (simp add: list_all2_appendI)
  qed
qed

lemma merge_sources_merged:
  "merged sha view pre st \<Longrightarrow> merge_sources sha view (length pre) ss st = Inr st' \<Longrightarrow> merged sha view (pre @ ss) st'"
proof (induction ss arbitrary: pre st)
  case (Cons s ss)
  then obtain st1 where "merge_source sha view (length pre) s st = Inr st1"
    "merge_sources sha view (length (pre @ [s])) ss st1 = Inr st'" by (auto split: sum.splits)
  with Cons.IH [of "pre @ [s]" st1] merge_source_merged [OF Cons.prems(1)] show ?case by simp
qed simp

lemma merge_into_Inr:
  assumes "merge_into sha view sources = Inr (out, chapters)"
  obtains xs where "out = members_from 1 xs" "list_all (\<lambda>x. is_image (fst x)) xs" "xs \<noteq> []"
    "\<And>cs. chapters = Some cs \<Longrightarrow> ranges_cover sha 1 cs xs \<and> list_all2 (source_chapter sha view) sources cs
       \<and> map cp_position cs = [0..<length sources]"
proof -
  from assms obtain st where st: "merge_sources sha view 0 sources (merge_start sources) = Inr st" "mg_page st \<noteq> 1"
    "out = mg_out st" "chapters = (if mg_provable st then Some (mg_chapters st) else None)"
    by (auto simp: merge_into_def split: sum.splits if_splits)
  have "merged sha view [] (merge_start sources)" by (auto simp: merged_def merge_start_def)
  from merge_sources_merged [OF this] st(1) have "merged sha view sources st" by simp
  with st that show thesis by (auto simp: merged_def split: if_splits)
qed

subsection \<open>The finished volume\<close>

text \<open>Finishing may add members that are no images; the images stay as they were merged.\<close>

definition same_images :: "archive \<Rightarrow> archive \<Rightarrow> bool" where
  "same_images stage out \<longleftrightarrow> filter (\<lambda>m. is_image (zm_name m)) stage = out"

lemma volume_pages_stage:
  assumes "same_images stage (members_from 1 xs)" "list_all (\<lambda>x. is_image (fst x)) xs"
  shows "volume_pages stage = Inr (named_pages 1 xs)"
proof -
  have "filter is_image (map zm_name stage) = map zm_name (members_from 1 xs)"
    using assms(1) by (simp add: same_images_def filter_map comp_def)
  then show ?thesis
    using number_members [OF assms(2), of 1 "[]"] number_pages_images [of "map zm_name stage"] by (simp add: volume_pages_def)
qed

lemma member_name_image:
  "list_all (\<lambda>x. is_image (fst x)) xs \<Longrightarrow> k < length xs \<Longrightarrow> is_image (zm_name (members_from 1 xs ! k))"
  by (auto simp: nth_members_from list_all_length intro: page_is_image)

lemma member_name_inject:
  assumes "list_all (\<lambda>x. is_image (fst x)) xs" "j < length xs" "k < length xs"
    "zm_name (members_from 1 xs ! j) = zm_name (members_from 1 xs ! k)"
  shows "j = k"
proof -
  have n: "snd (splitext (fst (xs ! i))) \<noteq> []" if "i < length xs" for i
    using assms(1) that is_image_ext by (simp add: list_all_length)
  have "fst (splitext (zm_name (members_from 1 xs ! i))) = page_stem (1 + i)" if "i < length xs" for i
    using that splitext_page [OF n [OF that], of "1 + i"] by (simp add: nth_members_from)
  with assms(2-4) have "page_stem (1 + j) = page_stem (1 + k)" by metis
  then have "undec (page_stem (1 + j)) = undec (page_stem (1 + k))" by simp
  then show ?thesis by (simp add: page_stem_digits)
qed

lemma find_Some_mem: "find P xs = Some x \<Longrightarrow> x \<in> set xs \<and> P x"
  by (induction xs) (auto split: if_splits)

lemma find_member_not_None: "x \<in> set xs \<Longrightarrow> P x \<Longrightarrow> find P xs \<noteq> None"
  by (induction xs) auto

lemma getinfo_stage:
  assumes "same_images stage (members_from 1 xs)" "list_all (\<lambda>x. is_image (fst x)) xs" "k < length xs"
  shows "getinfo stage (zm_name (members_from 1 xs ! k)) = Some (members_from 1 xs ! k)"
proof -
  let ?m = "members_from 1 xs ! k"
  have set: "m \<in> set stage \<and> is_image (zm_name m) \<longleftrightarrow> m \<in> set (members_from 1 xs)" for m
  proof -
    from assms(1) have "set (filter (\<lambda>m. is_image (zm_name m)) stage) = set (members_from 1 xs)"
      by (simp only: same_images_def)
    then show ?thesis by auto
  qed
  have u: "m = ?m" if "m \<in> set stage" "zm_name m = zm_name ?m" for m
  proof -
    have "is_image (zm_name m)" using that(2) member_name_image [OF assms(2,3)] by simp
    then have "m \<in> set (members_from 1 xs)" using set that(1) by blast
    then obtain j where "j < length xs" "m = members_from 1 xs ! j" by (auto simp: in_set_conv_nth)
    with that(2) member_name_inject [OF assms(2)] assms(3) show ?thesis by blast
  qed
  have "?m \<in> set (members_from 1 xs)" using assms(3) by (intro nth_mem) simp
  then have "?m \<in> set stage" using set by blast
  then have "find (\<lambda>m. zm_name m = zm_name ?m) (rev stage) \<noteq> None"
    by (intro find_member_not_None [of ?m]) simp_all
  then obtain m where m: "find (\<lambda>m. zm_name m = zm_name ?m) (rev stage) = Some m" by blast
  from find_Some_mem [OF this] have "m = ?m" by (intro u) simp_all
  with m show ?thesis by (simp add: getinfo_def)
qed

lemma map_of_named_pages:
  assumes "k < length xs" shows "map_of (named_pages 1 xs) (1 + k) = Some (zm_name (members_from 1 xs ! k))"
proof -
  have "distinct (map fst (named_pages 1 xs))" by (simp add: named_pages_def comp_def distinct_map inj_on_def)
  moreover have "(1 + k, zm_name (members_from 1 xs ! k)) \<in> set (named_pages 1 xs)"
    using assms by (auto simp: named_pages_def)
  ultimately show ?thesis by (rule map_of_is_SomeI)
qed

lemma collect_range:
  "i + k \<le> length xs \<Longrightarrow>
   collect_names (named_pages 1 xs) [1 + i..<1 + i + k] = Inr (map (\<lambda>j. zm_name (members_from 1 xs ! j)) [i..<i + k])"
proof (induction k arbitrary: i)
  case (Suc k)
  have u: "[1 + i..<1 + i + Suc k] = (1 + i) # [1 + Suc i..<1 + Suc i + k]" "[i..<i + Suc k] = i # [Suc i..<Suc i + k]"
    by (simp_all add: upt_conv_Cons del: upt_Suc)
  have m: "map_of (named_pages 1 xs) (1 + i) = Some (zm_name (members_from 1 xs ! i))"
    using Suc.prems by (intro map_of_named_pages) simp
  have "collect_names (named_pages 1 xs) [1 + Suc i..<1 + Suc i + k] = Inr (map (\<lambda>j. zm_name (members_from 1 xs ! j)) [Suc i..<Suc i + k])"
    using Suc.prems by (intro Suc.IH) simp
  then show ?case unfolding u collect_names.simps m by simp
qed simp

lemma digest_range:
  assumes "same_images stage (members_from 1 xs)" "list_all (\<lambda>x. is_image (fst x)) xs" "i + k \<le> length xs"
  shows "digest_bytes stage (map (\<lambda>j. zm_name (members_from 1 xs ! j)) [i..<i + k]) = Inr (frame (map snd (take k (drop i xs))))"
  using assms(3)
proof (induction k arbitrary: i)
  case (Suc k)
  have u: "[i..<i + Suc k] = i # [Suc i..<Suc i + k]" by (simp add: upt_conv_Cons del: upt_Suc)
  have d: "drop i xs = (xs ! i) # drop (Suc i) xs" using Suc.prems by (simp add: Cons_nth_drop_Suc)
  have g: "getinfo stage (zm_name (members_from 1 xs ! i)) = Some (members_from 1 xs ! i)"
    using Suc.prems by (intro getinfo_stage [OF assms(1,2)]) simp
  have "digest_bytes stage (map (\<lambda>j. zm_name (members_from 1 xs ! j)) [Suc i..<Suc i + k]) = Inr (frame (map snd (take k (drop (Suc i) xs))))"
    using Suc.prems by (intro Suc.IH) simp
  moreover have "zm_size (members_from 1 xs ! i) = length (zm_data (members_from 1 xs ! i))"
    "zm_data (members_from 1 xs ! i) = snd (xs ! i)"
    using Suc.prems by (simp_all add: nth_members_from)
  ultimately show ?case unfolding u d list.map digest_bytes.simps g by simp
qed simp

lemma range_of_stage:
  assumes "same_images stage (members_from 1 xs)" "list_all (\<lambda>x. is_image (fst x)) xs" "1 \<le> p" "p \<le> q" "q \<le> length xs"
  shows "\<exists>names. range_members (named_pages 1 xs) p q = Inr names
     \<and> members_digest sha stage names = Inr (page_digest sha (map snd (take (Suc q - p) (drop (p - 1) xs))))"
proof -
  have r: "[p..<Suc q] = [1 + (p - 1)..<1 + (p - 1) + (Suc q - p)]" using assms(3,4) by simp
  have le: "p - 1 + (Suc q - p) \<le> length xs" using assms(3-5) by simp
  show ?thesis
    unfolding range_members_def r collect_range [OF le] members_digest_def page_digest_def
    using digest_range [OF assms(1,2) le] by simp
qed

lemma ranges_cover_verify:
  assumes "same_images stage (members_from 1 xs)" "list_all (\<lambda>x. is_image (fst x)) xs"
  shows "1 \<le> p \<Longrightarrow> p \<le> Suc (length xs) \<Longrightarrow> ranges_cover sha p cs (drop (p - 1) xs) \<Longrightarrow>
     ranges_verify sha stage (named_pages 1 xs) cs"
proof (induction cs arbitrary: p)
  case (Cons c cs)
  let ?q = "cp_last c"
  note cov = Cons.prems(3) [unfolded ranges_cover.simps Let_def drop_drop]
  from cov have c: "cp_first c = p" "p \<le> ?q" "Suc ?q - p \<le> length xs - (p - 1)"
    "cp_pages_sha c = page_digest sha (map snd (take (Suc ?q - p) (drop (p - 1) xs)))"
    "ranges_cover sha (Suc ?q) cs (drop (Suc ?q - p + (p - 1)) xs)"
    by (blast, blast, simp, blast, blast)
  have q: "?q \<le> length xs" using c(2,3) Cons.prems(1,2) by simp
  have "Suc ?q - p + (p - 1) = Suc ?q - 1" using c(2) Cons.prems(1) by simp
  with c(5) q have "ranges_verify sha stage (named_pages 1 xs) cs" by (intro Cons.IH [of "Suc ?q"]) simp_all
  moreover from range_of_stage [OF assms Cons.prems(1) c(2) q, of sha] obtain names where
    "range_members (named_pages 1 xs) p ?q = Inr names" "members_digest sha stage names = Inr (cp_pages_sha c)"
    unfolding c(4) by blast
  ultimately show ?case by (simp add: c(1))
qed simp

lemma ranges_cover_last: "ranges_cover sha p cs xs \<Longrightarrow> 1 \<le> p \<Longrightarrow> cs \<noteq> [] \<Longrightarrow> cp_last (last cs) = p + length xs - 1"
proof (induction cs arbitrary: p xs)
  case (Cons c cs)
  then have c: "p \<le> cp_last c" "Suc (cp_last c) - p \<le> length xs" "ranges_cover sha (Suc (cp_last c)) cs (drop (Suc (cp_last c) - p) xs)"
    by (simp_all add: Let_def)
  show ?case
  proof (cases cs)
    case Nil
    with c Cons.prems show ?thesis by simp
  next
    case (Cons d ds)
    then have "cp_last (last cs) = Suc (cp_last c) + length (drop (Suc (cp_last c) - p) xs) - 1"
      using Cons.IH [OF c(3)] by simp
    with Cons c show ?thesis by simp
  qed
qed simp

lemma foldr_max_upt: "foldr max (map fst (named_pages 1 xs)) 0 = length xs"
proof -
  have "foldr max [1..<Suc n] m = max n m" for n m :: nat by (induction n arbitrary: m) (simp_all add: max_def)
  moreover have "map fst (named_pages 1 xs) = [1..<Suc (length xs)]" by (simp add: named_pages_def comp_def map_Suc_upt)
  ultimately show ?thesis by simp
qed

lemma merged_stage_verifies:
  assumes "same_images stage (members_from 1 xs)" "list_all (\<lambda>x. is_image (fst x)) xs" "xs \<noteq> []" "ranges_cover sha 1 cs xs"
  shows "verify_pages sha (Some stage) cs"
proof -
  have "cs \<noteq> []" using assms(3,4) by (cases cs) simp_all
  then have "cp_last (last cs) = length xs" using ranges_cover_last [OF assms(4)] by simp
  then show ?thesis
    using ranges_cover_verify [OF assms(1,2), of 1 sha cs] assms(4) volume_pages_stage [OF assms(1,2)] foldr_max_upt [of xs] \<open>cs \<noteq> []\<close>
    by (simp add: verify_pages_def)
qed

lemma stage_volume_Inr:
  assumes "stage_volume sha env sources = Inr (stage, finished, ev, chapters)"
  obtains merged prov where "merge_into sha (en_view env) sources = Inr (merged, prov)"
    "\<forall>cs. chapters = Some cs \<longrightarrow> prov = Some cs \<and> verify_pages sha (Some stage) cs
       \<and> (\<exists>e. ev = Some e \<and> fe_id e = finished \<and> en_fingerprint env = Inr e)"
  using assms that
  by (auto simp: stage_volume_def Let_def split: option.splits sum.splits if_splits)

lemma assemble_published:
  assumes "assemble sha env sources path out = (Inr v, out')" "av_path v \<noteq> None"
  obtains stage finished ev chapters where "stage_volume sha env sources = Inr (stage, finished, ev, chapters)"
    "out = None" "out' = Some stage" "av_path v = Some path"
    "\<forall>e. av_assembly v = Some e \<longrightarrow> ev = Some (ve_file e) \<and> chapters = Some (ve_chapters e) \<and> ve_chapters e \<noteq> []
       \<and> en_current env = Inr finished"
  using assms that
  by (auto simp: assemble_def no_volume_def Let_def split: sum.splits if_splits option.splits list.splits)

lemma range_digest_verified:
  "ranges_verify sha a pages cs \<Longrightarrow> volume_pages a = Inr pages \<Longrightarrow> c \<in> set cs \<Longrightarrow>
   range_digest sha a (cp_first c) (cp_last c) = Inr (cp_pages_sha c)"
  by (induction cs) (auto simp: range_digest_def split: sum.splits)

lemma ranges_cover_ranges: "ranges_cover sha p cs xs \<Longrightarrow> map cp_first cs = take (length cs) (p # map (\<lambda>c. cp_last c + 1) cs)
    \<and> list_all (\<lambda>c. cp_first c \<le> cp_last c) cs"
proof (induction cs arbitrary: p xs)
  case (Cons c cs)
  note cov = Cons.prems [unfolded ranges_cover.simps Let_def]
  from Cons.IH [of "Suc (cp_last c)"] cov have "map cp_first cs = take (length cs) (Suc (cp_last c) # map (\<lambda>c. cp_last c + 1) cs)"
    "list_all (\<lambda>c. cp_first c \<le> cp_last c) cs" by blast+
  with cov show ?case by simp
qed simp

subsection \<open>Properties\<close>

text \<open>
  C15: Assembly evidence is true of the published volume: a file that already has the final name is
  never replaced, and when a volume is reported with evidence, the final name holds the finished
  stage, whose identity is the fingerprinted one and still the one found after publication; the
  chapters are those of the sources in order, with contiguous page ranges from page 1; and the
  pages of every range, read back from the volume, have the digest of the images of that source's
  archive.\<close>

theorem assembled_evidence_sound:
  assumes "assemble sha env sources path out = (Inr v, out')"
  shows "(if out = None \<and> av_path v \<noteq> None then av_path v = Some path \<and> out' \<noteq> None else out' = out \<and> av_path v = None)
    \<and> (case av_assembly v of None \<Rightarrow> True
       | Some e \<Rightarrow>
           out' \<noteq> None \<and> en_fingerprint env = Inr (ve_file e) \<and> en_finished env = Inr (fe_id (ve_file e))
           \<and> en_current env = Inr (fe_id (ve_file e))
           \<and> ve_chapters e \<noteq> [] \<and> map cp_position (ve_chapters e) = [0..<length sources]
           \<and> map cp_first (ve_chapters e) = take (length sources) (1 # map (\<lambda>c. cp_last c + 1) (ve_chapters e))
           \<and> list_all2 (\<lambda>src c. source_chapter sha (en_view env) src c
                \<and> range_digest sha (the out') (cp_first c) (cp_last c) = Inr (cp_pages_sha c)) sources (ve_chapters e))"
proof (cases "av_path v = None")
  case True
  then have "out' = out" "av_assembly v = None"
    using assms by (auto simp: assemble_def no_volume_def Let_def split: sum.splits if_splits option.splits list.splits)
  with True show ?thesis by simp
next
  case False
  then obtain stage finished ev chapters where st: "stage_volume sha env sources = Inr (stage, finished, ev, chapters)"
    "out = None" "out' = Some stage" "av_path v = Some path"
    "\<forall>e. av_assembly v = Some e \<longrightarrow> ev = Some (ve_file e) \<and> chapters = Some (ve_chapters e) \<and> ve_chapters e \<noteq> []
       \<and> en_current env = Inr finished" by (rule assemble_published [OF assms])
  from st(1) obtain merged prov where m: "merge_into sha (en_view env) sources = Inr (merged, prov)"
    "\<forall>cs. chapters = Some cs \<longrightarrow> prov = Some cs \<and> verify_pages sha (Some stage) cs
       \<and> (\<exists>e. ev = Some e \<and> fe_id e = finished \<and> en_fingerprint env = Inr e)" by (rule stage_volume_Inr)
  have fin: "en_finished env = Inr finished"
    using st(1) by (auto simp: stage_volume_def Let_def split: option.splits sum.splits if_splits)
  show ?thesis
  proof (cases "av_assembly v")
    case None
    with False st show ?thesis by simp
  next
    case (Some e)
    note e = st(5) [rule_format, OF Some]
    note c = m(2) [rule_format, of "ve_chapters e"]
    from m(1) obtain xs where xs: "list_all (\<lambda>x. is_image (fst x)) xs"
      "ranges_cover sha 1 (ve_chapters e) xs" "list_all2 (source_chapter sha (en_view env)) sources (ve_chapters e)"
      "map cp_position (ve_chapters e) = [0..<length sources]"
      using e c by (auto elim: merge_into_Inr)
    have "verify_pages sha (Some stage) (ve_chapters e)" using e c by simp
    then obtain pages where "volume_pages stage = Inr pages" "ranges_verify sha stage pages (ve_chapters e)"
      by (auto simp: verify_pages_def split: sum.splits)
    then have "\<And>d. d \<in> set (ve_chapters e) \<Longrightarrow> range_digest sha stage (cp_first d) (cp_last d) = Inr (cp_pages_sha d)"
      using range_digest_verified by blast
    then have "list_all2 (\<lambda>src c. source_chapter sha (en_view env) src c
                \<and> range_digest sha stage (cp_first c) (cp_last c) = Inr (cp_pages_sha c)) sources (ve_chapters e)"
      using xs(3) by (auto simp: list_all2_conv_all_nth)
    then show ?thesis
      using Some False st e c fin xs ranges_cover_ranges [OF xs(2)] list_all2_lengthD [OF xs(3)] by auto
  qed
qed

text \<open>The pages of a recorded chapter in the merged archive.\<close>

definition pages_of :: "archive \<Rightarrow> chapter_pages \<Rightarrow> bytes list" where
  "pages_of a c = map zm_data (take (Suc (cp_last c) - cp_first c) (drop (cp_first c - 1) a))"

lemma data_members_from: "map zm_data (members_from p xs) = map snd xs"
  by (induction p xs rule: members_from.induct) simp_all

lemma ranges_cover_pages:
  assumes "ranges_cover sha (Suc (length pre)) cs xs" "map zm_data a = pre @ map snd xs"
  shows "(\<forall>c \<in> set cs. cp_pages_sha c = page_digest sha (pages_of a c)) \<and> concat (map (pages_of a) cs) = map snd xs"
  using assms
proof (induction cs arbitrary: pre xs)
  case (Cons c cs)
  let ?k = "Suc (cp_last c) - Suc (length pre)"
  have c: "cp_first c = Suc (length pre)" "Suc (length pre) \<le> cp_last c" "?k \<le> length xs"
      "cp_pages_sha c = page_digest sha (map snd (take ?k xs))" "ranges_cover sha (Suc (cp_last c)) cs (drop ?k xs)"
    using Cons.prems(1) by (simp_all add: Let_def)
  have here: "pages_of a c = map snd (take ?k xs)"
    unfolding pages_of_def take_map [symmetric] drop_map [symmetric] Cons.prems(2) using c(1) by (simp add: take_map)
  have len: "length (pre @ map snd (take ?k xs)) = cp_last c" using c(2,3) by simp
  have "ranges_cover sha (Suc (length (pre @ map snd (take ?k xs)))) cs (drop ?k xs)" unfolding len by (rule c(5))
  moreover have "map zm_data a = (pre @ map snd (take ?k xs)) @ map snd (drop ?k xs)"
    unfolding Cons.prems(2) append_assoc map_append [symmetric] append_take_drop_id ..
  ultimately have "(\<forall>d \<in> set cs. cp_pages_sha d = page_digest sha (pages_of a d)) \<and> concat (map (pages_of a) cs) = map snd (drop ?k xs)"
    by (rule Cons.IH)
  then show ?case using c(4) here by (simp add: map_append [symmetric] del: map_append)
qed simp

text \<open>
  C16: The verification is not stricter than the merge: when every source could be proved and the
  finishing step leaves the images of the merged archive as they are (it may add other members), the
  recorded pages verify. The recorded chapters partition the pages of the archive in order, the
  digest of each is that of its own pages, and two of them have the same digest only if their pages
  are equal or the digest shows an explicit collision: two different byte strings with one hash.
\<close>

theorem merge_evidence_verifies:
  assumes "merge_into sha view sources = Inr (out, Some cs)" "same_images stage out"
    and "list_all (\<lambda>m. length (zm_data m) < 2 ^ 64) out"
  shows "verify_pages sha (Some stage) cs
    \<and> concat (map (pages_of out) cs) = map zm_data out
    \<and> (\<forall>c \<in> set cs. cp_pages_sha c = page_digest sha (pages_of out c))
    \<and> (\<forall>c \<in> set cs. \<forall>d \<in> set cs. cp_pages_sha c = cp_pages_sha d \<longrightarrow>
        pages_of out c = pages_of out d
        \<or> frame (pages_of out c) \<noteq> frame (pages_of out d) \<and> sha (frame (pages_of out c)) = sha (frame (pages_of out d)))"
proof -
  from assms(1) obtain xs where xs: "out = members_from 1 xs" "list_all (\<lambda>x. is_image (fst x)) xs" "xs \<noteq> []" "ranges_cover sha 1 cs xs"
    by (auto elim: merge_into_Inr)
  have data: "map zm_data out = map snd xs" unfolding xs(1) by (rule data_members_from)
  have own: "(\<forall>c \<in> set cs. cp_pages_sha c = page_digest sha (pages_of out c)) \<and> concat (map (pages_of out) cs) = map snd xs"
    by (rule ranges_cover_pages [where pre = "[]"]) (use xs(4) data in simp_all)
  have short: "list_all (\<lambda>p. length p < 2 ^ 64) (pages_of out c)" for c
    using assms(3) by (auto simp: pages_of_def list_all_iff dest!: in_set_takeD in_set_dropD)
  have "pages_of out c = pages_of out d
      \<or> frame (pages_of out c) \<noteq> frame (pages_of out d) \<and> sha (frame (pages_of out c)) = sha (frame (pages_of out d))"
    if "c \<in> set cs" "d \<in> set cs" "cp_pages_sha c = cp_pages_sha d" for c d
    using own that frame_inject [OF short short, of c d] by (metis page_digest_def)
  then show ?thesis using merged_stage_verifies [of stage xs sha cs] assms(2) xs data own by auto
qed

definition assembly_wf :: "assembly_db \<Rightarrow> bool" where
  "assembly_wf db \<longleftrightarrow>
     distinct (map va_path (assemblies db)) \<and> distinct (map va_id (assemblies db))
     \<and> list_all (\<lambda>r. va_id r < next_assembly db \<and> va_chapters r \<noteq> [] \<and> chapters_well_formed 0 1 (va_chapters r)
          \<and> list_all (\<lambda>c. chapter_context c = va_context r) (va_chapters r)) (assemblies db)"

lemma distinct_map_filter: "distinct (map f xs) \<Longrightarrow> distinct (map f (filter P xs))"
  by (induction xs) auto

lemma assembly_wf_filter: "assembly_wf db \<Longrightarrow> assembly_wf (db\<lparr>assemblies := filter P (assemblies db)\<rparr>)"
  by (auto simp: assembly_wf_def list_all_iff distinct_map_filter)

lemma record_assembly_cases:
  obtains "record_assembly sid num path a job db = (None, db)"
  | v c cs where "v \<in> set (library_volumes db)" "lv_series v = sid" "lv_num v = num" "lv_status v = ''downloaded''"
      "lv_path v = Some path" "ve_chapters a = c # cs" "list_all (\<lambda>d. chapter_context d = chapter_context c) (ve_chapters a)"
      "well_formed a" "record_assembly sid num path a job db = (Some (next_assembly db), db\<lparr>assemblies :=
         filter (\<lambda>r. va_path r \<noteq> path) (assemblies db) @ [\<lparr>va_id = next_assembly db, va_volume = lv_id v, va_series = sid,
           va_path = path, va_file = ve_file a, va_context = chapter_context c, va_job = job, va_chapters = ve_chapters a\<rparr>],
         next_assembly := next_assembly db + 1\<rparr>)"
proof (cases "record_assembly sid num path a job db = (None, db)")
  case False
  then obtain v where v: "find (\<lambda>v. lv_series v = sid \<and> lv_num v = num \<and> lv_status v = ''downloaded''
                  \<and> lv_path v = Some path) (library_volumes db) = Some v"
    by (auto simp: record_assembly_def split: option.splits)
  from False v obtain c cs where c: "ve_chapters a = c # cs"
    by (auto simp: record_assembly_def split: list.splits)
  from False v c have k: "\<not> list_ex (\<lambda>d. chapter_context d \<noteq> chapter_context c) (ve_chapters a)" "well_formed a"
    by (auto simp: record_assembly_def split: if_splits)
  have "insert_assembly (lv_id v) sid path a (cp_identity c) job db \<noteq> None"
  proof
    assume "insert_assembly (lv_id v) sid path a (cp_identity c) job db = None"
    with False v c k show False by (simp add: record_assembly_def)
  qed
  then have "record_assembly sid num path a job db = (Some (next_assembly db), db\<lparr>assemblies :=
         filter (\<lambda>r. va_path r \<noteq> path) (assemblies db) @ [\<lparr>va_id = next_assembly db, va_volume = lv_id v, va_series = sid,
           va_path = path, va_file = ve_file a, va_context = chapter_context c, va_job = job, va_chapters = ve_chapters a\<rparr>],
         next_assembly := next_assembly db + 1\<rparr>)"
    using v c k by (simp add: record_assembly_def insert_assembly_def Let_def chapter_context_def split: if_splits)
  moreover have "v \<in> set (library_volumes db) \<and> lv_series v = sid \<and> lv_num v = num \<and> lv_status v = ''downloaded'' \<and> lv_path v = Some path"
    using find_Some_mem [OF v] by simp
  ultimately show thesis using that(2) c k by (auto simp: list_ex_iff list_all_iff)
qed (rule that(1))

text \<open>
  The table of assembly records stays well formed: at most one record per library path, unique
  ids, and chapters of one Suwayomi context whose page ranges are contiguous from page 1.
  Recording either leaves the table as it was or, for a volume settled to exactly this path,
  replaces the path's record by the given evidence and no other; voiding removes that record.\<close>

theorem record_assembly_correct:
  assumes "assembly_wf db" "record_assembly sid num path a job db = (result, db')"
  shows "assembly_wf db' \<and> assembly_wf (void_assembly i db')
    \<and> filter (\<lambda>r. va_path r \<noteq> path) (assemblies db') = filter (\<lambda>r. va_path r \<noteq> path) (assemblies db)
    \<and> (case result of
         None \<Rightarrow> db' = db
       | Some new \<Rightarrow> list_ex (\<lambda>v. lv_series v = sid \<and> lv_num v = num \<and> lv_status v = ''downloaded'' \<and> lv_path v = Some path)
             (library_volumes db)
           \<and> map (\<lambda>r. (va_id r, va_file r, va_chapters r)) (filter (\<lambda>r. va_path r = path) (assemblies db'))
               = [(new, ve_file a, ve_chapters a)]
           \<and> assemblies (void_assembly new db') = filter (\<lambda>r. va_path r \<noteq> path) (assemblies db))"
proof (rule record_assembly_cases [of sid num path a job db])
  assume "record_assembly sid num path a job db = (None, db)"
  then have "result = None" "db' = db" using assms(2) by simp_all
  then show ?thesis using assms(1) assembly_wf_filter [OF assms(1)] by (simp add: void_assembly_def)
next
  fix v c cs
  assume v: "v \<in> set (library_volumes db)" "lv_series v = sid" "lv_num v = num" "lv_status v = ''downloaded''" "lv_path v = Some path"
    and c: "ve_chapters a = c # cs" "list_all (\<lambda>d. chapter_context d = chapter_context c) (ve_chapters a)" "well_formed a"
    and r: "record_assembly sid num path a job db = (Some (next_assembly db), db\<lparr>assemblies :=
         filter (\<lambda>r. va_path r \<noteq> path) (assemblies db) @ [\<lparr>va_id = next_assembly db, va_volume = lv_id v, va_series = sid,
           va_path = path, va_file = ve_file a, va_context = chapter_context c, va_job = job, va_chapters = ve_chapters a\<rparr>],
         next_assembly := next_assembly db + 1\<rparr>)"
  let ?row = "\<lparr>va_id = next_assembly db, va_volume = lv_id v, va_series = sid,
           va_path = path, va_file = ve_file a, va_context = chapter_context c, va_job = job, va_chapters = ve_chapters a\<rparr>"
  let ?kept = "filter (\<lambda>r. va_path r \<noteq> path) (assemblies db)"
  have db': "assemblies db' = ?kept @ [?row]" "next_assembly db' = next_assembly db + 1" "result = Some (next_assembly db)"
    using assms(2) r by auto
  have lt: "va_id r < next_assembly db" if "r \<in> set (assemblies db)" for r
    using assms(1) that by (auto simp: assembly_wf_def list_all_iff)
  have chap: "chapters_well_formed 0 1 (ve_chapters a)" "ve_chapters a \<noteq> []"
    using c(3) [unfolded well_formed_def] by blast (simp add: c(1))
  have wf: "assembly_wf db'"
    using assms(1) c(2) chap unfolding assembly_wf_def db'(1,2)
    by (auto simp: distinct_map_filter list_all_iff simp del: chapters_well_formed.simps dest: lt intro: less_imp_le)
  have void: "filter (\<lambda>r. va_id r \<noteq> next_assembly db) ?kept = ?kept"
    by (rule filter_True) (auto dest: lt)
  have nopath: "filter (\<lambda>r. va_path r = path) ?kept = []" by (auto simp: filter_empty_conv)
  have "list_ex (\<lambda>v. lv_series v = sid \<and> lv_num v = num \<and> lv_status v = ''downloaded'' \<and> lv_path v = Some path) (library_volumes db)"
    using v by (auto simp: list_ex_iff)
  moreover have "assembly_wf (void_assembly i db')"
    unfolding void_assembly_def by (rule assembly_wf_filter [OF wf])
  moreover have "assemblies (void_assembly (next_assembly db) db') = ?kept"
    by (simp add: void_assembly_def db'(1) void del: filter_filter)
  ultimately show ?thesis using wf nopath by (simp add: db')
qed

subsection \<open>An assembly\<close>

definition demo_sha :: "bytes \<Rightarrow> string" where
  "demo_sha bs = map (\<lambda>b. char_of (unat b)) bs"

definition demo_id :: file_identity where
  "demo_id = (1, 77, 300, 9)"

definition demo_identity :: source_identity where
  "demo_identity = \<lparr>si_client = 1, si_server = ''http://s'', si_manga = 4, si_source = ''2'', si_chapter = 31\<rparr>"

definition demo_archive :: archive where
  "demo_archive = [\<lparr>zm_name = ''02.JPG'', zm_size = 2, zm_data = [5, 6]\<rparr>, \<lparr>zm_name = ''info.txt'', zm_size = 1, zm_data = [9]\<rparr>,
     \<lparr>zm_name = ''01.png'', zm_size = 1, zm_data = [7]\<rparr>]"

definition demo_view :: "string \<Rightarrow> assembly_error + source_view" where
  "demo_view path = Inr \<lparr>sv_regular = True, sv_before = (1, 5, 3, 3), sv_after = (1, 5, 3, 3), sv_bytes = [1, 2, 3],
     sv_archive = Some demo_archive\<rparr>"

definition demo_env :: stage_env where
  "demo_env = \<lparr>en_carrier = True, en_create = None, en_view = demo_view, en_flush = True,
     en_finish = (\<lambda>a. Inr (a @ [\<lparr>zm_name = ''ComicInfo.xml'', zm_size = 0, zm_data = []\<rparr>])), en_finished = Inr demo_id,
     en_fingerprint = Inr \<lparr>fe_id = demo_id, fe_sha = ''s''\<rparr>, en_before = Inr demo_id, en_publish = None, en_fsync = True,
     en_current = Inr demo_id, en_size = Inr 300\<rparr>"

definition demo_sources :: "assembly_source list" where
  "demo_sources = [\<lparr>as_path = ''/d/31.cbz'', as_identity = Some demo_identity\<rparr>]"

definition demo_assembled :: "(assembly_error + assembled_volume) \<times> archive option" where
  "demo_assembled = assemble demo_sha demo_env demo_sources ''/l/v1.cbz'' None"

lemma demo_assembled_evidence: "case demo_assembled of (Inr v, out') \<Rightarrow> out' \<noteq> None \<and> av_assembly v \<noteq> None | _ \<Rightarrow> False"
  by code_simp

theorem assembled_evidence_sound_witness:
  "case demo_assembled of
     (Inr v, out') \<Rightarrow> (case av_assembly v of None \<Rightarrow> False
       | Some e \<Rightarrow> out' \<noteq> None \<and> en_current demo_env = Inr (fe_id (ve_file e)) \<and> map cp_position (ve_chapters e) = [0..<1])
   | _ \<Rightarrow> False"
proof -
  obtain v out' e where d: "demo_assembled = (Inr v, out')" "av_assembly v = Some e"
    using demo_assembled_evidence by (auto split: prod.splits sum.splits)
  show ?thesis
    unfolding d(1) prod.case sum.case d(2) option.case
    using assembled_evidence_sound [OF d(1) [unfolded demo_assembled_def]] by (simp add: d(2) demo_sources_def)
qed

text \<open>Two chapters with the same pages: one digest.\<close>

definition twin_sources :: "assembly_source list" where
  "twin_sources = demo_sources @ [\<lparr>as_path = ''/d/32.cbz'', as_identity = Some (demo_identity\<lparr>si_chapter := 32\<rparr>)\<rparr>]"

definition demo_merge :: "assembly_error + archive \<times> chapter_pages list option" where
  "demo_merge = merge_into demo_sha demo_view twin_sources"

lemma demo_merge_some:
  "case demo_merge of Inr (out, Some cs) \<Rightarrow> length cs = 2 \<and> cp_pages_sha (cs ! 0) = cp_pages_sha (cs ! 1)
     \<and> list_all (\<lambda>m. length (zm_data m) < 3) out | _ \<Rightarrow> False"
  by code_simp

lemma demo_sha_inject: "demo_sha xs = demo_sha ys \<longleftrightarrow> xs = ys"
proof -
  have "inj (\<lambda>b :: 8 word. char_of (unat b) :: char)"
  proof (rule injI)
    fix x y :: "8 word"
    assume "(char_of (unat x) :: char) = char_of (unat y)"
    then have "(of_char (char_of (unat x) :: char) :: nat) = of_char (char_of (unat y) :: char)" by simp
    then have "unat x mod 256 = unat y mod 256" by simp
    moreover have "unat x < 256" "unat y < 256" using unsigned_less [of x] unsigned_less [of y] by simp_all
    ultimately show "x = y" by (simp add: word_unat_eq_iff)
  qed
  then show ?thesis by (simp add: demo_sha_def inj_map_eq_map)
qed

theorem merge_evidence_verifies_witness:
  "case demo_merge of
     Inr (out, Some cs) \<Rightarrow> verify_pages demo_sha (Some out) cs \<and> length cs = 2 \<and> pages_of out (cs ! 0) = pages_of out (cs ! 1)
   | _ \<Rightarrow> False"
proof -
  obtain out cs where d: "demo_merge = Inr (out, Some cs)" and two: "length cs = 2" "cp_pages_sha (cs ! 0) = cp_pages_sha (cs ! 1)"
      and small: "list_all (\<lambda>m. length (zm_data m) < 3) out"
    using demo_merge_some by (auto split: sum.splits prod.splits option.splits)
  from merge_into_Inr [OF d [unfolded demo_merge_def]] obtain xs where "out = members_from 1 xs" "list_all (\<lambda>x. is_image (fst x)) xs"
    by blast
  then have images: "same_images out out"
    by (auto simp: same_images_def filter_id_conv in_set_conv_nth intro: member_name_image [unfolded One_nat_def])
  have "list_all (\<lambda>m. length (zm_data m) < 2 ^ 64) out" using small by (auto simp: list_all_iff)
  note v = merge_evidence_verifies [OF d [unfolded demo_merge_def] images this]
  have "cs ! 0 \<in> set cs" "cs ! 1 \<in> set cs" using two(1) by simp_all
  with v two(2) have "pages_of out (cs ! 0) = pages_of out (cs ! 1)" unfolding demo_sha_inject by blast
  then show ?thesis unfolding d using v two(1) by simp
qed

definition demo_record_db :: assembly_db where
  "demo_record_db = \<lparr>assemblies = [], library_volumes = [\<lparr>lv_id = 9, lv_series = 5, lv_num = 1, lv_status = ''downloaded'',
     lv_path = Some ''/l/v1.cbz''\<rparr>], next_assembly = 1\<rparr>"

definition demo_evidence :: volume_evidence where
  "demo_evidence = \<lparr>ve_file = \<lparr>fe_id = demo_id, fe_sha = replicate 64 (CHR ''a'')\<rparr>, ve_chapters =
     [\<lparr>cp_position = 0, cp_identity = demo_identity, cp_sha = replicate 64 (CHR ''b''), cp_size = 3, cp_first = 1, cp_last = 2,
       cp_pages_sha = replicate 64 (CHR ''c'')\<rparr>]\<rparr>"

theorem record_assembly_correct_witness:
  "assembly_wf (snd (record_assembly 5 1 ''/l/v1.cbz'' demo_evidence None demo_record_db))
   \<and> fst (record_assembly 5 1 ''/l/v1.cbz'' demo_evidence None demo_record_db) = Some 1"
proof -
  have "assembly_wf demo_record_db" by (simp add: assembly_wf_def demo_record_db_def)
  from record_assembly_correct [OF this, of 5 1 "''/l/v1.cbz''" demo_evidence None] have
    "assembly_wf (snd (record_assembly 5 1 ''/l/v1.cbz'' demo_evidence None demo_record_db))"
    by (cases "record_assembly 5 1 ''/l/v1.cbz'' demo_evidence None demo_record_db") simp
  moreover have "fst (record_assembly 5 1 ''/l/v1.cbz'' demo_evidence None demo_record_db) = Some 1" by code_simp
  ultimately show ?thesis by simp
qed

end
