(* ===== verification/Durable_World.thy ===== *)
theory Durable_World
  imports Volume_Assembly
begin

text \<open>
  Programs that move library files under a journal: a file system of named files, a program that
  may be stopped or refused at every system call, and the laws its steps share.

  \<^item> A path is the list of its components; paths are absolute and normalised. \<open>dirname\<close> is
    \<open>butlast\<close>, \<open>basename\<close> is \<open>last\<close>, \<open>join\<close> appends.
  \<^item> A name is bound to a file record: two names bound to one \<open>(device, inode)\<close> are hard links.
    Contents are represented by size, time stamp, digest and archive members.
  \<^item> \<open>w_faults\<close> is the schedule of what goes wrong: at each effect the process may die (\<open>Die\<close>)
    or the effect may be refused (\<open>Refuse\<close>); after the schedule every effect is carried out.
    A statement for every schedule is a statement about a crash at any point.
  \<^item> An action returns the new world also when it fails; \<open>Crashed\<close> cannot be caught.
\<close>

type_synonym path = "string list"

record stored_file =
  f_dev :: int
  f_ino :: int
  f_reg :: bool
  f_size :: int
  f_mtime :: int
  f_sha :: string
  f_archive :: "archive option"

datatype fault = Proceed | Refuse | Die

datatype failure = Crashed | OsFailure | LockLost | SqlFailure | Refused string

record 'j durable =
  w_files :: "(path \<times> stored_file) list"
  w_dirs :: "(path \<times> bool) list"
  w_managed :: "path \<Rightarrow> bool"
  w_rename :: bool
  w_faults :: "fault list"
  w_journal :: 'j

type_synonym ('j, 'a) act = "'j durable \<Rightarrow> (failure + 'a) \<times> 'j durable"

subsection \<open>Actions\<close>

definition ret :: "'a \<Rightarrow> ('j, 'a) act" where
  "ret x w = (Inr x, w)"

definition throw :: "failure \<Rightarrow> ('j, 'a) act" where
  "throw e w = (Inl e, w)"

definition andthen :: "('j, 'a) act \<Rightarrow> ('a \<Rightarrow> ('j, 'b) act) \<Rightarrow> ('j, 'b) act" where
  "andthen m k w = (case m w of (Inl e, w') \<Rightarrow> (Inl e, w') | (Inr x, w') \<Rightarrow> k x w')"

definition catch :: "('j, 'a) act \<Rightarrow> (failure \<Rightarrow> ('j, 'a) act) \<Rightarrow> ('j, 'a) act" where
  "catch m h w = (case m w of (Inl e, w') \<Rightarrow> if e = Crashed then (Inl e, w') else h e w' | (Inr x, w') \<Rightarrow> (Inr x, w'))"

text \<open>\<open>finally\<close>: the cleanup runs after a result or a failure, but not after a crash.\<close>

definition ensure :: "('j, 'a) act \<Rightarrow> ('j, 'b) act \<Rightarrow> ('j, 'a) act" where
  "ensure m c w = (case m w of
     (Inl e, w') \<Rightarrow> if e = Crashed then (Inl e, w') else (case c w' of (Inl e', w'') \<Rightarrow> (Inl e', w'') | (Inr _, w'') \<Rightarrow> (Inl e, w''))
   | (Inr x, w') \<Rightarrow> (case c w' of (Inl e', w'') \<Rightarrow> (Inl e', w'') | (Inr _, w'') \<Rightarrow> (Inr x, w'')))"

definition gets :: "('j durable \<Rightarrow> 'a) \<Rightarrow> ('j, 'a) act" where
  "gets f w = (Inr (f w), w)"

text \<open>One effect, subject to the schedule; \<open>e\<close> is what a refused effect raises.\<close>

definition effect :: "failure \<Rightarrow> ('j, 'a) act \<Rightarrow> ('j, 'a) act" where
  "effect e op w =
     (case w_faults w of
        [] \<Rightarrow> op w
      | f # fs \<Rightarrow>
          (let w' = w\<lparr>w_faults := fs\<rparr>
           in case f of Proceed \<Rightarrow> op w' | Refuse \<Rightarrow> (Inl e, w') | Die \<Rightarrow> (Inl Crashed, w')))"

definition run_if :: "bool \<Rightarrow> ('j, unit) act \<Rightarrow> ('j, unit) act" where
  "run_if b m = (if b then m else ret ())"

subsection \<open>The file system\<close>

definition dir_of :: "path \<Rightarrow> path" where "dir_of = butlast"

definition base_of :: "path \<Rightarrow> string" where "base_of p = (if p = [] then [] else last p)"

definition file_at :: "'j durable \<Rightarrow> path \<Rightarrow> stored_file option" where
  "file_at w p = map_of (w_files w) p"

definition lexists :: "'j durable \<Rightarrow> path \<Rightarrow> bool" where
  "lexists w p \<longleftrightarrow> file_at w p \<noteq> None \<or> map_of (w_dirs w) p \<noteq> None"

definition bind_name :: "path \<Rightarrow> stored_file \<Rightarrow> 'j durable \<Rightarrow> 'j durable" where
  "bind_name p f w = w\<lparr>w_files := (p, f) # filter (\<lambda>(q, _). q \<noteq> p) (w_files w)\<rparr>"

definition drop_name :: "path \<Rightarrow> 'j durable \<Rightarrow> 'j durable" where
  "drop_name p w = w\<lparr>w_files := filter (\<lambda>(q, _). q \<noteq> p) (w_files w)\<rparr>"

definition same_inode :: "stored_file \<Rightarrow> stored_file \<Rightarrow> bool" where
  "same_inode a b \<longleftrightarrow> f_dev a = f_dev b \<and> f_ino a = f_ino b"

definition os_stat :: "path \<Rightarrow> ('j, stored_file) act" where
  "os_stat p = effect OsFailure (\<lambda>w. case file_at w p of None \<Rightarrow> (Inl OsFailure, w) | Some f \<Rightarrow> (Inr f, w))"

definition is_dir :: "'j durable \<Rightarrow> path \<Rightarrow> bool" where
  "is_dir w p \<longleftrightarrow> map_of (w_dirs w) p \<noteq> None"

text \<open>A name can be made where its directory exists and nothing has it.\<close>

definition can_bind :: "'j durable \<Rightarrow> path \<Rightarrow> bool" where
  "can_bind w p \<longleftrightarrow> p \<noteq> [] \<and> is_dir w (dir_of p) \<and> \<not> lexists w p"

definition os_mkdir :: "path \<Rightarrow> ('j, unit) act" where
  "os_mkdir p = effect OsFailure (\<lambda>w. if \<not> can_bind w p then (Inl OsFailure, w) else (Inr (), w\<lparr>w_dirs := (p, True) # w_dirs w\<rparr>))"

definition os_rmdir :: "path \<Rightarrow> ('j, unit) act" where
  "os_rmdir p = effect OsFailure (\<lambda>w.
     if map_of (w_dirs w) p = None \<or> list_ex (\<lambda>(q, _). dir_of q = p) (w_files w) \<or> list_ex (\<lambda>(q, _). q \<noteq> p \<and> dir_of q = p) (w_dirs w)
     then (Inl OsFailure, w) else (Inr (), w\<lparr>w_dirs := filter (\<lambda>(q, _). q \<noteq> p) (w_dirs w)\<rparr>))"

definition os_fsync :: "path \<Rightarrow> ('j, unit) act" where
  "os_fsync p = effect OsFailure (ret ())"

definition os_unlink :: "path \<Rightarrow> ('j, unit) act" where
  "os_unlink p = effect OsFailure (\<lambda>w. if file_at w p = None then (Inl OsFailure, w) else (Inr (), drop_name p w))"

definition os_link :: "path \<Rightarrow> path \<Rightarrow> ('j, unit) act" where
  "os_link src dst = effect OsFailure (\<lambda>w. case file_at w src of None \<Rightarrow> (Inl OsFailure, w)
     | Some f \<Rightarrow> if \<not> can_bind w dst then (Inl OsFailure, w) else (Inr (), bind_name dst f w))"

definition os_create_file :: "path \<Rightarrow> stored_file \<Rightarrow> ('j, unit) act" where
  "os_create_file p f = effect OsFailure (\<lambda>w. if \<not> can_bind w p then (Inl OsFailure, w) else (Inr (), bind_name p f w))"

text \<open>\<open>os.rename\<close> replaces a file at the destination.\<close>

definition os_rename :: "path \<Rightarrow> path \<Rightarrow> ('j, unit) act" where
  "os_rename src dst = effect OsFailure (\<lambda>w. case file_at w src of None \<Rightarrow> (Inl OsFailure, w)
     | Some f \<Rightarrow> if dst = [] \<or> \<not> is_dir w (dir_of dst) \<or> is_dir w dst then (Inl OsFailure, w)
         else (Inr (), bind_name dst f (drop_name src w)))"

text \<open>\<open>renameat2\<close> with \<open>RENAME_NOREPLACE\<close>; the result says whether the file system supports it.\<close>

definition rename_noreplace :: "path \<Rightarrow> path \<Rightarrow> ('j, bool) act" where
  "rename_noreplace src dst = effect OsFailure (\<lambda>w. if \<not> w_rename w then (Inr False, w)
     else case file_at w src of None \<Rightarrow> (Inl OsFailure, w)
     | Some f \<Rightarrow> if \<not> can_bind w dst then (Inl OsFailure, w) else (Inr True, bind_name dst f (drop_name src w)))"

definition pin :: "path \<Rightarrow> ('j, unit) act" where
  "pin p = effect OsFailure (\<lambda>w. if w_managed w p then (Inr (), w) else (Inl (Refused ''not inside a managed root''), w))"

definition verify_guard :: "('j, unit) act" where
  "verify_guard = effect LockLost (ret ())"

text \<open>One transaction: the change of the journal, or the reason it is not made.\<close>

definition transact :: "('j \<Rightarrow> failure + 'a \<times> 'j) \<Rightarrow> ('j, 'a) act" where
  "transact f = effect SqlFailure (\<lambda>w. case f (w_journal w) of
     Inl e \<Rightarrow> (Inl e, w) | Inr (x, j) \<Rightarrow> (Inr x, w\<lparr>w_journal := j\<rparr>))"

subsection \<open>Content identity\<close>

text \<open>\<open>FileId\<close>: inode, size, time stamp and digest; the device is left out on purpose.\<close>

record file_id =
  fi_ino :: int
  fi_size :: int
  fi_mtime :: int
  fi_sha :: string

definition id_of :: "stored_file \<Rightarrow> file_id" where
  "id_of f = \<lparr>fi_ino = f_ino f, fi_size = f_size f, fi_mtime = f_mtime f, fi_sha = f_sha f\<rparr>"

definition stat_matches :: "'j durable \<Rightarrow> path \<Rightarrow> file_id \<Rightarrow> bool" where
  "stat_matches w p expected =
     (case file_at w p of None \<Rightarrow> False
      | Some f \<Rightarrow> f_reg f \<and> (f_ino f, f_size f, f_mtime f) = (fi_ino expected, fi_size expected, fi_mtime expected))"

definition hash_id :: "path \<Rightarrow> ('j, file_id) act" where
  "hash_id p = effect OsFailure (\<lambda>w. case file_at w p of None \<Rightarrow> (Inl OsFailure, w)
     | Some f \<Rightarrow> if \<not> f_reg f \<or> f_size f > fingerprint_max then (Inl (Refused ''not fingerprinted''), w)
         else (Inr (id_of f), w))"

text \<open>A read of an archive through its name.\<close>

definition open_archive :: "path \<Rightarrow> ('j, archive) act" where
  "open_archive p = effect OsFailure (\<lambda>w. case file_at w p of None \<Rightarrow> (Inl OsFailure, w)
     | Some f \<Rightarrow> (case f_archive f of None \<Rightarrow> (Inl (Refused ''bad archive''), w) | Some a \<Rightarrow> (Inr a, w)))"

definition from_sum :: "assembly_error + 'a \<Rightarrow> ('j, 'a) act" where
  "from_sum r = (case r of Inl _ \<Rightarrow> throw (Refused ''bad volume'') | Inr x \<Rightarrow> ret x)"

lemma map_sum_Inr: "map_sum id h x = Inr y \<longleftrightarrow> (\<exists>z. x = Inr z \<and> y = h z)"
  by (cases x) auto

subsection \<open>Triples\<close>

text \<open>
  \<open>triple P m Q E\<close>: from a world with \<open>P\<close>, whatever the schedule, \<open>m\<close> ends in \<open>Q\<close> with a result or
  in \<open>E\<close> with a failure. An assertion is \<open>steady\<close> when it does not read the schedule.
\<close>

definition triple ::
  "('j durable \<Rightarrow> bool) \<Rightarrow> ('j, 'a) act \<Rightarrow> ('a \<Rightarrow> 'j durable \<Rightarrow> bool) \<Rightarrow> (failure \<Rightarrow> 'j durable \<Rightarrow> bool) \<Rightarrow> bool" where
  "triple P m Q E \<longleftrightarrow> (\<forall>w. P w \<longrightarrow> (case m w of (Inr x, w') \<Rightarrow> Q x w' | (Inl e, w') \<Rightarrow> E e w'))"

definition steady :: "('j durable \<Rightarrow> bool) \<Rightarrow> bool" where
  "steady P \<longleftrightarrow> (\<forall>w fs. P (w\<lparr>w_faults := fs\<rparr>) = P w)"

named_theorems triple_rules "composition rules of triples"

lemma tripleI: "(\<And>w. P w \<Longrightarrow> case m w of (Inr x, w') \<Rightarrow> Q x w' | (Inl e, w') \<Rightarrow> E e w') \<Longrightarrow> triple P m Q E"
  by (simp add: triple_def)

lemma tripleD:
  assumes "triple P m Q E" "P w"
  shows "m w = (Inr x, w') \<Longrightarrow> Q x w'" "m w = (Inl e, w') \<Longrightarrow> E e w'"
  using assms by (auto simp: triple_def dest!: spec [of _ w])

lemma triple_weaken:
  assumes "triple P' m Q' E'" "\<And>w. P w \<Longrightarrow> P' w" "\<And>x w. Q' x w \<Longrightarrow> Q x w" "\<And>e w. E' e w \<Longrightarrow> E e w"
  shows "triple P m Q E"
proof (rule tripleI)
  fix w
  assume P: "P w"
  obtain r w' where m: "m w = (r, w')" by (cases "m w")
  show "case m w of (Inr x, w') \<Rightarrow> Q x w' | (Inl e, w') \<Rightarrow> E e w'"
  proof (cases r)
    case (Inl e)
    with tripleD(2) [OF assms(1) assms(2) [OF P]] assms(4) m show ?thesis by simp
  next
    case (Inr x)
    with tripleD(1) [OF assms(1) assms(2) [OF P]] assms(3) m show ?thesis by simp
  qed
qed

lemma triple_pre: "triple P' m Q E \<Longrightarrow> (\<And>w. P w \<Longrightarrow> P' w) \<Longrightarrow> triple P m Q E"
  by (rule triple_weaken)

lemma triple_ret [triple_rules]: "(\<And>w. P w \<Longrightarrow> Q x w) \<Longrightarrow> triple P (ret x) Q E"
  by (simp add: triple_def ret_def)

lemma triple_throw [triple_rules]: "(\<And>w. P w \<Longrightarrow> E e w) \<Longrightarrow> triple P (throw e) Q E"
  by (simp add: triple_def throw_def)

lemma triple_gets [triple_rules]: "(\<And>w. P w \<Longrightarrow> Q (f w) w) \<Longrightarrow> triple P (gets f) Q E"
  by (simp add: triple_def gets_def)

lemma triple_andthen:
  assumes "triple P m R E" "\<And>x. triple (R x) (k x) Q E"
  shows "triple P (andthen m k) Q E"
proof (rule tripleI)
  fix w
  assume P: "P w"
  obtain r w' where m: "m w = (r, w')" by (cases "m w")
  show "case andthen m k w of (Inr x, w') \<Rightarrow> Q x w' | (Inl e, w') \<Rightarrow> E e w'"
  proof (cases r)
    case (Inl e)
    with tripleD(2) [OF assms(1) P] m show ?thesis by (simp add: andthen_def)
  next
    case (Inr x)
    with tripleD(1) [OF assms(1) P] m have "R x w'" by simp
    with assms(2) [of x] m Inr show ?thesis by (simp add: triple_def andthen_def)
  qed
qed

lemma triple_catch:
  assumes "triple P m Q R" "\<And>w. R Crashed w \<Longrightarrow> E Crashed w" "\<And>e. e \<noteq> Crashed \<Longrightarrow> triple (R e) (h e) Q E"
  shows "triple P (catch m h) Q E"
proof (rule tripleI)
  fix w
  assume P: "P w"
  obtain r w' where m: "m w = (r, w')" by (cases "m w")
  show "case catch m h w of (Inr x, w') \<Rightarrow> Q x w' | (Inl e, w') \<Rightarrow> E e w'"
  proof (cases r)
    case (Inl e)
    with tripleD(2) [OF assms(1) P] m have "R e w'" by simp
    with assms(2) assms(3) [of e] m Inl show ?thesis by (cases "e = Crashed") (auto simp: triple_def catch_def)
  next
    case (Inr x)
    with tripleD(1) [OF assms(1) P] m show ?thesis by (simp add: catch_def)
  qed
qed

lemma triple_ensure:
  assumes "triple P m R F" "\<And>w. F Crashed w \<Longrightarrow> E Crashed w"
    "\<And>x. triple (R x) c (\<lambda>_. Q x) E" "\<And>e. e \<noteq> Crashed \<Longrightarrow> triple (F e) c (\<lambda>_. E e) E"
  shows "triple P (ensure m c) Q E"
proof (rule tripleI)
  fix w
  assume P: "P w"
  obtain r w' where m: "m w = (r, w')" by (cases "m w")
  obtain q v where c: "c w' = (q, v)" by (cases "c w'")
  show "case ensure m c w of (Inr x, w') \<Rightarrow> Q x w' | (Inl e, w') \<Rightarrow> E e w'"
  proof (cases r)
    case (Inl e)
    with tripleD(2) [OF assms(1) P] m have F: "F e w'" by simp
    show ?thesis
    proof (cases "e = Crashed")
      case True
      with F assms(2) m Inl show ?thesis by (simp add: ensure_def)
    next
      case False
      with tripleD [OF assms(4) [OF False] F] c m Inl show ?thesis by (cases q) (simp_all add: ensure_def)
    qed
  next
    case (Inr x)
    with tripleD(1) [OF assms(1) P] m have "R x w'" by simp
    with tripleD [OF assms(3) this] c m Inr show ?thesis by (cases q) (simp_all add: ensure_def)
  qed
qed

lemma triple_effect:
  assumes "steady P" "\<And>w. P w \<Longrightarrow> E e w" "\<And>w. P w \<Longrightarrow> E Crashed w" "triple P op Q E"
  shows "triple P (effect e op) Q E"
proof (rule tripleI)
  fix w
  assume P: "P w"
  have P': "P (w\<lparr>w_faults := fs\<rparr>)" for fs using P assms(1) by (simp add: steady_def)
  show "case effect e op w of (Inr x, w') \<Rightarrow> Q x w' | (Inl e, w') \<Rightarrow> E e w'"
  proof (cases "w_faults w")
    case Nil
    with P assms(4) show ?thesis by (simp add: effect_def triple_def)
  next
    case (Cons f fs)
    with P' [of fs] assms(2-4) show ?thesis by (cases f) (auto simp: effect_def triple_def)
  qed
qed

lemma triple_case:
  "(\<And>x. triple P (f x) Q E) \<Longrightarrow> (\<And>y. triple P (g y) Q E) \<Longrightarrow> triple P (case s of Inl x \<Rightarrow> f x | Inr y \<Rightarrow> g y) Q E"
  "(\<And>x y. triple P (h x y) Q E) \<Longrightarrow> triple P (case p of (x, y) \<Rightarrow> h x y) Q E"
  "triple P n Q E \<Longrightarrow> (\<And>x xs. triple P (c x xs) Q E) \<Longrightarrow> triple P (case l of [] \<Rightarrow> n | x # xs \<Rightarrow> c x xs) Q E"
  "triple P n Q E \<Longrightarrow> (\<And>x. triple P (j x) Q E) \<Longrightarrow> triple P (case i of None \<Rightarrow> n | Some x \<Rightarrow> j x) Q E"
  by (simp_all split: sum.split prod.split list.split option.split)

lemma triple_absurd: "(\<And>w. P w \<Longrightarrow> False) \<Longrightarrow> triple P m Q E"
  by (auto simp: triple_def)

lemma triple_if: "(b \<Longrightarrow> triple P m Q E) \<Longrightarrow> (\<not> b \<Longrightarrow> triple P n Q E) \<Longrightarrow> triple P (if b then m else n) Q E"
  by simp

lemma triple_run_if: "(b \<Longrightarrow> triple P m Q E) \<Longrightarrow> (\<And>w. \<not> b \<Longrightarrow> P w \<Longrightarrow> Q () w) \<Longrightarrow> triple P (run_if b m) Q E"
  by (simp add: run_if_def triple_def ret_def)

lemma triple_fact: "(\<And>w. P w \<Longrightarrow> b) \<Longrightarrow> (b \<Longrightarrow> triple P m Q E) \<Longrightarrow> triple P m Q E"
  by (auto simp: triple_def)

subsection \<open>Names and files\<close>

lemma file_at_bind [simp]: "file_at (bind_name p f w) q = (if q = p then Some f else file_at w q)"
proof -
  have "map_of (filter (\<lambda>(x, _). x \<noteq> p) xs) q = (if q = p then None else map_of xs q)" for xs :: "(path \<times> stored_file) list"
    by (induction xs) auto
  then show ?thesis by (simp add: file_at_def bind_name_def)
qed

lemma file_at_drop [simp]: "file_at (drop_name p w) q = (if q = p then None else file_at w q)"
proof -
  have "map_of (filter (\<lambda>(x, _). x \<noteq> p) xs) q = (if q = p then None else map_of xs q)" for xs :: "(path \<times> stored_file) list"
    by (induction xs) auto
  then show ?thesis by (simp add: file_at_def drop_name_def)
qed

lemma file_at_update [simp]:
  "file_at (w\<lparr>w_faults := fs\<rparr>) q = file_at w q" "file_at (w\<lparr>w_journal := j\<rparr>) q = file_at w q"
  "file_at (w\<lparr>w_dirs := ds\<rparr>) q = file_at w q"
  by (simp_all add: file_at_def)

lemma is_dir_update [simp]:
  "is_dir (w\<lparr>w_faults := fs\<rparr>) q = is_dir w q" "is_dir (w\<lparr>w_journal := j\<rparr>) q = is_dir w q"
  "is_dir (bind_name p f w) q = is_dir w q" "is_dir (drop_name p w) q = is_dir w q"
  by (simp_all add: is_dir_def bind_name_def drop_name_def)

lemma durable_update [simp]:
  "w_journal (bind_name p f w) = w_journal w" "w_journal (drop_name p w) = w_journal w"
  "w_faults (bind_name p f w) = w_faults w" "w_faults (drop_name p w) = w_faults w"
  "w_managed (bind_name p f w) = w_managed w" "w_managed (drop_name p w) = w_managed w"
  "w_rename (bind_name p f w) = w_rename w" "w_rename (drop_name p w) = w_rename w"
  by (simp_all add: bind_name_def drop_name_def)

lemma lexists_update [simp]: "lexists (w\<lparr>w_faults := fs\<rparr>) q = lexists w q" "lexists (w\<lparr>w_journal := j\<rparr>) q = lexists w q"
  by (simp_all add: lexists_def)

lemma stat_matches_update [simp]: "stat_matches (w\<lparr>w_faults := fs\<rparr>) q e = stat_matches w q e"
  by (simp add: stat_matches_def)

lemma stat_matches_id: "file_at w p = Some f \<Longrightarrow> f_reg f \<Longrightarrow> stat_matches w p (id_of f)"
  by (simp add: stat_matches_def id_of_def)

lemma file_at_lexists: "file_at w p = Some f \<Longrightarrow> lexists w p"
  by (simp add: lexists_def)

lemma can_bind_absent: "can_bind w p \<Longrightarrow> file_at w p = None"
  by (simp add: can_bind_def lexists_def)

text \<open>
  A well-formed file system: a named file is in a directory, and names of one inode show one file.
\<close>

definition fs_ok :: "'j durable \<Rightarrow> bool" where
  "fs_ok w \<longleftrightarrow>
     (\<forall>p f. file_at w p = Some f \<longrightarrow> is_dir w (dir_of p))
     \<and> (\<forall>p q f g. file_at w p = Some f \<longrightarrow> file_at w q = Some g \<longrightarrow> same_inode f g \<longrightarrow> f = g)"

lemma fs_ok_dir: "fs_ok w \<Longrightarrow> file_at w p = Some f \<Longrightarrow> is_dir w (dir_of p)"
  by (auto simp: fs_ok_def)

lemma fs_ok_inode: "fs_ok w \<Longrightarrow> file_at w p = Some f \<Longrightarrow> file_at w q = Some g \<Longrightarrow> same_inode f g \<Longrightarrow> f = g"
  by (auto simp: fs_ok_def)

lemma fs_ok_update [simp]: "fs_ok (w\<lparr>w_faults := fs\<rparr>) = fs_ok w" "fs_ok (w\<lparr>w_journal := j\<rparr>) = fs_ok w"
  by (simp_all add: fs_ok_def)

lemma same_inode_refl [simp]: "same_inode f f"
  by (simp add: same_inode_def)

lemma same_inode_sym: "same_inode f g \<Longrightarrow> same_inode g f"
  by (simp add: same_inode_def)

lemma fs_ok_bind:
  assumes "fs_ok w" "is_dir w (dir_of p)" "\<And>q g. file_at w q = Some g \<Longrightarrow> same_inode f g \<Longrightarrow> f = g"
  shows "fs_ok (bind_name p f w)"
  using assms by (auto simp: fs_ok_def) (metis same_inode_sym)

lemma fs_ok_drop: "fs_ok w \<Longrightarrow> fs_ok (drop_name p w)"
  by (auto simp: fs_ok_def)

lemma fs_ok_mkdir: "fs_ok w \<Longrightarrow> fs_ok (w\<lparr>w_dirs := (p, b) # w_dirs w\<rparr>)"
  by (auto simp: fs_ok_def is_dir_def)

lemma fs_ok_rmdir:
  assumes "fs_ok w" "\<not> list_ex (\<lambda>(q, _). dir_of q = p) (w_files w)"
  shows "fs_ok (w\<lparr>w_dirs := filter (\<lambda>(q, _). q \<noteq> p) (w_dirs w)\<rparr>)"
proof -
  have dirs: "map_of (filter (\<lambda>(x, _). x \<noteq> p) ds) q = (if q = p then None else map_of ds q)" for ds :: "(path \<times> bool) list" and q
    by (induction ds) auto
  have "dir_of q \<noteq> p" if "file_at w q = Some f" for q f
    using that assms(2) map_of_SomeD [of "w_files w" q f] by (auto simp: file_at_def list_ex_iff)
  with assms(1) show ?thesis by (auto simp: fs_ok_def is_dir_def dirs)
qed

subsection \<open>Steps that only read\<close>

text \<open>\<open>idle m R\<close>: \<open>m\<close> changes nothing but the schedule, and \<open>R\<close> holds of what it returns.\<close>

definition idle :: "('j, 'a) act \<Rightarrow> ('a \<Rightarrow> 'j durable \<Rightarrow> bool) \<Rightarrow> bool" where
  "idle m R \<longleftrightarrow> (\<forall>w r w'. m w = (r, w') \<longrightarrow> (\<exists>fs. w' = w\<lparr>w_faults := fs\<rparr>) \<and> (\<forall>x. r = Inr x \<longrightarrow> R x w'))"

named_theorems idle_rules "steps that only read"

abbreviation quiet :: "('j, 'a) act \<Rightarrow> bool" where
  "quiet m \<equiv> idle m (\<lambda>_ _. True)"

lemma idleI: "(\<And>w r w'. m w = (r, w') \<Longrightarrow> \<exists>fs. w' = w\<lparr>w_faults := fs\<rparr>) \<Longrightarrow> (\<And>w x w'. m w = (Inr x, w') \<Longrightarrow> R x w') \<Longrightarrow> idle m R"
  by (auto simp: idle_def)

lemma idle_world: "idle m R \<Longrightarrow> m w = (r, w') \<Longrightarrow> \<exists>fs. w' = w\<lparr>w_faults := fs\<rparr>"
  by (auto simp: idle_def)

lemma idle_result: "idle m R \<Longrightarrow> m w = (Inr x, w') \<Longrightarrow> R x w'"
  by (auto simp: idle_def)

lemma idle_quiet: "idle m R \<Longrightarrow> quiet m"
  by (auto simp: idle_def)

lemma same_faults: "\<exists>fs. w = w\<lparr>w_faults := fs\<rparr>"
  by (rule exI [of _ "w_faults w"]) simp

lemma quiet_ret [idle_rules]: "quiet (ret x)" and quiet_throw [idle_rules]: "quiet (throw e)"
  and quiet_gets [idle_rules]: "quiet (gets g)"
  by (auto simp: idle_def ret_def throw_def gets_def intro: same_faults)

lemma idle_effect:
  assumes "idle op R" shows "idle (effect e op) R"
proof (rule idleI)
  fix w r w'
  assume m: "effect e op w = (r, w')"
  show "\<exists>fs. w' = w\<lparr>w_faults := fs\<rparr>"
  proof (cases "w_faults w")
    case Nil
    with m idle_world [OF assms] show ?thesis by (simp add: effect_def)
  next
    case (Cons f fs)
    with m idle_world [OF assms, of "w\<lparr>w_faults := fs\<rparr>"] show ?thesis by (cases f) (auto simp: effect_def)
  qed
next
  fix w x w'
  assume "effect e op w = (Inr x, w')"
  then show "R x w'"
    using idle_result [OF assms] by (auto simp: effect_def Let_def split: list.splits fault.splits)
qed

lemma quiet_andthen [idle_rules]:
  assumes "quiet m" "\<And>x. quiet (k x)" shows "quiet (andthen m k)"
proof (rule idleI)
  fix w r w'
  assume m: "andthen m k w = (r, w')"
  obtain q v where v: "m w = (q, v)" by (cases "m w")
  obtain fs where fs: "v = w\<lparr>w_faults := fs\<rparr>" using idle_world [OF assms(1) v] by auto
  show "\<exists>fs. w' = w\<lparr>w_faults := fs\<rparr>"
  proof (cases q)
    case (Inl e)
    with m v fs show ?thesis by (auto simp: andthen_def)
  next
    case (Inr x)
    with m v have "k x v = (r, w')" by (simp add: andthen_def)
    with idle_world [OF assms(2)] fs show ?thesis by fastforce
  qed
qed simp

lemma quiet_catch [idle_rules]:
  assumes "quiet m" "\<And>e. quiet (h e)" shows "quiet (catch m h)"
proof (rule idleI)
  fix w r w'
  assume m: "catch m h w = (r, w')"
  obtain q v where v: "m w = (q, v)" by (cases "m w")
  obtain fs where fs: "v = w\<lparr>w_faults := fs\<rparr>" using idle_world [OF assms(1) v] by auto
  show "\<exists>fs. w' = w\<lparr>w_faults := fs\<rparr>"
  proof (cases "\<exists>e. q = Inl e \<and> e \<noteq> Crashed")
    case True
    then obtain e where "q = Inl e" "e \<noteq> Crashed" by auto
    with m v have "h e v = (r, w')" by (simp add: catch_def)
    with idle_world [OF assms(2)] fs show ?thesis by fastforce
  next
    case False
    with m v fs show ?thesis by (cases q) (auto simp: catch_def)
  qed
qed simp

lemma quiet_if [idle_rules]: "quiet m \<Longrightarrow> quiet n \<Longrightarrow> quiet (if b then m else n)"
  by simp

lemma quiet_sum [idle_rules]: "(\<And>x. quiet (f x)) \<Longrightarrow> (\<And>y. quiet (g y)) \<Longrightarrow> quiet (case s of Inl x \<Rightarrow> f x | Inr y \<Rightarrow> g y)"
  by (cases s) auto

lemma quiet_option [idle_rules]: "quiet n \<Longrightarrow> (\<And>y. quiet (g y)) \<Longrightarrow> quiet (case s of None \<Rightarrow> n | Some y \<Rightarrow> g y)"
  by (cases s) auto

lemma quiet_pair [idle_rules]: "(\<And>x y. quiet (f x y)) \<Longrightarrow> quiet (case s of (x, y) \<Rightarrow> f x y)"
  by (cases s) auto

lemma quiet_failure [idle_rules]:
  "quiet a \<Longrightarrow> quiet b \<Longrightarrow> quiet c \<Longrightarrow> quiet d \<Longrightarrow> (\<And>s. quiet (f s)) \<Longrightarrow>
   quiet (case e of Crashed \<Rightarrow> a | OsFailure \<Rightarrow> b | LockLost \<Rightarrow> c | SqlFailure \<Rightarrow> d | Refused s \<Rightarrow> f s)"
  by (cases e) auto

lemma quiet_from_sum [idle_rules]: "quiet (from_sum r)"
  unfolding from_sum_def by (intro idle_rules)

lemma quiet_effect [idle_rules]: "quiet op \<Longrightarrow> quiet (effect e op)"
  by (rule idle_effect)

lemma idle_keep: "(\<And>w. snd (m w) = w) \<Longrightarrow> (\<And>w x. fst (m w) = Inr x \<Longrightarrow> R x w) \<Longrightarrow> idle m R"
  by (rule idleI) (metis same_faults snd_conv, metis fst_conv snd_conv)

lemma idle_os_stat: "idle (os_stat p) (\<lambda>f w. file_at w p = Some f)"
  unfolding os_stat_def by (rule idle_effect, rule idle_keep) (auto split: option.splits)

lemma idle_hash_id: "idle (hash_id p) (\<lambda>i w. \<exists>f. file_at w p = Some f \<and> f_reg f \<and> i = id_of f)"
  unfolding hash_id_def by (rule idle_effect, rule idle_keep) (auto split: option.splits if_splits)

lemma quiet_steps [idle_rules]:
  "quiet (os_stat p)" "quiet (hash_id p)" "quiet (os_fsync p)" "quiet verify_guard" "quiet (pin p)" "quiet (open_archive p)"
proof -
  show "quiet (os_stat p)" "quiet (hash_id p)"
    using idle_quiet [OF idle_os_stat] idle_quiet [OF idle_hash_id] by auto
  show "quiet (os_fsync p)" "quiet verify_guard"
    unfolding os_fsync_def verify_guard_def by (intro idle_rules)+
  show "quiet (pin p)" "quiet (open_archive p)"
    unfolding pin_def open_archive_def by (rule idle_effect, rule idle_keep; auto split: option.splits)+
qed

lemma triple_idle:
  assumes "idle m R" "steady P" "\<And>x w. P w \<Longrightarrow> R x w \<Longrightarrow> Q x w" "\<And>e w. P w \<Longrightarrow> E e w"
  shows "triple P m Q E"
proof (rule tripleI)
  fix w
  assume P: "P w"
  obtain r w' where m: "m w = (r, w')" by (cases "m w")
  obtain fs where "w' = w\<lparr>w_faults := fs\<rparr>" using idle_world [OF assms(1) m] by auto
  with P assms(2) have P': "P w'" by (simp add: steady_def)
  show "case m w of (Inr x, w') \<Rightarrow> Q x w' | (Inl e, w') \<Rightarrow> E e w'"
    using m P' assms(3,4) idle_result [OF assms(1)] by (cases r) auto
qed

text \<open>A step by its triple, then the rest; a step that only reads, then the rest.\<close>

lemma triple_then:
  assumes "triple P' m R E'" "\<And>w. P w \<Longrightarrow> P' w" "\<And>e w. E' e w \<Longrightarrow> E e w" "\<And>x. triple (R x) (k x) Q E"
  shows "triple P (andthen m k) Q E"
  by (rule triple_andthen [OF triple_weaken [OF assms(1)] assms(4)]) (use assms in auto)

lemma triple_skip:
  assumes "quiet m" "steady P" "\<And>e w. P w \<Longrightarrow> E e w" "\<And>x. triple P (k x) Q E"
  shows "triple P (andthen m k) Q E"
  by (rule triple_andthen [OF triple_idle [OF assms(1,2)] assms(4)]) (use assms in auto)

lemma triple_read:
  assumes "idle m R" "steady P" "\<And>e w. P w \<Longrightarrow> E e w" "\<And>x. triple (\<lambda>w. P w \<and> R x w) (k x) Q E"
  shows "triple P (andthen m k) Q E"
  by (rule triple_andthen [OF triple_idle [OF assms(1,2)] assms(4)]) (use assms in auto)

lemma triple_snd: "triple P m (\<lambda>_. R) (\<lambda>_. R) \<Longrightarrow> P w \<Longrightarrow> R (snd (m w))"
  by (cases "m w"; cases "fst (m w)") (auto dest: tripleD)

lemma triple_world: "(\<And>w. P w \<Longrightarrow> R (snd (m w))) \<Longrightarrow> triple P m (\<lambda>_. R) (\<lambda>_. R)"
  by (rule tripleI) (auto split: prod.split sum.split, metis snd_conv)

lemma triple_look: "(\<And>x. triple (\<lambda>w. P w \<and> x = g w) (k x) Q E) \<Longrightarrow> triple P (andthen (gets g) k) Q E"
  by (rule triple_andthen [where R = "\<lambda>x w. P w \<and> x = g w"]) (auto simp: triple_def gets_def)

lemma triple_look2:
  "(\<And>x y. triple (\<lambda>w. P w \<and> x = g w \<and> y = h w) (k x y) Q E) \<Longrightarrow> triple P (andthen (gets (\<lambda>w. (g w, h w))) (\<lambda>(x, y). k x y)) Q E"
  by (rule triple_look) (auto simp: triple_def split: prod.splits)

lemma triple_look3:
  "(\<And>x y z. triple (\<lambda>w. P w \<and> x = g w \<and> y = h w \<and> z = l w) (k x y z) Q E) \<Longrightarrow>
   triple P (andthen (gets (\<lambda>w. (g w, h w, l w))) (\<lambda>(x, y, z). k x y z)) Q E"
  by (rule triple_look) (auto simp: triple_def split: prod.splits)

lemma triple_thrown: "(\<And>w. P w \<Longrightarrow> E e w) \<Longrightarrow> triple P (andthen (throw e) k) Q E"
  by (simp add: triple_def throw_def andthen_def)

subsection \<open>Files kept\<close>

text \<open>
  \<open>keeps G F S J\<close>: the file system is well formed, every file of \<open>G\<close> has a name, the watched file \<open>F\<close>
  (if any) has a name in \<open>S\<close>, and \<open>J\<close> holds of the journal. Each step below keeps it, at every
  point it can stop.
\<close>

definition keeps ::
  "stored_file set \<Rightarrow> stored_file option \<Rightarrow> path set \<Rightarrow> ('j \<Rightarrow> bool) \<Rightarrow> 'j durable \<Rightarrow> bool" where
  "keeps G F S J w \<longleftrightarrow>
     fs_ok w \<and> (\<forall>g \<in> G. \<exists>p. file_at w p = Some g) \<and> (\<forall>f. F = Some f \<longrightarrow> (\<exists>p \<in> S. file_at w p = Some f)) \<and> J (w_journal w)"

lemma steady_keeps [simp]: "steady (keeps G F S J)"
  by (simp add: steady_def keeps_def)

lemma steady_conj: "steady P \<Longrightarrow> steady Q \<Longrightarrow> steady (\<lambda>w. P w \<and> Q w)"
  by (simp add: steady_def)

lemma steady_look [simp]:
  "steady (\<lambda>w. x = file_at w p)" "steady (\<lambda>w. file_at w p = x)" "steady (\<lambda>w. b = lexists w p)" "steady (\<lambda>w. c)"
  "steady (\<lambda>w. b = stat_matches w p e)" "steady (\<lambda>w. file_at w p = file_at w q)" "steady (\<lambda>w. Q (w_journal w))"
  "steady (\<lambda>w. \<forall>q f. file_at w q = Some f \<longrightarrow> R q f)"
  by (simp_all add: steady_def)

lemma keeps_ok: "keeps G F S J w \<Longrightarrow> fs_ok w"
  by (simp add: keeps_def)

lemma keeps_journal: "keeps G F S J w \<Longrightarrow> J (w_journal w)"
  by (simp add: keeps_def)

lemma keeps_named: "keeps G F S J w \<Longrightarrow> g \<in> G \<Longrightarrow> \<exists>p. file_at w p = Some g"
  by (simp add: keeps_def)

lemma keeps_wider: "keeps G F S J w \<Longrightarrow> S \<subseteq> T \<Longrightarrow> (\<And>j. J j \<Longrightarrow> K j) \<Longrightarrow> keeps G F T K w"
  by (auto simp: keeps_def) blast

lemma keeps_narrow: "keeps G F S J w \<Longrightarrow> (\<And>p. p \<in> S \<Longrightarrow> p \<notin> T \<Longrightarrow> file_at w p = None) \<Longrightarrow> keeps G F T J w"
  by (auto simp: keeps_def) (metis option.distinct(1))

lemma keeps_journal_update: "keeps G F S J w \<Longrightarrow> K j \<Longrightarrow> keeps G F S K (w\<lparr>w_journal := j\<rparr>)"
  by (simp add: keeps_def)

lemma keeps_change:
  assumes "keeps G F S J w" "fs_ok w'" "w_journal w' = w_journal w"
    "\<And>y g. file_at w y = Some g \<Longrightarrow> \<exists>x. file_at w' x = Some g"
    "\<And>y g. y \<in> S \<Longrightarrow> file_at w y = Some g \<Longrightarrow> \<exists>x \<in> T. file_at w' x = Some g"
  shows "keeps G F T J w'"
proof -
  have "\<exists>x. file_at w' x = Some g" if "g \<in> G" for g
    using assms(1,4) that unfolding keeps_def by blast
  moreover have "\<exists>x \<in> T. file_at w' x = Some f" if "F = Some f" for f
    using assms(1,5) that unfolding keeps_def by blast
  ultimately show ?thesis using assms(1-3) by (simp add: keeps_def)
qed

lemma keeps_drop:
  assumes "keeps G F S J w" "file_at w q = file_at w p" "q \<noteq> p"
  shows "keeps G F (insert q (S - {p})) J (drop_name p w)"
proof -
  have "\<exists>x. file_at (drop_name p w) x = Some g" if "file_at w y = Some g" for y g
    using that assms(2,3) by (cases "y = p") (auto intro: exI [of _ q] exI [of _ y])
  moreover have "\<exists>x \<in> insert q (S - {p}). file_at (drop_name p w) x = Some g" if "y \<in> S" "file_at w y = Some g" for y g
    using that assms(2,3) by (cases "y = p") auto
  ultimately show ?thesis using keeps_change [OF assms(1)] fs_ok_drop [OF keeps_ok [OF assms(1)]] by simp
qed

lemma keeps_bind:
  assumes "keeps G F S J w" "file_at w p = None" "is_dir w (dir_of p)"
    "\<And>q g. file_at w q = Some g \<Longrightarrow> same_inode f g \<Longrightarrow> f = g"
  shows "keeps G F S J (bind_name p f w)"
proof -
  have "fs_ok (bind_name p f w)" using fs_ok_bind [of w p f] assms by (auto simp: keeps_def)
  moreover have "file_at (bind_name p f w) x = Some g" if "file_at w x = Some g" for x g
    using that assms(2) by auto
  ultimately show ?thesis using keeps_change [OF assms(1), of "bind_name p f w"] by (metis durable_update(1))
qed

lemma keeps_link:
  assumes "keeps G F S J w" "file_at w p = None" "is_dir w (dir_of p)" "file_at w src = Some f"
  shows "keeps G F S J (bind_name p f w)"
  using keeps_bind [OF assms(1-3)] fs_ok_inode [OF keeps_ok [OF assms(1)] assms(4)] by blast

lemma keeps_move:
  assumes "keeps G F S J w" "file_at w dst = None" "is_dir w (dir_of dst)" "file_at w src = Some f"
  shows "keeps G F (insert dst (S - {src})) J (bind_name dst f (drop_name src w))"
proof -
  have ne: "src \<noteq> dst" using assms by auto
  have swap: "file_at (bind_name dst f (drop_name src w)) = file_at (drop_name src (bind_name dst f w))" using ne by auto
  have "keeps G F (insert dst (S - {src})) J (drop_name src (bind_name dst f w))"
    using keeps_drop [OF keeps_link [OF assms], of dst src] ne assms(4) by simp
  then show ?thesis by (simp add: keeps_def fs_ok_def swap del: file_at_bind file_at_drop)
qed

subsection \<open>Steps that change the file system or the journal\<close>

lemma effect_keeps:
  assumes "\<And>w. keeps G F S J w \<Longrightarrow> case op w of (Inr x, w') \<Rightarrow> Q x w' | (Inl _, w') \<Rightarrow> keeps G F S J w'"
  shows "triple (keeps G F S J) (effect e op) Q (\<lambda>_. keeps G F S J)"
  by (rule triple_effect) (use assms in \<open>simp_all add: triple_def\<close>)

lemma triple_os_mkdir:
  "triple (keeps G F S J) (os_mkdir p) (\<lambda>_ w. keeps G F S J w \<and> (\<forall>q f. file_at w q = Some f \<longrightarrow> dir_of q \<noteq> p)) (\<lambda>_. keeps G F S J)"
  unfolding os_mkdir_def
proof (rule effect_keeps)
  fix w :: "'a durable"
  assume k: "keeps G F S J w"
  have "dir_of q \<noteq> p" if "can_bind w p" "file_at w q = Some f" for q f
    using fs_ok_dir [OF keeps_ok [OF k] that(2)] that(1) by (auto simp: can_bind_def lexists_def is_dir_def)
  moreover have "keeps G F S J (w\<lparr>w_dirs := (p, True) # w_dirs w\<rparr>)"
    using k fs_ok_mkdir [OF keeps_ok [OF k]] by (simp add: keeps_def)
  ultimately show "case if \<not> can_bind w p then (Inl OsFailure, w) else (Inr (), w\<lparr>w_dirs := (p, True) # w_dirs w\<rparr>) of
      (Inr x, w) \<Rightarrow> keeps G F S J w \<and> (\<forall>q f. file_at w q = Some f \<longrightarrow> dir_of q \<noteq> p) | (Inl _, w) \<Rightarrow> keeps G F S J w"
    using k by auto
qed

lemma triple_os_rmdir: "triple (keeps G F S J) (os_rmdir p) (\<lambda>_. keeps G F S J) (\<lambda>_. keeps G F S J)"
  unfolding os_rmdir_def
proof (rule effect_keeps)
  fix w :: "'a durable"
  assume k: "keeps G F S J w"
  have "keeps G F S J (w\<lparr>w_dirs := filter (\<lambda>(q, _). q \<noteq> p) (w_dirs w)\<rparr>)"
    if "\<not> list_ex (\<lambda>(q, _). dir_of q = p) (w_files w)"
    using k fs_ok_rmdir [OF keeps_ok [OF k] that] by (simp add: keeps_def)
  with k show "case if map_of (w_dirs w) p = None \<or> list_ex (\<lambda>(q, _). dir_of q = p) (w_files w) \<or> list_ex (\<lambda>(q, _). q \<noteq> p \<and> dir_of q = p) (w_dirs w)
      then (Inl OsFailure, w) else (Inr (), w\<lparr>w_dirs := filter (\<lambda>(q, _). q \<noteq> p) (w_dirs w)\<rparr>) of
      (Inr x, w) \<Rightarrow> keeps G F S J w | (Inl _, w) \<Rightarrow> keeps G F S J w"
    by simp
qed

text \<open>Unlinking is safe for a name whose file has another name.\<close>

lemma triple_os_unlink:
  assumes "q \<noteq> p"
  shows "triple (\<lambda>w. keeps G F S J w \<and> file_at w q = file_at w p) (os_unlink p) (\<lambda>_. keeps G F (insert q (S - {p})) J) (\<lambda>_. keeps G F S J)"
  unfolding os_unlink_def
  by (rule triple_effect) (use keeps_drop [of G F S J _ q p] assms in \<open>auto simp: triple_def intro: steady_conj\<close>)

lemma triple_os_link:
  "triple (keeps G F S J) (os_link src dst)
     (\<lambda>_ w. keeps G F S J w \<and> src \<noteq> dst) (\<lambda>_. keeps G F S J)"
  unfolding os_link_def
proof (rule effect_keeps)
  fix w :: "'a durable"
  assume k: "keeps G F S J w"
  have "keeps G F S J (bind_name dst f w) \<and> src \<noteq> dst" if "file_at w src = Some f" "can_bind w dst" for f
    using keeps_link [OF k can_bind_absent [OF that(2)] _ that(1)] that can_bind_absent [OF that(2)] by (auto simp: can_bind_def)
  with k show "case case file_at w src of None \<Rightarrow> (Inl OsFailure, w)
     | Some f \<Rightarrow> if \<not> can_bind w dst then (Inl OsFailure, w) else (Inr (), bind_name dst f w) of
      (Inr x, w) \<Rightarrow> keeps G F S J w \<and> src \<noteq> dst | (Inl _, w) \<Rightarrow> keeps G F S J w"
    by (auto split: option.splits)
qed

lemma triple_rename_noreplace:
  "triple (keeps G F S J) (rename_noreplace src dst)
     (\<lambda>done. keeps G F (if done then insert dst (S - {src}) else S) J) (\<lambda>_. keeps G F S J)"
  unfolding rename_noreplace_def
proof (rule effect_keeps)
  fix w :: "'a durable"
  assume k: "keeps G F S J w"
  have "keeps G F (insert dst (S - {src})) J (bind_name dst f (drop_name src w))" if "file_at w src = Some f" "can_bind w dst" for f
    using keeps_move [OF k can_bind_absent [OF that(2)] _ that(1)] that by (simp add: can_bind_def)
  with k show "case if \<not> w_rename w then (Inr False, w)
     else case file_at w src of None \<Rightarrow> (Inl OsFailure, w)
     | Some f \<Rightarrow> if \<not> can_bind w dst then (Inl OsFailure, w) else (Inr True, bind_name dst f (drop_name src w)) of
      (Inr x, w) \<Rightarrow> keeps G F (if x then insert dst (S - {src}) else S) J w | (Inl _, w) \<Rightarrow> keeps G F S J w"
    by (auto split: option.splits)
qed

lemma triple_os_rename:
  "triple (\<lambda>w. keeps G F S J w \<and> file_at w dst = None) (os_rename src dst)
     (\<lambda>_. keeps G F (insert dst (S - {src})) J) (\<lambda>_. keeps G F S J)"
  unfolding os_rename_def
proof (rule triple_effect)
  show "triple (\<lambda>w. keeps G F S J w \<and> file_at w dst = None)
     (\<lambda>w. case file_at w src of None \<Rightarrow> (Inl OsFailure, w)
       | Some f \<Rightarrow> if dst = [] \<or> \<not> is_dir w (dir_of dst) \<or> is_dir w dst then (Inl OsFailure, w)
         else (Inr (), bind_name dst f (drop_name src w)))
     (\<lambda>_. keeps G F (insert dst (S - {src})) J) (\<lambda>_. keeps G F S J)"
    using keeps_move [of G F S J _ dst src] by (auto simp: triple_def split: option.splits)
qed (auto intro: steady_conj)

lemma triple_transact:
  assumes "\<And>j x j'. J j \<Longrightarrow> f j = Inr (x, j') \<Longrightarrow> K x j'"
  shows "triple (keeps G F S J) (transact f) (\<lambda>x. keeps G F S (K x)) (\<lambda>_. keeps G F S J)"
  unfolding transact_def
proof (rule effect_keeps)
  fix w :: "'a durable"
  assume "keeps G F S J w"
  then show "case case f (w_journal w) of Inl e \<Rightarrow> (Inl e, w) | Inr (x, j) \<Rightarrow> (Inr x, w\<lparr>w_journal := j\<rparr>) of
      (Inr x, w) \<Rightarrow> keeps G F S (K x) w | (Inl _, w) \<Rightarrow> keeps G F S J w"
    using assms [of "w_journal w"] by (auto simp: keeps_def split: sum.splits)
qed

lemma keeps_conj: "keeps G F S (\<lambda>j. c \<and> K j) w \<longleftrightarrow> c \<and> keeps G F S K w"
  by (auto simp: keeps_def)

lemma triple_transact_then:
  assumes "\<And>j x j'. J j \<Longrightarrow> f j = Inr (x, j') \<Longrightarrow> good x \<and> K x j'" "\<And>e w. keeps G F S J w \<Longrightarrow> E e w"
    "\<And>x. good x \<Longrightarrow> triple (keeps G F S (K x)) (k x) Q E"
  shows "triple (keeps G F S J) (andthen (transact f) k) Q E"
proof (rule triple_then [OF triple_transact [where K = "\<lambda>x j. good x \<and> K x j"]])
  fix x
  show "triple (keeps G F S (\<lambda>j. good x \<and> K x j)) (k x) Q E"
    by (rule triple_fact [where b = "good x"], simp add: keeps_conj, rule triple_weaken [OF assms(3)])
      (auto simp: keeps_conj)
qed (use assms in auto)

text \<open>Two properties of one run.\<close>

lemma triple_conj:
  assumes "triple P m Q E" "triple P' m Q' E'"
  shows "triple (\<lambda>w. P w \<and> P' w) m (\<lambda>x w. Q x w \<and> Q' x w) (\<lambda>e w. E e w \<and> E' e w)"
proof (rule tripleI)
  fix w
  assume P: "P w \<and> P' w"
  obtain r w' where m: "m w = (r, w')" by (cases "m w")
  show "case m w of (Inr x, w') \<Rightarrow> Q x w' \<and> Q' x w' | (Inl e, w') \<Rightarrow> E e w' \<and> E' e w'"
    using P m tripleD [OF assms(1)] tripleD [OF assms(2)] by (cases r) auto
qed

text \<open>Unlinking a file nobody asked to keep.\<close>

lemma triple_unlink_other:
  "triple (\<lambda>w. keeps G None {} J w \<and> (\<forall>f. file_at w p = Some f \<longrightarrow> f \<notin> G)) (os_unlink p) (\<lambda>_. keeps G None {} J) (\<lambda>_. keeps G None {} J)"
  unfolding os_unlink_def
proof (rule triple_effect)
  have "keeps G None {} J (drop_name p w)" if k: "keeps G None {} J w" and f: "file_at w p = Some f" "f \<notin> G" for w f
  proof -
    have "\<exists>q. file_at (drop_name p w) q = Some g" if g: "g \<in> G" for g
    proof -
      obtain q where "file_at w q = Some g" using keeps_named [OF k g] ..
      with f g have "file_at (drop_name p w) q = Some g" by auto
      then show ?thesis ..
    qed
    then show ?thesis using k fs_ok_drop [of w p] by (simp add: keeps_def del: file_at_drop)
  qed
  then show "triple (\<lambda>w. keeps G None {} J w \<and> (\<forall>f. file_at w p = Some f \<longrightarrow> f \<notin> G))
     (\<lambda>w. if file_at w p = None then (Inl OsFailure, w) else (Inr (), drop_name p w)) (\<lambda>_. keeps G None {} J) (\<lambda>_. keeps G None {} J)"
    by (auto simp: triple_def)
qed (auto simp: steady_def keeps_def)

text \<open>A new file has an inode no file has.\<close>

definition unused_inode :: "stored_file \<Rightarrow> 'j durable \<Rightarrow> bool" where
  "unused_inode f w \<longleftrightarrow> \<not> list_ex (\<lambda>(_, g). same_inode f g) (w_files w)"

lemma unused_inode_at: "unused_inode f w \<Longrightarrow> file_at w q = Some g \<Longrightarrow> \<not> same_inode f g"
  using map_of_SomeD [of "w_files w" q g] by (auto simp: unused_inode_def file_at_def list_ex_iff)

lemma steady_unused [simp]: "steady (unused_inode f)"
  by (simp add: steady_def unused_inode_def)

lemma triple_unused_mkdir: "triple (unused_inode f) (os_mkdir p) (\<lambda>_. unused_inode f) (\<lambda>_. unused_inode f)"
  unfolding os_mkdir_def by (rule triple_effect) (auto simp: triple_def unused_inode_def)

lemma triple_os_create:
  "triple (\<lambda>w. keeps G None {} J w \<and> unused_inode f w) (os_create_file p f) (\<lambda>_. keeps G (Some f) {p} J) (\<lambda>_. keeps G None {} J)"
  unfolding os_create_file_def
proof (rule triple_effect)
  have "keeps G (Some f) {p} J (bind_name p f w)" if k: "keeps G None {} J w" and u: "unused_inode f w" and b: "can_bind w p" for w
  proof -
    have "keeps G None {} J (bind_name p f w)"
      by (rule keeps_bind [OF k can_bind_absent [OF b]]) (use b unused_inode_at [OF u] in \<open>auto simp: can_bind_def\<close>)
    then show ?thesis by (simp add: keeps_def)
  qed
  then show "triple (\<lambda>w. keeps G None {} J w \<and> unused_inode f w)
     (\<lambda>w. if \<not> can_bind w p then (Inl OsFailure, w) else (Inr (), bind_name p f w)) (\<lambda>_. keeps G (Some f) {p} J) (\<lambda>_. keeps G None {} J)"
    by (auto simp: triple_def)
qed (auto intro: steady_conj)

text \<open>What a name can hold while files are moved away from it.\<close>

definition holds_only :: "path \<Rightarrow> stored_file \<Rightarrow> 'j durable \<Rightarrow> bool" where
  "holds_only p f w \<longleftrightarrow> (\<forall>g. file_at w p = Some g \<longrightarrow> g = f)"

lemma steady_holds_only [simp]: "steady (holds_only p f)"
  by (simp add: steady_def holds_only_def)

lemma triple_holds_only:
  "triple (holds_only p f) (os_create_file p f) (\<lambda>_. holds_only p f) (\<lambda>_. holds_only p f)"
  "triple (holds_only p f) (os_unlink q) (\<lambda>_. holds_only p f) (\<lambda>_. holds_only p f)"
  "p \<noteq> q \<Longrightarrow> triple (holds_only p f) (os_link p q) (\<lambda>_. holds_only p f) (\<lambda>_. holds_only p f)"
  "p \<noteq> q \<Longrightarrow> triple (holds_only p f) (rename_noreplace p q) (\<lambda>_. holds_only p f) (\<lambda>_. holds_only p f)"
  unfolding os_create_file_def os_unlink_def os_link_def rename_noreplace_def
  by (rule triple_effect; auto simp: triple_def holds_only_def split: option.splits)+

end
