(* ===== verification/Chapter_Quarantine.thy ===== *)
theory Chapter_Quarantine
  imports Durable_World
begin

text \<open>
  \<^verbatim>\<open>src/app/volume_chapter_cleanup.py\<close>: the journaled quarantine of loose chapters that a merged
  volume is proven to hold, its restore and its recovery. Each system call and each transaction
  is one effect of \<open>Durable_World\<close>. The chapter columns outside the guard, time stamps and log
  lines are not represented; the fence of other journals is a list of series.
\<close>

subsection \<open>The journal and the tables\<close>

datatype q_state = Reserved | Captured | Committed | Quarantined | RolledBack | Restoring | Restored

definition active_states :: "q_state list" where
  "active_states = [Reserved, Captured, Committed, Restoring]"

text \<open>A chapter row: the columns a step changes, and the other columns of the guard verbatim.\<close>

record chapter_entry =
  ce_id :: int
  ce_series :: int
  ce_volume :: "int option"
  ce_status :: string
  ce_path :: "path option"
  ce_size :: "int option"
  ce_quality :: "string option"
  ce_imported :: "string option"
  ce_rest :: "string option list"

record q_row =
  q_id :: int
  q_token :: string
  q_series :: int
  q_volume :: int
  q_chapter :: int
  q_assembly :: int
  q_suwayomi :: int
  q_state :: q_state
  q_original :: path
  q_volume_path :: path
  q_carrier :: "path option"
  q_target :: "path option"
  q_file :: file_id
  q_guard :: chapter_entry
  q_diagnostic :: string

record provenance_row =
  pv_id :: int
  pv_series :: int
  pv_chapter :: int
  pv_path :: path
  pv_file :: file_id
  pv_context :: "int \<times> string \<times> int \<times> string"
  pv_suwayomi :: int

record volume_entry =
  vo_id :: int
  vo_series :: int
  vo_status :: string
  vo_path :: "path option"

record assembly_entry =
  ae_id :: int
  ae_volume :: int
  ae_path :: path
  ae_file :: file_id
  ae_context :: "int \<times> string \<times> int \<times> string"
  ae_chapters :: "(int \<times> nat \<times> nat \<times> string) list"

record q_db =
  qd_rows :: "q_row list"
  qd_chapters :: "chapter_entry list"
  qd_provenance :: "provenance_row list"
  qd_volumes :: "volume_entry list"
  qd_assemblies :: "assembly_entry list"
  qd_fenced :: "int list"
  qd_next :: int
  qd_enabled :: bool

definition active_row :: "q_row \<Rightarrow> bool" where
  "active_row r \<longleftrightarrow> q_state r \<in> set active_states"

definition active_for_series :: "int \<Rightarrow> q_db \<Rightarrow> bool" where
  "active_for_series s db = list_ex (\<lambda>r. q_series r = s \<and> active_row r) (qd_rows db)"

definition load_row :: "int \<Rightarrow> (q_db, q_row option) act" where
  "load_row i = effect SqlFailure (gets (\<lambda>w. find (\<lambda>r. q_id r = i) (qd_rows (w_journal w))))"

text \<open>\<open>_advance\<close>: a compare-and-set of the row from its loaded state.\<close>

definition cas_row :: "q_row \<Rightarrow> (q_row \<Rightarrow> q_row) \<Rightarrow> q_db \<Rightarrow> failure + q_db" where
  "cas_row row f db =
     (let hit = (\<lambda>r. q_id r = q_id row \<and> q_token r = q_token row \<and> q_state r = q_state row)
      in if length (filter hit (qd_rows db)) \<noteq> 1 then Inl (Refused ''row changed underneath'')
         else Inr (db\<lparr>qd_rows := map (\<lambda>r. if hit r then f r else r) (qd_rows db)\<rparr>))"

definition advance :: "q_row \<Rightarrow> (q_row \<Rightarrow> q_row) \<Rightarrow> (q_db, q_row) act" where
  "advance row f = transact (\<lambda>db. map_sum id (\<lambda>db'. (f row, db')) (cas_row row f db))"

definition block_row :: "q_row \<Rightarrow> string \<Rightarrow> (q_db, unit) act" where
  "block_row row d = transact (\<lambda>db. Inr ((), db\<lparr>qd_rows :=
     map (\<lambda>r. if q_id r = q_id row \<and> q_token r = q_token row then r\<lparr>q_diagnostic := d\<rparr> else r) (qd_rows db)\<rparr>))"

definition set_state :: "q_state \<Rightarrow> q_row \<Rightarrow> q_row" where
  "set_state s r = r\<lparr>q_state := s\<rparr>"

subsection \<open>File steps\<close>

definition carrier_prefix :: string where
  "carrier_prefix = ''.mangarr-claim-cleanup-''"

definition quarantine_dir_name :: string where
  "quarantine_dir_name = ''.mangarr-quarantine''"

definition name_max :: nat where
  "name_max = 255"

definition fs_length :: "string \<Rightarrow> nat" where
  "fs_length s = sum_list (map (\<lambda>c. if (of_char c :: nat) < 128 then 1 else 2) s)"

definition move_noreplace :: "path \<Rightarrow> path \<Rightarrow> (q_db, unit) act" where
  "move_noreplace src dst =
     andthen (pin (dir_of src)) (\<lambda>_.
     andthen (pin (dir_of dst)) (\<lambda>_.
     andthen (rename_noreplace src dst) (\<lambda>supported.
     andthen (run_if (\<not> supported)
        (andthen (os_link src dst) (\<lambda>_.
         andthen (os_stat src) (\<lambda>a.
         andthen (os_stat dst) (\<lambda>b.
           if \<not> same_inode a b then throw (Refused ''link fallback produced a different file'') else os_unlink src))))) (\<lambda>_.
     andthen (os_fsync (dir_of dst)) (\<lambda>_. os_fsync (dir_of src))))))"

definition drop_alias :: "path \<Rightarrow> path \<Rightarrow> file_id option \<Rightarrow> (q_db, unit) act" where
  "drop_alias kept dropped expected =
     andthen (pin (dir_of kept)) (\<lambda>_.
     andthen (pin (dir_of dropped)) (\<lambda>_.
     andthen (os_stat kept) (\<lambda>a.
     andthen (os_stat dropped) (\<lambda>b.
       if \<not> f_reg a \<or> \<not> f_reg b \<or> \<not> same_inode a b then throw (Refused ''not the same file'')
       else
         andthen (case expected of None \<Rightarrow> ret () | Some e \<Rightarrow>
            andthen (hash_id kept) (\<lambda>i. if i \<noteq> e then throw (Refused ''file content changed'') else ret ())) (\<lambda>_.
         andthen (os_unlink dropped) (\<lambda>_. os_fsync (dir_of dropped)))))))"

definition verify_at :: "path \<Rightarrow> file_id \<Rightarrow> (q_db, unit) act" where
  "verify_at p expected =
     andthen (pin (dir_of p)) (\<lambda>_.
     andthen (hash_id p) (\<lambda>i. if i \<noteq> expected then throw (Refused ''content changed'') else ret ()))"

definition private_dir :: "path \<Rightarrow> (q_db, unit) act" where
  "private_dir p = effect OsFailure (\<lambda>w. case map_of (w_dirs w) p of
     None \<Rightarrow> (Inl OsFailure, w) | Some private \<Rightarrow> if private then (Inr (), w) else (Inl (Refused ''not a private directory''), w))"

text \<open>
  \<open>_quarantine_target\<close>: the name keeps its extension and loses the end of its stem when it would
  be longer than \<open>name_max\<close> bytes.
\<close>

fun shorten :: "string \<Rightarrow> string \<Rightarrow> string" where
  "shorten [] tail = ''~'' @ tail"
| "shorten (c # stem) tail =
     (if fs_length ((c # stem) @ ''~'' @ tail) > name_max then shorten (butlast (c # stem)) tail else (c # stem) @ ''~'' @ tail)"

definition target_name :: "string \<Rightarrow> int \<Rightarrow> string" where
  "target_name base row_id =
     (let suffix = ''.'' @ dec_int row_id
      in if fs_length (base @ suffix) > name_max then
           (let (stem, ext) = splitext base
            in if fs_length (ext @ suffix) > name_max div 2 then shorten base suffix else shorten stem (ext @ suffix))
         else base @ suffix)"

definition quarantine_target :: "path \<Rightarrow> int \<Rightarrow> int \<Rightarrow> path" where
  "quarantine_target original series_id row_id =
     dir_of (dir_of original) @ [quarantine_dir_name, dec_int series_id, target_name (base_of original) row_id]"

definition quarantine_folder :: "path \<Rightarrow> int \<Rightarrow> path" where
  "quarantine_folder series_dir series_id = dir_of series_dir @ [quarantine_dir_name, dec_int series_id]"

definition ensure_private :: "path \<Rightarrow> (q_db, unit) act" where
  "ensure_private p =
     andthen (gets (\<lambda>w. is_dir w p)) (\<lambda>present.
     andthen (run_if (\<not> present) (andthen (os_mkdir p) (\<lambda>_. os_fsync (dir_of p)))) (\<lambda>_. private_dir p))"

definition quarantine_dir :: "path \<Rightarrow> int \<Rightarrow> (q_db, path) act" where
  "quarantine_dir series_dir series_id =
     (let base = dir_of series_dir
      in andthen (pin base) (\<lambda>_.
         andthen (ensure_private (base @ [quarantine_dir_name])) (\<lambda>_.
         andthen (ensure_private (quarantine_folder series_dir series_id)) (\<lambda>_. ret (quarantine_folder series_dir series_id)))))"

text \<open>\<open>_probe\<close> with its random token and the inode the new file gets.\<close>

definition probe_file :: "int \<Rightarrow> stored_file" where
  "probe_file ino = \<lparr>f_dev = 0, f_ino = ino, f_reg = True, f_size = 5, f_mtime = 0, f_sha = [], f_archive = None\<rparr>"

definition probe :: "string \<Rightarrow> int \<Rightarrow> path \<Rightarrow> path \<Rightarrow> (q_db, unit) act" where
  "probe token ino series_dir quarantine =
     (let carrier = series_dir @ [carrier_prefix @ ''probe-'' @ token];
          destination = quarantine @ [''.probe-'' @ token]
      in andthen (pin series_dir) (\<lambda>_.
         andthen (os_mkdir carrier) (\<lambda>_.
         ensure
           (andthen (pin carrier) (\<lambda>_.
            andthen (os_create_file (carrier @ [''probe'']) (probe_file ino)) (\<lambda>_.
            andthen (move_noreplace (carrier @ [''probe'']) destination) (\<lambda>_.
            andthen (pin quarantine) (\<lambda>_. os_unlink destination)))))
           (andthen (pin carrier) (\<lambda>_.
            andthen (gets (\<lambda>w. file_at w (carrier @ [''probe'']) \<noteq> None)) (\<lambda>present.
            andthen (run_if present (os_unlink (carrier @ [''probe'']))) (\<lambda>_.
            andthen (pin series_dir) (\<lambda>_. os_rmdir carrier))))))))"

definition carrier_file :: "q_row \<Rightarrow> path option" where
  "carrier_file row = map_option (\<lambda>c. c @ [base_of (q_original row)]) (q_carrier row)"

definition remove_carrier :: "q_row \<Rightarrow> (q_db, unit) act" where
  "remove_carrier row =
     (case q_carrier row of None \<Rightarrow> ret ()
      | Some c \<Rightarrow>
          catch (andthen (pin (dir_of c)) (\<lambda>_. andthen (os_rmdir c) (\<lambda>_. os_fsync (dir_of c))))
            (\<lambda>e. case e of OsFailure \<Rightarrow> ret () | Refused _ \<Rightarrow> ret () | _ \<Rightarrow> throw e))"

subsection \<open>Steps of a row\<close>

definition carrier_path :: "q_row \<Rightarrow> path" where
  "carrier_path row = dir_of (q_original row) @ [carrier_prefix @ dec_int (q_id row) @ ''-'' @ take 12 (q_token row)]"

definition capture :: "q_row \<Rightarrow> (q_db, q_row) act" where
  "capture row =
     (let original = q_original row; parent = dir_of original; carrier = carrier_path row;
          captured = carrier @ [base_of original]
      in andthen (advance row (\<lambda>r. r\<lparr>q_carrier := Some carrier\<rparr>)) (\<lambda>row1.
         andthen (pin parent) (\<lambda>_.
         andthen verify_guard (\<lambda>_.
         andthen (os_mkdir carrier) (\<lambda>_.
         andthen (os_fsync parent) (\<lambda>_.
         andthen (private_dir carrier) (\<lambda>_.
         andthen (os_stat original) (\<lambda>f.
         if \<not> f_reg f \<or> (f_ino f, f_size f, f_mtime f) \<noteq> (fi_ino (q_file row), fi_size (q_file row), fi_mtime (q_file row))
         then throw (Refused ''loose file changed before capture'')
         else
           andthen verify_guard (\<lambda>_.
           andthen (os_rename original captured) (\<lambda>_.
           andthen (os_fsync carrier) (\<lambda>_.
           andthen (os_fsync parent) (\<lambda>_.
           andthen (hash_id captured) (\<lambda>i.
           if i \<noteq> q_file row then throw (Refused ''captured file does not match the verified loose file'')
           else advance row1 (set_state Captured))))))))))))))"

definition volume_settled :: "q_row \<Rightarrow> q_db \<Rightarrow> bool" where
  "volume_settled row db \<longleftrightarrow>
     list_ex (\<lambda>v. vo_id v = q_volume row \<and> vo_status v = ''downloaded'' \<and> vo_path v = Some (q_volume_path row)) (qd_volumes db)
     \<and> list_ex (\<lambda>a. ae_id a = q_assembly row \<and> ae_volume a = q_volume row \<and> ae_path a = q_volume_path row) (qd_assemblies db)"

text \<open>The commit transaction: the provenance row goes, the chapter points at the volume.\<close>

definition commit_db :: "q_row \<Rightarrow> q_db \<Rightarrow> failure + q_row option \<times> q_db" where
  "commit_db row db =
     (if \<not> volume_settled row db then Inr (None, db)
      else
        let gone = (\<lambda>p. pv_chapter p = q_chapter row \<and> pv_path p = q_original row \<and> fi_sha (pv_file p) = fi_sha (q_file row));
            hit = (\<lambda>c. c = q_guard row)
        in if length (filter gone (qd_provenance db)) \<noteq> 1 \<or> length (filter hit (qd_chapters db)) \<noteq> 1 then Inr (None, db)
           else
             map_sum id (\<lambda>db'. (Some (set_state Committed row), db'))
               (cas_row row (set_state Committed)
                 (db\<lparr>qd_provenance := filter (\<lambda>p. \<not> gone p) (qd_provenance db),
                     qd_chapters := map (\<lambda>c. if hit c then c\<lparr>ce_status := ''downloaded'', ce_path := Some (q_volume_path row),
                       ce_size := None, ce_quality := None, ce_imported := None\<rparr> else c) (qd_chapters db)\<rparr>)))"

text \<open>The volume rehashed against its record; every file-system doubt is \<open>False\<close>.\<close>

definition volume_proven :: "q_row \<Rightarrow> assembly_entry \<Rightarrow> (q_db, bool) act" where
  "volume_proven row a =
     catch (andthen (pin (dir_of (q_volume_path row))) (\<lambda>_. andthen (hash_id (q_volume_path row)) (\<lambda>i. ret (i = ae_file a))))
       (\<lambda>e. case e of OsFailure \<Rightarrow> ret False | Refused _ \<Rightarrow> ret False | _ \<Rightarrow> throw e)"

definition commit_row :: "q_row \<Rightarrow> (q_db, q_row option) act" where
  "commit_row row =
     andthen (effect SqlFailure (gets (\<lambda>w. find (\<lambda>a. ae_id a = q_assembly row \<and> ae_volume a = q_volume row
        \<and> ae_path a = q_volume_path row) (qd_assemblies (w_journal w))))) (\<lambda>found.
     case found of None \<Rightarrow> ret None
     | Some a \<Rightarrow>
         andthen (volume_proven row a) (\<lambda>ok.
         if \<not> ok then ret None
         else andthen verify_guard (\<lambda>_. transact (commit_db row))))"

definition transfer :: "q_row \<Rightarrow> (q_db, unit) act" where
  "transfer row =
     (let expected = q_file row; source = carrier_file row
      in andthen (quarantine_dir (dir_of (q_original row)) (q_series row)) (\<lambda>folder.
         andthen (case q_target row of
             Some t \<Rightarrow> ret row
           | None \<Rightarrow> advance row (\<lambda>r. r\<lparr>q_target := Some (quarantine_target (q_original row) (q_series row) (q_id row))\<rparr>)) (\<lambda>row1.
         let destination = the (q_target row1)
         in if dir_of destination \<noteq> folder then throw (Refused ''quarantine path is not in the quarantine folder'')
            else
              andthen (gets (\<lambda>w. (case source of None \<Rightarrow> False | Some s \<Rightarrow> lexists w s, lexists w destination,
                  stat_matches w destination expected))) (\<lambda>(present, taken, same).
              andthen
                (if taken then
                   (if \<not> same then throw (Refused ''quarantine name holds another file'')
                    else run_if present (andthen verify_guard (\<lambda>_. drop_alias destination (the source) (Some expected))))
                 else if \<not> present then throw (Refused ''captured file is missing'')
                 else andthen (verify_at (the source) expected) (\<lambda>_.
                      andthen verify_guard (\<lambda>_. move_noreplace (the source) destination))) (\<lambda>_.
              andthen (verify_at destination expected) (\<lambda>_.
              andthen (remove_carrier row1) (\<lambda>_.
              andthen (advance row1 (\<lambda>r. r\<lparr>q_state := Quarantined, q_diagnostic := []\<rparr>)) (\<lambda>_. ret ()))))))))"

definition rollback :: "q_row \<Rightarrow> (q_db, unit) act" where
  "rollback row =
     (let original = q_original row; source = carrier_file row
      in andthen (gets (\<lambda>w. (case source of None \<Rightarrow> False | Some s \<Rightarrow> lexists w s, lexists w original,
            case source of None \<Rightarrow> False | Some s \<Rightarrow>
              (case (file_at w s, file_at w original) of (Some a, Some b) \<Rightarrow> same_inode a b | _ \<Rightarrow> False)))) (\<lambda>(held, taken, same).
         andthen
           (if held then
              (if taken then
                 (if \<not> same then throw (Refused ''original name is taken'')
                  else andthen verify_guard (\<lambda>_. drop_alias original (the source) None))
               else andthen verify_guard (\<lambda>_. move_noreplace (the source) original))
            else if \<not> taken then throw (Refused ''loose file is in neither place'')
            else ret ()) (\<lambda>_.
         andthen (remove_carrier row) (\<lambda>_.
         andthen (advance row (set_state RolledBack)) (\<lambda>_. ret ())))))"

datatype outcome = OQuarantined | ORolledBack | ORestored | OBlocked | OTerminal

definition refuse_restore :: "q_row \<Rightarrow> string \<Rightarrow> (q_db, outcome) act" where
  "refuse_restore row reason =
     andthen (advance row (\<lambda>r. r\<lparr>q_state := Quarantined, q_diagnostic := ''restore refused: '' @ reason\<rparr>)) (\<lambda>_. ret OTerminal)"

definition restore_db :: "q_row \<Rightarrow> q_db \<Rightarrow> failure + unit \<times> q_db" where
  "restore_db row db =
     (let owner = find (\<lambda>v. vo_id v = q_volume row \<and> vo_status v = ''downloaded'') (qd_volumes db);
          hit = (\<lambda>c. ce_id c = q_chapter row \<and> ce_status c = ''downloaded''
             \<and> (case owner of None \<Rightarrow> False | Some v \<Rightarrow> sql_eq (ce_path c) (vo_path v)));
          chapters = map (\<lambda>c. if hit c then c\<lparr>ce_path := Some (q_original row), ce_size := Some (fi_size (q_file row)),
             ce_quality := Some ''cbz'', ce_imported := Some ''now''\<rparr> else c) (qd_chapters db);
          note = (if list_ex hit (qd_chapters db) then [] else ''chapter had changed; left for rescan to adopt'')
      in map_sum id (\<lambda>db'. ((), db'))
           (cas_row row (\<lambda>r. r\<lparr>q_state := Restored, q_diagnostic := note\<rparr>) (db\<lparr>qd_chapters := chapters\<rparr>)))"

definition reason_of :: "failure \<Rightarrow> string" where
  "reason_of e = (case e of Refused s \<Rightarrow> s | OsFailure \<Rightarrow> ''os error'' | SqlFailure \<Rightarrow> ''database error''
     | LockLost \<Rightarrow> ''lock lost'' | Crashed \<Rightarrow> ''crashed'')"

text \<open>\<open>Some outcome\<close> leaves \<open>_finish_restore\<close> early.\<close>

definition move_back :: "q_row \<Rightarrow> bool \<Rightarrow> (q_db, outcome option) act" where
  "move_back row source_present =
     (let expected = q_file row; source = the (q_target row); destination = q_original row
      in andthen (gets (\<lambda>w. (lexists w destination, stat_matches w destination expected))) (\<lambda>(taken, same).
         if taken \<and> same then
           andthen (run_if source_present (andthen verify_guard (\<lambda>_. drop_alias destination source (Some expected)))) (\<lambda>_. ret None)
         else if taken then andthen (refuse_restore row ''original name is taken'') (\<lambda>r. ret (Some r))
         else if \<not> source_present then andthen (refuse_restore row ''quarantined file is missing'') (\<lambda>r. ret (Some r))
         else
           catch
             (andthen (pin (dir_of source)) (\<lambda>_.
              andthen (hash_id source) (\<lambda>i.
              if i \<noteq> expected then andthen (refuse_restore row ''quarantined file changed'') (\<lambda>r. ret (Some r))
              else andthen verify_guard (\<lambda>_. andthen (move_noreplace source destination) (\<lambda>_. ret None)))))
             (\<lambda>e. case e of
                LockLost \<Rightarrow> throw e
              | SqlFailure \<Rightarrow> throw e
              | _ \<Rightarrow> andthen (gets (\<lambda>w. lexists w destination)) (\<lambda>started.
                    if started then throw e else andthen (refuse_restore row (reason_of e)) (\<lambda>r. ret (Some r))))))"

definition finish_restore :: "q_row \<Rightarrow> (q_db, outcome) act" where
  "finish_restore row =
     (let expected = q_file row; source = the (q_target row); destination = q_original row
      in andthen (gets (\<lambda>w. (lexists w source, lexists w destination))) (\<lambda>(source_present, taken).
         andthen
           (catch (andthen (pin (dir_of destination)) (\<lambda>_. ret None))
              (\<lambda>e. case e of
                 Refused s \<Rightarrow> if source_present \<and> \<not> taken then andthen (refuse_restore row s) (\<lambda>r. ret (Some r)) else throw e
               | _ \<Rightarrow> throw e)) (\<lambda>early.
         case early of Some r \<Rightarrow> ret r
         | None \<Rightarrow>
             andthen (move_back row source_present) (\<lambda>early2.
             case early2 of Some r \<Rightarrow> ret r
             | None \<Rightarrow>
                 andthen verify_guard (\<lambda>_.
                 andthen (verify_at destination expected) (\<lambda>_.
                 andthen (transact (restore_db row)) (\<lambda>_. ret ORestored)))))))"

text \<open>
  \<open>_settle\<close> with the row's durable state; the steps hand on the row they have advanced.
\<close>

definition settle_body :: "bool \<Rightarrow> q_row \<Rightarrow> (q_db, outcome) act" where
  "settle_body resume row =
     andthen (if q_state row = Reserved \<and> \<not> resume then capture row else ret row) (\<lambda>row1.
     if q_state row1 \<in> {Reserved, Captured} \<and> resume then andthen (rollback row1) (\<lambda>_. ret ORolledBack)
     else if q_state row1 = Captured then
       andthen (commit_row row1) (\<lambda>done.
       case done of
         None \<Rightarrow> andthen (rollback row1) (\<lambda>_. ret ORolledBack)
       | Some row2 \<Rightarrow> andthen (transfer row2) (\<lambda>_. ret OQuarantined))
     else if q_state row1 = Committed then andthen (transfer row1) (\<lambda>_. ret OQuarantined)
     else if q_state row1 = Restoring then finish_restore row1
     else ret OTerminal)"

definition settle :: "bool \<Rightarrow> q_row \<Rightarrow> (q_db, outcome) act" where
  "settle resume row =
     catch (settle_body resume row)
       (\<lambda>e. if e = LockLost then throw e
        else
          andthen (load_row (q_id row)) (\<lambda>durable.
          let now = (case durable of Some r \<Rightarrow> r | None \<Rightarrow> row)
          in if q_state now \<in> {Reserved, Captured} \<and> \<not> resume then
               catch (andthen (rollback now) (\<lambda>_. ret ORolledBack))
                 (\<lambda>undo. if undo = LockLost then throw undo
                    else andthen (block_row now (reason_of undo)) (\<lambda>_. ret OBlocked))
             else andthen (block_row now (reason_of e)) (\<lambda>_. ret OBlocked)))"

subsection \<open>Eligibility\<close>

record loose_candidate =
  cd_chapter :: chapter_entry
  cd_provenance :: int
  cd_path :: path
  cd_file :: file_id
  cd_assembly :: int
  cd_volume :: int
  cd_volume_path :: path
  cd_suwayomi :: int

type_synonym page_entry = "int \<times> nat \<times> nat \<times> string"

definition provenance_matches :: "int \<Rightarrow> assembly_entry \<Rightarrow> page_entry \<Rightarrow> provenance_row \<Rightarrow> bool" where
  "provenance_matches series_id a entry p \<longleftrightarrow>
     pv_series p = series_id \<and> pv_suwayomi p = fst entry \<and> pv_context p = ae_context a"

definition recorded_rows :: "int \<Rightarrow> assembly_entry \<Rightarrow> page_entry \<Rightarrow> q_db \<Rightarrow> (provenance_row \<times> chapter_entry) list" where
  "recorded_rows series_id a entry db =
     concat (map (\<lambda>p. map (\<lambda>c. (p, c)) (filter (\<lambda>c. ce_id c = pv_chapter p) (qd_chapters db)))
       (filter (provenance_matches series_id a entry) (qd_provenance db)))"

text \<open>The database half: what a recorded chapter must still say.\<close>

definition recorded_chapter ::
  "int \<Rightarrow> int \<Rightarrow> path \<Rightarrow> assembly_entry \<Rightarrow> q_db \<Rightarrow> page_entry \<Rightarrow> string + provenance_row \<times> chapter_entry" where
  "recorded_chapter series_id volume_id volume_path a db entry =
     (case recorded_rows series_id a entry db of
        [(p, c)] \<Rightarrow>
          if ce_status c \<noteq> ''downloaded'' \<or> ce_path c \<noteq> Some (pv_path p) then Inl ''chapter no longer points at its recorded loose file''
          else if ce_volume c \<noteq> Some volume_id then Inl ''chapter does not belong to this volume''
          else if pv_path p = volume_path then Inl ''chapter already points at the volume''
          else Inr (p, c)
      | _ \<Rightarrow> Inl ''no single provenance record'')"

definition loose_digest :: "(bytes \<Rightarrow> string) \<Rightarrow> path \<Rightarrow> (q_db, string) act" where
  "loose_digest sha p =
     andthen (open_archive p) (\<lambda>a.
     let names = image_members (map zm_name a)
     in if names = [] then throw (Refused ''loose chapter has no pages'') else from_sum (members_digest sha a names))"

text \<open>The file half: the loose pages, and the volume's page range, have the recorded digest.\<close>

definition verify_candidate ::
  "(bytes \<Rightarrow> string) \<Rightarrow> archive \<Rightarrow> (nat \<times> string) list \<Rightarrow> page_entry \<Rightarrow> provenance_row \<Rightarrow> (q_db, string option) act" where
  "verify_candidate sha volume pages entry p =
     (case entry of (_, first_page, last_page, digest) \<Rightarrow>
     catch
       (andthen (hash_id (pv_path p)) (\<lambda>i.
        if i \<noteq> pv_file p then ret (Some ''loose file no longer matches its provenance record'')
        else
          andthen (loose_digest sha (pv_path p)) (\<lambda>loose.
          andthen (gets (\<lambda>w. stat_matches w (pv_path p) (pv_file p))) (\<lambda>same.
          if \<not> same then ret (Some ''loose file changed while its pages were read'')
          else
            andthen (from_sum (case range_members pages first_page last_page of
                Inl e \<Rightarrow> Inl e | Inr names \<Rightarrow> members_digest sha volume names)) (\<lambda>in_volume.
            ret (if loose \<noteq> digest \<or> in_volume \<noteq> digest then Some ''loose pages differ from the volume's page range'' else None))))))
       (\<lambda>e. case e of OsFailure \<Rightarrow> ret (Some ''not verified'') | Refused _ \<Rightarrow> ret (Some ''not verified'') | _ \<Rightarrow> throw e))"

fun verify_candidates ::
  "(bytes \<Rightarrow> string) \<Rightarrow> archive \<Rightarrow> (nat \<times> string) list \<Rightarrow> path \<Rightarrow> assembly_entry
     \<Rightarrow> (page_entry \<times> provenance_row \<times> chapter_entry) list \<Rightarrow> (q_db, loose_candidate list \<times> (int \<times> string) list) act" where
  "verify_candidates sha volume pages volume_path a [] = ret ([], [])"
| "verify_candidates sha volume pages volume_path a ((entry, p, c) # rest) =
     andthen (verify_candidate sha volume pages entry p) (\<lambda>verdict.
     andthen (verify_candidates sha volume pages volume_path a rest) (\<lambda>(found, skipped).
     ret (case verdict of
       Some reason \<Rightarrow> (found, (fst entry, reason) # skipped)
     | None \<Rightarrow> (\<lparr>cd_chapter = c, cd_provenance = pv_id p, cd_path = pv_path p, cd_file = pv_file p, cd_assembly = ae_id a,
         cd_volume = ae_volume a, cd_volume_path = volume_path, cd_suwayomi = fst entry\<rparr> # found, skipped))))"

definition inspect_db :: "int \<Rightarrow> int \<Rightarrow> q_db \<Rightarrow> string + path \<times> assembly_entry" where
  "inspect_db series_id volume_id db =
     (case find (\<lambda>v. vo_id v = volume_id \<and> vo_series v = series_id) (qd_volumes db) of
        None \<Rightarrow> Inl ''volume is not downloaded''
      | Some v \<Rightarrow>
          (case vo_path v of
             None \<Rightarrow> Inl ''volume is not downloaded''
           | Some p \<Rightarrow>
               if vo_status v \<noteq> ''downloaded'' then Inl ''volume is not downloaded''
               else (case find (\<lambda>a. ae_volume a = volume_id \<and> ae_path a = p) (qd_assemblies db) of
                       None \<Rightarrow> Inl ''no assembly record for this volume file'' | Some a \<Rightarrow> Inr (p, a))))"

definition inspect_volume ::
  "(bytes \<Rightarrow> string) \<Rightarrow> int \<Rightarrow> int \<Rightarrow> (q_db, string + loose_candidate list \<times> (int \<times> string) list) act" where
  "inspect_volume sha series_id volume_id =
     andthen (effect SqlFailure (gets w_journal)) (\<lambda>db.
     case inspect_db series_id volume_id db of
       Inl reason \<Rightarrow> ret (Inl reason)
     | Inr (volume_path, a) \<Rightarrow>
         (let verdicts = map (\<lambda>e. (e, recorded_chapter series_id volume_id volume_path a db e)) (ae_chapters a);
              skipped = List.map_filter (\<lambda>(e, v). case v of Inl reason \<Rightarrow> Some (fst e, reason) | Inr _ \<Rightarrow> None) verdicts;
              found = List.map_filter (\<lambda>(e, v). case v of Inl _ \<Rightarrow> None | Inr (p, c) \<Rightarrow> Some (e, p, c)) verdicts
          in catch
               (andthen (hash_id volume_path) (\<lambda>i.
                if i \<noteq> ae_file a then ret (Inl ''volume file no longer matches its assembly record'')
                else
                  andthen (open_archive volume_path) (\<lambda>volume.
                  andthen (from_sum (volume_pages volume)) (\<lambda>pages.
                  andthen (verify_candidates sha volume pages volume_path a found) (\<lambda>(candidates, refused).
                  andthen (gets (\<lambda>w. stat_matches w volume_path (ae_file a))) (\<lambda>same.
                  ret (if same then Inr (candidates, skipped @ refused) else Inl ''volume file changed while it was read'')))))))
               (\<lambda>e. case e of OsFailure \<Rightarrow> ret (Inl ''volume unreadable'') | Refused _ \<Rightarrow> ret (Inl ''volume unreadable'') | _ \<Rightarrow> throw e)))"

subsection \<open>Operations\<close>

definition fenced :: "int \<Rightarrow> q_db \<Rightarrow> bool" where
  "fenced series_id db \<longleftrightarrow> series_id \<in> set (qd_fenced db) \<or> active_for_series series_id db"

text \<open>\<open>token\<close> is the value of \<open>secrets.token_hex(16)\<close>.\<close>

definition reserve_db :: "string \<Rightarrow> loose_candidate \<Rightarrow> int \<Rightarrow> q_db \<Rightarrow> failure + int option \<times> q_db" where
  "reserve_db token c series_id db =
     (if fenced series_id db then Inr (None, db)
      else if cd_chapter c \<notin> set (qd_chapters db) then Inr (None, db)
      else if \<not> list_ex (\<lambda>p. pv_id p = cd_provenance c \<and> pv_path p = cd_path c \<and> fi_sha (pv_file p) = fi_sha (cd_file c))
                 (qd_provenance db) then Inr (None, db)
      else
        let i = qd_next db;
            row = \<lparr>q_id = i, q_token = token, q_series = series_id, q_volume = cd_volume c, q_chapter = ce_id (cd_chapter c),
              q_assembly = cd_assembly c, q_suwayomi = cd_suwayomi c, q_state = Reserved, q_original = cd_path c,
              q_volume_path = cd_volume_path c, q_carrier = None, q_target = Some (quarantine_target (cd_path c) series_id i),
              q_file = cd_file c, q_guard = cd_chapter c, q_diagnostic = []\<rparr>
        in if \<not> volume_settled row db then Inr (None, db)
           else if length token \<noteq> 32 \<or> token \<in> q_token ` set (qd_rows db)
              \<or> list_ex (\<lambda>r. q_chapter r = q_chapter row \<and> active_row r) (qd_rows db) then Inl SqlFailure
           else Inr (Some i, db\<lparr>qd_rows := qd_rows db @ [row], qd_next := i + 1\<rparr>))"

record summary =
  sm_quarantined :: nat
  sm_skipped :: "(int \<times> string) list"
  sm_refused :: string

text \<open>
  The loop over the candidates. \<open>tokens n\<close> is the token of the \<open>n\<close>-th reservation; a row that
  could not settle is still active, which ends the loop.
\<close>

fun cleanup_rows :: "(nat \<Rightarrow> string) \<Rightarrow> nat \<Rightarrow> int \<Rightarrow> loose_candidate list \<Rightarrow> summary \<Rightarrow> (q_db, summary) act" where
  "cleanup_rows tokens n series_id [] s = ret s"
| "cleanup_rows tokens n series_id (c # cs) s =
     andthen verify_guard (\<lambda>_.
     andthen (transact (reserve_db (tokens n) c series_id)) (\<lambda>reserved.
     case reserved of
       None \<Rightarrow> cleanup_rows tokens (Suc n) series_id cs (s\<lparr>sm_skipped := sm_skipped s @ [(cd_suwayomi c, ''changed before reservation'')]\<rparr>)
     | Some i \<Rightarrow>
         andthen (load_row i) (\<lambda>loaded.
         case loaded of
           None \<Rightarrow> throw (Refused ''assertion'')
         | Some row \<Rightarrow>
             andthen (settle False row) (\<lambda>outcome.
             if outcome = OQuarantined then cleanup_rows tokens (Suc n) series_id cs (s\<lparr>sm_quarantined := Suc (sm_quarantined s)\<rparr>)
             else if outcome = OBlocked then ret s else cleanup_rows tokens (Suc n) series_id cs s))))"

definition cleanup_volume ::
  "(bytes \<Rightarrow> string) \<Rightarrow> (nat \<Rightarrow> string) \<Rightarrow> string \<Rightarrow> int \<Rightarrow> int \<Rightarrow> int \<Rightarrow> (q_db, summary) act" where
  "cleanup_volume sha tokens probe_token probe_ino series_id volume_id =
     (let none = \<lparr>sm_quarantined = 0, sm_skipped = [], sm_refused = []\<rparr>
      in andthen (gets (\<lambda>w. qd_enabled (w_journal w))) (\<lambda>enabled.
         if \<not> enabled then ret none
         else
           andthen (inspect_volume sha series_id volume_id) (\<lambda>found.
           case found of
             Inl reason \<Rightarrow> ret (none\<lparr>sm_skipped := [(0, reason)]\<rparr>)
           | Inr ([], skipped) \<Rightarrow> ret (none\<lparr>sm_skipped := skipped\<rparr>)
           | Inr (c # cs, skipped) \<Rightarrow>
               (let series_dir = dir_of (cd_volume_path c);
                    beside = filter (\<lambda>d. dir_of (cd_path d) = series_dir) (c # cs);
                    away = filter (\<lambda>d. dir_of (cd_path d) \<noteq> series_dir) (c # cs);
                    s = none\<lparr>sm_skipped := skipped @ map (\<lambda>d. (cd_suwayomi d, ''loose file is not beside its volume'')) away\<rparr>
                in if beside = [] then ret s
                   else
                     andthen
                       (catch (andthen verify_guard (\<lambda>_. andthen (quarantine_dir series_dir series_id)
                            (\<lambda>folder. andthen (probe probe_token probe_ino series_dir folder) (\<lambda>_. ret None))))
                          (\<lambda>e. case e of OsFailure \<Rightarrow> ret (Some (reason_of e)) | Refused _ \<Rightarrow> ret (Some (reason_of e)) | _ \<Rightarrow> throw e))
                       (\<lambda>refusal. case refusal of
                          Some r \<Rightarrow> ret (s\<lparr>sm_refused := r\<rparr>)
                        | None \<Rightarrow> cleanup_rows tokens 0 series_id beside s)))))"

definition restore_begin :: "int \<Rightarrow> int option \<Rightarrow> q_db \<Rightarrow> failure + (outcome + q_row) \<times> q_db" where
  "restore_begin row_id series db =
     (case find (\<lambda>r. q_id r = row_id) (qd_rows db) of
        None \<Rightarrow> Inr (Inl OTerminal, db)
      | Some row \<Rightarrow>
          if q_state row \<noteq> Quarantined \<or> (case series of None \<Rightarrow> False | Some s \<Rightarrow> q_series row \<noteq> s) then Inr (Inl OTerminal, db)
          else if fenced (q_series row) db \<or> active_for_series (q_series row) db then Inr (Inl OBlocked, db)
          else if \<not> list_ex (\<lambda>c. ce_id c = q_chapter row \<and> ce_volume c = Some (q_volume row) \<and> ce_status c = ''downloaded''
                \<and> list_ex (\<lambda>v. vo_id v = q_volume row \<and> vo_status v = ''downloaded'' \<and> sql_eq (ce_path c) (vo_path v)) (qd_volumes db))
                (qd_chapters db) then Inr (Inl OTerminal, db)
          else
            let f = (\<lambda>r. r\<lparr>q_state := Restoring, q_diagnostic := []\<rparr>)
            in map_sum id (\<lambda>db'. (Inr (f row), db')) (cas_row row f db))"

definition restore :: "int \<Rightarrow> int option \<Rightarrow> (q_db, outcome) act" where
  "restore row_id series =
     catch
       (andthen verify_guard (\<lambda>_.
        andthen (transact (restore_begin row_id series)) (\<lambda>r.
        case r of Inl out \<Rightarrow> ret out | Inr row \<Rightarrow> settle True row)))
       (\<lambda>e. case e of LockLost \<Rightarrow> ret OBlocked | SqlFailure \<Rightarrow> ret OBlocked | _ \<Rightarrow> throw e)"

definition replay :: "int \<Rightarrow> (q_db, outcome) act" where
  "replay row_id =
     catch
       (andthen verify_guard (\<lambda>_.
        andthen (load_row row_id) (\<lambda>loaded.
        case loaded of
          None \<Rightarrow> ret OTerminal
        | Some row \<Rightarrow> if \<not> active_row row then ret OTerminal else settle True row)))
       (\<lambda>e. case e of LockLost \<Rightarrow> ret OBlocked | SqlFailure \<Rightarrow> ret OBlocked | _ \<Rightarrow> throw e)"

definition active_ids :: "int \<Rightarrow> nat \<Rightarrow> q_db \<Rightarrow> int list" where
  "active_ids after_id limit db =
     take limit (sort (map q_id (filter (\<lambda>r. active_row r \<and> q_id r > after_id) (qd_rows db))))"

fun replay_ids :: "int list \<Rightarrow> (q_db, outcome list) act" where
  "replay_ids [] = ret []"
| "replay_ids (i # is) = andthen (replay i) (\<lambda>out. andthen (replay_ids is) (\<lambda>outs. ret (out # outs)))"

definition replay_page :: "int \<Rightarrow> nat \<Rightarrow> (q_db, nat \<times> nat \<times> int) act" where
  "replay_page after_id limit =
     andthen (effect SqlFailure (gets (\<lambda>w. active_ids after_id limit (w_journal w)))) (\<lambda>ids.
     andthen (replay_ids ids) (\<lambda>outs.
     ret (length ids, length (filter (\<lambda>out. out \<noteq> OBlocked) outs), if ids = [] then 0 else last ids)))"

text \<open>
  \<open>drain\<close> replays page after page until a page is not full. \<open>False\<close>: the fuel, a bound on the number
  of pages, is used up.
\<close>

fun drain :: "nat \<Rightarrow> nat \<Rightarrow> int \<Rightarrow> (q_db, bool) act" where
  "drain 0 page_size cursor = ret False"
| "drain (Suc fuel) page_size cursor =
     andthen (replay_page cursor page_size) (\<lambda>(examined, settled, final).
     if examined < page_size then ret True else drain fuel page_size final)"

end
