(* ===== verification/Quarantine_Safety.thy ===== *)
theory Quarantine_Safety
  imports Chapter_Quarantine Json_Codec
begin

text \<open>
  Crash safety of the chapter quarantine: no file is lost, a journal row always says where its file
  is, and a series has at most one active row, whatever is refused and wherever the process dies.
\<close>

subsection \<open>The journal invariant\<close>

definition row_ok :: "q_row \<Rightarrow> bool" where
  "row_ok r \<longleftrightarrow>
     2 \<le> length (q_original r)
     \<and> (q_carrier r = None \<or> q_carrier r = Some (carrier_path r))
     \<and> (case q_target r of
          None \<Rightarrow> q_state r \<in> {Reserved, Captured, Committed, RolledBack}
        | Some t \<Rightarrow> t = quarantine_target (q_original r) (q_series r) (q_id r))"

definition journal_ok :: "q_db \<Rightarrow> bool" where
  "journal_ok db \<longleftrightarrow>
     distinct (map q_id (qd_rows db)) \<and> distinct (map q_series (filter active_row (qd_rows db)))
     \<and> (\<forall>r \<in> set (qd_rows db). row_ok r \<and> q_id r < qd_next db) \<and> (\<forall>p \<in> set (qd_provenance db). 2 \<le> length (pv_path p))"

text \<open>Where the file of a row can be, by the row's state.\<close>

definition places :: "q_row \<Rightarrow> path set" where
  "places r = (case q_state r of
     Reserved \<Rightarrow> insert (q_original r) (set_option (carrier_file r))
   | Captured \<Rightarrow> insert (q_original r) (set_option (carrier_file r))
   | Committed \<Rightarrow> set_option (carrier_file r) \<union> set_option (q_target r)
   | Quarantined \<Rightarrow> set_option (q_target r)
   | Restoring \<Rightarrow> insert (q_original r) (set_option (q_target r))
   | RolledBack \<Rightarrow> {q_original r}
   | Restored \<Rightarrow> {q_original r})"

text \<open>\<open>jrow F row\<close>: \<open>row\<close> is in the journal, and the watched file is the one it records.\<close>

definition jrow :: "stored_file option \<Rightarrow> q_row \<Rightarrow> q_db \<Rightarrow> bool" where
  "jrow F row db \<longleftrightarrow>
     journal_ok db \<and> row \<in> set (qd_rows db) \<and> (\<forall>f. F = Some f \<longrightarrow> f_reg f \<and> id_of f = q_file row)"

definition resting :: "stored_file set \<Rightarrow> stored_file option \<Rightarrow> int \<Rightarrow> q_db durable \<Rightarrow> bool" where
  "resting G F i w \<longleftrightarrow> (\<exists>r. q_id r = i \<and> keeps G F (places r) (jrow F r) w)"

lemma resting_keeps: "keeps G F S (jrow F row) w \<Longrightarrow> S \<subseteq> places row \<Longrightarrow> q_id row = i \<Longrightarrow> resting G F i w"
  unfolding resting_def using keeps_wider [of G F S "jrow F row" w "places row" "jrow F row"] by blast

lemma jrow_ok: "jrow F row db \<Longrightarrow> row_ok row"
  by (auto simp: jrow_def journal_ok_def)

lemma holding_row_ok: "keeps G F S (jrow F row) w \<Longrightarrow> row_ok row"
  using keeps_journal jrow_ok by blast

text \<open>A change of one row that a step may make.\<close>

definition allowed :: "(q_row \<Rightarrow> q_row) \<Rightarrow> q_row \<Rightarrow> q_db \<Rightarrow> bool" where
  "allowed g row db \<longleftrightarrow>
     q_id (g row) = q_id row \<and> q_series (g row) = q_series row \<and> q_file (g row) = q_file row \<and> row_ok (g row)
     \<and> (active_row (g row) \<longrightarrow> active_row row \<or> \<not> active_for_series (q_series row) db)"

lemma distinct_update:
  assumes "distinct (map q_id rows)" "row \<in> set rows" "q_id (g row) = q_id row" "q_series (g row) = q_series row"
    "distinct (map q_series (filter active_row rows))"
    "active_row (g row) \<Longrightarrow> active_row row \<or> q_series row \<notin> q_series ` set (filter active_row rows)"
  shows "distinct (map q_id (map (\<lambda>r. if r = row then g r else r) rows))
    \<and> distinct (map q_series (filter active_row (map (\<lambda>r. if r = row then g r else r) rows)))"
proof -
  have ids: "map q_id (map (\<lambda>r. if r = row then g r else r) rows) = map q_id rows"
    using assms(3) by (auto simp: comp_def)
  obtain xs ys where rows: "rows = xs @ row # ys" using split_list [OF assms(2)] by auto
  have out: "row \<notin> set xs" "row \<notin> set ys" using assms(1) rows by auto
  have same: "map (\<lambda>r. if r = row then g r else r) zs = zs" if "row \<notin> set zs" for zs
    using that by (induction zs) auto
  have "distinct (map q_series (filter active_row (xs @ g row # ys)))"
    using assms(4-6) rows by (auto split: if_splits)
  with assms(1) ids rows same [OF out(1)] same [OF out(2)] show ?thesis by simp
qed

lemma cas_allowed:
  assumes "jrow F row db" "allowed g row db" "cas_row row g db = Inr db'"
  shows "jrow F (g row) db'"
proof -
  let ?hit = "\<lambda>r. q_id r = q_id row \<and> q_token r = q_token row \<and> q_state r = q_state row"
  let ?rows = "map (\<lambda>r. if r = row then g r else r) (qd_rows db)"
  have ids: "distinct (map q_id (qd_rows db))" and mem: "row \<in> set (qd_rows db)" and dist: "distinct (map q_series (filter active_row (qd_rows db)))"
    using assms(1) by (auto simp: jrow_def journal_ok_def)
  have "?hit r = (r = row)" if "r \<in> set (qd_rows db)" for r
    using that ids mem by (auto simp: distinct_map dest: inj_onD)
  then have rows: "map (\<lambda>r. if ?hit r then g r else r) (qd_rows db) = ?rows" by (intro map_cong) auto
  have "db' = db\<lparr>qd_rows := map (\<lambda>r. if ?hit r then g r else r) (qd_rows db)\<rparr>"
    using assms(3) by (auto simp: cas_row_def Let_def split: if_splits)
  then have db': "db' = db\<lparr>qd_rows := ?rows\<rparr>" by (simp only: rows)
  have act: "active_row (g row) \<Longrightarrow> active_row row \<or> q_series row \<notin> q_series ` set (filter active_row (qd_rows db))"
    using assms(2) by (auto simp: allowed_def active_for_series_def list_ex_iff)
  have "distinct (map q_id ?rows) \<and> distinct (map q_series (filter active_row ?rows))"
    by (rule distinct_update [OF ids mem _ _ dist act]) (use assms(2) in \<open>auto simp: allowed_def\<close>)
  moreover have "row_ok r \<and> q_id r < qd_next db" if "r \<in> set ?rows" for r
    using that assms(1,2) mem by (auto simp: jrow_def journal_ok_def allowed_def)
  moreover have "g row \<in> set ?rows" using mem by auto
  ultimately show ?thesis using assms(1,2) db' by (simp add: jrow_def journal_ok_def allowed_def)
qed

lemma jrow_tables [simp]:
  "jrow F row (db\<lparr>qd_chapters := cs\<rparr>) = jrow F row db"
  by (simp add: jrow_def journal_ok_def)

lemma jrow_provenance: "jrow F row db \<Longrightarrow> jrow F row (db\<lparr>qd_provenance := filter P (qd_provenance db), qd_chapters := cs\<rparr>)"
  by (simp add: jrow_def journal_ok_def)

lemma triple_advance:
  assumes "\<And>db. jrow F row db \<Longrightarrow> allowed g row db" "\<And>e w. keeps G F S (jrow F row) w \<Longrightarrow> E e w"
    "triple (keeps G F S (jrow F (g row))) (k (g row)) Q E"
  shows "triple (keeps G F S (jrow F row)) (andthen (advance row g) k) Q E"
  unfolding advance_def
proof (rule triple_transact_then [where good = "\<lambda>r. r = g row" and K = "\<lambda>_. jrow F (g row)"])
  fix db r db'
  assume "jrow F row db" "map_sum id (\<lambda>db'. (g row, db')) (cas_row row g db) = Inr (r, db')"
  then show "r = g row \<and> jrow F (g row) db'"
    using cas_allowed [OF _ assms(1)] by (cases "cas_row row g db") auto
qed (use assms(2,3) in auto)

subsection \<open>Moves\<close>

lemma triple_move_noreplace:
  "triple (keeps G F S J) (move_noreplace src dst) (\<lambda>_. keeps G F (insert dst (S - {src})) J) (\<lambda>_. keeps G F (insert dst S) J)"
proof -
  let ?moved = "keeps G F (insert dst (S - {src})) J"
  have wide: "keeps G F (insert dst S) J w" if "keeps G F T J w" "T \<subseteq> insert dst S" for T w
    using keeps_wider [OF that(1) that(2)] by blast
  have fallback: "triple (keeps G F S J)
      (andthen (os_link src dst) (\<lambda>_. andthen (os_stat src) (\<lambda>a. andthen (os_stat dst) (\<lambda>b.
        if \<not> same_inode a b then throw (Refused ''link fallback produced a different file'') else os_unlink src))))
      (\<lambda>_. ?moved) (\<lambda>_. keeps G F (insert dst S) J)"
  proof (rule triple_then [OF triple_os_link], assumption)
    fix x
    show "triple (\<lambda>w. keeps G F S J w \<and> src \<noteq> dst)
       (andthen (os_stat src) (\<lambda>a. andthen (os_stat dst) (\<lambda>b.
        if \<not> same_inode a b then throw (Refused ''link fallback produced a different file'') else os_unlink src)))
       (\<lambda>_. ?moved) (\<lambda>_. keeps G F (insert dst S) J)"
    proof (rule triple_fact [where b = "src \<noteq> dst"], simp, intro triple_read [OF idle_os_stat] triple_if)
      fix a b
      assume ne: "src \<noteq> dst" and "\<not> \<not> same_inode a b"
      then have eq: "keeps G F S J w \<and> file_at w dst = file_at w src"
        if "((keeps G F S J w \<and> src \<noteq> dst) \<and> file_at w src = Some a) \<and> file_at w dst = Some b" for w
        using that fs_ok_inode [of w src a dst b] keeps_ok [of G F S J w] by auto
      show "triple (\<lambda>w. ((keeps G F S J w \<and> src \<noteq> dst) \<and> file_at w src = Some a) \<and> file_at w dst = Some b) (os_unlink src)
         (\<lambda>_. ?moved) (\<lambda>_. keeps G F (insert dst S) J)"
        by (rule triple_weaken [OF triple_os_unlink [of dst src G F S J]]) (use ne wide eq in \<open>auto simp del: file_at_drop\<close>)
    qed (use wide in \<open>auto intro!: steady_conj triple_throw\<close>)
  qed (use wide in auto)
  show ?thesis
    unfolding move_noreplace_def
  proof ((rule triple_skip [OF quiet_steps(5) steady_keeps], use wide in blast)+, rule triple_then [OF triple_rename_noreplace])
    fix ok
    show "triple (keeps G F (if ok then insert dst (S - {src}) else S) J)
      (andthen (run_if (\<not> ok)
        (andthen (os_link src dst) (\<lambda>_. andthen (os_stat src) (\<lambda>a. andthen (os_stat dst) (\<lambda>b.
        if \<not> same_inode a b then throw (Refused ''link fallback produced a different file'') else os_unlink src)))))
        (\<lambda>_. andthen (os_fsync (dir_of dst)) (\<lambda>_. os_fsync (dir_of src))))
      (\<lambda>_. ?moved) (\<lambda>_. keeps G F (insert dst S) J)"
      by (rule triple_andthen [where R = "\<lambda>_. ?moved"], rule triple_run_if)
        (use fallback wide in \<open>auto intro!: triple_skip triple_idle [OF quiet_steps(3)] quiet_steps\<close>)
  qed (use wide in \<open>auto intro: quiet_steps\<close>)
qed

lemma triple_drop_alias:
  assumes "kept \<noteq> dropped"
  shows "triple (keeps G F S J) (drop_alias kept dropped expected)
    (\<lambda>_. keeps G F (insert kept (S - {dropped})) J) (\<lambda>_. keeps G F (insert kept S) J)"
proof -
  have wide: "keeps G F (insert kept S) J w" if "keeps G F T J w" "T \<subseteq> insert kept S" for T w
    using keeps_wider [OF that(1) that(2)] by blast
  have proof_of: "quiet (case expected of None \<Rightarrow> (ret () :: (q_db, unit) act)
     | Some e \<Rightarrow> andthen (hash_id kept) (\<lambda>i. if i \<noteq> e then throw (Refused ''file content changed'') else ret ()))"
    by (intro idle_rules)
  let ?rest = "andthen (case expected of None \<Rightarrow> ret ()
     | Some e \<Rightarrow> andthen (hash_id kept) (\<lambda>i. if i \<noteq> e then throw (Refused ''file content changed'') else ret ())) (\<lambda>_.
       andthen (os_unlink dropped) (\<lambda>_. os_fsync (dir_of dropped)))"
  have unlink: "triple (\<lambda>w. (keeps G F S J w \<and> file_at w kept = Some a) \<and> file_at w dropped = Some b) ?rest
      (\<lambda>_. keeps G F (insert kept (S - {dropped})) J) (\<lambda>_. keeps G F (insert kept S) J)" if "same_inode a b" for a b
  proof (rule triple_skip [OF proof_of], simp add: steady_conj, use wide in blast)
    fix x
    have "file_at w kept = file_at w dropped"
      if "(keeps G F S J w \<and> file_at w kept = Some a) \<and> file_at w dropped = Some b" for w
      using that \<open>same_inode a b\<close> fs_ok_inode [of w kept a dropped b] keeps_ok [of G F S J w] by auto
    then show "triple (\<lambda>w. (keeps G F S J w \<and> file_at w kept = Some a) \<and> file_at w dropped = Some b)
        (andthen (os_unlink dropped) (\<lambda>_. os_fsync (dir_of dropped)))
        (\<lambda>_. keeps G F (insert kept (S - {dropped})) J) (\<lambda>_. keeps G F (insert kept S) J)"
      by (intro triple_then [OF triple_os_unlink [OF assms, of G F S J]])
        (use wide in \<open>auto intro!: triple_idle [OF quiet_steps(3)] simp del: file_at_drop\<close>)
  qed
  show ?thesis
    unfolding drop_alias_def
    by ((rule triple_skip [OF quiet_steps(5) steady_keeps], use wide in blast)+, intro triple_read [OF idle_os_stat] triple_if unlink)
      (use wide in \<open>auto intro!: steady_conj triple_throw\<close>)
qed

lemma quiet_verify_at [idle_rules]: "quiet (verify_at p e)"
  unfolding verify_at_def by (intro idle_rules)

lemma quiet_private_dir [idle_rules]: "quiet (private_dir p)"
  unfolding private_dir_def by (rule idle_effect, rule idle_keep) (auto split: option.splits)

lemma quiet_load_row [idle_rules]: "quiet (load_row i)"
  unfolding load_row_def by (intro idle_rules)

lemma triple_keep_os_mkdir: "triple (keeps G F S J) (os_mkdir p) (\<lambda>_. keeps G F S J) (\<lambda>_. keeps G F S J)"
  by (rule triple_weaken [OF triple_os_mkdir]) auto

lemma triple_ensure_private: "triple (keeps G F S J) (ensure_private p) (\<lambda>_. keeps G F S J) (\<lambda>_. keeps G F S J)"
  unfolding ensure_private_def
proof (rule triple_skip [OF quiet_gets steady_keeps])
  fix present
  have "triple (keeps G F S J) (run_if (\<not> present) (andthen (os_mkdir p) (\<lambda>_. os_fsync (dir_of p)))) (\<lambda>_. keeps G F S J) (\<lambda>_. keeps G F S J)"
    by (rule triple_run_if [OF triple_then [OF triple_keep_os_mkdir]]) (auto intro!: triple_idle [OF quiet_steps(3)])
  then show "triple (keeps G F S J)
      (andthen (run_if (\<not> present) (andthen (os_mkdir p) (\<lambda>_. os_fsync (dir_of p)))) (\<lambda>_. private_dir p))
      (\<lambda>_. keeps G F S J) (\<lambda>_. keeps G F S J)"
    by (rule triple_andthen) (auto intro!: triple_idle [OF quiet_private_dir])
qed

lemma triple_quarantine_dir:
  "triple (keeps G F S J) (quarantine_dir d s) (\<lambda>r w. keeps G F S J w \<and> r = quarantine_folder d s) (\<lambda>_. keeps G F S J)"
  unfolding quarantine_dir_def Let_def
  by (intro triple_skip triple_then [OF triple_ensure_private] triple_ret) (auto intro: idle_rules)

lemma triple_remove_carrier: "triple (keeps G F S J) (remove_carrier row) (\<lambda>_. keeps G F S J) (\<lambda>_. keeps G F S J)"
  unfolding remove_carrier_def
  by (cases "q_carrier row")
    (auto intro!: triple_ret triple_catch [where R = "\<lambda>_. keeps G F S J"] triple_skip quiet_steps triple_then [OF triple_os_rmdir]
       triple_idle [OF quiet_steps(3)] triple_throw split: failure.splits)

subsection \<open>Three names of one row\<close>

lemma target_differs:
  assumes "2 \<le> length p"
  shows "quarantine_target p s i \<noteq> p" "quarantine_target p s i \<noteq> dir_of p @ [carrier_prefix @ x, b]"
proof -
  obtain c cs where c: "dec_int s = c # cs" "is_digit c \<or> c = CHR ''-''" by (rule dec_int_first)
  then have "c \<noteq> CHR ''.''" by (auto simp: is_digit_def)
  with c(1) have ne: "dec_int s \<noteq> carrier_prefix @ x" by (auto simp: carrier_prefix_def)
  have len: "length (quarantine_target p s i) = Suc (length p)"
    using assms by (simp add: quarantine_target_def dir_of_def)
  then show "quarantine_target p s i \<noteq> p" by auto
  have "last (butlast (quarantine_target p s i)) = dec_int s" by (simp add: quarantine_target_def butlast_append)
  moreover have "last (butlast (dir_of p @ [carrier_prefix @ x, b])) = carrier_prefix @ x" by (simp add: butlast_append)
  ultimately show "quarantine_target p s i \<noteq> dir_of p @ [carrier_prefix @ x, b]" using ne by metis
qed

lemma carrier_differs: "2 \<le> length p \<Longrightarrow> dir_of p @ [d, b] \<noteq> p"
proof
  assume "2 \<le> length p" "dir_of p @ [d, b] = p"
  then have "length (dir_of p @ [d, b]) = length p" by simp
  with \<open>2 \<le> length p\<close> show False by (simp add: dir_of_def)
qed

lemma row_names:
  assumes "row_ok r"
  shows "carrier_file r = Some s \<Longrightarrow> s \<noteq> q_original r"
    "q_target r = Some t \<Longrightarrow> t \<noteq> q_original r"
    "carrier_file r = Some s \<Longrightarrow> q_target r = Some t \<Longrightarrow> t \<noteq> s"
    "carrier_file r = Some s \<Longrightarrow> s = carrier_path r @ [base_of (q_original r)]"
proof -
  have len: "2 \<le> length (q_original r)" using assms by (simp add: row_ok_def)
  show car: "carrier_file r = Some s \<Longrightarrow> s = carrier_path r @ [base_of (q_original r)]"
    using assms by (auto simp: row_ok_def carrier_file_def)
  show "carrier_file r = Some s \<Longrightarrow> s \<noteq> q_original r"
    using car carrier_differs [OF len] by (auto simp: carrier_path_def)
  show "q_target r = Some t \<Longrightarrow> t \<noteq> q_original r"
    using assms target_differs(1) [OF len] by (auto simp: row_ok_def)
  show "carrier_file r = Some s \<Longrightarrow> q_target r = Some t \<Longrightarrow> t \<noteq> s"
    using assms car target_differs(2) [OF len] by (auto simp: row_ok_def carrier_path_def)
qed

lemma allowed_state:
  assumes "row_ok row" "active_row (set_state s row) \<Longrightarrow> active_row row" "q_target row = None \<Longrightarrow> s \<in> {Reserved, Captured, Committed, RolledBack}"
  shows "allowed (set_state s) row db"
  using assms by (auto simp: allowed_def set_state_def row_ok_def carrier_path_def split: option.splits)

lemma set_state_simps [simp]:
  "q_id (set_state s r) = q_id r" "q_state (set_state s r) = s" "q_original (set_state s r) = q_original r"
  "q_carrier (set_state s r) = q_carrier r" "q_target (set_state s r) = q_target r" "carrier_file (set_state s r) = carrier_file r"
  "q_series (set_state s r) = q_series r" "q_file (set_state s r) = q_file r"
  by (simp_all add: set_state_def carrier_file_def)

lemma active_row_simps [simp]:
  "active_row r \<longleftrightarrow> q_state r = Reserved \<or> q_state r = Captured \<or> q_state r = Committed \<or> q_state r = Restoring"
  by (auto simp: active_row_def active_states_def)

subsection \<open>Capture\<close>

lemma triple_capture:
  assumes fresh: "q_state row = Reserved" "q_carrier row = None"
  shows "triple (keeps G F {q_original row} (jrow F row)) (capture row)
    (\<lambda>r w. q_state r = Captured \<and> q_id r = q_id row \<and> keeps G F (set_option (carrier_file r)) (jrow F r) w)
    (\<lambda>_. resting G F (q_id row))"
proof -
  let ?c = "carrier_path row"
  let ?cap = "?c @ [base_of (q_original row)]"
  let ?g = "\<lambda>r. r\<lparr>q_carrier := Some ?c\<rparr>"
  let ?r1 = "?g row"
  have cf: "carrier_file ?r1 = Some ?cap" by (simp add: carrier_file_def)
  have places1: "places ?r1 = {q_original row, ?cap}" using fresh cf by (simp add: places_def)
  have rest1: "resting G F (q_id row) w" if "keeps G F S (jrow F ?r1) w" "S \<subseteq> {q_original row, ?cap}" for S w
    using resting_keeps [OF that(1)] that(2) places1 by simp
  have rest0: "resting G F (q_id row) w" if "keeps G F {q_original row} (jrow F row) w" for w
    using resting_keeps [OF that] fresh by (simp add: places_def)
  have al: "allowed ?g row db" if "jrow F row db" for db
    using jrow_ok [OF that] fresh by (auto simp: allowed_def row_ok_def carrier_path_def split: option.splits)
  let ?made = "\<lambda>w. keeps G F {q_original row} (jrow F ?r1) w \<and> (\<forall>q f. file_at w q = Some f \<longrightarrow> dir_of q \<noteq> ?c)"
  have steady: "steady ?made" by (intro steady_conj steady_keeps steady_look)
  have absent: "file_at w ?cap = None" if "?made w" for w
    using that by (cases "file_at w ?cap") (auto simp: dir_of_def)
  have final: "triple (keeps G F {?cap} (jrow F ?r1)) (advance ?r1 (set_state Captured))
      (\<lambda>r w. q_state r = Captured \<and> q_id r = q_id row \<and> keeps G F (set_option (carrier_file r)) (jrow F r) w)
      (\<lambda>_. resting G F (q_id row))"
    unfolding advance_def
  proof (rule triple_weaken [OF triple_transact [where K = "\<lambda>r db. r = set_state Captured ?r1 \<and> jrow F (set_state Captured ?r1) db"]])
    fix db r db'
    assume j: "jrow F ?r1 db" and "map_sum id (\<lambda>db'. (set_state Captured ?r1, db')) (cas_row ?r1 (set_state Captured) db) = Inr (r, db')"
    then show "r = set_state Captured ?r1 \<and> jrow F (set_state Captured ?r1) db'"
      using cas_allowed [OF j allowed_state [OF jrow_ok [OF j]]] fresh by (cases "cas_row ?r1 (set_state Captured) db") auto
  qed (use rest1 cf in \<open>auto simp: keeps_conj\<close>)
  show ?thesis
    unfolding capture_def Let_def
    apply (rule triple_advance [OF al rest0], assumption, assumption)
    apply ((rule triple_skip [OF _ steady_keeps], fact quiet_steps, use rest1 in blast)+)?
    apply (rule triple_then [OF triple_os_mkdir], assumption, use rest1 in blast)
    apply (rule triple_skip [OF quiet_steps(3) steady], use rest1 in blast)
    apply (rule triple_skip [OF quiet_private_dir steady], use rest1 in blast)
    apply (rule triple_skip [OF quiet_steps(1) steady], use rest1 in blast)
    apply (rule triple_if, rule triple_throw, use rest1 in blast)
    apply (rule triple_skip [OF quiet_steps(4) steady], use rest1 in blast)
    apply (rule triple_then [OF triple_os_rename], use absent in blast, use rest1 in blast)
    apply (rule triple_pre [where P' = "keeps G F {?cap} (jrow F ?r1)"])
    apply (rule triple_skip [OF quiet_steps(3) steady_keeps], use rest1 in blast)+
    apply (rule triple_skip [OF quiet_steps(2) steady_keeps], use rest1 in blast)
    apply (rule triple_if, rule triple_throw, use rest1 in blast)
    apply (rule final, simp)
    done
qed

subsection \<open>Commit, transfer and rollback\<close>

lemma quiet_volume_proven [idle_rules]: "quiet (volume_proven row a)"
  unfolding volume_proven_def by (intro idle_rules)

lemma commit_db_cases:
  assumes "commit_db row db = Inr (r, db')"
  obtains "r = None" "db' = db"
  | P cs where "r = Some (set_state Committed row)"
      "cas_row row (set_state Committed) (db\<lparr>qd_provenance := filter P (qd_provenance db), qd_chapters := cs\<rparr>) = Inr db'"
  using assms by (auto simp: commit_db_def Let_def map_sum_Inr split: if_splits)

lemma commit_db_jrow:
  assumes "jrow F row db" "commit_db row db = Inr (r, db')" "q_state row = Captured"
  shows "if r = None then jrow F row db' else r = Some (set_state Committed row) \<and> jrow F (set_state Committed row) db'"
  using assms(2)
proof (cases rule: commit_db_cases)
  case (2 P cs)
  have j: "jrow F row (db\<lparr>qd_provenance := filter P (qd_provenance db), qd_chapters := cs\<rparr>)"
    by (rule jrow_provenance [OF assms(1)])
  show ?thesis
    using cas_allowed [OF j allowed_state [OF jrow_ok [OF j]] 2(2)] assms(3) 2(1) by simp
qed (use assms(1) in simp)

lemma triple_commit:
  assumes "q_state row = Captured" "S \<subseteq> places row"
  shows "triple (keeps G F S (jrow F row)) (commit_row row)
    (\<lambda>r w. if r = None then keeps G F S (jrow F row) w
      else r = Some (set_state Committed row) \<and> keeps G F S (jrow F (set_state Committed row)) w)
    (\<lambda>_. resting G F (q_id row))"
proof -
  have rest: "resting G F (q_id row) w" if "keeps G F S (jrow F row) w" for w
    using resting_keeps [OF that assms(2)] by simp
  have transact: "triple (keeps G F S (jrow F row)) (transact (commit_db row))
    (\<lambda>r w. if r = None then keeps G F S (jrow F row) w
      else r = Some (set_state Committed row) \<and> keeps G F S (jrow F (set_state Committed row)) w)
    (\<lambda>_. resting G F (q_id row))"
    by (rule triple_weaken [OF triple_transact [where K = "\<lambda>r db. if r = None then jrow F row db
        else r = Some (set_state Committed row) \<and> jrow F (set_state Committed row) db", OF commit_db_jrow]])
      (use assms(1) rest in \<open>auto simp: keeps_conj\<close>)
  show ?thesis
    unfolding commit_row_def
  proof (rule triple_skip [OF _ steady_keeps])
    fix a
    show "triple (keeps G F S (jrow F row))
       (case a of None \<Rightarrow> ret None
        | Some a \<Rightarrow> andthen (volume_proven row a) (\<lambda>ok. if \<not> ok then ret None
            else andthen verify_guard (\<lambda>_. transact (commit_db row))))
       (\<lambda>r w. if r = None then keeps G F S (jrow F row) w
          else r = Some (set_state Committed row) \<and> keeps G F S (jrow F (set_state Committed row)) w)
       (\<lambda>_. resting G F (q_id row))"
    proof (cases a)
      case (Some x)
      then show ?thesis
        unfolding Some option.simps
        by - (rule triple_skip [OF quiet_volume_proven steady_keeps], use rest in blast, rule triple_if, rule triple_ret, simp,
          rule triple_skip [OF quiet_steps(4) steady_keeps], use rest in blast, rule transact)
    qed (use rest in \<open>auto intro!: triple_ret\<close>)
  qed (use rest in \<open>auto intro: idle_rules\<close>)
qed

text \<open>The state of a row last, and the file at the place that state names.\<close>

lemma triple_settled:
  assumes "\<And>db. jrow F row db \<Longrightarrow> allowed g row db" "S \<subseteq> places (g row)" "q_id (g row) = q_id row"
    "\<And>e w. keeps G F S (jrow F row) w \<Longrightarrow> E e w"
  shows "triple (keeps G F S (jrow F row)) (andthen (advance row g) (\<lambda>_. ret x)) (\<lambda>_. resting G F (q_id row)) E"
  by (rule triple_advance [OF assms(1,4)]) (use assms(2,3) resting_keeps in \<open>auto intro!: triple_ret\<close>)

lemma triple_transfer_rest:
  assumes state: "q_state row = Committed" and target: "q_target row = Some t"
  shows "triple (keeps G F (places row) (jrow F row))
     (andthen (gets (\<lambda>w. (case carrier_file row of None \<Rightarrow> False | Some s \<Rightarrow> lexists w s, lexists w t, stat_matches w t (q_file row))))
        (\<lambda>(present, taken, same).
      andthen
        (if taken then
           (if \<not> same then throw (Refused ''quarantine name holds another file'')
            else run_if present (andthen verify_guard (\<lambda>_. drop_alias t (the (carrier_file row)) (Some (q_file row)))))
         else if \<not> present then throw (Refused ''captured file is missing'')
         else andthen (verify_at (the (carrier_file row)) (q_file row)) (\<lambda>_.
              andthen verify_guard (\<lambda>_. move_noreplace (the (carrier_file row)) t))) (\<lambda>_.
      andthen (verify_at t (q_file row)) (\<lambda>_.
      andthen (remove_carrier row) (\<lambda>_.
      andthen (advance row (\<lambda>r. r\<lparr>q_state := Quarantined, q_diagnostic := []\<rparr>)) (\<lambda>_. ret ()))))))
     (\<lambda>_. resting G F (q_id row)) (\<lambda>_. resting G F (q_id row))"
proof -
  let ?cs = "set_option (carrier_file row)"
  have places: "places row = insert t ?cs" using state target by (simp add: places_def insert_commute Un_commute)
  have rest: "resting G F (q_id row) w" if "keeps G F S (jrow F row) w" "S \<subseteq> insert t ?cs" for S w
    using resting_keeps [OF that(1)] that(2) places by simp
  have settled: "triple (keeps G F {t} (jrow F row)) (andthen (advance row (\<lambda>r. r\<lparr>q_state := Quarantined, q_diagnostic := []\<rparr>)) (\<lambda>_. ret ()))
      (\<lambda>_. resting G F (q_id row)) (\<lambda>_. resting G F (q_id row))"
    by (rule triple_settled) (use state target rest in \<open>auto simp: places_def allowed_def row_ok_def carrier_path_def dest!: jrow_ok\<close>)
  have finish: "triple (keeps G F {t} (jrow F row))
      (andthen (verify_at t (q_file row)) (\<lambda>_. andthen (remove_carrier row) (\<lambda>_.
         andthen (advance row (\<lambda>r. r\<lparr>q_state := Quarantined, q_diagnostic := []\<rparr>)) (\<lambda>_. ret ()))))
      (\<lambda>_. resting G F (q_id row)) (\<lambda>_. resting G F (q_id row))"
    by (rule triple_skip [OF quiet_verify_at steady_keeps], use rest in blast,
      rule triple_then [OF triple_remove_carrier], assumption, use rest in blast, rule settled)
  have drop: "triple (keeps G F (places row) (jrow F row)) (drop_alias t s (Some (q_file row)))
      (\<lambda>_. keeps G F {t} (jrow F row)) (\<lambda>_. resting G F (q_id row))" if "carrier_file row = Some s" for s
    by (rule triple_fact [OF holding_row_ok], assumption, rule triple_weaken [OF triple_drop_alias [of t s G F "places row" "jrow F row"]])
      (use that places rest row_names(3) [OF _ that target] in \<open>auto elim!: keeps_wider [of G F _ "jrow F row"]\<close>)
  have move: "triple (keeps G F {s} (jrow F row)) (move_noreplace s t)
      (\<lambda>_. keeps G F {t} (jrow F row)) (\<lambda>_. resting G F (q_id row))" if "carrier_file row = Some s" for s
    by (rule triple_weaken [OF triple_move_noreplace [of G F "{s}" "jrow F row"]])
      (use that rest in auto)
  have put: "triple (\<lambda>w. keeps G F (places row) (jrow F row) w
          \<and> present = (case carrier_file row of None \<Rightarrow> False | Some s \<Rightarrow> lexists w s) \<and> taken = lexists w t \<and> same = stat_matches w t (q_file row))
        (if taken then
           (if \<not> same then throw (Refused ''quarantine name holds another file'')
            else run_if present (andthen verify_guard (\<lambda>_. drop_alias t (the (carrier_file row)) (Some (q_file row)))))
         else if \<not> present then throw (Refused ''captured file is missing'')
         else andthen (verify_at (the (carrier_file row)) (q_file row)) (\<lambda>_.
              andthen verify_guard (\<lambda>_. move_noreplace (the (carrier_file row)) t)))
        (\<lambda>_. keeps G F {t} (jrow F row)) (\<lambda>_. resting G F (q_id row))" (is "triple ?P _ _ _") for present taken same
  proof (intro triple_if triple_throw)
    show "triple ?P (run_if present (andthen verify_guard (\<lambda>_. drop_alias t (the (carrier_file row)) (Some (q_file row)))))
        (\<lambda>_. keeps G F {t} (jrow F row)) (\<lambda>_. resting G F (q_id row))"
    proof (rule triple_run_if)
      assume present
      show "triple ?P (andthen verify_guard (\<lambda>_. drop_alias t (the (carrier_file row)) (Some (q_file row))))
        (\<lambda>_. keeps G F {t} (jrow F row)) (\<lambda>_. resting G F (q_id row))"
      proof (cases "carrier_file row")
        case (Some s)
        show ?thesis
          unfolding Some option.sel
          by (rule triple_pre [where P' = "keeps G F (places row) (jrow F row)"], rule triple_skip [OF quiet_steps(4) steady_keeps])
            (use rest [where S = "places row"] places drop [OF Some] in simp_all)
      qed (use \<open>present\<close> in \<open>auto intro: triple_absurd\<close>)
    next
      fix w
      assume "\<not> present" "?P w"
      then show "keeps G F {t} (jrow F row) w"
        by (elim conjE, intro keeps_narrow [of G F "places row" "jrow F row" w "{t}"]) (auto simp: lexists_def places split: option.splits)
    qed
  next
    assume "\<not> taken" "\<not> \<not> present"
    show "triple ?P (andthen (verify_at (the (carrier_file row)) (q_file row)) (\<lambda>_. andthen verify_guard (\<lambda>_. move_noreplace (the (carrier_file row)) t)))
       (\<lambda>_. keeps G F {t} (jrow F row)) (\<lambda>_. resting G F (q_id row))"
    proof (cases "carrier_file row")
      case (Some s)
      have alone: "keeps G F {s} (jrow F row) w" if "?P w" for w
        using that \<open>\<not> taken\<close>
        by (elim conjE, intro keeps_narrow [of G F "places row" "jrow F row" w "{s}"]) (auto simp: lexists_def places Some)
      have rest': "resting G F (q_id row) w" if "keeps G F {s} (jrow F row) w" for w
        using rest [OF that] Some by simp
      show ?thesis
        unfolding Some option.sel
        by (rule triple_pre [where P' = "keeps G F {s} (jrow F row)"], rule triple_skip [OF quiet_verify_at steady_keeps], use rest' in blast,
          rule triple_skip [OF quiet_steps(4) steady_keeps], use rest' in blast, rule move [OF Some], rule alone, use Some in simp)
    qed (use \<open>\<not> \<not> present\<close> in \<open>auto intro: triple_absurd\<close>)
  qed (use rest places in auto)
  show ?thesis
    by (rule triple_look3, rule triple_andthen [OF put finish])
qed

lemma triple_transfer:
  assumes state: "q_state row = Committed"
  shows "triple (keeps G F (places row) (jrow F row)) (transfer row) (\<lambda>_. resting G F (q_id row)) (\<lambda>_. resting G F (q_id row))"
proof -
  let ?t = "quarantine_target (q_original row) (q_series row) (q_id row)"
  have rest: "resting G F (q_id row) w" if "keeps G F (places row) (jrow F row) w" for w
    using resting_keeps [OF that] by simp
  let ?g = "\<lambda>r. r\<lparr>q_target := Some ?t\<rparr>"
  let ?rest = "\<lambda>folder row1. let destination = the (q_target row1)
         in if dir_of destination \<noteq> folder then throw (Refused ''quarantine path is not in the quarantine folder'')
            else
              andthen (gets (\<lambda>w. (case carrier_file row of None \<Rightarrow> False | Some s \<Rightarrow> lexists w s, lexists w destination,
                  stat_matches w destination (q_file row)))) (\<lambda>(present, taken, same).
              andthen
                (if taken then
                   (if \<not> same then throw (Refused ''quarantine name holds another file'')
                    else run_if present (andthen verify_guard (\<lambda>_. drop_alias destination (the (carrier_file row)) (Some (q_file row)))))
                 else if \<not> present then throw (Refused ''captured file is missing'')
                 else andthen (verify_at (the (carrier_file row)) (q_file row)) (\<lambda>_.
                      andthen verify_guard (\<lambda>_. move_noreplace (the (carrier_file row)) destination))) (\<lambda>_.
              andthen (verify_at destination (q_file row)) (\<lambda>_.
              andthen (remove_carrier row1) (\<lambda>_.
              andthen (advance row1 (\<lambda>r. r\<lparr>q_state := Quarantined, q_diagnostic := []\<rparr>)) (\<lambda>_. ret ())))))"
  have tail: "triple (keeps G F (places row1) (jrow F row1)) (?rest folder row1)
      (\<lambda>_. resting G F (q_id row)) (\<lambda>_. resting G F (q_id row))"
    if r1: "q_state row1 = Committed" "q_target row1 = Some t" "carrier_file row1 = carrier_file row" "q_file row1 = q_file row"
      "q_id row1 = q_id row" for row1 t folder
    unfolding Let_def r1(2) option.sel
  proof (rule triple_if)
    show "triple (keeps G F (places row1) (jrow F row1)) (throw (Refused ''quarantine path is not in the quarantine folder''))
       (\<lambda>_. resting G F (q_id row)) (\<lambda>_. resting G F (q_id row))"
      by (rule triple_throw) (use resting_keeps [of G F _ row1] r1 in auto)
  qed (rule triple_transfer_rest [OF r1(1,2), of G F, unfolded r1(3-5)])
  have step: "triple (keeps G F (places row) (jrow F row))
      (andthen (case q_target row of Some t \<Rightarrow> ret row | None \<Rightarrow> advance row ?g) (?rest folder))
      (\<lambda>_. resting G F (q_id row)) (\<lambda>_. resting G F (q_id row))" for folder
  proof (cases "q_target row")
    case None
    have "places row \<subseteq> places (?g row)" using state None by (auto simp: places_def carrier_file_def)
    then have wide: "keeps G F (places (?g row)) (jrow F (?g row)) w" if "keeps G F (places row) (jrow F (?g row)) w" for w
      using keeps_wider [OF that] by blast
    have al: "allowed ?g row db" if "jrow F row db" for db
      using jrow_ok [OF that] state by (auto simp: allowed_def row_ok_def carrier_path_def)
    have "triple (keeps G F (places row) (jrow F row)) (andthen (advance row ?g) (?rest folder))
      (\<lambda>_. resting G F (q_id row)) (\<lambda>_. resting G F (q_id row))"
      by (rule triple_advance [OF al], assumption, use rest in blast,
        rule triple_pre [OF tail]) (use state wide in \<open>auto simp: carrier_file_def\<close>)
    then show ?thesis unfolding None option.simps .
  next
    case (Some t)
    show ?thesis
      unfolding Some option.simps
      by (rule triple_andthen [where R = "\<lambda>r w. r = row \<and> keeps G F (places row) (jrow F row) w"], rule triple_ret, simp,
        rule triple_fact, erule conjunct1, hypsubst, rule triple_pre [OF tail]) (use state Some in auto)
  qed
  show ?thesis
    unfolding transfer_def Let_def
    by (rule triple_then [OF triple_quarantine_dir], assumption, use rest in blast,
      rule triple_pre [OF step [unfolded Let_def]]) auto
qed

lemma triple_rollback:
  assumes state: "q_state row \<in> {Reserved, Captured}" and S: "S \<subseteq> places row"
  shows "triple (keeps G F S (jrow F row)) (rollback row) (\<lambda>_. resting G F (q_id row)) (\<lambda>_. resting G F (q_id row))"
proof -
  let ?o = "q_original row"
  let ?cs = "set_option (carrier_file row)"
  let ?J = "jrow F row"
  have places: "places row = insert ?o ?cs" using state by (auto simp: places_def)
  have rest: "resting G F (q_id row) w" if "keeps G F T ?J w" "T \<subseteq> insert ?o ?cs" for T w
    using resting_keeps [OF that(1)] that(2) places by simp
  have settled: "triple (keeps G F {?o} ?J) (andthen (advance row (set_state RolledBack)) (\<lambda>_. ret ()))
      (\<lambda>_. resting G F (q_id row)) (\<lambda>_. resting G F (q_id row))"
    by (rule triple_settled [OF allowed_state [OF jrow_ok]]) (use state rest in \<open>auto simp: places_def\<close>)
  have finish: "triple (keeps G F {?o} ?J) (andthen (remove_carrier row) (\<lambda>_. andthen (advance row (set_state RolledBack)) (\<lambda>_. ret ())))
      (\<lambda>_. resting G F (q_id row)) (\<lambda>_. resting G F (q_id row))"
    by (rule triple_then [OF triple_remove_carrier], assumption, use rest in blast, rule settled)
  have drop: "triple (keeps G F (insert ?o ?cs) ?J) (drop_alias ?o s None)
      (\<lambda>_. keeps G F {?o} ?J) (\<lambda>_. resting G F (q_id row))" if "carrier_file row = Some s" for s
    by (rule triple_fact [OF holding_row_ok], assumption, rule triple_weaken [OF triple_drop_alias [of ?o s G F "insert ?o ?cs" ?J]])
      (use that rest row_names(1) [OF _ that] in \<open>auto elim!: keeps_wider [of G F _ "jrow F row"]\<close>)
  have move: "triple (keeps G F {s} ?J) (move_noreplace s ?o)
      (\<lambda>_. keeps G F {?o} ?J) (\<lambda>_. resting G F (q_id row))" if "carrier_file row = Some s" for s
    by (rule triple_weaken [OF triple_move_noreplace [of G F "{s}" ?J]]) (use that rest in auto)
  have put: "triple (\<lambda>w. keeps G F (insert ?o ?cs) ?J w
          \<and> held = (case carrier_file row of None \<Rightarrow> False | Some s \<Rightarrow> lexists w s) \<and> taken = lexists w ?o
          \<and> same = (case carrier_file row of None \<Rightarrow> False | Some s \<Rightarrow>
              (case (file_at w s, file_at w ?o) of (Some a, Some b) \<Rightarrow> same_inode a b | _ \<Rightarrow> False)))
        (if held then
              (if taken then
                 (if \<not> same then throw (Refused ''original name is taken'')
                  else andthen verify_guard (\<lambda>_. drop_alias ?o (the (carrier_file row)) None))
               else andthen verify_guard (\<lambda>_. move_noreplace (the (carrier_file row)) ?o))
            else if \<not> taken then throw (Refused ''loose file is in neither place'')
            else ret ())
        (\<lambda>_. keeps G F {?o} ?J) (\<lambda>_. resting G F (q_id row))" (is "triple ?P ?m ?Q ?E") for held taken same
  proof (cases held)
    case True
    show ?thesis
    proof (cases "carrier_file row")
      case (Some s)
      have alone: "keeps G F {s} ?J w" if "?P w" "\<not> taken" for w
        using that by (elim conjE, intro keeps_narrow [of G F "insert ?o ?cs" ?J w "{s}"]) (auto simp: lexists_def Some)
      have rest': "resting G F (q_id row) w" if "keeps G F {s} ?J w" for w
        using rest [OF that] Some by simp
      have d: "triple ?P (andthen verify_guard (\<lambda>_. drop_alias ?o (the (carrier_file row)) None)) ?Q ?E"
        unfolding Some option.sel
        by (rule triple_pre [where P' = "keeps G F (insert ?o ?cs) ?J"], rule triple_skip [OF quiet_steps(4) steady_keeps])
          (use rest [where T = "insert ?o ?cs"] drop [OF Some] Some in simp_all)
      have m: "triple ?P (andthen verify_guard (\<lambda>_. move_noreplace (the (carrier_file row)) ?o)) ?Q ?E" if "\<not> taken"
        by (rule triple_pre [where P' = "keeps G F {s} ?J"], rule triple_skip [OF quiet_steps(4) steady_keeps], use rest' in blast,
          unfold Some option.sel, rule move [OF Some], rule alone) (use Some that in simp_all)
      have t: "triple ?P (throw (Refused ''original name is taken'')) ?Q ?E"
        by (rule triple_throw) (use rest in auto)
      show ?thesis using True d m t by (intro triple_if) blast+
    qed (use True in \<open>auto intro: triple_absurd\<close>)
  next
    case False
    have "keeps G F {?o} ?J w" if "?P w" for w
      using that False
      by (elim conjE, intro keeps_narrow [of G F "insert ?o ?cs" ?J w "{?o}"]) (auto simp: lexists_def split: option.splits)
    then have r: "triple ?P (ret ()) ?Q ?E" by (intro triple_ret)
    have t: "triple ?P (throw (Refused ''loose file is in neither place'')) ?Q ?E"
      by (rule triple_throw) (use rest in auto)
    show ?thesis using False r t by (intro triple_if) blast+
  qed
  show ?thesis
    unfolding rollback_def Let_def
    by (rule triple_pre [where P' = "keeps G F (insert ?o ?cs) ?J"], rule triple_look3, rule triple_andthen [OF put finish])
      (use keeps_wider [of G F S ?J] S places in blast)
qed

subsection \<open>Restore\<close>

lemma triple_refuse_restore:
  assumes state: "q_state row = Restoring" and target: "q_target row = Some t" and E: "\<And>e w. keeps G F {t} (jrow F row) w \<Longrightarrow> E e w"
  shows "triple (keeps G F {t} (jrow F row)) (refuse_restore row reason) (\<lambda>_. resting G F (q_id row)) E"
  unfolding refuse_restore_def
  by (rule triple_settled) (use state target E in \<open>auto simp: places_def allowed_def row_ok_def carrier_path_def dest!: jrow_ok\<close>)

lemma triple_refuse_early:
  assumes "q_state row = Restoring" "q_target row = Some t" "\<And>e w. keeps G F {t} (jrow F row) w \<Longrightarrow> E e w"
  shows "triple (keeps G F {t} (jrow F row)) (andthen (refuse_restore row reason) (\<lambda>r. ret (Some r)))
    (\<lambda>r w. if r = None then P w else resting G F (q_id row) w) E"
  by (rule triple_andthen [OF triple_refuse_restore [OF assms]], assumption, rule triple_ret, simp)

text \<open>Between reading the names and the result: the file is at the original name, or the row has gone back.\<close>

lemma triple_move_back:
  assumes state: "q_state row = Restoring" and target: "q_target row = Some t"
  shows "triple (\<lambda>w. keeps G F (insert (q_original row) {t}) (jrow F row) w \<and> present = lexists w t) (move_back row present)
    (\<lambda>r w. if r = None then keeps G F {q_original row} (jrow F row) w else resting G F (q_id row) w) (\<lambda>_. resting G F (q_id row))"
    (is "triple (\<lambda>w. keeps G F ?both ?J w \<and> _) _ ?Q ?E")
proof -
  let ?o = "q_original row"
  have rest: "resting G F (q_id row) w" if "keeps G F T ?J w" "T \<subseteq> ?both" for T w
    using resting_keeps [OF that(1)] that(2) state target by (simp add: places_def insert_commute)
  have at_target: "keeps G F {t} ?J w" if k: "keeps G F ?both ?J w" and "\<not> (lexists w ?o \<and> stat_matches w ?o (q_file row))" for w
  proof -
    have "t \<noteq> ?o" using row_names(2) [OF holding_row_ok [OF k] target] .
    moreover have "file_at w ?o \<noteq> F" if "F \<noteq> None"
      using that \<open>\<not> (lexists w ?o \<and> _)\<close> keeps_journal [OF k] stat_matches_id [of w ?o] file_at_lexists [of w ?o]
      by (auto simp: jrow_def)
    ultimately show ?thesis using k by (auto simp: keeps_def)
  qed
  have drop: "triple (keeps G F ?both ?J) (drop_alias ?o t (Some (q_file row))) (\<lambda>_. keeps G F {?o} ?J) ?E"
    by (rule triple_fact [OF holding_row_ok], assumption, rule triple_weaken [OF triple_drop_alias [of ?o t G F ?both ?J]])
      (use rest row_names(2) [OF _ target] in \<open>auto elim!: keeps_wider [of G F _ ?J]\<close>)
  have finish: "triple (keeps G F {?o} ?J) (ret None) ?Q ?E"
    by (rule triple_ret) simp
  have linked: "triple (\<lambda>w. (keeps G F ?both ?J w \<and> present = lexists w t) \<and> taken = lexists w ?o \<and> same = stat_matches w ?o (q_file row))
      (andthen (run_if present (andthen verify_guard (\<lambda>_. drop_alias ?o t (Some (q_file row))))) (\<lambda>_. ret None)) ?Q ?E" for taken same
  proof (rule triple_andthen [OF _ finish], rule triple_run_if)
    show "triple (\<lambda>w. (keeps G F ?both ?J w \<and> present = lexists w t) \<and> taken = lexists w ?o \<and> same = stat_matches w ?o (q_file row))
      (andthen verify_guard (\<lambda>_. drop_alias ?o t (Some (q_file row)))) (\<lambda>_. keeps G F {?o} ?J) ?E"
      by (rule triple_pre [where P' = "keeps G F ?both ?J"], rule triple_skip [OF quiet_steps(4) steady_keeps])
        (use rest [where T = ?both] drop in simp_all)
  next
    fix w
    assume "\<not> present" "(keeps G F ?both ?J w \<and> present = lexists w t) \<and> taken = lexists w ?o \<and> same = stat_matches w ?o (q_file row)"
    then show "keeps G F {?o} ?J w"
      by (elim conjE, intro keeps_narrow [of G F ?both ?J w "{?o}"]) (auto simp: lexists_def)
  qed
  let ?looked = "\<lambda>taken same w. (keeps G F ?both ?J w \<and> present = lexists w t) \<and> taken = lexists w ?o \<and> same = stat_matches w ?o (q_file row)"
  have refuse: "triple (?looked taken same) (andthen (refuse_restore row reason) (\<lambda>r. ret (Some r))) ?Q ?E"
    if "\<not> (taken \<and> same)" for taken same reason
    by (rule triple_pre [OF triple_refuse_early [OF state target]]) (use that at_target rest in auto)
  have move: "triple (keeps G F {t} ?J) (andthen (pin (dir_of t)) (\<lambda>_. andthen (hash_id t) (\<lambda>i.
      if i \<noteq> q_file row then andthen (refuse_restore row ''quarantined file changed'') (\<lambda>r. ret (Some r))
      else andthen verify_guard (\<lambda>_. andthen (move_noreplace t ?o) (\<lambda>_. ret None))))) ?Q (\<lambda>_. keeps G F ?both ?J)"
  proof -
    have wide: "keeps G F ?both ?J w" if "keeps G F {t} ?J w" for w
      using keeps_wider [OF that, of ?both ?J] by simp
    have moved: "triple (keeps G F {t} ?J) (andthen (move_noreplace t ?o) (\<lambda>_. ret None)) ?Q (\<lambda>_. keeps G F ?both ?J)"
      by (rule triple_then [OF triple_move_noreplace [of G F "{t}" ?J]]) (auto intro!: triple_ret)
    show ?thesis
      by (rule triple_skip [OF quiet_steps(5) steady_keeps], use wide in blast, rule triple_skip [OF quiet_steps(2) steady_keeps], use wide in blast,
        rule triple_if, rule triple_refuse_early [OF state target], use wide in blast, rule triple_skip [OF quiet_steps(4) steady_keeps],
        use wide in blast, rule moved)
  qed
  have handler: "triple (keeps G F ?both ?J) (case e of LockLost \<Rightarrow> throw e | SqlFailure \<Rightarrow> throw e
      | _ \<Rightarrow> andthen (gets (\<lambda>w. lexists w ?o)) (\<lambda>started. if started then throw e
            else andthen (refuse_restore row (reason_of e)) (\<lambda>r. ret (Some r)))) ?Q ?E" for e
  proof -
    have thrown: "triple (keeps G F ?both ?J) (throw e) ?Q ?E" by (rule triple_throw) (use rest in simp)
    have other: "triple (keeps G F ?both ?J) (andthen (gets (\<lambda>w. lexists w ?o)) (\<lambda>started. if started then throw e
            else andthen (refuse_restore row (reason_of e)) (\<lambda>r. ret (Some r)))) ?Q ?E"
      by (rule triple_look, rule triple_if, rule triple_pre [OF thrown], simp, rule triple_pre [OF triple_refuse_early [OF state target]])
        (use at_target rest in auto)
    show ?thesis using thrown other by (cases e) simp_all
  qed
  have try_move: "triple (?looked taken same) (catch (andthen (pin (dir_of t)) (\<lambda>_. andthen (hash_id t) (\<lambda>i.
      if i \<noteq> q_file row then andthen (refuse_restore row ''quarantined file changed'') (\<lambda>r. ret (Some r))
      else andthen verify_guard (\<lambda>_. andthen (move_noreplace t ?o) (\<lambda>_. ret None)))))
      (\<lambda>e. case e of LockLost \<Rightarrow> throw e | SqlFailure \<Rightarrow> throw e
      | _ \<Rightarrow> andthen (gets (\<lambda>w. lexists w ?o)) (\<lambda>started. if started then throw e
            else andthen (refuse_restore row (reason_of e)) (\<lambda>r. ret (Some r))))) ?Q ?E" if "\<not> (taken \<and> same)" for taken same
    by (rule triple_pre [OF triple_catch [OF move _ handler]]) (use that at_target rest in auto)
  show ?thesis
    unfolding move_back_def Let_def target option.sel
    by (rule triple_look2, intro triple_if linked refuse try_move) auto
qed

lemma restore_db_jrow:
  assumes "jrow F row db" "restore_db row db = Inr (x, db')" "q_state row = Restoring"
  shows "\<exists>msg. jrow F (row\<lparr>q_state := Restored, q_diagnostic := msg\<rparr>) db'"
proof -
  obtain msg cs where cas: "cas_row row (\<lambda>r. r\<lparr>q_state := Restored, q_diagnostic := msg\<rparr>) (db\<lparr>qd_chapters := cs\<rparr>) = Inr db'"
    using assms(2) by (auto simp: restore_db_def Let_def map_sum_Inr)
  have al: "allowed (\<lambda>r. r\<lparr>q_state := Restored, q_diagnostic := msg\<rparr>) row (db\<lparr>qd_chapters := cs\<rparr>)"
    using jrow_ok [OF assms(1)] assms(3) by (auto simp: allowed_def row_ok_def carrier_path_def split: option.splits)
  show ?thesis using cas_allowed [OF _ al cas, of F] assms(1) by auto
qed

lemma triple_finish_restore:
  assumes state: "q_state row = Restoring"
  shows "triple (keeps G F (places row) (jrow F row)) (finish_restore row) (\<lambda>_. resting G F (q_id row)) (\<lambda>_. resting G F (q_id row))"
proof (rule triple_fact [OF holding_row_ok], assumption)
  assume "row_ok row"
  then obtain t where target: "q_target row = Some t" using state by (auto simp: row_ok_def split: option.splits)
  let ?o = "q_original row"
  let ?both = "insert ?o {t}"
  let ?J = "jrow F row"
  let ?E = "\<lambda>_ :: failure. resting G F (q_id row)"
  have places: "places row = ?both" using state target by (simp add: places_def)
  have rest: "resting G F (q_id row) w" if "keeps G F T ?J w" "T \<subseteq> ?both" for T w
    using resting_keeps [OF that(1)] that(2) places by simp
  let ?looked = "\<lambda>present taken w. keeps G F ?both ?J w \<and> present = lexists w t \<and> taken = lexists w ?o"
  have steady: "steady (?looked present taken)" for present taken by (intro steady_conj steady_keeps steady_look)
  have at_target: "keeps G F {t} ?J w" if "?looked present taken w" "\<not> taken" for present taken w
    using that by (elim conjE, intro keeps_narrow [of G F ?both ?J w "{t}"]) (auto simp: lexists_def)
  let ?Q = "\<lambda>present r w. if r = None then keeps G F ?both ?J w \<and> present = lexists w t else resting G F (q_id row) w"
  have pinned: "triple (?looked present taken) (catch (andthen (pin (dir_of ?o)) (\<lambda>_. ret None))
      (\<lambda>e. case e of
           Refused s \<Rightarrow> if present \<and> \<not> taken then andthen (refuse_restore row s) (\<lambda>r. ret (Some r)) else throw e
         | _ \<Rightarrow> throw e)) (?Q present) ?E" for present taken
  proof (rule triple_catch [where R = "\<lambda>_. ?looked present taken"])
    show "triple (?looked present taken) (andthen (pin (dir_of ?o)) (\<lambda>_. ret None)) (?Q present) (\<lambda>_. ?looked present taken)"
      by (rule triple_skip [OF quiet_steps(5) steady], assumption, rule triple_ret, simp)
  next
    fix e
    have thrown: "triple (?looked present taken) (throw e) (?Q present) ?E" by (rule triple_throw) (use rest in auto)
    have refused: "triple (?looked present taken) (andthen (refuse_restore row s) (\<lambda>r. ret (Some r))) (?Q present) ?E" if "\<not> taken" for s
      by (rule triple_pre [OF triple_refuse_early [OF state target]]) (use that at_target rest in auto)
    show "triple (?looked present taken) (case e of
           Refused s \<Rightarrow> if present \<and> \<not> taken then andthen (refuse_restore row s) (\<lambda>r. ret (Some r)) else throw e
         | _ \<Rightarrow> throw e) (?Q present) ?E"
    proof (cases e)
      case (Refused s)
      show ?thesis
        unfolding Refused failure.simps by (rule triple_if) (use thrown refused [of s] Refused in blast)+
    qed (use thrown in simp_all)
  qed (use rest in auto)
  have accept: "triple (keeps G F {?o} ?J) (andthen verify_guard (\<lambda>_. andthen (verify_at ?o (q_file row)) (\<lambda>_.
      andthen (transact (restore_db row)) (\<lambda>_. ret ORestored)))) (\<lambda>_. resting G F (q_id row)) ?E"
  proof (rule triple_skip [OF quiet_steps(4) steady_keeps], use rest in blast, rule triple_skip [OF quiet_verify_at steady_keeps], use rest in blast,
      rule triple_transact_then [where good = "\<lambda>_. True" and K = "\<lambda>_ db. \<exists>msg. jrow F (row\<lparr>q_state := Restored, q_diagnostic := msg\<rparr>) db"])
    show "triple (keeps G F {?o} (\<lambda>db. \<exists>msg. jrow F (row\<lparr>q_state := Restored, q_diagnostic := msg\<rparr>) db)) (ret ORestored) (\<lambda>_. resting G F (q_id row)) ?E"
    proof (rule triple_ret)
      fix w :: "q_db durable"
      assume "keeps G F {?o} (\<lambda>db. \<exists>msg. jrow F (row\<lparr>q_state := Restored, q_diagnostic := msg\<rparr>) db) w"
      then obtain msg where "keeps G F {?o} (jrow F (row\<lparr>q_state := Restored, q_diagnostic := msg\<rparr>)) w"
        by (auto simp: keeps_def)
      then show "resting G F (q_id row) w" by (rule resting_keeps) (auto simp: places_def)
    qed
  qed (use rest restore_db_jrow [OF _ _ state] in auto)
  show "triple (keeps G F (places row) (jrow F row)) (finish_restore row) (\<lambda>_. resting G F (q_id row)) (\<lambda>_. resting G F (q_id row))"
    unfolding finish_restore_def Let_def target option.sel places
  proof (rule triple_look2, rule triple_andthen [OF pinned])
    fix present taken early
    have moved: "triple (\<lambda>w. keeps G F ?both ?J w \<and> present = lexists w t)
       (andthen (move_back row present) (\<lambda>early2. case early2 of Some r \<Rightarrow> ret r
           | None \<Rightarrow> andthen verify_guard (\<lambda>_. andthen (verify_at ?o (q_file row)) (\<lambda>_.
                andthen (transact (restore_db row)) (\<lambda>_. ret ORestored))))) (\<lambda>_. resting G F (q_id row)) ?E"
    proof (rule triple_andthen [OF triple_move_back [OF state target]])
      fix early2
      show "triple (\<lambda>w. if early2 = None then keeps G F {?o} ?J w else resting G F (q_id row) w)
        (case early2 of Some r \<Rightarrow> ret r
           | None \<Rightarrow> andthen verify_guard (\<lambda>_. andthen (verify_at ?o (q_file row)) (\<lambda>_.
                andthen (transact (restore_db row)) (\<lambda>_. ret ORestored)))) (\<lambda>_. resting G F (q_id row)) ?E"
        using accept by (cases early2) (auto intro: triple_ret)
    qed
    show "triple (?Q present early) (case early of Some r \<Rightarrow> ret r
         | None \<Rightarrow> andthen (move_back row present) (\<lambda>early2. case early2 of Some r \<Rightarrow> ret r
           | None \<Rightarrow> andthen verify_guard (\<lambda>_. andthen (verify_at ?o (q_file row)) (\<lambda>_.
                andthen (transact (restore_db row)) (\<lambda>_. ret ORestored))))) (\<lambda>_. resting G F (q_id row)) ?E"
      using moved by (cases early) (auto intro: triple_ret)
  qed
qed

subsection \<open>Settling a row\<close>

lemma triple_resting:
  "(\<And>r. q_id r = i \<Longrightarrow> triple (keeps G F (places r) (jrow F r)) m Q E) \<Longrightarrow> triple (resting G F i) m Q E"
  by (rule tripleI) (metis resting_def triple_def)

text \<open>A row is settled afresh just after its reservation, or resumed in any state.\<close>

definition may_settle :: "bool \<Rightarrow> q_row \<Rightarrow> bool" where
  "may_settle resume row \<longleftrightarrow> resume \<or> q_state row = Reserved \<and> q_carrier row = None"

lemma triple_then_ret:
  "triple P m (\<lambda>_. R) E \<Longrightarrow> (\<And>w. R w \<Longrightarrow> Q x w) \<Longrightarrow> triple P (andthen m (\<lambda>_. ret x)) Q E"
  by (rule triple_andthen, assumption, rule triple_ret, simp)

lemma triple_settle_captured:
  assumes "q_state row = Captured"
  shows "triple (keeps G F (set_option (carrier_file row)) (jrow F row))
    (andthen (commit_row row) (\<lambda>committed. case committed of
         None \<Rightarrow> andthen (rollback row) (\<lambda>_. ret ORolledBack)
       | Some row2 \<Rightarrow> andthen (transfer row2) (\<lambda>_. ret OQuarantined)))
    (\<lambda>_. resting G F (q_id row)) (\<lambda>_. resting G F (q_id row))"
proof (rule triple_andthen [OF triple_commit [OF assms]])
  show "set_option (carrier_file row) \<subseteq> places row" using assms by (auto simp: places_def)
  let ?S = "set_option (carrier_file row)"
  let ?r = "set_state Committed row"
  have wide: "keeps G F (places ?r) (jrow F ?r) w" if "keeps G F ?S (jrow F ?r) w" for w
    using keeps_wider [OF that] by (auto simp: places_def)
  have forward: "triple (keeps G F ?S (jrow F ?r)) (andthen (transfer ?r) (\<lambda>_. ret OQuarantined))
      (\<lambda>_. resting G F (q_id row)) (\<lambda>_. resting G F (q_id row))"
  proof (rule triple_then_ret)
    show "triple (keeps G F ?S (jrow F ?r)) (transfer ?r) (\<lambda>_. resting G F (q_id row)) (\<lambda>_. resting G F (q_id row))"
      using triple_pre [OF triple_transfer [of ?r G F] wide] by simp
  qed
  have undo: "triple (keeps G F ?S (jrow F row)) (andthen (rollback row) (\<lambda>_. ret ORolledBack))
      (\<lambda>_. resting G F (q_id row)) (\<lambda>_. resting G F (q_id row))"
    by (rule triple_then_ret [OF triple_rollback]) (use assms in \<open>auto simp: places_def\<close>)
  fix committed
  show "triple (\<lambda>w. if committed = None then keeps G F ?S (jrow F row) w
      else committed = Some ?r \<and> keeps G F ?S (jrow F ?r) w)
     (case committed of None \<Rightarrow> andthen (rollback row) (\<lambda>_. ret ORolledBack)
       | Some row2 \<Rightarrow> andthen (transfer row2) (\<lambda>_. ret OQuarantined))
     (\<lambda>_. resting G F (q_id row)) (\<lambda>_. resting G F (q_id row))"
  proof (cases committed)
    case (Some row2)
    show ?thesis
      unfolding Some option.simps
      by (rule triple_fact [where b = "row2 = ?r"], simp, simp only:, rule triple_pre [OF forward], simp)
  qed (use undo in simp)
qed

lemma triple_settle_body:
  assumes "may_settle resume row"
  shows "triple (keeps G F (places row) (jrow F row)) (settle_body resume row) (\<lambda>_. resting G F (q_id row)) (\<lambda>_. resting G F (q_id row))"
proof (cases resume)
  case True
  let ?E = "\<lambda>_ :: failure. resting G F (q_id row)"
  have undo: "q_state row \<in> {Reserved, Captured} \<Longrightarrow> triple (keeps G F (places row) (jrow F row)) (andthen (rollback row) (\<lambda>_. ret ORolledBack)) (\<lambda>_. resting G F (q_id row)) ?E"
    by (rule triple_then_ret [OF triple_rollback]) auto
  have forward: "q_state row = Committed \<Longrightarrow> triple (keeps G F (places row) (jrow F row)) (andthen (transfer row) (\<lambda>_. ret OQuarantined)) (\<lambda>_. resting G F (q_id row)) ?E"
    by (rule triple_then_ret [OF triple_transfer]) auto
  have stay: "triple (keeps G F (places row) (jrow F row)) (ret OTerminal) (\<lambda>_. resting G F (q_id row)) ?E"
    by (rule triple_ret) (auto intro: resting_keeps)
  have "settle_body resume row =
      (if q_state row \<in> {Reserved, Captured} then andthen (rollback row) (\<lambda>_. ret ORolledBack)
       else if q_state row = Committed then andthen (transfer row) (\<lambda>_. ret OQuarantined)
       else if q_state row = Restoring then finish_restore row else ret OTerminal)"
    using True by (auto simp: settle_body_def andthen_def ret_def fun_eq_iff)
  then show ?thesis using undo forward stay triple_finish_restore [of row G F] by simp
next
  case False
  with assms have fresh: "q_state row = Reserved" "q_carrier row = None" by (auto simp: may_settle_def)
  then have places: "places row = {q_original row}" by (simp add: places_def carrier_file_def)
  have body: "settle_body resume row = andthen (capture row) (\<lambda>row1.
      if q_state row1 = Captured then
       andthen (commit_row row1) (\<lambda>committed.
       case committed of
         None \<Rightarrow> andthen (rollback row1) (\<lambda>_. ret ORolledBack)
       | Some row2 \<Rightarrow> andthen (transfer row2) (\<lambda>_. ret OQuarantined))
     else if q_state row1 = Committed then andthen (transfer row1) (\<lambda>_. ret OQuarantined)
     else if q_state row1 = Restoring then finish_restore row1
     else ret OTerminal)"
    using False fresh by (simp add: settle_body_def)
  show ?thesis
    unfolding body places
  proof (rule triple_andthen [OF triple_capture [OF fresh]])
    fix r
    show "triple (\<lambda>w. q_state r = Captured \<and> q_id r = q_id row \<and> keeps G F (set_option (carrier_file r)) (jrow F r) w)
      (if q_state r = Captured then
       andthen (commit_row r) (\<lambda>committed.
       case committed of
         None \<Rightarrow> andthen (rollback r) (\<lambda>_. ret ORolledBack)
       | Some row2 \<Rightarrow> andthen (transfer row2) (\<lambda>_. ret OQuarantined))
     else if q_state r = Committed then andthen (transfer r) (\<lambda>_. ret OQuarantined)
     else if q_state r = Restoring then finish_restore r
     else ret OTerminal) (\<lambda>_. resting G F (q_id row)) (\<lambda>_. resting G F (q_id row))"
      by (rule triple_fact [where b = "q_state r = Captured \<and> q_id r = q_id row"], simp,
        rule triple_pre [where P' = "keeps G F (set_option (carrier_file r)) (jrow F r)"])
        (use triple_settle_captured [of r G F] in auto)
  qed
qed

lemma resting_row: "keeps G F (places r) (jrow F r) w \<Longrightarrow> q_id r = i \<Longrightarrow> resting G F i w"
  by (auto simp: resting_def)

lemma steady_resting [simp]: "steady (resting G F i)"
  by (simp add: steady_def resting_def keeps_def)

lemma jrow_find: "jrow F r db \<Longrightarrow> find (\<lambda>x. q_id x = q_id r) (qd_rows db) = Some r"
  by (rule find_key_Some) (auto simp: jrow_def journal_ok_def)

lemma triple_load_row:
  "triple (resting G F i) (load_row i) (\<lambda>x w. \<exists>r. x = Some r \<and> q_id r = i \<and> keeps G F (places r) (jrow F r) w) (\<lambda>_. resting G F i)"
proof (rule triple_resting)
  fix r :: q_row
  assume i: "q_id r = i"
  show "triple (keeps G F (places r) (jrow F r)) (load_row i)
      (\<lambda>x w. \<exists>r. x = Some r \<and> q_id r = i \<and> keeps G F (places r) (jrow F r) w) (\<lambda>_. resting G F i)"
    unfolding load_row_def
  proof (rule triple_effect [OF steady_keeps])
    show "triple (keeps G F (places r) (jrow F r)) (gets (\<lambda>w. find (\<lambda>r. q_id r = i) (qd_rows (w_journal w))))
      (\<lambda>x w. \<exists>r. x = Some r \<and> q_id r = i \<and> keeps G F (places r) (jrow F r) w) (\<lambda>_. resting G F i)"
      by (rule triple_gets) (use i jrow_find keeps_journal in blast)
  qed (use i resting_row in auto)
qed

lemma jrow_map:
  assumes "\<And>x. q_id (g x) = q_id x \<and> q_series (g x) = q_series x \<and> q_file (g x) = q_file x \<and> q_state (g x) = q_state x"
    "\<And>x. row_ok x \<Longrightarrow> row_ok (g x)" "jrow F r db"
  shows "jrow F (g r) (db\<lparr>qd_rows := map g (qd_rows db)\<rparr>)"
proof -
  have ids: "map q_id (map g rows) = map q_id rows" "map q_series (filter active_row (map g rows)) = map q_series (filter active_row rows)" for rows
    using assms(1) by (induction rows) auto
  show ?thesis
    using assms by (auto simp: jrow_def journal_ok_def ids simp del: map_map)
qed

lemma triple_block_row: "triple (resting G F i) (block_row row d) (\<lambda>_. resting G F i) (\<lambda>_. resting G F i)"
proof (rule triple_resting)
  fix r :: q_row
  assume i: "q_id r = i"
  define g :: "q_row \<Rightarrow> q_row" where "g = (\<lambda>r. if q_id r = q_id row \<and> q_token r = q_token row then r\<lparr>q_diagnostic := d\<rparr> else r)"
  have g: "q_id (g x) = q_id x \<and> q_series (g x) = q_series x \<and> q_file (g x) = q_file x \<and> q_state (g x) = q_state x"
    "row_ok x \<Longrightarrow> row_ok (g x)" for x
    by (auto simp: g_def row_ok_def carrier_path_def split: option.splits)
  have places: "places (g x) = places x" for x
    by (cases "q_state x") (simp_all add: g_def places_def carrier_file_def)
  have "triple (keeps G F (places r) (jrow F r)) (block_row row d) (\<lambda>_. keeps G F (places r) (jrow F (g r))) (\<lambda>_. keeps G F (places r) (jrow F r))"
    unfolding block_row_def g_def [symmetric] by (rule triple_transact) (use jrow_map [of g] g in auto)
  then show "triple (keeps G F (places r) (jrow F r)) (block_row row d) (\<lambda>_. resting G F i) (\<lambda>_. resting G F i)"
    by (rule triple_weaken) (use i g(1) [of r] places resting_row [of G F "g r"] resting_row [of G F r] in auto)
qed

lemma triple_settle:
  assumes "may_settle resume row"
  shows "triple (keeps G F (places row) (jrow F row)) (settle resume row) (\<lambda>_. resting G F (q_id row)) (\<lambda>_. resting G F (q_id row))"
  unfolding settle_def
proof (rule triple_catch [OF triple_settle_body [OF assms]], assumption)
  fix e
  let ?R = "resting G F (q_id row)"
  have block: "triple ?R (andthen (block_row r d) (\<lambda>_. ret OBlocked)) (\<lambda>_. ?R) (\<lambda>_. ?R)" for r d
    by (rule triple_then_ret [OF triple_block_row]) simp
  have thrown: "triple ?R (throw x) (\<lambda>_. ?R) (\<lambda>_. ?R)" for x :: failure
    by (rule triple_throw) simp
  have undo: "triple (keeps G F (places r) (jrow F r)) (catch (andthen (rollback r) (\<lambda>_. ret ORolledBack))
      (\<lambda>undo. if undo = LockLost then throw undo else andthen (block_row r (reason_of undo)) (\<lambda>_. ret OBlocked)))
      (\<lambda>_. ?R) (\<lambda>_. ?R)" if "q_state r \<in> {Reserved, Captured}" "q_id r = q_id row" for r
  proof (rule triple_catch [where R = "\<lambda>_. ?R"])
    show "triple (keeps G F (places r) (jrow F r)) (andthen (rollback r) (\<lambda>_. ret ORolledBack)) (\<lambda>_. ?R) (\<lambda>_. ?R)"
      using triple_then_ret [OF triple_rollback [OF that(1) subset_refl]] that(2) by simp
  qed (use block thrown in auto)
  have handle: "triple (keeps G F (places now) (jrow F now))
      (if q_state now \<in> {Reserved, Captured} \<and> \<not> resume then
         catch (andthen (rollback now) (\<lambda>_. ret ORolledBack))
           (\<lambda>undo. if undo = LockLost then throw undo else andthen (block_row now (reason_of undo)) (\<lambda>_. ret OBlocked))
       else andthen (block_row now (reason_of e)) (\<lambda>_. ret OBlocked)) (\<lambda>_. ?R) (\<lambda>_. ?R)" if "q_id now = q_id row" for now
  proof (rule triple_if)
    assume "q_state now \<in> {Reserved, Captured} \<and> \<not> resume"
    then show "triple (keeps G F (places now) (jrow F now)) (catch (andthen (rollback now) (\<lambda>_. ret ORolledBack))
           (\<lambda>undo. if undo = LockLost then throw undo else andthen (block_row now (reason_of undo)) (\<lambda>_. ret OBlocked)))
        (\<lambda>_. ?R) (\<lambda>_. ?R)"
      using undo [OF _ that] by blast
  qed (rule triple_pre [OF block], use that resting_row in blast)
  show "triple ?R (if e = LockLost then throw e
        else andthen (load_row (q_id row)) (\<lambda>durable.
          let now = (case durable of Some r \<Rightarrow> r | None \<Rightarrow> row)
          in if q_state now \<in> {Reserved, Captured} \<and> \<not> resume then
               catch (andthen (rollback now) (\<lambda>_. ret ORolledBack))
                 (\<lambda>undo. if undo = LockLost then throw undo else andthen (block_row now (reason_of undo)) (\<lambda>_. ret OBlocked))
             else andthen (block_row now (reason_of e)) (\<lambda>_. ret OBlocked))) (\<lambda>_. ?R) (\<lambda>_. ?R)"
  proof (rule triple_if [OF thrown], rule triple_andthen [OF triple_load_row])
    fix durable
    show "triple (\<lambda>w. \<exists>r. durable = Some r \<and> q_id r = q_id row \<and> keeps G F (places r) (jrow F r) w)
       (let now = (case durable of Some r \<Rightarrow> r | None \<Rightarrow> row)
          in if q_state now \<in> {Reserved, Captured} \<and> \<not> resume then
               catch (andthen (rollback now) (\<lambda>_. ret ORolledBack))
                 (\<lambda>undo. if undo = LockLost then throw undo else andthen (block_row now (reason_of undo)) (\<lambda>_. ret OBlocked))
             else andthen (block_row now (reason_of e)) (\<lambda>_. ret OBlocked)) (\<lambda>_. ?R) (\<lambda>_. ?R)"
    proof (cases durable)
      case (Some now)
      show ?thesis
        unfolding Some Let_def option.simps
        by (rule triple_fact [where b = "q_id now = q_id row"], blast, rule triple_pre [OF handle]) auto
    qed (auto intro: triple_absurd)
  qed
qed

end
