(* ===== verification/Quarantine_Runs.thy ===== *)
theory Quarantine_Runs
  imports Quarantine_Safety
begin

text \<open>
  Whole operations of the chapter quarantine, and histories of them with every schedule of
  refusals and crashes: cleanup of a volume, restore of a row, replay after a restart.
\<close>

subsection \<open>The probe\<close>

lemma probe_names: "(c @ [x]) @ [''probe''] \<noteq> q @ [''.probe-'' @ t]"
  by simp

lemma triple_unused_quarantine_dir:
  "triple (unused_inode f) (quarantine_dir d s) (\<lambda>_. unused_inode f) (\<lambda>_. unused_inode f)"
proof -
  have made: "triple (unused_inode f) (run_if (\<not> present) (andthen (os_mkdir p) (\<lambda>_. os_fsync (dir_of p))))
      (\<lambda>_. unused_inode f) (\<lambda>_. unused_inode f)" for present p
    by (rule triple_run_if [OF triple_then [OF triple_unused_mkdir]]) (auto intro!: triple_idle [OF quiet_steps(3)])
  have ensure: "triple (unused_inode f) (ensure_private p) (\<lambda>_. unused_inode f) (\<lambda>_. unused_inode f)" for p
    unfolding ensure_private_def
    by (rule triple_skip [OF quiet_gets], simp, simp, rule triple_andthen [OF made], rule triple_idle [OF quiet_private_dir]) auto
  show ?thesis
    unfolding quarantine_dir_def Let_def
    by (rule triple_skip [OF quiet_steps(5)], simp, simp, rule triple_andthen [OF ensure], rule triple_andthen [OF ensure], rule triple_ret)
qed

lemma triple_holds_move: "p \<noteq> q \<Longrightarrow> triple (holds_only p f) (move_noreplace p q) (\<lambda>_. holds_only p f) (\<lambda>_. holds_only p f)"
proof -
  assume ne: "p \<noteq> q"
  have link: "triple (holds_only p f) (andthen (os_link p q) (\<lambda>_. andthen (os_stat p) (\<lambda>a. andthen (os_stat q) (\<lambda>b.
        if \<not> same_inode a b then throw (Refused ''link fallback produced a different file'') else os_unlink p))))
      (\<lambda>_. holds_only p f) (\<lambda>_. holds_only p f)"
    by (rule triple_andthen [OF triple_holds_only(3) [OF ne]], (rule triple_skip [OF quiet_steps(1) steady_holds_only], assumption)+,
      intro triple_if triple_holds_only(2) triple_throw)
  show ?thesis
    unfolding move_noreplace_def
    by ((rule triple_skip [OF quiet_steps(5) steady_holds_only], assumption)+, rule triple_andthen [OF triple_holds_only(4) [OF ne]],
      rule triple_andthen [OF triple_run_if [OF link]], assumption, rule triple_skip [OF quiet_steps(3) steady_holds_only], assumption,
      rule triple_idle [OF quiet_steps(3) steady_holds_only])
qed

lemma triple_probe:
  assumes "\<And>g. g \<in> G \<Longrightarrow> g \<noteq> probe_file ino"
  shows "triple (\<lambda>w. keeps G None {} J w \<and> unused_inode (probe_file ino) w) (probe token ino d q) (\<lambda>_. keeps G None {} J) (\<lambda>_. keeps G None {} J)"
proof -
  let ?f = "probe_file ino"
  let ?c = "d @ [carrier_prefix @ ''probe-'' @ token]"
  let ?s = "?c @ [''probe'']"
  let ?t = "q @ [''.probe-'' @ token]"
  let ?K = "keeps G None {} J"
  let ?U = "unused_inode ?f"
  let ?H = "holds_only ?s ?f"
  have ne: "?s \<noteq> ?t" by (rule probe_names)
  have drop_F: "?K w" if "keeps G F S J w" for F S w using that by (simp add: keeps_def)
  have clean: "triple (\<lambda>w. ?K w \<and> ?H w) (os_unlink ?s) (\<lambda>_. ?K) (\<lambda>_. ?K)"
    by (rule triple_pre [OF triple_unlink_other]) (use assms in \<open>auto simp: holds_only_def\<close>)
  have cleanup: "triple (\<lambda>w. ?K w \<and> ?H w) (andthen (pin ?c) (\<lambda>_.
            andthen (gets (\<lambda>w. file_at w ?s \<noteq> None)) (\<lambda>present.
            andthen (run_if present (os_unlink ?s)) (\<lambda>_.
            andthen (pin d) (\<lambda>_. os_rmdir ?c))))) (\<lambda>_. ?K) (\<lambda>_. ?K)"
    by (rule triple_skip [OF quiet_steps(5)], simp add: steady_conj, simp, rule triple_skip [OF quiet_gets], simp add: steady_conj, simp,
      rule triple_andthen [where R = "\<lambda>_. ?K"], rule triple_run_if [OF clean], simp, rule triple_skip [OF quiet_steps(5) steady_keeps], assumption,
      rule triple_os_rmdir)
  have moved: "triple (keeps G (Some ?f) {?s} J) (andthen (move_noreplace ?s ?t) (\<lambda>_. andthen (pin q) (\<lambda>_. os_unlink ?t))) (\<lambda>_. ?K) (\<lambda>_. ?K)"
    by (rule triple_then [OF triple_move_noreplace], assumption, erule drop_F, rule triple_skip [OF quiet_steps(5) steady_keeps], erule drop_F,
      rule triple_pre [OF triple_unlink_other]) (use assms drop_F in \<open>auto simp: keeps_def\<close>)
  have body: "triple (\<lambda>w. (?K w \<and> ?U w) \<and> ?H w) (andthen (pin ?c) (\<lambda>_. andthen (os_create_file ?s ?f) (\<lambda>_.
            andthen (move_noreplace ?s ?t) (\<lambda>_. andthen (pin q) (\<lambda>_. os_unlink ?t))))) (\<lambda>_ w. ?K w \<and> ?H w) (\<lambda>_ w. ?K w \<and> ?H w)"
  proof (rule triple_conj)
    show "triple (\<lambda>w. ?K w \<and> ?U w) (andthen (pin ?c) (\<lambda>_. andthen (os_create_file ?s ?f) (\<lambda>_.
            andthen (move_noreplace ?s ?t) (\<lambda>_. andthen (pin q) (\<lambda>_. os_unlink ?t))))) (\<lambda>_. ?K) (\<lambda>_. ?K)"
      by (rule triple_skip [OF quiet_steps(5)], simp add: steady_conj, simp, rule triple_andthen [OF triple_os_create moved])
    show "triple ?H (andthen (pin ?c) (\<lambda>_. andthen (os_create_file ?s ?f) (\<lambda>_.
            andthen (move_noreplace ?s ?t) (\<lambda>_. andthen (pin q) (\<lambda>_. os_unlink ?t))))) (\<lambda>_. ?H) (\<lambda>_. ?H)"
      by (rule triple_skip [OF quiet_steps(5) steady_holds_only], assumption, rule triple_andthen [OF triple_holds_only(1)],
        rule triple_andthen [OF triple_holds_move [OF ne]], rule triple_skip [OF quiet_steps(5) steady_holds_only], assumption, rule triple_holds_only(2))
  qed
  have "dir_of ?s = ?c" unfolding dir_of_def by (rule butlast_snoc)
  then have empty: "?H w" if "\<forall>x f. file_at w x = Some f \<longrightarrow> dir_of x \<noteq> ?c" for w
    using that unfolding holds_only_def by blast
  have made: "triple (\<lambda>w. ?K w \<and> ?U w) (os_mkdir ?c) (\<lambda>_ w. (?K w \<and> ?U w) \<and> ?H w) (\<lambda>_. ?K)"
    by (rule triple_weaken [OF triple_conj [OF triple_os_mkdir triple_unused_mkdir]]) (use empty in \<open>blast+\<close>)
  show ?thesis
    unfolding probe_def Let_def
    by (rule triple_skip [OF quiet_steps(5)], simp add: steady_conj, simp, rule triple_andthen [OF made], rule triple_ensure [OF body])
      (use cleanup in auto)
qed

subsection \<open>Inspection and reservation\<close>

lemma quiet_verify_candidate [idle_rules]: "quiet (verify_candidate sha volume pages entry p)"
  unfolding verify_candidate_def loose_digest_def Let_def by (intro idle_rules)

lemma quiet_verify_candidates [idle_rules]: "quiet (verify_candidates sha volume pages volume_path a es)"
proof (induction es)
  case (Cons e es)
  obtain entry p c where e: "e = (entry, p, c)" by (cases e)
  show ?case unfolding e verify_candidates.simps by (intro idle_rules Cons.IH)
qed (simp add: quiet_ret)

lemma quiet_inspect_volume: "quiet (inspect_volume sha s v)"
  unfolding inspect_volume_def Let_def by (intro idle_rules)

definition reserved :: "q_row \<Rightarrow> bool" where
  "reserved r \<longleftrightarrow> q_state r = Reserved \<and> q_carrier r = None"

lemma reserve_db_cases:
  assumes "reserve_db token c s db = Inr (r, db')"
  obtains "r = None" "db' = db"
  | row where "r = Some (q_id row)" "q_id row = qd_next db" "reserved row" "q_series row = s" "q_original row = cd_path c"
      "q_target row = Some (quarantine_target (cd_path c) s (q_id row))" "\<not> active_for_series s db"
      "db' = db\<lparr>qd_rows := qd_rows db @ [row], qd_next := qd_next db + 1\<rparr>"
      "cd_path c \<in> pv_path ` set (qd_provenance db)"
proof (cases r)
  case None
  then show ?thesis using assms that(1) by (auto simp: reserve_db_def Let_def split: if_splits)
next
  case (Some i)
  then show ?thesis
    using assms by (intro that(2) [of "last (qd_rows db')"])
      (auto simp: reserve_db_def Let_def fenced_def reserved_def list_ex_iff split: if_splits intro: rev_image_eqI)
qed

lemma reserve_db_jrow:
  assumes ok: "journal_ok db" and r: "reserve_db token c s db = Inr (r, db')"
  shows "if r = None then journal_ok db' else \<exists>row. r = Some (q_id row) \<and> reserved row \<and> jrow None row db'"
  using r
proof (cases rule: reserve_db_cases)
  case (2 row)
  have "distinct (map q_id (qd_rows db'))" using ok 2 by (auto simp: journal_ok_def)
  moreover have "distinct (map q_series (filter active_row (qd_rows db')))"
    using ok 2 by (auto simp: journal_ok_def active_for_series_def list_ex_iff)
  moreover have "row_ok row" using ok 2 by (auto simp: row_ok_def reserved_def journal_ok_def)
  moreover have "row_ok x \<and> q_id x < qd_next db'" if "x \<in> set (qd_rows db')" for x
    using that ok 2 \<open>row_ok row\<close> by (auto simp: journal_ok_def)
  ultimately have "jrow None row db'" using ok 2 by (simp add: jrow_def journal_ok_def)
  with 2(1,3) show ?thesis by auto
qed (use ok in simp)

subsection \<open>Operations\<close>

definition sound :: "stored_file set \<Rightarrow> q_db durable \<Rightarrow> bool" where
  "sound G = keeps G None {} journal_ok"

lemma steady_sound [simp]: "steady (sound G)"
  by (simp add: sound_def)

lemma resting_sound: "resting G F i w \<Longrightarrow> sound G w"
  by (auto simp: resting_def sound_def keeps_def jrow_def)

lemma sound_row: "sound G w \<Longrightarrow> r \<in> set (qd_rows (w_journal w)) \<Longrightarrow> keeps G None S (jrow None r) w"
  by (simp add: sound_def keeps_def jrow_def)

lemma triple_reserve:
  "triple (sound G) (transact (reserve_db token c s))
    (\<lambda>r w. if r = None then sound G w else \<exists>row. r = Some (q_id row) \<and> reserved row \<and> keeps G None (places row) (jrow None row) w)
    (\<lambda>_. sound G)"
  unfolding sound_def
  by (rule triple_weaken [OF triple_transact [where G = G and F = None and S = "{}" and K = "\<lambda>r db. if r = None then journal_ok db
      else \<exists>row. r = Some (q_id row) \<and> reserved row \<and> jrow None row db", OF reserve_db_jrow]]) (auto simp: keeps_def split: if_splits)

lemma triple_load_reserved:
  "triple (\<lambda>w. \<exists>row. i = q_id row \<and> reserved row \<and> keeps G None (places row) (jrow None row) w) (load_row i)
    (\<lambda>x w. \<exists>r. x = Some r \<and> reserved r \<and> keeps G None (places r) (jrow None r) w) (\<lambda>_. sound G)"
  unfolding load_row_def
proof (rule triple_effect)
  let ?P = "\<lambda>w. \<exists>row. i = q_id row \<and> reserved row \<and> keeps G None (places row) (jrow None row) w"
  show "steady ?P" by (simp add: steady_def keeps_def)
  show "sound G w" "sound G w" if "?P w" for w using that resting_sound resting_row by blast+
  show "triple ?P (gets (\<lambda>w. find (\<lambda>r. q_id r = i) (qd_rows (w_journal w))))
     (\<lambda>x w. \<exists>r. x = Some r \<and> reserved r \<and> keeps G None (places r) (jrow None r) w) (\<lambda>_. sound G)"
  proof (rule triple_gets)
    fix w
    assume "?P w"
    then obtain row where row: "i = q_id row" "reserved row" "keeps G None (places row) (jrow None row) w" by blast
    with jrow_find [OF keeps_journal [OF row(3)]]
    show "\<exists>r. find (\<lambda>r. q_id r = i) (qd_rows (w_journal w)) = Some r \<and> reserved r \<and> keeps G None (places r) (jrow None r) w" by simp
  qed
qed

lemma triple_settle_reserved:
  "triple (\<lambda>w. \<exists>r. x = Some r \<and> reserved r \<and> keeps G None (places r) (jrow None r) w)
    (case x of None \<Rightarrow> throw (Refused ''assertion'') | Some row \<Rightarrow> settle False row) (\<lambda>_. sound G) (\<lambda>_. sound G)"
proof (cases x)
  case (Some r)
  show ?thesis
    unfolding Some option.simps
  proof (rule triple_fact [where b = "reserved r"], blast)
    assume "reserved r"
    then have "may_settle False r" by (simp add: may_settle_def reserved_def)
    then have "triple (keeps G None (places r) (jrow None r)) (settle False r) (\<lambda>_. sound G) (\<lambda>_. sound G)"
      by (rule triple_weaken [OF triple_settle]) (auto dest: resting_sound)
    then show "triple (\<lambda>w. \<exists>ra. r = ra \<and> reserved ra \<and> keeps G None (places ra) (jrow None ra) w) (settle False r) (\<lambda>_. sound G) (\<lambda>_. sound G)"
      by (rule triple_pre) auto
  qed
qed (auto intro: triple_absurd)

lemma triple_cleanup_rows: "triple (sound G) (cleanup_rows tokens n s cs sm) (\<lambda>_. sound G) (\<lambda>_. sound G)"
proof (induction cs arbitrary: n sm)
  case Nil
  show ?case by (simp add: triple_ret)
next
  case (Cons c cs)
  have after: "triple (\<lambda>w. if r = None then sound G w
        else \<exists>row. r = Some (q_id row) \<and> reserved row \<and> keeps G None (places row) (jrow None row) w)
      (case r of
         None \<Rightarrow> cleanup_rows tokens (Suc n) s cs (sm\<lparr>sm_skipped := sm_skipped sm @ [(cd_suwayomi c, ''changed before reservation'')]\<rparr>)
       | Some i \<Rightarrow>
           andthen (load_row i) (\<lambda>loaded.
           case loaded of
             None \<Rightarrow> throw (Refused ''assertion'')
           | Some row \<Rightarrow>
               andthen (settle False row) (\<lambda>outcome.
               if outcome = OQuarantined then cleanup_rows tokens (Suc n) s cs (sm\<lparr>sm_quarantined := Suc (sm_quarantined sm)\<rparr>)
               else if outcome = OBlocked then ret sm else cleanup_rows tokens (Suc n) s cs sm)))
      (\<lambda>_. sound G) (\<lambda>_. sound G)" for r
  proof (cases r)
    case (Some i)
    have settle: "triple (\<lambda>w. \<exists>r. x = Some r \<and> reserved r \<and> keeps G None (places r) (jrow None r) w)
      (case x of None \<Rightarrow> throw (Refused ''assertion'')
           | Some row \<Rightarrow> andthen (settle False row) (\<lambda>outcome.
               if outcome = OQuarantined then cleanup_rows tokens (Suc n) s cs (sm\<lparr>sm_quarantined := Suc (sm_quarantined sm)\<rparr>)
               else if outcome = OBlocked then ret sm else cleanup_rows tokens (Suc n) s cs sm))
      (\<lambda>_. sound G) (\<lambda>_. sound G)" for x
    proof (cases x)
      case (Some row)
      show ?thesis
        unfolding Some option.simps
        by (rule triple_andthen [OF triple_settle_reserved [where x = x, unfolded Some option.simps]], intro triple_if Cons.IH triple_ret)
    qed (auto intro: triple_absurd)
    show ?thesis
      unfolding Some option.simps
      by (rule triple_andthen [OF triple_pre [OF triple_load_reserved] settle]) auto
  qed (use Cons.IH in simp)
  show ?case
    unfolding cleanup_rows.simps
    by (rule triple_skip [OF quiet_steps(4) steady_sound], assumption, rule triple_andthen [OF triple_reserve after])
qed

lemma triple_cleanup_volume:
  assumes "\<And>g. g \<in> G \<Longrightarrow> g \<noteq> probe_file ino"
  shows "triple (\<lambda>w. sound G w \<and> unused_inode (probe_file ino) w) (cleanup_volume sha tokens pt ino s v) (\<lambda>_. sound G) (\<lambda>_. sound G)"
proof -
  let ?P = "\<lambda>w. sound G w \<and> unused_inode (probe_file ino) w"
  have steady: "steady ?P" by (simp add: steady_conj)
  have try_probe: "triple ?P (catch (andthen verify_guard (\<lambda>_. andthen (quarantine_dir d s)
         (\<lambda>folder. andthen (probe pt ino d folder) (\<lambda>_. ret None))))
       (\<lambda>e. case e of OsFailure \<Rightarrow> ret (Some (reason_of e)) | Refused _ \<Rightarrow> ret (Some (reason_of e)) | _ \<Rightarrow> throw e))
     (\<lambda>_. sound G) (\<lambda>_. sound G)" for d
  proof (rule triple_catch [where R = "\<lambda>_. sound G"])
    show "triple ?P (andthen verify_guard (\<lambda>_. andthen (quarantine_dir d s)
         (\<lambda>folder. andthen (probe pt ino d folder) (\<lambda>_. ret (None :: string option))))) (\<lambda>_. sound G) (\<lambda>_. sound G)"
      unfolding sound_def
      by (rule triple_skip [OF quiet_steps(4) steady [unfolded sound_def]], simp,
        rule triple_then [OF triple_conj [OF triple_quarantine_dir triple_unused_quarantine_dir]], assumption, simp,
        rule triple_pre [OF triple_then_ret [OF triple_probe]], use assms in auto)
  qed (auto intro!: triple_ret triple_throw split: failure.splits)
  have rows: "triple (sound G) (case refusal of Some r \<Rightarrow> ret (sm\<lparr>sm_refused := r\<rparr>)
      | None \<Rightarrow> cleanup_rows tokens 0 s cs sm) (\<lambda>_. sound G) (\<lambda>_. sound G)" for refusal cs sm
    by (cases refusal) (auto intro: triple_ret triple_cleanup_rows)
  show ?thesis
    unfolding cleanup_volume_def Let_def
    by (rule triple_skip [OF quiet_gets steady], simp, rule triple_if, rule triple_ret, simp,
      rule triple_skip [OF quiet_inspect_volume steady], simp, intro triple_case(1-3) triple_if triple_andthen [OF try_probe rows] triple_ret)
      simp_all
qed

subsection \<open>Restore and replay\<close>

lemma restore_begin_cases:
  assumes "restore_begin i s db = Inr (r, db')"
  obtains out where "r = Inl out" "db' = db"
  | row where "row \<in> set (qd_rows db)" "q_id row = i" "q_state row = Quarantined" "\<not> active_for_series (q_series row) db"
      "r = Inr (row\<lparr>q_state := Restoring, q_diagnostic := []\<rparr>)"
      "cas_row row (\<lambda>r. r\<lparr>q_state := Restoring, q_diagnostic := []\<rparr>) db = Inr db'"
proof (cases r)
  case (Inl out)
  then show ?thesis
    using assms that(1) by (auto simp: restore_begin_def Let_def map_sum_Inr split: option.splits if_splits)
next
  case (Inr x)
  with assms obtain row where row: "find (\<lambda>r. q_id r = i) (qd_rows db) = Some row"
    by (auto simp: restore_begin_def split: option.splits)
  show ?thesis
    by (rule that(2) [of row]) (use assms Inr row find_key_id [OF row] in
      \<open>simp_all add: restore_begin_def fenced_def Let_def map_sum_Inr split: if_splits\<close>)
qed

text \<open>The row of a quarantined file becomes active; its file is still where it was.\<close>

lemma restore_begin_keeps:
  assumes rest: "resting G F i w" and r: "restore_begin i s (w_journal w) = Inr (r, db')"
  shows "case r of Inl out \<Rightarrow> db' = w_journal w
    | Inr row \<Rightarrow> q_id row = i \<and> keeps G F (places row) (jrow F row) (w\<lparr>w_journal := db'\<rparr>)"
  using r
proof (cases rule: restore_begin_cases)
  case (2 row)
  let ?g = "\<lambda>r. r\<lparr>q_state := Restoring, q_diagnostic := []\<rparr>"
  obtain row' where row': "q_id row' = i" "keeps G F (places row') (jrow F row') w"
    using rest by (auto simp: resting_def)
  have "row' = row"
    using 2(1,2) row' keeps_journal [OF row'(2)] distinct_key_unique [of q_id "qd_rows (w_journal w)" row' row]
    by (auto simp: jrow_def journal_ok_def)
  with row' have k: "keeps G F (places row) (jrow F row) w" by simp
  have j: "jrow F row (w_journal w)" by (rule keeps_journal [OF k])
  have "allowed ?g row (w_journal w)"
    using jrow_ok [OF j] 2(3,4) by (auto simp: allowed_def row_ok_def carrier_path_def split: option.splits)
  then have "jrow F (?g row) db'" by (rule cas_allowed [OF j _ 2(6)])
  then have "keeps G F (places row) (jrow F (?g row)) (w\<lparr>w_journal := db'\<rparr>)" by (rule keeps_journal_update [OF k])
  moreover have "places row \<subseteq> places (?g row)" using 2(3) by (auto simp: places_def)
  ultimately have "keeps G F (places (?g row)) (jrow F (?g row)) (w\<lparr>w_journal := db'\<rparr>)" by (rule keeps_wider)
  then show ?thesis using 2(2,5) by simp
qed simp

lemma triple_restore: "triple (resting G F i) (restore i s) (\<lambda>_. resting G F i) (\<lambda>_. resting G F i)"
proof -
  have begin_: "triple (resting G F i) (transact (restore_begin i s))
      (\<lambda>r w. case r of Inl out \<Rightarrow> resting G F i w | Inr row \<Rightarrow> q_id row = i \<and> keeps G F (places row) (jrow F row) w) (\<lambda>_. resting G F i)"
    unfolding transact_def
  proof (rule triple_effect)
    show "triple (resting G F i) (\<lambda>w. case restore_begin i s (w_journal w) of Inl e \<Rightarrow> (Inl e, w) | Inr (x, j) \<Rightarrow> (Inr x, w\<lparr>w_journal := j\<rparr>))
      (\<lambda>r w. case r of Inl out \<Rightarrow> resting G F i w | Inr row \<Rightarrow> q_id row = i \<and> keeps G F (places row) (jrow F row) w) (\<lambda>_. resting G F i)"
    proof (rule tripleI)
      fix w
      assume rest: "resting G F i w"
      show "case case restore_begin i s (w_journal w) of Inl e \<Rightarrow> (Inl e, w) | Inr (x, j) \<Rightarrow> (Inr x, w\<lparr>w_journal := j\<rparr>) of
          (Inr r, w) \<Rightarrow> (case r of Inl out \<Rightarrow> resting G F i w | Inr row \<Rightarrow> q_id row = i \<and> keeps G F (places row) (jrow F row) w)
        | (Inl e, w) \<Rightarrow> resting G F i w"
      proof (cases "restore_begin i s (w_journal w)")
        case (Inr x)
        obtain r j where x: "x = (r, j)" by (cases x)
        show ?thesis using rest restore_begin_keeps [OF rest Inr [unfolded x]] Inr x by (cases r) simp_all
      qed (use rest in simp)
    qed
  qed auto
  have body: "triple (resting G F i) (andthen verify_guard (\<lambda>_. andthen (transact (restore_begin i s)) (\<lambda>r.
        case r of Inl out \<Rightarrow> ret out | Inr row \<Rightarrow> settle True row))) (\<lambda>_. resting G F i) (\<lambda>_. resting G F i)"
  proof (rule triple_skip [OF quiet_steps(4) steady_resting], assumption, rule triple_andthen [OF begin_])
    fix r
    show "triple (\<lambda>w. case r of Inl out \<Rightarrow> resting G F i w | Inr row \<Rightarrow> q_id row = i \<and> keeps G F (places row) (jrow F row) w)
      (case r of Inl out \<Rightarrow> ret out | Inr row \<Rightarrow> settle True row) (\<lambda>_. resting G F i) (\<lambda>_. resting G F i)"
    proof (cases r)
      case (Inr row)
      have k: "triple (keeps G F (places row) (jrow F row)) (settle True row) (\<lambda>_. resting G F i) (\<lambda>_. resting G F i)" if "q_id row = i"
        using triple_settle [of True row G F] that by (simp add: may_settle_def)
      show ?thesis
        unfolding Inr sum.case by (rule triple_fact [where b = "q_id row = i"], simp, rule triple_pre [OF k], simp_all)
    qed (auto intro: triple_ret)
  qed
  show ?thesis
    unfolding restore_def
    by (rule triple_catch [OF body]) (auto intro!: triple_ret triple_throw split: failure.splits)
qed

lemma triple_replay: "triple (resting G F i) (replay i) (\<lambda>_. resting G F i) (\<lambda>_. resting G F i)"
proof -
  have settle: "triple (\<lambda>w. \<exists>r. x = Some r \<and> q_id r = i \<and> keeps G F (places r) (jrow F r) w)
     (case x of None \<Rightarrow> ret OTerminal | Some row \<Rightarrow> if \<not> active_row row then ret OTerminal else settle True row)
     (\<lambda>_. resting G F i) (\<lambda>_. resting G F i)" for x
  proof (cases x)
    case (Some row)
    have ret: "triple (keeps G F (places row) (jrow F row)) (ret OTerminal) (\<lambda>_. resting G F i) (\<lambda>_. resting G F i)" if "q_id row = i"
      by (rule triple_ret) (rule resting_row [OF _ that])
    have "triple (keeps G F (places row) (jrow F row)) (settle True row) (\<lambda>_. resting G F i) (\<lambda>_. resting G F i)" if "q_id row = i"
      using triple_settle [of True row G F] that by (simp add: may_settle_def)
    with ret have k: "triple (keeps G F (places row) (jrow F row)) (if \<not> active_row row then ret OTerminal else settle True row)
        (\<lambda>_. resting G F i) (\<lambda>_. resting G F i)" if "q_id row = i" using that by (intro triple_if) blast+
    show ?thesis
      unfolding Some option.simps by (rule triple_fact [where b = "q_id row = i"], simp, rule triple_pre [OF k], simp_all)
  qed (auto intro: triple_absurd)
  show ?thesis
    unfolding replay_def
    by (rule triple_catch [where R = "\<lambda>_. resting G F i"], rule triple_skip [OF quiet_steps(4) steady_resting], assumption,
      rule triple_andthen [OF triple_load_row settle], assumption) (auto intro!: triple_ret triple_throw split: failure.splits)
qed

subsection \<open>Histories\<close>

text \<open>
  \<open>Cleanup\<close> carries what the run draws: the reservation tokens, the probe's token and the inode the
  file system gives the probe file. A history runs operations one after the other, each under a
  schedule of its own; a schedule that ends in \<open>Die\<close> is a crash, and the next operation runs after
  the restart on what the crash left.
\<close>

datatype quarantine_op =
    Cleanup "nat \<Rightarrow> string" string int int int
  | Restore int "int option"
  | Replay int

definition run_op :: "(bytes \<Rightarrow> string) \<Rightarrow> quarantine_op \<Rightarrow> q_db durable \<Rightarrow> q_db durable" where
  "run_op sha op w = (case op of
     Cleanup tokens probe_token ino s v \<Rightarrow> snd (cleanup_volume sha tokens probe_token ino s v w)
   | Restore i s \<Rightarrow> snd (restore i s w)
   | Replay i \<Rightarrow> snd (replay i w))"

text \<open>The file system gives a new file an inode that no file has.\<close>

definition fair_inode :: "quarantine_op \<Rightarrow> q_db durable \<Rightarrow> bool" where
  "fair_inode op w = (case op of Cleanup _ _ ino _ _ \<Rightarrow> unused_inode (probe_file ino) w | _ \<Rightarrow> True)"

fun history :: "(bytes \<Rightarrow> string) \<Rightarrow> (quarantine_op \<times> fault list) list \<Rightarrow> q_db durable \<Rightarrow> q_db durable" where
  "history sha [] w = w"
| "history sha ((op, fs) # rest) w = history sha rest (run_op sha op (w\<lparr>w_faults := fs\<rparr>))"

fun fair :: "(bytes \<Rightarrow> string) \<Rightarrow> (quarantine_op \<times> fault list) list \<Rightarrow> q_db durable \<Rightarrow> bool" where
  "fair sha [] w = True"
| "fair sha ((op, fs) # rest) w = (fair_inode op w \<and> fair sha rest (run_op sha op (w\<lparr>w_faults := fs\<rparr>)))"

lemma idle_load_row: "idle (load_row i) (\<lambda>x w. x = find (\<lambda>r. q_id r = i) (qd_rows (w_journal w)))"
  unfolding load_row_def by (rule idle_effect, rule idle_keep) (auto simp: gets_def)

abbreviation absent :: "stored_file set \<Rightarrow> int \<Rightarrow> q_db durable \<Rightarrow> bool" where
  "absent G i w \<equiv> sound G w \<and> find (\<lambda>r. q_id r = i) (qd_rows (w_journal w)) = None"

lemma steady_absent: "steady (absent G i)"
  by (intro steady_conj steady_sound steady_look)

lemma triple_absent_replay: "triple (absent G i) (replay i) (\<lambda>_. sound G) (\<lambda>_. sound G)"
  unfolding replay_def
proof (rule triple_catch [where R = "\<lambda>_. sound G"], rule triple_skip [OF quiet_steps(4) steady_absent], simp,
    rule triple_read [OF idle_load_row steady_absent], simp)
  fix x
  show "triple (\<lambda>w. absent G i w \<and> x = find (\<lambda>r. q_id r = i) (qd_rows (w_journal w)))
    (case x of None \<Rightarrow> ret OTerminal | Some row \<Rightarrow> if \<not> active_row row then ret OTerminal else settle True row) (\<lambda>_. sound G) (\<lambda>_. sound G)"
    by (cases x) (auto intro: triple_ret triple_absurd)
qed (auto intro!: triple_ret triple_throw split: failure.splits)

lemma triple_absent_restore: "triple (absent G i) (restore i s) (\<lambda>_. sound G) (\<lambda>_. sound G)"
  unfolding restore_def
proof (rule triple_catch [where R = "\<lambda>_. sound G"], rule triple_skip [OF quiet_steps(4) steady_absent], simp, rule triple_andthen)
  show "triple (absent G i) (transact (restore_begin i s)) (\<lambda>r w. r = Inl OTerminal \<and> sound G w) (\<lambda>_. sound G)"
    unfolding transact_def by (rule triple_effect [OF steady_absent]) (auto simp: triple_def restore_begin_def)
  show "triple (\<lambda>w. r = Inl OTerminal \<and> sound G w) (case r of Inl out \<Rightarrow> ret out | Inr row \<Rightarrow> settle True row) (\<lambda>_. sound G) (\<lambda>_. sound G)" for r
    by (cases r) (auto intro: triple_ret triple_absurd)
qed (auto intro!: triple_ret triple_throw split: failure.splits)

lemma sound_resume:
  assumes "sound G w"
  shows "sound G (snd (replay i w))" "sound G (snd (restore i s w))"
proof -
  have "sound G (snd (replay i w)) \<and> sound G (snd (restore i s w))"
  proof (cases "find (\<lambda>r. q_id r = i) (qd_rows (w_journal w))")
    case None
    with assms triple_snd [OF triple_absent_replay] triple_snd [OF triple_absent_restore] show ?thesis by blast
  next
    case (Some r)
    from find_key_id [OF this] have "resting G None i w"
      using sound_row [OF assms] resting_row by blast
    with triple_snd [OF triple_replay] triple_snd [OF triple_restore] resting_sound show ?thesis by blast
  qed
  then show "sound G (snd (replay i w))" "sound G (snd (restore i s w))" by auto
qed

lemma sound_run_op:
  assumes "sound G w" "fair_inode op w" shows "sound G (run_op sha op w)"
proof (cases op)
  case (Cleanup tokens pt ino s v)
  with assms have u: "unused_inode (probe_file ino) w" by (simp add: fair_inode_def)
  have "g \<noteq> probe_file ino" if g: "g \<in> G" for g
    using keeps_named [OF assms(1) [unfolded sound_def] g] by (auto dest: unused_inode_at [OF u])
  from triple_snd [OF triple_cleanup_volume [OF this]] assms(1) u Cleanup show ?thesis by (simp add: run_op_def)
qed (use assms sound_resume in \<open>simp_all add: run_op_def\<close>)

lemma sound_history: "sound G w \<Longrightarrow> fair sha hs w \<Longrightarrow> sound G (history sha hs w)"
proof (induction hs arbitrary: w)
  case (Cons h hs)
  obtain op fs where h: "h = (op, fs)" by (cases h)
  have w: "sound G (w\<lparr>w_faults := fs\<rparr>)" using Cons.prems(1) by (simp add: sound_def keeps_def)
  have "fair_inode op (w\<lparr>w_faults := fs\<rparr>)"
    using Cons.prems(2) by (auto simp: h fair_inode_def unused_inode_def split: quarantine_op.splits)
  then show ?case using Cons.IH [OF sound_run_op [OF w]] Cons.prems(2) by (simp add: h)
qed simp

lemma sound_world: "sound G w \<longleftrightarrow> fs_ok w \<and> journal_ok (w_journal w) \<and> (\<forall>g \<in> G. \<exists>p. file_at w p = Some g)"
  by (auto simp: sound_def keeps_def)

text \<open>
  C17: No history of cleanups, restores and replays, whatever system calls and transactions are
  refused and wherever the process dies, loses a file: every file that had a name has one, and the
  file system and the journal stay well formed.
\<close>

theorem quarantine_loses_no_file:
  assumes "fs_ok w" "journal_ok (w_journal w)" "fair sha hs w" "file_at w p = Some f"
  shows "(\<exists>q. file_at (history sha hs w) q = Some f) \<and> fs_ok (history sha hs w) \<and> journal_ok (w_journal (history sha hs w))"
  using sound_history [of "{f}" w sha hs] assms by (auto simp: sound_world)

lemma fs_okI:
  assumes "list_all (\<lambda>(p, f). is_dir w (dir_of p)) (w_files w)"
    "list_all (\<lambda>(p, f). list_all (\<lambda>(q, g). same_inode f g \<longrightarrow> f = g) (w_files w)) (w_files w)"
  shows "fs_ok w"
  using assms by (fastforce simp: fs_ok_def file_at_def list_all_iff dest!: map_of_SomeD)

definition demo_loose :: stored_file where
  "demo_loose = \<lparr>f_dev = 1, f_ino = 7, f_reg = True, f_size = 10, f_mtime = 3, f_sha = ''a'', f_archive = None\<rparr>"

definition demo_chapter :: chapter_entry where
  "demo_chapter = \<lparr>ce_id = 5, ce_series = 2, ce_volume = Some 4, ce_status = ''downloaded'', ce_path = Some [''lib'', ''s'', ''c.cbz''],
     ce_size = Some 10, ce_quality = None, ce_imported = None, ce_rest = []\<rparr>"

definition demo_quarantine :: q_row where
  "demo_quarantine = \<lparr>q_id = 1, q_token = replicate 32 CHR ''0'', q_series = 2, q_volume = 4, q_chapter = 5, q_assembly = 6, q_suwayomi = 8,
     q_state = Committed, q_original = [''lib'', ''s'', ''c.cbz''], q_volume_path = [''lib'', ''s'', ''v.cbz''],
     q_carrier = Some [''lib'', ''s'', carrier_prefix @ dec_int 1 @ ''-'' @ replicate 12 CHR ''0''],
     q_target = Some (quarantine_target [''lib'', ''s'', ''c.cbz''] 2 1), q_file = id_of demo_loose, q_guard = demo_chapter, q_diagnostic = []\<rparr>"

definition quarantine_demo :: "q_db durable" where
  "quarantine_demo = \<lparr>w_files = [([''lib'', ''s'', carrier_prefix @ dec_int 1 @ ''-'' @ replicate 12 CHR ''0'', ''c.cbz''], demo_loose)],
     w_dirs = [([''lib''], True), ([''lib'', ''s''], True), ([''lib'', ''s'', carrier_prefix @ dec_int 1 @ ''-'' @ replicate 12 CHR ''0''], True)],
     w_managed = (\<lambda>_. True), w_rename = False, w_faults = [],
     w_journal = \<lparr>qd_rows = [demo_quarantine], qd_chapters = [demo_chapter], qd_provenance = [], qd_volumes = [], qd_assemblies = [],
       qd_fenced = [], qd_next = 2, qd_enabled = True\<rparr>\<rparr>"

lemma quarantine_demo_ok: "fs_ok quarantine_demo" "journal_ok (w_journal quarantine_demo)"
  by (rule fs_okI) (auto simp: quarantine_demo_def is_dir_def dir_of_def journal_ok_def row_ok_def demo_quarantine_def carrier_path_def numeral_eq_Suc)

lemma demo_file_at: "file_at quarantine_demo [''lib'', ''s'', carrier_prefix @ dec_int 1 @ ''-'' @ replicate 12 CHR ''0'', ''c.cbz''] = Some demo_loose"
  by (simp add: file_at_def quarantine_demo_def)

theorem quarantine_loses_no_file_witness:
  "\<exists>q. file_at (history (\<lambda>_. []) [(Replay 1, [Proceed, Proceed, Die]), (Restore 1 None, []), (Replay 1, [])] quarantine_demo) q = Some demo_loose"
proof -
  have fair: "fair (\<lambda>_. []) [(Replay 1, [Proceed, Proceed, Die]), (Restore 1 None, []), (Replay 1, [])] quarantine_demo"
    by (simp add: fair_inode_def)
  show ?thesis by (rule conjunct1 [OF quarantine_loses_no_file [OF quarantine_demo_ok fair demo_file_at]])
qed

text \<open>
  C18: At most one quarantine row of a series is active at any time, whatever happens: a row is
  reserved, or a restore begins, only while the series has none.
\<close>

theorem one_active_row_per_series:
  assumes "fs_ok w" "journal_ok (w_journal w)" "fair sha hs w"
  shows "length (filter (\<lambda>r. active_row r \<and> q_series r = s) (qd_rows (w_journal (history sha hs w)))) \<le> 1"
proof -
  let ?rows = "filter active_row (qd_rows (w_journal (history sha hs w)))"
  have "sound {} (history sha hs w)" by (rule sound_history) (use assms in \<open>simp_all add: sound_world\<close>)
  then have "distinct (map q_series ?rows)" unfolding sound_world journal_ok_def by blast
  from length_filter_key [OF this, of s "\<lambda>_. True"]
  have "length (filter (\<lambda>r. q_series r = s) ?rows) \<le> 1" by (simp split: if_splits)
  then show ?thesis unfolding filter_filter .
qed

theorem one_active_row_per_series_witness:
  "length (filter (\<lambda>r. active_row r \<and> q_series r = 2) (qd_rows (w_journal
     (history (\<lambda>_. []) [(Replay 1, [Die]), (Cleanup (\<lambda>_. []) [] 9 2 4, [Refuse])] quarantine_demo)))) \<le> 1"
proof (rule one_active_row_per_series [OF quarantine_demo_ok])
  show "fair (\<lambda>_. []) [(Replay 1, [Die]), (Cleanup (\<lambda>_. []) [] 9 2 4, [Refuse])] quarantine_demo"
    by (simp add: fair_inode_def run_op_def replay_def catch_def andthen_def verify_guard_def effect_def quarantine_demo_def
        unused_inode_def same_inode_def probe_file_def demo_loose_def)
qed

text \<open>
  C19: While a row is replayed or restored, under every schedule of refusals and crashes, its file is
  always at a name the row's durable state names: at the original or the carrier before the
  commit, at the carrier or the target after it, at the target once quarantined, at the target or
  the original during a restore, and at the original once restored or rolled back.
\<close>

theorem quarantine_row_names_its_file:
  assumes "fs_ok w" "journal_ok (w_journal w)" "r \<in> set (qd_rows (w_journal w))"
    "f_reg f" "id_of f = q_file r" "p \<in> places r" "file_at w p = Some f"
    "op = Replay (q_id r) \<or> op = Restore (q_id r) s"
  shows "\<exists>r' p'. r' \<in> set (qd_rows (w_journal (run_op sha op w))) \<and> q_id r' = q_id r \<and> q_file r' = q_file r
    \<and> p' \<in> places r' \<and> file_at (run_op sha op w) p' = Some f"
proof -
  have "keeps {} (Some f) (places r) (jrow (Some f) r) w"
    using assms(1-7) by (auto simp: keeps_def jrow_def)
  then have "resting {} (Some f) (q_id r) w" by (rule resting_row) simp
  then have "resting {} (Some f) (q_id r) (run_op sha op w)"
    using assms(8) triple_snd [OF triple_replay] triple_snd [OF triple_restore] by (auto simp: run_op_def)
  then obtain r' where "q_id r' = q_id r" "keeps {} (Some f) (places r') (jrow (Some f) r') (run_op sha op w)"
    by (auto simp: resting_def)
  with assms(5) show ?thesis by (auto simp: keeps_def jrow_def)
qed

theorem quarantine_row_names_its_file_witness:
  "\<exists>r' p'. r' \<in> set (qd_rows (w_journal (run_op (\<lambda>_. []) (Replay 1) (quarantine_demo\<lparr>w_faults := [Proceed, Proceed, Refuse]\<rparr>))))
    \<and> q_id r' = 1 \<and> q_file r' = id_of demo_loose
    \<and> p' \<in> places r' \<and> file_at (run_op (\<lambda>_. []) (Replay 1) (quarantine_demo\<lparr>w_faults := [Proceed, Proceed, Refuse]\<rparr>)) p' = Some demo_loose"
proof -
  let ?w = "quarantine_demo\<lparr>w_faults := [Proceed, Proceed, Refuse]\<rparr>"
  have w: "fs_ok ?w" "journal_ok (w_journal ?w)" "demo_quarantine \<in> set (qd_rows (w_journal ?w))"
    using quarantine_demo_ok by simp_all (simp add: quarantine_demo_def)
  have f: "f_reg demo_loose" "id_of demo_loose = q_file demo_quarantine"
    by (simp_all add: demo_loose_def demo_quarantine_def)
  have p: "[''lib'', ''s'', carrier_prefix @ dec_int 1 @ ''-'' @ replicate 12 CHR ''0'', ''c.cbz''] \<in> places demo_quarantine"
    by (simp add: places_def demo_quarantine_def carrier_file_def base_of_def)
  have at: "file_at ?w [''lib'', ''s'', carrier_prefix @ dec_int 1 @ ''-'' @ replicate 12 CHR ''0'', ''c.cbz''] = Some demo_loose"
    using demo_file_at by simp
  have i: "q_id demo_quarantine = 1" by (simp add: demo_quarantine_def)
  show ?thesis
    using quarantine_row_names_its_file [OF w f p at, of "Replay (q_id demo_quarantine)" None "\<lambda>_. []"] unfolding i f(2) by blast
qed

end
