(* ===== verification/Quarantine_Lifecycle.thy ===== *)
theory Quarantine_Lifecycle
  imports Quarantine_Runs
begin

text \<open>
  The states of a quarantine row over time: which steps a row can take, that no operation takes any
  other, whatever is refused and wherever the process dies, and that the recovery loop
  (\<^verbatim>\<open>drain\<close>) ends.
\<close>

subsection \<open>Steps of a row\<close>

inductive row_step :: "q_state \<Rightarrow> q_state \<Rightarrow> bool" where
  step_capture: "row_step Reserved Captured"
| step_abandon: "row_step Reserved RolledBack"
| step_commit: "row_step Captured Committed"
| step_roll_back: "row_step Captured RolledBack"
| step_quarantine: "row_step Committed Quarantined"
| step_restore: "row_step Quarantined Restoring"
| step_restored: "row_step Restoring Restored"
| step_refuse: "row_step Restoring Quarantined"

code_pred row_step .

inductive_cases row_step_from: "row_step s t"

inductive_simps row_step_simps:
  "row_step Reserved t" "row_step Captured t" "row_step Committed t" "row_step Quarantined t"
  "row_step Restoring t" "row_step Restored t" "row_step RolledBack t"

text \<open>What a committed row can become, and where it stays for good.\<close>

definition after_commit :: "q_state set" where
  "after_commit = {Committed, Quarantined, Restoring, Restored}"

lemma after_commit_closed: "row_step\<^sup>*\<^sup>* s t \<Longrightarrow> s \<in> after_commit \<Longrightarrow> t \<in> after_commit"
  by (induction rule: rtranclp_induct) (auto simp: after_commit_def elim: row_step_from)

lemma final_stays: "row_step\<^sup>*\<^sup>* s t \<Longrightarrow> s = Restored \<or> s = RolledBack \<Longrightarrow> t = s"
  by (induction rule: rtranclp_induct) (auto simp: row_step_simps)

lemma never_reserved_again: "row_step\<^sup>*\<^sup>* s t \<Longrightarrow> s \<noteq> Reserved \<Longrightarrow> t \<noteq> Reserved"
  by (induction rule: rtranclp_induct) (auto elim: row_step_from)

subsection \<open>The journal over time\<close>

definition moved :: "q_row \<Rightarrow> q_row \<Rightarrow> bool" where
  "moved r r' \<longleftrightarrow> q_id r' = q_id r \<and> q_series r' = q_series r \<and> q_original r' = q_original r \<and> q_file r' = q_file r
     \<and> row_step\<^sup>*\<^sup>* (q_state r) (q_state r')"

text \<open>\<open>progress grow\<close>: every row has moved, and rows are appended only if \<open>grow\<close>.\<close>

definition progress :: "bool \<Rightarrow> q_db \<Rightarrow> q_db \<Rightarrow> bool" where
  "progress grow db db' \<longleftrightarrow> (\<exists>rows more. qd_rows db' = rows @ more \<and> list_all2 moved (qd_rows db) rows \<and> (grow \<or> more = []))"

lemma moved_refl [simp]: "moved r r"
  by (simp add: moved_def)

lemma moved_trans: "moved r s \<Longrightarrow> moved s t \<Longrightarrow> moved r t"
  unfolding moved_def by (metis rtranclp_trans)

lemma progressI: "list_all2 moved (qd_rows db) (qd_rows db') \<Longrightarrow> progress grow db db'"
  unfolding progress_def by (rule exI [of _ "qd_rows db'"], rule exI [of _ "[]"]) simp

lemma moved_same [simp]: "list_all2 moved rows rows"
  by (simp add: list.rel_refl)

lemma progress_refl [simp]: "progress grow db db"
  by (rule progressI) simp

lemma progress_trans:
  assumes "progress grow a b" "progress grow b c" shows "progress grow a c"
proof -
  obtain rows more where b: "qd_rows b = rows @ more" "list_all2 moved (qd_rows a) rows" "grow \<or> more = []"
    using assms(1) by (auto simp: progress_def)
  obtain rows' more' where c: "qd_rows c = rows' @ more'" "list_all2 moved (rows @ more) rows'" "grow \<or> more' = []"
    using assms(2) b(1) by (auto simp: progress_def)
  then obtain us vs where uv: "rows' = us @ vs" "list_all2 moved rows us" "list_all2 moved more vs"
    by (auto simp: list_all2_append1)
  have "list_all2 moved (qd_rows a) us"
    using list_all2_trans [of moved moved moved "qd_rows a" rows us] moved_trans b(2) uv(2) by blast
  then show ?thesis unfolding progress_def using c uv b(3) by (intro exI [of _ us] exI [of _ "vs @ more'"]) auto
qed

lemma progress_grow: "progress False a b \<Longrightarrow> progress grow a b"
  by (auto simp: progress_def)

lemma progress_tables [simp]: "progress grow db (db\<lparr>qd_provenance := ps, qd_chapters := cs\<rparr>)" "progress grow db (db\<lparr>qd_chapters := cs\<rparr>)"
  by (rule progressI; simp)+

lemma progress_map: "(\<And>r. moved r (g r)) \<Longrightarrow> progress grow db (db\<lparr>qd_rows := map g (qd_rows db)\<rparr>)"
  by (rule progressI) (simp add: list_all2_conv_all_nth)

lemma progress_cas:
  assumes "cas_row row g db = Inr db'" "\<And>r. q_state r = q_state row \<Longrightarrow> moved r (g r)"
  shows "progress grow db db'"
proof -
  let ?hit = "\<lambda>r. q_id r = q_id row \<and> q_token r = q_token row \<and> q_state r = q_state row"
  have "db' = db\<lparr>qd_rows := map (\<lambda>r. if ?hit r then g r else r) (qd_rows db)\<rparr>"
    using assms(1) by (auto simp: cas_row_def Let_def split: if_splits)
  also have "progress grow db \<dots>" by (rule progress_map) (use assms(2) in auto)
  finally show ?thesis .
qed

subsection \<open>Every step makes progress\<close>

definition evolves :: "bool \<Rightarrow> (q_db, 'a) act \<Rightarrow> ('a \<Rightarrow> bool) \<Rightarrow> bool" where
  "evolves grow m R \<longleftrightarrow> (\<forall>w r w'. m w = (r, w') \<longrightarrow> progress grow (w_journal w) (w_journal w') \<and> (\<forall>x. r = Inr x \<longrightarrow> R x))"

abbreviation advances :: "bool \<Rightarrow> (q_db, 'a) act \<Rightarrow> bool" where
  "advances grow m \<equiv> evolves grow m (\<lambda>_. True)"

named_theorems evolve_rules "steps that make progress"

lemma evolvesD: "evolves grow m R \<Longrightarrow> m w = (r, w') \<Longrightarrow> progress grow (w_journal w) (w_journal w')"
  "evolves grow m R \<Longrightarrow> m w = (Inr x, w') \<Longrightarrow> R x"
  by (auto simp: evolves_def)

lemma evolvesI: "(\<And>w r w'. m w = (r, w') \<Longrightarrow> progress grow (w_journal w) (w_journal w')) \<Longrightarrow> (\<And>w x w'. m w = (Inr x, w') \<Longrightarrow> R x) \<Longrightarrow> evolves grow m R"
  by (auto simp: evolves_def)

lemma evolves_weaken: "evolves grow m R \<Longrightarrow> (\<And>x. R x \<Longrightarrow> S x) \<Longrightarrow> evolves grow m S"
  by (auto simp: evolves_def)

lemma evolves_grow: "evolves False m R \<Longrightarrow> evolves grow m R"
  by (auto simp: evolves_def progress_grow)

lemma evolves_andthen:
  assumes "evolves grow m R" "\<And>x. R x \<Longrightarrow> evolves grow (k x) Q"
  shows "evolves grow (andthen m k) Q"
proof -
  have "progress grow (w_journal w) (w_journal w') \<and> (\<forall>y. r = Inr y \<longrightarrow> Q y)" if run: "andthen m k w = (r, w')" for w r w'
  proof -
    obtain q v where m: "m w = (q, v)" by (cases "m w")
    note step = evolvesD(1) [OF assms(1) m]
    show ?thesis
    proof (cases q)
      case (Inl e)
      with run m step show ?thesis by (auto simp: andthen_def)
    next
      case (Inr x)
      with m evolvesD(2) [OF assms(1)] have "R x" by blast
      moreover have "k x v = (r, w')" using run m Inr by (simp add: andthen_def)
      ultimately show ?thesis
        using evolvesD [OF assms(2)] progress_trans [OF step] by blast
    qed
  qed
  then show ?thesis by (auto simp: evolves_def)
qed

lemma evolves_catch:
  assumes "evolves grow m R" "\<And>e. evolves grow (h e) R"
  shows "evolves grow (catch m h) R"
proof -
  have "progress grow (w_journal w) (w_journal w') \<and> (\<forall>y. r = Inr y \<longrightarrow> R y)" if run: "catch m h w = (r, w')" for w r w'
  proof -
    obtain q v where m: "m w = (q, v)" by (cases "m w")
    note step = evolvesD(1) [OF assms(1) m]
    show ?thesis
    proof (cases "\<exists>e. q = Inl e \<and> e \<noteq> Crashed")
      case True
      then obtain e where "q = Inl e" "e \<noteq> Crashed" by auto
      with run m have "h e v = (r, w')" by (simp add: catch_def)
      with evolvesD [OF assms(2)] progress_trans [OF step] show ?thesis by blast
    next
      case False
      with run m step evolvesD(2) [OF assms(1)] show ?thesis by (cases q) (auto simp: catch_def)
    qed
  qed
  then show ?thesis by (auto simp: evolves_def)
qed

lemma evolves_quiet: "quiet m \<Longrightarrow> advances grow m"
  by (rule evolvesI) (auto dest: idle_world)

lemma evolves_ret: "R x \<Longrightarrow> evolves grow (ret x) R"
  by (simp add: evolves_def ret_def)

lemma evolves_throw: "evolves grow (throw e) R"
  by (simp add: evolves_def throw_def)

lemma evolves_effect: "evolves grow op R \<Longrightarrow> evolves grow (effect e op) R"
  unfolding evolves_def effect_def by (fastforce simp: Let_def split: list.splits fault.splits)

lemma advances_steps [evolve_rules]:
  "advances grow (ret x)" "advances grow (throw e)" "advances grow (gets g)" "advances grow (pin p)" "advances grow verify_guard"
  "advances grow (os_stat p)" "advances grow (os_fsync p)" "advances grow (hash_id p)" "advances grow (verify_at p i)"
  "advances grow (private_dir p)" "advances grow (load_row n)" "advances grow (volume_proven row a)"
  "advances grow (effect SqlFailure (gets g))"
  by (intro evolves_quiet idle_rules)+

lemma advances_files [evolve_rules]:
  "advances grow (os_mkdir p)" "advances grow (os_rmdir p)" "advances grow (os_unlink p)" "advances grow (os_link p q)"
  "advances grow (os_rename p q)" "advances grow (rename_noreplace p q)" "advances grow (os_create_file p f)"
  unfolding os_mkdir_def os_rmdir_def os_unlink_def os_link_def os_rename_def rename_noreplace_def os_create_file_def
  by (rule evolves_effect; auto simp: evolves_def split: if_splits option.splits)+

lemma advances_andthen [evolve_rules]: "advances grow m \<Longrightarrow> (\<And>x. advances grow (k x)) \<Longrightarrow> advances grow (andthen m k)"
  by (rule evolves_andthen)

lemma advances_catch [evolve_rules]: "advances grow m \<Longrightarrow> (\<And>e. advances grow (h e)) \<Longrightarrow> advances grow (catch m h)"
  by (rule evolves_catch)

lemma advances_ensure [evolve_rules]: "advances grow m \<Longrightarrow> advances grow c \<Longrightarrow> advances grow (ensure m c)"
proof -
  assume m: "advances grow m" and c: "advances grow c"
  have "progress grow (w_journal w) (w_journal w')" if run: "ensure m c w = (r, w')" for w r w'
  proof -
    obtain q v where v: "m w = (q, v)" by (cases "m w")
    obtain q' u where u: "c v = (q', u)" by (cases "c v")
    have "w' = v \<or> w' = u" using run v u by (auto simp: ensure_def split: sum.splits if_splits)
    with evolvesD(1) [OF m v] progress_trans [OF evolvesD(1) [OF m v] evolvesD(1) [OF c u]] show ?thesis by auto
  qed
  then show ?thesis by (auto simp: evolves_def)
qed

lemma advances_cases [evolve_rules]:
  "advances grow m \<Longrightarrow> advances grow n \<Longrightarrow> advances grow (if b then m else n)"
  "(\<And>x. advances grow (f1 x)) \<Longrightarrow> (\<And>y. advances grow (g1 y)) \<Longrightarrow> advances grow (case s of Inl x \<Rightarrow> f1 x | Inr y \<Rightarrow> g1 y)"
  "advances grow n \<Longrightarrow> (\<And>y. advances grow (j y)) \<Longrightarrow> advances grow (case i of None \<Rightarrow> n | Some y \<Rightarrow> j y)"
  "(\<And>x y. advances grow (h x y)) \<Longrightarrow> advances grow (case p of (x, y) \<Rightarrow> h x y)"
  "advances grow a \<Longrightarrow> advances grow b' \<Longrightarrow> advances grow c \<Longrightarrow> advances grow d \<Longrightarrow> (\<And>s. advances grow (f s)) \<Longrightarrow>
     advances grow (case e of Crashed \<Rightarrow> a | OsFailure \<Rightarrow> b' | LockLost \<Rightarrow> c | SqlFailure \<Rightarrow> d | Refused s \<Rightarrow> f s)"
  by (simp_all split: sum.split option.split prod.split failure.split)

lemma advances_run_if [evolve_rules]: "advances grow m \<Longrightarrow> advances grow (run_if b m)"
  unfolding run_if_def by (intro evolve_rules)

lemma evolves_transact:
  assumes "\<And>db x db'. f db = Inr (x, db') \<Longrightarrow> progress grow db db' \<and> R x"
  shows "evolves grow (transact f) R"
  unfolding transact_def
proof (rule evolves_effect, rule evolvesI)
  fix w r w'
  assume "(case f (w_journal w) of Inl e \<Rightarrow> (Inl e, w) | Inr (x, j) \<Rightarrow> (Inr x, w\<lparr>w_journal := j\<rparr>)) = (r, w')"
  then show "progress grow (w_journal w) (w_journal w')" using assms [of "w_journal w"] by (auto split: sum.splits)
next
  fix w x w'
  assume "(case f (w_journal w) of Inl e \<Rightarrow> (Inl e, w) | Inr (x, j) \<Rightarrow> (Inr x, w\<lparr>w_journal := j\<rparr>)) = (Inr x, w')"
  then show "R x" using assms [of "w_journal w"] by (auto split: sum.splits)
qed

lemma advances_moves [evolve_rules]:
  "advances grow (move_noreplace p q)" "advances grow (drop_alias p q x)" "advances grow (ensure_private p)"
  "advances grow (quarantine_dir p s)" "advances grow (probe t ino p q)" "advances grow (remove_carrier row)"
  unfolding move_noreplace_def drop_alias_def ensure_private_def quarantine_dir_def probe_def remove_carrier_def Let_def
  by (intro evolve_rules)+

lemma evolves_advance:
  assumes "\<And>r. q_state r = q_state row \<Longrightarrow> moved r (g r)"
  shows "evolves grow (advance row g) (\<lambda>r. r = g row)"
  unfolding advance_def by (rule evolves_transact) (use progress_cas [OF _ assms] in \<open>auto simp: map_sum_Inr\<close>)

lemma advances_block_row [evolve_rules]: "advances grow (block_row row d)"
  unfolding block_row_def by (rule evolves_transact) (auto intro!: progress_map simp: moved_def)

lemma moved_set_state: "row_step (q_state r) s \<Longrightarrow> moved r (set_state s r)"
  by (simp add: moved_def set_state_def r_into_rtranclp)

subsection \<open>Operations on a row\<close>

lemma evolves_skip: "advances grow m \<Longrightarrow> (\<And>x. evolves grow (k x) Q) \<Longrightarrow> evolves grow (andthen m k) Q"
  by (rule evolves_andthen)

lemma evolves_if: "evolves grow m R \<Longrightarrow> evolves grow n R \<Longrightarrow> evolves grow (if b then m else n) R"
  by simp

lemma evolves_capture:
  assumes "q_state row = Reserved"
  shows "evolves grow (capture row) (\<lambda>r. q_state r = Captured)"
proof -
  have set: "evolves grow (advance r (set_state Captured)) (\<lambda>r. q_state r = Captured)" if "q_state r = Reserved" for r
    by (rule evolves_weaken [OF evolves_advance]) (use that in \<open>auto intro!: moved_set_state simp: step_capture\<close>)
  show ?thesis
    unfolding capture_def Let_def
    by (rule evolves_andthen [OF evolves_advance], simp add: moved_def)
      (auto intro!: evolves_skip evolves_if evolves_throw set evolve_rules simp: assms)
qed

lemma evolves_commit:
  assumes "q_state row = Captured"
  shows "evolves grow (commit_row row) (\<lambda>r. case r of None \<Rightarrow> True | Some r' \<Rightarrow> r' = set_state Committed row)"
proof -
  have "evolves grow (transact (commit_db row)) (\<lambda>r. case r of None \<Rightarrow> True | Some r' \<Rightarrow> r' = set_state Committed row)"
  proof (rule evolves_transact)
    fix db r db'
    assume "commit_db row db = Inr (r, db')"
    then show "progress grow db db' \<and> (case r of None \<Rightarrow> True | Some r' \<Rightarrow> r' = set_state Committed row)"
    proof (cases rule: commit_db_cases)
      case (2 P cs)
      have "progress grow (db\<lparr>qd_provenance := filter P (qd_provenance db), qd_chapters := cs\<rparr>) db'"
        by (rule progress_cas [OF 2(2)]) (use assms in \<open>auto intro!: moved_set_state simp: step_commit\<close>)
      with progress_trans [OF progress_tables(1) this] 2(1) show ?thesis by simp
    qed simp
  qed
  then show ?thesis
    unfolding commit_row_def
    by (auto intro!: evolves_skip evolves_if evolves_ret evolve_rules split: option.splits)
qed

lemma advances_set:
  "row_step (q_state row) s \<Longrightarrow> (\<And>r. q_state (g r) = s \<and> q_id (g r) = q_id r \<and> q_series (g r) = q_series r \<and> q_original (g r) = q_original r \<and> q_file (g r) = q_file r)
     \<Longrightarrow> advances grow (advance row g)"
  by (rule evolves_weaken [OF evolves_advance]) (auto simp: moved_def)

lemma advances_transfer: "q_state row = Committed \<Longrightarrow> advances grow (transfer row)"
proof -
  assume state: "q_state row = Committed"
  let ?g = "\<lambda>r. r\<lparr>q_target := Some (quarantine_target (q_original row) (q_series row) (q_id row))\<rparr>"
  have named: "evolves grow (case q_target row of Some t \<Rightarrow> ret row | None \<Rightarrow> advance row ?g) (\<lambda>r. q_state r = Committed)"
    by (cases "q_target row")
      (use evolves_weaken [OF evolves_advance [of row ?g grow]] state in \<open>auto intro: evolves_ret simp: moved_def\<close>)
  have done_: "advances grow (advance r (\<lambda>r. r\<lparr>q_state := Quarantined, q_diagnostic := []\<rparr>))" if "q_state r = Committed" for r
    by (rule advances_set [of r Quarantined]) (use that in \<open>auto intro: row_step.intros\<close>)
  show ?thesis
    unfolding transfer_def Let_def
    by (rule evolves_skip, intro evolve_rules, rule evolves_andthen [OF named]) (intro evolve_rules done_; assumption?)
qed

lemma advances_rollback: "q_state row = Reserved \<or> q_state row = Captured \<Longrightarrow> advances grow (rollback row)"
proof -
  assume "q_state row = Reserved \<or> q_state row = Captured"
  then have "advances grow (advance row (set_state RolledBack))"
    by (intro advances_set [of row RolledBack]) (auto intro: row_step.intros simp: set_state_def)
  then show ?thesis unfolding rollback_def Let_def by (intro evolve_rules)
qed

lemma advances_refuse_restore: "q_state row = Restoring \<Longrightarrow> advances grow (refuse_restore row reason)"
proof -
  assume "q_state row = Restoring"
  then have "advances grow (advance row (\<lambda>r. r\<lparr>q_state := Quarantined, q_diagnostic := ''restore refused: '' @ reason\<rparr>))"
    by (intro advances_set [of row Quarantined]) (auto intro: row_step.intros)
  then show ?thesis unfolding refuse_restore_def by (intro evolve_rules)
qed

lemma advances_restore_db: "q_state row = Restoring \<Longrightarrow> advances grow (transact (restore_db row))"
proof (rule evolves_transact)
  fix db x db'
  assume state: "q_state row = Restoring" and r: "restore_db row db = Inr (x, db')"
  then obtain d cs where cas: "cas_row row (\<lambda>r. r\<lparr>q_state := Restored, q_diagnostic := d\<rparr>) (db\<lparr>qd_chapters := cs\<rparr>) = Inr db'"
    by (auto simp: restore_db_def Let_def map_sum_Inr)
  have "progress grow (db\<lparr>qd_chapters := cs\<rparr>) db'"
    by (rule progress_cas [OF cas]) (use state in \<open>auto simp: moved_def intro: row_step.intros\<close>)
  with progress_trans [OF progress_tables(2) this] show "progress grow db db' \<and> True" by simp
qed

lemma advances_finish_restore: "q_state row = Restoring \<Longrightarrow> advances grow (finish_restore row)"
  unfolding finish_restore_def move_back_def Let_def
  by (intro evolve_rules advances_refuse_restore advances_restore_db; assumption?)

lemma advances_settle_body: "advances grow (settle_body resume row)"
proof -
  have captured: "advances grow (if q_state row1 \<in> {Reserved, Captured} \<and> resume then andthen (rollback row1) (\<lambda>_. ret ORolledBack)
     else if q_state row1 = Captured then
       andthen (commit_row row1) (\<lambda>committed.
       case committed of
         None \<Rightarrow> andthen (rollback row1) (\<lambda>_. ret ORolledBack)
       | Some row2 \<Rightarrow> andthen (transfer row2) (\<lambda>_. ret OQuarantined))
     else if q_state row1 = Committed then andthen (transfer row1) (\<lambda>_. ret OQuarantined)
     else if q_state row1 = Restoring then finish_restore row1
     else ret OTerminal)" for row1
  proof -
    have "advances grow (andthen (commit_row row1) (\<lambda>committed.
       case committed of
         None \<Rightarrow> andthen (rollback row1) (\<lambda>_. ret ORolledBack)
       | Some row2 \<Rightarrow> andthen (transfer row2) (\<lambda>_. ret OQuarantined)))" if "q_state row1 = Captured"
      by (rule evolves_andthen [OF evolves_commit [OF that]])
        (use that in \<open>auto intro!: evolve_rules advances_rollback advances_transfer split: option.splits\<close>)
    moreover have "advances grow (andthen (rollback row1) (\<lambda>_. ret ORolledBack))" if "q_state row1 \<in> {Reserved, Captured}"
      by (intro evolve_rules advances_rollback) (use that in auto)
    moreover have "advances grow (andthen (transfer row1) (\<lambda>_. ret OQuarantined))" if "q_state row1 = Committed"
      by (intro evolve_rules advances_transfer that)
    ultimately show ?thesis using advances_finish_restore [of row1 grow] advances_steps(1) [of grow OTerminal]
      by (simp del: insert_iff)
  qed
  show ?thesis
    unfolding settle_body_def
  proof (rule evolves_skip [OF _ captured])
    show "advances grow (if q_state row = Reserved \<and> \<not> resume then capture row else ret row)"
      using evolves_weaken [OF evolves_capture [of row grow]] by (auto intro: evolve_rules)
  qed
qed

lemma advances_settle [evolve_rules]: "advances grow (settle resume row)"
proof -
  have undo: "advances grow (if q_state now \<in> {Reserved, Captured} \<and> \<not> resume then
               catch (andthen (rollback now) (\<lambda>_. ret ORolledBack))
                 (\<lambda>undo. if undo = LockLost then throw undo else andthen (block_row now (reason_of undo)) (\<lambda>_. ret OBlocked))
             else andthen (block_row now (reason_of e)) (\<lambda>_. ret OBlocked))" for now e
    by (cases "q_state now \<in> {Reserved, Captured}") (auto intro!: evolve_rules advances_rollback)
  show ?thesis
    unfolding settle_def Let_def by (intro evolve_rules advances_settle_body undo)
qed

lemma advances_replay [evolve_rules]: "advances grow (replay i)"
  unfolding replay_def by (intro evolve_rules)

lemma advances_restore: "advances grow (restore i s)"
proof -
  have "advances grow (transact (restore_begin i s))"
  proof (rule evolves_transact)
    fix db r db'
    assume "restore_begin i s db = Inr (r, db')"
    then show "progress grow db db' \<and> True"
    proof (cases rule: restore_begin_cases)
      case (2 row)
      have "progress grow db db'"
        by (rule progress_cas [OF 2(6)]) (use 2(3) in \<open>auto simp: moved_def intro: row_step.intros\<close>)
      then show ?thesis by simp
    qed simp
  qed
  then show ?thesis unfolding restore_def by (intro evolve_rules)
qed

lemma advances_cleanup: "advances True (cleanup_volume sha tokens pt ino s v)"
proof -
  have reserve: "advances True (transact (reserve_db t c s))" for t c
  proof (rule evolves_transact)
    fix db r db'
    assume "reserve_db t c s db = Inr (r, db')"
    then show "progress True db db' \<and> True"
      by (cases rule: reserve_db_cases) (auto simp: progress_def intro: exI [of _ "qd_rows db"])
  qed
  have rows: "advances True (cleanup_rows tokens n s cs sm)" for n cs sm
    by (induction cs arbitrary: n sm) (auto intro!: evolve_rules reserve split: option.splits)
  have inspect: "advances True (inspect_volume sha s v)"
    by (rule evolves_quiet [OF quiet_inspect_volume])
  have rest: "advances True (case found of
             Inl reason \<Rightarrow> ret (sm\<lparr>sm_skipped := [(0, reason)]\<rparr>)
           | Inr ([], skipped) \<Rightarrow> ret (sm\<lparr>sm_skipped := skipped\<rparr>)
           | Inr (c # cs, skipped) \<Rightarrow> k c cs skipped)"
    if "\<And>c cs skipped. advances True (k c cs skipped)" for found sm k
    using that by (auto intro: advances_steps split: sum.split prod.split list.split)
  show ?thesis
    unfolding cleanup_volume_def Let_def by (intro evolve_rules inspect rest rows)
qed

lemma progress_snd: "advances True m \<Longrightarrow> progress True (w_journal w) (w_journal (snd (m w)))"
  using evolvesD(1) [of True m _ w "fst (m w)" "snd (m w)"] by simp

lemma progress_run_op: "progress True (w_journal w) (w_journal (run_op sha op w))"
  unfolding run_op_def
  by (cases op) (auto intro!: progress_snd advances_cleanup advances_restore advances_replay)

lemma progress_history: "progress True (w_journal w) (w_journal (history sha hs w))"
proof (induction hs arbitrary: w)
  case (Cons h hs)
  obtain op fs where h: "h = (op, fs)" by (cases h)
  show ?case
    using progress_trans [OF progress_run_op [of "w\<lparr>w_faults := fs\<rparr>" sha op] Cons.IH] by (simp add: h)
qed simp

text \<open>
  C20: Over any history of cleanups, restores and replays, under every schedule of refusals and
  crashes, a journal row never disappears, keeps the file it was reserved for, and moves only along
  the steps reserved -> captured -> committed -> quarantined -> restoring -> restored, back from
  reserved and captured to rolled_back, and back from restoring to quarantined. In particular a row
  whose chapter was repointed is never rolled back, and a final row never changes state.
\<close>

theorem row_lifecycle:
  assumes "k < length (qd_rows (w_journal w))"
  shows "let r = qd_rows (w_journal w) ! k; r' = qd_rows (w_journal (history sha hs w)) ! k in
    q_id r' = q_id r \<and> q_original r' = q_original r \<and> q_file r' = q_file r \<and> row_step\<^sup>*\<^sup>* (q_state r) (q_state r')
    \<and> (q_state r \<in> after_commit \<longrightarrow> q_state r' \<in> after_commit)
    \<and> (q_state r = Restored \<or> q_state r = RolledBack \<longrightarrow> q_state r' = q_state r)"
proof -
  obtain rows more where rows: "qd_rows (w_journal (history sha hs w)) = rows @ more" "list_all2 moved (qd_rows (w_journal w)) rows"
    using progress_history [of w sha hs] by (auto simp: progress_def)
  with assms have "k < length rows" "moved (qd_rows (w_journal w) ! k) (rows ! k)"
    by (auto simp: list_all2_conv_all_nth)
  then show ?thesis
    using after_commit_closed final_stays by (auto simp: rows(1) nth_append moved_def Let_def)
qed

theorem row_lifecycle_witness:
  "row_step\<^sup>*\<^sup>* Committed (q_state (qd_rows (w_journal (history (\<lambda>_. []) [(Replay 1, [Proceed, Refuse]), (Replay 1, [])] quarantine_demo)) ! 0))"
  using row_lifecycle [of 0 quarantine_demo "\<lambda>_. []" "[(Replay 1, [Proceed, Refuse]), (Replay 1, [])]"]
  by (simp add: Let_def quarantine_demo_def demo_quarantine_def del: history.simps)

subsection \<open>The recovery loop ends\<close>

definition beyond :: "int \<Rightarrow> q_db \<Rightarrow> nat" where
  "beyond cursor db = length (filter (\<lambda>r. q_id r > cursor) (qd_rows db))"

lemma progress_ids: "progress False db db' \<Longrightarrow> map q_id (qd_rows db') = map q_id (qd_rows db)"
  by (auto simp: progress_def list_all2_conv_all_nth moved_def intro!: nth_equalityI)

lemma beyond_progress:
  assumes "progress False db db'" shows "beyond cursor db' = beyond cursor db"
proof -
  have count: "length (filter (\<lambda>r. q_id r > cursor) rows) = length (filter (\<lambda>i. i > cursor) (map q_id rows))" for rows
    by (simp add: filter_map comp_def)
  show ?thesis unfolding beyond_def count progress_ids [OF assms] ..
qed

lemma beyond_less:
  assumes "r \<in> set (qd_rows db)" "q_id r > cursor"
  shows "beyond (q_id r) db < beyond cursor db"
proof -
  have "beyond (q_id r) db < beyond cursor db" if "r \<in> set rows" "db = d\<lparr>qd_rows := rows\<rparr>" for rows d
    using that(1) unfolding that(2)
  proof (induction rows)
    case (Cons x rows)
    have le: "length (filter (\<lambda>y. q_id y > q_id r) rows) \<le> length (filter (\<lambda>y. q_id y > cursor) rows)" for rows
      using assms(2) by (induction rows) auto
    show ?case
    proof (cases "x = r")
      case True
      with assms(2) le [of rows] show ?thesis by (simp add: beyond_def)
    next
      case False
      with Cons show ?thesis using assms(2) by (auto simp: beyond_def)
    qed
  qed simp
  from this [of "qd_rows db" db] assms(1) show ?thesis by simp
qed

lemma active_ids_mem: "i \<in> set (active_ids cursor limit db) \<Longrightarrow> \<exists>r \<in> set (qd_rows db). q_id r = i \<and> q_id r > cursor"
  unfolding active_ids_def by (drule in_set_takeD) auto

lemma advances_replay_ids: "advances False (replay_ids is)"
  by (induction "is") (auto intro!: evolve_rules)

lemma replay_page_run:
  assumes "replay_page cursor limit w = (r, w')"
  shows "progress False (w_journal w) (w_journal w')"
    and "r = Inr (n, m, final) \<Longrightarrow> n = length (active_ids cursor limit (w_journal w))
      \<and> final = (if n = 0 then 0 else last (active_ids cursor limit (w_journal w)))"
proof -
  have "advances False (replay_page cursor limit)"
    unfolding replay_page_def by (intro evolve_rules advances_replay_ids)
  then show "progress False (w_journal w) (w_journal w')" using assms by (rule evolvesD)
  assume r: "r = Inr (n, m, final)"
  obtain q v where q: "effect SqlFailure (gets (\<lambda>w. active_ids cursor limit (w_journal w))) w = (q, v)" by fastforce
  then have "q = Inr (active_ids cursor limit (w_journal w)) \<or> (\<exists>e. q = Inl e)"
    by (auto simp: effect_def gets_def Let_def split: list.splits fault.splits)
  with assms r q show "n = length (active_ids cursor limit (w_journal w))
      \<and> final = (if n = 0 then 0 else last (active_ids cursor limit (w_journal w)))"
    by (auto simp: replay_page_def andthen_def ret_def split: prod.splits sum.splits if_splits)
qed

text \<open>
  C21: The recovery loop ends: with a page size of at least one it is over, by its own or by a failure,
  after no more pages than there are journal rows behind the cursor plus one, under every schedule
  of refusals and crashes. (With a page size of zero it would never end.)
\<close>

theorem drain_terminates:
  assumes "0 < page_size" "length (filter (\<lambda>r. q_id r > cursor) (qd_rows (w_journal w))) < fuel"
  shows "fst (drain fuel page_size cursor w) \<noteq> Inr False"
proof -
  have "beyond cursor (w_journal w) < fuel \<Longrightarrow> fst (drain fuel page_size cursor w) \<noteq> Inr False"
  proof (induction fuel arbitrary: cursor w)
    case (Suc fuel)
    obtain r v where page: "replay_page cursor page_size w = (r, v)" by fastforce
    show ?case
    proof (cases r)
      case (Inl e)
      with page show ?thesis by (simp add: andthen_def)
    next
      case (Inr x)
      obtain n m final where x: "x = (n, m, final)" by (cases x) auto
      have ids: "n = length (active_ids cursor page_size (w_journal w))"
        "final = (if n = 0 then 0 else last (active_ids cursor page_size (w_journal w)))"
        using replay_page_run(2) [OF page] Inr x by auto
      show ?thesis
      proof (cases "n < page_size")
        case True
        with page Inr x show ?thesis by (simp add: andthen_def ret_def)
      next
        case False
        then have "final \<in> set (active_ids cursor page_size (w_journal w))" using ids assms(1) by (auto intro: last_in_set)
        then obtain row where row: "row \<in> set (qd_rows (w_journal w))" "q_id row = final" "q_id row > cursor"
          using active_ids_mem by blast
        have "beyond final (w_journal v) = beyond final (w_journal w)"
          by (rule beyond_progress [OF replay_page_run(1) [OF page]])
        also have "\<dots> < beyond cursor (w_journal w)" using beyond_less [OF row(1,3)] row(2) by simp
        finally have "beyond final (w_journal v) < fuel" using Suc.prems by simp
        from Suc.IH [OF this] page Inr x False show ?thesis by (simp add: andthen_def)
      qed
    qed
  qed simp
  then show ?thesis using assms(2) by (simp add: beyond_def)
qed

theorem drain_terminates_witness:
  "fst (drain 2 100 0 (quarantine_demo\<lparr>w_faults := [Proceed, Refuse]\<rparr>)) \<noteq> Inr False"
  by (rule drain_terminates) (simp_all add: quarantine_demo_def)

end
