(* ===== verification/Quarantine_Recovery.thy ===== *)
theory Quarantine_Recovery
  imports Quarantine_Lifecycle
begin

text \<open>
  Recovery of the chapter quarantine: a replay after a crash, in a library nobody else has touched
  and with nothing refused, brings the row to rest with its file where the final state says. The
  quarantine names: short enough for the file system, and never shared by two rows.
\<close>

subsection \<open>Runs without faults\<close>

definition calm :: "'j durable \<Rightarrow> bool" where
  "calm w \<longleftrightarrow> w_faults w = [] \<and> w_managed w = (\<lambda>_. True)"

definition completes :: "('j durable \<Rightarrow> bool) \<Rightarrow> ('j, 'a) act \<Rightarrow> ('a \<Rightarrow> 'j durable \<Rightarrow> bool) \<Rightarrow> bool" where
  "completes P m Q \<longleftrightarrow> (\<forall>w. calm w \<longrightarrow> P w \<longrightarrow> (\<exists>x w'. m w = (Inr x, w') \<and> calm w' \<and> Q x w'))"

lemma completesI: "(\<And>w. calm w \<Longrightarrow> P w \<Longrightarrow> \<exists>x w'. m w = (Inr x, w') \<and> calm w' \<and> Q x w') \<Longrightarrow> completes P m Q"
  by (simp add: completes_def)

lemma completesE: "completes P m Q \<Longrightarrow> calm w \<Longrightarrow> P w \<Longrightarrow> (\<And>x w'. m w = (Inr x, w') \<Longrightarrow> calm w' \<Longrightarrow> Q x w' \<Longrightarrow> thesis) \<Longrightarrow> thesis"
  by (auto simp: completes_def)

lemma completes_weaken: "completes P' m Q' \<Longrightarrow> (\<And>w. P w \<Longrightarrow> P' w) \<Longrightarrow> (\<And>x w. Q' x w \<Longrightarrow> Q x w) \<Longrightarrow> completes P m Q"
  unfolding completes_def by meson

lemma completes_andthen: "completes P m R \<Longrightarrow> (\<And>x. completes (R x) (k x) Q) \<Longrightarrow> completes P (andthen m k) Q"
proof (rule completesI)
  fix w
  assume m: "completes P m R" and k: "\<And>x. completes (R x) (k x) Q" and w: "calm w" "P w"
  obtain x v where v: "m w = (Inr x, v)" "calm v" "R x v" by (rule completesE [OF m w])
  obtain y u where "k x v = (Inr y, u)" "calm u" "Q y u" by (rule completesE [OF k v(2,3)])
  with v(1) show "\<exists>x w'. andthen m k w = (Inr x, w') \<and> calm w' \<and> Q x w'" by (simp add: andthen_def)
qed

lemma completes_catch: "completes P m Q \<Longrightarrow> completes P (catch m h) Q"
  by (rule completesI, erule completesE) (auto simp: catch_def)

lemma completes_ret: "(\<And>w. P w \<Longrightarrow> Q x w) \<Longrightarrow> completes P (ret x) Q"
  by (simp add: completes_def ret_def)

lemma completes_gets: "(\<And>w. P w \<Longrightarrow> Q (g w) w) \<Longrightarrow> completes P (gets g) Q"
  by (simp add: completes_def gets_def)

lemma completes_if: "(b \<Longrightarrow> completes P m Q) \<Longrightarrow> (\<not> b \<Longrightarrow> completes P n Q) \<Longrightarrow> completes P (if b then m else n) Q"
  by simp

lemma completes_run_if: "(b \<Longrightarrow> completes P m (\<lambda>_. Q)) \<Longrightarrow> (\<And>w. \<not> b \<Longrightarrow> P w \<Longrightarrow> Q w) \<Longrightarrow> completes P (run_if b m) (\<lambda>_. Q)"
  by (simp add: run_if_def completes_def ret_def)

lemma completes_look: "(\<And>w. P w \<Longrightarrow> g w = x) \<Longrightarrow> completes P (k x) Q \<Longrightarrow> completes P (andthen (gets g) k) Q"
  by (rule completes_andthen [where R = "\<lambda>y w. y = x \<and> P w"]) (auto simp: completes_def gets_def)

lemma completes_skip: "completes P m (\<lambda>_. P) \<Longrightarrow> (\<And>x. completes P (k x) Q) \<Longrightarrow> completes P (andthen m k) Q"
  by (rule completes_andthen)

lemma completes_then: "completes P m (\<lambda>x w. x = a \<and> R w) \<Longrightarrow> completes R (k a) Q \<Longrightarrow> completes P (andthen m k) Q"
  by (rule completes_andthen [where R = "\<lambda>x w. x = a \<and> R w"]) (auto simp: completes_def)

lemma completes_fact: "(\<And>w. P w \<Longrightarrow> b) \<Longrightarrow> (b \<Longrightarrow> completes P m Q) \<Longrightarrow> completes P m Q"
  by (auto simp: completes_def)

lemma completes_pre: "completes P' m Q \<Longrightarrow> (\<And>w. P w \<Longrightarrow> P' w) \<Longrightarrow> completes P m Q"
  by (auto simp: completes_def)

lemma completes_effect: "completes P op Q \<Longrightarrow> completes P (effect e op) Q"
  by (auto simp: completes_def effect_def calm_def)

lemma completes_pin: "completes P (pin p) (\<lambda>_. P)"
  unfolding pin_def by (rule completes_effect) (simp add: completes_def calm_def)

lemma completes_os_fsync: "completes P (os_fsync p) (\<lambda>_. P)" and completes_verify_guard: "completes P verify_guard (\<lambda>_. P)"
  unfolding os_fsync_def verify_guard_def by (rule completes_effect, rule completes_ret, assumption)+

text \<open>The files as a map, directories that are there, names that are not directories, and the journal.\<close>

definition view ::
  "(path \<Rightarrow> stored_file option) \<Rightarrow> path set \<Rightarrow> path set \<Rightarrow> ('j \<Rightarrow> bool) \<Rightarrow> 'j durable \<Rightarrow> bool" where
  "view \<phi> D N J w \<longleftrightarrow> file_at w = \<phi> \<and> (\<forall>p \<in> D. is_dir w p) \<and> (\<forall>p \<in> N. \<not> is_dir w p) \<and> J (w_journal w)"

lemma view_file: "view \<phi> D N J w \<Longrightarrow> file_at w p = \<phi> p"
  by (simp add: view_def)

lemma view_exists: "view \<phi> D N J w \<Longrightarrow> p \<in> N \<Longrightarrow> lexists w p \<longleftrightarrow> \<phi> p \<noteq> None"
  by (auto simp: view_def lexists_def is_dir_def)

lemma view_mono: "view \<phi> D N J w \<Longrightarrow> D' \<subseteq> D \<Longrightarrow> N' \<subseteq> N \<Longrightarrow> view \<phi> D' N' J w"
  by (auto simp: view_def)

lemma completes_os_stat: "\<phi> p = Some f \<Longrightarrow> completes (view \<phi> D N J) (os_stat p) (\<lambda>x w. x = f \<and> view \<phi> D N J w)"
  unfolding os_stat_def by (rule completes_effect) (auto simp: completes_def view_def)

lemma completes_hash_id:
  assumes "\<phi> p = Some f" "f_reg f" "f_size f \<le> fingerprint_max"
  shows "completes (view \<phi> D N J) (hash_id p) (\<lambda>x w. x = id_of f \<and> view \<phi> D N J w)"
  unfolding hash_id_def by (rule completes_effect) (use assms in \<open>auto simp: completes_def view_def\<close>)

lemma completes_verify_at:
  assumes "\<phi> p = Some f" "f_reg f" "f_size f \<le> fingerprint_max"
  shows "completes (view \<phi> D N J) (verify_at p (id_of f)) (\<lambda>_. view \<phi> D N J)"
  unfolding verify_at_def
  by (rule completes_skip [OF completes_pin], rule completes_then [OF completes_hash_id [where f = f]]) (use assms in \<open>auto intro: completes_ret\<close>)

lemma file_at_fun_bind: "file_at (bind_name p f w) = (file_at w)(p := Some f)" and file_at_fun_drop: "file_at (drop_name p w) = (file_at w)(p := None)"
  by auto

lemma calm_update [simp]: "calm (bind_name p f w) = calm w" "calm (drop_name p w) = calm w" "calm (w\<lparr>w_journal := j\<rparr>) = calm w"
  by (simp_all add: calm_def)

lemma completes_os_unlink: "\<phi> p = Some f \<Longrightarrow> completes (view \<phi> D N J) (os_unlink p) (\<lambda>_. view (\<phi>(p := None)) D N J)"
  unfolding os_unlink_def by (rule completes_effect) (auto simp: completes_def view_def file_at_fun_drop)

lemma view_can_bind: "view \<phi> D N J w \<Longrightarrow> p \<noteq> [] \<Longrightarrow> dir_of p \<in> D \<Longrightarrow> p \<in> N \<Longrightarrow> \<phi> p = None \<Longrightarrow> can_bind w p"
  by (auto simp: can_bind_def view_exists) (auto simp: view_def)

lemma completes_move:
  assumes "\<phi> src = Some f" "\<phi> dst = None" "dst \<noteq> []" "dir_of dst \<in> D" "dst \<in> N"
  shows "completes (view \<phi> D N J) (move_noreplace src dst) (\<lambda>_. view (\<phi>(src := None, dst := Some f)) D N J)"
proof -
  have ne: "src \<noteq> dst" using assms by auto
  have rename: "completes (view \<phi> D N J) (rename_noreplace src dst)
      (\<lambda>ok. view (if ok then \<phi>(src := None, dst := Some f) else \<phi>) D N J)"
    unfolding rename_noreplace_def
  proof (rule completes_effect, rule completesI)
    fix w
    assume w: "calm w" "view \<phi> D N J w"
    have "can_bind w dst" by (rule view_can_bind [OF w(2)]) (use assms in auto)
    moreover have "file_at w src = Some f" using view_file [OF w(2)] assms(1) by simp
    ultimately show "\<exists>x w'. (if \<not> w_rename w then (Inr False, w)
         else case file_at w src of None \<Rightarrow> (Inl OsFailure, w)
         | Some f \<Rightarrow> if \<not> can_bind w dst then (Inl OsFailure, w) else (Inr True, bind_name dst f (drop_name src w))) = (Inr x, w')
         \<and> calm w' \<and> view (if x then \<phi>(src := None, dst := Some f) else \<phi>) D N J w'"
      using w by (auto simp: view_def file_at_fun_bind file_at_fun_drop simp del: file_at_bind file_at_drop)
  qed
  have link: "completes (view \<phi> D N J) (os_link src dst) (\<lambda>_. view (\<phi>(dst := Some f)) D N J)"
    unfolding os_link_def
  proof (rule completes_effect, rule completesI)
    fix w
    assume w: "calm w" "view \<phi> D N J w"
    have "can_bind w dst" by (rule view_can_bind [OF w(2)]) (use assms in auto)
    moreover have "file_at w src = Some f" using view_file [OF w(2)] assms(1) by simp
    ultimately show "\<exists>x w'. (case file_at w src of None \<Rightarrow> (Inl OsFailure, w)
         | Some f \<Rightarrow> if \<not> can_bind w dst then (Inl OsFailure, w) else (Inr (), bind_name dst f w)) = (Inr x, w')
         \<and> calm w' \<and> view (\<phi>(dst := Some f)) D N J w'"
      using w by (auto simp: view_def file_at_fun_bind simp del: file_at_bind)
  qed
  have swap: "(\<phi>(dst := Some f))(src := None) = \<phi>(src := None, dst := Some f)" using ne by (rule fun_upd_twist [symmetric])
  have fallback: "completes (view \<phi> D N J)
      (andthen (os_link src dst) (\<lambda>_. andthen (os_stat src) (\<lambda>a. andthen (os_stat dst) (\<lambda>b.
        if \<not> same_inode a b then throw (Refused ''link fallback produced a different file'') else os_unlink src))))
      (\<lambda>_. view (\<phi>(src := None, dst := Some f)) D N J)"
    by (rule completes_andthen [OF link], rule completes_then [OF completes_os_stat [where f = f]], use ne assms in simp,
      rule completes_then [OF completes_os_stat [where f = f]], simp, simp, subst swap [symmetric], rule completes_os_unlink)
      (use ne assms(1) in simp)
  show ?thesis
    unfolding move_noreplace_def
    by (rule completes_skip [OF completes_pin], rule completes_skip [OF completes_pin], rule completes_andthen [OF rename],
      rule completes_andthen [OF completes_run_if [where Q = "view (\<phi>(src := None, dst := Some f)) D N J"]])
      (use fallback in \<open>auto intro: completes_skip completes_os_fsync\<close>)
qed

lemma completes_drop_alias:
  assumes "kept \<noteq> dropped" "\<phi> kept = Some f" "\<phi> dropped = Some f" "f_reg f" "f_size f \<le> fingerprint_max"
    "expected = None \<or> expected = Some (id_of f)"
  shows "completes (view \<phi> D N J) (drop_alias kept dropped expected) (\<lambda>_. view (\<phi>(dropped := None)) D N J)"
proof -
  have check: "completes (view \<phi> D N J) (case expected of None \<Rightarrow> ret ()
     | Some e \<Rightarrow> andthen (hash_id kept) (\<lambda>i. if i \<noteq> e then throw (Refused ''file content changed'') else ret ())) (\<lambda>_. view \<phi> D N J)"
  proof (cases expected)
    case (Some e)
    with assms(6) have "e = id_of f" by simp
    then show ?thesis
      unfolding Some option.simps
      by (intro completes_then [OF completes_hash_id [of \<phi> kept f, OF assms(2,4,5)]]) (simp add: completes_ret)
  qed (simp add: completes_ret)
  show ?thesis
    unfolding drop_alias_def
    by (rule completes_skip [OF completes_pin], rule completes_skip [OF completes_pin], rule completes_then [OF completes_os_stat [where f = f]], fact,
      rule completes_then [OF completes_os_stat [where f = f]], fact)
      (auto simp: assms(4) intro!: completes_andthen [OF check] completes_andthen [OF completes_os_unlink [of \<phi> dropped f, OF assms(3)]] completes_os_fsync)
qed

lemma completes_remove_carrier: "completes (view \<phi> D N J) (remove_carrier row) (\<lambda>_. view \<phi> {} N J)"
proof (cases "q_carrier row")
  case None
  then show ?thesis by (auto simp: remove_carrier_def completes_def ret_def view_def)
next
  case (Some c)
  have dirs: "map_of (filter (\<lambda>(x, _). x \<noteq> c) ds) q = (if q = c then None else map_of ds q)" for ds :: "(path \<times> bool) list" and q
    by (induction ds) auto
  have gone: "view \<phi> {} N J (w\<lparr>w_dirs := filter (\<lambda>(q, _). q \<noteq> c) (w_dirs w)\<rparr>)" if "view \<phi> D N J w" for w
    using that by (auto simp: view_def is_dir_def dirs fun_eq_iff)
  have same: "view \<phi> {} N J w" if "view \<phi> D N J w" for w using that by (simp add: view_def)
  show ?thesis
    unfolding remove_carrier_def Some option.simps
    by (rule completesI) (use gone same in \<open>auto simp: catch_def andthen_def pin_def effect_def calm_def os_rmdir_def os_fsync_def ret_def\<close>)
qed

definition not_public :: "path \<Rightarrow> 'j durable \<Rightarrow> bool" where
  "not_public p w \<longleftrightarrow> map_of (w_dirs w) p \<noteq> Some False"

lemma completes_ensure_private:
  assumes "\<phi> p = None" "p \<noteq> []" "dir_of p \<in> D" "p \<notin> N"
  shows "completes (\<lambda>w. view \<phi> D N J w \<and> not_public p w \<and> not_public q w) (ensure_private p) (\<lambda>_ w. view \<phi> (insert p D) N J w \<and> not_public q w)"
proof (rule completesI)
  fix w
  assume w: "calm w" "view \<phi> D N J w \<and> not_public p w \<and> not_public q w"
  have bind: "can_bind w p" if "\<not> is_dir w p"
    using that w(2) assms by (auto simp: can_bind_def lexists_def is_dir_def view_def)
  show "\<exists>x w'. ensure_private p w = (Inr x, w') \<and> calm w' \<and> view \<phi> (insert p D) N J w' \<and> not_public q w'"
  proof (cases "is_dir w p")
    case True
    then have "map_of (w_dirs w) p = Some True" using w(2) by (auto simp: is_dir_def not_public_def)
    with True w show ?thesis
      by (auto simp: ensure_private_def andthen_def gets_def run_if_def ret_def private_dir_def effect_def calm_def view_def)
  next
    case False
    with bind w assms(4) show ?thesis
      by (auto simp: ensure_private_def andthen_def gets_def run_if_def ret_def private_dir_def effect_def calm_def os_mkdir_def os_fsync_def
          view_def is_dir_def not_public_def fun_eq_iff)
  qed
qed

lemma completes_quarantine_dir:
  assumes "\<phi> (dir_of d @ [quarantine_dir_name]) = None" "\<phi> (quarantine_folder d s) = None" "dir_of d \<in> D"
    "dir_of d @ [quarantine_dir_name] \<notin> N" "quarantine_folder d s \<notin> N"
  shows "completes (\<lambda>w. view \<phi> D N J w \<and> not_public (dir_of d @ [quarantine_dir_name]) w \<and> not_public (quarantine_folder d s) w)
    (quarantine_dir d s) (\<lambda>x w. x = quarantine_folder d s \<and> view \<phi> (insert (quarantine_folder d s) D) N J w)"
proof -
  let ?a = "dir_of d @ [quarantine_dir_name]"
  let ?b = "quarantine_folder d s"
  have dirs: "dir_of ?a = dir_of d" "dir_of ?b = ?a" "?b \<noteq> []"
    by (simp_all add: dir_of_def quarantine_folder_def butlast_append)
  have a: "completes (\<lambda>w. view \<phi> D N J w \<and> not_public ?a w \<and> not_public ?b w) (ensure_private ?a)
      (\<lambda>_ w. view \<phi> (insert ?a D) N J w \<and> not_public ?b w)"
    by (rule completes_ensure_private) (use assms dirs in auto)
  have b: "completes (\<lambda>w. view \<phi> (insert ?a D) N J w \<and> not_public ?b w) (ensure_private ?b) (\<lambda>_. view \<phi> (insert ?b D) N J)"
    by (rule completes_weaken [OF completes_ensure_private [of \<phi> ?b "insert ?a D" N J ?b]]) (use assms dirs in \<open>auto simp: view_def\<close>)
  show ?thesis
    unfolding quarantine_dir_def Let_def
    by (rule completes_skip [OF completes_pin], rule completes_andthen [OF a], rule completes_andthen [OF b], rule completes_ret) simp
qed

lemma cas_succeeds: "jrow F row db \<Longrightarrow> \<exists>db'. cas_row row g db = Inr db'"
proof -
  assume j: "jrow F row db"
  let ?hit = "\<lambda>r. q_id r = q_id row \<and> q_token r = q_token row \<and> q_state r = q_state row"
  from j have "length (filter ?hit (qd_rows db)) = 1"
    using length_filter_key [of q_id "qd_rows db" "q_id row" "\<lambda>r. q_token r = q_token row \<and> q_state r = q_state row"]
    by (auto simp: jrow_def journal_ok_def)
  then show ?thesis by (simp add: cas_row_def Let_def)
qed

lemma completes_advance:
  assumes "\<And>db. jrow F row db \<Longrightarrow> allowed g row db"
  shows "completes (view \<phi> D N (jrow F row)) (advance row g) (\<lambda>r w. r = g row \<and> view \<phi> D N (jrow F (g row)) w)"
  unfolding advance_def transact_def
proof (rule completes_effect, rule completesI)
  fix w
  assume w: "calm w" "view \<phi> D N (jrow F row) w"
  then have j: "jrow F row (w_journal w)" by (simp add: view_def)
  then obtain db' where cas: "cas_row row g (w_journal w) = Inr db'" using cas_succeeds by blast
  have "jrow F (g row) db'" by (rule cas_allowed [OF j assms [OF j] cas])
  with w cas show "\<exists>x w'. (case map_sum id (\<lambda>db'. (g row, db')) (cas_row row g (w_journal w)) of
      Inl e \<Rightarrow> (Inl e, w) | Inr (x, j) \<Rightarrow> (Inr x, w\<lparr>w_journal := j\<rparr>)) = (Inr x, w') \<and> calm w' \<and> x = g row \<and> view \<phi> D N (jrow F (g row)) w'"
    by (simp add: view_def fun_eq_iff)
qed

subsection \<open>Steps of a row without faults\<close>

text \<open>\<open>at_rest p r\<close>: the row \<open>r\<close> is in the journal and its file is at \<open>p\<close>.\<close>

definition at_rest :: "stored_file \<Rightarrow> path \<Rightarrow> q_row \<Rightarrow> q_db durable \<Rightarrow> bool" where
  "at_rest f p r w \<longleftrightarrow> file_at w p = Some f \<and> jrow None r (w_journal w)"

lemma view_at_rest: "view \<phi> D N (jrow None r) w \<Longrightarrow> \<phi> p = Some f \<Longrightarrow> at_rest f p r w"
  by (auto simp: view_def at_rest_def)

text \<open>A name of the row is free or holds the row's file.\<close>

definition own_names :: "stored_file \<Rightarrow> path set \<Rightarrow> (path \<Rightarrow> stored_file option) \<Rightarrow> bool" where
  "own_names f S \<phi> \<longleftrightarrow> (\<forall>p \<in> S. \<phi> p = None \<or> \<phi> p = Some f)"

lemma completes_settled:
  assumes "\<And>db. jrow None row db \<Longrightarrow> allowed g row db" "\<phi> p = Some f"
  shows "completes (view \<phi> D N (jrow None row)) (andthen (advance row g) (\<lambda>_. ret x)) (\<lambda>y w. y = x \<and> at_rest f p (g row) w)"
  by (rule completes_then [OF completes_advance], rule assms(1), assumption, rule completes_ret) (use assms(2) view_at_rest in auto)

lemma completes_rollback:
  assumes state: "q_state row \<in> {Reserved, Captured}" and ok: "row_ok row"
    and names: "own_names f (insert (q_original row) (set_option (carrier_file row))) \<phi>"
    and some: "\<exists>p \<in> insert (q_original row) (set_option (carrier_file row)). \<phi> p = Some f"
    and D: "dir_of (q_original row) \<in> D" and N: "insert (q_original row) (set_option (carrier_file row)) \<subseteq> N"
    and f: "f_reg f" "f_size f \<le> fingerprint_max"
  shows "completes (view \<phi> D N (jrow None row)) (rollback row) (\<lambda>_. at_rest f (q_original row) (set_state RolledBack row))"
proof -
  let ?o = "q_original row"
  let ?J = "jrow None row"
  let ?Q = "\<lambda>_ :: unit. at_rest f ?o (set_state RolledBack row)"
  have o: "?o \<noteq> []" using ok by (auto simp: row_ok_def)
  have al: "allowed (set_state RolledBack) row db" for db by (rule allowed_state [OF ok]) (use state in auto)
  have finish: "completes (view \<psi> D N ?J) (andthen (remove_carrier row) (\<lambda>_. andthen (advance row (set_state RolledBack)) (\<lambda>_. ret ()))) ?Q"
    if "\<psi> ?o = Some f" for \<psi>
    by (rule completes_andthen [OF completes_remove_carrier], rule completes_weaken [OF completes_settled [of row "set_state RolledBack" \<psi> ?o, OF al that]]) auto
  show ?thesis
  proof (cases "\<exists>s. carrier_file row = Some s \<and> \<phi> s = Some f")
    case True
    then obtain s where s: "carrier_file row = Some s" "\<phi> s = Some f" by blast
    have ne: "s \<noteq> ?o" by (rule row_names(1) [OF ok s(1)])
    have looked: "((case carrier_file row of None \<Rightarrow> False | Some s \<Rightarrow> lexists w s), lexists w ?o,
        (case carrier_file row of None \<Rightarrow> False | Some s \<Rightarrow>
              (case (file_at w s, file_at w ?o) of (Some a, Some b) \<Rightarrow> same_inode a b | _ \<Rightarrow> False)))
      = (True, \<phi> ?o \<noteq> None, \<phi> ?o \<noteq> None)" if w: "view \<phi> D N ?J w" for w
      using names view_exists [OF w, of s] view_exists [OF w, of ?o] view_file [OF w] N s by (auto simp: own_names_def)
    show ?thesis
      unfolding rollback_def Let_def
    proof (rule completes_look [OF looked], assumption, simp only: prod.case if_True, rule completes_andthen)
      show "completes (view (\<phi>(s := None, ?o := Some f)) D N ?J)
         (andthen (remove_carrier row) (\<lambda>_. andthen (advance row (set_state RolledBack)) (\<lambda>_. ret ()))) ?Q"
        by (rule finish) simp
      show "completes (view \<phi> D N ?J) (if \<phi> ?o \<noteq> None then if \<not> \<phi> ?o \<noteq> None then throw (Refused ''original name is taken'')
            else andthen verify_guard (\<lambda>_. drop_alias ?o (the (carrier_file row)) None)
          else andthen verify_guard (\<lambda>_. move_noreplace (the (carrier_file row)) ?o)) (\<lambda>_. view (\<phi>(s := None, ?o := Some f)) D N ?J)"
      proof (cases "\<phi> ?o")
        case None
        then show ?thesis
          using completes_move [of \<phi> s f ?o D N ?J] s o D N by (auto intro!: completes_skip [OF completes_verify_guard])
      next
        case (Some g)
        then have g: "\<phi> ?o = Some f" using names by (auto simp: own_names_def)
        then have "\<phi>(s := None, ?o := Some f) = \<phi>(s := None)" using ne by auto
        then show ?thesis
          using completes_drop_alias [of ?o s \<phi> f None D N ?J] s g ne f by (auto intro!: completes_skip [OF completes_verify_guard])
      qed
    qed
  next
    case False
    then have o_f: "\<phi> ?o = Some f" using some by auto
    have free: "\<not> lexists w s" if "view \<phi> D N ?J w" "carrier_file row = Some s" for w s
      using view_exists [OF that(1), of s] that(2) N names False by (auto simp: own_names_def)
    have looked: "((case carrier_file row of None \<Rightarrow> False | Some s \<Rightarrow> lexists w s), lexists w ?o,
        (case carrier_file row of None \<Rightarrow> False | Some s \<Rightarrow>
              (case (file_at w s, file_at w ?o) of (Some a, Some b) \<Rightarrow> same_inode a b | _ \<Rightarrow> False))) = (False, True, False)"
      if w: "view \<phi> D N ?J w" for w
      using free [OF w] view_exists [OF w, of ?o] N o_f by (auto simp: lexists_def split: option.splits)
    show ?thesis
      unfolding rollback_def Let_def
      by (rule completes_look [OF looked], assumption) (auto intro!: completes_andthen [OF completes_ret finish [of \<phi>]] simp: o_f)
  qed
qed

lemma view_same: "view \<phi> D N J w \<Longrightarrow> \<phi> p = Some f \<Longrightarrow> f_reg f \<Longrightarrow> stat_matches w p (id_of f)"
  by (rule stat_matches_id) (auto simp: view_def)

lemma completes_transfer:
  fixes row :: q_row and \<phi> :: "path \<Rightarrow> stored_file option"
  defines "t \<equiv> quarantine_target (q_original row) (q_series row) (q_id row)"
    and "folder \<equiv> quarantine_folder (dir_of (q_original row)) (q_series row)"
  assumes state: "q_state row = Committed" and ok: "row_ok row"
    and names: "own_names f (insert t (set_option (carrier_file row))) \<phi>"
    and some: "\<exists>p \<in> insert t (set_option (carrier_file row)). \<phi> p = Some f"
    and D: "dir_of (dir_of (q_original row)) \<in> D" and N: "insert t (set_option (carrier_file row)) \<subseteq> N"
    and free: "\<phi> (dir_of (dir_of (q_original row)) @ [quarantine_dir_name]) = None" "\<phi> folder = None"
      "dir_of (dir_of (q_original row)) @ [quarantine_dir_name] \<notin> N" "folder \<notin> N"
    and f: "f_reg f" "f_size f \<le> fingerprint_max" "q_file row = id_of f"
  shows "completes (\<lambda>w. view \<phi> D N (jrow None row) w
      \<and> not_public (dir_of (dir_of (q_original row)) @ [quarantine_dir_name]) w \<and> not_public folder w)
    (transfer row) (\<lambda>_. at_rest f t (row\<lparr>q_target := Some t, q_state := Quarantined, q_diagnostic := []\<rparr>))"
proof -
  let ?r = "row\<lparr>q_target := Some t\<rparr>"
  let ?D = "insert folder D"
  let ?J = "jrow None ?r"
  let ?g = "\<lambda>r. r\<lparr>q_state := Quarantined, q_diagnostic := []\<rparr>"
  have t: "t \<noteq> []" "dir_of t = folder" by (simp_all add: t_def folder_def quarantine_target_def quarantine_folder_def dir_of_def butlast_append)
  have okr: "row_ok ?r" using ok state by (auto simp: row_ok_def carrier_path_def t_def split: option.splits)
  have cf: "carrier_file ?r = carrier_file row" by (simp add: carrier_file_def)
  have ne: "t \<noteq> s" if "carrier_file row = Some s" for s using row_names(3) [OF okr, of s t] that cf by simp
  have named: "completes (view \<phi> ?D N (jrow None row))
      (case q_target row of Some t \<Rightarrow> ret row
       | None \<Rightarrow> advance row (\<lambda>r. r\<lparr>q_target := Some (quarantine_target (q_original row) (q_series row) (q_id row))\<rparr>))
      (\<lambda>r w. r = ?r \<and> view \<phi> ?D N ?J w)"
  proof (cases "q_target row")
    case None
    have "allowed (\<lambda>r. r\<lparr>q_target := Some t\<rparr>) row db" for db
      using okr state by (auto simp: allowed_def)
    then show ?thesis unfolding None option.simps t_def [symmetric] by (rule completes_advance)
  next
    case (Some u)
    then have "u = t" using ok by (auto simp: row_ok_def t_def)
    then have "?r = row" using Some by simp
    then show ?thesis unfolding Some option.simps by (intro completes_ret) simp
  qed
  have al: "allowed ?g ?r db" for db using okr state by (auto simp: allowed_def row_ok_def carrier_path_def)
  have finish: "completes (view \<psi> ?D N ?J) (andthen (verify_at t (q_file row)) (\<lambda>_. andthen (remove_carrier ?r) (\<lambda>_. andthen (advance ?r ?g) (\<lambda>_. ret ()))))
      (\<lambda>_. at_rest f t (?g ?r))" if "\<psi> t = Some f" for \<psi>
    unfolding f(3)
    by (rule completes_andthen [OF completes_verify_at [of \<psi> t f, OF that f(1,2)]], rule completes_andthen [OF completes_remove_carrier],
      rule completes_weaken [OF completes_settled [of ?r ?g \<psi> t, OF al that]]) auto
  let ?put = "\<lambda>present taken same. if taken then
           (if \<not> same then throw (Refused ''quarantine name holds another file'')
            else run_if present (andthen verify_guard (\<lambda>_. drop_alias t (the (carrier_file row)) (Some (q_file row)))))
         else if \<not> present then throw (Refused ''captured file is missing'')
         else andthen (verify_at (the (carrier_file row)) (q_file row)) (\<lambda>_.
              andthen verify_guard (\<lambda>_. move_noreplace (the (carrier_file row)) t))"
  let ?look = "\<lambda>w. (case carrier_file row of None \<Rightarrow> False | Some s \<Rightarrow> lexists w s, lexists w t, stat_matches w t (q_file row))"
  let ?body = "andthen (gets ?look) (\<lambda>(present, taken, same). andthen (?put present taken same) (\<lambda>_. andthen (verify_at t (q_file row)) (\<lambda>_.
      andthen (remove_carrier ?r) (\<lambda>_. andthen (advance ?r ?g) (\<lambda>_. ret ())))))"
  have glue: "completes (view \<phi> ?D N ?J) ?body (\<lambda>_. at_rest f t (?g ?r))"
    if "\<And>w. view \<phi> ?D N ?J w \<Longrightarrow> ?look w = (p, k, s)" "completes (view \<phi> ?D N ?J) (?put p k s) (\<lambda>_. view \<psi> ?D N ?J)" "\<psi> t = Some f" for p k s \<psi>
    by (rule completes_look [OF that(1)], assumption, simp only: prod.case, rule completes_andthen [OF that(2) finish [of \<psi>, OF that(3)]])
  have rest: "completes (view \<phi> ?D N ?J) ?body (\<lambda>_. at_rest f t (?g ?r))"
  proof (cases "\<phi> t")
    case None
    then obtain s where s: "carrier_file row = Some s" "\<phi> s = Some f" using some by auto
    show ?thesis
    proof (rule glue)
      show "?look w = (True, False, False)" if w: "view \<phi> ?D N ?J w" for w
        using view_exists [OF w, of s] view_exists [OF w, of t] view_file [OF w] N s None by (auto simp: stat_matches_def)
      have "completes (view \<phi> ?D N ?J) (andthen (verify_at s (id_of f)) (\<lambda>_. andthen verify_guard (\<lambda>_. move_noreplace s t)))
          (\<lambda>_. view (\<phi>(s := None, t := Some f)) ?D N ?J)"
        by (rule completes_skip [OF completes_verify_at [of \<phi> s f, OF s(2) f(1,2)]], rule completes_skip [OF completes_verify_guard],
          rule completes_move [OF s(2) None]) (use t N in auto)
      then show "completes (view \<phi> ?D N ?J) (?put True False False) (\<lambda>_. view (\<phi>(s := None, t := Some f)) ?D N ?J)"
        unfolding f(3) by (simp add: s)
    qed simp
  next
    case (Some g)
    then have t_f: "\<phi> t = Some f" using names by (auto simp: own_names_def)
    show ?thesis
    proof (cases "\<exists>s. carrier_file row = Some s \<and> \<phi> s = Some f")
      case True
      then obtain s where s: "carrier_file row = Some s" "\<phi> s = Some f" by blast
      show ?thesis
      proof (rule glue)
        show "?look w = (True, True, True)" if w: "view \<phi> ?D N ?J w" for w
          using view_exists [OF w, of s] view_exists [OF w, of t] view_same [OF w t_f f(1)] N s t_f f(3) by auto
        show "completes (view \<phi> ?D N ?J) (?put True True True) (\<lambda>_. view (\<phi>(s := None)) ?D N ?J)"
          unfolding f(3) using completes_drop_alias [of t s \<phi> f "Some (id_of f)" ?D N ?J] s t_f ne f
          by (auto intro!: completes_run_if completes_skip [OF completes_verify_guard])
      qed (use ne [OF s(1)] t_f in simp)
    next
      case False
      have free: "\<not> lexists w s" if "view \<phi> ?D N ?J w" "carrier_file row = Some s" for w s
        using view_exists [OF that(1), of s] that(2) N names False by (auto simp: own_names_def)
      show ?thesis
      proof (rule glue)
        show "?look w = (False, True, True)" if w: "view \<phi> ?D N ?J w" for w
          using free [OF w] view_exists [OF w, of t] view_same [OF w t_f f(1)] N t_f f(3) by (auto split: option.splits)
        show "completes (view \<phi> ?D N ?J) (?put False True True) (\<lambda>_. view \<phi> ?D N ?J)"
          by (auto intro: completes_run_if)
      qed (rule t_f)
    qed
  qed
  have sel: "q_original ?r = q_original row" "q_series ?r = q_series row" "q_id ?r = q_id row" "the (q_target ?r) = t"
    "carrier_file ?r = carrier_file row" "q_file ?r = q_file row"
    by (simp_all add: carrier_file_def)
  have dir: "completes (\<lambda>w. view \<phi> D N (jrow None row) w
      \<and> not_public (dir_of (dir_of (q_original row)) @ [quarantine_dir_name]) w \<and> not_public folder w)
      (quarantine_dir (dir_of (q_original row)) (q_series row)) (\<lambda>x w. x = folder \<and> view \<phi> ?D N (jrow None row) w)"
    unfolding folder_def by (rule completes_quarantine_dir) (use D free folder_def in simp_all)
  show ?thesis
    unfolding transfer_def Let_def
    by (rule completes_then [OF dir], rule completes_then [OF named],
      simp only: sel t simp_thms if_False not_False_eq_True, rule rest)
qed

lemma restore_db_succeeds:
  assumes "jrow None row db" "q_state row = Restoring"
  shows "\<exists>db' msg. restore_db row db = Inr ((), db') \<and> jrow None (row\<lparr>q_state := Restored, q_diagnostic := msg\<rparr>) db'"
proof -
  have "\<exists>db'. cas_row row g (db\<lparr>qd_chapters := cs\<rparr>) = Inr db'" for g cs
    by (rule cas_succeeds [of None]) (use assms(1) in \<open>simp add: jrow_def journal_ok_def\<close>)
  then have "\<exists>db'. restore_db row db = Inr ((), db')" by (auto simp: restore_db_def Let_def map_sum_Inr)
  then show ?thesis using restore_db_jrow [OF assms(1) _ assms(2)] by metis
qed

lemma completes_restore_db:
  assumes "q_state row = Restoring" "\<phi> p = Some f"
  shows "completes (view \<phi> D N (jrow None row)) (transact (restore_db row))
    (\<lambda>_ w. \<exists>msg. at_rest f p (row\<lparr>q_state := Restored, q_diagnostic := msg\<rparr>) w)"
  unfolding transact_def
proof (rule completes_effect, rule completesI)
  fix w
  assume w: "calm w" "view \<phi> D N (jrow None row) w"
  then obtain db' msg where "restore_db row (w_journal w) = Inr ((), db')" "jrow None (row\<lparr>q_state := Restored, q_diagnostic := msg\<rparr>) db'"
    using restore_db_succeeds [of row "w_journal w"] assms(1) by (auto simp: view_def)
  with w assms(2) show "\<exists>x w'. (case restore_db row (w_journal w) of Inl e \<Rightarrow> (Inl e, w) | Inr (x, j) \<Rightarrow> (Inr x, w\<lparr>w_journal := j\<rparr>)) = (Inr x, w')
      \<and> calm w' \<and> (\<exists>msg. at_rest f p (row\<lparr>q_state := Restored, q_diagnostic := msg\<rparr>) w')"
    by (auto simp: at_rest_def view_def file_at_def fun_eq_iff)
qed

lemma completes_move_back:
  assumes target: "q_target row = Some t" and ne: "t \<noteq> q_original row"
    and names: "own_names f {q_original row, t} \<phi>" and some: "\<phi> (q_original row) = Some f \<or> \<phi> t = Some f"
    and D: "dir_of (q_original row) \<in> D" and N: "{q_original row, t} \<subseteq> N" and o: "q_original row \<noteq> []"
    and f: "f_reg f" "f_size f \<le> fingerprint_max" "q_file row = id_of f"
  shows "completes (view \<phi> D N J) (move_back row (\<phi> t \<noteq> None)) (\<lambda>x w. x = None \<and> view (\<phi>(t := None, q_original row := Some f)) D N J w)"
proof -
  let ?o = "q_original row"
  show ?thesis
  proof (cases "\<phi> ?o")
    case None
    then have t_f: "\<phi> t = Some f" using some by auto
    have looked: "(lexists w ?o, stat_matches w ?o (q_file row)) = (False, False)" if w: "view \<phi> D N J w" for w
      using view_exists [OF w, of ?o] view_file [OF w, of ?o] N None by (auto simp: stat_matches_def)
    have "completes (view \<phi> D N J) (andthen (pin (dir_of t)) (\<lambda>_. andthen (hash_id t) (\<lambda>i.
        if i \<noteq> id_of f then andthen (refuse_restore row ''quarantined file changed'') (\<lambda>r. ret (Some r))
        else andthen verify_guard (\<lambda>_. andthen (move_noreplace t ?o) (\<lambda>_. ret None)))))
        (\<lambda>x w. x = None \<and> view (\<phi>(t := None, ?o := Some f)) D N J w)"
      by (rule completes_skip [OF completes_pin], rule completes_then [OF completes_hash_id [of \<phi> t f, OF t_f f(1,2)]],
        simp only: simp_thms if_False not_True_eq_False, rule completes_skip [OF completes_verify_guard],
        rule completes_andthen [OF completes_move [of \<phi> t f ?o, OF t_f None o D]], use N in simp, rule completes_ret, simp)
    from completes_catch [OF this] show ?thesis
      unfolding move_back_def Let_def target option.sel f(3)
      by (intro completes_look [OF looked [unfolded f(3)]]) (simp_all add: t_f)
  next
    case (Some g)
    then have o_f: "\<phi> ?o = Some f" using names by (auto simp: own_names_def)
    have looked: "(lexists w ?o, stat_matches w ?o (id_of f)) = (True, True)" if w: "view \<phi> D N J w" for w
      using view_exists [OF w, of ?o] view_same [OF w o_f f(1)] N o_f by auto
    have same: "\<phi>(t := None, ?o := Some f) = \<phi>(t := None)" using o_f ne by auto
    have drop: "completes (view \<phi> D N J) (run_if (\<phi> t \<noteq> None) (andthen verify_guard (\<lambda>_. drop_alias ?o t (Some (id_of f)))))
        (\<lambda>_. view (\<phi>(t := None)) D N J)"
    proof (rule completes_run_if)
      assume "\<phi> t \<noteq> None"
      then have t_f: "\<phi> t = Some f" using names by (auto simp: own_names_def)
      show "completes (view \<phi> D N J) (andthen verify_guard (\<lambda>_. drop_alias ?o t (Some (id_of f)))) (\<lambda>_. view (\<phi>(t := None)) D N J)"
        by (rule completes_skip [OF completes_verify_guard], rule completes_drop_alias [OF ne [symmetric] o_f t_f f(1,2)]) simp
    next
      fix w
      assume "\<not> \<phi> t \<noteq> None" "view \<phi> D N J w"
      then show "view (\<phi>(t := None)) D N J w" by (simp add: fun_upd_idem)
    qed
    show ?thesis
      unfolding move_back_def Let_def target option.sel f(3) same
      by (rule completes_look [OF looked], assumption, simp only: simp_thms prod.case if_True,
        rule completes_andthen [OF drop], rule completes_ret, simp)
  qed
qed

lemma completes_finish_restore:
  assumes state: "q_state row = Restoring" and target: "q_target row = Some t" and ok: "row_ok row"
    and names: "own_names f {q_original row, t} \<phi>" and some: "\<phi> (q_original row) = Some f \<or> \<phi> t = Some f"
    and D: "dir_of (q_original row) \<in> D" and N: "{q_original row, t} \<subseteq> N"
    and f: "f_reg f" "f_size f \<le> fingerprint_max" "q_file row = id_of f"
  shows "completes (view \<phi> D N (jrow None row)) (finish_restore row)
    (\<lambda>x w. x = ORestored \<and> (\<exists>msg. at_rest f (q_original row) (row\<lparr>q_state := Restored, q_diagnostic := msg\<rparr>) w))"
proof -
  let ?o = "q_original row"
  let ?J = "jrow None row"
  let ?\<psi> = "\<phi>(t := None, ?o := Some f)"
  have ne: "t \<noteq> ?o" using row_names(2) [OF ok target] .
  have o: "?o \<noteq> []" using ok by (auto simp: row_ok_def)
  have looked: "(lexists w t, lexists w ?o) = (\<phi> t \<noteq> None, \<phi> ?o \<noteq> None)" if w: "view \<phi> D N ?J w" for w
    using view_exists [OF w, of t] view_exists [OF w, of ?o] N by simp
  have pinned: "completes (view \<phi> D N ?J) (catch (andthen (pin (dir_of ?o)) (\<lambda>_. ret None)) h) (\<lambda>x w. x = None \<and> view \<phi> D N ?J w)" for h
    by (rule completes_catch, rule completes_skip [OF completes_pin], rule completes_ret, simp)
  have finish: "completes (view ?\<psi> D N ?J) (andthen verify_guard (\<lambda>_. andthen (verify_at ?o (id_of f)) (\<lambda>_.
      andthen (transact (restore_db row)) (\<lambda>_. ret ORestored))))
      (\<lambda>x w. x = ORestored \<and> (\<exists>msg. at_rest f ?o (row\<lparr>q_state := Restored, q_diagnostic := msg\<rparr>) w))"
    by (rule completes_skip [OF completes_verify_guard], rule completes_skip [OF completes_verify_at [of ?\<psi> ?o f, OF _ f(1,2)]], simp,
      rule completes_andthen [OF completes_restore_db [of row ?\<psi> ?o f, OF state]], simp, rule completes_ret, simp)
  show ?thesis
    unfolding finish_restore_def Let_def target option.sel f(3)
    by (rule completes_look [OF looked], assumption, unfold prod.case, rule completes_then [OF pinned], unfold option.case,
      rule completes_then [OF completes_move_back [of row t f \<phi> D N ?J, OF target ne names some D N o f]], unfold option.case, rule finish)
qed

subsection \<open>A replay in an undisturbed library\<close>

definition row_names_of :: "q_row \<Rightarrow> path set" where
  "row_names_of r = {q_original r, quarantine_target (q_original r) (q_series r) (q_id r)} \<union> set_option (carrier_file r)"

text \<open>
  Nobody else uses a name of the row, its file is where the durable state says, the library's
  directories are there, and the quarantine directories are private or not made yet.
\<close>

definition undisturbed :: "q_row \<Rightarrow> stored_file \<Rightarrow> 'j durable \<Rightarrow> bool" where
  "undisturbed r f w \<longleftrightarrow>
     f_reg f \<and> f_size f \<le> fingerprint_max \<and> id_of f = q_file r
     \<and> (\<forall>p \<in> row_names_of r. \<not> is_dir w p \<and> (file_at w p = None \<or> file_at w p = Some f))
     \<and> (\<exists>p \<in> places r. file_at w p = Some f)
     \<and> is_dir w (dir_of (q_original r)) \<and> is_dir w (dir_of (dir_of (q_original r)))
     \<and> (\<forall>p \<in> {dir_of (dir_of (q_original r)) @ [quarantine_dir_name], quarantine_folder (dir_of (q_original r)) (q_series r)}.
           file_at w p = None \<and> not_public p w)"

definition recovered :: "q_row \<Rightarrow> outcome \<times> q_state \<times> path" where
  "recovered r =
     (case q_state r of
        Committed \<Rightarrow> (OQuarantined, Quarantined, quarantine_target (q_original r) (q_series r) (q_id r))
      | Restoring \<Rightarrow> (ORestored, Restored, q_original r)
      | _ \<Rightarrow> (ORolledBack, RolledBack, q_original r))"

lemma folder_not_name:
  assumes "row_ok r" "p \<in> insert (quarantine_target (q_original r) (q_series r) (q_id r)) (set_option (carrier_file r))"
  shows "dir_of (dir_of (q_original r)) @ [quarantine_dir_name] \<noteq> p" "quarantine_folder (dir_of (q_original r)) (q_series r) \<noteq> p"
proof -
  have "length p = Suc (length (q_original r))" "2 \<le> length (q_original r)"
    using assms by (auto simp: row_ok_def quarantine_target_def dir_of_def carrier_file_def carrier_path_def)
  then show "dir_of (dir_of (q_original r)) @ [quarantine_dir_name] \<noteq> p" "quarantine_folder (dir_of (q_original r)) (q_series r) \<noteq> p"
    by (auto simp: dir_of_def quarantine_folder_def)
qed

lemma at_rest_row: "at_rest f p r' w \<Longrightarrow> q_id r' = i \<Longrightarrow> q_state r' = st \<Longrightarrow> \<exists>r'. q_id r' = i \<and> q_state r' = st \<and> at_rest f p r' w"
  by blast

text \<open>The world as the precondition of the triples sees it.\<close>

definition seen :: "q_row \<Rightarrow> stored_file \<Rightarrow> q_db durable \<Rightarrow> q_db durable \<Rightarrow> bool" where
  "seen r f w0 w \<longleftrightarrow> undisturbed r f w \<and> jrow None r (w_journal w) \<and> file_at w = file_at w0"

lemma completes_settle_body:
  assumes w0: "undisturbed r f w0" "jrow None r (w_journal w0)" and active: "active_row r"
  shows "completes (seen r f w0) (settle_body True r)
    (\<lambda>x w. x = fst (recovered r) \<and> (\<exists>r'. q_id r' = q_id r \<and> q_state r' = fst (snd (recovered r)) \<and> at_rest f (snd (snd (recovered r))) r' w))"
proof -
  let ?o = "q_original r"
  let ?t = "quarantine_target ?o (q_series r) (q_id r)"
  let ?\<phi> = "file_at w0"
  let ?D = "{dir_of ?o, dir_of (dir_of ?o)}"
  let ?N = "row_names_of r"
  have ok: "row_ok r" using w0(2) by (auto simp: jrow_def journal_ok_def)
  have f: "f_reg f" "f_size f \<le> fingerprint_max" "q_file r = id_of f" using w0(1) by (auto simp: undisturbed_def)
  have names: "own_names f S ?\<phi>" if "S \<subseteq> ?N" for S using w0(1) that by (auto simp: own_names_def undisturbed_def)
  have some: "\<exists>p \<in> places r. ?\<phi> p = Some f" using w0(1) by (simp add: undisturbed_def)
  have view: "view ?\<phi> ?D ?N (jrow None r) w" if "seen r f w0 w" for w
    using that by (auto simp: seen_def undisturbed_def view_def)
  have target: "q_target r = Some ?t" if "q_target r \<noteq> None" using ok that by (auto simp: row_ok_def)
  from active consider (Pending) "q_state r \<in> {Reserved, Captured}" | (Committed) "q_state r = Committed" | (Restoring) "q_state r = Restoring"
    by (auto simp: active_row_def active_states_def)
  then show ?thesis
  proof cases
    case Committed
    have sub: "insert ?t (set_option (carrier_file r)) \<subseteq> ?N" by (auto simp: row_names_of_def)
    have here: "\<exists>p \<in> insert ?t (set_option (carrier_file r)). ?\<phi> p = Some f"
      using some target by (cases "q_target r") (auto simp: places_def Committed)
    have free: "?\<phi> (dir_of (dir_of ?o) @ [quarantine_dir_name]) = None" "?\<phi> (quarantine_folder (dir_of ?o) (q_series r)) = None"
      "dir_of (dir_of ?o) @ [quarantine_dir_name] \<notin> insert ?t (set_option (carrier_file r))"
      "quarantine_folder (dir_of ?o) (q_series r) \<notin> insert ?t (set_option (carrier_file r))"
      using w0(1) folder_not_name [OF ok] by (auto simp: undisturbed_def)
    have moved: "completes (seen r f w0) (transfer r) (\<lambda>_. at_rest f ?t (r\<lparr>q_target := Some ?t, q_state := Quarantined, q_diagnostic := []\<rparr>))"
      by (rule completes_pre [OF completes_transfer [of r f ?\<phi> ?D "insert ?t (set_option (carrier_file r))", OF Committed ok names [OF sub] here _ order_refl free f]])
        (use view sub in \<open>auto simp: seen_def undisturbed_def view_def\<close>)
    show ?thesis
      unfolding settle_body_def Committed
      by (rule completes_then [of _ _ r "seen r f w0"], simp add: completes_ret, simp add: Committed,
        rule completes_andthen [OF moved], rule completes_ret)
        (auto simp: recovered_def Committed intro: at_rest_row)
  next
    case Restoring
    have t: "q_target r = Some ?t" using ok Restoring target by (auto simp: row_ok_def split: option.splits)
    have sub: "{?o, ?t} \<subseteq> ?N" by (auto simp: row_names_of_def)
    have here: "?\<phi> ?o = Some f \<or> ?\<phi> ?t = Some f" using some t by (auto simp: places_def Restoring)
    have undo: "completes (seen r f w0) (finish_restore r)
        (\<lambda>x w. x = ORestored \<and> (\<exists>msg. at_rest f ?o (r\<lparr>q_state := Restored, q_diagnostic := msg\<rparr>) w))"
      by (rule completes_pre [OF completes_finish_restore [of r ?t f ?\<phi> ?D ?N, OF Restoring t ok names [OF sub] here _ sub f]]) (use view in auto)
    show ?thesis
      unfolding settle_body_def Restoring
      by (rule completes_then [of _ _ r "seen r f w0"], simp add: completes_ret, simp add: Restoring,
        rule completes_weaken [OF undo]) (auto simp: recovered_def Restoring intro: at_rest_row)
  next
    case Pending
    have sub: "insert ?o (set_option (carrier_file r)) \<subseteq> ?N" by (auto simp: row_names_of_def)
    have here: "\<exists>p \<in> insert ?o (set_option (carrier_file r)). ?\<phi> p = Some f" using some Pending by (auto simp: places_def)
    have undo: "completes (seen r f w0) (rollback r) (\<lambda>_. at_rest f ?o (set_state RolledBack r))"
      by (rule completes_pre [OF completes_rollback [of r f ?\<phi> ?D ?N, OF Pending ok names [OF sub] here _ sub f(1,2)]]) (use view in auto)
    have end_state: "recovered r = (ORolledBack, RolledBack, ?o)" using Pending by (auto simp: recovered_def)
    show ?thesis
      unfolding settle_body_def end_state fst_conv snd_conv
      by (rule completes_then [of _ _ r "seen r f w0"], simp add: completes_ret, rule completes_if,
        rule completes_andthen [OF undo], rule completes_ret) (use Pending in \<open>auto simp: set_state_def intro: at_rest_row\<close>)
  qed
qed

lemma completes_load_row:
  "completes (seen r f w0) (load_row (q_id r)) (\<lambda>x w. x = Some r \<and> seen r f w0 w)"
proof -
  have "find (\<lambda>x. q_id x = q_id r) (qd_rows db) = Some r" if "jrow None r db" for db
    using that by (auto simp: jrow_def journal_ok_def intro: find_key_Some)
  then show ?thesis unfolding load_row_def by (intro completes_effect completes_gets) (auto simp: seen_def)
qed

text \<open>
  C22: A replay recovers: from any active state a crash can leave, in a library nobody else has touched and
  with nothing refused, one replay of the row returns and ends it. A row that had not committed is
  rolled back with its file under the original name, a committed row is quarantined with its file
  under the quarantine name, and an interrupted restore is restored with its file under the
  original name.
\<close>

theorem replay_recovers:
  assumes "journal_ok (w_journal w)" "r \<in> set (qd_rows (w_journal w))" "active_row r" "calm w" "undisturbed r f w"
  shows "\<exists>w' r'. replay (q_id r) w = (Inr (fst (recovered r)), w') \<and> r' \<in> set (qd_rows (w_journal w')) \<and> q_id r' = q_id r
    \<and> q_state r' = fst (snd (recovered r)) \<and> file_at w' (snd (snd (recovered r))) = Some f"
proof -
  have j: "jrow None r (w_journal w)" using assms by (simp add: jrow_def)
  let ?Q = "\<lambda>x v. x = fst (recovered r) \<and> (\<exists>r'. q_id r' = q_id r \<and> q_state r' = fst (snd (recovered r)) \<and> at_rest f (snd (snd (recovered r))) r' v)"
  have body: "completes (seen r f w) (settle True r) ?Q"
    unfolding settle_def by (rule completes_catch, rule completes_settle_body [OF assms(5) j assms(3)])
  have "completes (seen r f w) (replay (q_id r)) ?Q"
    unfolding replay_def
    by (rule completes_catch, rule completes_skip [OF completes_verify_guard], rule completes_then [OF completes_load_row],
      unfold option.case if_P [OF assms(3)], simp only: assms(3) simp_thms if_False not_True_eq_False, rule body)
  then obtain x w' where "replay (q_id r) w = (Inr x, w')" "?Q x w'"
    by (rule completesE [OF _ assms(4)]) (use assms(5) j in \<open>simp add: seen_def\<close>)
  then show ?thesis by (auto simp: at_rest_def jrow_def)
qed

lemma calm_demo: "calm quarantine_demo"
  by (simp add: calm_def quarantine_demo_def)

lemma undisturbed_demo: "undisturbed demo_quarantine demo_loose quarantine_demo"
  by (simp add: undisturbed_def demo_quarantine_def row_names_of_def places_def carrier_file_def base_of_def dir_of_def
      quarantine_target_def quarantine_folder_def quarantine_dir_name_def carrier_prefix_def not_public_def is_dir_def file_at_def
      quarantine_demo_def demo_loose_def fingerprint_max_def)

theorem replay_recovers_witness:
  "\<exists>w' r'. replay 1 quarantine_demo = (Inr OQuarantined, w') \<and> r' \<in> set (qd_rows (w_journal w')) \<and> q_id r' = 1
    \<and> q_state r' = Quarantined \<and> file_at w' (quarantine_target [''lib'', ''s'', ''c.cbz''] 2 1) = Some demo_loose"
proof -
  have r: "demo_quarantine \<in> set (qd_rows (w_journal quarantine_demo))" "active_row demo_quarantine"
    by (simp_all add: quarantine_demo_def active_row_def active_states_def demo_quarantine_def)
  from replay_recovers [OF quarantine_demo_ok(2) r calm_demo undisturbed_demo]
  show ?thesis by (simp add: recovered_def demo_quarantine_def)
qed

subsection \<open>Quarantine names\<close>

lemma dec_nat_length: "0 < k \<Longrightarrow> n < 10 ^ k \<Longrightarrow> length (dec_nat n) \<le> k"
proof (induction n arbitrary: k rule: dec_nat.induct)
  case (1 n)
  show ?case
  proof (cases "n < 10")
    case True
    then show ?thesis using 1(2) by (subst dec_nat.simps) simp
  next
    case False
    then obtain k' where k: "k = Suc k'" "0 < k'" using 1(2,3) by (cases k; cases "k - 1") auto
    then have "n div 10 < 10 ^ k'" using 1(3) by (simp add: less_mult_imp_div_less mult.commute)
    with 1(1) False k show ?thesis by (subst dec_nat.simps) simp
  qed
qed

lemma fs_length_append [simp]: "fs_length (s @ t) = fs_length s + fs_length t" and fs_length_Nil [simp]: "fs_length [] = 0"
  by (simp_all add: fs_length_def)

lemma fs_length_Cons [simp]: "fs_length (c # s) = (if (of_char c :: nat) < 128 then 1 else 2) + fs_length s"
  by (simp add: fs_length_def)

lemma fs_length_digits: "list_all is_digit s \<Longrightarrow> fs_length s = length s"
  by (induction s) (auto simp: is_digit_def Let_def)

lemma shorten_shape: "\<exists>stem'. shorten stem tail = stem' @ ''~'' @ tail"
proof (induction stem tail rule: shorten.induct)
  case (2 c stem tail)
  then show ?case
    by (cases "fs_length ((c # stem) @ ''~'' @ tail) > name_max") (auto simp del: append_Cons intro: exI [of _ "c # stem"])
qed simp

lemma shorten_fits: "fs_length tail < name_max \<Longrightarrow> fs_length (shorten stem tail) \<le> name_max"
proof (induction stem tail rule: shorten.induct)
  case (2 c stem tail)
  then show ?case by (cases "fs_length ((c # stem) @ ''~'' @ tail) > name_max") (simp_all del: fs_length_append fs_length_Cons append_Cons)
qed simp

lemma target_name_shape: "\<exists>stem. target_name base i = stem @ ''.'' @ dec_int i"
proof -
  obtain a b where ab: "splitext base = (a, b)" by (cases "splitext base")
  obtain s where s: "shorten base (''.'' @ dec_int i) = (s @ ''~'') @ ''.'' @ dec_int i" using shorten_shape by auto
  obtain t where t: "shorten a (b @ ''.'' @ dec_int i) = (t @ ''~'' @ b) @ ''.'' @ dec_int i"
    using shorten_shape [of a "b @ ''.'' @ dec_int i"] by auto
  show ?thesis unfolding target_name_def Let_def ab prod.case s t by auto
qed

lemma dot_suffix_inject:
  assumes "s @ CHR ''.'' # a = t @ CHR ''.'' # b" "CHR ''.'' \<notin> set a" "CHR ''.'' \<notin> set b"
  shows "a = b"
proof -
  have "takeWhile (\<lambda>c. c \<noteq> CHR ''.'') (rev (x @ CHR ''.'' # y)) = rev y" if "CHR ''.'' \<notin> set y" for x y :: string
    using that by (subst rev_append, simp, subst takeWhile_append2) auto
  from this [OF assms(2), of s] this [OF assms(3), of t] assms(1) show ?thesis by simp
qed

text \<open>
  The name of a quarantined file fits in a directory entry, whatever the name of the loose
  file was, and rows of different ids never get the same name, shortened or not: no file in the
  quarantine replaces another.
\<close>

theorem quarantine_name_fits:
  assumes "0 \<le> i" "i < 2 ^ 63" "0 \<le> j"
  shows "fs_length (target_name base i) \<le> 255 \<and> (target_name base i = target_name base' j \<longrightarrow> i = j)"
proof
  let ?tail = "''.'' @ dec_int i"
  have "length (dec_int i) \<le> 19"
    using dec_nat_length [of 19 "nat i"] assms by (simp add: dec_int_def)
  then have tail: "fs_length ?tail \<le> 20"
    using assms fs_length_digits [OF dec_nat_digits, of "nat i"] by (simp add: dec_int_def)
  then show "fs_length (target_name base i) \<le> 255"
    using shorten_fits [of ?tail base] shorten_fits
    by (auto simp: target_name_def Let_def name_max_def split: prod.splits)
next
  have digits: "CHR ''.'' \<notin> set (dec_int k)" if "0 \<le> k" for k
    using dec_nat_digits [of "nat k"] that by (auto simp: dec_int_def list_all_iff is_digit_def)
  show "target_name base i = target_name base' j \<longrightarrow> i = j"
  proof
    assume same: "target_name base i = target_name base' j"
    obtain s t where "target_name base i = s @ ''.'' @ dec_int i" "target_name base' j = t @ ''.'' @ dec_int j"
      using target_name_shape by blast
    with same have "dec_int i = dec_int j" by (intro dot_suffix_inject [OF _ digits digits]) (use assms in auto)
    then show "i = j" using assms by (simp add: dec_int_def)
  qed
qed

theorem quarantine_name_fits_witness:
  "fs_length (target_name (replicate 260 CHR ''a'' @ ''.cbz'') 12) \<le> 255
    \<and> target_name (replicate 260 CHR ''a'' @ ''.cbz'') 12 \<noteq> target_name (replicate 260 CHR ''a'' @ ''.cbz'') 13"
proof -
  have "fs_length (target_name (replicate 260 CHR ''a'' @ ''.cbz'') 12) \<le> 255
    \<and> (target_name (replicate 260 CHR ''a'' @ ''.cbz'') 12 = target_name (replicate 260 CHR ''a'' @ ''.cbz'') 13 \<longrightarrow> (12 :: int) = 13)"
    by (rule quarantine_name_fits) simp_all
  moreover have "(12 :: int) \<noteq> 13" by simp
  ultimately show ?thesis by blast
qed

end
