(* ===== verification/File_Names.thy ===== *)
theory File_Names
  imports Py_Path Py_Number "HOL-Library.Sublist" "HOL-Library.Product_Lexorder"
begin

text \<open>
  Names of library files: the naming half of \<open>app/files.py\<close> (sanitising, templates, labels, the
  join that confines a name to its directory), the number formats of \<open>parsing.py\<close> they use, and the
  library directory of a series (\<open>rescan.py\<close>, \<open>helpers.py\<close>). Characters are Latin-1. A label with a
  dash keeps its two ends apart. \<open>os.path.realpath\<close> and the settings are arguments.
\<close>

subsection \<open>Text operations\<close>

text \<open>\<open>str.replace\<close> and \<open>re.sub\<close> of \<open>\{Token:(\d+)d\}\<close>.\<close>

function replace_all :: "string \<Rightarrow> string \<Rightarrow> string \<Rightarrow> string" where
  "replace_all tok val [] = []"
| "replace_all tok val (c # s) =
     (if tok \<noteq> [] \<and> prefix tok (c # s) then val @ replace_all tok val (drop (length tok) (c # s))
      else c # replace_all tok val s)"
  by pat_completeness auto
termination
  by (relation "measure (\<lambda>(_, _, s). length s)") auto

function subst_padded :: "string \<Rightarrow> (nat \<Rightarrow> string) \<Rightarrow> string \<Rightarrow> string" where
  "subst_padded tok f [] = []"
| "subst_padded tok f (c # s) =
     (let rest = drop (length tok) (c # s);
          digits = takeWhile is_digit rest;
          after = dropWhile is_digit rest
      in if prefix tok (c # s) \<and> digits \<noteq> [] \<and> prefix ''d}'' after
         then f (undec digits) @ subst_padded tok f (drop 2 after)
         else c # subst_padded tok f s)"
  by pat_completeness auto
termination
proof (relation "measure (\<lambda>(_, _, s). length s)")
  fix tok :: string and f :: "nat \<Rightarrow> string" and c :: char and s rest digits after
  assume a: "rest = drop (length tok) (c # s)" "after = dropWhile is_digit rest"
  have "length after \<le> length (c # s)" unfolding a by (rule le_trans [OF length_dropWhile_le]) simp
  then show "((tok, f, drop 2 after), tok, f, c # s) \<in> measure (\<lambda>(_, _, s). length s)" by simp
qed auto

definition zfill :: "nat \<Rightarrow> string \<Rightarrow> string" where
  "zfill n s =
     (let pad = replicate (n - length s) (CHR ''0'')
      in case s of
           [] \<Rightarrow> pad
         | c # cs \<Rightarrow> if c = CHR ''-'' \<or> c = CHR ''+'' then c # pad @ cs else pad @ s)"

text \<open>\<open>int(x)\<close> of a float.\<close>

definition py_int :: "rat \<Rightarrow> int" where
  "py_int x = (if x < 0 then - \<lfloor>- x\<rfloor> else \<lfloor>x\<rfloor>)"

subsection \<open>Numbers and labels\<close>

definition volume_fraction :: "rat \<Rightarrow> int" where
  "volume_fraction v = round_half_even (round_double (round_double (v - of_int (py_int v)) * 100))"

definition vol_num_to_display :: "rat option \<Rightarrow> string" where
  "vol_num_to_display n =
     (case n of
        None \<Rightarrow> []
      | Some v \<Rightarrow>
          (let whole = dec_int (py_int v); frac = volume_fraction v
           in if frac = 0 then whole
              else if frac = 1 then whole @ ''a'' else if frac = 2 then whole @ ''b''
              else if frac = 3 then whole @ ''c'' else if frac = 4 then whole @ ''d''
              else if frac = 50 then whole @ [CHR 0xBD] else if frac = 25 then whole @ [CHR 0xBC]
              else if frac = 75 then whole @ [CHR 0xBE]
              else format_g v))"

datatype label =
    Vol string | CompleteSeries | ChapterPack | VolRange string string | PackLabel
  | NoLabel | Ch string | ChRange string string

definition build_volume_label :: "rat option \<Rightarrow> (rat \<times> rat) option \<Rightarrow> string option \<Rightarrow> label" where
  "build_volume_label n rng pack_type =
     (case n of
        Some v \<Rightarrow> Vol (vol_num_to_display (Some v))
      | None \<Rightarrow>
          if pack_type = Some ''complete'' then CompleteSeries
          else if pack_type = Some ''chapter'' then ChapterPack
          else case rng of
                 Some (a, b) \<Rightarrow> VolRange (vol_num_to_display (Some a)) (vol_num_to_display (Some b))
               | None \<Rightarrow> PackLabel)"

definition is_whole :: "rat \<Rightarrow> bool" where
  "is_whole x \<longleftrightarrow> x = of_int (py_int x)"

definition format_chapter_num :: "rat \<Rightarrow> string" where
  "format_chapter_num n = (if is_whole n then format_0d 3 (py_int n) else format_g n)"

definition build_chapter_label :: "rat option \<Rightarrow> rat option \<Rightarrow> label" where
  "build_chapter_label n range_end =
     (case n of
        None \<Rightarrow> NoLabel
      | Some c \<Rightarrow>
          (case range_end of
             Some e \<Rightarrow> if e > c then ChRange (format_chapter_num c) (format_chapter_num e) else Ch (format_chapter_num c)
           | None \<Rightarrow> Ch (format_chapter_num c)))"

subsection \<open>Sanitising and joining\<close>

definition reserved_char :: "char \<Rightarrow> bool" where
  "reserved_char c \<longleftrightarrow>
     c \<in> {CHR ''<'', CHR ''>'', CHR '':'', CHR 0x22, CHR ''/'', CHR 0x5C, CHR ''|'', CHR ''?'', CHR ''*''} \<or> (of_char c :: nat) < 32"

definition dot_or_space :: "char \<Rightarrow> bool" where
  "dot_or_space c \<longleftrightarrow> c = CHR ''.'' \<or> c = CHR '' ''"

definition sanitize_filename :: "string \<Rightarrow> string" where
  "sanitize_filename name =
     (let safe = strip_by dot_or_space (map (\<lambda>c. if reserved_char c then CHR ''_'' else c) name)
      in if safe = [] then ''Unknown'' else safe)"

datatype join_error =
  EmptyName | SeparatorInName | AbsoluteName | TraversalInName | UnusableName | EscapesDirectory

function path_parts :: "string \<Rightarrow> string list" where
  "path_parts s =
     (let part = takeWhile (\<lambda>c. c \<noteq> CHR ''/'') s; rest = dropWhile (\<lambda>c. c \<noteq> CHR ''/'') s
      in case rest of [] \<Rightarrow> [part] | _ # more \<Rightarrow> part # path_parts more)"
  by pat_completeness auto
termination
proof (relation "measure length")
  fix s part rest :: string and c more
  assume "rest = dropWhile (\<lambda>c. c \<noteq> CHR ''/'') s" "rest = c # more"
  then have "length (c # more) \<le> length s" by (metis length_dropWhile_le)
  then show "(more, s) \<in> measure length" by simp
qed simp

declare path_parts.simps [simp del]

definition safe_join_under :: "(string \<Rightarrow> string) \<Rightarrow> string \<Rightarrow> string \<Rightarrow> join_error + string" where
  "safe_join_under realpath dst_dir filename =
     (if filename = [] then Inl EmptyName
      else if CHR ''/'' \<in> set filename \<or> CHR 0x5C \<in> set filename then Inl SeparatorInName
      else if prefix ''/'' filename then Inl AbsoluteName
      else if ''..'' \<in> set (path_parts (map (\<lambda>c. if c = CHR 0x5C then CHR ''/'' else c) filename)) then Inl TraversalInName
      else if sanitize_filename filename = ''Unknown'' then Inl UnusableName
      else
        let candidate = path_join dst_dir (sanitize_filename filename);
            base_real = realpath dst_dir; cand_real = realpath candidate
        in if cand_real \<noteq> base_real \<and> \<not> prefix (base_real @ ''/'') cand_real then Inl EscapesDirectory else Inr candidate)"

subsection \<open>Templates\<close>

definition chapter_text :: "rat \<Rightarrow> string" where
  "chapter_text n = (if is_whole n then dec_int (py_int n) else py_repr_float n)"

definition apply_format_tokens :: "string \<Rightarrow> string \<Rightarrow> rat option \<Rightarrow> rat option \<Rightarrow> int option \<Rightarrow> string" where
  "apply_format_tokens fmt series_title volume_num chapter_num pub_year =
     (let safe_title = sanitize_filename series_title;
          dot_title = replace_all '' '' ''.'' safe_title;
          year_str = (case pub_year of None \<Rightarrow> [] | Some y \<Rightarrow> if y = 0 then [] else dec_int y);
          name1 = replace_all ''{Series Title}'' safe_title fmt;
          name2 = replace_all ''{Series.Title}'' dot_title name1;
          name3 = replace_all ''{Year}'' year_str name2;
          name4 = (case volume_num of
             None \<Rightarrow> name3
           | Some v \<Rightarrow> (let text = vol_num_to_display (Some v)
               in replace_all ''{Volume}'' text (subst_padded ''{Volume:'' (\<lambda>n. zfill n text) name3)));
          name5 = (case chapter_num of
             None \<Rightarrow> name4
           | Some c \<Rightarrow> (let text = chapter_text c
               in replace_all ''{Chapter}'' text (subst_padded ''{Chapter:'' (\<lambda>n. zfill n text) name4)))
      in py_strip name5)"

definition name_format :: "(string \<Rightarrow> string) \<Rightarrow> rat option \<Rightarrow> string" where
  "name_format cfg chapter_num =
     (if chapter_num \<noteq> None then
        (let chapter_fmt = py_strip (cfg ''chapter_format''); file_fmt = py_strip (cfg ''file_format'')
         in if chapter_fmt \<noteq> [] then chapter_fmt
            else if sublist ''{Chapter'' file_fmt \<and> \<not> sublist ''{Volume'' file_fmt then file_fmt else [])
      else py_strip (cfg ''file_format''))"

definition build_filename ::
  "(string \<Rightarrow> string) \<Rightarrow> string \<Rightarrow> rat option \<Rightarrow> string \<Rightarrow> int option \<Rightarrow> rat option \<Rightarrow> string" where
  "build_filename cfg series_title volume_num original pub_year chapter_num =
     (let ext = snd (splitext original); fmt = name_format cfg chapter_num
      in if fmt = [] then sanitize_filename (path_basename original)
         else apply_format_tokens fmt series_title volume_num chapter_num pub_year @ ext)"

definition build_special_filename :: "string \<Rightarrow> string \<Rightarrow> string \<Rightarrow> string" where
  "build_special_filename series_title special_title original =
     (let ext = snd (splitext (path_basename original));
          safe_series = sanitize_filename series_title;
          safe_title = sanitize_filename (if py_strip special_title = [] then ''Special'' else py_strip special_title)
      in sanitize_filename (safe_series @ '' - Special - '' @ safe_title @ ext))"

definition quality_rank_table :: "(string \<times> nat) list" where
  "quality_rank_table =
     [(''cbz'', 5), (''zip'', 5), (''cbr'', 4), (''rar'', 4), (''epub'', 3), (''mobi'', 2), (''pdf'', 1)]"

definition quality_rank :: "string option \<Rightarrow> nat" where
  "quality_rank q = (case map_of quality_rank_table (py_lower (case q of None \<Rightarrow> [] | Some s \<Rightarrow> s)) of None \<Rightarrow> 0 | Some n \<Rightarrow> n)"

subsection \<open>The directory of a series\<close>

record root_folder =
  rf_id :: int
  rf_path :: string
  rf_default :: "int option"

record series_place =
  sp_id :: int
  sp_title :: "string option"
  sp_root :: "int option"
  sp_year :: "int option"
  sp_folder :: "string option"

text \<open>\<open>ORDER BY is_default DESC, id\<close>: NULL sorts last.\<close>

definition root_order :: "root_folder \<Rightarrow> int \<times> int \<times> int" where
  "root_order r = (case rf_default r of None \<Rightarrow> (1, 0, rf_id r) | Some d \<Rightarrow> (0, - d, rf_id r))"

definition resolve_root_folder_id :: "root_folder list \<Rightarrow> int option \<Rightarrow> int option" where
  "resolve_root_folder_id roots preferred =
     (if (case preferred of None \<Rightarrow> False | Some i \<Rightarrow> i \<noteq> 0 \<and> list_ex (\<lambda>r. rf_id r = i) roots) then preferred
      else case sort_key root_order roots of [] \<Rightarrow> None | r # _ \<Rightarrow> Some (rf_id r))"

text \<open>\<open>None\<close>: the \<open>RuntimeError\<close> of an installation without root folders.\<close>

definition resolve_series_dest_root :: "root_folder list \<Rightarrow> root_folder option \<Rightarrow> string option" where
  "resolve_series_dest_root roots rf_row =
     (case rf_row of
        Some r \<Rightarrow> Some (rf_path r)
      | None \<Rightarrow>
          (case resolve_root_folder_id roots None of
             None \<Rightarrow> None
           | Some i \<Rightarrow> map_option rf_path (find (\<lambda>r. rf_id r = i) roots)))"

definition folder_usable :: "string \<Rightarrow> bool" where
  "folder_usable name \<longleftrightarrow>
     name \<noteq> [] \<and> name \<noteq> ''.'' \<and> name \<noteq> ''..'' \<and> path_basename name = name \<and> CHR ''/'' \<notin> set name \<and> CHR 0x5C \<notin> set name"

definition series_folder :: "(string \<Rightarrow> string) \<Rightarrow> series_place \<Rightarrow> string" where
  "series_folder cfg s =
     (let folder_name = py_strip (case sp_folder s of None \<Rightarrow> [] | Some n \<Rightarrow> n);
          title = (case sp_title s of None \<Rightarrow> ''Unknown'' | Some t \<Rightarrow> if t = [] then ''Unknown'' else t);
          folder_format = py_strip (cfg ''folder_format'')
      in if folder_usable folder_name then folder_name
         else if folder_format \<noteq> [] then sanitize_filename (apply_format_tokens folder_format title None None (sp_year s))
         else sanitize_filename title)"

text \<open>\<open>Inl ()\<close> is the \<open>RuntimeError\<close>, \<open>Inr None\<close> a series that is not there.\<close>

definition series_library_dir ::
  "(string \<Rightarrow> string) \<Rightarrow> root_folder list \<Rightarrow> series_place list \<Rightarrow> int \<Rightarrow> unit + string option" where
  "series_library_dir cfg roots series_rows series_id =
     (case find (\<lambda>s. sp_id s = series_id) series_rows of
        None \<Rightarrow> Inr None
      | Some s \<Rightarrow>
          (let root_row = (case sp_root s of None \<Rightarrow> None | Some i \<Rightarrow> if i = 0 then None else find (\<lambda>r. rf_id r = i) roots)
           in case resolve_series_dest_root roots root_row of
                None \<Rightarrow> Inl ()
              | Some dest_root \<Rightarrow> Inr (Some (path_join dest_root (series_folder cfg s)))))"

subsection \<open>Sanitised names\<close>

lemma strip_by_subset: "set (strip_by p s) \<subseteq> set s"
  by (auto simp: strip_by_def dest!: set_dropWhileD)

lemma sanitize_cases:
  obtains (Unknown) "sanitize_filename n = ''Unknown''"
  | (Clean) s where "sanitize_filename n = s" "s \<noteq> []" "s = strip_by dot_or_space (map (\<lambda>c. if reserved_char c then CHR ''_'' else c) n)"
  by (cases "strip_by dot_or_space (map (\<lambda>c. if reserved_char c then CHR ''_'' else c) n) = []")
    (simp_all add: sanitize_filename_def Let_def)

lemma sanitize_clean:
  "sanitize_filename n \<noteq> [] \<and> list_all (\<lambda>c. \<not> reserved_char c) (sanitize_filename n)
   \<and> \<not> dot_or_space (hd (sanitize_filename n)) \<and> \<not> dot_or_space (last (sanitize_filename n))"
proof (cases n rule: sanitize_cases)
  case Unknown
  then show ?thesis by (simp add: reserved_char_def dot_or_space_def)
next
  case (Clean s)
  have "\<not> reserved_char c" if "c \<in> set s" for c
    using strip_by_subset [of dot_or_space] that Clean(3) by (fastforce simp: reserved_char_def)
  moreover have "\<not> dot_or_space (hd s)" "\<not> dot_or_space (last s)"
    using Clean(2) strip_by_hd strip_by_last unfolding Clean(3) by metis+
  ultimately show ?thesis using Clean by (simp add: list_all_iff)
qed

lemma sanitize_idem: "sanitize_filename (sanitize_filename n) = sanitize_filename n"
proof -
  let ?s = "sanitize_filename n"
  have s: "?s \<noteq> []" "list_all (\<lambda>c. \<not> reserved_char c) ?s" "\<not> dot_or_space (hd ?s)" "\<not> dot_or_space (last ?s)"
    using sanitize_clean [of n] by auto
  have "map (\<lambda>c. if reserved_char c then CHR ''_'' else c) ?s = ?s"
    using s(2) by (simp add: list_all_iff map_idI)
  with strip_by_ends [OF s(1,3,4)] s(1) show ?thesis by (simp add: sanitize_filename_def [of ?s])
qed

text \<open>One path component that is neither the directory itself nor its parent.\<close>

definition plain_name :: "string \<Rightarrow> bool" where
  "plain_name n \<longleftrightarrow> n \<noteq> [] \<and> n \<noteq> ''.'' \<and> n \<noteq> ''..'' \<and> CHR ''/'' \<notin> set n \<and> CHR 0x5C \<notin> set n"

lemma sanitize_plain: "plain_name (sanitize_filename n)"
proof -
  have "\<not> dot_or_space (hd (sanitize_filename n))" "list_all (\<lambda>c. \<not> reserved_char c) (sanitize_filename n)" "sanitize_filename n \<noteq> []"
    using sanitize_clean [of n] by auto
  moreover have "dot_or_space (CHR ''.'')" "reserved_char (CHR ''/'')" "reserved_char (CHR 0x5C)" by code_simp+
  ultimately show ?thesis unfolding plain_name_def list_all_iff by (metis list.sel(1))
qed

lemma series_folder_plain: "plain_name (series_folder cfg s)"
  using sanitize_plain by (auto simp: series_folder_def Let_def folder_usable_def plain_name_def)

lemma resolve_dest_member: "resolve_series_dest_root roots row = Some d \<Longrightarrow> (\<forall>r. row = Some r \<longrightarrow> r \<in> set roots) \<Longrightarrow> \<exists>r \<in> set roots. rf_path r = d"
  by (auto simp: resolve_series_dest_root_def find_Some_iff split: option.splits)

text \<open>The folder of a series lies in a root folder; a joined name is sanitised and stays inside.\<close>

lemma library_dest:
  assumes "series_library_dir cfg roots series_rows i = Inr (Some d)"
  shows "\<exists>root \<in> set roots. \<exists>folder. d = path_join (rf_path root) folder \<and> plain_name folder"
proof -
  obtain s root_row dest where dest: "resolve_series_dest_root roots root_row = Some dest" "d = path_join dest (series_folder cfg s)"
    and row: "root_row = (case sp_root s of None \<Rightarrow> None | Some i \<Rightarrow> if i = 0 then None else find (\<lambda>r. rf_id r = i) roots)"
    using assms by (auto simp: series_library_dir_def Let_def split: option.splits)
  have "\<forall>r. root_row = Some r \<longrightarrow> r \<in> set roots" using row by (auto simp: find_Some_iff split: option.splits if_splits)
  with dest show ?thesis using resolve_dest_member series_folder_plain by blast
qed

lemma safe_join_eq:
  assumes "safe_join_under realpath d name = Inr p"
  shows "p = path_join d (sanitize_filename name) \<and> (realpath p = realpath d \<or> prefix (realpath d @ ''/'') (realpath p))"
  using assms by (auto simp: safe_join_under_def Let_def split: if_splits)

text \<open>
  C24: Imported files stay where the library says: the directory of a series is one plain component
  below a configured root folder, and a file name accepted for it becomes one plain, already
  sanitised component below that directory, whose real path does not leave the directory's.
\<close>

theorem library_names_confined:
  assumes "series_library_dir cfg roots series_rows i = Inr (Some d)" "safe_join_under realpath d name = Inr p"
  shows "\<exists>root \<in> set roots. \<exists>folder file.
    d = path_join (rf_path root) folder \<and> plain_name folder
    \<and> p = path_join d file \<and> plain_name file \<and> sanitize_filename file = file
    \<and> (realpath p = realpath d \<or> prefix (realpath d @ ''/'') (realpath p))"
  using library_dest [OF assms(1)] safe_join_eq [OF assms(2)] sanitize_plain sanitize_idem by blast

theorem library_names_confined_witness:
  "\<exists>root \<in> set [\<lparr>rf_id = 1, rf_path = ''/lib'', rf_default = Some 1\<rparr>]. \<exists>folder file.
    ''/lib/A_B'' = path_join (rf_path root) folder \<and> plain_name folder
    \<and> ''/lib/A_B/v 01.cbz'' = path_join ''/lib/A_B'' file \<and> plain_name file \<and> sanitize_filename file = file
    \<and> (id ''/lib/A_B/v 01.cbz'' = id ''/lib/A_B'' \<or> prefix (id ''/lib/A_B'' @ ''/'') (id ''/lib/A_B/v 01.cbz''))"
proof (rule library_names_confined)
  show "series_library_dir (\<lambda>_. []) [\<lparr>rf_id = 1, rf_path = ''/lib'', rf_default = Some 1\<rparr>]
      [\<lparr>sp_id = 2, sp_title = Some ''A/B'', sp_root = Some 9, sp_year = None, sp_folder = Some ''../x''\<rparr>] 2 = Inr (Some ''/lib/A_B'')"
    by code_simp
  show "safe_join_under id ''/lib/A_B'' ''.v 01.cbz'' = Inr ''/lib/A_B/v 01.cbz''" by code_simp
qed

end
