(* ===== verification/Rename_Plan.thy ===== *)
theory Rename_Plan
  imports File_Names Durable_World
begin

text \<open>
  Library renames (\<open>app/rename_plan.py\<close>): the read-only plan of a series or of the library, and its
  execution, which moves each file and repoints the rows in one transaction, moving the file back
  when the transaction fails. Stored paths are strings; a string names the path of its
  \<open>os.path.abspath\<close>, since the model has no symbolic links. Event log lines are left out.
\<close>

subsection \<open>Paths as strings\<close>

text \<open>\<open>os.path.normpath\<close> of an absolute path, as components; \<open>..\<close> at the root is dropped.\<close>

fun norm_step :: "path \<Rightarrow> string list \<Rightarrow> path" where
  "norm_step done [] = done"
| "norm_step done (c # cs) =
     (if c = [] \<or> c = ''.'' then norm_step done cs
      else if c = ''..'' then norm_step (butlast done) cs
      else norm_step (done @ [c]) cs)"

definition abs_components :: "string \<Rightarrow> string \<Rightarrow> path" where
  "abs_components cwd p = norm_step [] (path_parts (if prefix ''/'' p then p else path_join cwd p))"

definition double_slash :: "string \<Rightarrow> string \<Rightarrow> bool" where
  "double_slash cwd p \<longleftrightarrow>
     (let q = (if prefix ''/'' p then p else path_join cwd p) in prefix ''//'' q \<and> \<not> prefix ''///'' q)"

text \<open>\<open>_norm\<close>: two leading slashes are kept apart from one.\<close>

definition norm_path :: "string \<Rightarrow> string \<Rightarrow> bool \<times> path" where
  "norm_path cwd p = (double_slash cwd p, abs_components cwd p)"

definition path_exists :: "string \<Rightarrow> string \<Rightarrow> 'j durable \<Rightarrow> bool" where
  "path_exists cwd p w \<longleftrightarrow>
     p \<noteq> [] \<and> (if last p = CHR ''/'' then is_dir w (abs_components cwd p) else lexists w (abs_components cwd p))"

subsection \<open>Directories and renames\<close>

definition os_mkdir_open :: "path \<Rightarrow> ('j, unit) act" where
  "os_mkdir_open p = effect OsFailure (\<lambda>w. if \<not> can_bind w p then (Inl OsFailure, w) else (Inr (), w\<lparr>w_dirs := (p, False) # w_dirs w\<rparr>))"

definition make_dir :: "path \<Rightarrow> ('j, unit) act" where
  "make_dir p =
     andthen (gets (\<lambda>w. is_dir w p)) (\<lambda>present.
     if present then ret ()
     else catch (os_mkdir_open p) (\<lambda>e. andthen (gets (\<lambda>w. is_dir w p)) (\<lambda>made. if made then ret () else throw e)))"

text \<open>\<open>os.makedirs(p, exist_ok=True)\<close>, from the top.\<close>

fun make_dirs :: "path \<Rightarrow> path \<Rightarrow> ('j, unit) act" where
  "make_dirs made [] = ret ()"
| "make_dirs made (c # cs) = andthen (make_dir (made @ [c])) (\<lambda>_. make_dirs (made @ [c]) cs)"

definition reroot :: "path \<Rightarrow> path \<Rightarrow> path \<Rightarrow> path" where
  "reroot src dst p = (if prefix src p then dst @ drop (length src) p else p)"

definition empty_dir :: "'j durable \<Rightarrow> path \<Rightarrow> bool" where
  "empty_dir w p \<longleftrightarrow> \<not> list_ex (\<lambda>(q, _). strict_prefix p q) (w_files w) \<and> \<not> list_ex (\<lambda>(q, _). strict_prefix p q) (w_dirs w)"

definition move_tree :: "path \<Rightarrow> path \<Rightarrow> 'j durable \<Rightarrow> 'j durable" where
  "move_tree src dst w = w\<lparr>w_files := map (\<lambda>(q, f). (reroot src dst q, f)) (w_files w),
     w_dirs := map (\<lambda>(q, b). (reroot src dst q, b)) (filter (\<lambda>(q, _). q \<noteq> dst) (w_dirs w))\<rparr>"

text \<open>
  \<open>os.rename\<close> of a file replaces a file; of a directory, an empty directory. Two names of one
  file stay as they are. \<open>slash\<close>: a name ends with a slash, which only a directory may.
\<close>

definition rename_entry :: "bool \<Rightarrow> path \<Rightarrow> path \<Rightarrow> ('j, unit) act" where
  "rename_entry slash src dst = effect OsFailure (\<lambda>w.
     if src = [] \<or> dst = [] \<or> \<not> is_dir w (dir_of dst) then (Inl OsFailure, w)
     else case file_at w src of
       Some f \<Rightarrow>
         if slash \<or> is_dir w dst then (Inl OsFailure, w)
         else if (case file_at w dst of None \<Rightarrow> False | Some g \<Rightarrow> same_inode f g) then (Inr (), w)
         else (Inr (), bind_name dst f (drop_name src w))
     | None \<Rightarrow>
         if \<not> is_dir w src \<or> file_at w dst \<noteq> None then (Inl OsFailure, w)
         else if src = dst then (Inr (), w)
         else if prefix src dst \<or> (is_dir w dst \<and> \<not> empty_dir w dst) then (Inl OsFailure, w)
         else (Inr (), move_tree src dst w))"

definition rename_path :: "string \<Rightarrow> string \<Rightarrow> string \<Rightarrow> ('j, unit) act" where
  "rename_path cwd src dst =
     rename_entry (last src = CHR ''/'' \<or> last dst = CHR ''/'') (abs_components cwd src) (abs_components cwd dst)"

subsection \<open>Rows\<close>

record volume_file =
  vf_id :: int
  vf_series :: int
  vf_num :: "rat option"
  vf_range_start :: "rat option"
  vf_range_end :: "rat option"
  vf_pack :: "string option"
  vf_status :: string
  vf_path :: "string option"

record chapter_file =
  cf_id :: int
  cf_series :: int
  cf_volume :: "int option"
  cf_num :: rat
  cf_range_end :: "rat option"
  cf_status :: string
  cf_path :: "string option"

record series_file = series_place +
  sf_deleted :: bool

record rename_event =
  re_series :: int
  re_title :: string
  re_label :: label
  re_source :: string
  re_volume :: bool
  re_old :: string
  re_new :: string

record rename_db =
  rn_series :: "series_file list"
  rn_roots :: "root_folder list"
  rn_volumes :: "volume_file list"
  rn_chapters :: "chapter_file list"
  rn_history :: "rename_event list"

subsection \<open>The plan\<close>

datatype conflict = SeriesPathUnavailable | SourceMissing | TargetExists | DuplicateTarget

record rename_item =
  ri_volume :: bool
  ri_id :: int
  ri_label :: label
  ri_old :: string
  ri_new :: "string option"
  ri_old_name :: string
  ri_new_name :: "string option"
  ri_source_exists :: bool
  ri_target_exists :: bool
  ri_changed :: bool
  ri_conflict :: "conflict option"
  ri_can :: bool

definition make_item ::
  "(string \<Rightarrow> string) \<Rightarrow> string \<Rightarrow> 'j durable \<Rightarrow> bool \<Rightarrow> int \<Rightarrow> string \<Rightarrow> string option \<Rightarrow> string \<Rightarrow> rat option \<Rightarrow> rat option
     \<Rightarrow> label \<Rightarrow> int option \<Rightarrow> rename_item" where
  "make_item cfg cwd w is_volume item_id series_title series_dir old_path volume_num chapter_num label pub_year =
     (let old_name = path_basename old_path;
          target_name = build_filename cfg series_title volume_num old_name pub_year chapter_num;
          target = (case series_dir of None \<Rightarrow> None | Some d \<Rightarrow> if d = [] then None else Some (path_join d target_name));
          source_exists = path_exists cwd old_path w;
          moved = (case target of None \<Rightarrow> False | Some t \<Rightarrow> t \<noteq> [] \<and> norm_path cwd t \<noteq> norm_path cwd old_path);
          target_exists = (case target of None \<Rightarrow> False | Some t \<Rightarrow> path_exists cwd t w \<and> moved);
          conflict = (if target = None then Some SeriesPathUnavailable
            else if \<not> source_exists then Some SourceMissing
            else if target_exists then Some TargetExists else None)
      in \<lparr>ri_volume = is_volume, ri_id = item_id, ri_label = label, ri_old = old_path, ri_new = target,
          ri_old_name = old_name, ri_new_name = (case target of None \<Rightarrow> None | Some _ \<Rightarrow> Some target_name),
          ri_source_exists = source_exists, ri_target_exists = target_exists, ri_changed = moved,
          ri_conflict = conflict, ri_can = (moved \<and> conflict = None)\<rparr>)"

text \<open>\<open>ORDER BY num, id\<close>: NULL sorts first.\<close>

definition num_order :: "rat option \<Rightarrow> int \<Rightarrow> nat \<times> rat \<times> int" where
  "num_order n i = (case n of None \<Rightarrow> (0, 0, i) | Some x \<Rightarrow> (1, x, i))"

definition volume_files :: "int \<Rightarrow> rename_db \<Rightarrow> (volume_file \<times> string) list" where
  "volume_files sid db =
     List.map_filter (\<lambda>v. case vf_path v of None \<Rightarrow> None | Some p \<Rightarrow> Some (v, p))
       (sort_key (\<lambda>v. num_order (vf_num v) (vf_id v))
          (filter (\<lambda>v. vf_series v = sid \<and> vf_status v = ''downloaded'') (rn_volumes db)))"

definition chapter_files :: "int \<Rightarrow> rename_db \<Rightarrow> (chapter_file \<times> string) list" where
  "chapter_files sid db =
     List.map_filter (\<lambda>c. case cf_path c of None \<Rightarrow> None | Some p \<Rightarrow> Some (c, p))
       (sort_key (\<lambda>c. (cf_num c, cf_id c))
          (filter (\<lambda>c. cf_series c = sid \<and> cf_status c = ''downloaded'') (rn_chapters db)))"

definition volume_item ::
  "(string \<Rightarrow> string) \<Rightarrow> string \<Rightarrow> 'j durable \<Rightarrow> string \<Rightarrow> string option \<Rightarrow> int option \<Rightarrow> volume_file \<times> string \<Rightarrow> rename_item" where
  "volume_item cfg cwd w title dir year = (\<lambda>(v, p).
     make_item cfg cwd w True (vf_id v) title dir p (vf_num v) None
       (build_volume_label (vf_num v)
          (case (vf_range_start v, vf_range_end v) of (Some a, Some b) \<Rightarrow> Some (a, b) | _ \<Rightarrow> None) (vf_pack v)) year)"

definition chapter_item ::
  "(string \<Rightarrow> string) \<Rightarrow> string \<Rightarrow> 'j durable \<Rightarrow> rename_db \<Rightarrow> string \<Rightarrow> string option \<Rightarrow> int option \<Rightarrow> chapter_file \<times> string \<Rightarrow> rename_item" where
  "chapter_item cfg cwd w db title dir year = (\<lambda>(c, p).
     make_item cfg cwd w False (cf_id c) title dir p
       (case cf_volume c of None \<Rightarrow> None
        | Some i \<Rightarrow> (case find (\<lambda>v. vf_id v = i) (rn_volumes db) of None \<Rightarrow> None | Some v \<Rightarrow> vf_num v))
       (Some (cf_num c)) (build_chapter_label (Some (cf_num c)) (cf_range_end c)) year)"

text \<open>Items whose targets have the same normal form block each other.\<close>

definition same_target :: "string \<Rightarrow> string \<Rightarrow> rename_item \<Rightarrow> bool" where
  "same_target cwd t item \<longleftrightarrow>
     (case ri_new item of None \<Rightarrow> False | Some u \<Rightarrow> u \<noteq> [] \<and> norm_path cwd u = norm_path cwd t)"

definition mark_duplicates :: "string \<Rightarrow> rename_item list \<Rightarrow> rename_item list" where
  "mark_duplicates cwd items =
     map (\<lambda>item. case ri_new item of
            None \<Rightarrow> item
          | Some t \<Rightarrow> if t \<noteq> [] \<and> 2 \<le> length (filter (same_target cwd t) items)
                      then item\<lparr>ri_conflict := Some DuplicateTarget, ri_can := False\<rparr> else item) items"

record rename_preview =
  rp_series :: int
  rp_title :: string
  rp_dir :: "string option"
  rp_items :: "rename_item list"

definition rp_changed :: "rename_preview \<Rightarrow> nat" where "rp_changed p = length (filter ri_changed (rp_items p))"
definition rp_renameable :: "rename_preview \<Rightarrow> nat" where "rp_renameable p = length (filter ri_can (rp_items p))"
definition rp_conflicts :: "rename_preview \<Rightarrow> nat" where
  "rp_conflicts p = length (filter (\<lambda>i. ri_conflict i \<noteq> None) (rp_items p))"

definition series_preview ::
  "(string \<Rightarrow> string) \<Rightarrow> string \<Rightarrow> int \<Rightarrow> rename_db durable \<Rightarrow> failure + rename_preview option" where
  "series_preview cfg cwd sid w =
     (let db = w_journal w
      in case find (\<lambda>s. sp_id s = sid \<and> \<not> sf_deleted s) (rn_series db) of
           None \<Rightarrow> Inr None
         | Some s \<Rightarrow>
             (case series_library_dir cfg (rn_roots db) (map series_place.truncate (rn_series db)) sid of
                Inl _ \<Rightarrow> Inl (Refused ''No root folders configured'')
              | Inr dir \<Rightarrow>
                  (let title = (case sp_title s of None \<Rightarrow> [] | Some t \<Rightarrow> t);
                       items = map (volume_item cfg cwd w title dir (sp_year s)) (volume_files sid db)
                             @ map (chapter_item cfg cwd w db title dir (sp_year s)) (chapter_files sid db)
                   in Inr (Some \<lparr>rp_series = sid, rp_title = title, rp_dir = dir, rp_items = mark_duplicates cwd items\<rparr>))))"

definition build_series_rename_preview ::
  "(string \<Rightarrow> string) \<Rightarrow> string \<Rightarrow> int \<Rightarrow> (rename_db, rename_preview option) act" where
  "build_series_rename_preview cfg cwd sid = effect SqlFailure (\<lambda>w. (series_preview cfg cwd sid w, w))"

definition has_files :: "rename_db \<Rightarrow> series_file \<Rightarrow> bool" where
  "has_files db s \<longleftrightarrow> volume_files (sp_id s) db \<noteq> [] \<or> chapter_files (sp_id s) db \<noteq> []"

text \<open>\<open>ORDER BY title COLLATE NOCASE, id\<close>; the order of two titles is \<open>title_key\<close>'s.\<close>

definition library_series :: "(string option \<Rightarrow> int) \<Rightarrow> rename_db \<Rightarrow> int list" where
  "library_series title_key db =
     map sp_id (sort_key (\<lambda>s. (title_key (sp_title s), sp_id s)) (filter (\<lambda>s. \<not> sf_deleted s \<and> has_files db s) (rn_series db)))"

fun previews :: "(string \<Rightarrow> string) \<Rightarrow> string \<Rightarrow> int list \<Rightarrow> (rename_db, rename_preview list) act" where
  "previews cfg cwd [] = ret []"
| "previews cfg cwd (i # is) =
     andthen (build_series_rename_preview cfg cwd i) (\<lambda>plan.
     andthen (previews cfg cwd is) (\<lambda>rest.
     ret (case plan of None \<Rightarrow> rest | Some p \<Rightarrow> if rp_items p = [] then rest else p # rest)))"

definition build_library_rename_preview ::
  "(string option \<Rightarrow> int) \<Rightarrow> (string \<Rightarrow> string) \<Rightarrow> string \<Rightarrow> (rename_db, rename_preview list) act" where
  "build_library_rename_preview title_key cfg cwd =
     andthen (effect SqlFailure (gets (\<lambda>w. library_series title_key (w_journal w)))) (previews cfg cwd)"

subsection \<open>Execution\<close>

datatype rename_status = Renamed | RenameSkipped "conflict option" | RenameFailed failure

record rename_result =
  rr_volume :: bool
  rr_id :: int
  rr_old :: string
  rr_new :: "string option"
  rr_status :: rename_status

definition result_of :: "rename_item \<Rightarrow> rename_status \<Rightarrow> rename_result" where
  "result_of item s = \<lparr>rr_volume = ri_volume item, rr_id = ri_id item, rr_old = ri_old item, rr_new = ri_new item, rr_status = s\<rparr>"

definition stored_path :: "rename_db \<Rightarrow> int \<Rightarrow> rename_item \<Rightarrow> string option option" where
  "stored_path db sid item =
     (if ri_volume item then map_option vf_path (find (\<lambda>v. vf_id v = ri_id item \<and> vf_series v = sid) (rn_volumes db))
      else map_option cf_path (find (\<lambda>c. cf_id c = ri_id item \<and> cf_series c = sid) (rn_chapters db)))"

definition repoint :: "int \<Rightarrow> string \<Rightarrow> string \<Rightarrow> rename_db \<Rightarrow> rename_db" where
  "repoint sid old_path new_path db = db\<lparr>
     rn_volumes := map (\<lambda>v. if vf_series v = sid \<and> vf_path v = Some old_path then v\<lparr>vf_path := Some new_path\<rparr> else v) (rn_volumes db),
     rn_chapters := map (\<lambda>c. if cf_series c = sid \<and> cf_path c = Some old_path then c\<lparr>cf_path := Some new_path\<rparr> else c) (rn_chapters db)\<rparr>"

definition rename_rows :: "string \<Rightarrow> int \<Rightarrow> string \<Rightarrow> rename_item \<Rightarrow> string \<Rightarrow> rename_db \<Rightarrow> failure + unit \<times> rename_db" where
  "rename_rows cwd sid title item new_path db =
     (case stored_path db sid item of
        None \<Rightarrow> Inl (Refused ''row no longer exists'')
      | Some p \<Rightarrow>
          if norm_path cwd (case p of None \<Rightarrow> [] | Some s \<Rightarrow> s) \<noteq> norm_path cwd (ri_old item) then Inl (Refused ''import path changed'')
          else
            let event = \<lparr>re_series = sid, re_title = title, re_label = ri_label item, re_source = ri_old_name item,
                  re_volume = ri_volume item, re_old = ri_old item, re_new = new_path\<rparr>;
                db' = repoint sid (ri_old item) new_path db
            in Inr ((), db'\<lparr>rn_history := rn_history db' @ [event]\<rparr>))"

text \<open>The file half: \<open>old_path\<close> is there, \<open>new_path\<close> is free, its directory is made, the file is moved.\<close>

definition move_file :: "string \<Rightarrow> string \<Rightarrow> string \<Rightarrow> ('j, unit) act" where
  "move_file cwd old_path new_path =
     andthen (gets (path_exists cwd old_path)) (\<lambda>present.
     if \<not> present then throw (Refused ''file not found'')
     else
       andthen (gets (path_exists cwd new_path)) (\<lambda>taken.
       if taken \<and> norm_path cwd new_path \<noteq> norm_path cwd old_path then throw (Refused ''file exists'')
       else
         andthen (make_dirs [] (abs_components cwd (path_dirname new_path))) (\<lambda>_. rename_path cwd old_path new_path)))"

definition move_file_back :: "string \<Rightarrow> string \<Rightarrow> string \<Rightarrow> ('j, unit) act" where
  "move_file_back cwd old_path new_path =
     catch
       (andthen (gets (\<lambda>w. \<not> path_exists cwd old_path w \<and> path_exists cwd new_path w)) (\<lambda>undo.
        run_if undo (rename_path cwd new_path old_path)))
       (\<lambda>e. ret ())"

definition execute_item :: "string \<Rightarrow> int \<Rightarrow> string \<Rightarrow> rename_item \<Rightarrow> (rename_db, rename_result) act" where
  "execute_item cwd sid title item =
     (case ri_new item of
        None \<Rightarrow> ret (result_of item (RenameFailed (Refused ''missing rename path'')))
      | Some new_path \<Rightarrow>
          if ri_old item = [] \<or> new_path = [] then ret (result_of item (RenameFailed (Refused ''missing rename path'')))
          else
            catch
              (andthen (move_file cwd (ri_old item) new_path) (\<lambda>_.
               catch
                 (andthen (transact (rename_rows cwd sid title item new_path)) (\<lambda>_. ret (result_of item Renamed)))
                 (\<lambda>e. andthen (move_file_back cwd (ri_old item) new_path) (\<lambda>_. ret (result_of item (RenameFailed e))))))
              (\<lambda>e. ret (result_of item (RenameFailed e))))"

fun execute_items :: "string \<Rightarrow> int \<Rightarrow> string \<Rightarrow> rename_item list \<Rightarrow> (rename_db, rename_result list) act" where
  "execute_items cwd sid title [] = ret []"
| "execute_items cwd sid title (i # is) =
     andthen (execute_item cwd sid title i) (\<lambda>r. andthen (execute_items cwd sid title is) (\<lambda>rs. ret (r # rs)))"

definition wanted_item :: "int list option \<Rightarrow> int list option \<Rightarrow> rename_item \<Rightarrow> bool" where
  "wanted_item volume_ids chapter_ids item \<longleftrightarrow>
     (volume_ids = None \<and> chapter_ids = None)
     \<or> (case (if ri_volume item then volume_ids else chapter_ids) of None \<Rightarrow> False | Some ids \<Rightarrow> ri_id item \<in> set ids)"

record series_result =
  xr_series :: int
  xr_requested :: nat
  xr_results :: "rename_result list"

definition execute_series_rename ::
  "(string \<Rightarrow> string) \<Rightarrow> string \<Rightarrow> int list option \<Rightarrow> int list option \<Rightarrow> int \<Rightarrow> (rename_db, series_result option) act" where
  "execute_series_rename cfg cwd volume_ids chapter_ids sid =
     andthen (build_series_rename_preview cfg cwd sid) (\<lambda>preview.
     case preview of
       None \<Rightarrow> ret None
     | Some p \<Rightarrow>
         (let wanted = filter (wanted_item volume_ids chapter_ids) (rp_items p);
              selected = filter ri_can wanted;
              skipped = map (\<lambda>i. result_of i (RenameSkipped (ri_conflict i))) (filter (\<lambda>i. \<not> ri_can i) wanted)
          in andthen (execute_items cwd sid (rp_title p) selected) (\<lambda>done.
             let failed = (\<lambda>r. case rr_status r of RenameFailed _ \<Rightarrow> True | _ \<Rightarrow> False)
             in ret (Some \<lparr>xr_series = sid, xr_requested = length selected + length skipped,
                  xr_results = filter (\<lambda>r. \<not> failed r) done @ skipped @ filter failed done\<rparr>))))"

fun execute_each ::
  "(string \<Rightarrow> string) \<Rightarrow> string \<Rightarrow> int list option \<Rightarrow> int list option \<Rightarrow> int list \<Rightarrow> (rename_db, series_result list) act" where
  "execute_each cfg cwd volume_ids chapter_ids [] = ret []"
| "execute_each cfg cwd volume_ids chapter_ids (i # is) =
     andthen (execute_series_rename cfg cwd volume_ids chapter_ids i) (\<lambda>result.
     andthen (execute_each cfg cwd volume_ids chapter_ids is) (\<lambda>rest.
     ret (case result of None \<Rightarrow> rest
        | Some r \<Rightarrow> if xr_requested r \<noteq> 0 \<or> (volume_ids = None \<and> chapter_ids = None) then r # rest else rest)))"

definition execute_library_rename ::
  "(string option \<Rightarrow> int) \<Rightarrow> (string \<Rightarrow> string) \<Rightarrow> string \<Rightarrow> int list option \<Rightarrow> int list option \<Rightarrow> int list option
     \<Rightarrow> (rename_db, series_result list) act" where
  "execute_library_rename title_key cfg cwd series_ids volume_ids chapter_ids =
     andthen (build_library_rename_preview title_key cfg cwd) (\<lambda>plans.
     execute_each cfg cwd volume_ids chapter_ids
       (map rp_series (filter (\<lambda>p. case series_ids of None \<Rightarrow> True | Some ids \<Rightarrow> rp_series p \<in> set ids) plans)))"

end
