(* ===== verification/Rename_Safety.thy ===== *)
theory Rename_Safety
  imports Rename_Plan
begin

text \<open>
  Renames lose no file: under every schedule of refusals and crashes each file keeps a name, a
  failed rename leaves the stored paths alone, and without refusals every stored path that named a
  file still names one.
\<close>

subsection \<open>Trees\<close>

definition tree_ok :: "'j durable \<Rightarrow> bool" where
  "tree_ok w \<longleftrightarrow>
     (\<forall>p. file_at w p \<noteq> None \<longrightarrow> p \<noteq> [] \<and> is_dir w (dir_of p) \<and> \<not> is_dir w p)
     \<and> (\<forall>d. is_dir w d \<longrightarrow> d = [] \<or> is_dir w (dir_of d))"

lemma tree_ok_update [simp]: "tree_ok (w\<lparr>w_faults := fs\<rparr>) = tree_ok w" "tree_ok (w\<lparr>w_journal := j\<rparr>) = tree_ok w"
  by (simp_all add: tree_ok_def)

lemma tree_ancestor:
  assumes "tree_ok w" "lexists w p" "strict_prefix q p"
  shows "is_dir w q"
  using assms(2,3)
proof (induction "length p" arbitrary: p)
  case (Suc n)
  have parent: "is_dir w (dir_of p)" using assms(1) Suc.prems Suc.hyps(2) by (auto simp: tree_ok_def lexists_def is_dir_def)
  show ?case
  proof (cases "q = dir_of p")
    case False
    have "p = dir_of p @ [last p]" using Suc.hyps(2) by (simp add: dir_of_def) (metis append_butlast_last_id length_0_conv nat.distinct(1))
    then have "prefix q (dir_of p)" using Suc.prems(2) by (metis prefix_snoc strict_prefix_def)
    with False have "strict_prefix q (dir_of p)" by (simp add: strict_prefix_def)
    with Suc.hyps(1) [of "dir_of p"] parent Suc.hyps(2) show ?thesis by (auto simp: lexists_def is_dir_def dir_of_def)
  qed (simp add: parent)
qed simp

lemma tree_below_free:
  assumes "tree_ok w" "\<not> is_dir w dst" "prefix dst p" "p \<noteq> dst"
  shows "\<not> lexists w p"
  using assms tree_ancestor [of w p dst] by (auto simp: strict_prefix_def)

lemma is_dir_file: "tree_ok w \<Longrightarrow> file_at w p = Some f \<Longrightarrow> \<not> is_dir w p"
  by (auto simp: tree_ok_def)

lemma tree_ok_mkdir: "tree_ok w \<Longrightarrow> can_bind w p \<Longrightarrow> tree_ok (w\<lparr>w_dirs := (p, b) # w_dirs w\<rparr>)"
  by (auto simp: tree_ok_def can_bind_def is_dir_def lexists_def)

lemma tree_ok_move:
  assumes "tree_ok w" "file_at w src = Some f" "dst \<noteq> []" "is_dir w (dir_of dst)" "\<not> is_dir w dst"
  shows "tree_ok (bind_name dst f (drop_name src w))"
  using assms by (auto simp: tree_ok_def)

lemma map_of_rekey: "(\<forall>k \<in> fst ` set xs. (g k = q) = (k = p)) \<Longrightarrow> map_of (map (\<lambda>(k, v). (g k, v)) xs) q = map_of xs p"
  by (induction xs) auto

lemma map_of_rekey_None: "(\<forall>k \<in> fst ` set xs. g k \<noteq> q) \<Longrightarrow> map_of (map (\<lambda>(k, v). (g k, v)) xs) q = None"
  by (induction xs) auto

lemma reroot_simps [simp]: "reroot src dst (src @ r) = dst @ r" "\<not> prefix src p \<Longrightarrow> reroot src dst p = p"
  by (simp_all add: reroot_def)

text \<open>Nothing is named below the destination, and nothing but an empty directory at it.\<close>

definition free_at :: "'j durable \<Rightarrow> path \<Rightarrow> bool" where
  "free_at w dst \<longleftrightarrow> (\<forall>p. prefix dst p \<longrightarrow> lexists w p \<longrightarrow> p = dst \<and> is_dir w dst \<and> file_at w dst = None)"

lemma free_atI:
  assumes "tree_ok w" "file_at w dst = None" "\<not> is_dir w dst \<or> empty_dir w dst"
  shows "free_at w dst"
  unfolding free_at_def
proof (intro allI impI)
  fix p
  assume p: "prefix dst p" "lexists w p"
  show "p = dst \<and> is_dir w dst \<and> file_at w dst = None"
  proof (cases "p = dst")
    case True
    with p assms(2) show ?thesis by (auto simp: lexists_def is_dir_def)
  next
    case False
    with p have s: "strict_prefix dst p" by (simp add: strict_prefix_def)
    then have "is_dir w dst" using tree_ancestor [OF assms(1) p(2)] by simp
    moreover have "\<not> empty_dir w dst"
      using p(2) s map_of_SomeD [of "w_files w" p] map_of_SomeD [of "w_dirs w" p]
      by (force simp: empty_dir_def lexists_def file_at_def list_ex_iff)
    ultimately show ?thesis using assms(3) by simp
  qed
qed

lemma named_files: "p \<in> fst ` set (w_files w) \<longleftrightarrow> file_at w p \<noteq> None"
  by (simp add: file_at_def map_of_eq_None_iff)

lemma named_dirs: "p \<in> fst ` set (w_dirs w) \<longleftrightarrow> is_dir w p"
  by (simp add: is_dir_def map_of_eq_None_iff)

lemma reroot_inj:
  assumes "\<not> prefix dst k"
  shows "reroot src dst k = dst @ r \<longleftrightarrow> k = src @ r" "\<not> prefix dst q \<Longrightarrow> \<not> prefix src q \<Longrightarrow> reroot src dst k = q \<longleftrightarrow> k = q"
    "\<not> prefix dst src \<Longrightarrow> \<not> prefix src dst \<Longrightarrow> reroot src dst k \<noteq> src @ r"
proof -
  show "reroot src dst k = dst @ r \<longleftrightarrow> k = src @ r" "\<not> prefix dst q \<Longrightarrow> \<not> prefix src q \<Longrightarrow> reroot src dst k = q \<longleftrightarrow> k = q"
    using assms by (auto simp: reroot_def prefix_def)
  assume ne: "\<not> prefix dst src" "\<not> prefix src dst"
  then have "dst @ zs \<noteq> src @ r" for zs
    using prefix_same_cases [of dst "src @ r" src] by (metis prefixI)
  moreover have "k \<noteq> src @ r" if "\<not> prefix src k" using that by auto
  ultimately show "reroot src dst k \<noteq> src @ r" by (simp add: reroot_def)
qed

text \<open>After a directory is moved to a free name, every name below it is found below the new one.\<close>

lemma move_tree_names:
  assumes "free_at w dst" "\<not> prefix src dst" "\<not> prefix dst src"
  shows "file_at (move_tree src dst w) (dst @ r) = file_at w (src @ r)"
    "is_dir (move_tree src dst w) (dst @ r) = is_dir w (src @ r)"
    "\<not> prefix src p \<Longrightarrow> \<not> prefix dst p \<Longrightarrow> file_at (move_tree src dst w) p = file_at w p"
    "\<not> prefix src p \<Longrightarrow> \<not> prefix dst p \<Longrightarrow> is_dir (move_tree src dst w) p = is_dir w p"
    "file_at (move_tree src dst w) (src @ r) = None" "\<not> is_dir (move_tree src dst w) (src @ r)"
proof -
  let ?ds = "filter (\<lambda>(q, _). q \<noteq> dst) (w_dirs w)"
  have nf: "\<not> prefix dst k" if "k \<in> fst ` set (w_files w)" for k
    using that assms(1) unfolding named_files free_at_def by (auto simp: lexists_def)
  have nd: "\<not> prefix dst k" if "k \<in> fst ` set ?ds" for k
  proof -
    from that have "is_dir w k" "k \<noteq> dst" by (auto simp flip: named_dirs)
    with assms(1) show ?thesis unfolding free_at_def by (auto simp: lexists_def is_dir_def)
  qed
  have ds: "map_of ?ds q = map_of (w_dirs w) q" if "q \<noteq> dst" for q
  proof -
    have "map_of (filter (\<lambda>(x, _). x \<noteq> dst) xs) q = map_of xs q" for xs :: "(path \<times> bool) list"
      using that by (induction xs) auto
    then show ?thesis .
  qed
  have sr: "src @ r \<noteq> dst" using assms(2) by auto
  note defs = move_tree_def file_at_def is_dir_def
  show "file_at (move_tree src dst w) (dst @ r) = file_at w (src @ r)"
    unfolding defs by (simp, rule map_of_rekey) (use nf reroot_inj(1) in blast)
  have "map_of (map (\<lambda>(k, v). (reroot src dst k, v)) ?ds) (dst @ r) = map_of ?ds (src @ r)"
    by (rule map_of_rekey) (use nd reroot_inj(1) in blast)
  then show "is_dir (move_tree src dst w) (dst @ r) = is_dir w (src @ r)"
    using ds [of "src @ r"] sr by (simp add: defs)
  show "file_at (move_tree src dst w) (src @ r) = None"
    unfolding defs by (simp, rule map_of_rekey_None) (use nf reroot_inj(3) [OF _ assms(3,2)] in blast)
  have "map_of (map (\<lambda>(k, v). (reroot src dst k, v)) ?ds) (src @ r) = None"
    by (rule map_of_rekey_None) (use nd reroot_inj(3) [OF _ assms(3,2)] in blast)
  then show "\<not> is_dir (move_tree src dst w) (src @ r)" by (simp add: defs)
  assume p: "\<not> prefix src p" "\<not> prefix dst p"
  show "file_at (move_tree src dst w) p = file_at w p"
    unfolding defs by (simp, rule map_of_rekey) (use nf reroot_inj(2) p in blast)
  have "map_of (map (\<lambda>(k, v). (reroot src dst k, v)) ?ds) p = map_of ?ds p"
    by (rule map_of_rekey) (use nd reroot_inj(2) p in blast)
  then show "is_dir (move_tree src dst w) p = is_dir w p" using ds [of p] p by (auto simp: defs)
qed

lemma prefix_dir: "prefix q (dir_of p) \<Longrightarrow> prefix q p"
  unfolding dir_of_def using prefixeq_butlast prefix_order.order_trans by blast

lemma dir_of_append: "r \<noteq> [] \<Longrightarrow> dir_of (p @ r) = p @ dir_of r"
  by (simp add: dir_of_def butlast_append)

lemma tree_ok_move_tree:
  assumes tree: "tree_ok w" and src: "is_dir w src" and free: "free_at w dst"
    and ne: "\<not> prefix src dst" "\<not> prefix dst src" and dst: "dst \<noteq> []" "is_dir w (dir_of dst)"
  shows "tree_ok (move_tree src dst w)"
proof -
  let ?w = "move_tree src dst w"
  note names = move_tree_names [OF free ne]
  have outside: "\<not> prefix src (dir_of p)" "\<not> prefix dst (dir_of p)" if "\<not> prefix src p" "\<not> prefix dst p" for p
    using that prefix_dir by blast+
  have top: "is_dir ?w (dir_of dst)"
  proof -
    have "\<not> prefix dst (dir_of dst)" using dst(1) prefix_length_le [of dst "dir_of dst"] by (cases dst) (auto simp: dir_of_def)
    with names(4) [of "dir_of dst"] ne(1) prefix_dir dst(2) show ?thesis by blast
  qed
  have below: "is_dir ?w (dir_of (dst @ r))" if "lexists w (src @ r)" for r
  proof (cases "r = []")
    case True
    then show ?thesis using top by simp
  next
    case False
    with tree that src have "is_dir w (dir_of (src @ r))" by (auto simp: tree_ok_def lexists_def is_dir_def)
    with False names(2) show ?thesis by (simp add: dir_of_append)
  qed
  have files: "p \<noteq> [] \<and> is_dir ?w (dir_of p) \<and> \<not> is_dir ?w p" if "file_at ?w p \<noteq> None" for p
  proof (cases "prefix dst p")
    case True
    then obtain r where p: "p = dst @ r" by (auto simp: prefix_def)
    with that names(1) have "file_at w (src @ r) \<noteq> None" by simp
    moreover from this tree have "\<not> is_dir w (src @ r)" by (auto simp: tree_ok_def)
    ultimately show ?thesis using p names(2) below [of r] dst(1) by (auto simp: lexists_def)
  next
    case False
    moreover have "\<not> prefix src p" using that names(5) by (auto simp: prefix_def)
    ultimately show ?thesis using that names(3,4) outside tree by (auto simp: tree_ok_def)
  qed
  have dirs: "d = [] \<or> is_dir ?w (dir_of d)" if "is_dir ?w d" for d
  proof (cases "prefix dst d")
    case True
    then obtain r where "d = dst @ r" by (auto simp: prefix_def)
    with that names(2) below [of r] show ?thesis by (auto simp: lexists_def is_dir_def)
  next
    case False
    moreover have "\<not> prefix src d" using that names(6) by (auto simp: prefix_def)
    ultimately show ?thesis using that names(4) outside tree by (auto simp: tree_ok_def)
  qed
  show ?thesis using files dirs unfolding tree_ok_def by blast
qed

subsection \<open>No file is lost\<close>

text \<open>\<open>housed G w\<close>: the tree is well formed and every file of \<open>G\<close> has a name.\<close>

definition housed :: "stored_file set \<Rightarrow> 'j durable \<Rightarrow> bool" where
  "housed G w \<longleftrightarrow> tree_ok w \<and> (\<forall>g \<in> G. \<exists>p. file_at w p = Some g)"

lemma steady_housed: "steady (housed G)"
  by (simp add: steady_def housed_def)

lemma housed_move_tree:
  assumes "housed G w" "is_dir w src" "free_at w dst" "\<not> prefix src dst" "\<not> prefix dst src" "dst \<noteq> []" "is_dir w (dir_of dst)"
  shows "housed G (move_tree src dst w)"
  unfolding housed_def
proof (intro conjI ballI)
  show "tree_ok (move_tree src dst w)" by (rule tree_ok_move_tree) (use assms in \<open>auto simp: housed_def\<close>)
  fix g
  assume "g \<in> G"
  then obtain p where p: "file_at w p = Some g" using assms(1) by (auto simp: housed_def)
  note names = move_tree_names [OF assms(3-5)]
  show "\<exists>q. file_at (move_tree src dst w) q = Some g"
  proof (cases "prefix src p")
    case True
    then obtain r where "p = src @ r" by (auto simp: prefix_def)
    with p names(1) [of r] show ?thesis by auto
  next
    case False
    moreover have "\<not> prefix dst p" using p assms(3) by (auto simp: free_at_def lexists_def)
    ultimately show ?thesis using p names(3) [of p] by auto
  qed
qed

lemma housed_move_file:
  assumes "housed G w" "file_at w src = Some f" "file_at w dst = None" "dst \<noteq> []" "is_dir w (dir_of dst)" "\<not> is_dir w dst"
  shows "housed G (bind_name dst f (drop_name src w))"
  unfolding housed_def
proof (intro conjI ballI)
  show "tree_ok (bind_name dst f (drop_name src w))" using assms tree_ok_move by (auto simp: housed_def)
  fix g
  assume "g \<in> G"
  then obtain p where p: "file_at w p = Some g" using assms(1) by (auto simp: housed_def)
  show "\<exists>q. file_at (bind_name dst f (drop_name src w)) q = Some g"
  proof (cases "p = src")
    case True
    with p assms(2) have "file_at (bind_name dst f (drop_name src w)) dst = Some g" by simp
    then show ?thesis by blast
  next
    case False
    moreover have "p \<noteq> dst" using p assms(3) by auto
    ultimately have "file_at (bind_name dst f (drop_name src w)) p = Some g" using p by simp
    then show ?thesis by blast
  qed
qed

text \<open>A rename is safe where no file has the destination's name, or the name ends with a slash, or is the source.\<close>

definition may_rename :: "bool \<Rightarrow> path \<Rightarrow> path \<Rightarrow> 'j durable \<Rightarrow> bool" where
  "may_rename slash src dst w \<longleftrightarrow> file_at w dst = None \<or> slash \<or> src = dst"

lemma triple_rename_entry:
  "triple (\<lambda>w. housed G w \<and> may_rename slash src dst w) (rename_entry slash src dst) (\<lambda>_. housed G) (\<lambda>_. housed G)"
  unfolding rename_entry_def
proof (rule triple_effect, simp add: steady_def housed_def may_rename_def, simp, simp, rule triple_world)
  fix w
  assume w: "housed G w \<and> may_rename slash src dst w"
  have tree: "tree_ok w" using w by (simp add: housed_def)
  let ?op = "if src = [] \<or> dst = [] \<or> \<not> is_dir w (dir_of dst) then (Inl OsFailure, w)
     else case file_at w src of
       Some f \<Rightarrow>
         if slash \<or> is_dir w dst then (Inl OsFailure, w)
         else if (case file_at w dst of None \<Rightarrow> False | Some g \<Rightarrow> same_inode f g) then (Inr (), w)
         else (Inr (), bind_name dst f (drop_name src w))
     | None \<Rightarrow>
         if \<not> is_dir w src \<or> file_at w dst \<noteq> None then (Inl OsFailure, w)
         else if src = dst then (Inr (), w)
         else if prefix src dst \<or> (is_dir w dst \<and> \<not> empty_dir w dst) then (Inl OsFailure, w)
         else (Inr (), move_tree src dst w)"
  have "housed G (snd ?op)"
  proof (cases "file_at w src")
    case (Some f)
    then show ?thesis using w housed_move_file [of G w src f dst] by (auto simp: may_rename_def split: option.split)
  next
    case None
    have "housed G (move_tree src dst w)" if m: "is_dir w src" "file_at w dst = None" "src \<noteq> dst" "\<not> prefix src dst"
      "\<not> is_dir w dst \<or> empty_dir w dst" "dst \<noteq> []" "is_dir w (dir_of dst)"
    proof -
      have free: "free_at w dst" by (rule free_atI [OF tree m(2,5)])
      have "\<not> prefix dst src"
        using free m(1,3) by (auto simp: free_at_def lexists_def is_dir_def)
      then show ?thesis using housed_move_tree [of G w src dst] w m free by auto
    qed
    with None w show ?thesis by auto
  qed
  then show "housed G (snd ?op)" .
qed

text \<open>Steps that leave the file names alone keep what is said of them.\<close>

definition housed_with :: "stored_file set \<Rightarrow> ((path \<Rightarrow> stored_file option) \<Rightarrow> 'j \<Rightarrow> bool) \<Rightarrow> 'j durable \<Rightarrow> bool" where
  "housed_with G A w \<longleftrightarrow> housed G w \<and> A (file_at w) (w_journal w)"

lemma steady_housed_with: "steady (housed_with G A)"
  by (simp add: steady_def housed_with_def housed_def file_at_def [abs_def])

lemma triple_make_dir: "triple (housed_with G A) (make_dir p) (\<lambda>_. housed_with G A) (\<lambda>_. housed_with G A)"
proof -
  have mk: "triple (housed_with G A) (os_mkdir_open p) (\<lambda>_. housed_with G A) (\<lambda>_. housed_with G A)"
    unfolding os_mkdir_open_def
    by (rule triple_effect [OF steady_housed_with], assumption, assumption, rule triple_world)
      (auto simp: housed_with_def housed_def tree_ok_mkdir file_at_def [abs_def])
  show ?thesis
    unfolding make_dir_def
    by (rule triple_andthen [where R = "\<lambda>_. housed_with G A"], rule triple_gets, assumption, rule triple_if, rule triple_ret, assumption,
      rule triple_catch [OF mk], assumption, rule triple_andthen [where R = "\<lambda>_. housed_with G A"], rule triple_gets, assumption,
      rule triple_if, rule triple_ret, assumption, rule triple_throw, assumption)
qed

lemma triple_make_dirs: "triple (housed_with G A) (make_dirs made cs) (\<lambda>_. housed_with G A) (\<lambda>_. housed_with G A)"
  by (induction cs arbitrary: made) (auto intro: triple_ret triple_andthen [OF triple_make_dir])

lemma path_free:
  assumes "\<not> path_exists cwd p w" "p \<noteq> []"
  shows "file_at w (abs_components cwd p) = None \<or> last p = CHR ''/''"
  using assms by (auto simp: path_exists_def lexists_def split: if_splits)

lemma triple_rename_path:
  assumes "dst \<noteq> []"
  shows "triple (\<lambda>w. housed G w \<and> (\<not> path_exists cwd dst w \<or> abs_components cwd src = abs_components cwd dst))
    (rename_path cwd src dst) (\<lambda>_. housed G) (\<lambda>_. housed G)"
  unfolding rename_path_def
  by (rule triple_pre [OF triple_rename_entry]) (auto simp: may_rename_def dest: path_free [OF _ assms])

lemma triple_move_file:
  assumes "new_path \<noteq> []"
  shows "triple (housed G) (move_file cwd old_path new_path) (\<lambda>_. housed G) (\<lambda>_. housed G)"
proof -
  let ?dst = "abs_components cwd new_path"
  let ?A = "\<lambda>\<phi> j. \<phi> ?dst = None \<or> last new_path = CHR ''/'' \<or> abs_components cwd old_path = ?dst"
  have go: "triple (housed_with G ?A) (andthen (make_dirs [] cs) (\<lambda>_. rename_path cwd old_path new_path)) (\<lambda>_. housed G) (\<lambda>_. housed G)" for cs
  proof (rule triple_andthen)
    show "triple (housed_with G ?A) (make_dirs [] cs) (\<lambda>_. housed_with G ?A) (\<lambda>_. housed G)"
      by (rule triple_weaken [OF triple_make_dirs]) (auto simp: housed_with_def)
    show "triple (housed_with G ?A) (rename_path cwd old_path new_path) (\<lambda>_. housed G) (\<lambda>_. housed G)"
      unfolding rename_path_def
      by (rule triple_pre [OF triple_rename_entry]) (auto simp: housed_with_def may_rename_def)
  qed
  have taken: "triple (\<lambda>w. housed G w \<and> b = path_exists cwd new_path w)
      (if b \<and> norm_path cwd new_path \<noteq> norm_path cwd old_path then throw e
       else andthen (make_dirs [] cs) (\<lambda>_. rename_path cwd old_path new_path)) (\<lambda>_. housed G) (\<lambda>_. housed G)" for b e cs
    by (rule triple_if, rule triple_throw, simp, rule triple_pre [OF go])
      (auto simp: housed_with_def norm_path_def dest: path_free [OF _ assms])
  show ?thesis
    unfolding move_file_def
    by (rule triple_andthen [where R = "\<lambda>_. housed G"], rule triple_gets, assumption, rule triple_if, rule triple_throw, assumption,
      rule triple_andthen [where R = "\<lambda>b w. housed G w \<and> b = path_exists cwd new_path w"], rule triple_gets, simp, rule taken)
qed

lemma triple_move_file_back:
  assumes "old_path \<noteq> []"
  shows "triple (housed G) (move_file_back cwd old_path new_path) (\<lambda>_. housed G) (\<lambda>_. housed G)"
proof -
  have "triple (\<lambda>w. housed G w \<and> (b \<longrightarrow> \<not> path_exists cwd old_path w)) (run_if b (rename_path cwd new_path old_path)) (\<lambda>_. housed G) (\<lambda>_. housed G)" for b
    by (rule triple_run_if, rule triple_pre [OF triple_rename_path [OF assms]]) auto
  then show ?thesis
    unfolding move_file_back_def
    by (intro triple_catch [where R = "\<lambda>_. housed G"] triple_andthen [where R = "\<lambda>b w. housed G w \<and> (b \<longrightarrow> \<not> path_exists cwd old_path w)"]
        triple_gets triple_ret) auto
qed

lemma triple_transact_housed: "triple (housed G) (transact f) (\<lambda>_. housed G) (\<lambda>_. housed G)"
  unfolding transact_def
  by (rule triple_effect [OF steady_housed], assumption, assumption, rule triple_world) (auto simp: housed_def split: sum.split)

lemma triple_execute_item: "triple (housed G) (execute_item cwd sid title item) (\<lambda>_. housed G) (\<lambda>_. housed G)"
proof (cases "ri_new item")
  case None
  then show ?thesis unfolding execute_item_def by (auto intro: triple_ret)
next
  case (Some new_path)
  have ret: "triple (housed G) (ret x) (\<lambda>_. housed G) (\<lambda>_. housed G)" for x :: rename_result by (rule triple_ret)
  have run: "triple (housed G) (catch (andthen (move_file cwd (ri_old item) new_path) (\<lambda>_. catch
      (andthen (transact (rename_rows cwd sid title item new_path)) (\<lambda>_. ret (result_of item Renamed)))
      (\<lambda>e. andthen (move_file_back cwd (ri_old item) new_path) (\<lambda>_. ret (result_of item (RenameFailed e))))))
      (\<lambda>e. ret (result_of item (RenameFailed e)))) (\<lambda>_. housed G) (\<lambda>_. housed G)"
    if ne: "ri_old item \<noteq> []" "new_path \<noteq> []"
    by (rule triple_catch [OF _ _ ret], rule triple_andthen [OF triple_move_file [OF ne(2)]],
      rule triple_catch [OF triple_andthen [OF triple_transact_housed ret]], assumption,
      rule triple_andthen [OF triple_move_file_back [OF ne(1)] ret], assumption)
  show ?thesis
    unfolding execute_item_def Some option.case by (rule triple_if, rule ret, rule run) auto
qed

lemma triple_execute_items: "triple (housed G) (execute_items cwd sid title is) (\<lambda>_. housed G) (\<lambda>_. housed G)"
  by (induction "is") (auto intro: triple_ret triple_andthen [OF triple_execute_item] triple_andthen)

lemma triple_preview: "triple (housed G) (build_series_rename_preview cfg cwd i) (\<lambda>_. housed G) (\<lambda>_. housed G)"
  unfolding build_series_rename_preview_def
  by (rule triple_effect [OF steady_housed], assumption, assumption, rule triple_world) simp

lemma triple_execute_series:
  "triple (housed G) (execute_series_rename cfg cwd vs cs i) (\<lambda>_. housed G) (\<lambda>_. housed G)"
  unfolding execute_series_rename_def Let_def
  by (rule triple_andthen [OF triple_preview], rule triple_case(4), rule triple_ret, assumption,
    rule triple_andthen [OF triple_execute_items], rule triple_ret)

lemma triple_execute_each: "triple (housed G) (execute_each cfg cwd vs cs is) (\<lambda>_. housed G) (\<lambda>_. housed G)"
  by (induction "is") (auto intro: triple_ret triple_andthen [OF triple_execute_series] triple_andthen)

lemma triple_previews: "triple (housed G) (previews cfg cwd is) (\<lambda>_. housed G) (\<lambda>_. housed G)"
  by (induction "is") (auto intro: triple_ret triple_andthen [OF triple_preview] triple_andthen)

lemma triple_execute_library:
  "triple (housed G) (execute_library_rename key cfg cwd ids vs cs) (\<lambda>_. housed G) (\<lambda>_. housed G)"
proof -
  have "triple (housed G) (effect SqlFailure (gets (\<lambda>w. library_series key (w_journal w)))) (\<lambda>_. housed G) (\<lambda>_. housed G)"
    by (rule triple_effect [OF steady_housed], assumption, assumption, rule triple_gets)
  then show ?thesis
    unfolding execute_library_rename_def build_library_rename_preview_def
    by (intro triple_andthen [OF triple_andthen [OF _ triple_previews] triple_execute_each])
qed

text \<open>
  C25: Renaming loses no file: whatever system calls and transactions are refused and wherever the
  process dies, every file that had a name has one after a rename of a series or of the library,
  and the directory tree stays well formed.
\<close>

theorem rename_loses_no_file:
  assumes "tree_ok w" "file_at w p = Some f"
    and "w' = snd (execute_library_rename title_key cfg cwd series_ids volume_ids chapter_ids w)
      \<or> w' = snd (execute_series_rename cfg cwd volume_ids chapter_ids sid w)"
  shows "(\<exists>q. file_at w' q = Some f) \<and> tree_ok w'"
proof -
  have "housed {f} w" using assms by (auto simp: housed_def)
  then have "housed {f} w'" using assms(3) triple_snd [OF triple_execute_library] triple_snd [OF triple_execute_series] by blast
  then show ?thesis by (auto simp: housed_def)
qed

subsection \<open>One item\<close>

text \<open>\<open>sheds m\<close>: \<open>m\<close> only takes faults off the schedule.\<close>

definition sheds :: "('j, 'a) act \<Rightarrow> bool" where
  "sheds m \<longleftrightarrow> (\<forall>w. set (w_faults (snd (m w))) \<subseteq> set (w_faults w))"

named_theorems sheds_rules

lemma sheds_basic [sheds_rules]: "sheds (ret x)" "sheds (throw e)" "sheds (gets g)"
  by (simp_all add: sheds_def ret_def throw_def gets_def)

lemma shedsD: "sheds m \<Longrightarrow> m w = (r, v) \<Longrightarrow> set (w_faults v) \<subseteq> set (w_faults w)"
  unfolding sheds_def by (metis snd_conv)

lemma shedsI: "(\<And>w r v. m w = (r, v) \<Longrightarrow> set (w_faults v) \<subseteq> set (w_faults w)) \<Longrightarrow> sheds m"
  unfolding sheds_def by (metis prod.collapse)

lemma sheds_andthen [sheds_rules]:
  assumes "sheds m" "\<And>x. sheds (k x)" shows "sheds (andthen m k)"
proof (rule shedsI)
  fix w r v
  assume run: "andthen m k w = (r, v)"
  obtain q u where u: "m w = (q, u)" by (cases "m w")
  show "set (w_faults v) \<subseteq> set (w_faults w)"
    using run u shedsD [OF assms(1) u] shedsD [OF assms(2)] by (cases q) (fastforce simp: andthen_def)+
qed

lemma sheds_catch [sheds_rules]:
  assumes "sheds m" "\<And>e. sheds (h e)" shows "sheds (catch m h)"
proof (rule shedsI)
  fix w r v
  assume run: "catch m h w = (r, v)"
  obtain q u where u: "m w = (q, u)" by (cases "m w")
  show "set (w_faults v) \<subseteq> set (w_faults w)"
    using run u shedsD [OF assms(1) u] shedsD [OF assms(2)] by (cases q) (fastforce simp: catch_def split: if_splits)+
qed

lemma sheds_if [sheds_rules]: "sheds m \<Longrightarrow> sheds n \<Longrightarrow> sheds (if b then m else n)"
  by simp

lemma sheds_effect: "(\<And>w. w_faults (snd (op w)) = w_faults w) \<Longrightarrow> sheds (effect e op)"
  by (auto simp: sheds_def effect_def Let_def split: list.split fault.split)

lemma sheds_transact [sheds_rules]: "sheds (transact f)"
  unfolding transact_def by (rule sheds_effect) (auto split: sum.split)

lemma sheds_rename_path [sheds_rules]: "sheds (rename_path cwd a b)"
  unfolding rename_path_def rename_entry_def by (rule sheds_effect) (auto simp: move_tree_def split: option.split)

lemma sheds_make_dirs [sheds_rules]: "sheds (make_dirs made cs)"
proof -
  have "sheds (os_mkdir_open p)" for p unfolding os_mkdir_open_def by (rule sheds_effect) auto
  then have "sheds (make_dir p)" for p unfolding make_dir_def by (intro sheds_rules)
  then show ?thesis by (induction cs arbitrary: made) (auto intro: sheds_rules)
qed

lemma sheds_move_file: "sheds (move_file cwd a b)"
  unfolding move_file_def by (intro sheds_rules)

text \<open>A world with the given files and journal, in a well-formed tree; \<open>vacated A\<close>: a file can come back to \<open>A\<close>.\<close>

abbreviation reads_as :: "(path \<Rightarrow> stored_file option) \<Rightarrow> 'j \<Rightarrow> 'j durable \<Rightarrow> bool" where
  "reads_as \<phi> j \<equiv> housed_with {} (\<lambda>\<psi> k. \<psi> = \<phi> \<and> k = j)"

definition vacated :: "path \<Rightarrow> 'j durable \<Rightarrow> bool" where
  "vacated A w \<longleftrightarrow> A \<noteq> [] \<and> \<not> is_dir w A \<and> is_dir w (dir_of A)"

lemma file_at_fun_move: "file_at (bind_name B f (drop_name A w)) = (file_at w)(A := None, B := Some f)"
  by auto

lemma triple_rename_exact:
  assumes "\<phi> A = Some f" "\<phi> B = None"
  shows "triple (reads_as \<phi> j) (rename_entry False A B)
    (\<lambda>_ w. reads_as (\<phi>(A := None, B := Some f)) j w \<and> vacated A w) (\<lambda>_. reads_as \<phi> j)"
  unfolding rename_entry_def
proof (rule triple_effect [OF steady_housed_with], assumption, assumption, rule tripleI)
  fix w
  assume w: "reads_as \<phi> j w"
  then have tree: "tree_ok w" and at: "file_at w A = Some f" "file_at w B = None" using assms by (auto simp: housed_with_def housed_def)
  then have va: "A \<noteq> []" "\<not> is_dir w A" "is_dir w (dir_of A)" by (auto simp: tree_ok_def)
  have "reads_as (\<phi>(A := None, B := Some f)) j (bind_name B f (drop_name A w)) \<and> vacated A (bind_name B f (drop_name A w))"
    if "B \<noteq> []" "is_dir w (dir_of B)" "\<not> is_dir w B"
    using w va housed_move_file [of "{}" w A f B] at that unfolding housed_with_def vacated_def file_at_fun_move by auto
  with w at va show "case (if A = [] \<or> B = [] \<or> \<not> is_dir w (dir_of B) then (Inl OsFailure, w)
     else case file_at w A of
       Some f \<Rightarrow>
         if False \<or> is_dir w B then (Inl OsFailure, w)
         else if (case file_at w B of None \<Rightarrow> False | Some g \<Rightarrow> same_inode f g) then (Inr (), w)
         else (Inr (), bind_name B f (drop_name A w))
     | None \<Rightarrow>
         if \<not> is_dir w A \<or> file_at w B \<noteq> None then (Inl OsFailure, w)
         else if A = B then (Inr (), w)
         else if prefix A B \<or> (is_dir w B \<and> \<not> empty_dir w B) then (Inl OsFailure, w)
         else (Inr (), move_tree A B w)) of
      (Inr x, w') \<Rightarrow> reads_as (\<phi>(A := None, B := Some f)) j w' \<and> vacated A w' | (Inl e, w') \<Rightarrow> reads_as \<phi> j w'"
    by simp
qed

lemma triple_move_exact:
  assumes "\<phi> (abs_components cwd a) = Some f" "last a \<noteq> CHR ''/''" "last b \<noteq> CHR ''/''" "b \<noteq> []" "abs_components cwd a \<noteq> abs_components cwd b"
  shows "triple (reads_as \<phi> j) (move_file cwd a b)
    (\<lambda>_ w. \<phi> (abs_components cwd b) = None \<and> reads_as (\<phi>(abs_components cwd a := None, abs_components cwd b := Some f)) j w
      \<and> vacated (abs_components cwd a) w) (\<lambda>_. reads_as \<phi> j)"
proof -
  let ?Q = "\<lambda>_ w. \<phi> (abs_components cwd b) = None \<and> reads_as (\<phi>(abs_components cwd a := None, abs_components cwd b := Some f)) j w
      \<and> vacated (abs_components cwd a) w"
  have go: "triple (reads_as \<phi> j) (andthen (make_dirs [] cs) (\<lambda>_. rename_path cwd a b)) ?Q (\<lambda>_. reads_as \<phi> j)"
    if "\<phi> (abs_components cwd b) = None" for cs
    unfolding rename_path_def
    using triple_andthen [OF triple_make_dirs triple_rename_exact [of \<phi> "abs_components cwd a" f "abs_components cwd b", OF assms(1) that]]
      assms(2,3) that by simp
  have taken: "triple (\<lambda>w. reads_as \<phi> j w \<and> t = path_exists cwd b w)
      (if t \<and> norm_path cwd b \<noteq> norm_path cwd a then throw e
       else andthen (make_dirs [] cs) (\<lambda>_. rename_path cwd a b)) ?Q (\<lambda>_. reads_as \<phi> j)" for t e cs
  proof (rule triple_if)
    show "triple (\<lambda>w. reads_as \<phi> j w \<and> t = path_exists cwd b w) (throw e) ?Q (\<lambda>_. reads_as \<phi> j)" by (rule triple_throw) simp
    assume n: "\<not> (t \<and> norm_path cwd b \<noteq> norm_path cwd a)"
    show "triple (\<lambda>w. reads_as \<phi> j w \<and> t = path_exists cwd b w) (andthen (make_dirs [] cs) (\<lambda>_. rename_path cwd a b)) ?Q (\<lambda>_. reads_as \<phi> j)"
    proof (rule triple_fact [where b = "\<phi> (abs_components cwd b) = None"])
      fix w
      assume "reads_as \<phi> j w \<and> t = path_exists cwd b w"
      with n assms(3-5) path_free [of cwd b w] show "\<phi> (abs_components cwd b) = None" by (auto simp: housed_with_def norm_path_def)
    qed (rule triple_pre [OF go], auto)
  qed
  show ?thesis
    unfolding move_file_def
    by (rule triple_andthen [where R = "\<lambda>_. reads_as \<phi> j"], rule triple_gets, assumption, rule triple_if, rule triple_throw, assumption,
      rule triple_andthen [where R = "\<lambda>t w. reads_as \<phi> j w \<and> t = path_exists cwd b w"], rule triple_gets, simp, rule taken)
qed

lemma triple_transact_exact:
  "triple (\<lambda>w. reads_as \<phi> j w \<and> vacated A w) (transact g)
    (\<lambda>x w. \<exists>j'. g j = Inr (x, j') \<and> reads_as \<phi> j' w) (\<lambda>_ w. reads_as \<phi> j w \<and> vacated A w)"
  unfolding transact_def
proof (rule triple_effect)
  show "steady (\<lambda>w. reads_as \<phi> j w \<and> vacated A w)"
    by (simp add: steady_def vacated_def housed_with_def housed_def file_at_def [abs_def])
  show "triple (\<lambda>w. reads_as \<phi> j w \<and> vacated A w) (\<lambda>w. case g (w_journal w) of Inl e \<Rightarrow> (Inl e, w) | Inr (x, j) \<Rightarrow> (Inr x, w\<lparr>w_journal := j\<rparr>))
    (\<lambda>x w. \<exists>j'. g j = Inr (x, j') \<and> reads_as \<phi> j' w) (\<lambda>_ w. reads_as \<phi> j w \<and> vacated A w)"
    by (rule tripleI) (auto simp: housed_with_def housed_def file_at_def [abs_def] split: sum.split)
qed simp_all

lemma move_back_error: "move_file_back cwd a b u = (Inl e, v) \<Longrightarrow> e = Crashed"
  by (auto simp: move_file_back_def catch_def ret_def split: prod.splits sum.splits if_splits)

text \<open>The way back: it succeeds unless it is refused.\<close>

lemma move_back_exact:
  assumes u: "reads_as (\<phi>(abs_components cwd a := None, abs_components cwd b := Some f)) j u" "vacated (abs_components cwd a) u"
    and names: "a \<noteq> []" "b \<noteq> []" "last a \<noteq> CHR ''/''" "last b \<noteq> CHR ''/''" "abs_components cwd a \<noteq> abs_components cwd b"
    and \<phi>: "\<phi> (abs_components cwd a) = Some f" "\<phi> (abs_components cwd b) = None"
    and run: "move_file_back cwd a b u = (Inr (), w')"
  shows "w_journal w' = j \<and> (file_at w' = \<phi> \<or> Refuse \<in> set (w_faults u)
    \<and> file_at w' = \<phi>(abs_components cwd a := None, abs_components cwd b := Some f))"
proof -
  let ?A = "abs_components cwd a"
  let ?B = "abs_components cwd b"
  have at: "file_at u ?A = None" "file_at u ?B = Some f" "file_at u = \<phi>(?A := None, ?B := Some f)" "w_journal u = j" "tree_ok u"
    using u(1) names(5) by (auto simp: housed_with_def housed_def)
  then have ne: "?B \<noteq> []" "\<not> is_dir u ?B" by (auto simp: tree_ok_def)
  have undo: "\<not> path_exists cwd a u \<and> path_exists cwd b u"
    using at u(2) names by (auto simp: path_exists_def lexists_def vacated_def is_dir_def)
  have undone: "file_at (bind_name ?A f (drop_name ?B v)) = \<phi>" if "file_at v = file_at u" for v
    using \<phi> names(5) that at(3) by (auto simp: fun_eq_iff)
  let ?op = "\<lambda>w. (Inr () :: failure + unit, bind_name ?A f (drop_name ?B w))"
  have op: "rename_path cwd b a u = effect OsFailure ?op u"
    unfolding rename_path_def rename_entry_def effect_def
    using at u(2) ne names by (auto simp: vacated_def Let_def split: list.split fault.split)
  show ?thesis
  proof (cases "w_faults u")
    case Nil
    then have "move_file_back cwd a b u = (Inr (), bind_name ?A f (drop_name ?B u))"
      using undo op by (simp add: move_file_back_def catch_def andthen_def gets_def run_if_def effect_def)
    with run show ?thesis using at undone [of u] by auto
  next
    case (Cons x fs)
    have "move_file_back cwd a b u = catch (effect OsFailure ?op) (\<lambda>e. ret ()) u"
      using undo op by (simp add: move_file_back_def catch_def andthen_def gets_def run_if_def)
    then have "move_file_back cwd a b u = (case x of Proceed \<Rightarrow> ?op (u\<lparr>w_faults := fs\<rparr>)
        | Refuse \<Rightarrow> (Inr (), u\<lparr>w_faults := fs\<rparr>) | Die \<Rightarrow> (Inl Crashed, u\<lparr>w_faults := fs\<rparr>))"
      using Cons by (simp add: effect_def catch_def ret_def split: fault.split)
    moreover have "file_at (u\<lparr>w_faults := fs\<rparr>) = file_at u" by (simp add: file_at_def [abs_def])
    ultimately show ?thesis
      using run at undone [of "u\<lparr>w_faults := fs\<rparr>"] Cons by (cases x) auto
  qed
qed

text \<open>What the row statements of a rename do, column by column.\<close>

lemma rename_rows_effect:
  assumes "rename_rows cwd sid title item t db = Inr ((), db')"
  shows "(if ri_volume item then \<exists>v \<in> set (rn_volumes db). vf_id v = ri_id item \<and> vf_series v = sid
          \<and> norm_path cwd (case vf_path v of None \<Rightarrow> [] | Some p \<Rightarrow> p) = norm_path cwd (ri_old item)
        else \<exists>c \<in> set (rn_chapters db). cf_id c = ri_id item \<and> cf_series c = sid
          \<and> norm_path cwd (case cf_path c of None \<Rightarrow> [] | Some p \<Rightarrow> p) = norm_path cwd (ri_old item))
    \<and> rn_volumes db' = map (\<lambda>v. if vf_series v = sid \<and> vf_path v = Some (ri_old item) then v\<lparr>vf_path := Some t\<rparr> else v) (rn_volumes db)
    \<and> rn_chapters db' = map (\<lambda>c. if cf_series c = sid \<and> cf_path c = Some (ri_old item) then c\<lparr>cf_path := Some t\<rparr> else c) (rn_chapters db)
    \<and> rn_history db' = rn_history db @ [\<lparr>re_series = sid, re_title = title, re_label = ri_label item, re_source = ri_old_name item,
        re_volume = ri_volume item, re_old = ri_old item, re_new = t\<rparr>]
    \<and> rn_series db' = rn_series db \<and> rn_roots db' = rn_roots db"
proof -
  obtain p where p: "stored_path db sid item = Some p" "norm_path cwd (case p of None \<Rightarrow> [] | Some s \<Rightarrow> s) = norm_path cwd (ri_old item)"
    using assms by (auto simp: rename_rows_def split: option.splits if_splits)
  have db': "db' = (repoint sid (ri_old item) t db)\<lparr>rn_history := rn_history (repoint sid (ri_old item) t db) @
      [\<lparr>re_series = sid, re_title = title, re_label = ri_label item, re_source = ri_old_name item,
        re_volume = ri_volume item, re_old = ri_old item, re_new = t\<rparr>]\<rparr>"
    using assms p by (simp add: rename_rows_def Let_def)
  show ?thesis
    using p unfolding db' by (auto simp: repoint_def stored_path_def find_Some_iff split: if_splits)
qed

text \<open>
  C26: Renaming one file is all or nothing. When the item is reported renamed, its file is at the new
  name only; the row it was planned for is still in the series and stored that file; every volume and
  chapter of the series that stored the old path, and no other row, stores the new one; one event
  with both paths is added to the history. When it is reported failed, no row has changed and the
  file is back, unless the move back was itself refused, and then the file is at the new name.
\<close>

theorem rename_item_atomic:
  assumes "execute_item cwd sid title item w = (Inr r, w')" "tree_ok w" "ri_new item = Some t"
    and "ri_old item \<noteq> []" "t \<noteq> []" "last (ri_old item) \<noteq> CHR ''/''" "last t \<noteq> CHR ''/''"
    and "A = abs_components cwd (ri_old item)" "B = abs_components cwd t" "A \<noteq> B" "file_at w A = Some f"
  shows "case rr_status r of
      Renamed \<Rightarrow> file_at w B = None \<and> file_at w' = (file_at w)(A := None, B := Some f)
        \<and> (if ri_volume item then \<exists>v \<in> set (rn_volumes (w_journal w)). vf_id v = ri_id item \<and> vf_series v = sid
              \<and> norm_path cwd (case vf_path v of None \<Rightarrow> [] | Some p \<Rightarrow> p) = norm_path cwd (ri_old item)
            else \<exists>c \<in> set (rn_chapters (w_journal w)). cf_id c = ri_id item \<and> cf_series c = sid
              \<and> norm_path cwd (case cf_path c of None \<Rightarrow> [] | Some p \<Rightarrow> p) = norm_path cwd (ri_old item))
        \<and> rn_volumes (w_journal w') = map (\<lambda>v. if vf_series v = sid \<and> vf_path v = Some (ri_old item) then v\<lparr>vf_path := Some t\<rparr> else v)
            (rn_volumes (w_journal w))
        \<and> rn_chapters (w_journal w') = map (\<lambda>c. if cf_series c = sid \<and> cf_path c = Some (ri_old item) then c\<lparr>cf_path := Some t\<rparr> else c)
            (rn_chapters (w_journal w))
        \<and> rn_history (w_journal w') = rn_history (w_journal w) @ [\<lparr>re_series = sid, re_title = title, re_label = ri_label item,
            re_source = ri_old_name item, re_volume = ri_volume item, re_old = ri_old item, re_new = t\<rparr>]
        \<and> rn_series (w_journal w') = rn_series (w_journal w) \<and> rn_roots (w_journal w') = rn_roots (w_journal w)
    | RenameFailed e \<Rightarrow> w_journal w' = w_journal w
        \<and> (file_at w' = file_at w \<or> Refuse \<in> set (w_faults w) \<and> file_at w' = (file_at w)(A := None, B := Some f))
    | RenameSkipped _ \<Rightarrow> False"
proof -
  let ?\<phi> = "file_at w"
  let ?j = "w_journal w"
  have start: "reads_as ?\<phi> ?j w" using assms(2) by (simp add: housed_with_def housed_def)
  note move = triple_move_exact [of ?\<phi> cwd "ri_old item" f t ?j]
  have mv: "triple (reads_as ?\<phi> ?j) (move_file cwd (ri_old item) t)
      (\<lambda>_ v. ?\<phi> B = None \<and> reads_as (?\<phi>(A := None, B := Some f)) ?j v \<and> vacated A v) (\<lambda>_. reads_as ?\<phi> ?j)"
    using triple_move_exact [of ?\<phi> cwd "ri_old item" f t ?j] assms by simp
  obtain q v where v: "move_file cwd (ri_old item) t w = (q, v)" by (cases "move_file cwd (ri_old item) t w")
  have run: "catch (andthen (move_file cwd (ri_old item) t) (\<lambda>_. catch
      (andthen (transact (rename_rows cwd sid title item t)) (\<lambda>_. ret (result_of item Renamed)))
      (\<lambda>e. andthen (move_file_back cwd (ri_old item) t) (\<lambda>_. ret (result_of item (RenameFailed e))))))
      (\<lambda>e. ret (result_of item (RenameFailed e))) w = (Inr r, w')"
    using assms(1,3-5) by (simp add: execute_item_def)
  show ?thesis
  proof (cases q)
    case (Inl e)
    then have "reads_as ?\<phi> ?j v" using tripleD(2) [OF mv start] v by simp
    moreover have "r = result_of item (RenameFailed e) \<and> w' = v"
      using run v Inl by (auto simp: catch_def andthen_def ret_def split: if_splits)
    ultimately show ?thesis by (simp add: result_of_def housed_with_def)
  next
    case (Inr x)
    then have at: "?\<phi> B = None" "reads_as (?\<phi>(A := None, B := Some f)) ?j v \<and> vacated A v" using tripleD(1) [OF mv start] v by auto
    obtain p u where u: "transact (rename_rows cwd sid title item t) v = (p, u)" by (cases "transact (rename_rows cwd sid title item t) v")
    note tr = triple_transact_exact [of "?\<phi>(A := None, B := Some f)" ?j A "rename_rows cwd sid title item t"]
    show ?thesis
    proof (cases p)
      case (Inr y)
      then have "r = result_of item Renamed \<and> w' = u" using run v u \<open>q = Inr x\<close> by (simp add: catch_def andthen_def ret_def)
      moreover have "rename_rows cwd sid title item t ?j = Inr ((), w_journal u)" "file_at u = ?\<phi>(A := None, B := Some f)"
        using tripleD(1) [OF tr at(2)] u Inr by (auto simp: housed_with_def)
      ultimately show ?thesis using at(1) rename_rows_effect [of cwd sid title item t ?j "w_journal u"]
        by (simp only: result_of_def rename_result.simps rename_status.simps) blast
    next
      case (Inl e)
      have u_at: "reads_as (?\<phi>(A := None, B := Some f)) ?j u \<and> vacated A u" using tripleD(2) [OF tr at(2)] u Inl by simp
      have back_run: "move_file_back cwd (ri_old item) t u = (Inr (), w')" "r = result_of item (RenameFailed e)"
        using run v u Inl \<open>q = Inr x\<close>
        by (auto simp: catch_def andthen_def ret_def split: prod.splits sum.splits if_splits dest: move_back_error)
      have "set (w_faults u) \<subseteq> set (w_faults w)"
        using shedsD [OF sheds_move_file v] shedsD [OF sheds_transact u] by blast
      moreover have "w_journal w' = ?j \<and> (file_at w' = ?\<phi> \<or> Refuse \<in> set (w_faults u) \<and> file_at w' = ?\<phi>(A := None, B := Some f))"
        using move_back_exact [of ?\<phi> cwd "ri_old item" t f ?j u w'] u_at back_run(1) at(1) assms by simp
      ultimately show ?thesis using back_run(2) by (auto simp: result_of_def)
    qed
  qed
qed

subsection \<open>The plan\<close>

lemma map_filter_path: "set (List.map_filter (\<lambda>v. case g v of None \<Rightarrow> None | Some p \<Rightarrow> Some (v, p)) xs) = {(v, p). v \<in> set xs \<and> g v = Some p}"
  by (induction xs) (auto simp: List.map_filter_def split: option.splits)

lemma make_item_can:
  assumes "ri_can (make_item cfg cwd w vol i title dir old n c lab year)" "ri_new (make_item cfg cwd w vol i title dir old n c lab year) = Some t"
  shows "path_exists cwd old w \<and> t \<noteq> [] \<and> \<not> path_exists cwd t w \<and> norm_path cwd t \<noteq> norm_path cwd old"
  using assms by (auto simp: make_item_def Let_def split: option.splits if_splits)

lemma make_item_new: "ri_can (make_item cfg cwd w vol i title dir old n c lab year) \<Longrightarrow> \<exists>t. ri_new (make_item cfg cwd w vol i title dir old n c lab year) = Some t"
  by (auto simp: make_item_def Let_def split: option.splits if_splits)

lemma make_item_keys [simp]:
  "ri_old (make_item cfg cwd w vol i title dir old n c lab year) = old"
  "ri_volume (make_item cfg cwd w vol i title dir old n c lab year) = vol"
  "ri_id (make_item cfg cwd w vol i title dir old n c lab year) = i"
  by (simp_all add: make_item_def Let_def)

definition block :: "rename_item \<Rightarrow> rename_item" where
  "block item = item\<lparr>ri_conflict := Some DuplicateTarget, ri_can := False\<rparr>"

lemma same_target_block [simp]: "same_target cwd t (block item) = same_target cwd t item"
  by (simp add: same_target_def block_def)

definition marked :: "string \<Rightarrow> rename_item list \<Rightarrow> rename_item \<Rightarrow> rename_item" where
  "marked cwd items item = (case ri_new item of
     None \<Rightarrow> item
   | Some t \<Rightarrow> if t \<noteq> [] \<and> 2 \<le> length (filter (same_target cwd t) items) then block item else item)"

lemma mark_duplicates_map: "mark_duplicates cwd items = map (marked cwd items) items"
  by (simp add: mark_duplicates_def marked_def block_def split: option.split)

lemma marked_keys [simp]:
  "ri_old (marked cwd items item) = ri_old item" "ri_volume (marked cwd items item) = ri_volume item" "ri_id (marked cwd items item) = ri_id item"
  "ri_new (marked cwd items item) = ri_new item" "same_target cwd' t (marked cwd items item) = same_target cwd' t item"
  by (simp_all add: marked_def block_def same_target_def split: option.split)

lemma marked_can:
  assumes "ri_can (marked cwd items item)"
  shows "ri_can item \<and> marked cwd items item = item \<and> (\<forall>t. ri_new item = Some t \<longrightarrow> t \<noteq> [] \<longrightarrow> length (filter (same_target cwd t) items) < 2)"
  using assms by (auto simp: marked_def block_def split: option.splits if_splits)

lemma filter_single: "x \<in> set xs \<Longrightarrow> P x \<Longrightarrow> length (filter P xs) < 2 \<Longrightarrow> length (filter P xs) = 1"
  by (cases "filter P xs") (auto simp: filter_empty_conv)

text \<open>
  C27: The plan is sound and complete: it has one item for every downloaded file of the series, and an
  item offered for renaming has a source that exists and a different target that is free and that
  no other item of the plan, renameable or not, would take.
\<close>

theorem rename_plan_sound:
  assumes "series_preview cfg cwd sid w = Inr (Some plan)"
  shows "{(ri_id i, ri_old i) | i. i \<in> set (rp_items plan) \<and> ri_volume i}
      = {(vf_id v, p) | v p. v \<in> set (rn_volumes (w_journal w)) \<and> vf_series v = sid \<and> vf_status v = ''downloaded'' \<and> vf_path v = Some p}
    \<and> {(ri_id i, ri_old i) | i. i \<in> set (rp_items plan) \<and> \<not> ri_volume i}
      = {(cf_id c, p) | c p. c \<in> set (rn_chapters (w_journal w)) \<and> cf_series c = sid \<and> cf_status c = ''downloaded'' \<and> cf_path c = Some p}
    \<and> (\<forall>i \<in> set (rp_items plan). ri_can i \<longrightarrow> (\<exists>t. ri_new i = Some t \<and> t \<noteq> [] \<and> norm_path cwd t \<noteq> norm_path cwd (ri_old i)
          \<and> path_exists cwd (ri_old i) w \<and> \<not> path_exists cwd t w \<and> length (filter (same_target cwd t) (rp_items plan)) = 1))"
proof -
  let ?db = "w_journal w"
  obtain s dir where found: "find (\<lambda>s. sp_id s = sid \<and> \<not> sf_deleted s) (rn_series ?db) = Some s"
      "series_library_dir cfg (rn_roots ?db) (map series_place.truncate (rn_series ?db)) sid = Inr dir"
    using assms by (auto simp: series_preview_def Let_def split: option.splits sum.splits)
  define title where "title = (case sp_title s of None \<Rightarrow> [] | Some t \<Rightarrow> t)"
  have plan: "rp_items plan = mark_duplicates cwd
      (map (volume_item cfg cwd w title dir (sp_year s)) (volume_files sid ?db) @ map (chapter_item cfg cwd w ?db title dir (sp_year s)) (chapter_files sid ?db))"
    using assms found by (auto simp: series_preview_def Let_def title_def)
  define items where "items = map (volume_item cfg cwd w title dir (sp_year s)) (volume_files sid ?db)
    @ map (chapter_item cfg cwd w ?db title dir (sp_year s)) (chapter_files sid ?db)"
  have items: "rp_items plan = map (marked cwd items) items" using plan by (simp add: mark_duplicates_map items_def)
  have made: "\<exists>vol i old n c lab. item = make_item cfg cwd w vol i title dir old n c lab (sp_year s)" if "item \<in> set items" for item
    using that by (auto simp: items_def volume_item_def chapter_item_def split: prod.splits) blast+
  have vols: "{(ri_id i, ri_old i) | i. i \<in> set items \<and> ri_volume i} = (\<lambda>(v, p). (vf_id v, p)) ` set (volume_files sid ?db)"
    by (force simp: items_def volume_item_def chapter_item_def image_iff split: prod.splits)
  have chaps: "{(ri_id i, ri_old i) | i. i \<in> set items \<and> \<not> ri_volume i} = (\<lambda>(c, p). (cf_id c, p)) ` set (chapter_files sid ?db)"
    by (force simp: items_def volume_item_def chapter_item_def image_iff split: prod.splits)
  have over: "{(ri_id i, ri_old i) | i. i \<in> set (rp_items plan) \<and> Q (ri_volume i)} = {(ri_id i, ri_old i) | i. i \<in> set items \<and> Q (ri_volume i)}" for Q
  proof -
    have "\<exists>k. ri_id i = ri_id k \<and> ri_old i = ri_old k \<and> (\<exists>x \<in> set items. k = marked cwd items x) \<and> Q (ri_volume k)"
      if "i \<in> set items" "Q (ri_volume i)" for i
      using that by (intro exI [of _ "marked cwd items i"]) auto
    then show ?thesis unfolding items by (auto simp: image_iff)
  qed
  have can: "\<exists>t. ri_new i = Some t \<and> t \<noteq> [] \<and> norm_path cwd t \<noteq> norm_path cwd (ri_old i)
      \<and> path_exists cwd (ri_old i) w \<and> \<not> path_exists cwd t w \<and> length (filter (same_target cwd t) (rp_items plan)) = 1"
    if i: "i \<in> set (rp_items plan)" "ri_can i" for i
  proof -
    obtain item where item: "item \<in> set items" "i = marked cwd items item" using i(1) by (auto simp: items)
    have m: "ri_can item" "i = item" "\<And>t. ri_new item = Some t \<Longrightarrow> t \<noteq> [] \<Longrightarrow> length (filter (same_target cwd t) items) < 2"
      using marked_can [of cwd items item] i(2) item(2) by auto
    obtain t where t: "ri_new item = Some t" using make_item_new made [OF item(1)] m(1) by metis
    have sound: "path_exists cwd (ri_old item) w" "t \<noteq> []" "\<not> path_exists cwd t w" "norm_path cwd t \<noteq> norm_path cwd (ri_old item)"
      using make_item_can made [OF item(1)] m(1) t by (metis make_item_keys(1))+
    have "same_target cwd t item" using t sound(2) by (simp add: same_target_def)
    then have "length (filter (same_target cwd t) items) = 1" using filter_single [OF item(1)] m(3) [OF t sound(2)] by blast
    moreover have "length (filter (same_target cwd t) (rp_items plan)) = length (filter (same_target cwd t) items)"
      by (simp add: items filter_map o_def)
    ultimately show ?thesis using t sound m(2) by auto
  qed
  show ?thesis
    using over [of "\<lambda>b. b"] over [of Not] vols chaps can
    by (auto simp: volume_files_def chapter_files_def map_filter_path image_iff)
qed

subsection \<open>A concrete library\<close>

text \<open>
  A volume and the chapter that came with it share one file, as \<open>_cascade_chapters\<close> stores them.
\<close>

definition demo_volume_path :: string where "demo_volume_path = ''/lib/X/X v01.cbz''"

definition demo_page_file :: stored_file where
  "demo_page_file = \<lparr>f_dev = 1, f_ino = 5, f_reg = True, f_size = 9, f_mtime = 0, f_sha = [], f_archive = None\<rparr>"

definition demo_library :: "string \<Rightarrow> rename_db durable" where
  "demo_library p = \<lparr>w_files = [([''lib'', ''X'', p], demo_page_file)], w_dirs = [([], False), ([''lib''], False), ([''lib'', ''X''], False)],
     w_managed = (\<lambda>_. True), w_rename = True, w_faults = [],
     w_journal = \<lparr>
       rn_series = [\<lparr>sp_id = 2, sp_title = Some ''X'', sp_root = Some 1, sp_year = None, sp_folder = Some ''X'', sf_deleted = False\<rparr>],
       rn_roots = [\<lparr>rf_id = 1, rf_path = ''/lib'', rf_default = Some 1\<rparr>],
       rn_volumes = [\<lparr>vf_id = 7, vf_series = 2, vf_num = Some 1, vf_range_start = None, vf_range_end = None, vf_pack = None,
         vf_status = ''downloaded'', vf_path = Some (''/lib/X/'' @ p)\<rparr>],
       rn_chapters = [\<lparr>cf_id = 9, cf_series = 2, cf_volume = Some 7, cf_num = 1, cf_range_end = None, cf_status = ''downloaded'',
         cf_path = Some (''/lib/X/'' @ p)\<rparr>],
       rn_history = []\<rparr>\<rparr>"

definition demo_formats :: "string \<Rightarrow> string" where
  "demo_formats key = (if key = ''file_format'' then ''{Series Title} v{Volume:02d}''
     else if key = ''chapter_format'' then ''{Series Title} c{Chapter:03d}'' else [])"

text \<open>
  With both formats set, a volume file that already has its name is renamed as its first chapter,
  and the volume row follows: the item of the chapter is renameable because the item of the
  volume, which stays, does not hold the name.
\<close>

lemma rename_takes_volume_for_chapter:
  "map vf_path (rn_volumes (w_journal (snd (execute_series_rename demo_formats ''/'' None None 2 (demo_library ''X v01.cbz'')))))
     = [Some ''/lib/X/X c001.cbz'']"
  by code_simp

lemma tree_demo: "tree_ok (demo_library p)" and demo_file: "file_at (demo_library p) [''lib'', ''X'', p] = Some demo_page_file"
  by (auto simp: tree_ok_def demo_library_def file_at_def is_dir_def dir_of_def split: if_splits)

theorem rename_loses_no_file_witness:
  "\<exists>q. file_at (snd (execute_series_rename demo_formats ''/'' None None 2 (demo_library ''x.cbz''\<lparr>w_faults := [Proceed, Proceed, Refuse, Die]\<rparr>))) q
     = Some demo_page_file"
proof -
  let ?w = "demo_library ''x.cbz''\<lparr>w_faults := [Proceed, Proceed, Refuse, Die]\<rparr>"
  have "tree_ok ?w" "file_at ?w [''lib'', ''X'', ''x.cbz''] = Some demo_page_file" using tree_demo demo_file by simp_all
  then show ?thesis by (intro conjunct1 [OF rename_loses_no_file [OF _ _ disjI2 [OF refl]]])
qed

definition demo_rename :: rename_item where
  "demo_rename = \<lparr>ri_volume = True, ri_id = 7, ri_label = Vol ''1'', ri_old = ''/lib/X/x.cbz'', ri_new = Some ''/lib/X/X v01.cbz'',
     ri_old_name = ''x.cbz'', ri_new_name = Some ''X v01.cbz'', ri_source_exists = True, ri_target_exists = False, ri_changed = True,
     ri_conflict = None, ri_can = True\<rparr>"

theorem rename_item_atomic_witness:
  "file_at (snd (execute_item ''/'' 2 ''X'' demo_rename (demo_library ''x.cbz''))) [''lib'', ''X'', ''X v01.cbz''] = Some demo_page_file
   \<and> map vf_path (rn_volumes (w_journal (snd (execute_item ''/'' 2 ''X'' demo_rename (demo_library ''x.cbz''))))) = [Some ''/lib/X/X v01.cbz'']
   \<and> map cf_path (rn_chapters (w_journal (snd (execute_item ''/'' 2 ''X'' demo_rename (demo_library ''x.cbz''))))) = [Some ''/lib/X/X v01.cbz'']
   \<and> map re_new (rn_history (w_journal (snd (execute_item ''/'' 2 ''X'' demo_rename (demo_library ''x.cbz''))))) = [''/lib/X/X v01.cbz'']"
proof -
  let ?w = "demo_library ''x.cbz''"
  have "fst (execute_item ''/'' 2 ''X'' demo_rename ?w) = Inr (result_of demo_rename Renamed)" by code_simp
  then have run: "execute_item ''/'' 2 ''X'' demo_rename ?w = (Inr (result_of demo_rename Renamed), snd (execute_item ''/'' 2 ''X'' demo_rename ?w))"
    by (metis prod.collapse)
  have names: "[''lib'', ''X'', ''x.cbz''] = abs_components ''/'' (ri_old demo_rename)"
    "[''lib'', ''X'', ''X v01.cbz''] = abs_components ''/'' ''/lib/X/X v01.cbz''"
    by code_simp+
  have item: "ri_new demo_rename = Some ''/lib/X/X v01.cbz''" "ri_old demo_rename \<noteq> []" "last (ri_old demo_rename) \<noteq> CHR ''/''"
    by (simp_all add: demo_rename_def)
  have rows: "ri_old demo_rename = ''/lib/X/x.cbz''" "map (\<lambda>v. (vf_series v, vf_path v)) (rn_volumes (w_journal ?w)) = [(2, Some ''/lib/X/x.cbz'')]"
    "map (\<lambda>c. (cf_series c, cf_path c)) (rn_chapters (w_journal ?w)) = [(2, Some ''/lib/X/x.cbz'')]" "rn_history (w_journal ?w) = []"
    by (simp_all add: demo_rename_def demo_library_def)
  show ?thesis
    using rename_item_atomic [OF run tree_demo item(1,2) _ item(3) _ names _ demo_file] rows by (auto simp: result_of_def)
qed

theorem rename_plan_sound_witness:
  "\<exists>plan. series_preview demo_formats ''/'' 2 (demo_library ''x.cbz'') = Inr (Some plan)
     \<and> {(ri_id i, ri_old i) | i. i \<in> set (rp_items plan) \<and> ri_volume i} = {(7, ''/lib/X/x.cbz'')}"
proof -
  let ?p = "series_preview demo_formats ''/'' 2 (demo_library ''x.cbz'')"
  have "\<not> isl ?p" "projr ?p \<noteq> None" by code_simp+
  then obtain plan where plan: "?p = Inr (Some plan)" by (metis option.exhaust sum.collapse(2))
  with rename_plan_sound [OF plan] show ?thesis by (auto simp: demo_library_def)
qed

end
