(* ===== verification/Grab_Backlog.thy ===== *)
theory Grab_Backlog
  imports Py_Number "HOL-Library.Product_Lexorder"
begin

text \<open>
  Backlog search for whole series (\<open>app/grab_backlog.py\<close>): the greedy choice of packs and the gaps
  left to single-volume searches. What \<open>parsing.py\<close> reads off a title (whether it matches a pattern,
  its volume range, its volume number, whether it is a complete pack) is a function of the title and
  an argument here; so are the answers of the indexers and of \<open>grab_item\<close>.
\<close>

subsection \<open>Packs\<close>

record release_item =
  gr_title :: string
  gr_url :: string
  gr_seeders :: int

record title_reader =
  tr_matches :: "string \<Rightarrow> string \<Rightarrow> bool"
  tr_complete :: "string \<Rightarrow> bool"
  tr_range :: "string \<Rightarrow> (rat \<times> rat) option"
  tr_volume :: "string \<Rightarrow> rat option"

definition in_range :: "rat \<times> rat \<Rightarrow> rat list \<Rightarrow> rat list" where
  "in_range rng vols = filter (\<lambda>v. fst rng \<le> v \<and> v \<le> snd rng) vols"

definition pack_cover :: "title_reader \<Rightarrow> rat list \<Rightarrow> release_item \<Rightarrow> rat list" where
  "pack_cover t missing item =
     (case tr_range t (gr_title item) of
        Some rng \<Rightarrow> in_range rng missing
      | None \<Rightarrow> if tr_complete t (gr_title item) then missing else [])"

definition wanted_title :: "title_reader \<Rightarrow> string list \<Rightarrow> release_item \<Rightarrow> bool" where
  "wanted_title t patterns item \<longleftrightarrow> list_ex (\<lambda>p. tr_matches t p (gr_title item)) patterns"

definition pack_candidates :: "title_reader \<Rightarrow> rat list \<Rightarrow> string list \<Rightarrow> release_item list \<Rightarrow> (release_item \<times> rat list) list" where
  "pack_candidates t missing patterns items =
     filter (\<lambda>(_, covered). covered \<noteq> [])
       (map (\<lambda>item. (item, pack_cover t missing item)) (filter (wanted_title t patterns) items))"

text \<open>\<open>sort(reverse=True)\<close> on (coverage, seeders) keeps the order of equal candidates.\<close>

definition pack_order :: "release_item \<times> rat list \<Rightarrow> int \<times> int" where
  "pack_order c = (- int (length (snd c)), - gr_seeders (fst c))"

fun choose_packs :: "rat list \<Rightarrow> rat list \<Rightarrow> (release_item \<times> rat list) list \<Rightarrow> (release_item \<times> rat list) list" where
  "choose_packs missing claimed [] = []"
| "choose_packs missing claimed ((item, covered) # rest) =
     (let newly = filter (\<lambda>v. v \<notin> set claimed) covered
      in if newly = [] then choose_packs missing claimed rest
         else (item, covered) # (if set missing \<subseteq> set (claimed @ newly) then [] else choose_packs missing (claimed @ newly) rest))"

definition select_covering_packs :: "title_reader \<Rightarrow> rat list \<Rightarrow> string list \<Rightarrow> release_item list \<Rightarrow> release_item list" where
  "select_covering_packs t missing patterns items =
     map fst (choose_packs missing [] (sort_key pack_order (pack_candidates t missing patterns items)))"

subsection \<open>Gaps\<close>

definition claimed_by_packs :: "title_reader \<Rightarrow> rat list \<Rightarrow> release_item list \<Rightarrow> rat list" where
  "claimed_by_packs t missing packs = filter (\<lambda>v. list_ex (\<lambda>p. v \<in> set (pack_cover t missing p)) packs) missing"

definition gap_volumes :: "title_reader \<Rightarrow> rat list \<Rightarrow> release_item list \<Rightarrow> rat list" where
  "gap_volumes t missing packs = take 10 (sort (filter (\<lambda>v. v \<notin> set (claimed_by_packs t missing packs)) missing))"

text \<open>The first release of a gap's search that matches a pattern and is of that volume.\<close>

definition gap_release :: "title_reader \<Rightarrow> string list \<Rightarrow> (string \<Rightarrow> bool) \<Rightarrow> rat \<Rightarrow> release_item list \<Rightarrow> release_item option" where
  "gap_release t patterns usable vol items =
     find (\<lambda>i. usable (gr_url i) \<and> wanted_title t patterns i
        \<and> (case tr_volume t (gr_title i) of None \<Rightarrow> False | Some v \<Rightarrow> \<bar>round_double (v - vol)\<bar> < round_double (2 / 100))) items"

text \<open>Results of several queries, each URL once.\<close>

fun add_results :: "release_item list \<Rightarrow> release_item list \<Rightarrow> release_item list" where
  "add_results found [] = found"
| "add_results found (i # is) = add_results (if gr_url i \<in> gr_url ` set found then found else found @ [i]) is"

definition search_results :: "release_item list list \<Rightarrow> release_item list" where
  "search_results answers = fold (\<lambda>a found. add_results found a) answers []"

text \<open>
  \<open>search_complete_pack\<close> after the title queries: \<open>usable\<close> leaves out seen and blocked releases, \<open>gap_items\<close>
  answers the query for one volume, \<open>grab\<close> is the outcome of \<open>grab_item\<close>.
\<close>

definition complete_pack_grabs ::
  "title_reader \<Rightarrow> (string \<Rightarrow> bool) \<Rightarrow> string list \<Rightarrow> rat list \<Rightarrow> release_item list list \<Rightarrow> (rat \<Rightarrow> release_item list)
     \<Rightarrow> release_item list \<times> release_item list" where
  "complete_pack_grabs t usable patterns missing answers gap_items =
     (let packs = select_covering_packs t missing patterns (filter (\<lambda>i. usable (gr_url i)) (search_results answers));
          gaps = gap_volumes t missing packs
      in (packs, List.map_filter (\<lambda>v. gap_release t patterns usable v (gap_items v)) gaps))"

definition grabbed_count :: "(release_item \<Rightarrow> bool) \<Rightarrow> release_item list \<times> release_item list \<Rightarrow> nat" where
  "grabbed_count grab plan = length (filter grab (fst plan)) + length (filter grab (snd plan))"

subsection \<open>The greedy choice\<close>

definition covered_by :: "(release_item \<times> rat list) list \<Rightarrow> rat set" where
  "covered_by cs = (\<Union>c \<in> set cs. set (snd c))"

lemma covered_by_simps [simp]: "covered_by [] = {}" "covered_by (c # cs) = set (snd c) \<union> covered_by cs"
  by (simp_all add: covered_by_def)

lemma choose_covers:
  assumes "\<forall>c \<in> set cs. set (snd c) \<subseteq> set missing" "set claimed \<subseteq> set missing"
  shows "covered_by (choose_packs missing claimed cs) \<union> set claimed = covered_by cs \<union> set claimed"
  using assms
proof (induction missing claimed cs rule: choose_packs.induct)
  case (2 missing claimed item covered rest)
  let ?newly = "filter (\<lambda>v. v \<notin> set claimed) covered"
  have sub: "covered_by rest \<subseteq> set missing" using "2.prems"(1) by (auto simp: covered_by_def)
  show ?case
  proof (cases "?newly = []")
    case True
    then have "set covered \<subseteq> set claimed" by (auto simp: filter_empty_conv)
    with True "2.IH"(1) [OF refl True] "2.prems" show ?thesis by auto
  next
    case False
    show ?thesis
    proof (cases "set missing \<subseteq> set (claimed @ ?newly)")
      case True
      with False sub "2.prems" show ?thesis by (simp add: Let_def) blast
    next
      case more: False
      have "covered_by (choose_packs missing (claimed @ ?newly) rest) \<union> set (claimed @ ?newly) = covered_by rest \<union> set (claimed @ ?newly)"
        by (rule "2.IH"(2) [OF refl False more]) (use "2.prems" in auto)
      with False more show ?thesis by (simp add: Let_def) blast
    qed
  qed
qed simp

lemma choose_subset: "set (choose_packs missing claimed cs) \<subseteq> set cs"
  by (induction missing claimed cs rule: choose_packs.induct) (auto simp: Let_def)

text \<open>Every chosen pack brings a volume no earlier one brought.\<close>

lemma choose_fresh:
  "choose_packs missing claimed cs = xs @ c # ys \<Longrightarrow> \<not> set (snd c) \<subseteq> set claimed \<union> covered_by xs"
proof (induction missing claimed cs arbitrary: xs rule: choose_packs.induct)
  case (2 missing claimed item covered rest)
  let ?newly = "filter (\<lambda>v. v \<notin> set claimed) covered"
  show ?case
  proof (cases "?newly = []")
    case True
    with "2.IH"(1) [OF refl True] "2.prems" show ?thesis by simp
  next
    case False
    show ?thesis
    proof (cases xs)
      case Nil
      with "2.prems" False have "c = (item, covered)" by (simp add: Let_def)
      with False Nil show ?thesis by (auto simp: filter_empty_conv)
    next
      case (Cons x xs')
      with "2.prems" False have more: "\<not> set missing \<subseteq> set (claimed @ ?newly)" "x = (item, covered)"
          "choose_packs missing (claimed @ ?newly) rest = xs' @ c # ys"
        by (auto simp: Let_def split: if_splits)
      with "2.IH"(2) [OF refl False more(1,3)] Cons show ?thesis by auto
    qed
  qed
qed simp

lemma candidates_cover: "c \<in> set (pack_candidates t missing patterns items) \<Longrightarrow> set (snd c) \<subseteq> set missing"
  by (auto simp: pack_candidates_def pack_cover_def in_range_def split: option.splits if_splits)

lemma candidate_item: "c \<in> set (pack_candidates t missing patterns items)
    \<longleftrightarrow> fst c \<in> set items \<and> wanted_title t patterns (fst c) \<and> snd c = pack_cover t missing (fst c) \<and> snd c \<noteq> []"
  by (cases c) (auto simp: pack_candidates_def image_iff)

text \<open>
  C28: The choice of packs loses nothing and wastes nothing: the chosen packs together cover every
  missing volume that any matching pack covers, each covers a volume no pack chosen before it does,
  so there are never more packs than missing volumes, and a volume is left to a single-volume search
  only when no matching pack has it.
\<close>

theorem covering_packs_optimal:
  assumes "packs = select_covering_packs t missing patterns items" "distinct missing"
  shows "(\<Union>p \<in> set packs. set (pack_cover t missing p)) = (\<Union>i \<in> {i \<in> set items. wanted_title t patterns i}. set (pack_cover t missing i))
    \<and> (\<forall>xs p ys. packs = xs @ p # ys \<longrightarrow> \<not> set (pack_cover t missing p) \<subseteq> (\<Union>q \<in> set xs. set (pack_cover t missing q)))
    \<and> length packs \<le> length missing
    \<and> (\<forall>v \<in> set (gap_volumes t missing packs). v \<in> set missing \<and> (\<forall>i \<in> set items. wanted_title t patterns i \<longrightarrow> v \<notin> set (pack_cover t missing i)))"
proof -
  let ?cs = "sort_key pack_order (pack_candidates t missing patterns items)"
  let ?chosen = "choose_packs missing [] ?cs"
  let ?cover = "pack_cover t missing"
  have packs: "packs = map fst ?chosen" using assms(1) by (simp add: select_covering_packs_def)
  have snd_cover: "snd c = ?cover (fst c)" if "c \<in> set ?chosen" for c
    using that choose_subset [of missing "[]" ?cs] candidate_item [of c t missing patterns items] by auto
  have union: "covered_by xs = (\<Union>p \<in> set (map fst xs). set (?cover p))" if "set xs \<subseteq> set ?chosen" for xs
  proof -
    have "snd c = ?cover (fst c)" if "c \<in> set xs" for c using that \<open>set xs \<subseteq> set ?chosen\<close> snd_cover by blast
    then show ?thesis by (simp add: covered_by_def)
  qed
  have all: "covered_by ?cs = (\<Union>i \<in> {i \<in> set items. wanted_title t patterns i}. set (?cover i))" (is "_ = ?all")
  proof
    show "covered_by ?cs \<subseteq> ?all" using candidate_item [of _ t missing patterns items] by (fastforce simp: covered_by_def)
    show "?all \<subseteq> covered_by ?cs"
    proof
      fix v
      assume "v \<in> ?all"
      then obtain i where i: "i \<in> set items" "wanted_title t patterns i" "v \<in> set (?cover i)" by auto
      then have "?cover i \<noteq> []" by (cases "?cover i") auto
      with i have "(i, ?cover i) \<in> set ?cs" using candidate_item [of "(i, ?cover i)" t missing patterns items] by simp
      with i(3) show "v \<in> covered_by ?cs" by (force simp: covered_by_def)
    qed
  qed
  have "covered_by ?chosen = covered_by ?cs"
    using choose_covers [of ?cs missing "[]"] candidates_cover [of _ t missing patterns items] by auto
  with union [of ?chosen] all have same: "(\<Union>p \<in> set packs. set (?cover p)) = ?all" by (simp add: packs)
  have fresh: "\<not> set (?cover p) \<subseteq> (\<Union>q \<in> set xs. set (?cover q))" if split: "packs = xs @ p # ys" for xs p ys
  proof -
    obtain us c vs where c: "?chosen = us @ c # vs" "xs = map fst us" "p = fst c"
      using split unfolding packs by (auto simp: map_eq_append_conv)
    then have us: "set us \<subseteq> set ?chosen" "c \<in> set ?chosen" by auto
    from choose_fresh [OF c(1)] have "\<not> set (?cover p) \<subseteq> covered_by us" using snd_cover [OF us(2)] c(3) by simp
    then show ?thesis unfolding union [OF us(1)] c(2) .
  qed
  have count: "length ps \<le> card (\<Union>p \<in> set ps. set (?cover p))" if "\<forall>xs p ys. ps = xs @ p # ys \<longrightarrow> \<not> set (?cover p) \<subseteq> (\<Union>q \<in> set xs. set (?cover q))" for ps
    using that
  proof (induction ps rule: rev_induct)
    case (snoc p ps)
    have "\<forall>xs q ys. ps = xs @ q # ys \<longrightarrow> \<not> set (?cover q) \<subseteq> (\<Union>r \<in> set xs. set (?cover r))" using snoc.prems by auto
    with snoc.IH have le: "length ps \<le> card (\<Union>q \<in> set ps. set (?cover q))" by blast
    have "(\<Union>q \<in> set ps. set (?cover q)) \<subset> (\<Union>q \<in> set (ps @ [p]). set (?cover q))" using snoc.prems by fastforce
    from psubset_card_mono [OF _ this] le show ?case by simp
  qed simp
  have inside: "(\<Union>p \<in> set packs. set (?cover p)) \<subseteq> set missing"
    by (auto simp: pack_cover_def in_range_def split: option.splits if_splits)
  have "length packs \<le> card (\<Union>p \<in> set packs. set (?cover p))" by (rule count) (use fresh in blast)
  also have "\<dots> \<le> card (set missing)" using inside by (intro card_mono) auto
  also have "\<dots> = length missing" using assms(2) by (rule distinct_card)
  finally have few: "length packs \<le> length missing" .
  have gaps: "v \<in> set missing \<and> (\<forall>i \<in> set items. wanted_title t patterns i \<longrightarrow> v \<notin> set (?cover i))"
    if "v \<in> set (gap_volumes t missing packs)" for v
  proof -
    have v: "v \<in> set missing" "\<forall>p \<in> set packs. v \<notin> set (?cover p)"
      using that set_take_subset [of 10 "sort (filter (\<lambda>v. v \<notin> set (claimed_by_packs t missing packs)) missing)"]
      by (auto simp: gap_volumes_def claimed_by_packs_def list_ex_iff)
    then have "v \<notin> ?all" unfolding same [symmetric] by auto
    with v(1) show ?thesis by auto
  qed
  show ?thesis
  proof (intro conjI allI impI ballI)
    show "(\<Union>p \<in> set packs. set (?cover p)) = ?all" by (rule same)
    show "length packs \<le> length missing" by (rule few)
    show "\<not> set (?cover p) \<subseteq> (\<Union>q \<in> set xs. set (?cover q))" if "packs = xs @ p # ys" for xs p ys using that by (rule fresh)
    show "v \<in> set missing" if "v \<in> set (gap_volumes t missing packs)" for v using gaps [OF that] by (rule conjunct1)
    show "v \<notin> set (?cover i)" if "v \<in> set (gap_volumes t missing packs)" "i \<in> set items" "wanted_title t patterns i" for v i
      using gaps [OF that(1)] that(2,3) by simp
  qed
qed

definition demo_reader :: title_reader where
  "demo_reader = \<lparr>tr_matches = (\<lambda>p s. True), tr_complete = (\<lambda>s. s = ''all''),
     tr_range = (\<lambda>s. if s = ''v1-3'' then Some (1, 3) else if s = ''v3-4'' then Some (3, 4) else if s = ''v2-3'' then Some (2, 3) else None),
     tr_volume = (\<lambda>s. None)\<rparr>"

definition demo_releases :: "release_item list" where
  "demo_releases = [\<lparr>gr_title = ''v2-3'', gr_url = ''a'', gr_seeders = 9\<rparr>, \<lparr>gr_title = ''v3-4'', gr_url = ''b'', gr_seeders = 5\<rparr>,
     \<lparr>gr_title = ''v1-3'', gr_url = ''c'', gr_seeders = 0\<rparr>]"

theorem covering_packs_optimal_witness:
  "(\<Union>p \<in> set (select_covering_packs demo_reader [1, 2, 3, 4, 5] [''X''] demo_releases). set (pack_cover demo_reader [1, 2, 3, 4, 5] p))
     = (\<Union>i \<in> {i \<in> set demo_releases. wanted_title demo_reader [''X''] i}. set (pack_cover demo_reader [1, 2, 3, 4, 5] i))
   \<and> length (select_covering_packs demo_reader [1, 2, 3, 4, 5] [''X''] demo_releases) \<le> length [1 :: rat, 2, 3, 4, 5]"
proof -
  have "distinct [1 :: rat, 2, 3, 4, 5]" by simp
  from covering_packs_optimal [OF refl this, of demo_reader "[''X'']" demo_releases] show ?thesis by blast
qed

text \<open>The packs may overlap: one that brings a single new volume is chosen though it repeats another.\<close>

lemma packs_may_overlap:
  "map gr_title (select_covering_packs demo_reader [1, 2, 3, 4] [''X''] demo_releases) = [''v1-3'', ''v3-4'']
   \<and> 3 \<in> set (pack_cover demo_reader [1, 2, 3, 4] \<lparr>gr_title = ''v1-3'', gr_url = ''c'', gr_seeders = 0\<rparr>)
   \<and> 3 \<in> set (pack_cover demo_reader [1, 2, 3, 4] \<lparr>gr_title = ''v3-4'', gr_url = ''b'', gr_seeders = 5\<rparr>)"
  by code_simp

end
