(* ===== verification/Import_Workers.thy ===== *)
theory Import_Workers
  imports Manga_Prelude
begin

text \<open>
  Process-local ownership of import workers (\<open>app/import_workers.py\<close>): one asyncio task per queue id.
  The event loop runs between the calls: a task ends at any time, its done callback runs later, and
  the calls come in any order. \<open>wk_workers\<close> is \<open>_IMPORT_WORKERS\<close>, \<open>wk_tasks\<close> every task ever created.
\<close>

datatype task_phase = Running | Cancelling | Ended | Reaped

record worker_task =
  wt_id :: nat
  wt_queue :: int
  wt_phase :: task_phase

record workers =
  wk_accepting :: bool
  wk_workers :: "(int \<times> nat) list"
  wk_tasks :: "worker_task list"

definition task_done :: "worker_task \<Rightarrow> bool" where
  "task_done t \<longleftrightarrow> wt_phase t = Ended \<or> wt_phase t = Reaped"

definition find_task :: "nat \<Rightarrow> workers \<Rightarrow> worker_task option" where
  "find_task i s = find (\<lambda>t. wt_id t = i) (wk_tasks s)"

definition set_phase :: "nat \<Rightarrow> task_phase \<Rightarrow> workers \<Rightarrow> workers" where
  "set_phase i ph s = s\<lparr>wk_tasks := map (\<lambda>t. if wt_id t = i then t\<lparr>wt_phase := ph\<rparr> else t) (wk_tasks s)\<rparr>"

definition put_worker :: "int \<Rightarrow> nat \<Rightarrow> (int \<times> nat) list \<Rightarrow> (int \<times> nat) list" where
  "put_worker q i ws =
     (if q \<in> fst ` set ws then map (\<lambda>(k, v). (k, if k = q then i else v)) ws else ws @ [(q, i)])"

text \<open>\<open>None\<close>: \<open>RuntimeError\<close>.\<close>

definition start_import_worker_scheduling :: "workers \<Rightarrow> workers option" where
  "start_import_worker_scheduling s = (if wk_workers s \<noteq> [] then None else Some (s\<lparr>wk_accepting := True\<rparr>))"

definition stop_import_worker_scheduling :: "workers \<Rightarrow> workers" where
  "stop_import_worker_scheduling s = s\<lparr>wk_accepting := False\<rparr>"

definition schedule_import_worker :: "int \<Rightarrow> workers \<Rightarrow> nat option \<times> workers" where
  "schedule_import_worker q s =
     (if \<not> wk_accepting s then (None, s)
      else
        case (case map_of (wk_workers s) q of None \<Rightarrow> None | Some i \<Rightarrow> find_task i s) of
          Some t \<Rightarrow> if \<not> task_done t then (Some (wt_id t), s)
            else (let i = length (wk_tasks s)
              in (Some i, s\<lparr>wk_workers := put_worker q i (wk_workers s), wk_tasks := wk_tasks s @ [\<lparr>wt_id = i, wt_queue = q, wt_phase = Running\<rparr>]\<rparr>))
        | None \<Rightarrow> (let i = length (wk_tasks s)
              in (Some i, s\<lparr>wk_workers := put_worker q i (wk_workers s), wk_tasks := wk_tasks s @ [\<lparr>wt_id = i, wt_queue = q, wt_phase = Running\<rparr>]\<rparr>)))"

definition on_import_worker_done :: "int \<Rightarrow> nat \<Rightarrow> workers \<Rightarrow> workers" where
  "on_import_worker_done q i s =
     (if map_of (wk_workers s) q = Some i then s\<lparr>wk_workers := filter (\<lambda>(k, _). k \<noteq> q) (wk_workers s)\<rparr> else s)"

text \<open>\<open>cancel_import_workers\<close> asks every registered task to stop, then waits for them.\<close>

definition cancel_requests :: "workers \<Rightarrow> workers" where
  "cancel_requests s = s\<lparr>wk_tasks :=
     map (\<lambda>t. if wt_id t \<in> snd ` set (wk_workers s) \<and> wt_phase t = Running then t\<lparr>wt_phase := Cancelling\<rparr> else t) (wk_tasks s)\<rparr>"

definition gather_done :: "nat list \<Rightarrow> workers \<Rightarrow> bool" where
  "gather_done ids s \<longleftrightarrow> list_all (\<lambda>i. case find_task i s of None \<Rightarrow> True | Some t \<Rightarrow> task_done t) ids"

subsection \<open>Interleavings\<close>

datatype worker_event = Start | Stop | Schedule int "nat option" | TaskEnds nat | Callback nat | CancelAll

inductive worker_step :: "workers \<Rightarrow> worker_event \<Rightarrow> workers \<Rightarrow> bool" where
  start: "start_import_worker_scheduling s = Some s' \<Longrightarrow> worker_step s Start s'"
| stop: "worker_step s Stop (stop_import_worker_scheduling s)"
| schedule: "schedule_import_worker q s = (r, s') \<Longrightarrow> worker_step s (Schedule q r) s'"
| ends: "find_task i s = Some t \<Longrightarrow> \<not> task_done t \<Longrightarrow> worker_step s (TaskEnds i) (set_phase i Ended s)"
| callback: "find_task i s = Some t \<Longrightarrow> wt_phase t = Ended
    \<Longrightarrow> worker_step s (Callback i) (on_import_worker_done (wt_queue t) i (set_phase i Reaped s))"
| cancel: "worker_step s CancelAll (cancel_requests s)"

inductive_cases worker_step_cases: "worker_step s e s'"
inductive_simps worker_step_simps:
  "worker_step s Start s'" "worker_step s Stop s'" "worker_step s (Schedule q r) s'" "worker_step s (TaskEnds i) s'"
  "worker_step s (Callback i) s'" "worker_step s CancelAll s'"

code_pred (modes: i \<Rightarrow> i \<Rightarrow> o \<Rightarrow> bool) worker_step .

inductive worker_run :: "workers \<Rightarrow> worker_event list \<Rightarrow> workers \<Rightarrow> bool" where
  none: "worker_run s [] s"
| more: "worker_step s e s' \<Longrightarrow> worker_run s' es s'' \<Longrightarrow> worker_run s (e # es) s''"

inductive_cases worker_run_cases: "worker_run s (e # es) s'"

definition fresh_workers :: workers where
  "fresh_workers = \<lparr>wk_accepting = False, wk_workers = [], wk_tasks = []\<rparr>"

subsection \<open>The invariant\<close>

definition workers_ok :: "workers \<Rightarrow> bool" where
  "workers_ok s \<longleftrightarrow>
     map wt_id (wk_tasks s) = [0..<length (wk_tasks s)] \<and> distinct (map fst (wk_workers s))
     \<and> (\<forall>q i. map_of (wk_workers s) q = Some i \<longrightarrow> (\<exists>t. find_task i s = Some t \<and> wt_queue t = q \<and> wt_phase t \<noteq> Reaped))
     \<and> (\<forall>i t. find_task i s = Some t \<longrightarrow> \<not> task_done t \<longrightarrow> map_of (wk_workers s) (wt_queue t) = Some i)"

lemma registered:
  assumes "workers_ok s" "map_of (wk_workers s) q = Some i"
  obtains t where "find_task i s = Some t" "wt_queue t = q" "wt_phase t \<noteq> Reaped"
  using assms unfolding workers_ok_def by blast

lemma live_registered: "workers_ok s \<Longrightarrow> find_task i s = Some t \<Longrightarrow> \<not> task_done t \<Longrightarrow> map_of (wk_workers s) (wt_queue t) = Some i"
  unfolding workers_ok_def by blast

lemma find_task_nth:
  assumes "map wt_id (wk_tasks s) = [0..<length (wk_tasks s)]"
  shows "find_task i s = (if i < length (wk_tasks s) then Some (wk_tasks s ! i) else None)"
proof -
  have ids: "wt_id (wk_tasks s ! k) = k" if "k < length (wk_tasks s)" for k
    using that assms by (metis add_0 length_map nth_map nth_upt)
  show ?thesis
  proof (cases "i < length (wk_tasks s)")
    case True
    then have "find (\<lambda>t. wt_id t = i) (wk_tasks s) = Some (wk_tasks s ! i)"
      by (intro iffD2 [OF find_Some_iff] exI [of _ i]) (auto simp: ids)
    with True show ?thesis by (simp add: find_task_def)
  next
    case False
    then have "find (\<lambda>t. wt_id t = i) (wk_tasks s) = None"
      by (auto simp: find_None_iff in_set_conv_nth ids)
    with False show ?thesis by (simp add: find_task_def)
  qed
qed

lemma find_task_id: "find_task i s = Some t \<Longrightarrow> wt_id t = i"
  by (auto simp: find_task_def find_Some_iff)

lemma find_map: "(\<And>t. wt_id (g t) = wt_id t) \<Longrightarrow> find (\<lambda>t. wt_id t = i) (map g ts) = map_option g (find (\<lambda>t. wt_id t = i) ts)"
  by (induction ts) auto

lemma find_set_phase [simp]: "find_task j (set_phase i ph s) = map_option (\<lambda>t. if j = i then t\<lparr>wt_phase := ph\<rparr> else t) (find_task j s)"
  using find_task_id [of j s] by (cases "find_task j s") (simp_all add: set_phase_def find_task_def find_map)

lemma find_cancel [simp]:
  "find_task j (cancel_requests s) =
     map_option (\<lambda>t. if j \<in> snd ` set (wk_workers s) \<and> wt_phase t = Running then t\<lparr>wt_phase := Cancelling\<rparr> else t) (find_task j s)"
  using find_task_id [of j s] by (cases "find_task j s") (simp_all add: cancel_requests_def find_task_def find_map)

lemma map_of_put: "distinct (map fst ws) \<Longrightarrow> map_of (put_worker q i ws) k = (if k = q then Some i else map_of ws k)"
proof -
  have "map_of (map (\<lambda>(k, v). (k, if k = q then i else v)) xs) k = (if k = q \<and> q \<in> fst ` set xs then Some i else map_of xs k)" for xs
    by (induction xs) force+
  moreover have "q \<notin> fst ` set ws \<Longrightarrow> map_of ws q = None" by (simp add: map_of_eq_None_iff)
  ultimately show ?thesis by (cases "q \<in> fst ` set ws") (simp_all add: put_worker_def map_add_def split: option.splits)
qed

lemma distinct_put: "distinct (map fst ws) \<Longrightarrow> distinct (map fst (put_worker q i ws))"
proof -
  have "map fst (map (\<lambda>(k, v). (k, if k = q then i else v)) ws) = map fst ws" by auto
  then show "distinct (map fst ws) \<Longrightarrow> distinct (map fst (put_worker q i ws))" by (auto simp: put_worker_def simp del: map_map)
qed

lemma map_of_drop: "map_of (filter (\<lambda>(k, _). k \<noteq> q) ws) k = (if k = q then None else map_of ws k)"
  by (induction ws) auto

lemma distinct_drop: "distinct (map fst ws) \<Longrightarrow> distinct (map fst (filter (\<lambda>(k, _). k \<noteq> q) ws))"
  by (induction ws) auto

text \<open>A new task takes the key only when the key's task, if any, is done.\<close>

definition spawn :: "int \<Rightarrow> workers \<Rightarrow> workers" where
  "spawn q s = s\<lparr>wk_workers := put_worker q (length (wk_tasks s)) (wk_workers s),
     wk_tasks := wk_tasks s @ [\<lparr>wt_id = length (wk_tasks s), wt_queue = q, wt_phase = Running\<rparr>]\<rparr>"

lemma schedule_cases:
  assumes "schedule_import_worker q s = (r, s')"
  obtains (Kept) "s' = s" "r = None \<Longrightarrow> \<not> wk_accepting s"
      "\<And>i. r = Some i \<Longrightarrow> wk_accepting s \<and> map_of (wk_workers s) q = Some i \<and> (\<exists>t. find_task i s = Some t \<and> \<not> task_done t)"
  | (Spawned) "s' = spawn q s" "r = Some (length (wk_tasks s))" "wk_accepting s"
      "\<And>i t. map_of (wk_workers s) q = Some i \<Longrightarrow> find_task i s = Some t \<Longrightarrow> task_done t"
  using assms find_task_id [of _ s]
  by (fastforce simp: schedule_import_worker_def spawn_def Let_def split: if_splits option.splits)

lemma workers_ok_spawn:
  assumes ok: "workers_ok s" and free: "\<And>i t. map_of (wk_workers s) q = Some i \<Longrightarrow> find_task i s = Some t \<Longrightarrow> task_done t"
  shows "workers_ok (spawn q s)"
proof -
  let ?n = "length (wk_tasks s)"
  have ids: "map wt_id (wk_tasks s) = [0..<?n]" and dist: "distinct (map fst (wk_workers s))" using ok by (auto simp: workers_ok_def)
  have ids': "map wt_id (wk_tasks (spawn q s)) = [0..<length (wk_tasks (spawn q s))]" using ids by (simp add: spawn_def)
  have find: "find_task i (spawn q s) = (if i = ?n then Some \<lparr>wt_id = ?n, wt_queue = q, wt_phase = Running\<rparr> else find_task i s)" for i
    unfolding find_task_nth [OF ids'] find_task_nth [OF ids] by (auto simp: spawn_def nth_append)
  have none: "find_task ?n s = None" using find_task_nth [OF ids] by simp
  have map: "map_of (wk_workers (spawn q s)) k = (if k = q then Some ?n else map_of (wk_workers s) k)" for k
    by (simp add: spawn_def map_of_put [OF dist])
  show ?thesis
    unfolding workers_ok_def
  proof (intro conjI allI impI)
    show "map wt_id (wk_tasks (spawn q s)) = [0..<length (wk_tasks (spawn q s))]" by (rule ids')
    show "distinct (map fst (wk_workers (spawn q s)))" using distinct_put [OF dist] by (simp add: spawn_def)
    show "\<exists>t. find_task i (spawn q s) = Some t \<and> wt_queue t = k \<and> wt_phase t \<noteq> Reaped" if "map_of (wk_workers (spawn q s)) k = Some i" for k i
    proof (cases "k = q")
      case False
      with that map have "map_of (wk_workers s) k = Some i" by simp
      with ok obtain t where "find_task i s = Some t" "wt_queue t = k" "wt_phase t \<noteq> Reaped" by (rule registered)
      with none find show ?thesis by (cases "i = ?n") auto
    qed (use that map find in auto)
    show "map_of (wk_workers (spawn q s)) (wt_queue t) = Some i" if "find_task i (spawn q s) = Some t" "\<not> task_done t" for i t
    proof (cases "i = ?n")
      case True
      with that map find show ?thesis by auto
    next
      case False
      with that(1) find have t: "find_task i s = Some t" by simp
      note reg = live_registered [OF ok t that(2)]
      with free [OF _ t] that(2) have "wt_queue t \<noteq> q" by blast
      with reg map show ?thesis by simp
    qed
  qed
qed

lemma set_phase_simps [simp]:
  "wk_workers (set_phase i ph s) = wk_workers s" "map wt_id (wk_tasks (set_phase i ph s)) = map wt_id (wk_tasks s)"
  "length (wk_tasks (set_phase i ph s)) = length (wk_tasks s)"
  by (auto simp: set_phase_def)

lemma cancel_simps [simp]:
  "wk_workers (cancel_requests s) = wk_workers s" "map wt_id (wk_tasks (cancel_requests s)) = map wt_id (wk_tasks s)"
  "length (wk_tasks (cancel_requests s)) = length (wk_tasks s)"
  by (auto simp: cancel_requests_def)

lemma done_simps [simp]:
  "wk_tasks (on_import_worker_done q i s) = wk_tasks s" "find_task j (on_import_worker_done q i s) = find_task j s"
  by (simp_all add: on_import_worker_done_def find_task_def)

text \<open>Phases may only move towards done, and a registered task may not be reaped.\<close>

lemma workers_ok_phases:
  assumes ok: "workers_ok s" and ids: "map wt_id (wk_tasks s') = map wt_id (wk_tasks s)" "wk_workers s' = wk_workers s"
    and find: "\<And>i. find_task i s' = map_option (h i) (find_task i s)"
    and h: "\<And>i t. wt_queue (h i t) = wt_queue t" "\<And>i t. task_done t \<Longrightarrow> task_done (h i t)"
      "\<And>i t. find_task i s = Some t \<Longrightarrow> wt_phase t \<noteq> Reaped \<Longrightarrow> wt_phase (h i t) \<noteq> Reaped"
  shows "workers_ok s'"
  unfolding workers_ok_def ids
proof (intro conjI allI impI)
  have "length (wk_tasks s') = length (wk_tasks s)" using ids(1) map_eq_imp_length_eq by blast
  then show "map wt_id (wk_tasks s) = [0..<length (wk_tasks s')]" "distinct (map fst (wk_workers s))" using ok by (simp_all add: workers_ok_def)
  show "\<exists>t. find_task i s' = Some t \<and> wt_queue t = q \<and> wt_phase t \<noteq> Reaped" if reg: "map_of (wk_workers s) q = Some i" for q i
  proof -
    obtain t where "find_task i s = Some t" "wt_queue t = q" "wt_phase t \<noteq> Reaped" using ok reg by (rule registered)
    then show ?thesis using find h by auto
  qed
  show "map_of (wk_workers s) (wt_queue t) = Some i" if live: "find_task i s' = Some t" "\<not> task_done t" for i t
  proof -
    obtain u where "find_task i s = Some u" "t = h i u" using live(1) find by auto
    then show ?thesis using live_registered [OF ok, of i u] live(2) h(1,2) by auto
  qed
qed

lemma workers_ok_callback:
  assumes ok: "workers_ok s" and t: "find_task i s = Some t" "wt_phase t = Ended"
  shows "workers_ok (on_import_worker_done (wt_queue t) i (set_phase i Reaped s))"
proof -
  let ?s = "on_import_worker_done (wt_queue t) i (set_phase i Reaped s)"
  have dist: "distinct (map fst (wk_workers s))" using ok by (simp add: workers_ok_def)
  have map: "map_of (wk_workers ?s) q = (if q = wt_queue t \<and> map_of (wk_workers s) q = Some i then None else map_of (wk_workers s) q)" for q
    by (auto simp: on_import_worker_done_def map_of_drop)
  have reg: "\<exists>u. find_task j ?s = Some u \<and> wt_queue u = q \<and> wt_phase u \<noteq> Reaped" if m: "map_of (wk_workers ?s) q = Some j" for q j
  proof -
    have "map_of (wk_workers s) q = Some j" using m map by (simp split: if_splits)
    with ok obtain u where u: "find_task j s = Some u" "wt_queue u = q" "wt_phase u \<noteq> Reaped" by (rule registered)
    moreover have "j \<noteq> i" using u t(1) m map [of q] by (auto split: if_splits)
    ultimately show ?thesis by simp
  qed
  have live: "map_of (wk_workers ?s) (wt_queue u) = Some j" if u: "find_task j ?s = Some u" "\<not> task_done u" for j u
  proof -
    have "j \<noteq> i" using u t by (auto simp: task_done_def)
    with u have "find_task j s = Some u" by simp
    with u(2) ok have "map_of (wk_workers s) (wt_queue u) = Some j" unfolding workers_ok_def by blast
    with \<open>j \<noteq> i\<close> show ?thesis using map by simp
  qed
  have "distinct (map fst (wk_workers ?s))" using distinct_drop [OF dist, of "wt_queue t"] dist
    by (simp add: on_import_worker_done_def del: map_of_eq_Some_iff)
  with ok reg live show ?thesis unfolding workers_ok_def by simp
qed

lemma workers_ok_step: "worker_step s e s' \<Longrightarrow> workers_ok s \<Longrightarrow> workers_ok s'"
proof (induction rule: worker_step.induct)
  case (start s s')
  then show ?case by (auto simp: start_import_worker_scheduling_def workers_ok_def find_task_def split: if_splits)
next
  case (stop s)
  then show ?case by (simp add: stop_import_worker_scheduling_def workers_ok_def find_task_def)
next
  case (schedule q s r s')
  show ?case using schedule(1)
  proof (cases rule: schedule_cases)
    case Kept
    with schedule(2) show ?thesis by simp
  next
    case Spawned
    then show ?thesis using workers_ok_spawn [OF schedule(2)] by blast
  qed
next
  case (ends i s t)
  show ?case
    by (rule workers_ok_phases [OF ends(3), where h = "\<lambda>j t. if j = i then t\<lparr>wt_phase := Ended\<rparr> else t"]) (auto simp: task_done_def)
next
  case (callback i s t)
  then show ?case using workers_ok_callback by blast
next
  case (cancel s)
  show ?case
    by (rule workers_ok_phases [OF cancel, where h = "\<lambda>j t. if j \<in> snd ` set (wk_workers s) \<and> wt_phase t = Running then t\<lparr>wt_phase := Cancelling\<rparr> else t"])
      (auto simp: task_done_def)
qed

lemma workers_ok_run: "worker_run s es s' \<Longrightarrow> workers_ok s \<Longrightarrow> workers_ok s'"
  by (induction rule: worker_run.induct) (auto dest: workers_ok_step)

lemma workers_ok_fresh: "workers_ok fresh_workers"
  by (simp add: workers_ok_def fresh_workers_def find_task_def)

text \<open>
  C29: At most one worker of a queue row is live, however calls, task ends and done callbacks interleave:
  two live tasks of one queue id are the same task, a live task is the one its key names, so a late
  callback of an earlier task never unregisters it; and when the callbacks of all tasks have run no
  worker is registered, so the next application lifespan can start.
\<close>

theorem import_workers_exclusive:
  assumes "worker_run fresh_workers es s"
  shows "(\<forall>t \<in> set (wk_tasks s). \<not> task_done t \<longrightarrow> map_of (wk_workers s) (wt_queue t) = Some (wt_id t))
    \<and> (\<forall>t \<in> set (wk_tasks s). \<forall>u \<in> set (wk_tasks s). \<not> task_done t \<longrightarrow> \<not> task_done u \<longrightarrow> wt_queue t = wt_queue u \<longrightarrow> t = u)
    \<and> ((\<forall>t \<in> set (wk_tasks s). wt_phase t = Reaped) \<longrightarrow> start_import_worker_scheduling s = Some (s\<lparr>wk_accepting := True\<rparr>))"
proof -
  have ok: "workers_ok s" using workers_ok_run [OF assms workers_ok_fresh] .
  then have ids: "map wt_id (wk_tasks s) = [0..<length (wk_tasks s)]" by (simp add: workers_ok_def)
  have find: "find_task (wt_id t) s = Some t" if t: "t \<in> set (wk_tasks s)" for t
  proof -
    obtain k where k: "k < length (wk_tasks s)" "t = wk_tasks s ! k" using t by (auto simp: in_set_conv_nth)
    then have "wt_id t = k" using ids by (metis add_0 length_map nth_map nth_upt)
    then show ?thesis using find_task_nth [OF ids] k by simp
  qed
  have live: "map_of (wk_workers s) (wt_queue t) = Some (wt_id t)" if "t \<in> set (wk_tasks s)" "\<not> task_done t" for t
    using live_registered [OF ok find [OF that(1)] that(2)] .
  have same: "t = u" if "t \<in> set (wk_tasks s)" "u \<in> set (wk_tasks s)" "\<not> task_done t" "\<not> task_done u" "wt_queue t = wt_queue u" for t u
  proof -
    have "wt_id t = wt_id u" using live [OF that(1,3)] live [OF that(2,4)] that(5) by simp
    then show ?thesis using find [OF that(1)] find [OF that(2)] by (metis option.inject)
  qed
  have empty: "wk_workers s = []" if all: "\<forall>t \<in> set (wk_tasks s). wt_phase t = Reaped"
  proof (rule ccontr)
    assume "wk_workers s \<noteq> []"
    then obtain q i ws where "wk_workers s = (q, i) # ws" by (cases "wk_workers s") auto
    then have "map_of (wk_workers s) q = Some i" by simp
    with ok obtain t where "find_task i s = Some t" "wt_phase t \<noteq> Reaped" by (rule registered)
    with all show False by (auto simp: find_task_def find_Some_iff)
  qed
  show ?thesis
  proof (intro conjI ballI impI)
    show "start_import_worker_scheduling s = Some (s\<lparr>wk_accepting := True\<rparr>)" if "\<forall>t \<in> set (wk_tasks s). wt_phase t = Reaped"
      using empty [OF that] by (simp add: start_import_worker_scheduling_def)
  qed (fact live, fact same)
qed

text \<open>Stopping closes admission: no task is created until scheduling is started again.\<close>

lemma stopped_step: "worker_step s e s' \<Longrightarrow> \<not> wk_accepting s \<Longrightarrow> e \<noteq> Start \<Longrightarrow> \<not> wk_accepting s' \<and> length (wk_tasks s') = length (wk_tasks s)"
  by (induction rule: worker_step.induct)
    (auto simp: stop_import_worker_scheduling_def set_phase_def on_import_worker_done_def cancel_requests_def schedule_import_worker_def)

text \<open>
  Once scheduling has stopped, no import worker is created before it is started again, whatever is
  scheduled, ends or is cancelled in between.
\<close>

theorem stopped_admits_nothing:
  assumes "worker_run (stop_import_worker_scheduling s) es s'" "Start \<notin> set es"
  shows "length (wk_tasks s') = length (wk_tasks s) \<and> (\<forall>q. schedule_import_worker q s' = (None, s'))"
proof -
  have "worker_run r es s' \<Longrightarrow> \<not> wk_accepting r \<Longrightarrow> Start \<notin> set es \<Longrightarrow> \<not> wk_accepting s' \<and> length (wk_tasks s') = length (wk_tasks r)" for r es s'
    by (induction rule: worker_run.induct) (auto dest: stopped_step)
  from this [OF assms(1) _ assms(2)] have "\<not> wk_accepting s'" "length (wk_tasks s') = length (wk_tasks s)"
    by (simp_all add: stop_import_worker_scheduling_def)
  then show ?thesis by (simp add: schedule_import_worker_def)
qed

theorem import_workers_exclusive_witness:
  "\<exists>s. worker_run fresh_workers [Start, Schedule 4 (Some 0), TaskEnds 0, Schedule 4 (Some 1), Callback 0, Schedule 4 (Some 1)] s
     \<and> map_of (wk_workers s) 4 = Some 1"
proof -
  let ?t = "\<lambda>i ph. \<lparr>wt_id = i, wt_queue = 4, wt_phase = ph\<rparr>"
  let ?s = "\<lparr>wk_accepting = True, wk_workers = [(4, 1)], wk_tasks = [?t 0 Reaped, ?t 1 Running]\<rparr>"
  have run: "worker_run fresh_workers [Start, Schedule 4 (Some 0), TaskEnds 0, Schedule 4 (Some 1), Callback 0, Schedule 4 (Some 1)] ?s"
    by (rule worker_run.more [of _ _ "\<lparr>wk_accepting = True, wk_workers = [], wk_tasks = []\<rparr>"], simp add: worker_step_simps, code_simp,
      rule worker_run.more [of _ _ "\<lparr>wk_accepting = True, wk_workers = [(4, 0)], wk_tasks = [?t 0 Running]\<rparr>"], simp add: worker_step_simps, code_simp,
      rule worker_run.more [of _ _ "\<lparr>wk_accepting = True, wk_workers = [(4, 0)], wk_tasks = [?t 0 Ended]\<rparr>"],
        simp add: worker_step_simps find_task_def task_done_def set_phase_def,
      rule worker_run.more [of _ _ "\<lparr>wk_accepting = True, wk_workers = [(4, 1)], wk_tasks = [?t 0 Ended, ?t 1 Running]\<rparr>"],
        simp add: worker_step_simps, code_simp,
      rule worker_run.more [of _ _ ?s], simp add: worker_step_simps find_task_def on_import_worker_done_def set_phase_def,
      rule worker_run.more [of _ _ ?s], simp add: worker_step_simps, code_simp, rule worker_run.none)
  from import_workers_exclusive [OF run] have "map_of (wk_workers ?s) (wt_queue (?t 1 Running)) = Some (wt_id (?t 1 Running))"
    by (auto simp: task_done_def)
  with run show ?thesis by auto
qed

theorem stopped_admits_nothing_witness:
  "schedule_import_worker 4 (stop_import_worker_scheduling fresh_workers) = (None, stop_import_worker_scheduling fresh_workers)"
proof -
  have run: "worker_run (stop_import_worker_scheduling fresh_workers) [] (stop_import_worker_scheduling fresh_workers)" by (rule worker_run.none)
  show ?thesis by (rule spec [OF conjunct2 [OF stopped_admits_nothing [OF run]]]) simp
qed

end
