(* ===== verification/Status_Cache.thy ===== *)
theory Status_Cache
  imports Download_Identity
begin

text \<open>
  The download status cache (\<open>app/status_cache.py\<close>): snapshots per configured client, merged with the
  outcome of each poll. What a client answers is an argument: the items of a successful poll, an
  exception, or a cancellation. Times are milliseconds.
\<close>

record 'i client_snapshot =
  cs_items :: "(string \<times> 'i) list"
  cs_fetched :: int
  cs_success :: "int option"
  cs_error :: "string option"

datatype freshness = WarmingUp | Live | Stale | Unavailable

datatype 'i poll = Fetched "(string \<times> 'i) list" | PollFailed string | PollCancelled

type_synonym client_key = "int \<times> download_protocol"

record 'i status_cache =
  dc_snapshots :: "(client_key \<times> 'i client_snapshot) list"
  dc_qbit :: "'i client_snapshot option"
  dc_sab :: "'i client_snapshot option"
  dc_locked :: bool

subsection \<open>Reading\<close>

definition live_max_age :: int where "live_max_age = 60000"
definition stale_max_age :: int where "stale_max_age = 300000"

definition snapshot_for :: "client_key \<Rightarrow> 'i status_cache \<Rightarrow> 'i client_snapshot option" where
  "snapshot_for k c = map_of (dc_snapshots c) k"

definition snapshots_for_protocol :: "download_protocol \<Rightarrow> (client_key \<times> 'i client_snapshot) list \<Rightarrow> (int \<times> 'i client_snapshot) list" where
  "snapshots_for_protocol p snaps = List.map_filter (\<lambda>((owner, q), s). if q = p then Some (owner, s) else None) snaps"

text \<open>Pairs of a dict built in order: a later pair of one key wins; items with a blank id are left out.\<close>

definition qualified_items :: "'i status_cache \<Rightarrow> ((int \<times> download_protocol \<times> string) \<times> 'i) list" where
  "qualified_items c =
     concat (map (\<lambda>((owner, p), s). List.map_filter
       (\<lambda>(i, item). let n = normalize_download_id i (Some p) in if n = [] then None else Some ((owner, p, n), item)) (cs_items s))
       (dc_snapshots c))"

definition qualified_item :: "'i status_cache \<Rightarrow> int \<times> download_protocol \<times> string \<Rightarrow> 'i option" where
  "qualified_item c k = map_of (rev (qualified_items c)) k"

definition freshness_label :: "'i client_snapshot option \<Rightarrow> int \<Rightarrow> freshness" where
  "freshness_label snap now =
     (case snap of
        None \<Rightarrow> WarmingUp
      | Some s \<Rightarrow>
          (case cs_success s of
             None \<Rightarrow> Unavailable
           | Some t \<Rightarrow>
               (let age = now - t
                in if age \<le> live_max_age then Live else if age \<le> stale_max_age then Stale else Unavailable)))"

subsection \<open>Refreshing\<close>

text \<open>\<open>None\<close>: the assertion of \<open>_merge_snapshot\<close> fails on a cancellation.\<close>

definition merge_snapshot :: "int \<Rightarrow> 'i client_snapshot option \<Rightarrow> 'i poll \<Rightarrow> 'i client_snapshot option" where
  "merge_snapshot now prev result =
     (case result of
        PollFailed e \<Rightarrow> Some \<lparr>cs_items = (case prev of None \<Rightarrow> [] | Some s \<Rightarrow> cs_items s), cs_fetched = now,
          cs_success = (case prev of None \<Rightarrow> None | Some s \<Rightarrow> cs_success s), cs_error = Some e\<rparr>
      | PollCancelled \<Rightarrow> None
      | Fetched items \<Rightarrow> Some \<lparr>cs_items = items, cs_fetched = now, cs_success = Some now, cs_error = None\<rparr>)"

definition join_errors :: "string list \<Rightarrow> string" where
  "join_errors es = take 240 (concat (case es of [] \<Rightarrow> [] | e # rest \<Rightarrow> e # map (\<lambda>x. ''; '' @ x) rest))"

definition legacy_protocol_snapshot :: "download_protocol \<Rightarrow> (client_key \<times> 'i client_snapshot) list \<Rightarrow> 'i client_snapshot option" where
  "legacy_protocol_snapshot p snaps =
     (case map snd (snapshots_for_protocol p snaps) of
        [] \<Rightarrow> None
      | [s] \<Rightarrow> Some s
      | s # others \<Rightarrow>
          (let every = s # others;
               successes = List.map_filter cs_success every;
               errors = List.map_filter (\<lambda>x. case cs_error x of None \<Rightarrow> None | Some e \<Rightarrow> if e = [] then None else Some e) every;
               text = join_errors errors
           in Some \<lparr>cs_items = [], cs_fetched = Max (set (map cs_fetched every)),
                cs_success = (if length successes = length every then Some (Min (set successes)) else None),
                cs_error = (if text = [] then None else Some text)\<rparr>))"

text \<open>The rows of \<open>download_clients\<close> in order, with their type.\<close>

definition poll_keys :: "(int \<times> string) list \<Rightarrow> client_key list" where
  "poll_keys configured = List.map_filter (\<lambda>(i, typ). map_option (Pair i) (protocol_for_client_type (PyStr typ))) configured"

fun merge_all :: "int \<Rightarrow> (client_key \<times> 'i client_snapshot) list \<Rightarrow> (client_key \<times> 'i poll) list \<Rightarrow> (client_key \<times> 'i client_snapshot) list option" where
  "merge_all now old [] = Some []"
| "merge_all now old ((k, r) # rest) =
     (case merge_snapshot now (map_of old k) r of
        None \<Rightarrow> None
      | Some s \<Rightarrow> map_option (\<lambda>ss. (k, s) # ss) (merge_all now old rest))"

text \<open>
  \<open>refresh\<close> takes the lock, polls and publishes. The polls run between \<open>refresh_begin\<close> and
  \<open>refresh_publish\<close>; \<open>None\<close> leaves by the assertion, and the lock is released either way.
\<close>

definition refresh_begin :: "'i status_cache \<Rightarrow> bool \<times> 'i status_cache" where
  "refresh_begin c = (if dc_locked c then (False, c) else (True, c\<lparr>dc_locked := True\<rparr>))"

definition refresh_publish :: "int \<Rightarrow> (int \<times> string) list \<Rightarrow> (client_key \<Rightarrow> 'i poll) \<Rightarrow> 'i status_cache \<Rightarrow> bool option \<times> 'i status_cache" where
  "refresh_publish now configured answers c =
     (case merge_all now (dc_snapshots c) (map (\<lambda>k. (k, answers k)) (poll_keys configured)) of
        None \<Rightarrow> (None, c\<lparr>dc_locked := False\<rparr>)
      | Some snaps \<Rightarrow> (Some True, c\<lparr>dc_snapshots := snaps, dc_qbit := legacy_protocol_snapshot Torrent snaps,
          dc_sab := legacy_protocol_snapshot Nzb snaps, dc_locked := False\<rparr>))"

definition refresh :: "int \<Rightarrow> (int \<times> string) list \<Rightarrow> (client_key \<Rightarrow> 'i poll) \<Rightarrow> 'i status_cache \<Rightarrow> bool option \<times> 'i status_cache" where
  "refresh now configured answers c =
     (let (mine, c') = refresh_begin c in if \<not> mine then (Some False, c') else refresh_publish now configured answers c')"

subsection \<open>What the cache shows\<close>

text \<open>One refresh of a history: its time, the configured clients and what they answered.\<close>

type_synonym 'i round = "int \<times> (int \<times> string) list \<times> (client_key \<Rightarrow> 'i poll)"

definition run_round :: "'i round \<Rightarrow> 'i status_cache \<Rightarrow> 'i status_cache" where
  "run_round r c = snd (refresh (fst r) (fst (snd r)) (snd (snd r)) c)"

text \<open>The specification of one client: last successful answer and its time, last time, last error.\<close>

definition client_view :: "client_key \<Rightarrow> 'i round list \<Rightarrow> 'i client_snapshot option" where
  "client_view k rounds =
     (if rounds = [] then None
      else
        let good = List.map_filter (\<lambda>(t, _, answers). case answers k of Fetched items \<Rightarrow> Some (t, items) | _ \<Rightarrow> None) rounds;
            (t, _, answers) = last rounds
        in Some \<lparr>cs_items = (if good = [] then [] else snd (last good)), cs_fetched = t,
             cs_success = (if good = [] then None else Some (fst (last good))),
             cs_error = (case answers k of PollFailed e \<Rightarrow> Some e | _ \<Rightarrow> None)\<rparr>)"

definition never_cancelled :: "'i round \<Rightarrow> bool" where
  "never_cancelled r \<longleftrightarrow> (\<forall>k \<in> set (poll_keys (fst (snd r))). snd (snd r) k \<noteq> PollCancelled)"

definition empty_cache :: "'i status_cache" where
  "empty_cache = \<lparr>dc_snapshots = [], dc_qbit = None, dc_sab = None, dc_locked = False\<rparr>"

lemma merge_all_some:
  assumes "\<forall>(k, r) \<in> set polls. r \<noteq> PollCancelled" "distinct (map fst polls)"
  shows "\<exists>snaps. merge_all now old polls = Some snaps
    \<and> (\<forall>k. map_of snaps k = (case map_of polls k of None \<Rightarrow> None | Some r \<Rightarrow> merge_snapshot now (map_of old k) r))"
  using assms
proof (induction now old polls rule: merge_all.induct)
  case (2 now old k r rest)
  then obtain s where s: "merge_snapshot now (map_of old k) r = Some s" by (cases r) (auto simp: merge_snapshot_def)
  from 2 s obtain snaps where snaps: "merge_all now old rest = Some snaps"
      "\<And>k. map_of snaps k = (case map_of rest k of None \<Rightarrow> None | Some r \<Rightarrow> merge_snapshot now (map_of old k) r)" by auto
  with s show ?case by auto
qed simp

lemma poll_keys_distinct: "distinct (map fst configured) \<Longrightarrow> distinct (poll_keys configured)"
  by (induction configured) (force simp: poll_keys_def List.map_filter_def)+

lemma client_view_snoc:
  assumes "answers k \<noteq> PollCancelled"
  shows "client_view k (rounds @ [(t, configured, answers)]) = merge_snapshot t (client_view k rounds) (answers k)"
  using assms by (cases "answers k") (auto simp: client_view_def merge_snapshot_def Let_def List.map_filter_def split: prod.split)

lemma refresh_one:
  assumes "k \<in> set (poll_keys configured)" "distinct (poll_keys configured)"
    "\<forall>k \<in> set (poll_keys configured). answers k \<noteq> PollCancelled" "\<not> dc_locked c"
  shows "snapshot_for k (snd (refresh t configured answers c)) = merge_snapshot t (snapshot_for k c) (answers k)
    \<and> \<not> dc_locked (snd (refresh t configured answers c))"
proof -
  let ?polls = "map (\<lambda>k. (k, answers k)) (poll_keys configured)"
  obtain snaps where snaps: "merge_all t (dc_snapshots c) ?polls = Some snaps"
      "\<And>k. map_of snaps k = (case map_of ?polls k of None \<Rightarrow> None | Some r \<Rightarrow> merge_snapshot t (map_of (dc_snapshots c) k) r)"
    using merge_all_some [of ?polls t "dc_snapshots c"] assms by (auto simp: comp_def)
  from assms have "map_of ?polls k = Some (answers k)" by (simp add: map_of_map_restrict)
  with snaps assms(4) show ?thesis
    by (simp add: refresh_def refresh_begin_def refresh_publish_def snapshot_for_def)
qed

lemma client_view_live:
  assumes "freshness_label (client_view k rounds) now = Live"
  shows "\<exists>r \<in> set rounds. \<exists>items. snd (snd r) k = Fetched items \<and> now - fst r \<le> live_max_age
    \<and> map_option cs_items (client_view k rounds) = Some items"
proof -
  let ?good = "List.map_filter (\<lambda>(t, _, answers). case answers k of Fetched items \<Rightarrow> Some (t, items) | _ \<Rightarrow> None) rounds"
  from assms have good: "?good \<noteq> []" "rounds \<noteq> []" "now - fst (last ?good) \<le> live_max_age"
    by (auto simp: client_view_def freshness_label_def Let_def split: if_splits prod.splits)
  then have "last ?good \<in> set ?good" by simp
  then obtain r where r: "r \<in> set rounds"
      "(case r of (t, _, answers) \<Rightarrow> case answers k of Fetched items \<Rightarrow> Some (t, items) | _ \<Rightarrow> None) = Some (last ?good)"
    by (auto simp: List.map_filter_def)
  obtain t items where final: "last ?good = (t, items)" by (cases "last ?good")
  from r(2) have "snd (snd r) k = Fetched (snd (last ?good))" "fst r = fst (last ?good)"
    unfolding final by (auto split: prod.splits poll.splits)
  with r good show ?thesis
    by (intro bexI [of _ r] exI [of _ "snd (last ?good)"]) (auto simp: client_view_def Let_def split: prod.split)
qed

text \<open>
  C30: The cache shows for every client that stays configured its last known good state: the items and
  time of its last successful poll whatever later polls or other clients did, the time of the last
  poll, and an error exactly when that one failed; so a client is shown live only if it answered
  within the last minute with exactly the items shown, and a stream of failures never looks fresh.
  Every refresh leaves the lock free.
\<close>

theorem status_shows_last_known_good:
  assumes "\<forall>r \<in> set rounds. k \<in> set (poll_keys (fst (snd r))) \<and> distinct (map fst (fst (snd r))) \<and> never_cancelled r"
  shows "snapshot_for k (fold run_round rounds empty_cache) = client_view k rounds
    \<and> \<not> dc_locked (fold run_round rounds empty_cache)
    \<and> (freshness_label (snapshot_for k (fold run_round rounds empty_cache)) now = Live
        \<longrightarrow> (\<exists>r \<in> set rounds. \<exists>items. snd (snd r) k = Fetched items \<and> now - fst r \<le> live_max_age
              \<and> map_option cs_items (snapshot_for k (fold run_round rounds empty_cache)) = Some items))"
proof -
  from assms have cache: "snapshot_for k (fold run_round rounds empty_cache) = client_view k rounds
      \<and> \<not> dc_locked (fold run_round rounds empty_cache)"
  proof (induction rounds rule: rev_induct)
    case Nil
    then show ?case by (simp add: empty_cache_def snapshot_for_def client_view_def)
  next
    case (snoc r rounds)
    obtain t configured answers where r: "r = (t, configured, answers)" by (cases r) auto
    let ?c = "fold run_round rounds empty_cache"
    from snoc have before: "snapshot_for k ?c = client_view k rounds" "\<not> dc_locked ?c" by auto
    from snoc.prems r have k: "k \<in> set (poll_keys configured)" "distinct (poll_keys configured)"
        "\<forall>k \<in> set (poll_keys configured). answers k \<noteq> PollCancelled"
      by (auto simp: never_cancelled_def intro: poll_keys_distinct)
    then have "snapshot_for k (run_round r ?c) = merge_snapshot t (snapshot_for k ?c) (answers k)
        \<and> \<not> dc_locked (run_round r ?c)"
      using refresh_one [OF k before(2)] by (simp add: r run_round_def)
    with before client_view_snoc [of answers k rounds t configured] k show ?case by (simp add: r)
  qed
  from client_view_live [of k rounds now] cache show ?thesis by auto
qed

text \<open>Two clients; the first answers, then both fail, then only the second answers again.\<close>

definition demo_configured :: "(int \<times> string) list" where
  "demo_configured = [(1, ''qbittorrent''), (2, ''sabnzbd'')]"

definition demo_rounds :: "string round list" where
  "demo_rounds =
     [(0, demo_configured, \<lambda>k. Fetched [(''abc'', ''downloading'')]),
      (20000, demo_configured, \<lambda>k. PollFailed ''ConnectTimeout: ''),
      (40000, demo_configured, \<lambda>k. if fst k = 1 then PollFailed ''ConnectTimeout: '' else Fetched [])]"

lemma demo_client_view:
  "client_view (1, Torrent) demo_rounds
     = Some \<lparr>cs_items = [(''abc'', ''downloading'')], cs_fetched = 40000, cs_success = Some 0, cs_error = Some ''ConnectTimeout: ''\<rparr>"
  by code_simp

lemma demo_rounds_fit:
  "\<forall>r \<in> set demo_rounds. (1, Torrent) \<in> set (poll_keys (fst (snd r))) \<and> distinct (map fst (fst (snd r))) \<and> never_cancelled r"
  by code_simp

theorem status_shows_last_known_good_witness:
  "snapshot_for (1, Torrent) (fold run_round demo_rounds empty_cache)
     = Some \<lparr>cs_items = [(''abc'', ''downloading'')], cs_fetched = 40000, cs_success = Some 0, cs_error = Some ''ConnectTimeout: ''\<rparr>"
  using status_shows_last_known_good [OF demo_rounds_fit] demo_client_view by simp

end
