(* ===== verification/Py_Regex.thy ===== *)
theory Py_Regex
  imports Manga_Prelude
begin

text \<open>
  Python's \<open>re\<close> on Latin-1 text, for the pattern forms the title parsers use. A matcher state is the
  text before the position (reversed), the text after it and the groups captured so far; \<open>attempts\<close>
  lists the states in which a pattern can end, in the order in which the backtracking engine tries
  them, so the first one is the match. Repetition is of single characters, as in every pattern here.
  A character beyond Latin-1 in a pattern matches nothing: \<open>wide\<close>.
\<close>

subsection \<open>Character classes\<close>

text \<open>\<open>\d\<close> and \<open>\s\<close> of Latin-1 text are \<open>is_digit\<close> and \<open>py_is_space\<close>.\<close>

text \<open>Letters, digits, the underscore, and the numeric signs and ordinals of Latin-1.\<close>

definition re_word :: "char \<Rightarrow> bool" where
  "re_word c \<longleftrightarrow>
     (let n = (of_char c :: nat)
      in (48 \<le> n \<and> n \<le> 57) \<or> (65 \<le> n \<and> n \<le> 90) \<or> n = 95 \<or> (97 \<le> n \<and> n \<le> 122)
         \<or> n \<in> {170, 178, 179, 181, 185, 186, 188, 189, 190} \<or> (192 \<le> n \<and> n \<noteq> 215 \<and> n \<noteq> 247))"

subsection \<open>Patterns\<close>

datatype rx =
    One "char \<Rightarrow> bool"
  | Many "char \<Rightarrow> bool" nat "nat option"
  | Few "char \<Rightarrow> bool"
  | Eps | Cat rx rx | Or rx rx | Opt rx | Grp nat rx
  | Ahead rx | NotAhead rx | NotBehind "char \<Rightarrow> bool" | Edge | Begin | End

type_synonym capture = "nat \<times> string"
type_synonym rx_state = "string \<times> string \<times> capture list"

definition advance :: "nat \<Rightarrow> rx_state \<Rightarrow> rx_state" where
  "advance k = (\<lambda>(pre, rest, caps). (rev (take k rest) @ pre, drop k rest, caps))"

definition word_edge :: "string \<Rightarrow> string \<Rightarrow> bool" where
  "word_edge pre rest \<longleftrightarrow> (pre \<noteq> [] \<and> re_word (hd pre)) \<noteq> (rest \<noteq> [] \<and> re_word (hd rest))"

definition span_limit :: "(char \<Rightarrow> bool) \<Rightarrow> nat option \<Rightarrow> string \<Rightarrow> nat" where
  "span_limit p hi rest = (let n = length (takeWhile p rest) in case hi of None \<Rightarrow> n | Some h \<Rightarrow> min h n)"

primrec attempts :: "rx \<Rightarrow> rx_state \<Rightarrow> rx_state list" where
  "attempts (One p) s = (case fst (snd s) of [] \<Rightarrow> [] | c # _ \<Rightarrow> if p c then [advance 1 s] else [])"
| "attempts (Many p lo hi) s = map (\<lambda>k. advance k s) (rev [lo..<Suc (span_limit p hi (fst (snd s)))])"
| "attempts (Few p) s = map (\<lambda>k. advance k s) [0..<Suc (length (takeWhile p (fst (snd s))))]"
| "attempts Eps s = [s]"
| "attempts (Cat a b) s = concat (map (attempts b) (attempts a s))"
| "attempts (Or a b) s = attempts a s @ attempts b s"
| "attempts (Opt a) s = attempts a s @ [s]"
| "attempts (Grp n a) s =
     map (\<lambda>(pre, rest, caps). (pre, rest, (n, take (length (fst (snd s)) - length rest) (fst (snd s))) # caps)) (attempts a s)"
| "attempts (Ahead a) s = (if attempts a s = [] then [] else [s])"
| "attempts (NotAhead a) s = (if attempts a s = [] then [s] else [])"
| "attempts (NotBehind p) s = (if fst s \<noteq> [] \<and> p (hd (fst s)) then [] else [s])"
| "attempts Edge s = (if word_edge (fst s) (fst (snd s)) then [s] else [])"
| "attempts Begin s = (if fst s = [] then [s] else [])"
| "attempts End s = (if fst (snd s) = [] \<or> fst (snd s) = [CHR 0x0A] then [s] else [])"

subsection \<open>Notation of the patterns\<close>

text \<open>\<open>lit\<close> under \<open>IGNORECASE\<close> (the literal is in lower case), \<open>exact\<close> without the flag.\<close>

definition ci :: "char \<Rightarrow> char \<Rightarrow> bool" where "ci c = (\<lambda>x. py_lower_char x = c)"
definition one_of :: "string \<Rightarrow> char \<Rightarrow> bool" where "one_of cs = (\<lambda>x. x \<in> set cs)"
definition cat :: "rx list \<Rightarrow> rx" where "cat rs = foldr Cat rs Eps"
definition alt :: "rx list \<Rightarrow> rx" where "alt rs = foldr Or (butlast rs) (last rs)"
definition lit :: "string \<Rightarrow> rx" where "lit s = cat (map (\<lambda>c. One (ci c)) s)"
definition exact :: "string \<Rightarrow> rx" where "exact s = cat (map (\<lambda>c. One (\<lambda>x. x = c)) s)"
definition wide :: rx where "wide = One (\<lambda>_. False)"
definition spaces :: rx where "spaces = Many py_is_space 0 None"
definition spaces1 :: rx where "spaces1 = Many py_is_space 1 None"
definition digits :: "nat \<Rightarrow> nat \<Rightarrow> rx" where "digits lo hi = Many is_digit lo (Some hi)"

subsection \<open>Searching\<close>

text \<open>A match: the text before it (reversed), the text of the match, the text after it, the groups.\<close>

record rx_match =
  m_before :: string
  m_text :: string
  m_after :: string
  m_groups :: "capture list"

definition match_here :: "rx \<Rightarrow> string \<Rightarrow> string \<Rightarrow> rx_match option" where
  "match_here r pre rest =
     (case attempts r (pre, rest, []) of
        [] \<Rightarrow> None
      | (b, a, caps) # _ \<Rightarrow> Some \<lparr>m_before = pre, m_text = take (length rest - length a) rest, m_after = a, m_groups = caps\<rparr>)"

fun search_from :: "rx \<Rightarrow> string \<Rightarrow> string \<Rightarrow> rx_match option" where
  "search_from r pre [] = match_here r pre []"
| "search_from r pre (c # rest) =
     (case match_here r pre (c # rest) of Some m \<Rightarrow> Some m | None \<Rightarrow> search_from r (c # pre) rest)"

definition re_search :: "rx \<Rightarrow> string \<Rightarrow> rx_match option" where
  "re_search r s = search_from r [] s"

definition re_found :: "rx \<Rightarrow> string \<Rightarrow> bool" where
  "re_found r s \<longleftrightarrow> re_search r s \<noteq> None"

definition re_match :: "rx \<Rightarrow> string \<Rightarrow> rx_match option" where
  "re_match r s = match_here r [] s"

definition m_group :: "nat \<Rightarrow> rx_match \<Rightarrow> string" where
  "m_group n m = (case map_of (m_groups m) n of None \<Rightarrow> [] | Some s \<Rightarrow> s)"

definition m_start :: "rx_match \<Rightarrow> nat" where "m_start m = length (m_before m)"
definition m_end :: "rx_match \<Rightarrow> nat" where "m_end m = length (m_before m) + length (m_text m)"

text \<open>\<open>re.finditer\<close> for patterns that match no empty text; \<open>fuel\<close> is the length of the text.\<close>

fun find_all :: "nat \<Rightarrow> rx \<Rightarrow> string \<Rightarrow> string \<Rightarrow> rx_match list" where
  "find_all 0 r pre rest = []"
| "find_all (Suc fuel) r pre rest =
     (case search_from r pre rest of
        None \<Rightarrow> []
      | Some m \<Rightarrow> m # find_all fuel r (rev (m_text m) @ m_before m) (m_after m))"

definition re_finditer :: "rx \<Rightarrow> string \<Rightarrow> rx_match list" where
  "re_finditer r s = find_all (length s) r [] s"

text \<open>\<open>re.sub\<close> with a constant replacement, for the same patterns.\<close>

fun sub_from :: "nat \<Rightarrow> rx \<Rightarrow> string \<Rightarrow> string \<Rightarrow> string \<Rightarrow> string" where
  "sub_from 0 r new pre rest = rest"
| "sub_from (Suc fuel) r new pre rest =
     (case search_from r pre rest of
        None \<Rightarrow> rest
      | Some m \<Rightarrow> take (length rest - length (m_text m) - length (m_after m)) rest @ new
          @ sub_from fuel r new (rev (m_text m) @ m_before m) (m_after m))"

definition re_sub :: "rx \<Rightarrow> string \<Rightarrow> string \<Rightarrow> string" where
  "re_sub r new s = sub_from (length s) r new [] s"

subsection \<open>What a match consists of\<close>

text \<open>The texts a pattern can consume, whatever stands around them.\<close>

primrec fits :: "rx \<Rightarrow> string \<Rightarrow> bool" where
  "fits (One p) x = (\<exists>c. x = [c] \<and> p c)"
| "fits (Many p lo hi) x = (list_all p x \<and> lo \<le> length x \<and> (case hi of None \<Rightarrow> True | Some h \<Rightarrow> length x \<le> h))"
| "fits (Few p) x = list_all p x"
| "fits Eps x = (x = [])"
| "fits (Cat a b) x = (\<exists>y z. x = y @ z \<and> fits a y \<and> fits b z)"
| "fits (Or a b) x = (fits a x \<or> fits b x)"
| "fits (Opt a) x = (x = [] \<or> fits a x)"
| "fits (Grp n a) x = fits a x"
| "fits (Ahead a) x = (x = [])"
| "fits (NotAhead a) x = (x = [])"
| "fits (NotBehind p) x = (x = [])"
| "fits Edge x = (x = [])"
| "fits Begin x = (x = [])"
| "fits End x = (x = [])"

text \<open>The patterns of the groups that a match can set.\<close>

primrec groups :: "rx \<Rightarrow> (nat \<times> rx) list" where
  "groups (One p) = []" | "groups (Many p lo hi) = []" | "groups (Few p) = []" | "groups Eps = []"
| "groups (Cat a b) = groups a @ groups b" | "groups (Or a b) = groups a @ groups b" | "groups (Opt a) = groups a"
| "groups (Grp n a) = (n, a) # groups a"
| "groups (Ahead a) = []" | "groups (NotAhead a) = []" | "groups (NotBehind p) = []" | "groups Edge = []" | "groups Begin = []" | "groups End = []"

definition consumed :: "(nat \<times> rx) list \<Rightarrow> string \<Rightarrow> rx_state \<Rightarrow> rx_state \<Rightarrow> bool" where
  "consumed gs x s t \<longleftrightarrow> fst (snd s) = x @ fst (snd t) \<and> fst t = rev x @ fst s
     \<and> (\<forall>(n, y) \<in> set (snd (snd t)). (n, y) \<in> set (snd (snd s)) \<or> (\<exists>r. (n, r) \<in> set gs \<and> fits r y))"

lemma consumed_none: "consumed gs [] s s" by (auto simp: consumed_def)

lemma consumed_trans: "consumed gs x s t \<Longrightarrow> consumed hs y t u \<Longrightarrow> consumed (gs @ hs) (x @ y) s u"
  unfolding consumed_def by (auto split: prod.splits) (metis (mono_tags, lifting) case_prodD)

lemma consumed_mono: "consumed gs x s t \<Longrightarrow> set gs \<subseteq> set hs \<Longrightarrow> consumed hs x s t"
  unfolding consumed_def by fastforce

lemma advance_consumed: "k \<le> length (fst (snd s)) \<Longrightarrow> consumed gs (take k (fst (snd s))) s (advance k s)"
  by (cases s) (auto simp: consumed_def advance_def)

lemma span_prefix: "k \<le> length (takeWhile p rest) \<Longrightarrow> list_all p (take k rest)"
proof (induction rest arbitrary: k)
  case (Cons c rest)
  then show ?case by (cases k) (auto split: if_splits)
qed simp

lemma attempts_fits: "t \<in> set (attempts r s) \<Longrightarrow> \<exists>x. fits r x \<and> consumed (groups r) x s t"
proof (induction r arbitrary: s t)
  case (One p)
  then show ?case using advance_consumed [of 1 s] by (cases s) (auto split: list.splits if_splits)
next
  case (Many p lo hi)
  then obtain k where k: "lo \<le> k" "k \<le> span_limit p hi (fst (snd s))" "t = advance k s" by auto
  have lim: "k \<le> length (takeWhile p (fst (snd s)))" "\<And>h. hi = Some h \<Longrightarrow> k \<le> h"
    using k(2) by (auto simp: span_limit_def Let_def split: option.splits)
  have len: "k \<le> length (fst (snd s))" using lim(1) length_takeWhile_le le_trans by blast
  with k lim span_prefix [OF lim(1)] have "fits (Many p lo hi) (take k (fst (snd s)))" by (auto split: option.split)
  with advance_consumed [OF len] k(3) show ?case by blast
next
  case (Few p)
  then have "\<exists>k \<le> length (takeWhile p (fst (snd s))). t = advance k s" by (auto simp: less_Suc_eq_le simp del: upt_Suc)
  then obtain k where k: "k \<le> length (takeWhile p (fst (snd s)))" "t = advance k s" by blast
  then have "k \<le> length (fst (snd s))" using length_takeWhile_le le_trans by blast
  with advance_consumed [of k s] k(2) span_prefix [OF k(1)] show ?case by auto
next
  case (Cat a b)
  then obtain u where "u \<in> set (attempts a s)" "t \<in> set (attempts b u)" by auto
  with Cat.IH obtain x y where "fits a x" "consumed (groups a) x s u" "fits b y" "consumed (groups b) y u t" by meson
  then show ?case using consumed_trans [of "groups a" x s u "groups b" y t] by auto
next
  case (Or a b)
  have "\<exists>g x. (g = a \<or> g = b) \<and> fits g x \<and> consumed (groups g) x s t"
  proof (cases "t \<in> set (attempts a s)")
    case True
    from Or.IH(1) [OF this] show ?thesis by metis
  next
    case False
    with Or.prems have "t \<in> set (attempts b s)" by simp
    from Or.IH(2) [OF this] show ?thesis by metis
  qed
  then obtain g x where g: "g = a \<or> g = b" "fits g x" "consumed (groups g) x s t" by metis
  then have "set (groups g) \<subseteq> set (groups (Or a b))" by auto
  with g(3) have "consumed (groups (Or a b)) x s t" by (rule consumed_mono)
  moreover have "fits (Or a b) x" using g(1,2) by auto
  ultimately show ?case by blast
next
  case (Opt a)
  show ?case
  proof (cases "t \<in> set (attempts a s)")
    case True
    then obtain x where x: "fits a x" "consumed (groups a) x s t" using Opt.IH by blast
    then have "fits (Opt a) x" "groups (Opt a) = groups a" by simp_all
    with x(2) show ?thesis by metis
  next
    case False
    with Opt.prems have "t = s" by simp
    then have "consumed (groups (Opt a)) [] s t" by (simp only: consumed_none)
    moreover have "fits (Opt a) []" by simp
    ultimately show ?thesis by blast
  qed
next
  case (Grp n a)
  then obtain u where u: "u \<in> set (attempts a s)" "t = (fst u, fst (snd u), (n, take (length (fst (snd s)) - length (fst (snd u))) (fst (snd s))) # snd (snd u))"
    by (auto split: prod.splits)
  from Grp.IH [OF u(1)] obtain x where x: "fits a x" "consumed (groups a) x s u" by metis
  then have "take (length (fst (snd s)) - length (fst (snd u))) (fst (snd s)) = x" by (simp add: consumed_def)
  then have t: "t = (fst u, fst (snd u), (n, x) # snd (snd u))" by (simp add: u(2))
  have ends: "fst (snd s) = x @ fst (snd t)" "fst t = rev x @ fst s" using x(2) by (simp_all add: consumed_def t)
  have "case p of (k, y) \<Rightarrow> (k, y) \<in> set (snd (snd s)) \<or> (\<exists>r. (k, r) \<in> set (groups (Grp n a)) \<and> fits r y)"
    if p: "p \<in> set (snd (snd t))" for p
  proof (cases "p = (n, x)")
    case True
    with x(1) show ?thesis by auto
  next
    case False
    with p have "p \<in> set (snd (snd u))" by (simp add: t)
    with x(2) have "case p of (k, y) \<Rightarrow> (k, y) \<in> set (snd (snd s)) \<or> (\<exists>r. (k, r) \<in> set (groups a) \<and> fits r y)"
      unfolding consumed_def by blast
    then show ?thesis by auto
  qed
  with ends have "consumed (groups (Grp n a)) x s t" unfolding consumed_def by blast
  moreover have "fits (Grp n a) x" using x(1) by simp
  ultimately show ?case by blast
qed (auto simp: consumed_none split: if_splits)

text \<open>A captured group is empty or was consumed by one of the patterns with its number.\<close>

lemma match_group:
  assumes "match_here r pre rest = Some m"
  shows "m_group n m = [] \<or> (\<exists>g. (n, g) \<in> set (groups r) \<and> fits g (m_group n m))"
proof (cases "map_of (m_groups m) n")
  case (Some y)
  obtain b a caps others where at: "attempts r (pre, rest, []) = (b, a, caps) # others" "m_groups m = caps"
    using assms by (auto simp: match_here_def split: list.splits)
  then obtain x where "consumed (groups r) x (pre, rest, []) (b, a, caps)"
    using attempts_fits [of "(b, a, caps)" r "(pre, rest, [])"] by auto
  moreover have "(n, y) \<in> set caps" using Some at(2) by (simp add: map_of_SomeD)
  ultimately have "\<exists>g. (n, g) \<in> set (groups r) \<and> fits g y" by (fastforce simp: consumed_def)
  with Some show ?thesis by (simp add: m_group_def)
qed (simp add: m_group_def)

lemma search_from_here: "search_from r pre rest = Some m \<Longrightarrow> \<exists>pre' rest'. match_here r pre' rest' = Some m"
  by (induction r pre rest rule: search_from.induct) (auto split: option.splits)

lemma search_group:
  assumes "re_search r s = Some m"
  shows "m_group n m = [] \<or> (\<exists>g. (n, g) \<in> set (groups r) \<and> fits g (m_group n m))"
  using assms search_from_here match_group unfolding re_search_def by blast

lemma find_all_here: "m \<in> set (find_all fuel r pre rest) \<Longrightarrow> \<exists>pre' rest'. match_here r pre' rest' = Some m"
proof (induction fuel r pre rest rule: find_all.induct)
  case (2 fuel r pre rest)
  show ?case
  proof (cases "search_from r pre rest")
    case (Some m1)
    with "2.prems" have "m = m1 \<or> m \<in> set (find_all fuel r (rev (m_text m1) @ m_before m1) (m_after m1))" by simp
    with search_from_here [OF Some] "2.IH" [OF Some] show ?thesis by blast
  qed (use "2.prems" in simp)
qed simp

lemma finditer_group:
  assumes "m \<in> set (re_finditer r s)"
  shows "m_group n m = [] \<or> (\<exists>g. (n, g) \<in> set (groups r) \<and> fits g (m_group n m))"
  using assms find_all_here match_group unfolding re_finditer_def by blast

lemma fits_catE:
  assumes "fits (cat (r # rs)) x"
  obtains y z where "x = y @ z" "fits r y" "fits (cat rs) z"
  using assms by (auto simp: cat_def)

lemma fits_cat [simp]: "fits (cat []) x = (x = [])" "fits (cat (r # rs)) x = (\<exists>y z. x = y @ z \<and> fits r y \<and> fits (cat rs) z)"
  by (simp_all add: cat_def)

lemma groups_cat [simp]: "groups (cat []) = []" "groups (cat (r # rs)) = groups r @ groups (cat rs)"
  by (simp_all add: cat_def)

lemma fits_exact [simp]: "fits (exact s) x \<longleftrightarrow> x = s"
  unfolding exact_def by (induction s arbitrary: x) (auto simp: cat_def)

lemma groups_exact [simp]: "groups (exact s) = []"
  unfolding exact_def by (induction s) (auto simp: cat_def)

lemma groups_lit [simp]: "groups (lit s) = []"
  unfolding lit_def by (induction s) (auto simp: cat_def)

lemma groups_alt [simp]: "groups (alt [r]) = groups r" "groups (alt (r # r' # rs)) = groups r @ groups (alt (r' # rs))"
  by (simp_all add: alt_def)

end
