(* ===== verification/Py_Difflib.thy ===== *)
theory Py_Difflib
  imports Py_Number
begin

text \<open>
  \<open>difflib.SequenceMatcher(None, a, b).ratio()\<close> on strings: the longest common block, then the parts
  to its left and right. For texts of 200 characters or more the frequent characters of \<open>b\<close> do not
  start blocks (\<open>autojunk\<close>); a block still grows over them.
\<close>

definition popular :: "string \<Rightarrow> char \<Rightarrow> bool" where
  "popular b c \<longleftrightarrow> 200 \<le> length b \<and> length b div 100 + 1 < count_list b c"

text \<open>The common run of \<open>junk\<close>-free characters at the heads of two texts.\<close>

fun common_run :: "(char \<Rightarrow> bool) \<Rightarrow> string \<Rightarrow> string \<Rightarrow> nat" where
  "common_run junk (x # xs) (y # ys) = (if x = y \<and> \<not> junk x then Suc (common_run junk xs ys) else 0)"
| "common_run junk _ _ = 0"

text \<open>\<open>(i, j, k)\<close>: the longest block, then the first in \<open>a\<close>, then the first in \<open>b\<close>.\<close>

definition better :: "nat \<times> nat \<times> nat \<Rightarrow> nat \<times> nat \<times> nat \<Rightarrow> nat \<times> nat \<times> nat" where
  "better best m = (if snd (snd m) > snd (snd best) then m else best)"

definition best_block :: "(char \<Rightarrow> bool) \<Rightarrow> string \<Rightarrow> string \<Rightarrow> nat \<times> nat \<times> nat" where
  "best_block junk a b =
     fold (\<lambda>i best. fold (\<lambda>j best. better best (i, j, common_run junk (drop i a) (drop j b))) [0..<length b] best)
       [0..<length a] (0, 0, 0)"

text \<open>The block grows over equal characters on both sides, whatever they are.\<close>

definition longest_match :: "(char \<Rightarrow> bool) \<Rightarrow> string \<Rightarrow> string \<Rightarrow> nat \<times> nat \<times> nat" where
  "longest_match junk a b =
     (let (i, j, k) = best_block junk a b;
          left = common_run (\<lambda>_. False) (rev (take i a)) (rev (take j b));
          right = common_run (\<lambda>_. False) (drop (i + k) a) (drop (j + k) b)
      in (i - left, j - left, k + left + right))"

fun matched_chars :: "nat \<Rightarrow> (char \<Rightarrow> bool) \<Rightarrow> string \<Rightarrow> string \<Rightarrow> nat" where
  "matched_chars 0 junk a b = 0"
| "matched_chars (Suc fuel) junk a b =
     (let (i, j, k) = longest_match junk a b
      in if k = 0 then 0
         else matched_chars fuel junk (take i a) (take j b) + k + matched_chars fuel junk (drop (i + k) a) (drop (j + k) b))"

text \<open>Each round matches a character of \<open>a\<close>, so its length is fuel enough.\<close>

definition similarity :: "string \<Rightarrow> string \<Rightarrow> rat" where
  "similarity a b =
     (if a = [] \<and> b = [] then 1
      else round_double (2 * of_nat (matched_chars (Suc (length a)) (popular b) a b) / of_nat (length a + length b)))"

subsection \<open>Equal texts\<close>

lemma common_run_self: "(\<And>c. c \<in> set xs \<Longrightarrow> \<not> junk c) \<Longrightarrow> common_run junk xs xs = length xs"
  by (induction xs) auto

lemma common_run_le: "common_run junk xs ys \<le> length xs \<and> common_run junk xs ys \<le> length ys"
  by (induction junk xs ys rule: common_run.induct) auto

lemma better_ge: "snd (snd best) \<le> snd (snd (better best m))" "snd (snd m) \<le> snd (snd (better best m))"
  by (auto simp: better_def)

lemma fold_better_keeps:
  assumes "\<And>j. j \<in> set js \<Longrightarrow> snd (snd (f j)) \<le> snd (snd best)"
  shows "fold (\<lambda>j best. better best (f j)) js best = best"
  using assms
proof (induction js)
  case (Cons j js)
  then have "\<not> snd (snd (f j)) > snd (snd best)" by (simp add: not_less)
  with Cons show ?case by (simp add: better_def)
qed simp

lemma best_block_self:
  assumes "a \<noteq> []" "\<And>c. c \<in> set a \<Longrightarrow> \<not> junk c"
  shows "best_block junk a a = (0, 0, length a)"
proof -
  let ?f = "\<lambda>i j. (i, j, common_run junk (drop i a) (drop j a))"
  have le: "snd (snd (?f i j)) \<le> length a" for i j
    using common_run_le [of junk "drop i a" "drop j a"] by (auto intro: le_trans)
  have ups: "[0..<length a] = 0 # [1..<length a]" using assms(1) by (simp add: upt_conv_Cons)
  have "common_run junk a a = length a" using assms by (intro common_run_self)
  then have first: "better (0, 0, 0) (?f 0 0) = (0, 0, length a)" using assms(1) by (simp add: better_def)
  have inner: "fold (\<lambda>j best. better best (?f i j)) js (0, 0, length a) = (0, 0, length a)" for i js
    using le by (intro fold_better_keeps) simp
  have "fold (\<lambda>j best. better best (?f 0 j)) [0..<length a] (0, 0, 0) = (0, 0, length a)"
    unfolding ups fold_simps first by (rule inner)
  moreover have "fold (\<lambda>i best. fold (\<lambda>j best. better best (?f i j)) [0..<length a] best) is (0, 0, length a) = (0, 0, length a)" for "is"
    by (induction "is") (simp_all only: fold_simps inner)
  ultimately show ?thesis unfolding best_block_def by (subst (2) ups) (simp only: fold_simps)
qed

lemma similarity_self:
  assumes "length a < 200"
  shows "similarity a a = 1"
proof (cases "a = []")
  case False
  have "longest_match (popular a) a a = (0, 0, length a)"
    using best_block_self [OF False, of "popular a"] assms by (simp add: longest_match_def popular_def)
  moreover have "matched_chars (length a) (popular a) [] [] = 0"
    by (cases "length a") (simp_all add: longest_match_def best_block_def)
  ultimately have "matched_chars (Suc (length a)) (popular a) a a = length a" using False by simp
  moreover have "round_double 1 = 1" using round_double_int [of 1] by simp
  ultimately show ?thesis using False by (simp add: similarity_def)
qed (simp add: similarity_def)

end
