(* ===== verification/Title_Parsing.thy ===== *)
theory Title_Parsing
  imports Py_Regex Py_Difflib "HOL-Library.Sublist"
begin

text \<open>
  Reading release titles (\<open>app/parsing.py\<close>): normalisation, foreign-language markers, the fuzzy title
  match, volume and chapter numbers and ranges, packs, specials. Titles are Latin-1 text: the
  alternatives of a pattern for characters beyond it are kept as \<open>wide\<close>, which matches nothing.
  The display format of volume numbers is in \<open>File_Names\<close>.
\<close>

subsection \<open>Normalisation\<close>

definition not_newline :: "char \<Rightarrow> bool" where "not_newline c \<longleftrightarrow> c \<noteq> CHR 0x0A"
definition any_text :: rx where "any_text = Many not_newline 0 None"
definition letter_in :: "string \<Rightarrow> rx" where "letter_in cs = One (\<lambda>x. py_lower_char x \<in> set cs)"

definition bracketed_rx :: rx where
  "bracketed_rx = alt [cat [exact ''['', Few not_newline, exact '']''], cat [exact ''('', Few not_newline, exact '')'']]"

definition symbol_rx :: rx where "symbol_rx = One (\<lambda>c. \<not> re_word c \<and> \<not> py_is_space c)"

definition normalize_title :: "string \<Rightarrow> string" where
  "normalize_title text =
     (let t1 = re_sub bracketed_rx '' '' text;
          t2 = re_sub symbol_rx '' '' (py_lower t1);
          t3 = map (\<lambda>c. if c = CHR ''_'' then CHR '' '' else c) t2
      in py_strip (re_sub spaces1 '' '' t3))"

text \<open>\<open>str.split()\<close>.\<close>

fun split_words :: "string \<Rightarrow> string \<Rightarrow> string list" where
  "split_words word [] = (if word = [] then [] else [word])"
| "split_words word (c # s) =
     (if py_is_space c then (if word = [] then split_words [] s else word # split_words [] s)
      else split_words (word @ [c]) s)"

definition py_split :: "string \<Rightarrow> string list" where "py_split s = split_words [] s"

subsection \<open>Foreign languages\<close>

definition foreign_word_rx :: rx where
  "foreign_word_rx = cat [Edge, alt
     [lit ''french'', lit ''francais'', cat [lit ''fran'', letter_in [CHR 0xE7, CHR ''c''], lit ''ais''], lit ''vostfr'',
      cat [lit ''espa'', One (ci (CHR 0xF1)), lit ''ol''], lit ''espanol'', lit ''spanish'', cat [lit ''italian'', Opt (letter_in ''eo'')],
      lit ''german'', lit ''deutsch'', lit ''portuguese'', cat [lit ''portugu'', letter_in [CHR ''e'', CHR 0xEA], lit ''s''], lit ''russian'',
      lit ''polish'', lit ''dutch'', lit ''indonesian'', lit ''malay'', lit ''vietnamese'', lit ''thai'', lit ''arabic'', lit ''turkish'',
      lit ''japanese'', lit ''unlocalized''], Edge]"

definition foreign_manga_rx :: rx where
  "foreign_manga_rx = cat [exact ''['', spaces, lit ''manga'', spaces1,
     alt [lit ''fr'', lit ''french'', cat [lit ''fran'', letter_in [CHR 0xE7, CHR ''c''], lit ''ais'']], spaces, exact '']'']"

definition foreign_code_rx :: rx where
  "foreign_code_rx = cat [exact ''['', alt (map lit [''fr'', ''es'', ''de'', ''it'', ''pt'', ''ru'', ''pl'', ''nl'', ''id'', ''ms'', ''vi'', ''th'',
     ''ar'', ''tr'', ''jp'', ''jpn'', ''raw'']), exact '']'']"

definition foreign_rx :: rx where
  "foreign_rx = alt [foreign_word_rx, foreign_manga_rx, foreign_code_rx,
     cat [exact ''('', alt (map lit [''jp'', ''jpn'', ''raw'']), exact '')''],
     cat [NotBehind re_word, lit ''vf'', NotAhead (One re_word)]]"

definition is_foreign_language :: "string \<Rightarrow> bool" where
  "is_foreign_language title = re_found foreign_rx title"

subsection \<open>Titles\<close>

definition series_marker_rx :: rx where
  "series_marker_rx = cat [spaces,
     alt [lit ''v'', cat [lit ''vol'', Opt (exact ''.'')], lit ''volume'', cat [lit ''ch'', Opt (exact ''.'')], lit ''chapter'', exact ''#''],
     spaces, One is_digit, any_text, End]"

definition trailing_tome_rx :: rx where
  "trailing_tome_rx = cat [spaces1, alt [cat [lit ''tome'', spaces1], cat [lit ''t'', spaces]], digits 1 3, End]"

definition extract_series_portion :: "string \<Rightarrow> string" where
  "extract_series_portion title = py_strip (re_sub trailing_tome_rx [] (re_sub series_marker_rx [] (normalize_title title)))"

definition fuzzy_match_threshold :: rat where "fuzzy_match_threshold = 3 / 4"

definition year_rx :: rx where
  "year_rx = cat [Edge, Grp 1 (cat [alt [exact ''19'', exact ''20''], digits 2 2]), Edge]"

text \<open>\<open>pub_year\<close> is 0 for None.\<close>

definition matches :: "string \<Rightarrow> string \<Rightarrow> int \<Rightarrow> bool" where
  "matches pattern title pub_year =
     (let norm_pattern = normalize_title pattern; portion = extract_series_portion title
      in if pattern = [] \<or> title = [] \<or> norm_pattern = [] \<or> portion = [] then False
         else if \<not> list_all (\<lambda>w. length w > 2 \<longrightarrow> w \<in> set (py_split portion)) (py_split norm_pattern) then False
         else if similarity norm_pattern portion < fuzzy_match_threshold then False
         else if pub_year \<noteq> 0 then
           (case re_search year_rx title of None \<Rightarrow> True | Some m \<Rightarrow> \<not> \<bar>int (undec (m_group 1 m)) - pub_year\<bar> > 1)
         else True)"

subsection \<open>Number tokens\<close>

definition roman_value :: "char \<Rightarrow> int option" where
  "roman_value c = map_of [(CHR ''i'', 1), (CHR ''v'', 5), (CHR ''x'', 10), (CHR ''l'', 50), (CHR ''c'', 100), (CHR ''d'', 500), (CHR ''m'', 1000)]
     (py_lower_char c)"

fun roman_total :: "int \<Rightarrow> int \<Rightarrow> int list \<Rightarrow> int" where
  "roman_total acc prev [] = acc"
| "roman_total acc prev (v # vs) = roman_total (if v < prev then acc - v else acc + v) v vs"

definition roman_to_int :: "string \<Rightarrow> int option" where
  "roman_to_int s =
     (let t = py_strip s
      in if t = [] \<or> \<not> list_all (\<lambda>c. roman_value c \<noteq> None) t then None
         else let acc = roman_total 0 0 (List.map_filter roman_value (rev t))
              in if 0 < acc \<and> acc \<le> 30 then Some acc else None)"

definition letter_suffix :: "char \<Rightarrow> rat" where
  "letter_suffix c = (case map_of [(CHR ''a'', 1 / 100), (CHR ''b'', 2 / 100), (CHR ''c'', 3 / 100), (CHR ''d'', 4 / 100)] (py_lower_char c) of
     None \<Rightarrow> 0 | Some x \<Rightarrow> round_double x)"

definition fraction_suffixes :: "(char \<times> rat) list" where
  "fraction_suffixes = [(CHR 0xBD, 1 / 2), (CHR 0xBC, 1 / 4), (CHR 0xBE, 3 / 4)]"

definition lettered_rx :: rx where
  "lettered_rx = cat [Begin, Grp 1 (cat [Many is_digit 1 None, Opt (cat [exact ''.'', Many is_digit 1 None])]), Grp 2 (letter_in ''abcd''), End]"

fun fraction_value :: "string \<Rightarrow> (char \<times> rat) list \<Rightarrow> rat option" where
  "fraction_value raw [] = None"
| "fraction_value raw ((f, offset) # fs) =
     (if raw \<noteq> [] \<and> last raw = f then
        (case (if butlast raw = [] then Some 0 else py_float_str (butlast raw)) of
           Some x \<Rightarrow> Some (round_double (x + offset))
         | None \<Rightarrow> fraction_value raw fs)
      else fraction_value raw fs)"

definition parse_vol_suffix :: "string \<Rightarrow> rat option" where
  "parse_vol_suffix raw0 =
     (if raw0 = [] then None
      else let raw = py_strip raw0
       in case py_float_str raw of
            Some x \<Rightarrow> Some x
          | None \<Rightarrow>
              (case re_match lettered_rx raw of
                 Some m \<Rightarrow>
                   (case py_float_str (m_group 1 m) of
                      None \<Rightarrow> None
                    | Some x \<Rightarrow> Some (round_double (x + (case m_group 2 m of [] \<Rightarrow> 0 | c # _ \<Rightarrow> letter_suffix c))))
               | None \<Rightarrow> fraction_value raw fraction_suffixes))"

definition decimal_suffix :: rx where
  "decimal_suffix = Opt (cat [exact ''.'', NotAhead (cat [alt [exact ''19'', exact ''20''], digits 2 2, Edge]), Many is_digit 1 None])"

definition letter_or_frac :: rx where
  "letter_or_frac = Opt (letter_in [CHR ''a'', CHR ''b'', CHR ''c'', CHR ''d'', CHR 0xBD, CHR 0xBC, CHR 0xBE])"

definition trailing_guards :: rx where
  "trailing_guards = Cat (NotAhead (One is_digit))
     (NotAhead (alt [cat [letter_in ''gmk'', letter_in ''bi''], cat [letter_in ''p'', Edge]]))"

text \<open>A number of \<open>lo\<close> to \<open>hi\<close> digits with its suffixes, as group \<open>n\<close>.\<close>

definition number_group :: "nat \<Rightarrow> nat \<Rightarrow> nat \<Rightarrow> rx" where
  "number_group n lo hi = Grp n (cat [digits lo hi, decimal_suffix, letter_or_frac])"

definition tome_prefix :: rx where
  "tome_prefix = Cat (NotBehind re_word) (alt [cat [lit ''tome'', spaces1], cat [lit ''t'', Opt (exact ''.''), spaces]])"

definition tome_boundary :: rx where
  "tome_boundary = Ahead (alt [End, One (\<lambda>c. py_is_space c \<or> c \<in> set ''[](),''),
     cat [exact ''.'', alt [cat [lit ''cb'', letter_in ''rz''], lit ''epub'', lit ''pdf''], Edge]])"

definition vol_word :: rx where "vol_word = Cat (lit ''v'') (Opt (Cat (lit ''ol'') (Opt (lit ''ume''))))"

definition chap_word :: rx where
  "chap_word = cat [lit ''c'', Opt (cat [lit ''h'', Opt (cat [lit ''a'', Opt (cat [lit ''p'', Opt (lit ''ter'')])])]), Opt (lit ''s''), Opt (exact ''.''), spaces]"

definition ch_word :: rx where
  "ch_word = cat [lit ''ch'', Opt (cat [lit ''a'', Opt (cat [lit ''p'', Opt (lit ''ter'')])]), Opt (lit ''s''), Opt (exact ''.''), spaces]"

definition ep_word :: rx where "ep_word = cat [lit ''ep'', Opt (lit ''isode''), Opt (exact ''.''), spaces]"

text \<open>A hyphen or tilde; the dashes of the class are beyond Latin-1.\<close>

definition range_dash :: rx where "range_dash = cat [spaces, One (one_of ''-~''), spaces]"

subsection \<open>Ranges\<close>

definition chapter_range_rx :: rx where
  "chapter_range_rx = cat [Edge, chap_word, number_group 1 1 4, range_dash, Opt chap_word, number_group 2 1 4, Edge]"

definition extract_chapter_range :: "string \<Rightarrow> (rat \<times> rat) option" where
  "extract_chapter_range title =
     (if title = [] then None
      else case re_search chapter_range_rx title of
        None \<Rightarrow> None
      | Some m \<Rightarrow>
          (case (parse_vol_suffix (m_group 1 m), parse_vol_suffix (m_group 2 m)) of
             (Some start, Some end') \<Rightarrow>
               if start \<ge> end' then None else if round_double (end' - start) > 2000 then None else Some (start, end')
           | _ \<Rightarrow> None))"

definition dot_pack_rx :: rx where
  "dot_pack_rx = cat [Edge, lit ''volume'', exact ''.'', Grp 1 (digits 1 4), exact ''.'', Grp 2 (digits 1 4), Edge]"

definition marked_range_rx :: rx where
  "marked_range_rx = cat [Edge, vol_word, Opt (exact ''.''), spaces, number_group 1 1 4, range_dash,
     Opt (cat [vol_word, Opt (exact ''.''), spaces]), number_group 2 1 4, Edge]"

definition bracket_range_rx :: rx where
  "bracket_range_rx = cat [exact ''['', number_group 1 1 4, range_dash, number_group 2 1 4, exact '']'']"

definition bare_range_rx :: rx where
  "bare_range_rx = cat [alt [Begin, One (\<lambda>c. py_is_space c \<or> c = CHR ''('')], Edge, Grp 1 (digits 1 3), spaces, exact ''-'', spaces,
     Grp 2 (digits 1 3), Edge, Ahead (alt [One (\<lambda>c. py_is_space c \<or> c \<in> set ''),[''), End])]"

definition accepted_range :: "string \<Rightarrow> rx \<Rightarrow> (rat \<times> rat) option" where
  "accepted_range title r =
     (case re_search r title of
        None \<Rightarrow> None
      | Some m \<Rightarrow>
          (case (parse_vol_suffix (m_group 1 m), parse_vol_suffix (m_group 2 m)) of
             (Some start, Some end') \<Rightarrow> if start < end' \<and> round_double (end' - start) < 600 then Some (start, end') else None
           | _ \<Rightarrow> None))"

fun first_some :: "('a \<Rightarrow> 'b option) \<Rightarrow> 'a list \<Rightarrow> 'b option" where
  "first_some f [] = None"
| "first_some f (x # xs) = (case f x of None \<Rightarrow> first_some f xs | Some y \<Rightarrow> Some y)"

definition dot_pack_range :: "string \<Rightarrow> (rat \<times> rat) option" where
  "dot_pack_range title =
     (case re_search dot_pack_rx title of
        None \<Rightarrow> None
      | Some m \<Rightarrow>
          (let start = of_nat (undec (m_group 1 m)); end' = of_nat (undec (m_group 2 m))
           in if end' = start + 1 then Some (start, end') else None))"

definition extract_volume_range :: "string \<Rightarrow> (rat \<times> rat) option" where
  "extract_volume_range title =
     (if title = [] \<or> extract_chapter_range title \<noteq> None then None
      else case dot_pack_range title of
        Some r \<Rightarrow> Some r
      | None \<Rightarrow> first_some (accepted_range title) [marked_range_rx, bracket_range_rx, bare_range_rx])"

subsection \<open>Volume numbers\<close>

definition tome_rx :: rx where "tome_rx = cat [tome_prefix, Grp 1 (digits 1 3), tome_boundary]"

definition omnibus_rx :: rx where
  "omnibus_rx = cat [Edge, alt [lit ''omnibus'', cat [lit ''box'', Opt (One (\<lambda>c. py_is_space c \<or> c = CHR ''-'')), lit ''set'']],
     spaces1, Grp 1 (digits 1 3), Edge]"

definition kanji_volume_rx :: rx where
  "kanji_volume_rx = cat [Opt (cat [wide, spaces]), Grp 1 (digits 1 3), spaces, wide]"

definition hangul_volume_rx :: rx where "hangul_volume_rx = cat [Grp 1 (digits 1 3), spaces, wide]"

definition ascii_letter :: "char \<Rightarrow> bool" where
  "ascii_letter c \<longleftrightarrow> (let n = (of_char c :: nat) in (65 \<le> n \<and> n \<le> 90) \<or> (97 \<le> n \<and> n \<le> 122))"

definition underscore_volume_rx :: rx where
  "underscore_volume_rx = cat [NotBehind ascii_letter, vol_word, exact ''_'', Grp 1 (digits 1 4), NotAhead (One is_digit)]"

definition roman_rx :: rx where
  "roman_rx = cat [Edge, vol_word, Opt (exact ''.''), spaces1, Grp 1 (Many (\<lambda>x. py_lower_char x \<in> set ''ivxlcdm'') 1 (Some 6)), Edge]"

definition volume_marker_rx :: rx where
  "volume_marker_rx = alt
     [cat [Edge, alt [cat [lit ''vol'', Opt (lit ''ume''), Opt (exact ''.'')], cat [lit ''v'', Ahead (cat [spaces, One is_digit])]], spaces, One is_digit],
      cat [exact ''#'', spaces, One is_digit]]"

definition numbered_rx :: "nat \<Rightarrow> rx" where
  "numbered_rx hi = cat [number_group 1 1 hi, trailing_guards]"

definition volume_rxs :: "rx list" where
  "volume_rxs = [cat [Edge, vol_word, Opt (exact ''.''), spaces, numbered_rx 3],
     cat [Edge, lit ''volume'', spaces1, numbered_rx 3],
     cat [Edge, exact ''#'', numbered_rx 3]]"

definition suffix_of :: "rx_match option \<Rightarrow> rat option" where
  "suffix_of m = (case m of None \<Rightarrow> None | Some m \<Rightarrow> parse_vol_suffix (m_group 1 m))"

definition marked_number :: "string \<Rightarrow> nat \<Rightarrow> rx \<Rightarrow> rat option" where
  "marked_number title marker_pos r =
     first_some (\<lambda>m. if m_start m < marker_pos \<and> m_end m \<le> marker_pos then None else parse_vol_suffix (m_group 1 m)) (re_finditer r title)"

definition extract_volume_num :: "string \<Rightarrow> rat option" where
  "extract_volume_num title =
     (if title = [] \<or> extract_volume_range title \<noteq> None then None
      else case re_search tome_rx title of
        Some m \<Rightarrow> Some (of_nat (undec (m_group 1 m)))
      | None \<Rightarrow>
          (case first_some (\<lambda>r. suffix_of (re_search r title)) [omnibus_rx, kanji_volume_rx, hangul_volume_rx, underscore_volume_rx] of
             Some x \<Rightarrow> Some x
           | None \<Rightarrow>
               (case (case re_search roman_rx title of None \<Rightarrow> None | Some m \<Rightarrow> roman_to_int (m_group 1 m)) of
                  Some n \<Rightarrow> Some (of_int n)
                | None \<Rightarrow>
                    (let marker_pos = (case re_search volume_marker_rx title of None \<Rightarrow> length title | Some m \<Rightarrow> m_start m)
                     in first_some (marked_number title marker_pos) volume_rxs))))"

subsection \<open>Chapter numbers\<close>

definition episode_rx :: rx where
  "episode_rx = cat [wide, spaces, Grp 1 (cat [digits 1 4, decimal_suffix]), spaces, wide]"

definition chapter_rxs :: "rx list" where
  "chapter_rxs = [cat [Edge, ch_word, numbered_rx 4], cat [Edge, ep_word, numbered_rx 4],
     cat [Edge, lit ''c'', number_group 1 2 4, trailing_guards]]"

definition volume_hint_rxs :: "rx list" where
  "volume_hint_rxs =
     [cat [Edge, vol_word, Opt (exact ''.''), spaces, One is_digit],
      cat [NotBehind ascii_letter, vol_word, exact ''_'', One is_digit],
      cat [tome_prefix, digits 1 3, tome_boundary],
      cat [tome_prefix, digits 1 3, range_dash, One is_digit],
      alt [cat [Opt (cat [wide, spaces]), Many is_digit 1 None, spaces, wide], cat [Many is_digit 1 None, spaces, wide]],
      cat [Edge, alt [lit ''omnibus'', cat [lit ''box'', Opt (One (\<lambda>c. py_is_space c \<or> c = CHR ''-'')), lit ''set'']], Edge]]"

definition chapter_hint_rx :: rx where
  "chapter_hint_rx = alt [cat [Edge, ch_word, One is_digit], cat [Edge, ep_word, One is_digit], cat [Edge, lit ''c'', Many is_digit 2 None]]"

definition noise_rx :: rx where
  "noise_rx = alt
     [cat [Edge, alt (map lit [''720'', ''1080'', ''2160'', ''480'', ''360'', ''4k'', ''8k'']), spaces, lit ''p'', Edge],
      cat [Edge, Many is_digit 1 None, spaces, alt (map lit [''mb'', ''gb'', ''kb'', ''mib'', ''gib'', ''kib'']), Edge],
      cat [Edge, alt [exact ''19'', exact ''20''], digits 2 2, Edge]]"

definition bare_number_rx :: rx where
  "bare_number_rx = cat [NotBehind (\<lambda>c. c = CHR ''.'' \<or> re_word c), Grp 1 (cat [digits 1 4, decimal_suffix]),
     NotAhead (One re_word), trailing_guards]"

definition bare_chapter :: "string \<Rightarrow> rat option" where
  "bare_chapter title =
     (if list_ex (\<lambda>r. re_found r title) volume_hint_rxs \<or> re_found chapter_hint_rx title then None
      else case suffix_of (re_search bare_number_rx (re_sub noise_rx [] title)) of
        None \<Rightarrow> None
      | Some x \<Rightarrow> if x \<le> 9999 then Some x else None)"

definition extract_chapter_num :: "string \<Rightarrow> rat option" where
  "extract_chapter_num title =
     (if title = [] \<or> extract_chapter_range title \<noteq> None \<or> extract_volume_range title \<noteq> None then None
      else case first_some (\<lambda>r. suffix_of (re_search r title)) (episode_rx # chapter_rxs) of
        Some x \<Rightarrow> Some x
      | None \<Rightarrow> bare_chapter title)"

subsection \<open>Packs and specials\<close>

definition pack_markers :: "string list" where
  "pack_markers = [''complete series'', ''complete collection'', ''complete pack'', ''full series'', ''entire series'', ''all volumes'',
     ''complete set'', ''omnibus complete'', ''complete manga'', ''whole series'']"

definition year_span_rx :: rx where
  "year_span_rx = cat [exact ''('', Grp 1 (digits 4 4), spaces, exact ''-'', spaces, Grp 2 (digits 4 4), exact '')'']"

text \<open>\<open>total_volumes\<close> is 0 for None.\<close>

definition is_complete_pack :: "string \<Rightarrow> int \<Rightarrow> bool" where
  "is_complete_pack title total_volumes \<longleftrightarrow>
     list_ex (\<lambda>m. sublist m (py_lower title)) pack_markers
     \<or> (case re_search year_span_rx title of None \<Rightarrow> False | Some m \<Rightarrow> int (undec (m_group 2 m)) - int (undec (m_group 1 m)) \<ge> 3)
     \<or> (total_volumes > 0 \<and> (case extract_volume_range title of None \<Rightarrow> False
          | Some (a, b) \<Rightarrow> a \<le> 1 \<and> b \<ge> round_double (of_int total_volumes * round_double (9 / 10))))"

definition chapter_word_rx :: rx where
  "chapter_word_rx = cat [Edge, exact ''ch'', Opt (exact ''apter''), Opt (exact ''s''), One (\<lambda>c. py_is_space c \<or> c = CHR ''.'')]"

definition volume_word_rx :: rx where
  "volume_word_rx = cat [Edge, exact ''v'', Opt (Cat (exact ''ol'') (Opt (exact ''ume''))), One (\<lambda>c. py_is_space c \<or> c = CHR ''.'')]"

definition single_number_rx :: rx where
  "single_number_rx = cat [alt [Begin, One (\<lambda>c. py_is_space c \<or> c \<in> set ''[({'')], Grp 1 (digits 2 4),
     alt [One (\<lambda>c. py_is_space c \<or> c \<in> set '')}]''), End]]"

datatype pack_type = CompletePack | ChapterRelease | VolumeRelease

definition detect_pack_type :: "string \<Rightarrow> (rat \<times> rat) option \<Rightarrow> int \<Rightarrow> pack_type" where
  "detect_pack_type title vol_range total_volumes =
     (let t = py_lower title; vols = of_int total_volumes :: rat
      in if is_complete_pack title total_volumes then CompletePack
         else if extract_chapter_range title \<noteq> None then ChapterRelease
         else if re_found chapter_word_rx t \<or> re_found (cat [Edge, exact ''c'', Many is_digit 2 None]) t then ChapterRelease
         else if extract_volume_num title \<noteq> None \<and> vol_range = None then VolumeRelease
         else case vol_range of
           None \<Rightarrow>
             (case re_search single_number_rx title of
                None \<Rightarrow> VolumeRelease
              | Some m \<Rightarrow>
                  (let num = of_nat (undec (m_group 1 m))
                   in if total_volumes > 0 \<and> num > round_double (vols * (3 / 2)) then ChapterRelease
                      else if num > 60 \<and> \<not> re_found volume_word_rx t then ChapterRelease
                      else VolumeRelease))
         | Some (start, end') \<Rightarrow>
             if total_volumes > 0 \<and> (start > round_double (vols * (3 / 2)) \<or> end' > vols * 2) then ChapterRelease
             else if end' > 60 \<and> \<not> re_found volume_word_rx t then ChapterRelease
             else VolumeRelease)"

definition special_rxs :: "rx list" where
  "special_rxs =
     (let gap = One (\<lambda>c. c = CHR ''-'' \<or> py_is_space c)
      in map (\<lambda>r. cat [Edge, r, Edge])
        [exact ''special'', cat [exact ''extra'', Opt (exact ''s'')], cat [exact ''one'', Opt gap, exact ''shot''], exact ''gaiden'',
         cat [exact ''side'', Opt gap, exact ''stor'', alt [exact ''y'', exact ''ies'']], exact ''sidestory'',
         cat [exact ''short'', Many (\<lambda>c. c = CHR ''-'' \<or> py_is_space c) 1 None, exact ''stor'', alt [exact ''y'', exact ''ies'']],
         exact ''bonus'', exact ''omake''])"

definition is_special_release :: "string \<Rightarrow> bool" where
  "is_special_release title \<longleftrightarrow> title \<noteq> [] \<and> list_ex (\<lambda>r. re_found r (py_lower title)) special_rxs"

end
