(* ===== verification/Py_Float_Facts.thy ===== *)
theory Py_Float_Facts
  imports Py_Number
begin

text \<open>
  How far \<open>round_double\<close> moves a number, and what \<open>float(str)\<close> returns on plain decimals.
\<close>

subsection \<open>Rounding\<close>

lemma round_half_even_near: "\<bar>of_int (round_half_even y) - y\<bar> \<le> 1 / 2"
proof -
  have "of_int \<lfloor>y\<rfloor> \<le> y" "y < of_int \<lfloor>y\<rfloor> + 1" using floor_correct [of y] by simp_all
  then show ?thesis unfolding round_half_even_def Let_def abs_if by (simp split: if_split) linarith
qed

lemma round_half_even_le: "y \<le> of_int N \<Longrightarrow> round_half_even y \<le> N"
  using round_half_even_near [of y] round_half_even_int [of N]
  by (cases "y = of_int N") (simp, linarith)

lemma round_half_even_ge: "of_int N \<le> y \<Longrightarrow> N \<le> round_half_even y"
  using round_half_even_near [of y] round_half_even_int [of N]
  by (cases "y = of_int N") (simp, linarith)

lemma round_half_even_eq: "\<bar>y - of_int N\<bar> < 1 / 2 \<Longrightarrow> round_half_even y = N"
  using round_half_even_near [of y] by linarith

lemma bitlen_upper: "n < 2 ^ bitlen n"
proof (induction n rule: bitlen.induct)
  case (1 n)
  show ?case
  proof (cases "n \<le> 0")
    case True
    then show ?thesis by (simp add: bitlen.simps [of n] order.strict_trans1)
  next
    case False
    with 1 have "n div 2 < 2 ^ bitlen (n div 2)" by blast
    then have "n < 2 * 2 ^ bitlen (n div 2)" by linarith
    with False show ?thesis by (simp add: bitlen.simps [of n])
  qed
qed

lemma bitlen_lower: "0 < n \<Longrightarrow> 2 ^ bitlen n \<le> 2 * n"
proof (induction n rule: bitlen.induct)
  case (1 n)
  show ?case
  proof (cases "n = 1")
    case False
    with "1.prems" have "0 < n div 2" by linarith
    with "1.IH" "1.prems" have "2 ^ bitlen (n div 2) \<le> 2 * (n div 2)" by simp
    with "1.prems" show ?thesis by (simp add: bitlen.simps [of n])
  qed simp
qed

lemma pow2_pos [simp]: "0 < pow2 k" by (simp add: pow2_def)

lemma pow2_nonzero [simp]: "pow2 k \<noteq> 0" "\<bar>pow2 k\<bar> = pow2 k" "0 \<le> pow2 k"
  using pow2_pos [of k] by (simp_all del: pow2_pos)

lemma pow2_mono: "pow2 a < pow2 b \<longleftrightarrow> a < b"
proof -
  have eq: "pow2 k = (if k \<ge> 0 then 2 ^ nat k else inverse (2 ^ nat (- k)))" for k
    by (simp add: pow2_def divide_inverse)
  have "pow2 a < pow2 b" if "a < b" for a b :: int
  proof -
    consider "0 \<le> a" | "a < 0" "0 \<le> b" | "b < 0" by linarith
    then show ?thesis
    proof cases
      case 1
      with that show ?thesis by (simp add: eq power_strict_increasing)
    next
      case 2
      have "inverse (2 ^ nat (- a)) < (1::rat)" using 2 by (simp add: inverse_less_1_iff one_less_power)
      also have "1 \<le> (2::rat) ^ nat b" by simp
      finally show ?thesis using 2 by (simp add: eq)
    next
      case 3
      with that show ?thesis by (simp add: eq power_strict_increasing)
    qed
  qed
  then show ?thesis by (metis linorder_neqE_linordered_idom not_less_iff_gr_or_eq)
qed

lemma pow2_add: "pow2 (a + int m) = pow2 a * 2 ^ m"
proof (induction m)
  case (Suc m)
  have step: "pow2 (c + 1) = pow2 c * 2" for c
  proof (cases "c \<ge> 0")
    case True
    then have "nat (c + 1) = Suc (nat c)" by linarith
    with True show ?thesis by (simp add: pow2_def)
  next
    case False
    then have "nat (- c) = Suc (nat (- (c + 1)))" by linarith
    with False show ?thesis by (cases "c = -1") (simp_all add: pow2_def)
  qed
  from step [of "a + int m"] Suc show ?case by (simp add: algebra_simps)
qed (simp add: pow2_def)

lemma round_double_scaled:
  assumes "0 < x" "x < 2 ^ m"
  obtains j where "53 - int m \<le> j" "round_double x = of_int (round_half_even (x * pow2 j)) / pow2 j"
proof -
  obtain n d where q: "quotient_of x = (n, d)" by (cases "quotient_of x")
  have nd: "0 < d" "x = of_int n / of_int d" "0 < n"
    using quotient_of_denom_pos [OF q] quotient_of_div [OF q] assms(1) by (auto simp: zero_less_divide_iff)
  define k where "k = 53 - (int (bitlen n) - int (bitlen d))"
  define j where "j = (if x * pow2 k \<ge> 2 ^ 53 then k - 1 else k)"
  have "of_int n < (2 ^ m * of_int d :: rat)" using assms(2) nd by (simp add: pos_divide_less_eq)
  then have "n < 2 ^ m * d" by (metis of_int_less_iff of_int_mult of_int_numeral of_int_power)
  also have "\<dots> < 2 ^ m * 2 ^ bitlen d" using bitlen_upper [of d] by simp
  finally have "2 ^ bitlen n < (2 :: int) ^ (m + bitlen d + 1)" using bitlen_lower [OF nd(3)] by (simp add: power_add)
  then have "bitlen n < m + bitlen d + 1" by (rule power_less_imp_less_exp [rotated]) simp
  then have k: "53 - int m \<le> k" by (simp add: k_def)
  have "53 - int m \<le> j"
  proof (cases "x * pow2 k \<ge> 2 ^ 53")
    case True
    note True
    also have "x * pow2 k < 2 ^ m * pow2 k" using assms(2) by simp
    finally have "2 ^ 53 < pow2 (k + int m)" by (simp only: pow2_add mult.commute)
    then have "pow2 53 < pow2 (k + int m)" by (simp add: pow2_def [of 53])
    then have "53 < k + int m" by (simp only: pow2_mono)
    with True show ?thesis by (simp add: j_def)
  qed (use k in \<open>simp add: j_def\<close>)
  moreover have "round_double x = of_int (round_half_even (x * pow2 j)) / pow2 j"
    using assms(1) q by (simp add: round_double_def j_def k_def Let_def)
  ultimately show thesis by (rule that)
qed

lemma round_double_neg: "round_double (- x) = - round_double x"
  by (simp add: round_double_def Let_def split: prod.split)

lemma round_double_zero [simp]: "round_double 0 = 0" by (simp add: round_double_def)

lemma pow2_nonneg_int: "0 \<le> j \<Longrightarrow> pow2 j = of_int (2 ^ nat j)" by (simp add: pow2_def)

lemma round_double_nonneg: "0 \<le> x \<Longrightarrow> 0 \<le> round_double x"
proof (cases "x = 0")
  case False
  assume "0 \<le> x"
  with False have "sgn x = 1" by simp
  moreover have "\<exists>j. round_double x = sgn x * of_int (round_half_even (\<bar>x\<bar> * pow2 j)) / pow2 j"
  proof (cases "quotient_of \<bar>x\<bar>")
    case (Pair n d)
    show ?thesis unfolding round_double_def if_not_P [OF False] Pair Let_def prod.case by (rule exI, rule refl)
  qed
  then obtain j where "round_double x = sgn x * of_int (round_half_even (\<bar>x\<bar> * pow2 j)) / pow2 j" by blast
  moreover have "0 \<le> round_half_even (\<bar>x\<bar> * pow2 j)" for j
    by (intro round_half_even_ge) (simp add: less_imp_le)
  ultimately show ?thesis by (simp add: less_imp_le divide_nonneg_pos)
qed simp

lemma round_double_le_int:
  assumes "0 \<le> x" "x \<le> of_int N" "N < 2 ^ 53"
  shows "round_double x \<le> of_int N"
proof (cases "x = 0")
  case False
  have "of_int N < (2 ^ 53 :: rat)" using assms(3) by (metis of_int_less_iff of_int_numeral of_int_power)
  with False assms obtain j where j: "0 \<le> j" "round_double x = of_int (round_half_even (x * pow2 j)) / pow2 j"
    using round_double_scaled [of x 53] by auto
  have "x * pow2 j \<le> of_int (N * 2 ^ nat j)" using assms(2) j(1) by (simp add: pow2_def)
  then have "round_half_even (x * pow2 j) \<le> N * 2 ^ nat j" by (rule round_half_even_le)
  then have "of_int (round_half_even (x * pow2 j)) \<le> of_int N * pow2 j"
    using j(1) by (metis of_int_le_iff of_int_mult pow2_nonneg_int)
  then show ?thesis by (simp add: j(2) pos_divide_le_eq)
qed (use assms in simp)

lemma round_double_error:
  assumes "\<bar>x\<bar> < 2 ^ m" "m \<le> 53"
  shows "\<bar>round_double x - x\<bar> \<le> 1 / (2 * 2 ^ (53 - m))"
proof -
  have pos: "\<bar>round_double y - y\<bar> \<le> 1 / (2 * 2 ^ (53 - m))" if "0 < y" "y < 2 ^ m" for y
  proof -
    obtain j where j: "53 - int m \<le> j" "round_double y = of_int (round_half_even (y * pow2 j)) / pow2 j"
      using round_double_scaled [OF \<open>0 < y\<close> \<open>y < 2 ^ m\<close>] .
    have "round_double y - y = (of_int (round_half_even (y * pow2 j)) - y * pow2 j) / pow2 j"
      using pow2_pos [of j] by (simp add: j(2) diff_divide_distrib)
    then have "\<bar>round_double y - y\<bar> \<le> (1 / 2) / pow2 j"
      using round_half_even_near [of "y * pow2 j"] by (simp add: abs_divide pos_divide_le_eq)
    also have "\<dots> \<le> (1 / 2) / 2 ^ (53 - m)"
    proof -
      have "(2 :: rat) ^ (53 - m) \<le> 2 ^ nat j" using j(1) by (intro power_increasing) auto
      then have "2 ^ (53 - m) \<le> pow2 j" using j(1) assms(2) by (simp add: pow2_def)
      then show ?thesis by (intro divide_left_mono) auto
    qed
    finally show ?thesis by simp
  qed
  consider "x = 0" | "0 < x" | "x < 0" by linarith
  then show ?thesis
  proof cases
    case 3
    with pos [of "- x"] assms show ?thesis by (simp add: round_double_neg abs_minus_commute)
  qed (use pos [of x] assms in auto)
qed

subsection \<open>Reading plain decimals\<close>

lemma read_digits_app:
  assumes "list_all is_digit ds" "t = [] \<or> \<not> is_digit (hd t) \<and> hd t \<noteq> CHR ''_''"
  shows "read_digits (ds @ t) = (ds, t)"
  using assms(1)
proof (induction ds)
  case Nil
  from assms(2) show ?case by (cases t) auto
next
  case (Cons d ds)
  have "\<not> is_digit (CHR ''_'')" by code_simp
  then have "(case ds @ t of u # e # r \<Rightarrow> if u = CHR ''_'' \<and> is_digit e then e # r else ds @ t | _ \<Rightarrow> ds @ t) = ds @ t"
    using Cons.prems assms(2) by (cases ds; cases t) (auto split: list.splits)
  with Cons show ?case by simp
qed

lemma read_sign_digit: "list_all is_digit ds \<Longrightarrow> ds \<noteq> [] \<Longrightarrow> read_sign (ds @ t) = (1, ds @ t)"
proof -
  have "\<not> is_digit (CHR ''-'')" "\<not> is_digit (CHR ''+'')" by code_simp+
  then show "list_all is_digit ds \<Longrightarrow> ds \<noteq> [] \<Longrightarrow> read_sign (ds @ t) = (1, ds @ t)"
    by (cases ds) (auto simp: read_sign_def)
qed

lemma digit_not_space: "is_digit c \<Longrightarrow> \<not> py_is_space c"
  by (auto simp: is_digit_def py_is_space_def Let_def)

text \<open>Digits with an optional fraction, followed by nothing or by one character that is no exponent.\<close>

lemma float_plain:
  assumes "list_all is_digit ds" "ds \<noteq> []"
  shows "py_float_str ds = Some (round_double (of_nat (undec ds)))"
proof -
  have strip: "py_strip ds = ds"
    using assms digit_not_space by (intro strip_by_ends [where p = py_is_space, folded py_strip_def]) (auto simp: list_all_iff)
  show ?thesis using read_digits_app [OF assms(1), of "[]"] read_sign_digit [OF assms, of "[]"] assms(2)
    by (simp add: py_float_str_def strip read_exponent_def pow10_def)
qed

lemma float_fraction:
  assumes "list_all is_digit ds" "ds \<noteq> []" "list_all is_digit fs" "fs \<noteq> []"
  shows "py_float_str (ds @ CHR ''.'' # fs) = Some (round_double (of_nat (undec (ds @ fs)) / 10 ^ length fs))"
proof -
  have strip: "py_strip (ds @ CHR ''.'' # fs) = ds @ CHR ''.'' # fs"
    using assms digit_not_space by (intro strip_by_ends [where p = py_is_space, folded py_strip_def]) (auto simp: list_all_iff)
  have dot: "\<not> is_digit (CHR ''.'')" by code_simp
  have "pow10 (- int (length fs)) = 1 / 10 ^ length fs" using assms(4) by (simp add: pow10_def)
  then show ?thesis using read_digits_app [OF assms(1), of "CHR ''.'' # fs"] read_sign_digit [OF assms(1,2), of "CHR ''.'' # fs"]
      read_digits_app [OF assms(3), of "[]"] assms(2) dot
    by (simp add: py_float_str_def strip read_exponent_def)
qed

lemma undec_bound: "list_all is_digit ds \<Longrightarrow> undec ds < 10 ^ length ds"
proof (induction ds rule: rev_induct)
  case (snoc d ds)
  then have "undec ds < 10 ^ length ds" "digit_val d < 10"
    by (auto simp: is_digit_def digit_val_def Let_def)
  then show ?case by (simp add: undec_def)
qed (simp add: undec_def)

end
