(* ===== verification/Title_Facts.thy ===== *)
theory Title_Facts
  imports Title_Parsing Py_Float_Facts File_Names
begin

text \<open>
  What titles are read as: bounds of every number, at most one reading of a range, and the round
  trip of the displayed volume numbers.
\<close>

subsection \<open>Number tokens\<close>

definition token_rx :: "rx \<Rightarrow> bool" where
  "token_rx g \<longleftrightarrow> (\<exists>lo hi. hi \<le> 4 \<and> 1 \<le> lo \<and> (g = digits lo hi \<or> g = cat [digits lo hi, decimal_suffix]
     \<or> g = cat [digits lo hi, decimal_suffix, letter_or_frac]))"

text \<open>One to four digits, maybe a fraction, maybe a letter or a fraction sign.\<close>

definition number_token :: "string \<Rightarrow> bool" where
  "number_token s \<longleftrightarrow> (\<exists>ds fs sfx. s = ds @ fs @ sfx \<and> list_all is_digit ds \<and> ds \<noteq> [] \<and> length ds \<le> 4
     \<and> (fs = [] \<or> (\<exists>f. fs = CHR ''.'' # f \<and> list_all is_digit f \<and> f \<noteq> []))
     \<and> (sfx = [] \<or> (\<exists>c. sfx = [c] \<and> py_lower_char c \<in> {CHR ''a'', CHR ''b'', CHR ''c'', CHR ''d'', CHR 0xBD, CHR 0xBC, CHR 0xBE})))"

lemma fits_digits: "fits (digits lo hi) x \<longleftrightarrow> list_all is_digit x \<and> lo \<le> length x \<and> length x \<le> hi"
  by (simp add: digits_def)

lemma fits_decimal: "fits decimal_suffix x \<Longrightarrow> x = [] \<or> (\<exists>f. x = CHR ''.'' # f \<and> list_all is_digit f \<and> f \<noteq> [])"
proof -
  let ?look = "NotAhead (cat [alt [exact ''19'', exact ''20''], digits 2 2, Edge])"
  assume "fits decimal_suffix x"
  then consider "x = []" | "fits (cat [exact ''.'', ?look, Many is_digit 1 None]) x"
    unfolding decimal_suffix_def fits.simps(7) by (elim disjE)
  then show ?thesis
  proof cases
    case 2
    then obtain y z where x: "x = y @ z" "fits (exact ''.'') y" "fits (cat [?look, Many is_digit 1 None]) z" by (rule fits_catE)
    from x(3) obtain u v where z: "z = u @ v" "fits ?look u" "fits (cat [Many is_digit 1 None]) v" by (rule fits_catE)
    from z(3) obtain v1 v2 where v: "v = v1 @ v2" "fits (Many is_digit 1 None) v1" "fits (cat []) v2" by (rule fits_catE)
    have "u = []" "v2 = []" using z(2) v(3) by simp_all
    with x z v show ?thesis by auto
  qed simp
qed

lemma fits_letter: "fits letter_or_frac x \<Longrightarrow>
    x = [] \<or> (\<exists>c. x = [c] \<and> py_lower_char c \<in> {CHR ''a'', CHR ''b'', CHR ''c'', CHR ''d'', CHR 0xBD, CHR 0xBC, CHR 0xBE})"
  by (auto simp: letter_or_frac_def letter_in_def)

lemma token_fits:
  assumes "token_rx g" "fits g s"
  shows "number_token s"
proof -
  have nil: "number_token s"
    if "hi \<le> 4" "1 \<le> lo" "s = ds @ fs @ sfx" "fits (digits lo hi) ds"
      "fs = [] \<or> fits decimal_suffix fs" "sfx = [] \<or> fits letter_or_frac sfx" for hi lo ds fs sfx
  proof -
    have "ds \<noteq> []" "length ds \<le> 4" "list_all is_digit ds" using that(1,2,4) by (auto simp: fits_digits)
    with that fits_decimal [of fs] fits_letter [of sfx] show ?thesis unfolding number_token_def by blast
  qed
  obtain lo hi where h: "hi \<le> 4" "1 \<le> lo" "g = digits lo hi \<or> g = cat [digits lo hi, decimal_suffix]
      \<or> g = cat [digits lo hi, decimal_suffix, letter_or_frac]" using assms(1) unfolding token_rx_def by blast
  from h(3) show ?thesis
  proof (elim disjE)
    assume "g = digits lo hi"
    with assms(2) nil [OF h(1,2), of s "[]" "[]"] show ?thesis by simp
  next
    assume "g = cat [digits lo hi, decimal_suffix]"
    with assms(2) obtain y z where "s = y @ z" "fits (digits lo hi) y" "fits decimal_suffix z" by auto
    with nil [OF h(1,2), of y z "[]"] show ?thesis by simp
  next
    assume "g = cat [digits lo hi, decimal_suffix, letter_or_frac]"
    with assms(2) obtain y z w where "s = y @ z @ w" "fits (digits lo hi) y" "fits decimal_suffix z" "fits letter_or_frac w" by auto
    with nil [OF h(1,2), of y z w] show ?thesis by simp
  qed
qed

subsection \<open>Values of number tokens\<close>

lemma attempts_no_groups: "groups r = [] \<Longrightarrow> t \<in> set (attempts r s) \<Longrightarrow> snd (snd t) = snd (snd s)"
proof (induction r arbitrary: s t)
  case (Cat a b)
  then obtain u where "u \<in> set (attempts a s)" "t \<in> set (attempts b u)" by auto
  with Cat.IH(1) [of u s] Cat.IH(2) [of t u] Cat.prems(1) show ?case by simp
next
  case (Few p)
  then have "\<exists>k. t = advance k s" by (auto simp del: upt_Suc)
  then show ?case by (cases s) (auto simp: advance_def)
next
  case (Many p lo hi)
  then have "\<exists>k. t = advance k s" by (auto simp del: upt_Suc)
  then show ?case by (cases s) (auto simp: advance_def)
next
  case (One p)
  then show ?case by (cases s) (auto simp: advance_def split: list.splits if_splits)
next
  case (Or a b)
  then show ?case by fastforce
next
  case (Opt a)
  then show ?case by fastforce
qed (auto split: if_splits)

lemma attempts_grp:
  assumes "t \<in> set (attempts (Grp n a) s)" "groups a = []"
  obtains x where "fits a x" "fst (snd s) = x @ fst (snd t)" "snd (snd t) = (n, x) # snd (snd s)"
proof -
  from assms(1) obtain u where u: "u \<in> set (attempts a s)"
      "t = (fst u, fst (snd u), (n, take (length (fst (snd s)) - length (fst (snd u))) (fst (snd s))) # snd (snd u))"
    by (auto split: prod.splits)
  from attempts_fits [OF u(1)] obtain x where x: "fits a x" "consumed (groups a) x s u" by blast
  then have "take (length (fst (snd s)) - length (fst (snd u))) (fst (snd s)) = x" "fst (snd s) = x @ fst (snd u)"
    by (simp_all add: consumed_def)
  with x(1) u(2) attempts_no_groups [OF assms(2) u(1)] show thesis by (intro that [of x]) simp_all
qed

lemma cat_attempts:
  assumes "t \<in> set (attempts (cat (r # rs)) s)"
  obtains u where "u \<in> set (attempts r s)" "t \<in> set (attempts (cat rs) u)"
  using assms by (auto simp: cat_def)

lemma cat_attemptsI: "u \<in> set (attempts r s) \<Longrightarrow> t \<in> set (attempts (cat rs) u) \<Longrightarrow> t \<in> set (attempts (cat (r # rs)) s)"
  by (auto simp: cat_def)

definition decimal_rx :: rx where
  "decimal_rx = cat [Many is_digit 1 None, Opt (cat [exact ''.'', Many is_digit 1 None])]"

lemma lettered_split:
  assumes "re_match lettered_rx s = Some m"
  obtains x y where "m_group 1 m = x" "m_group 2 m = y" "fits (letter_in ''abcd'') y" "s = x @ y \<or> s = x @ y @ [CHR 0x0A]"
proof -
  obtain t others where at: "attempts lettered_rx ([], s, []) = t # others" "m_groups m = snd (snd t)"
    using assms by (auto simp: re_match_def match_here_def split: list.splits)
  have "t \<in> set (attempts (cat [Begin, Grp 1 decimal_rx, Grp 2 (letter_in ''abcd''), End]) ([], s, []))"
    using at(1) by (simp add: lettered_rx_def decimal_rx_def)
  then obtain t0 where t0: "t0 \<in> set (attempts Begin ([], s, []))" "t \<in> set (attempts (cat [Grp 1 decimal_rx, Grp 2 (letter_in ''abcd''), End]) t0)"
    by (rule cat_attempts)
  from t0(2) obtain t1 where t1: "t1 \<in> set (attempts (Grp 1 decimal_rx) t0)" "t \<in> set (attempts (cat [Grp 2 (letter_in ''abcd''), End]) t1)"
    by (rule cat_attempts)
  from t1(2) obtain t2 where t2: "t2 \<in> set (attempts (Grp 2 (letter_in ''abcd'')) t1)" "t \<in> set (attempts (cat [End]) t2)"
    by (rule cat_attempts)
  have none: "groups decimal_rx = []" "groups (letter_in ''abcd'') = []" by (simp_all add: decimal_rx_def letter_in_def)
  have t0': "t0 = ([], s, [])" using t0(1) by simp
  obtain x where x: "fits decimal_rx x" "fst (snd t0) = x @ fst (snd t1)" "snd (snd t1) = (1, x) # snd (snd t0)"
    by (rule attempts_grp [OF t1(1) none(1)])
  obtain y where y: "fits (letter_in ''abcd'') y" "fst (snd t1) = y @ fst (snd t2)" "snd (snd t2) = (2, y) # snd (snd t1)"
    by (rule attempts_grp [OF t2(1) none(2)])
  have e: "t = t2" "fst (snd t2) = [] \<or> fst (snd t2) = [CHR 0x0A]"
    using t2(2) by (auto simp: cat_def split: if_splits)
  show thesis
  proof (rule that)
    show "m_group 1 m = x" "m_group 2 m = y" using at(2) e(1) x(3) y(3) t0' by (simp_all add: m_group_def)
    show "s = x @ y \<or> s = x @ y @ [CHR 0x0A]" using e(2) x(2) y(2) t0' by auto
  qed (rule y(1))
qed

lemma plain_value:
  assumes "list_all is_digit ds" "ds \<noteq> []" "length ds \<le> 4"
    "fs = [] \<or> (\<exists>f. fs = CHR ''.'' # f \<and> list_all is_digit f \<and> f \<noteq> [])"
  obtains x where "py_float_str (ds @ fs) = Some x" "0 \<le> x" "x \<le> 10000"
proof -
  obtain f where f: "list_all is_digit f" "py_float_str (ds @ fs) = Some (round_double (of_nat (undec (ds @ f)) / 10 ^ length f))"
  proof (cases "fs = []")
    case True
    with float_plain [OF assms(1,2)] show thesis by (intro that [of "[]"]) simp_all
  next
    case False
    with assms(4) obtain f where "fs = CHR ''.'' # f" "list_all is_digit f" "f \<noteq> []" by blast
    with float_fraction [OF assms(1,2)] show thesis by (intro that [of f]) simp_all
  qed
  have "undec (ds @ f) < 10 ^ (length ds + length f)" using undec_bound [of "ds @ f"] assms(1) f(1) by simp
  also have "\<dots> \<le> 10 ^ (4 + length f)" using assms(3) by (intro power_increasing) auto
  finally have "undec (ds @ f) \<le> 10000 * 10 ^ length f" by (simp add: power_add)
  then have "(of_nat (undec (ds @ f)) :: rat) \<le> of_nat (10000 * 10 ^ length f)" by (rule of_nat_mono)
  then have le: "of_nat (undec (ds @ f)) / 10 ^ length f \<le> (of_int 10000 :: rat)" by (simp add: pos_divide_le_eq)
  show thesis
    using that [OF f(2)] round_double_le_int [OF _ le] round_double_nonneg [of "of_nat (undec (ds @ f)) / 10 ^ length f"] by simp
qed

lemma rounded_sum_bound:
  assumes "0 \<le> x" "x \<le> 10000" "0 \<le> d" "d \<le> 1"
  shows "0 \<le> round_double (x + d)" "round_double (x + d) \<le> 10001"
  using assms round_double_nonneg [of "x + d"] round_double_le_int [of "x + d" 10001] by auto

lemma letter_suffix_bound: "0 \<le> letter_suffix c" "letter_suffix c \<le> 1"
proof -
  have "0 \<le> y \<and> y \<le> 1" if "map_of [(CHR ''a'', 1 / 100), (CHR ''b'', 2 / 100), (CHR ''c'', 3 / 100), (CHR ''d'', 4 / 100)] d = Some y" for d and y :: rat
    using that by (auto split: if_splits)
  then show "0 \<le> letter_suffix c" "letter_suffix c \<le> 1"
    using round_double_nonneg round_double_le_int [where N = 1]
    by (auto simp: letter_suffix_def simp del: map_of.simps split: option.split)
qed

lemma fraction_value_bound:
  assumes "fraction_value raw fs = Some v" "\<And>f d. (f, d) \<in> set fs \<Longrightarrow> 0 \<le> d \<and> d \<le> 1"
    "\<And>y. raw \<noteq> [] \<Longrightarrow> (if butlast raw = [] then Some 0 else py_float_str (butlast raw)) = Some y \<Longrightarrow> 0 \<le> y \<and> y \<le> 10000"
  shows "0 \<le> v \<and> v \<le> 10001"
  using assms
proof (induction fs)
  case (Cons p fs)
  obtain f offset where p: "p = (f, offset)" by (cases p)
  have rest: "0 \<le> v \<and> v \<le> 10001" if "fraction_value raw fs = Some v"
    by (rule Cons.IH [OF that]) (use Cons.prems(2,3) in auto)
  show ?case
  proof (cases "raw \<noteq> [] \<and> last raw = f")
    case True
    show ?thesis
    proof (cases "if butlast raw = [] then Some 0 else py_float_str (butlast raw)")
      case None
      with True Cons.prems(1) p have "fraction_value raw fs = Some v" by (simp split: if_splits)
      then show ?thesis by (rule rest)
    next
      case (Some y)
      with True Cons.prems(1) p have v: "v = round_double (y + offset)" by (simp only: fraction_value.simps if_True option.case) simp
      have "0 \<le> y" "y \<le> 10000" "0 \<le> offset" "offset \<le> 1"
        using True p Cons.prems(2) [of f offset] Cons.prems(3) [OF _ Some] by auto
      with rounded_sum_bound v show ?thesis by blast
    qed
  next
    case False
    with Cons.prems(1) p have "fraction_value raw fs = Some v" by (simp split: if_splits)
    then show ?thesis by (rule rest)
  qed
qed simp

lemma suffix_char: "py_lower_char c \<in> {CHR ''a'', CHR ''b'', CHR ''c'', CHR ''d'', CHR 0xBD, CHR 0xBC, CHR 0xBE}
    \<Longrightarrow> \<not> py_is_space c \<and> \<not> is_digit c \<and> c \<noteq> CHR ''.'' \<and> c \<noteq> CHR ''_'' \<and> c \<noteq> CHR ''e'' \<and> c \<noteq> CHR ''E'' \<and> c \<noteq> CHR 0x0A"
proof -
  assume a: "py_lower_char c \<in> {CHR ''a'', CHR ''b'', CHR ''c'', CHR ''d'', CHR 0xBD, CHR 0xBC, CHR 0xBE}"
  then have "(of_char (py_lower_char c) :: nat) \<in> {97, 98, 99, 100, 189, 188, 190}" by auto
  then have n: "(of_char c :: nat) \<in> {65, 66, 67, 68, 97, 98, 99, 100, 188, 189, 190}"
    unfolding of_char_py_lower_char Let_def by (simp split: if_splits) arith+
  then have "\<not> py_is_space c" "\<not> is_digit c" by (auto simp: is_digit_def py_is_space_def Let_def)
  with n show ?thesis by auto
qed

lemma token_strip:
  assumes "list_all is_digit ds" "ds \<noteq> []"
    "fs = [] \<or> (\<exists>f. fs = CHR ''.'' # f \<and> list_all is_digit f \<and> f \<noteq> [])" "sfx = [] \<or> (\<exists>c. sfx = [c] \<and> \<not> py_is_space c)"
  shows "py_strip (ds @ fs @ sfx) = ds @ fs @ sfx"
  unfolding py_strip_def
proof (rule strip_by_ends)
  have dig: "\<not> py_is_space c" if "list_all is_digit xs" "c \<in> set xs" for xs c
    using that digit_not_space by (auto simp: list_all_iff)
  show "ds @ fs @ sfx \<noteq> []" using assms(2) by simp
  show "\<not> py_is_space (hd (ds @ fs @ sfx))" using assms(1,2) dig [of ds "hd ds"] by simp
  show "\<not> py_is_space (last (ds @ fs @ sfx))"
  proof (cases "sfx = []")
    case True
    with assms dig [of ds "last ds"] dig show ?thesis by (auto simp: last_append)
  qed (use assms(4) in auto)
qed

lemma float_suffixed:
  assumes "list_all is_digit ds" "ds \<noteq> []"
    "fs = [] \<or> (\<exists>f. fs = CHR ''.'' # f \<and> list_all is_digit f \<and> f \<noteq> [])"
    "py_lower_char c \<in> {CHR ''a'', CHR ''b'', CHR ''c'', CHR ''d'', CHR 0xBD, CHR 0xBC, CHR 0xBE}"
  shows "py_float_str (ds @ fs @ [c]) = None"
proof -
  note c = suffix_char [OF assms(4)]
  have strip: "py_strip (ds @ fs @ [c]) = ds @ fs @ [c]" using token_strip [OF assms(1-3), of "[c]"] c by simp
  have dot: "\<not> is_digit (CHR ''.'')" by code_simp
  from assms(3) show ?thesis
  proof
    assume "fs = []"
    with c read_digits_app [OF assms(1), of "[c]"] read_sign_digit [OF assms(1,2), of "[c]"] assms(2)
    show ?thesis using strip by (simp add: py_float_str_def read_exponent_def)
  next
    assume "\<exists>f. fs = CHR ''.'' # f \<and> list_all is_digit f \<and> f \<noteq> []"
    then obtain f where f: "fs = CHR ''.'' # f" "list_all is_digit f" "f \<noteq> []" by blast
    with c dot read_digits_app [OF assms(1), of "CHR ''.'' # f @ [c]"] read_sign_digit [OF assms(1,2), of "CHR ''.'' # f @ [c]"]
      read_digits_app [OF f(2), of "[c]"] assms(2)
    show ?thesis using strip by (simp add: py_float_str_def read_exponent_def)
  qed
qed

lemma token_bound:
  assumes "number_token s" "parse_vol_suffix s = Some v"
  shows "0 \<le> v \<and> v \<le> 10001"
proof -
  obtain ds fs sfx where t: "s = ds @ fs @ sfx" "list_all is_digit ds" "ds \<noteq> []" "length ds \<le> 4"
      "fs = [] \<or> (\<exists>f. fs = CHR ''.'' # f \<and> list_all is_digit f \<and> f \<noteq> [])"
      "sfx = [] \<or> (\<exists>c. sfx = [c] \<and> py_lower_char c \<in> {CHR ''a'', CHR ''b'', CHR ''c'', CHR ''d'', CHR 0xBD, CHR 0xBC, CHR 0xBE})"
    using assms(1) unfolding number_token_def by blast
  obtain x where x: "py_float_str (ds @ fs) = Some x" "0 \<le> x" "x \<le> 10000" using plain_value [OF t(2-5)] by blast
  have ne: "s \<noteq> []" using t(1,3) by simp
  show ?thesis
  proof (cases "sfx = []")
    case True
    then have "py_strip s = s" using token_strip [OF t(2,3,5), of "[]"] t(1) by simp
    then have "parse_vol_suffix s = Some x" using x(1) True t(1) ne by (simp only: parse_vol_suffix_def Let_def append_Nil2 if_False option.case)
    with assms(2) x(2,3) show ?thesis by simp
  next
    case False
    then obtain c where c: "sfx = [c]" "py_lower_char c \<in> {CHR ''a'', CHR ''b'', CHR ''c'', CHR ''d'', CHR 0xBD, CHR 0xBC, CHR 0xBE}"
      using t(6) by blast
    have strip: "py_strip s = s" using token_strip [OF t(2,3,5), of "[c]"] suffix_char [OF c(2)] t(1) c(1) by simp
    have none: "py_float_str s = None" using float_suffixed [OF t(2,3,5) c(2)] t(1) c(1) by simp
    show ?thesis
    proof (cases "re_match lettered_rx s")
      case None
      then have v: "fraction_value s fraction_suffixes = Some v"
        using assms(2) ne strip none by (simp add: parse_vol_suffix_def Let_def)
      have "butlast s = ds @ fs" using t(1) c(1) by (simp add: butlast_append)
      then have y: "0 \<le> y \<and> y \<le> 10000" if "(if butlast s = [] then Some 0 else py_float_str (butlast s)) = Some y" for y
        using that x t(3) by simp
      have "0 \<le> d \<and> d \<le> 1" if "(f, d) \<in> set fraction_suffixes" for f d using that by (auto simp: fraction_suffixes_def)
      with fraction_value_bound [OF v] y show ?thesis by blast
    next
      case (Some m)
      then obtain y z where m: "m_group 1 m = y" "m_group 2 m = z" "fits (letter_in ''abcd'') z" "s = y @ z \<or> s = y @ z @ [CHR 0x0A]"
        by (rule lettered_split)
      have z: "\<exists>d. z = [d]" using m(3) by (auto simp: letter_in_def)
      have "last s = c" using t(1) c(1) by simp
      then have "s = y @ z" using m(4) suffix_char [OF c(2)] by auto
      with z t(1) c(1) have y: "y = ds @ fs" by auto
      obtain d where d: "z = [d]" using z by blast
      have "v = round_double (x + letter_suffix d)"
        using assms(2) ne strip none Some m(1,2) y x(1) d by (simp add: parse_vol_suffix_def Let_def)
      with rounded_sum_bound [OF x(2,3) letter_suffix_bound] show ?thesis by simp
    qed
  qed
qed

lemma group_bound:
  assumes "parse_vol_suffix (m_group n m) = Some v"
    "m_group n m = [] \<or> (\<exists>g. (n, g) \<in> set (groups r) \<and> fits g (m_group n m))" "\<And>g. (n, g) \<in> set (groups r) \<Longrightarrow> token_rx g"
  shows "0 \<le> v \<and> v \<le> 10001"
proof -
  have "m_group n m \<noteq> []" using assms(1) by (auto simp: parse_vol_suffix_def)
  with assms token_fits token_bound show ?thesis by blast
qed

subsection \<open>Every reading is in bounds\<close>

definition token_groups :: "rx \<Rightarrow> bool" where
  "token_groups r \<longleftrightarrow> (\<forall>p \<in> set (groups r). token_rx (snd p))"

lemma token_groupsD: "token_groups r \<Longrightarrow> (n, g) \<in> set (groups r) \<Longrightarrow> token_rx g"
  by (force simp: token_groups_def)

lemma token_rxI:
  "1 \<le> lo \<Longrightarrow> hi \<le> 4 \<Longrightarrow> token_rx (digits lo hi)"
  "1 \<le> lo \<Longrightarrow> hi \<le> 4 \<Longrightarrow> token_rx (cat [digits lo hi, decimal_suffix])"
  "1 \<le> lo \<Longrightarrow> hi \<le> 4 \<Longrightarrow> token_rx (cat [digits lo hi, decimal_suffix, letter_or_frac])"
  unfolding token_rx_def by blast+

lemma groups_parts [simp]:
  "groups (digits lo hi) = []" "groups decimal_suffix = []" "groups letter_or_frac = []" "groups spaces = []" "groups spaces1 = []"
  "groups wide = []" "groups (letter_in cs) = []" "groups vol_word = []" "groups chap_word = []" "groups ch_word = []" "groups ep_word = []"
  "groups range_dash = []" "groups trailing_guards = []" "groups tome_prefix = []" "groups tome_boundary = []"
  by (simp_all add: digits_def decimal_suffix_def letter_or_frac_def spaces_def spaces1_def wide_def letter_in_def vol_word_def chap_word_def
      ch_word_def ep_word_def range_dash_def trailing_guards_def tome_prefix_def tome_boundary_def)

lemma groups_number [simp]: "groups (number_group n lo hi) = [(n, cat [digits lo hi, decimal_suffix, letter_or_frac])]"
  by (simp add: number_group_def)

lemma token_patterns:
  "token_groups chapter_range_rx" "token_groups dot_pack_rx" "token_groups marked_range_rx" "token_groups bracket_range_rx"
  "token_groups bare_range_rx" "token_groups tome_rx" "token_groups omnibus_rx" "token_groups kanji_volume_rx"
  "token_groups hangul_volume_rx" "token_groups underscore_volume_rx" "token_groups episode_rx" "token_groups bare_number_rx"
  unfolding token_groups_def
  by (auto simp: chapter_range_rx_def dot_pack_rx_def marked_range_rx_def bracket_range_rx_def bare_range_rx_def tome_rx_def omnibus_rx_def
      kanji_volume_rx_def hangul_volume_rx_def underscore_volume_rx_def episode_rx_def bare_number_rx_def intro!: token_rxI)

lemma token_lists: "\<forall>r \<in> set volume_rxs. token_groups r" "\<forall>r \<in> set chapter_rxs. token_groups r"
  by (auto simp: volume_rxs_def chapter_rxs_def numbered_rx_def token_groups_def intro!: token_rxI)

lemma searched_bound:
  assumes "token_groups r" "re_search r s = Some m" "parse_vol_suffix (m_group n m) = Some v"
  shows "0 \<le> v \<and> v \<le> 10001"
  by (rule group_bound [OF assms(3) search_group [OF assms(2)]]) (rule token_groupsD [OF assms(1)])

lemma suffix_bound: "token_groups r \<Longrightarrow> suffix_of (re_search r s) = Some v \<Longrightarrow> 0 \<le> v \<and> v \<le> 10001"
  using searched_bound by (auto simp: suffix_of_def split: option.splits)

lemma marked_bound: "token_groups r \<Longrightarrow> marked_number s k r = Some v \<Longrightarrow> 0 \<le> v \<and> v \<le> 10001"
proof -
  assume r: "token_groups r" and found: "marked_number s k r = Some v"
  have first: "\<exists>x \<in> set xs. f x = Some y" if "first_some f xs = Some y" for f :: "rx_match \<Rightarrow> rat option" and xs y
    using that by (induction xs) (auto split: option.splits)
  obtain m where m: "m \<in> set (re_finditer r s)" "parse_vol_suffix (m_group 1 m) = Some v"
    using first [OF found [unfolded marked_number_def]] by (auto split: if_splits)
  show "0 \<le> v \<and> v \<le> 10001"
    by (rule group_bound [OF m(2) finditer_group [OF m(1)]]) (rule token_groupsD [OF r])
qed

lemma first_some_elem: "first_some f xs = Some y \<Longrightarrow> \<exists>x \<in> set xs. f x = Some y"
  by (induction xs) (auto split: option.splits)

lemma digits_value:
  assumes "re_search r s = Some m" "\<And>g. (n, g) \<in> set (groups r) \<Longrightarrow> \<exists>lo hi. hi \<le> 4 \<and> g = digits lo hi"
  shows "(of_nat (undec (m_group n m)) :: rat) \<le> 9999"
proof -
  have "list_all is_digit (m_group n m) \<and> length (m_group n m) \<le> 4"
    using search_group [OF assms(1), of n]
  proof
    assume "\<exists>g. (n, g) \<in> set (groups r) \<and> fits g (m_group n m)"
    then obtain lo hi where "hi \<le> 4" "fits (digits lo hi) (m_group n m)" using assms(2) by blast
    then show ?thesis by (simp add: fits_digits)
  qed simp
  then have "undec (m_group n m) < 10 ^ length (m_group n m)" "(10 :: nat) ^ length (m_group n m) \<le> 10 ^ 4"
    using undec_bound [of "m_group n m"] by (blast, intro power_increasing) auto
  then have "undec (m_group n m) \<le> 9999" by simp
  then show ?thesis by (metis of_nat_le_iff of_nat_numeral)
qed

lemma chapter_range_bounds:
  assumes "extract_chapter_range title = Some (a, b)"
  shows "0 \<le> a \<and> a < b \<and> b \<le> 10001 \<and> round_double (b - a) \<le> 2000"
proof -
  obtain m where m: "re_search chapter_range_rx title = Some m" "parse_vol_suffix (m_group 1 m) = Some a"
      "parse_vol_suffix (m_group 2 m) = Some b" "a < b" "round_double (b - a) \<le> 2000"
    using assms by (auto simp: extract_chapter_range_def split: if_splits option.splits)
  with searched_bound [OF token_patterns(1) m(1)] show ?thesis by blast
qed

lemma accepted_range_bounds:
  assumes "token_groups r" "accepted_range title r = Some (a, b)"
  shows "0 \<le> a \<and> a < b \<and> b \<le> 10001 \<and> round_double (b - a) < 600"
proof -
  obtain m where m: "re_search r title = Some m" "parse_vol_suffix (m_group 1 m) = Some a"
      "parse_vol_suffix (m_group 2 m) = Some b" "a < b" "round_double (b - a) < 600"
    using assms(2) by (auto simp: accepted_range_def split: if_splits option.splits)
  with searched_bound [OF assms(1) m(1)] show ?thesis by blast
qed

lemma volume_range_bounds:
  assumes "extract_volume_range title = Some (a, b)"
  shows "0 \<le> a \<and> a < b \<and> b \<le> 10001 \<and> round_double (b - a) < 600"
proof (cases "dot_pack_range title")
  case None
  with assms have "first_some (accepted_range title) [marked_range_rx, bracket_range_rx, bare_range_rx] = Some (a, b)"
    by (simp add: extract_volume_range_def split: if_splits)
  from first_some_elem [OF this] obtain r where "r \<in> set [marked_range_rx, bracket_range_rx, bare_range_rx]" "accepted_range title r = Some (a, b)"
    by blast
  then show ?thesis using accepted_range_bounds token_patterns(3-5) by auto
next
  case (Some p)
  with assms have "p = (a, b)" by (simp add: extract_volume_range_def split: if_splits)
  with Some obtain m where m: "re_search dot_pack_rx title = Some m" "a = of_nat (undec (m_group 1 m))" "b = of_nat (undec (m_group 2 m))" "b = a + 1"
    by (auto simp: dot_pack_range_def Let_def split: option.splits if_splits)
  have "b \<le> 9999" unfolding m(3) by (rule digits_value [OF m(1)]) (auto simp: dot_pack_rx_def)
  moreover have "round_double (b - a) = 1" using m(4) round_double_int [of 1] by simp
  ultimately show ?thesis using m(2,4) by simp
qed

lemma volume_num_bounds:
  assumes "extract_volume_num title = Some v"
  shows "0 \<le> v \<and> v \<le> 10001"
proof (cases "re_search tome_rx title")
  case (Some m)
  with assms have v: "v = of_nat (undec (m_group 1 m))" by (simp add: extract_volume_num_def split: if_splits)
  have "\<exists>lo hi. hi \<le> 4 \<and> digits (Suc 0) 3 = digits lo hi" by (rule exI [of _ "Suc 0"], rule exI [of _ 3]) simp
  then have "v \<le> 9999" unfolding v by (intro digits_value [OF Some]) (auto simp: tome_rx_def)
  with v show ?thesis by simp
next
  case tome: None
  let ?named = "first_some (\<lambda>r. suffix_of (re_search r title)) [omnibus_rx, kanji_volume_rx, hangul_volume_rx, underscore_volume_rx]"
  show ?thesis
  proof (cases ?named)
    case (Some x)
    with assms tome have "?named = Some v" by (simp add: extract_volume_num_def split: if_splits)
    from first_some_elem [OF this] show ?thesis using suffix_bound token_patterns by auto
  next
    case named: None
    let ?roman = "case re_search roman_rx title of None \<Rightarrow> None | Some m \<Rightarrow> roman_to_int (m_group 1 m)"
    show ?thesis
    proof (cases ?roman)
      case (Some n)
      with assms tome named have "v = of_int n" by (simp add: extract_volume_num_def split: if_splits)
      moreover have "0 < n \<and> n \<le> 30" using Some by (auto simp: roman_to_int_def Let_def split: option.splits if_splits)
      ultimately show ?thesis by simp
    next
      case None
      with assms tome named obtain k where "first_some (marked_number title k) volume_rxs = Some v"
        by (auto simp: extract_volume_num_def Let_def split: if_splits)
      from first_some_elem [OF this] show ?thesis using marked_bound token_lists by blast
    qed
  qed
qed

lemma chapter_num_bounds:
  assumes "extract_chapter_num title = Some c"
  shows "0 \<le> c \<and> c \<le> 10001"
proof (cases "first_some (\<lambda>r. suffix_of (re_search r title)) (episode_rx # chapter_rxs)")
  case None
  with assms have "bare_chapter title = Some c" by (simp add: extract_chapter_num_def split: if_splits)
  then show ?thesis using suffix_bound [OF token_patterns(12)] by (auto simp: bare_chapter_def split: if_splits option.splits)
next
  case (Some x)
  with assms have "first_some (\<lambda>r. suffix_of (re_search r title)) (episode_rx # chapter_rxs) = Some c"
    by (simp add: extract_chapter_num_def split: if_splits)
  from first_some_elem [OF this] show ?thesis using suffix_bound token_patterns(11) token_lists(2) by auto
qed

text \<open>
  C31: Every title is read within bounds and as at most one range: a chapter range runs upwards, is
  at most 2000 wide and excludes a volume range and a chapter number; a volume range runs upwards,
  is less than 600 wide and excludes a single volume number and a chapter number; and every number
  read off a title lies between 0 and 10001.
\<close>

theorem title_numbers_bounded:
  "(case extract_chapter_range title of None \<Rightarrow> True
      | Some (a, b) \<Rightarrow> 0 \<le> a \<and> a < b \<and> b \<le> 10001 \<and> round_double (b - a) \<le> 2000
          \<and> extract_volume_range title = None \<and> extract_chapter_num title = None)
   \<and> (case extract_volume_range title of None \<Rightarrow> True
      | Some (a, b) \<Rightarrow> 0 \<le> a \<and> a < b \<and> b \<le> 10001 \<and> round_double (b - a) < 600
          \<and> extract_chapter_range title = None \<and> extract_volume_num title = None \<and> extract_chapter_num title = None)
   \<and> (case extract_volume_num title of None \<Rightarrow> True | Some v \<Rightarrow> 0 \<le> v \<and> v \<le> 10001)
   \<and> (case extract_chapter_num title of None \<Rightarrow> True | Some c \<Rightarrow> 0 \<le> c \<and> c \<le> 10001)"
proof (intro conjI)
  show "case extract_chapter_range title of None \<Rightarrow> True
      | Some (a, b) \<Rightarrow> 0 \<le> a \<and> a < b \<and> b \<le> 10001 \<and> round_double (b - a) \<le> 2000
          \<and> extract_volume_range title = None \<and> extract_chapter_num title = None"
    using chapter_range_bounds by (auto simp: extract_volume_range_def extract_chapter_num_def split: option.split)
  show "case extract_volume_range title of None \<Rightarrow> True
      | Some (a, b) \<Rightarrow> 0 \<le> a \<and> a < b \<and> b \<le> 10001 \<and> round_double (b - a) < 600
          \<and> extract_chapter_range title = None \<and> extract_volume_num title = None \<and> extract_chapter_num title = None"
  proof (cases "extract_volume_range title")
    case (Some p)
    obtain a b where p: "p = (a, b)" by (cases p)
    have "extract_chapter_range title = None"
      using Some by (cases "extract_chapter_range title") (simp_all add: extract_volume_range_def)
    moreover have "extract_volume_num title = None" "extract_chapter_num title = None"
      using Some by (simp_all add: extract_volume_num_def extract_chapter_num_def)
    ultimately show ?thesis using Some p volume_range_bounds [of title a b] by simp
  qed simp
qed (use volume_num_bounds chapter_num_bounds in \<open>auto split: option.split\<close>)

subsection \<open>Displayed volume numbers are read back\<close>

text \<open>The suffixes of volume numbers with their hundredths.\<close>

definition shelf_suffixes :: "(string \<times> nat) list" where
  "shelf_suffixes = [([], 0), (''a'', 1), (''b'', 2), (''c'', 3), (''d'', 4), ([CHR 0xBD], 50), ([CHR 0xBC], 25), ([CHR 0xBE], 75)]"

lemma lettered_match:
  assumes "list_all is_digit ds" "ds \<noteq> []" "py_lower_char c \<in> set ''abcd''"
  shows "re_match lettered_rx (ds @ [c]) \<noteq> None"
proof -
  let ?s = "ds @ [c]"
  have c: "\<not> is_digit c" using suffix_char [of c] assms(3) by auto
  have "takeWhile is_digit ?s = ds" using assms(1) c by (simp add: takeWhile_append list_all_iff)
  then have span: "span_limit is_digit None ?s = length ds" by (simp add: span_limit_def)
  have "advance (length ds) ([], ?s, []) \<in> set (attempts (Many is_digit 1 None) ([], ?s, []))"
    using assms(2) by (simp add: span Suc_le_eq del: upt_Suc)
  then have "(rev ds, [c], []) \<in> set (attempts (cat [Many is_digit 1 None, Opt (cat [exact ''.'', Many is_digit 1 None])]) ([], ?s, []))"
    by (auto simp: cat_def advance_def)
  then have "(rev ds, [c], [(1, ds)]) \<in> set (attempts (Grp 1 (cat [Many is_digit 1 None, Opt (cat [exact ''.'', Many is_digit 1 None])])) ([], ?s, []))"
    by (force simp: image_iff)
  moreover have "(c # rev ds, [], [(2, [c]), (1, ds)]) \<in> set (attempts (cat [Grp 2 (letter_in ''abcd''), End]) (rev ds, [c], [(1, ds)]))"
    using assms(3) by (simp add: cat_def letter_in_def advance_def)
  ultimately have "(c # rev ds, [], [(2, [c]), (1, ds)]) \<in> set (attempts (cat [Grp 1 (cat [Many is_digit 1 None,
      Opt (cat [exact ''.'', Many is_digit 1 None])]), Grp 2 (letter_in ''abcd''), End]) ([], ?s, []))"
    by (rule cat_attemptsI)
  then have "(c # rev ds, [], [(2, [c]), (1, ds)]) \<in> set (attempts lettered_rx ([], ?s, []))"
    unfolding lettered_rx_def by (intro cat_attemptsI [of "([], ?s, [])" Begin]) simp
  then show ?thesis by (auto simp: re_match_def match_here_def split: list.splits prod.splits)
qed

lemma near_hundredths:
  assumes "n < 10000" "0 < k" "k < 100" "\<bar>d - of_nat k / 100\<bar> \<le> 1 / 2 ^ 40"
  shows "vol_num_to_display (Some (round_double (of_nat n + d)))
    = (let frac = int k in if frac = 1 then dec_nat n @ ''a'' else if frac = 2 then dec_nat n @ ''b''
        else if frac = 3 then dec_nat n @ ''c'' else if frac = 4 then dec_nat n @ ''d''
        else if frac = 50 then dec_nat n @ [CHR 0xBD] else if frac = 25 then dec_nat n @ [CHR 0xBC]
        else if frac = 75 then dec_nat n @ [CHR 0xBE] else format_g (round_double (of_nat n + d)))"
proof -
  let ?x = "of_nat n + d" and ?v = "round_double (of_nat n + d)"
  have k: "1 / 100 \<le> (of_nat k / 100 :: rat)" "of_nat k / 100 \<le> (99 / 100 :: rat)" using assms(2,3) by simp_all
  have small: "(1 :: rat) / 2 ^ 40 \<le> 1 / 10000000" "(1 :: rat) / (2 * 2 ^ 39) \<le> 1 / 10000000"
    "(1 :: rat) / (2 * 2 ^ 53) \<le> 1 / 10000000" "(1 :: rat) / (2 * 2 ^ 46) \<le> 1 / 10000000" by simp_all
  have d0: "\<bar>d - of_nat k / 100\<bar> \<le> 1 / 10000000" using assms(4) small(1) by (rule order_trans)
  then have d: "0 < d" "d < 1" using k by linarith+
  have "(of_nat n :: rat) \<le> 9999" using assms(1) by simp
  then have "\<bar>?x\<bar> < 2 ^ 14" using d by simp
  then have "\<bar>?v - ?x\<bar> \<le> 1 / (2 * 2 ^ 39)" using round_double_error [of ?x 14] by simp
  then have e1: "\<bar>?v - ?x\<bar> \<le> 1 / 10000000" using small(2) by (rule order_trans)
  have v: "of_nat n < ?v" "?v < of_nat n + 1" using e1 d0 k by linarith+
  then have int: "py_int ?v = int n" by (auto simp: py_int_def floor_eq_iff)
  let ?f = "?v - of_nat n"
  have f: "\<bar>?f - of_nat k / 100\<bar> \<le> 2 / 10000000" using e1 d0 by linarith
  have "\<bar>?f\<bar> < 2 ^ 0" using v by simp
  then have "\<bar>round_double ?f - ?f\<bar> \<le> 1 / (2 * 2 ^ 53)" using round_double_error [of ?f 0] by simp
  then have e2: "\<bar>round_double ?f - ?f\<bar> \<le> 1 / 10000000" using small(3) by (rule order_trans)
  have g: "\<bar>round_double ?f * 100 - of_nat k\<bar> \<le> 1 / 1000" using e2 f by linarith
  have "(of_nat k :: rat) \<le> 99" using assms(3) by simp
  then have "\<bar>round_double ?f * 100\<bar> < 128" using g by linarith
  then have "\<bar>round_double (round_double ?f * 100) - round_double ?f * 100\<bar> \<le> 1 / (2 * 2 ^ 46)"
    using round_double_error [of "round_double ?f * 100" 7] by simp
  then have e3: "\<bar>round_double (round_double ?f * 100) - round_double ?f * 100\<bar> \<le> 1 / 10000000" using small(4) by (rule order_trans)
  have "\<bar>round_double (round_double ?f * 100) - of_nat k\<bar> < 1 / 2" using g e3 by linarith
  then have "volume_fraction ?v = int k" unfolding volume_fraction_def int by (intro round_half_even_eq) simp
  with int assms(2) show ?thesis by (simp add: vol_num_to_display_def dec_int_def Let_def)
qed

text \<open>
  C32: The volume numbers the library shows are read back: for every number below 10000 and every
  suffix (none, a letter for a split volume, a fraction sign), the token is parsed to a number whose
  display is the token again, although the arithmetic in between is binary floating point.
\<close>

theorem volume_display_roundtrip:
  assumes "n < 10000" "(sfx, k) \<in> set shelf_suffixes"
  shows "\<exists>v. parse_vol_suffix (dec_nat n @ sfx) = Some v \<and> vol_num_to_display (Some v) = dec_nat n @ sfx"
proof -
  have ds: "list_all is_digit (dec_nat n)" "dec_nat n \<noteq> []" using dec_nat_digits by (simp_all add: dec_nat.simps [of n])
  have exact: "round_double (of_nat m) = of_nat m" if "m < 10000" for m :: nat
    using round_double_int [of "int m"] that by simp
  have plain: "py_float_str (dec_nat n) = Some (of_nat n)"
    using float_plain [OF ds] exact [OF assms(1)] by simp
  have nonempty: "dec_nat n @ sfx \<noteq> []" using ds(2) by simp
  show ?thesis
  proof (cases "sfx = []")
    case True
    have "py_strip (dec_nat n) = dec_nat n" using token_strip [OF ds, of "[]" "[]"] by simp
    then have "parse_vol_suffix (dec_nat n) = Some (of_nat n)" using plain ds(2) by (simp add: parse_vol_suffix_def Let_def)
    moreover have "vol_num_to_display (Some (of_nat n)) = dec_nat n"
      by (simp add: vol_num_to_display_def volume_fraction_def py_int_def dec_int_def round_half_even_def Let_def)
    ultimately show ?thesis using True by simp
  next
    case False
    then obtain c where c: "sfx = [c]" "(c, k) \<in> {(CHR ''a'', 1), (CHR ''b'', 2), (CHR ''c'', 3), (CHR ''d'', 4), (CHR 0xBD, 50), (CHR 0xBC, 25), (CHR 0xBE, 75)}"
      using assms(2) by (auto simp: shelf_suffixes_def)
    have lower: "py_lower_char c = c" "c \<in> {CHR ''a'', CHR ''b'', CHR ''c'', CHR ''d'', CHR 0xBD, CHR 0xBC, CHR 0xBE}"
      using c(2) by (auto simp: py_lower_char_def Let_def)
    have strip: "py_strip (dec_nat n @ [c]) = dec_nat n @ [c]"
      using token_strip [OF ds, of "[]" "[c]"] suffix_char [of c] lower by simp
    have none: "py_float_str (dec_nat n @ [c]) = None" using float_suffixed [OF ds, of "[]" c] lower by simp
    obtain d where d: "parse_vol_suffix (dec_nat n @ [c]) = Some (round_double (of_nat n + d))" "\<bar>d - of_nat k / 100\<bar> \<le> 1 / 2 ^ 40"
    proof (cases "c \<in> set ''abcd''")
      case True
      with lower(1) have "re_match lettered_rx (dec_nat n @ [c]) \<noteq> None" by (intro lettered_match [OF ds]) simp
      then obtain m where m: "re_match lettered_rx (dec_nat n @ [c]) = Some m" by blast
      then obtain x y where xy: "m_group 1 m = x" "m_group 2 m = y" "fits (letter_in ''abcd'') y" "dec_nat n @ [c] = x @ y \<or> dec_nat n @ [c] = x @ y @ [CHR 0x0A]"
        by (rule lettered_split)
      have "\<exists>e. y = [e]" using xy(3) by (auto simp: letter_in_def)
      moreover have "c \<noteq> CHR 0x0A" using True by auto
      ultimately have "x = dec_nat n" "y = [c]" using xy(4) by auto
      then have p: "parse_vol_suffix (dec_nat n @ [c]) = Some (round_double (of_nat n + letter_suffix c))"
        using strip none m xy(1,2) plain ds(2) by (simp add: parse_vol_suffix_def Let_def)
      have "letter_suffix c = round_double (of_nat k / 100)" "of_nat k / 100 < (2 ^ 0 :: rat)"
        using True c(2) by (auto simp: letter_suffix_def py_lower_char_def Let_def)
      then have "\<bar>letter_suffix c - of_nat k / 100\<bar> \<le> 1 / 2 ^ 40" using round_double_error [of "of_nat k / 100" 0] by simp
      with p show thesis by (rule that)
    next
      case letter: False
      have "re_match lettered_rx (dec_nat n @ [c]) = None"
      proof (rule ccontr)
        assume "re_match lettered_rx (dec_nat n @ [c]) \<noteq> None"
        then obtain m where "re_match lettered_rx (dec_nat n @ [c]) = Some m" by blast
        then obtain x y where xy: "fits (letter_in ''abcd'') y" "dec_nat n @ [c] = x @ y \<or> dec_nat n @ [c] = x @ y @ [CHR 0x0A]"
          by (rule lettered_split)
        obtain e where e: "y = [e]" "py_lower_char e \<in> set ''abcd''" using xy(1) by (auto simp: letter_in_def)
        with xy(2) have "c = e \<or> c = CHR 0x0A" by auto
        moreover have "c \<noteq> e" using e(2) lower(1) letter by metis
        moreover have "c \<noteq> CHR 0x0A" using lower(2) by auto
        ultimately show False by blast
      qed
      then have "parse_vol_suffix (dec_nat n @ [c]) = fraction_value (dec_nat n @ [c]) fraction_suffixes"
        using strip none ds(2) by (simp add: parse_vol_suffix_def Let_def)
      moreover have "fraction_value (dec_nat n @ [c]) fraction_suffixes = Some (round_double (of_nat n + of_nat k / 100))"
      proof -
        have "c = CHR 0xBD \<and> k = 50 \<or> c = CHR 0xBC \<and> k = 25 \<or> c = CHR 0xBE \<and> k = 75" using c(2) letter by auto
        then show ?thesis by (elim disjE conjE) (simp_all add: fraction_suffixes_def plain ds(2))
      qed
      ultimately show thesis using that [of "of_nat k / 100"] by simp
    qed
    have "0 < k" "k < 100" using c(2) by auto
    with near_hundredths [OF assms(1) _ _ d(2)] c(2) have "vol_num_to_display (Some (round_double (of_nat n + d))) = dec_nat n @ [c]"
      by auto
    with d(1) c(1) show ?thesis by blast
  qed
qed

theorem volume_display_roundtrip_witness:
  "\<exists>v. parse_vol_suffix (dec_nat 12 @ ''b'') = Some v \<and> vol_num_to_display (Some v) = dec_nat 12 @ ''b''"
  by (rule volume_display_roundtrip [of 12 "''b''" 2]) (simp_all add: shelf_suffixes_def)

end
