(* ===== verification/Release_Tags.thy ===== *)
theory Release_Tags
  imports Title_Parsing File_Names
begin

text \<open>
  What a release title says of its kind: the classifying half of \<open>app/files.py\<close> (release group,
  revision, quality, edition, language, publisher, fan group) and the language keywords of
  \<open>app/routers/language_profiles.py\<close>. Upper-casing a title changes no boundary and no digit, so
  \<open>parse_revision\<close> searches the title itself with letters of either case.
\<close>

subsection \<open>Release group, revision, quality\<close>

definition group_skip_rx :: rx where
  "group_skip_rx = cat [Begin, alt (map lit [''cbz'', ''cbr'', ''epub'', ''pdf'', ''zip'', ''mobi'', ''digital'', ''scan'', ''hq'', ''lq'', ''web'', ''raw'']
     @ [cat [digits 3 4, lit ''p''], Many (\<lambda>c. is_digit c \<or> py_lower_char c \<in> set ''abcdef'') 8 None, cat [lit ''v'', digits 1 2],
        lit ''fixed'', lit ''repack'', lit ''proper'']), End]"

definition bracket_token_rx :: rx where
  "bracket_token_rx = cat [One (one_of ''[(''), Grp 1 (Many (\<lambda>c. c \<notin> set ''[]()'') 2 (Some 30)), One (one_of ''])'')]"

definition parse_release_group :: "string \<Rightarrow> string" where
  "parse_release_group title =
     (case filter (\<lambda>b. re_match group_skip_rx b = None) (map (\<lambda>m. py_strip (m_group 1 m)) (re_finditer bracket_token_rx title)) of
        [] \<Rightarrow> [] | b # _ \<Rightarrow> b)"

record revision =
  rv_repack :: bool
  rv_proper :: bool
  rv_version :: nat

definition bracket_version_rx :: rx where
  "bracket_version_rx = cat [One (one_of ''[(''), lit ''v'', Grp 1 (digits 1 2), One (one_of ''])'')]"

definition other_volume_rx :: rx where
  "other_volume_rx = alt [cat [Edge, lit ''vol'', Opt (lit ''ume''), Opt (exact ''.''), spaces, One is_digit],
     cat [Edge, exact ''#'', spaces, One is_digit], cat [One is_digit, spaces, wide], cat [One is_digit, spaces, wide]]"

definition version_token_rx :: rx where
  "version_token_rx = cat [Edge, lit ''v'', Grp 1 (digits 1 2), Edge, NotAhead (One is_digit)]"

text \<open>The first token above 1 makes a repack of that version.\<close>

definition later_version :: "rx_match list \<Rightarrow> nat option" where
  "later_version tokens = first_some (\<lambda>m. if undec (m_group 1 m) > 1 then Some (undec (m_group 1 m)) else None) tokens"

definition parse_revision :: "string \<Rightarrow> revision" where
  "parse_revision title =
     (let word = (\<lambda>w. re_found (cat [Edge, lit w, Edge]) title);
          proper = word ''proper'';
          repack = word ''repack'' \<or> proper \<or> word ''fixed'';
          bracket = (case re_search bracket_version_rx title of None \<Rightarrow> None
            | Some m \<Rightarrow> if undec (m_group 1 m) > 1 then Some (undec (m_group 1 m)) else None);
          tokens = re_finditer version_token_rx title;
          bare = (if repack \<or> bracket \<noteq> None then None
            else if re_found other_volume_rx title \<and> tokens \<noteq> [] then later_version tokens
            else if length tokens \<ge> 2 then later_version (drop 1 tokens) else None)
      in case bracket of
           Some v \<Rightarrow> \<lparr>rv_repack = True, rv_proper = proper, rv_version = v\<rparr>
         | None \<Rightarrow>
             (case bare of
                Some v \<Rightarrow> \<lparr>rv_repack = True, rv_proper = proper, rv_version = v\<rparr>
              | None \<Rightarrow> \<lparr>rv_repack = repack, rv_proper = proper, rv_version = 1\<rparr>))"

definition detect_quality_from_title :: "string \<Rightarrow> string" where
  "detect_quality_from_title title =
     (case find (\<lambda>(ext, _). sublist ext (py_lower title)) [(''.cbz'', ''cbz''), (''.cbr'', ''cbr''), (''.epub'', ''epub''), (''.pdf'', ''pdf''), (''.zip'', ''zip'')] of
        None \<Rightarrow> ''unknown'' | Some (_, q) \<Rightarrow> q)"

text \<open>\<open>magic\<close> reads the type of an existing file from its first bytes.\<close>

definition quality_from_filename :: "(string \<Rightarrow> string option) \<Rightarrow> string \<Rightarrow> string option" where
  "quality_from_filename magic filename =
     (let known = (\<lambda>q. q \<in> fst ` set quality_rank_table);
          ext = py_lower (dropWhile (\<lambda>c. c = CHR ''.'') (snd (splitext filename)))
      in case (if filename = [] then None else magic filename) of
           Some t \<Rightarrow> if t \<noteq> [] \<and> known t then Some t else if known ext then Some ext else None
         | None \<Rightarrow> if known ext then Some ext else None)"

subsection \<open>Edition and language\<close>

definition gap_rx :: rx where "gap_rx = Opt (One (\<lambda>c. py_is_space c \<or> c = CHR ''-''))"
definition color_rx :: rx where "color_rx = cat [exact ''colo'', Opt (exact ''u''), exact ''r'']"
definition whole_rx :: "rx list \<Rightarrow> rx" where "whole_rx rs = cat ([Edge] @ rs @ [Edge])"
definition two_words_rx :: "string \<Rightarrow> string \<Rightarrow> rx" where "two_words_rx a b = whole_rx [exact a, spaces1, exact b]"
definition wide_word_rx :: rx where "wide_word_rx = whole_rx [wide]"

definition edition_rxs :: "(rx \<times> string) list" where
  "edition_rxs =
     [(whole_rx [exact ''official'', gap_rx, color_rx], ''official_color''),
      (whole_rx [exact ''full'', gap_rx, color_rx], ''official_color''),
      (whole_rx [exact ''viz'', gap_rx, Opt (cat [exact ''full'', gap_rx]), color_rx], ''official_color''),
      (whole_rx [exact ''digital'', spaces1, color_rx, Opt (exact ''e''), exact ''d''], ''official_color''),
      (whole_rx [color_rx, Opt (exact ''e''), exact ''d'', spaces1, exact ''edition''], ''colored''),
      (whole_rx [exact ''in'', spaces1, color_rx], ''colored''),
      (whole_rx [color_rx, exact ''ed''], ''colored''),
      (whole_rx [exact ''coloredmanga''], ''colored''),
      (whole_rx [exact ''deluxe''], ''deluxe''),
      (alt [whole_rx [exact ''hardcover''], cat [Edge, exact ''hc'', Edge, NotAhead (One re_word)]], ''deluxe''),
      (two_words_rx ''anniversary'' ''edition'', ''deluxe''),
      (whole_rx [exact ''omnibus''], ''omnibus''),
      (whole_rx [exact ''vizbig''], ''omnibus''),
      (two_words_rx ''grand'' ''edition'', ''omnibus''),
      (two_words_rx ''perfect'' ''edition'', ''omnibus''),
      (two_words_rx ''collected'' ''edition'', ''omnibus''),
      (two_words_rx ''complete'' ''collection'', ''omnibus''),
      (alt [whole_rx [exact ''3-in-1''], whole_rx [exact ''three-in-one'']], ''omnibus''),
      (alt [whole_rx [exact ''2-in-1''], whole_rx [exact ''two-in-one'']], ''omnibus''),
      (whole_rx [exact ''collector'', Opt (cat [Opt (One (\<lambda>c. c = CHR 0x27)), exact ''s''])], ''collector''),
      (cat [Edge, exact ''special'', Edge, Opt (cat [spaces1, exact ''edition''])], ''special''),
      (cat [Edge, exact ''limited'', Edge, Opt (cat [spaces1, exact ''edition''])], ''special''),
      (two_words_rx ''canonical'' ''edition'', ''special''),
      (whole_rx [exact ''remaster'', Opt (exact ''ed'')], ''remaster''),
      (two_words_rx ''hd'' ''edition'', ''remaster''),
      (alt [whole_rx [exact ''aizoban''], wide_word_rx], ''aizoban''),
      (alt [whole_rx [exact ''kanzenban''], wide_word_rx], ''kanzenban''),
      (alt [whole_rx [exact ''bunkoban''], wide_word_rx], ''bunkoban''),
      (alt [whole_rx [exact ''tankoubon''], whole_rx [exact ''tankobon''], wide_word_rx], ''tankobon'')]"

definition first_tag :: "(rx \<times> string) list \<Rightarrow> string \<Rightarrow> string option" where
  "first_tag table s = first_some (\<lambda>(r, tag). if re_found r s then Some tag else None) table"

definition detect_edition_type :: "string \<Rightarrow> string option" where
  "detect_edition_type title = first_tag edition_rxs (py_lower title)"

definition language_rxs :: "(rx \<times> string) list" where
  "language_rxs =
     [(whole_rx [alt [exact ''english'', exact ''eng'']], ''en''),
      (whole_rx [alt [cat [exact ''japanes'', Opt (exact ''e'')], cat [exact ''jp'', Opt (exact ''n'')]]], ''ja''),
      (whole_rx [alt [exact ''french'', cat [exact ''fran'', One (one_of [CHR 0xE7, CHR ''c'']), exact ''ais''], cat [exact ''fr'', Opt (exact ''e'')]]], ''fr''),
      (whole_rx [alt [exact ''german'', exact ''deutsch'', exact ''ger'']], ''de''),
      (whole_rx [alt [cat [exact ''spanis'', Opt (exact ''h'')], cat [exact ''espa'', One (one_of [CHR 0xF1, CHR ''n'']), exact ''ol''], exact ''spa'']], ''es''),
      (whole_rx [alt [cat [exact ''italian'', Opt (One (one_of ''oe''))], exact ''ita'']], ''it''),
      (whole_rx [alt [cat [exact ''portugues'', Opt (exact ''e'')], cat [exact ''portugu'', One (one_of [CHR ''e'', CHR 0xEA]), exact ''s''], exact ''por'']], ''pt''),
      (whole_rx [alt [cat [exact ''korea'', Opt (exact ''n'')], exact ''kor'']], ''ko''),
      (whole_rx [alt [cat [exact ''chines'', Opt (exact ''e'')], exact ''mandarin'', exact ''chi'', exact ''chs'', exact ''cht'']], ''zh''),
      (whole_rx [alt [cat [exact ''russia'', Opt (exact ''n'')], exact ''rus'']], ''ru''),
      (whole_rx [alt [exact ''arabic'', exact ''ara'']], ''ar''),
      (whole_rx [alt [cat [exact ''polis'', Opt (exact ''h'')], exact ''pol'']], ''pl''),
      (whole_rx [alt [exact ''dutch'', cat [exact ''nederlande'', Opt (exact ''n'')], exact ''dut'']], ''nl''),
      (whole_rx [alt [exact ''thai'', exact ''tha'']], ''th''),
      (whole_rx [alt [cat [exact ''vietnames'', Opt (exact ''e'')], exact ''vie'']], ''vi''),
      (whole_rx [alt [cat [exact ''indonesia'', Opt (exact ''n'')], exact ''ind'']], ''id'')]"

definition detect_language :: "string \<Rightarrow> string option" where
  "detect_language title = first_tag language_rxs (py_lower title)"

subsection \<open>Publishers and groups\<close>

definition official_rx :: rx where
  "official_rx = (let word = (\<lambda>rs. cat ([Edge] @ rs @ [Edge])) in alt
     [word [lit ''viz'', spaces, Opt (alt (map lit [''media'', ''digital'', ''big'']))],
      word [lit ''kodansha''], word [lit ''seven'', spaces1, lit ''seas''], word [lit ''yen'', spaces1, lit ''press''],
      word [lit ''dark'', spaces1, lit ''horse''], word [lit ''square'', spaces1, lit ''enix''],
      word [lit ''j'', Opt (One (\<lambda>c. c = CHR ''-'' \<or> py_is_space c)), lit ''novel'', spaces, Opt (lit ''club'')],
      word [lit ''vertical'', spaces1, alt [cat [lit ''comic'', Opt (lit ''s'')], cat [lit ''inc'', Opt (exact ''.'')]]],
      word [lit ''tokyopop''], word [lit ''shogakukan''], word [lit ''shueisha''], word [lit ''manga'', spaces, lit ''plus''],
      word [lit ''one'', spaces1, lit ''peace'', spaces1, lit ''books''], word [lit ''ghost'', spaces1, lit ''ship''],
      word [lit ''airship''], word [lit ''lezhin''],
      word [lit ''webtoon'', Opt (lit ''s''), spaces1, alt [lit ''official'', cat [lit ''original'', Opt (lit ''s'')], lit ''canvas'']],
      word [lit ''tapas'', spaces1, lit ''media''], word [lit ''crunchyroll'', spaces1, lit ''manga''],
      word [lit ''azuki'', spaces1, alt [lit ''digital'', cat [lit ''comic'', Opt (lit ''s'')], lit ''manga'']]])"

definition fan_group_rx :: rx where
  "fan_group_rx = alt (map (\<lambda>r. cat [Edge, r, Edge])
     [lit ''lucaz'', lit ''1r0n'', lit ''danke'', lit ''stick'', lit ''jcafe'', lit ''athena'', lit ''dbs'', lit ''cxc'', lit ''habanero'',
      cat [lit ''tnt'', One (\<lambda>c. c = CHR ''-'' \<or> py_is_space c), lit ''empire''], lit ''kc'', lit ''clover'', lit ''empire'',
      cat [lit ''lostner'', Opt (lit ''e''), lit ''varine'']])"

definition is_official_release :: "string \<Rightarrow> bool" where "is_official_release title = re_found official_rx title"
definition is_quality_fan_release :: "string \<Rightarrow> bool" where "is_quality_fan_release title = re_found fan_group_rx title"

definition classify_source_type :: "string \<Rightarrow> string" where
  "classify_source_type title = (if is_official_release title then ''official'' else ''fan'')"

text \<open>\<open>routers/custom_formats.py\<close>.\<close>

definition detect_source_type :: "string \<Rightarrow> string \<Rightarrow> string" where
  "detect_source_type title release_group =
     (if is_official_release title then ''official_digital''
      else let rg = py_lower (py_strip release_group)
        in if is_quality_fan_release title \<or> (rg \<noteq> [] \<and> rg \<noteq> ''unknown'') then ''scanlation''
           else if detect_language title = Some ''ja'' then ''raw'' else ''scanlation'')"

subsection \<open>Language keywords\<close>

definition language_keywords :: "(string \<times> string list) list" where
  "language_keywords = [(''ja'', [''raw'', ''japanese'', ''jp'']), (''ko'', [''korean'', ''kr'']), (''zh-s'', [''chinese'', ''simplified'', ''mandarin'']),
     (''zh-t'', [''traditional'']), (''fr'', [''french'', ''fr'']), (''es'', [''spanish'', ''es'']), (''de'', [''german'', ''de'']), (''en'', [''english'', ''en''])]"

text \<open>\<open>language_profiles.detect_language\<close>.\<close>

definition profile_language :: "string \<Rightarrow> string" where
  "profile_language title =
     (case find (\<lambda>(_, kws). list_ex (\<lambda>kw. sublist kw (py_lower title)) kws) language_keywords of None \<Rightarrow> ''en'' | Some (lang, _) \<Rightarrow> lang)"

subsection \<open>Specials\<close>

definition title_prefix_rx :: "string \<Rightarrow> rx" where
  "title_prefix_rx series_title = cat [Begin, lit (py_lower series_title), alt [cat [spaces, One (one_of ''-:''), spaces], spaces1]]"

definition derive_special_title :: "string \<Rightarrow> string \<Rightarrow> string" where
  "derive_special_title series_title original =
     (let stem = py_strip (fst (splitext (path_basename original)));
          rest = (case re_search (title_prefix_rx series_title) stem of None \<Rightarrow> stem | Some m \<Rightarrow> m_after m);
          title = strip_by (\<lambda>c. c \<in> set '' -:'') rest
      in sanitize_filename (if title \<noteq> [] then title else if stem \<noteq> [] then stem else ''Special''))"

end
