(* ===== verification/Py_Values.thy ===== *)
theory Py_Values
  imports Json_Codec File_Names
begin

text \<open>
  What the code does with decoded JSON values: reading keys, iterating, \<open>in\<close>, \<open>int()\<close>, tests that may
  raise, and splitting at a character.
\<close>

fun split_at_char :: "char \<Rightarrow> string \<Rightarrow> string list" where
  "split_at_char d [] = [[]]"
| "split_at_char d (c # s) =
     (if c = d then [] # split_at_char d s
      else (case split_at_char d s of [] \<Rightarrow> [[c]] | w # ws \<Rightarrow> (c # w) # ws))"

definition obj_get :: "(string \<times> json) list \<Rightarrow> string \<Rightarrow> json option" where
  "obj_get kvs k = map_of (rev kvs) k"

definition obj_truthy :: "(string \<times> json) list \<Rightarrow> string \<Rightarrow> bool" where
  "obj_truthy kvs k = (case obj_get kvs k of None \<Rightarrow> False | Some j \<Rightarrow> json_truthy j)"

text \<open>\<open>(d.get(k) or "").lower()\<close>\<close>

definition obj_lower :: "(string \<times> json) list \<Rightarrow> string \<Rightarrow> py_exn + string" where
  "obj_lower kvs k =
     (case obj_get kvs k of
        None \<Rightarrow> Inr []
      | Some j \<Rightarrow> if \<not> json_truthy j then Inr [] else (case j of JStr s \<Rightarrow> Inr (py_lower s) | _ \<Rightarrow> Inl AttributeError))"

definition json_iter :: "json \<Rightarrow> py_exn + json list" where
  "json_iter j = (case j of JArr xs \<Rightarrow> Inr xs | JStr s \<Rightarrow> Inr (map (\<lambda>c. JStr [c]) s)
     | JObj kvs \<Rightarrow> Inr (map JStr (rev (remdups (rev (map fst kvs))))) | _ \<Rightarrow> Inl TypeError)"

text \<open>\<open>k in j\<close> for a string \<open>k\<close>.\<close>

definition json_in :: "string \<Rightarrow> json \<Rightarrow> py_exn + bool" where
  "json_in k j = (case j of JArr xs \<Rightarrow> Inr (JStr k \<in> set xs) | JStr s \<Rightarrow> Inr (sublist k s)
     | JObj kvs \<Rightarrow> Inr (k \<in> fst ` set kvs) | _ \<Rightarrow> Inl TypeError)"

text \<open>\<open>from_json(v, [])\<close>\<close>

definition from_json_list :: "string option \<Rightarrow> json" where
  "from_json_list v = (case v of None \<Rightarrow> JArr [] | Some s \<Rightarrow> if s = [] then JArr [] else (case loads s of None \<Rightarrow> JArr [] | Some j \<Rightarrow> j))"

text \<open>\<open>int(s)\<close>: digits in groups joined by single underscores, with an optional sign and blanks around.\<close>

definition py_int_str :: "string \<Rightarrow> int option" where
  "py_int_str s =
     (let t = py_strip s;
          (neg, u) = (case t of c # r \<Rightarrow> if c = CHR ''-'' then (True, r) else if c = CHR ''+'' then (False, r) else (False, t) | [] \<Rightarrow> (False, t));
          groups = split_at_char (CHR ''_'') u
      in if list_all (\<lambda>g. g \<noteq> [] \<and> list_all is_digit g) groups
         then Some (if neg then - int (undec (concat groups)) else int (undec (concat groups))) else None)"

definition json_int :: "json \<Rightarrow> py_exn + int" where
  "json_int j = (case j of
      JInt i \<Rightarrow> Inr i
    | JBool b \<Rightarrow> Inr (if b then 1 else 0)
    | JFloat x \<Rightarrow> Inr (py_int x)
    | JStr s \<Rightarrow> (case py_int_str s of None \<Rightarrow> Inl ValueError | Some i \<Rightarrow> Inr i)
    | _ \<Rightarrow> Inl TypeError)"

text \<open>\<open>any\<close> and \<open>all\<close> over tests that may raise, in order.\<close>

fun any_ok :: "('a \<Rightarrow> py_exn + bool) \<Rightarrow> 'a list \<Rightarrow> py_exn + bool" where
  "any_ok f [] = Inr False"
| "any_ok f (x # xs) = (case f x of Inl e \<Rightarrow> Inl e | Inr True \<Rightarrow> Inr True | Inr False \<Rightarrow> any_ok f xs)"

fun all_ok :: "('a \<Rightarrow> py_exn + bool) \<Rightarrow> 'a list \<Rightarrow> py_exn + bool" where
  "all_ok f [] = Inr True"
| "all_ok f (x # xs) = (case f x of Inl e \<Rightarrow> Inl e | Inr True \<Rightarrow> all_ok f xs | Inr False \<Rightarrow> Inr False)"

definition opt_text :: "string option \<Rightarrow> string" where
  "opt_text v = (case v of None \<Rightarrow> [] | Some s \<Rightarrow> s)"

end
