(* ===== verification/Release_Scoring.thy ===== *)
theory Release_Scoring
  imports Release_Tags Py_Values
begin

text \<open>
  From an indexer's hit to a score: \<open>app/evaluation.py\<close>, with the release profiles, custom formats
  and language profiles it asks (\<open>app/routers/release_profiles.py\<close>, \<open>custom_formats.py\<close>,
  \<open>language_profiles.py\<close>). A lookup inside a \<open>try\<close> that swallows every exception is a value of
  \<open>py_exn + 'a\<close> followed by the fallback of its handler. The user's regular expressions are two
  arguments: \<open>rx\<close> is \<open>safe_regex_search\<close> with IGNORECASE (None is a rejected pattern) and \<open>raw\<close> is
  \<open>re.search\<close> with IGNORECASE (None is \<open>re.error\<close>). Numbers in SQLite columns keep the type of
  their column; the log lines are left out.
\<close>

type_synonym user_rx = "string \<Rightarrow> string \<Rightarrow> bool option"

subsection \<open>Tables\<close>

record scoring_series =
  ss_id :: int
  ss_language_profile :: "int option"
  ss_blocked_groups :: "string option"
  ss_preferred_groups :: "string option"
  ss_source_type :: "string option"
  ss_required_scanlator :: "string option"
  ss_omnibus :: "string option"
  ss_quality_profile :: "int option"
  ss_quality_cutoff :: "string option"
  ss_update_strategy :: "string option"

record profile_row =
  pf_id :: int
  pf_enabled :: "int option"
  pf_required :: "string option"
  pf_ignored :: "string option"
  pf_preferred :: "string option"

record language_profile =
  lp_id :: int
  lp_languages :: string
  lp_allow_any :: "int option"

record quality_profile =
  qp_id :: int
  qp_default :: "int option"
  qp_minimum :: "int option"
  qp_cutoff :: "int option"
  qp_min_upgrade :: "int option"

record custom_format =
  cf_id :: int
  cf_name :: string
  cf_specifications :: string

record format_score =
  fs_profile :: int
  fs_format :: int
  fs_score :: int

record quality_definition =
  qd_quality :: string
  qd_min :: "rat option"
  qd_max :: "rat option"

record scoring_db =
  sd_series :: "scoring_series list"
  sd_series_tags :: "(int \<times> string) list"
  sd_default_language :: "string option"
  sd_profiles :: "profile_row list"
  sd_profile_tags :: "(int \<times> string) list"
  sd_languages :: "language_profile list"
  sd_quality_profiles :: "quality_profile list"
  sd_formats :: "custom_format list"
  sd_format_scores :: "format_score list"
  sd_quality_definitions :: "quality_definition list"

type_synonym config = "(string \<times> string) list"

definition get_cfg :: "config \<Rightarrow> string \<Rightarrow> string \<Rightarrow> string" where
  "get_cfg cfg k fallback = (case map_of cfg k of None \<Rightarrow> fallback | Some v \<Rightarrow> v)"

definition comma_words :: "string \<Rightarrow> string list" where
  "comma_words s = map (\<lambda>w. py_lower (py_strip w)) (filter (\<lambda>w. py_strip w \<noteq> []) (split_at_char (CHR '','') s))"

definition scored_series_of :: "scoring_db \<Rightarrow> int option \<Rightarrow> scoring_series option" where
  "scored_series_of db sid = (case sid of None \<Rightarrow> None | Some i \<Rightarrow> find (\<lambda>r. ss_id r = i) (sd_series db))"

definition tags_of :: "(int \<times> string) list \<Rightarrow> int \<Rightarrow> string list" where
  "tags_of rows i = map snd (filter (\<lambda>(j, _). j = i) rows)"

subsection \<open>Release profiles\<close>

datatype profile_term = Plain string | Dict "(string \<times> json) list"

record release_profile =
  rp_required :: "profile_term list"
  rp_ignored :: "profile_term list"
  rp_preferred :: json

definition parse_term :: "string \<Rightarrow> profile_term" where
  "parse_term part =
     (if part \<noteq> [] \<and> hd part = CHR ''{'' then
        (case loads part of
           Some (JObj kvs) \<Rightarrow> if obj_truthy kvs ''term'' then Dict kvs else Plain (py_lower part)
         | _ \<Rightarrow> Plain (py_lower part))
      else Plain (py_lower part))"

definition parse_term_list :: "string \<Rightarrow> profile_term list" where
  "parse_term_list raw = map parse_term (filter (\<lambda>p. p \<noteq> []) (map py_strip (split_at_char (CHR '','') raw)))"

definition dict_match :: "user_rx \<Rightarrow> (string \<times> json) list \<Rightarrow> string \<Rightarrow> py_exn + bool" where
  "dict_match rx kvs t =
     (case obj_lower kvs ''term'' of
        Inl e \<Rightarrow> Inl e
      | Inr w \<Rightarrow> Inr (case (if obj_truthy kvs ''is_regex'' then rx w t else None) of Some b \<Rightarrow> b | None \<Rightarrow> sublist w t))"

definition profile_term_match :: "user_rx \<Rightarrow> string \<Rightarrow> profile_term \<Rightarrow> py_exn + bool" where
  "profile_term_match rx t term = (case term of Plain w \<Rightarrow> Inr (sublist (py_lower w) t) | Dict kvs \<Rightarrow> dict_match rx kvs t)"

definition profile_pref_match :: "user_rx \<Rightarrow> (string \<times> json) list \<Rightarrow> string \<Rightarrow> py_exn + bool" where
  "profile_pref_match rx pref t =
     (case obj_lower pref ''term'' of
        Inl e \<Rightarrow> Inl e
      | Inr w \<Rightarrow> if w = [] then Inr False else dict_match rx pref t)"

definition profile_applies :: "scoring_db \<Rightarrow> string list \<Rightarrow> profile_row \<Rightarrow> bool" where
  "profile_applies db series_tags p \<longleftrightarrow>
     (let tags = tags_of (sd_profile_tags db) (pf_id p) in tags = [] \<or> set tags \<inter> set series_tags \<noteq> {})"

definition read_profile :: "profile_row \<Rightarrow> release_profile" where
  "read_profile p = \<lparr>rp_required = parse_term_list (opt_text (pf_required p)),
     rp_ignored = parse_term_list (opt_text (pf_ignored p)), rp_preferred = from_json_list (pf_preferred p)\<rparr>"

definition get_applicable_profiles :: "scoring_db \<Rightarrow> string list \<Rightarrow> release_profile list" where
  "get_applicable_profiles db series_tags =
     map read_profile (filter (profile_applies db series_tags) (filter (\<lambda>p. pf_enabled p = Some 1) (sd_profiles db)))"

fun preferred_score :: "user_rx \<Rightarrow> string \<Rightarrow> json list \<Rightarrow> int \<Rightarrow> py_exn + int" where
  "preferred_score rx t [] acc = Inr acc"
| "preferred_score rx t (pref # prefs) acc =
     (case pref of
        JObj kvs \<Rightarrow>
          (case (case obj_get kvs ''score'' of None \<Rightarrow> Inr 0 | Some j \<Rightarrow> json_int j) of
             Inl e \<Rightarrow> Inl e
           | Inr score \<Rightarrow>
               (case profile_pref_match rx kvs t of
                  Inl e \<Rightarrow> Inl e
                | Inr hit \<Rightarrow> preferred_score rx t prefs (if hit then acc + score else acc)))
      | _ \<Rightarrow> Inl AttributeError)"

text \<open>None is a profile that rejects the title.\<close>

definition score_profile :: "user_rx \<Rightarrow> string \<Rightarrow> release_profile \<Rightarrow> int \<Rightarrow> py_exn + int option" where
  "score_profile rx t p acc =
     (case (if rp_required p = [] then Inr True else any_ok (profile_term_match rx t) (rp_required p)) of
        Inl e \<Rightarrow> Inl e
      | Inr False \<Rightarrow> Inr None
      | Inr True \<Rightarrow>
          (case any_ok (profile_term_match rx t) (rp_ignored p) of
             Inl e \<Rightarrow> Inl e
           | Inr True \<Rightarrow> Inr None
           | Inr False \<Rightarrow>
               (case json_iter (rp_preferred p) of
                  Inl e \<Rightarrow> Inl e
                | Inr prefs \<Rightarrow> map_sum id Some (preferred_score rx t prefs acc))))"

fun score_profiles :: "user_rx \<Rightarrow> string \<Rightarrow> release_profile list \<Rightarrow> int \<Rightarrow> py_exn + int" where
  "score_profiles rx t [] acc = Inr acc"
| "score_profiles rx t (p # ps) acc =
     (case score_profile rx t p acc of
        Inl e \<Rightarrow> Inl e
      | Inr None \<Rightarrow> Inr (- 1000)
      | Inr (Some acc') \<Rightarrow> score_profiles rx t ps acc')"

definition score_from_release_profiles :: "user_rx \<Rightarrow> string \<Rightarrow> string list \<Rightarrow> scoring_db \<Rightarrow> py_exn + int option" where
  "score_from_release_profiles rx title series_tags db =
     (let ps = get_applicable_profiles db series_tags
      in if ps = [] then Inr None else map_sum id Some (score_profiles rx (py_lower title) ps 0))"

subsection \<open>Custom formats\<close>

definition spec_type :: "(string \<times> json) list \<Rightarrow> string" where
  "spec_type kvs = (case obj_get kvs ''type'' of Some (JStr s) \<Rightarrow> s | _ \<Rightarrow> [])"

definition user_search :: "user_rx \<Rightarrow> (string \<times> json) list \<Rightarrow> string \<Rightarrow> bool option" where
  "user_search rx kvs text = (case obj_get kvs ''value'' of Some (JStr s) \<Rightarrow> rx s text | _ \<Rightarrow> None)"

text \<open>\<open>int(value)\<close> with ValueError and TypeError caught; an infinite float is not among the values of
  \<open>loads\<close>.\<close>

definition spec_megabytes :: "(string \<times> json) list \<Rightarrow> int option" where
  "spec_megabytes kvs = (case json_int (case obj_get kvs ''value'' of None \<Rightarrow> JStr [] | Some j \<Rightarrow> j) of Inl _ \<Rightarrow> None | Inr n \<Rightarrow> Some n)"

definition spec_holds ::
  "user_rx \<Rightarrow> string \<Rightarrow> int \<Rightarrow> string \<Rightarrow> string \<Rightarrow> string \<Rightarrow> json \<Rightarrow> py_exn + bool" where
  "spec_holds rx title size_bytes release_group indexer language spec =
     (case spec of
        JObj kvs \<Rightarrow>
          (case obj_lower kvs ''value'' of
             Inl e \<Rightarrow> Inl e
           | Inr val \<Rightarrow>
               (let ty = spec_type kvs;
                    flip = (\<lambda>hit. hit \<noteq> obj_truthy kvs ''negate'');
                    found = (case user_search rx kvs title of Some b \<Rightarrow> b | None \<Rightarrow> sublist val (py_lower title))
                in Inr
                  (if ty = ''release_title_contains'' then flip found
                   else if ty = ''release_title_not_contains'' then \<not> flip found
                   else if ty = ''release_group_contains'' then flip (sublist val (py_lower release_group))
                   else if ty = ''release_group_not_contains'' then \<not> flip (sublist val (py_lower release_group))
                   else if ty = ''indexer_is'' then flip (py_lower indexer = val)
                   else if ty = ''indexer_contains'' then flip (sublist val (py_lower indexer))
                   else if ty = ''language_is'' then flip (py_lower language = val)
                   else if ty = ''edition_contains'' then flip found
                   else if ty = ''edition_is'' then
                     flip ((case detect_edition_type title of None \<Rightarrow> ''single'' | Some e \<Rightarrow> e) = val)
                   else if ty = ''source_is'' then flip (detect_source_type title release_group = val)
                   else if ty = ''size_minimum'' then
                     flip (case spec_megabytes kvs of None \<Rightarrow> True | Some n \<Rightarrow> size_bytes \<ge> n * 1024 * 1024)
                   else if ty = ''size_maximum'' then
                     flip (case spec_megabytes kvs of None \<Rightarrow> True | Some n \<Rightarrow> size_bytes \<le> n * 1024 * 1024)
                   else True)))
      | _ \<Rightarrow> Inl AttributeError)"

definition evaluate_custom_format ::
  "user_rx \<Rightarrow> json \<Rightarrow> string \<Rightarrow> int \<Rightarrow> string \<Rightarrow> string \<Rightarrow> string \<Rightarrow> py_exn + bool" where
  "evaluate_custom_format rx specifications title size_bytes release_group indexer language =
     (case json_iter specifications of
        Inl e \<Rightarrow> Inl e
      | Inr specs \<Rightarrow> all_ok (spec_holds rx title size_bytes release_group indexer language) specs)"

text \<open>The profile of the series, else the default one; \<open>score_custom_formats\<close> asks with \<open>if series_id\<close>.\<close>

definition scoring_profile_any :: "scoring_db \<Rightarrow> int \<Rightarrow> quality_profile option" where
  "scoring_profile_any db sid =
     (case (case scored_series_of db (Some sid) of
              None \<Rightarrow> None
            | Some s \<Rightarrow> find (\<lambda>p. Some (qp_id p) = ss_quality_profile s) (sd_quality_profiles db)) of
        Some p \<Rightarrow> Some p
      | None \<Rightarrow> find (\<lambda>p. qp_default p = Some 1) (sd_quality_profiles db))"

definition scoring_profile :: "scoring_db \<Rightarrow> int option \<Rightarrow> quality_profile option" where
  "scoring_profile db sid =
     (case (case sid of None \<Rightarrow> 0 | Some i \<Rightarrow> i) of
        i \<Rightarrow> if i = 0 then find (\<lambda>p. qp_default p = Some 1) (sd_quality_profiles db) else scoring_profile_any db i)"

text \<open>The joined rows of a profile: name, specifications, score.\<close>

definition profile_formats :: "scoring_db \<Rightarrow> int \<Rightarrow> (string \<times> string \<times> int) list" where
  "profile_formats db profile_id =
     concat (map (\<lambda>q. map (\<lambda>f. (cf_name f, cf_specifications f, fs_score q)) (filter (\<lambda>f. cf_id f = fs_format q) (sd_formats db)))
       (filter (\<lambda>q. fs_profile q = profile_id) (sd_format_scores db)))"

fun total_formats :: "(string \<Rightarrow> py_exn + bool) \<Rightarrow> (string \<times> string \<times> int) list \<Rightarrow> int \<Rightarrow> py_exn + int" where
  "total_formats test [] acc = Inr acc"
| "total_formats test ((_, specs, score) # rows) acc =
     (case test specs of Inl e \<Rightarrow> Inl e | Inr hit \<Rightarrow> total_formats test rows (if hit then acc + score else acc))"

definition score_custom_formats ::
  "user_rx \<Rightarrow> scoring_db \<Rightarrow> int option \<Rightarrow> string \<Rightarrow> string \<Rightarrow> string \<Rightarrow> string \<Rightarrow> py_exn + int" where
  "score_custom_formats rx db sid title release_group indexer language =
     (case scoring_profile db sid of
        None \<Rightarrow> Inr 0
      | Some p \<Rightarrow> total_formats (\<lambda>specs. evaluate_custom_format rx (from_json_list (Some specs)) title 0 release_group indexer language)
          (profile_formats db (qp_id p)) 0)"

subsection \<open>Language profiles\<close>

definition joinable :: "json \<Rightarrow> bool" where
  "joinable j = (case j of JArr xs \<Rightarrow> list_all (\<lambda>x. case x of JStr _ \<Rightarrow> True | _ \<Rightarrow> False) xs | _ \<Rightarrow> True)"

text \<open>Whether the title passes; a refusal first joins the allowed languages into its reason.\<close>

definition check_language_profile :: "scoring_db \<Rightarrow> int \<Rightarrow> string \<Rightarrow> py_exn + bool" where
  "check_language_profile db profile_id title =
     (if profile_id = 0 then Inr True
      else case find (\<lambda>p. lp_id p = profile_id) (sd_languages db) of
        None \<Rightarrow> Inr True
      | Some p \<Rightarrow>
          if lp_allow_any p \<noteq> None \<and> lp_allow_any p \<noteq> Some 0 then Inr True
          else (case loads (lp_languages p) of
            None \<Rightarrow> Inr True
          | Some allowed \<Rightarrow>
              (case json_in ''any'' allowed of
                 Inl e \<Rightarrow> Inl e
               | Inr True \<Rightarrow> Inr True
               | Inr False \<Rightarrow>
                   (case json_in (profile_language title) allowed of
                      Inl e \<Rightarrow> Inl e
                    | Inr True \<Rightarrow> Inr True
                    | Inr False \<Rightarrow> if joinable allowed then Inr False else Inl TypeError))))"

definition series_language_profile :: "scoring_db \<Rightarrow> int option \<Rightarrow> int option" where
  "series_language_profile db sid =
     (case sid of
        None \<Rightarrow> None
      | Some _ \<Rightarrow>
          (case (case scored_series_of db sid of None \<Rightarrow> None | Some s \<Rightarrow> ss_language_profile s) of
             Some l \<Rightarrow> if l \<noteq> 0 then Some l else (case sd_default_language db of None \<Rightarrow> None | Some v \<Rightarrow> py_int_str v)
           | None \<Rightarrow> (case sd_default_language db of None \<Rightarrow> None | Some v \<Rightarrow> py_int_str v)))"

subsection \<open>\<open>score_release\<close>\<close>

definition word_rx :: "string \<Rightarrow> rx" where "word_rx w = cat [Edge, lit w, Edge]"

definition text_groups :: "json \<Rightarrow> py_exn + string list" where
  "text_groups j =
     (case json_iter j of
        Inl e \<Rightarrow> Inl e
      | Inr xs \<Rightarrow> if list_all (\<lambda>x. case x of JStr _ \<Rightarrow> True | _ \<Rightarrow> False) xs
          then Inr (map (\<lambda>w. py_lower (py_strip w)) (filter (\<lambda>w. py_strip w \<noteq> []) (map (\<lambda>x. case x of JStr s \<Rightarrow> s | _ \<Rightarrow> []) xs)))
          else Inl AttributeError)"

text \<open>The groups of a series column; every failure leaves the global list alone.\<close>

definition column_groups :: "string option \<Rightarrow> string list" where
  "column_groups col =
     (case col of
        None \<Rightarrow> []
      | Some s \<Rightarrow> if s = [] then [] else
          (case loads s of None \<Rightarrow> [] | Some j \<Rightarrow> (case text_groups j of Inl _ \<Rightarrow> [] | Inr gs \<Rightarrow> gs)))"

definition blocked_groups :: "config \<Rightarrow> scoring_series option \<Rightarrow> string list" where
  "blocked_groups cfg s = comma_words (get_cfg cfg ''blocked_groups'' []) @ (case s of None \<Rightarrow> [] | Some r \<Rightarrow> column_groups (ss_blocked_groups r))"

definition preferred_groups :: "config \<Rightarrow> scoring_series option \<Rightarrow> string list" where
  "preferred_groups cfg s = comma_words (get_cfg cfg ''preferred_groups'' []) @ (case s of None \<Rightarrow> [] | Some r \<Rightarrow> column_groups (ss_preferred_groups r))"

text \<open>The score of the words, or a sentinel: release profiles when one applies, else the settings.\<close>

definition settings_score :: "config \<Rightarrow> string \<Rightarrow> int + int" where
  "settings_score cfg t =
     (let required = comma_words (get_cfg cfg ''required_words'' [])
      in if list_ex (\<lambda>w. re_found (word_rx w) t) (comma_words (get_cfg cfg ''ignored_words'' [])) then Inl (- 999)
         else if required \<noteq> [] \<and> \<not> list_ex (\<lambda>w. re_found (word_rx w) t) required then Inl (- 998)
         else Inr (10 * int (length (filter (\<lambda>w. sublist w t) (comma_words (get_cfg cfg ''preferred_words'' []))))))"

definition word_score :: "user_rx \<Rightarrow> config \<Rightarrow> scoring_db \<Rightarrow> int option \<Rightarrow> string \<Rightarrow> int + int" where
  "word_score rx cfg db sid title =
     (case (case sid of None \<Rightarrow> Inr None | Some i \<Rightarrow> score_from_release_profiles rx title (tags_of (sd_series_tags db) i) db) of
        Inr (Some n) \<Rightarrow> if n \<le> - 1000 then Inl (- 999) else Inr n
      | _ \<Rightarrow> settings_score cfg (py_lower title))"

definition source_refused :: "scoring_series option \<Rightarrow> string \<Rightarrow> bool" where
  "source_refused s title =
     (case s of None \<Rightarrow> False
      | Some r \<Rightarrow> ss_source_type r = Some ''official_only'' \<and> \<not> is_official_release title
          \<or> ss_source_type r = Some ''fan_only'' \<and> is_official_release title)"

definition scanlator_refused :: "scoring_series option \<Rightarrow> string \<Rightarrow> bool" where
  "scanlator_refused s title =
     (case s of None \<Rightarrow> False
      | Some r \<Rightarrow> (let w = py_lower (py_strip (opt_text (ss_required_scanlator r))) in w \<noteq> [] \<and> \<not> sublist w (py_lower title)))"

definition language_refused :: "scoring_db \<Rightarrow> int option \<Rightarrow> string \<Rightarrow> bool" where
  "language_refused db lang title = (case lang of None \<Rightarrow> False | Some l \<Rightarrow> check_language_profile db l title = Inr False)"

definition video_rx :: rx where
  "video_rx = cat [Edge, alt (map exact [''1080p'', ''720p'', ''480p'', ''2160p'', ''4k uhd'', ''bluray'', ''blu-ray'', ''bdrip'', ''webrip'', ''web-dl'',
     ''hdtv'', ''x264'', ''x265'', ''h264'', ''h265'', ''hevc'', ''avc'', ''xvid'', ''divx'', ''remux'', ''.mkv'', ''.mp4'', ''.avi'']), Edge]"

definition game_rx :: rx where
  "game_rx = cat [Edge, alt (map exact [''ps4'', ''ps5'', ''xbox'', ''nintendo switch'', ''pc game'', ''repack'', ''fitgirl'', ''skidrow'',
     ''codex'', ''plaza'', ''cpy'', ''empress'']), Edge]"

definition iso_rx :: rx where "iso_rx = cat [Edge, exact ''iso'', Edge]"

definition audio_rx :: rx where
  "audio_rx = cat [Edge, alt (map exact [''flac'', ''mp3'', ''aac'', ''320kbps'', ''lossless'', ''discography'']), Edge]"

definition other_media :: "string \<Rightarrow> bool" where
  "other_media t \<longleftrightarrow> re_found video_rx t \<or> re_found game_rx t \<or> re_found iso_rx t \<or> re_found audio_rx t"

definition is_omnibus :: "string \<Rightarrow> bool" where
  "is_omnibus title \<longleftrightarrow> extract_volume_range title \<noteq> None \<or> is_complete_pack title 0
     \<or> list_ex (\<lambda>w. sublist w (py_lower title)) [''omnibus'', ''3-in-1'', ''2-in-1'', ''box set'', ''collected edition'', ''deluxe edition'']"

definition omnibus_preference :: "scoring_series option \<Rightarrow> string" where
  "omnibus_preference s = (case s of None \<Rightarrow> ''prefer_individual''
     | Some r \<Rightarrow> if opt_text (ss_omnibus r) = [] then ''prefer_individual'' else opt_text (ss_omnibus r))"

text \<open>The points of the preference; None rejects.\<close>

definition omnibus_score :: "string \<Rightarrow> string \<Rightarrow> int option" where
  "omnibus_score pref title =
     (let omni = is_omnibus title; complete = is_complete_pack title 0
      in if pref = ''only_individual'' then (if omni then None else Some 0)
         else if pref = ''only_omnibus'' then (if \<not> omni then None else Some (25 + (if complete then 15 else 0)))
         else if pref = ''prefer_omnibus'' then Some (if omni then 20 + (if complete then 10 else 0) else - 10)
         else Some ((if omni then 8 else 0) + (if complete then 12 else 0)))"

definition volume_bonus :: "rat option \<Rightarrow> string \<Rightarrow> int" where
  "volume_bonus volume_num title =
     (case volume_num of
        None \<Rightarrow> 0
      | Some v \<Rightarrow>
          (case extract_volume_num title of
             None \<Rightarrow> 0
           | Some r \<Rightarrow> (let gap = \<bar>round_double (r - v)\<bar> in if gap < round_double (1 / 100) then 3 else if gap \<le> 1 then 1 else 0))
          + (case extract_volume_range title of
               None \<Rightarrow> 0
             | Some (a, b) \<Rightarrow> (let width = round_double (round_double (b - a) + 1)
                 in if a \<le> v \<and> v \<le> b then max 0 (3 - py_int (round_double (width / 5))) else 0)))"

definition century_rx :: rx where
  "century_rx = cat [Edge, Grp 1 (alt [cat [exact ''20'', digits 2 2], cat [exact ''19'', digits 2 2]]), Edge]"

definition year_bonus :: "int option \<Rightarrow> string \<Rightarrow> int" where
  "year_bonus pub_year title =
     (case pub_year of
        None \<Rightarrow> 0
      | Some y \<Rightarrow> if y > 1900 then (case re_search century_rx title of None \<Rightarrow> 0 | Some m \<Rightarrow> if int (undec (m_group 1 m)) = y then 1 else 0) else 0)"

definition quality_bonus :: "string \<Rightarrow> int" where
  "quality_bonus title = (if is_official_release title then 15 else if is_quality_fan_release title then 10 else 0)"

definition score_release ::
  "user_rx \<Rightarrow> config \<Rightarrow> scoring_db \<Rightarrow> string \<Rightarrow> int option \<Rightarrow> string \<Rightarrow> string \<Rightarrow> string \<Rightarrow> rat option \<Rightarrow> int option \<Rightarrow> int" where
  "score_release rx cfg db title sid release_group indexer language volume_num pub_year =
     (let t = py_lower title;
          s = scored_series_of db sid;
          lang = series_language_profile db sid
      in if lang = None \<and> is_foreign_language title then - 999
         else (case word_score rx cfg db sid title of
           Inl sentinel \<Rightarrow> sentinel
         | Inr words \<Rightarrow>
             if list_ex (\<lambda>g. sublist g t) (blocked_groups cfg s) then - 999
             else if source_refused s title then - 999
             else if scanlator_refused s title then - 999
             else if language_refused db lang title then - 9999
             else if other_media t then - 999
             else (case omnibus_score (omnibus_preference s) title of
               None \<Rightarrow> - 999
             | Some omnibus \<Rightarrow>
                 words + 15 * int (length (filter (\<lambda>g. sublist g t) (preferred_groups cfg s))) + quality_bonus title + omnibus
                 + volume_bonus volume_num title + year_bonus pub_year title
                 + (case score_custom_formats rx db sid title release_group indexer language of Inl _ \<Rightarrow> 0 | Inr n \<Rightarrow> n))))"

subsection \<open>\<open>evaluate_release\<close>\<close>

record release_hit =
  rh_title :: string
  rh_url :: string
  rh_size_bytes :: "int option"
  rh_size :: "int option"
  rh_group :: string
  rh_indexer :: string
  rh_seeders :: "int option"

definition hit_size :: "release_hit \<Rightarrow> int" where
  "hit_size h = (case rh_size_bytes h of Some n \<Rightarrow> if n \<noteq> 0 then n else (case rh_size h of None \<Rightarrow> 0 | Some m \<Rightarrow> m)
     | None \<Rightarrow> (case rh_size h of None \<Rightarrow> 0 | Some m \<Rightarrow> m))"

datatype rejection = ForeignScan | GroupBlocked string | TermsMissing "string list" | IgnoredFound string | WordsMissing "string list"
  | BelowMinimum rat string rat | AboveMaximum rat string rat | FormatScoreLow int int

datatype release_status = WouldGrab | LowScore | Rejected

record evaluation =
  ev_score :: int
  ev_status :: release_status
  ev_rejections :: "rejection list"
  ev_matches :: "(string \<times> int) list"
  ev_quality :: string
  ev_size_mb :: rat

definition term_display :: "profile_term \<Rightarrow> string" where
  "term_display term = (case term of Plain w \<Rightarrow> w | Dict kvs \<Rightarrow> (case obj_get kvs ''term'' of Some (JStr s) \<Rightarrow> s | _ \<Rightarrow> []))"

text \<open>\<open>_term_match\<close> searches the pattern unguarded.\<close>

definition term_match :: "user_rx \<Rightarrow> string \<Rightarrow> profile_term \<Rightarrow> py_exn + bool" where
  "term_match raw t term = profile_term_match raw t term"

fun ignored_rejections :: "user_rx \<Rightarrow> string \<Rightarrow> profile_term list \<Rightarrow> rejection list \<times> bool" where
  "ignored_rejections raw t [] = ([], True)"
| "ignored_rejections raw t (term # terms) =
     (case term_match raw t term of
        Inl e \<Rightarrow> ([], False)
      | Inr hit \<Rightarrow> (let (rs, ok) = ignored_rejections raw t terms in ((if hit then IgnoredFound (term_display term) # rs else rs), ok)))"

text \<open>The rejections found and whether the loop ended without an exception; one that is raised keeps
  the rejections so far and skips the rest.\<close>

fun profile_rejections :: "user_rx \<Rightarrow> string \<Rightarrow> release_profile list \<Rightarrow> rejection list \<times> bool" where
  "profile_rejections raw t [] = ([], True)"
| "profile_rejections raw t (p # ps) =
     (case (if rp_required p = [] then Inr True else any_ok (term_match raw t) (rp_required p)) of
        Inl e \<Rightarrow> ([], False)
      | Inr found \<Rightarrow>
          (let missing = (if found then [] else [TermsMissing (map term_display (rp_required p))]);
               (ignored, ok) = ignored_rejections raw t (rp_ignored p)
           in if \<not> ok then (missing @ ignored, False)
              else (let (rest, ok') = profile_rejections raw t ps in (missing @ ignored @ rest, ok'))))"

definition settings_rejections :: "config \<Rightarrow> string \<Rightarrow> rejection list" where
  "settings_rejections cfg t =
     (let required = comma_words (get_cfg cfg ''required_words'' [])
      in map IgnoredFound (filter (\<lambda>w. sublist w t) (comma_words (get_cfg cfg ''ignored_words'' [])))
         @ (if required \<noteq> [] \<and> \<not> list_ex (\<lambda>w. sublist w t) required then [WordsMissing required] else []))"

definition word_rejections :: "user_rx \<Rightarrow> config \<Rightarrow> scoring_db \<Rightarrow> int \<Rightarrow> string \<Rightarrow> rejection list" where
  "word_rejections raw cfg db sid t =
     (let ps = get_applicable_profiles db (tags_of (sd_series_tags db) sid)
      in if ps = [] then settings_rejections cfg t else fst (profile_rejections raw t ps))"

text \<open>\<open>round(size / (1024 * 1024), 1)\<close>: correctly rounded on the exact value of the double.\<close>

definition size_in_mb :: "int \<Rightarrow> rat" where
  "size_in_mb n = (if n = 0 then 0 else round_double (of_int (round_half_even (round_double (of_int n / 1048576) * 10)) / 10))"

definition quality_definition_of :: "scoring_db \<Rightarrow> string \<Rightarrow> quality_definition option" where
  "quality_definition_of db q = find (\<lambda>d. qd_quality d = q) (sd_quality_definitions db)"

definition opt_rat :: "rat option \<Rightarrow> rat" where "opt_rat v = (case v of None \<Rightarrow> 0 | Some x \<Rightarrow> x)"

definition size_rejections :: "scoring_db \<Rightarrow> string \<Rightarrow> rat \<Rightarrow> rejection list" where
  "size_rejections db quality mb =
     (case quality_definition_of db quality of
        None \<Rightarrow> []
      | Some d \<Rightarrow>
          if mb = 0 then []
          else (if opt_rat (qd_min d) > 0 \<and> mb < opt_rat (qd_min d) then [BelowMinimum mb quality (opt_rat (qd_min d))] else [])
            @ (if opt_rat (qd_max d) > 0 \<and> mb > opt_rat (qd_max d) then [AboveMaximum mb quality (opt_rat (qd_max d))] else []))"

fun matching_formats :: "(string \<Rightarrow> py_exn + bool) \<Rightarrow> (string \<times> string \<times> int) list \<Rightarrow> (string \<times> int) list \<times> bool" where
  "matching_formats test [] = ([], True)"
| "matching_formats test ((name, specs, score) # rows) =
     (case test specs of
        Inl e \<Rightarrow> ([], False)
      | Inr hit \<Rightarrow> (let (ms, ok) = matching_formats test rows in ((if hit then (name, score) # ms else ms), ok)))"

definition format_matches :: "user_rx \<Rightarrow> scoring_db \<Rightarrow> int \<Rightarrow> string \<Rightarrow> int \<Rightarrow> (string \<times> int) list \<times> rejection list" where
  "format_matches rx db sid title size_bytes =
     (case scoring_profile_any db sid of
        None \<Rightarrow> ([], [])
      | Some p \<Rightarrow>
          if qp_id p = 0 then ([], [])
          else (let (ms, ok) = matching_formats (\<lambda>specs. evaluate_custom_format rx (from_json_list (Some specs)) title size_bytes [] [] [])
                      (profile_formats db (qp_id p));
                    minimum = (case qp_minimum p of None \<Rightarrow> 0 | Some m \<Rightarrow> m);
                    total_cf = sum_list (map snd ms)
                in (ms, if ok \<and> minimum > 0 \<and> total_cf < minimum then [FormatScoreLow total_cf minimum] else [])))"

definition evaluate_release :: "user_rx \<Rightarrow> user_rx \<Rightarrow> config \<Rightarrow> scoring_db \<Rightarrow> int \<Rightarrow> release_hit \<Rightarrow> evaluation" where
  "evaluate_release rx raw cfg db sid h =
     (let title = rh_title h; t = py_lower title; mb = size_in_mb (hit_size h); quality = detect_quality_from_title title
      in if is_foreign_language title
         then \<lparr>ev_score = - 999, ev_status = Rejected, ev_rejections = [ForeignScan], ev_matches = [], ev_quality = quality, ev_size_mb = mb\<rparr>
         else
           (let (ms, low) = format_matches rx db sid title (hit_size h);
                rs = map GroupBlocked (filter (\<lambda>g. sublist g t) (comma_words (get_cfg cfg ''blocked_groups'' [])))
                  @ word_rejections raw cfg db sid t @ size_rejections db quality mb @ low;
                sc = score_release rx cfg db title (Some sid) [] [] [] None None
            in \<lparr>ev_score = sc, ev_status = (if rs \<noteq> [] then Rejected else if sc < 0 then LowScore else WouldGrab),
                 ev_rejections = rs, ev_matches = ms, ev_quality = quality, ev_size_mb = mb\<rparr>))"

subsection \<open>Sizes in indexer answers\<close>

definition size_rx :: rx where
  "size_rx = cat [Grp 1 (Many (\<lambda>c. is_digit c \<or> c = CHR ''.'') 1 None), spaces, Opt (Grp 2 (One (\<lambda>c. py_lower_char c \<in> set ''kmgt''))),
     Opt (lit ''i''), lit ''b'']"

definition parse_size_bytes :: "string \<Rightarrow> py_exn + int" where
  "parse_size_bytes size_str =
     (if size_str = [] then Inr 0
      else case re_match size_rx size_str of
        None \<Rightarrow> Inr 0
      | Some m \<Rightarrow>
          (case py_float_str (m_group 1 m) of
             None \<Rightarrow> Inl ValueError
           | Some val \<Rightarrow>
               (let unit = py_lower (m_group 2 m);
                    factor = (if unit = ''k'' then 1024 else if unit = ''m'' then 1024 ^ 2 else if unit = ''g'' then 1024 ^ 3
                      else if unit = ''t'' then 1024 ^ 4 else 1)
                in Inr (py_int (round_double (val * factor))))))"

end
