(* ===== verification/Release_Decision.thy ===== *)
theory Release_Decision
  imports Release_Scoring
begin

text \<open>
  The scoring decisions of \<open>app/grab_core.py\<close>: the pass that collects search results, and the gate a
  release must pass before it replaces a volume that is already in the library.
\<close>

subsection \<open>Collecting results\<close>

definition size_refused :: "scoring_db \<Rightarrow> release_hit \<Rightarrow> bool" where
  "size_refused db h =
     (let mb = round_double (of_int (hit_size h) / 1048576)
      in if hit_size h = 0 then False
         else case (case quality_definition_of db (detect_quality_from_title (rh_title h)) of
             Some d \<Rightarrow> Some d | None \<Rightarrow> quality_definition_of db ''unknown'') of
           None \<Rightarrow> False
         | Some d \<Rightarrow> opt_rat (qd_min d) > 0 \<and> mb < opt_rat (qd_min d) \<or> opt_rat (qd_max d) > 0 \<and> mb > opt_rat (qd_max d))"

definition seeder_points :: "release_hit \<Rightarrow> int" where
  "seeder_points h = min (case rh_seeders h of None \<Rightarrow> 0 | Some n \<Rightarrow> n) 20"

fun collect_and_score ::
  "user_rx \<Rightarrow> config \<Rightarrow> scoring_db \<Rightarrow> release_hit list \<Rightarrow> string list \<Rightarrow> (release_hit \<times> int) list \<times> string list" where
  "collect_and_score rx cfg db [] seen = ([], seen)"
| "collect_and_score rx cfg db (h # hs) seen =
     (let sc = score_release rx cfg db (rh_title h) None (rh_group h) (rh_indexer h) [] None None
      in if rh_url h = [] \<or> rh_url h \<in> set seen \<or> sc \<le> - 900 \<or> size_refused db h then collect_and_score rx cfg db hs seen
         else (let (out, seen') = collect_and_score rx cfg db hs (rh_url h # seen) in ((h, sc + seeder_points h) # out, seen')))"

subsection \<open>Replacing a volume\<close>

datatype volume_hold = HeldWanted | HeldGrabbed | HeldDownloaded

record held_volume =
  hv_status :: volume_hold
  hv_quality :: "string option"
  hv_group :: "string option"
  hv_torrent_name :: "string option"

datatype gate = GateOpen | InFlight | OnceOnly | RepackRefused | CrossGroupRepack | AtCutoff | CeilingReached | GainTooSmall

definition quality_cutoff :: "config \<Rightarrow> scoring_series \<Rightarrow> string" where
  "quality_cutoff cfg s = (if opt_text (ss_quality_cutoff s) \<noteq> [] then opt_text (ss_quality_cutoff s) else get_cfg cfg ''quality_cutoff'' [])"

definition update_strategy :: "scoring_series \<Rightarrow> string" where
  "update_strategy s = (if opt_text (ss_update_strategy s) \<noteq> [] then opt_text (ss_update_strategy s) else ''always'')"

definition repack_gate :: "config \<Rightarrow> string \<Rightarrow> held_volume \<Rightarrow> gate option" where
  "repack_gate cfg title held =
     (let mode = get_cfg cfg ''propers_and_repacks'' ''prefer_and_upgrade'';
          old = py_lower (py_strip (opt_text (hv_group held))); new = py_lower (parse_release_group title)
      in if \<not> rv_repack (parse_revision title) then None
         else if mode = ''do_not_upgrade'' then Some RepackRefused
         else if mode = ''prefer_and_upgrade'' \<and> old \<noteq> [] \<and> new \<noteq> [] \<and> old \<noteq> new then Some CrossGroupRepack
         else None)"

text \<open>The profile of the series only: no default profile here.\<close>

definition upgrade_gates :: "scoring_db \<Rightarrow> scoring_series \<Rightarrow> int \<times> int" where
  "upgrade_gates db s =
     (case find (\<lambda>p. Some (qp_id p) = ss_quality_profile s) (sd_quality_profiles db) of
        None \<Rightarrow> (10000, 10)
      | Some p \<Rightarrow> ((case qp_cutoff p of None \<Rightarrow> 10000 | Some n \<Rightarrow> n), (case qp_min_upgrade p of None \<Rightarrow> 10 | Some n \<Rightarrow> n)))"

definition format_gate ::
  "user_rx \<Rightarrow> config \<Rightarrow> scoring_db \<Rightarrow> scoring_series \<Rightarrow> release_hit \<Rightarrow> rat \<Rightarrow> int option \<Rightarrow> held_volume \<Rightarrow> gate" where
  "format_gate rx cfg db s h vol pub_year held =
     (let new_score = score_release rx cfg db (rh_title h) (Some (ss_id s)) (rh_group h) (rh_indexer h) [] (Some vol) pub_year;
          old_score = score_release rx cfg db (opt_text (hv_torrent_name held)) (Some (ss_id s)) (opt_text (hv_group held)) [] [] (Some vol) pub_year;
          (ceiling, gain) = upgrade_gates db s
      in if old_score \<ge> ceiling then CeilingReached else if new_score - old_score < gain then GainTooSmall else GateOpen)"

definition volume_gate ::
  "user_rx \<Rightarrow> (string \<Rightarrow> string option) \<Rightarrow> config \<Rightarrow> scoring_db \<Rightarrow> scoring_series \<Rightarrow> release_hit \<Rightarrow> rat \<Rightarrow> int option \<Rightarrow> held_volume option \<Rightarrow> gate" where
  "volume_gate rx magic cfg db s h vol pub_year found =
     (case found of
        None \<Rightarrow> GateOpen
      | Some held \<Rightarrow>
          if hv_status held = HeldWanted then GateOpen
          else if hv_status held = HeldGrabbed then InFlight
          else if update_strategy s = ''once'' then OnceOnly
          else case repack_gate cfg (rh_title h) held of
            Some g \<Rightarrow> g
          | None \<Rightarrow>
              if quality_cutoff cfg s \<noteq> [] \<and> quality_rank (hv_quality held) \<ge> quality_rank (Some (quality_cutoff cfg s)) then AtCutoff
              else if quality_rank (quality_from_filename magic (rh_title h)) > quality_rank (hv_quality held) then GateOpen
              else format_gate rx cfg db s h vol pub_year held)"

text \<open>The first grab of a volume: no quality below the cutoff.\<close>

definition below_cutoff :: "(string \<Rightarrow> string option) \<Rightarrow> config \<Rightarrow> scoring_series \<Rightarrow> string \<Rightarrow> bool" where
  "below_cutoff magic cfg s title \<longleftrightarrow>
     quality_cutoff cfg s \<noteq> []
     \<and> (case quality_from_filename magic title of
          None \<Rightarrow> False
        | Some q \<Rightarrow> q \<noteq> [] \<and> quality_rank (Some q) < quality_rank (Some (quality_cutoff cfg s)))"

subsection \<open>What a score that is not a sentinel means\<close>

lemma total_not_sentinel:
  assumes "score_release rx cfg db title sid rg ix la vol pub > - 900"
  obtains n omni where
    "series_language_profile db sid = None \<longrightarrow> \<not> is_foreign_language title"
    "word_score rx cfg db sid title = Inr n"
    "\<not> list_ex (\<lambda>g. sublist g (py_lower title)) (blocked_groups cfg (scored_series_of db sid))"
    "\<not> source_refused (scored_series_of db sid) title" "\<not> scanlator_refused (scored_series_of db sid) title"
    "\<not> language_refused db (series_language_profile db sid) title" "\<not> other_media (py_lower title)"
    "omnibus_score (omnibus_preference (scored_series_of db sid)) title = Some omni"
proof -
  let ?s = "scored_series_of db sid" and ?l = "series_language_profile db sid"
  have lang: "\<not> (?l = None \<and> is_foreign_language title)" using assms by (auto simp: score_release_def Let_def)
  obtain n where words: "word_score rx cfg db sid title = Inr n"
  proof (cases "word_score rx cfg db sid title")
    case (Inl e)
    then have "e \<le> - 900"
      by (auto simp: word_score_def settings_score_def Let_def split: sum.splits option.splits if_splits)
    with assms lang Inl show ?thesis by (auto simp: score_release_def Let_def)
  next
    case (Inr n)
    then show ?thesis by (rule that)
  qed
  have "\<not> list_ex (\<lambda>g. sublist g (py_lower title)) (blocked_groups cfg ?s)"
    "\<not> source_refused ?s title" "\<not> scanlator_refused ?s title" "\<not> language_refused db ?l title" "\<not> other_media (py_lower title)"
    "omnibus_score (omnibus_preference ?s) title \<noteq> None"
    using assms lang words by (auto simp: score_release_def Let_def split: if_splits option.splits)
  with lang words show ?thesis using that by auto
qed

subsection \<open>Terms are never regular expressions\<close>

text \<open>What a reader of JSON leaves is part of what it was given.\<close>

lemma skip_ws_subset: "set (skip_ws s) \<subseteq> set s"
  unfolding skip_ws_def using set_dropWhileD by fastforce

lemma parse_text_subset: "parse_text s = Some (x, r) \<Longrightarrow> set r \<subseteq> set s"
proof (induction "length s" arbitrary: s x r rule: less_induct)
  case less
  have shorter: "parse_text u = Some (y, r) \<Longrightarrow> length u < length s \<Longrightarrow> set u \<subseteq> set s \<Longrightarrow> set r \<subseteq> set s" for u y
    using less.hyps [of u y r] by blast
  obtain c cs where s: "s = c # cs" using less.prems by (cases s) auto
  show ?case
  proof (cases "c = backslash")
    case False
    then show ?thesis using less.prems s shorter [of cs]
      by (cases "c = dquote") (auto split: if_splits)
  next
    case True
    then obtain e ds where cs: "cs = e # ds" using less.prems s by (cases cs) (auto simp: dquote_neq_backslash [symmetric])
    show ?thesis
    proof (cases "e = CHR ''u''")
      case False
      then show ?thesis using less.prems s cs True shorter [of ds]
        by (auto simp: dquote_neq_backslash [symmetric] split: option.splits)
    next
      case e: True
      obtain z1 z2 h l es where ds: "ds = z1 # z2 # h # l # es"
        using less.prems s cs True e by (auto simp: dquote_neq_backslash [symmetric] split: list.splits)
      have "\<exists>y. parse_text es = Some (y, r)"
        using less.prems s cs True e ds by (auto simp: dquote_neq_backslash [symmetric] split: option.splits nat.splits)
      then show ?thesis using shorter [of es] s cs ds by auto
    qed
  qed
qed

lemma take_digits_subset: "set (snd (take_digits s)) \<subseteq> set s"
  unfolding take_digits_def using set_dropWhileD by fastforce

lemma parse_fraction_subset: "set (snd (parse_fraction s)) \<subseteq> set s"
  by (auto simp: parse_fraction_def take_digits_def split: list.splits dest: set_dropWhileD)

lemma parse_exponent_subset: "set (snd (parse_exponent s)) \<subseteq> set s"
  by (auto simp: parse_exponent_def Let_def take_digits_def split: list.splits if_splits dest: set_dropWhileD)

lemma parse_number_subset:
  assumes "parse_number s = Some (j, r)"
  shows "set r \<subseteq> set s"
proof -
  obtain neg q where q: "(case s of c # q \<Rightarrow> if c = CHR ''-'' then (True, q) else (False, s) | [] \<Rightarrow> (False, s)) = (neg, q)" "set q \<subseteq> set s"
    by (cases s; cases "hd s = CHR ''-''") auto
  obtain ds0 t0 where d: "take_digits q = (ds0, t0)" by (cases "take_digits q")
  have t0: "set t0 \<subseteq> set q" "set ds0 \<subseteq> set q" using take_digits_subset [of q] d by (auto simp: take_digits_def dest: set_takeWhileD)
  have ne: "ds0 \<noteq> []" using assms q(1) d by (auto simp: parse_number_def Let_def)
  obtain ds t where t: "(if hd ds0 = CHR ''0'' then ([hd ds0], tl ds0 @ t0) else (ds0, t0)) = (ds, t)" "set t \<subseteq> set q"
    using t0 ne by (cases ds0; cases "hd ds0 = CHR ''0''") auto
  obtain frac t1 where f: "parse_fraction t = (frac, t1)" by (cases "parse_fraction t")
  obtain ex t2 where e: "parse_exponent t1 = (ex, t2)" by (cases "parse_exponent t1")
  have "r = t2" using assms q(1) d ne t(1) f e by (auto simp: parse_number_def Let_def split: if_splits)
  moreover have "set t2 \<subseteq> set t1" "set t1 \<subseteq> set t" using parse_exponent_subset [of t1] parse_fraction_subset [of t] f e by auto
  ultimately show ?thesis using t(2) q(2) by auto
qed

lemma strip_prefix_subset: "strip_prefix p s = Some r \<Longrightarrow> set r \<subseteq> set s"
  by (auto simp: strip_prefix_def split: if_splits dest: in_set_dropD)

lemma skip_ws_consD: "skip_ws s = c # r \<Longrightarrow> c \<in> set s \<and> set r \<subseteq> set s"
  using skip_ws_subset [of s] by auto

definition reads_within :: "nat \<Rightarrow> bool" where
  "reads_within n \<longleftrightarrow> (\<forall>s j r. parse_value n s = Some (j, r) \<longrightarrow> set r \<subseteq> set s)
     \<and> (\<forall>s js r. parse_elements n s = Some (js, r) \<longrightarrow> set r \<subseteq> set s)
     \<and> (\<forall>s kvs r. parse_members n s = Some (kvs, r) \<longrightarrow> set r \<subseteq> set s)"

lemma parse_members_obtain:
  assumes "parse_members (Suc n) s = Some (kvs, r)"
  obtains q r0 k t u x v d w where "skip_ws s = q # r0" "parse_text r0 = Some (k, t)" "skip_ws t = CHR '':'' # u"
    "parse_value n u = Some (x, v)" "skip_ws v = d # w"
    "d = CHR ''}'' \<and> kvs = [(k, x)] \<and> r = w \<or> d = CHR '','' \<and> (\<exists>rest. kvs = (k, x) # rest \<and> parse_members n w = Some (rest, r))"
  using assms by (auto split: list.splits if_splits option.splits)

lemma parse_value_cases:
  assumes "parse_value (Suc n) s = Some (j, r)"
  obtains c r0 where "skip_ws s = c # r0"
    "(\<exists>x. parse_text r0 = Some (x, r))
     \<or> (\<exists>d t. skip_ws r0 = d # t \<and> (r = t \<and> (j = JObj [] \<or> j = JArr []) \<or> (\<exists>kvs. j = JObj kvs \<and> parse_members n (d # t) = Some (kvs, r))
          \<or> (\<exists>xs. j = JArr xs \<and> parse_elements n (d # t) = Some (xs, r))))
     \<or> (\<exists>p. strip_prefix p (c # r0) = Some r) \<or> parse_number (c # r0) = Some (j, r)"
  using assms by (auto split: list.splits if_splits option.splits)

lemma reads_within: "reads_within n"
proof (induction n)
  case 0
  then show ?case by (simp add: reads_within_def)
next
  case (Suc n)
  have single: "set r \<subseteq> set s" if "parse_value n s = Some (j, r)" for s j r using Suc that by (auto simp: reads_within_def)
  have elements: "set r \<subseteq> set s" if "parse_elements n s = Some (js, r)" for s js r using Suc that by (auto simp: reads_within_def)
  have members: "set r \<subseteq> set s" if "parse_members n s = Some (kvs, r)" for s kvs r using Suc that by (auto simp: reads_within_def)
  have one: "set r \<subseteq> set s" if red: "parse_value (Suc n) s = Some (j, r)" for s j r
  proof -
    obtain c r0 where c: "skip_ws s = c # r0" and cases:
      "(\<exists>x. parse_text r0 = Some (x, r))
       \<or> (\<exists>d t. skip_ws r0 = d # t \<and> (r = t \<and> (j = JObj [] \<or> j = JArr []) \<or> (\<exists>kvs. j = JObj kvs \<and> parse_members n (d # t) = Some (kvs, r))
            \<or> (\<exists>xs. j = JArr xs \<and> parse_elements n (d # t) = Some (xs, r))))
       \<or> (\<exists>p. strip_prefix p (c # r0) = Some r) \<or> parse_number (c # r0) = Some (j, r)"
      by (rule parse_value_cases [OF red])
    have within: "insert c (set r0) \<subseteq> set s" using skip_ws_consD [OF c] by auto
    from cases have "set r \<subseteq> insert c (set r0)"
    proof (elim disjE exE conjE)
      fix x assume "parse_text r0 = Some (x, r)"
      then show ?thesis using parse_text_subset by blast
    next
      fix d t assume "skip_ws r0 = d # t" "r = t"
      then show ?thesis using skip_ws_consD by blast
    next
      fix d t assume "skip_ws r0 = d # t" "r = t"
      then show ?thesis using skip_ws_consD by blast
    next
      fix d t kvs assume "skip_ws r0 = d # t" "parse_members n (d # t) = Some (kvs, r)"
      then show ?thesis using skip_ws_consD [of r0 d t] members [of "d # t" kvs r] by auto
    next
      fix d t xs assume "skip_ws r0 = d # t" "parse_elements n (d # t) = Some (xs, r)"
      then show ?thesis using skip_ws_consD [of r0 d t] elements [of "d # t" xs r] by auto
    next
      fix p assume "strip_prefix p (c # r0) = Some r"
      then show ?thesis using strip_prefix_subset by fastforce
    next
      assume "parse_number (c # r0) = Some (j, r)"
      then show ?thesis using parse_number_subset by fastforce
    qed
    with within show ?thesis by blast
  qed
  have many: "set r \<subseteq> set s" if red: "parse_elements (Suc n) s = Some (js, r)" for s js r
  proof -
    obtain x t d u where v: "parse_value n s = Some (x, t)" and d: "skip_ws t = d # u"
      and rest: "r = u \<or> (\<exists>xs. parse_elements n u = Some (xs, r))"
      using red by (auto split: list.splits if_splits option.splits)
    show ?thesis using single [OF v] skip_ws_consD [OF d] rest elements [of u] by blast
  qed
  have pairs: "set r \<subseteq> set s" if red: "parse_members (Suc n) s = Some (kvs, r)" for s kvs r
  proof -
    obtain q r0 k t u x v d w where m: "skip_ws s = q # r0" "parse_text r0 = Some (k, t)" "skip_ws t = CHR '':'' # u"
      "parse_value n u = Some (x, v)" "skip_ws v = d # w"
      and rest: "d = CHR ''}'' \<and> kvs = [(k, x)] \<and> r = w \<or> d = CHR '','' \<and> (\<exists>rest. kvs = (k, x) # rest \<and> parse_members n w = Some (rest, r))"
      by (rule parse_members_obtain [OF red])
    have "set r \<subseteq> set w" using rest members [of w] by blast
    also have "\<dots> \<subseteq> set v" using skip_ws_consD [OF m(5)] by blast
    also have "\<dots> \<subseteq> set u" by (rule single [OF m(4)])
    also have "\<dots> \<subseteq> set t" using skip_ws_consD [OF m(3)] by blast
    also have "\<dots> \<subseteq> set r0" by (rule parse_text_subset [OF m(2)])
    also have "\<dots> \<subseteq> set s" using skip_ws_consD [OF m(1)] by blast
    finally show ?thesis .
  qed
  show ?case unfolding reads_within_def using one many pairs by blast
qed

text \<open>Without a comma there is one member.\<close>

lemma no_comma_members:
  assumes "parse_members n s = Some (kvs, r)" "CHR '','' \<notin> set s"
  shows "length kvs = 1"
proof (cases n)
  case 0
  with assms(1) show ?thesis by simp
next
  case (Suc k)
  obtain q r0 key t u x v d w where m: "skip_ws s = q # r0" "parse_text r0 = Some (key, t)" "skip_ws t = CHR '':'' # u"
      "parse_value k u = Some (x, v)" "skip_ws v = d # w"
    and rest: "d = CHR ''}'' \<and> kvs = [(key, x)] \<and> r = w \<or> d = CHR '','' \<and> (\<exists>rest. kvs = (key, x) # rest \<and> parse_members k w = Some (rest, r))"
    by (rule parse_members_obtain [OF assms(1) [unfolded Suc]])
  have "set v \<subseteq> set u" using reads_within [of k] m(4) by (auto simp: reads_within_def)
  then have "d \<in> set s" using skip_ws_consD [OF m(1)] parse_text_subset [OF m(2)] skip_ws_consD [OF m(3)] skip_ws_consD [OF m(5)] by blast
  with assms(2) rest show ?thesis by auto
qed

lemma no_comma_object:
  assumes "loads s = Some (JObj kvs)" "CHR '','' \<notin> set s"
  shows "length kvs \<le> 1"
proof -
  obtain r where read: "parse_value (Suc (length s)) s = Some (JObj kvs, r)"
    using assms(1) by (auto simp: loads_def split: option.splits if_splits)
  obtain c r0 where c: "skip_ws s = c # r0" and kvs: "kvs = [] \<or> (\<exists>d t. skip_ws r0 = d # t \<and> parse_members (length s) (d # t) = Some (kvs, r))"
    using read by (auto simp: parse_number_def Let_def split: list.splits if_splits option.splits prod.splits)
  show ?thesis
  proof (cases "kvs = []")
    case False
    with kvs obtain d t where m: "skip_ws r0 = d # t" "parse_members (length s) (d # t) = Some (kvs, r)" by blast
    have "CHR '','' \<notin> set (d # t)" using assms(2) skip_ws_consD [OF c] skip_ws_consD [OF m(1)] by auto
    then show ?thesis using no_comma_members [OF m(2)] by simp
  qed simp
qed

lemma split_at_char_free: "w \<in> set (split_at_char d s) \<Longrightarrow> d \<notin> set w"
proof (induction s arbitrary: w)
  case (Cons c s)
  then show ?case by (cases "split_at_char d s") (auto split: if_splits)
qed simp

lemma parsed_terms:
  assumes "term \<in> set (parse_term_list raw)"
  shows "(\<exists>w. term = Plain w) \<or> (\<exists>kvs. term = Dict kvs \<and> \<not> obj_truthy kvs ''is_regex'' \<and> obj_truthy kvs ''term'')"
proof -
  obtain w where w: "w \<in> set (split_at_char (CHR '','') raw)" "term = parse_term (py_strip w)"
    using assms by (auto simp: parse_term_list_def)
  have "CHR '','' \<notin> set (py_strip w)" using split_at_char_free [OF w(1)] strip_by_subset by (fastforce simp: py_strip_def)
  then have one: "loads (py_strip w) = Some (JObj kvs) \<Longrightarrow> length kvs \<le> 1" for kvs using no_comma_object by blast
  have "\<not> obj_truthy kvs ''is_regex''" if "length kvs \<le> 1" "obj_truthy kvs ''term''" for kvs
    using that by (cases kvs) (auto simp: obj_truthy_def obj_get_def split: if_splits)
  then show ?thesis using w(2) one by (auto simp: parse_term_def split: option.splits json.splits if_splits)
qed

text \<open>The literal a term stands for.\<close>

definition term_text :: "profile_term \<Rightarrow> string" where
  "term_text term = (case term of Plain w \<Rightarrow> py_lower w
     | Dict kvs \<Rightarrow> (case obj_get kvs ''term'' of Some (JStr s) \<Rightarrow> py_lower s | _ \<Rightarrow> []))"

definition text_term :: "profile_term \<Rightarrow> bool" where
  "text_term term \<longleftrightarrow> (case term of Plain _ \<Rightarrow> True
     | Dict kvs \<Rightarrow> (case obj_get kvs ''term'' of Some (JStr _) \<Rightarrow> True | _ \<Rightarrow> False))"

lemma term_match_text:
  assumes "term \<in> set (parse_term_list raw)" "text_term term"
  shows "profile_term_match rx t term = Inr (sublist (term_text term) t)"
  using parsed_terms [OF assms(1)] assms(2)
  by (auto simp: profile_term_match_def dict_match_def term_text_def text_term_def obj_lower_def obj_truthy_def
      split: option.splits json.splits)

lemma term_match_engine:
  assumes "term \<in> set (parse_term_list raw)"
  shows "profile_term_match rx t term = profile_term_match rx' t term"
  using parsed_terms [OF assms] by (auto simp: profile_term_match_def dict_match_def split: sum.splits)

lemma any_ok_cong: "(\<And>x. x \<in> set xs \<Longrightarrow> f x = g x) \<Longrightarrow> any_ok f xs = any_ok g xs"
  by (induction xs) (auto split: sum.splits bool.splits)

lemma any_ok_total: "(\<And>x. x \<in> set xs \<Longrightarrow> f x = Inr (P x)) \<Longrightarrow> any_ok f xs = Inr (list_ex P xs)"
  by (induction xs) (auto split: bool.splits)

text \<open>
  A defect of the term reader: it promises inline objects with \<open>is_regex\<close>, but cuts the list at its
  commas before it reads an object, so that no object with both \<open>term\<close> and \<open>is_regex\<close> survives and
  the regular-expression engine has no influence on whether some term matches.
\<close>

lemma profile_terms_ignore_regex:
  "any_ok (profile_term_match rx title) (parse_term_list raw) = any_ok (profile_term_match rx' title) (parse_term_list raw)"
  by (rule any_ok_cong) (rule term_match_engine)

lemma regex_term_lost:
  "parse_term_list (''{'' @ json_string ''term'' @ '':'' @ json_string ''^ch'' @ '','' @ json_string ''is_regex'' @ '':true}'')
     = [Plain (''{'' @ json_string ''term'' @ '':'' @ json_string ''^ch''), Plain (json_string ''is_regex'' @ '':true}'')]"
  by code_simp

subsection \<open>Releases offered as grabbable\<close>

definition text_rules :: "release_profile \<Rightarrow> bool" where
  "text_rules p \<longleftrightarrow> list_all text_term (rp_required p) \<and> list_all text_term (rp_ignored p)"

lemma applicable_terms:
  assumes "p \<in> set (get_applicable_profiles db tags)"
  obtains r i where "rp_required p = parse_term_list r" "rp_ignored p = parse_term_list i"
  using assms by (auto simp: get_applicable_profiles_def read_profile_def)

lemma profile_matches:
  assumes "p \<in> set (get_applicable_profiles db tags)" "text_rules p"
  shows "any_ok (term_match rx t) (rp_required p) = Inr (list_ex (\<lambda>m. sublist (term_text m) t) (rp_required p))"
    and "m \<in> set (rp_ignored p) \<Longrightarrow> term_match rx t m = Inr (sublist (term_text m) t)"
proof -
  obtain r i where ri: "rp_required p = parse_term_list r" "rp_ignored p = parse_term_list i"
    by (rule applicable_terms [OF assms(1)])
  show "any_ok (term_match rx t) (rp_required p) = Inr (list_ex (\<lambda>m. sublist (term_text m) t) (rp_required p))"
    using assms(2) ri by (intro any_ok_total) (auto simp: term_match_def text_rules_def list_all_iff intro: term_match_text)
  show "m \<in> set (rp_ignored p) \<Longrightarrow> term_match rx t m = Inr (sublist (term_text m) t)"
    using assms(2) ri by (auto simp: term_match_def text_rules_def list_all_iff intro: term_match_text)
qed

lemma ignored_rejections_Nil:
  assumes "\<And>m. m \<in> set ms \<Longrightarrow> term_match rx t m = Inr (P m)"
  shows "ignored_rejections rx t ms = (rs, ok) \<Longrightarrow> ok \<and> (rs = [] \<longleftrightarrow> \<not> list_ex P ms)"
  using assms by (induction ms arbitrary: rs) (auto split: prod.splits)

definition profile_admits :: "release_profile \<Rightarrow> string \<Rightarrow> bool" where
  "profile_admits p t \<longleftrightarrow> (rp_required p = [] \<or> list_ex (\<lambda>m. sublist (term_text m) t) (rp_required p))
     \<and> \<not> list_ex (\<lambda>m. sublist (term_text m) t) (rp_ignored p)"

lemma profile_rejections_Nil:
  assumes "set ps \<subseteq> set (get_applicable_profiles db tags)" "list_all text_rules ps"
  shows "fst (profile_rejections rx t ps) = [] \<longleftrightarrow> list_all (\<lambda>p. profile_admits p t) ps"
  using assms
proof (induction ps)
  case (Cons p ps)
  have p: "p \<in> set (get_applicable_profiles db tags)" "text_rules p" using Cons.prems by auto
  obtain rs ok where ig: "ignored_rejections rx t (rp_ignored p) = (rs, ok)" by (cases "ignored_rejections rx t (rp_ignored p)")
  have "ok \<and> (rs = [] \<longleftrightarrow> \<not> list_ex (\<lambda>m. sublist (term_text m) t) (rp_ignored p))"
    by (rule ignored_rejections_Nil [OF _ ig]) (rule profile_matches(2) [OF p])
  then show ?case using Cons ig profile_matches(1) [OF p, of rx t]
    by (auto simp: profile_admits_def split: prod.splits)
qed simp

lemma column_or_settings:
  "settings_rejections cfg t = [] \<longleftrightarrow>
     \<not> list_ex (\<lambda>w. sublist w t) (comma_words (get_cfg cfg ''ignored_words'' []))
     \<and> (comma_words (get_cfg cfg ''required_words'' []) = [] \<or> list_ex (\<lambda>w. sublist w t) (comma_words (get_cfg cfg ''required_words'' [])))"
  by (auto simp: settings_rejections_def Let_def filter_empty_conv list_ex_iff)

text \<open>The words of a title are allowed: every applicable profile admits it, or the settings do.\<close>

definition words_allowed :: "config \<Rightarrow> release_profile list \<Rightarrow> string \<Rightarrow> bool" where
  "words_allowed cfg ps t \<longleftrightarrow> (if ps = [] then settings_rejections cfg t = [] else list_all (\<lambda>p. profile_admits p t) ps)"

definition size_allowed :: "scoring_db \<Rightarrow> string \<Rightarrow> rat \<Rightarrow> bool" where
  "size_allowed db quality mb \<longleftrightarrow> (case quality_definition_of db quality of None \<Rightarrow> True
     | Some d \<Rightarrow> mb = 0 \<or> (opt_rat (qd_min d) \<le> 0 \<or> opt_rat (qd_min d) \<le> mb) \<and> (opt_rat (qd_max d) \<le> 0 \<or> mb \<le> opt_rat (qd_max d)))"

lemma size_rejections_Nil: "size_rejections db quality mb = [] \<longleftrightarrow> size_allowed db quality mb"
  by (auto simp: size_rejections_def size_allowed_def split: option.splits)

text \<open>
  C33: A release the search shows as one it would grab passes every hard filter: its title is not
  marked as foreign, contains no blocked group of the settings or of the series, comes from the kind
  of source the series asks for and contains its required scanlator, has a language the profile of
  the series allows, has no marker of video, games or audio, is or is not a pack as the series
  demands, satisfies the required and ignored terms of every release profile that applies (of the
  settings, when none applies), and its size lies within the bounds of its quality, as far as it is
  known: a release of unknown size, or of one that rounds to 0.0 MB, passes the size filter, as does
  a quality without bounds (\<open>size_allowed\<close>); its score is not negative. The terms of the profiles have
  to be texts: reading any other value raises, and the evaluation then drops the rest of the word
  rules.
\<close>

theorem would_grab_passes_filters:
  assumes "ev_status (evaluate_release rx raw cfg db sid h) = WouldGrab"
    and "list_all text_rules (get_applicable_profiles db (tags_of (sd_series_tags db) sid))"
  shows "let title = rh_title h; t = py_lower title; s = scored_series_of db (Some sid); ev = evaluate_release rx raw cfg db sid h in
     ev_score ev \<ge> 0 \<and> \<not> is_foreign_language title
     \<and> \<not> list_ex (\<lambda>g. sublist g t) (blocked_groups cfg s)
     \<and> \<not> source_refused s title \<and> \<not> scanlator_refused s title
     \<and> \<not> language_refused db (series_language_profile db (Some sid)) title
     \<and> \<not> other_media t \<and> omnibus_score (omnibus_preference s) title \<noteq> None
     \<and> words_allowed cfg (get_applicable_profiles db (tags_of (sd_series_tags db) sid)) t
     \<and> size_allowed db (ev_quality ev) (ev_size_mb ev)"
proof -
  let ?title = "rh_title h" and ?ps = "get_applicable_profiles db (tags_of (sd_series_tags db) sid)"
  obtain ms low where fm: "format_matches rx db sid ?title (hit_size h) = (ms, low)" by (cases "format_matches rx db sid ?title (hit_size h)")
  have plain: "\<not> is_foreign_language ?title" using assms(1) by (auto simp: evaluate_release_def Let_def)
  have score: "score_release rx cfg db ?title (Some sid) [] [] [] None None \<ge> 0"
    and none: "word_rejections raw cfg db sid (py_lower ?title) = []"
      "size_rejections db (detect_quality_from_title ?title) (size_in_mb (hit_size h)) = []"
    using assms(1) plain fm by (auto simp: evaluate_release_def Let_def split: if_splits)
  have ev: "ev_score (evaluate_release rx raw cfg db sid h) = score_release rx cfg db ?title (Some sid) [] [] [] None None"
    "ev_quality (evaluate_release rx raw cfg db sid h) = detect_quality_from_title ?title"
    "ev_size_mb (evaluate_release rx raw cfg db sid h) = size_in_mb (hit_size h)"
    using plain fm by (simp_all add: evaluate_release_def Let_def)
  have words: "words_allowed cfg ?ps (py_lower ?title)"
    using none(1) profile_rejections_Nil [OF order_refl assms(2), of raw "py_lower ?title"]
    by (auto simp: word_rejections_def words_allowed_def Let_def split: if_splits)
  have size: "size_allowed db (detect_quality_from_title ?title) (size_in_mb (hit_size h))"
    using none(2) by (simp add: size_rejections_Nil)
  have good: "score_release rx cfg db ?title (Some sid) [] [] [] None None > - 900" using score by simp
  show ?thesis
    by (rule total_not_sentinel [OF good]) (use score plain words size ev in \<open>simp add: Let_def\<close>)
qed

subsection \<open>Collected releases\<close>

definition collectable :: "user_rx \<Rightarrow> config \<Rightarrow> scoring_db \<Rightarrow> release_hit \<Rightarrow> bool" where
  "collectable rx cfg db h \<longleftrightarrow> rh_url h \<noteq> []
     \<and> score_release rx cfg db (rh_title h) None (rh_group h) (rh_indexer h) [] None None > - 900 \<and> \<not> size_refused db h"

definition collected_score :: "user_rx \<Rightarrow> config \<Rightarrow> scoring_db \<Rightarrow> release_hit \<Rightarrow> int" where
  "collected_score rx cfg db h =
     score_release rx cfg db (rh_title h) None (rh_group h) (rh_indexer h) [] None None + seeder_points h"

lemma collect_step:
  "collect_and_score rx cfg db (h # hs) seen =
     (if collectable rx cfg db h \<and> rh_url h \<notin> set seen
      then (let (out, seen') = collect_and_score rx cfg db hs (rh_url h # seen) in ((h, collected_score rx cfg db h) # out, seen'))
      else collect_and_score rx cfg db hs seen)"
  by (auto simp: collectable_def collected_score_def Let_def)

declare collect_and_score.simps(2) [simp del]

text \<open>
  C34: The pass over search results keeps one release per URL: its output is a choice of the results
  in which no URL appears twice and none was seen before, every release in it scores above the
  rejection sentinels on its own title and has an allowed size, and nothing acceptable is lost: the
  URL of every acceptable result is in the output or was seen before. The URLs seen afterwards are
  exactly those seen before and those in the output.
\<close>

theorem collected_releases_exact:
  "case collect_and_score rx cfg db hits seen of (out, seen') \<Rightarrow>
     subseq (map fst out) hits
     \<and> distinct (map (rh_url \<circ> fst) out) \<and> set (map (rh_url \<circ> fst) out) \<inter> set seen = {}
     \<and> list_all (\<lambda>(h, sc). collectable rx cfg db h \<and> sc = collected_score rx cfg db h) out
     \<and> rh_url ` {h \<in> set hits. collectable rx cfg db h} \<subseteq> set (map (rh_url \<circ> fst) out) \<union> set seen
     \<and> set seen' = set seen \<union> set (map (rh_url \<circ> fst) out)"
proof (induction hits arbitrary: seen)
  case (Cons h hs)
  show ?case
  proof (cases "collectable rx cfg db h \<and> rh_url h \<notin> set seen")
    case True
    obtain out seen' where rec: "collect_and_score rx cfg db hs (rh_url h # seen) = (out, seen')"
      by (cases "collect_and_score rx cfg db hs (rh_url h # seen)")
    have step: "collect_and_score rx cfg db (h # hs) seen = ((h, collected_score rx cfg db h) # out, seen')"
      using True rec by (simp add: collect_step)
    show ?thesis using Cons.IH [of "rh_url h # seen"] True unfolding rec step by auto
  next
    case False
    have step: "collect_and_score rx cfg db (h # hs) seen = collect_and_score rx cfg db hs seen"
      by (simp only: collect_step if_not_P [OF False])
    obtain out seen' where rec: "collect_and_score rx cfg db hs seen = (out, seen')" by (cases "collect_and_score rx cfg db hs seen")
    show ?thesis using Cons.IH [of seen] False unfolding step rec by auto
  qed
qed simp

subsection \<open>Formats that look at the indexer\<close>

definition indexer_free :: "json \<Rightarrow> bool" where
  "indexer_free specs \<longleftrightarrow> (case json_iter specs of Inl _ \<Rightarrow> True
     | Inr xs \<Rightarrow> list_all (\<lambda>x. case x of JObj kvs \<Rightarrow> spec_type kvs \<noteq> ''indexer_is'' \<and> spec_type kvs \<noteq> ''indexer_contains'' | _ \<Rightarrow> True) xs)"

lemma all_ok_cong: "(\<And>x. x \<in> set xs \<Longrightarrow> f x = g x) \<Longrightarrow> all_ok f xs = all_ok g xs"
  by (induction xs) (auto split: sum.splits bool.splits)

lemma format_indexer:
  assumes "indexer_free specs"
  shows "evaluate_custom_format rx specs title n rg i la = evaluate_custom_format rx specs title n rg i' la"
proof (cases "json_iter specs")
  case (Inr xs)
  have "spec_holds rx title n rg i la x = spec_holds rx title n rg i' la x" if "x \<in> set xs" for x
    using assms Inr that by (auto simp: indexer_free_def spec_holds_def list_all_iff Let_def split: json.splits sum.splits)
  then show ?thesis unfolding evaluate_custom_format_def Inr by (auto intro: all_ok_cong)
qed (simp add: evaluate_custom_format_def)

lemma total_formats_cong:
  "list_all (\<lambda>(_, specs, _). f specs = g specs) rows \<Longrightarrow> total_formats f rows acc = total_formats g rows acc"
  by (induction f rows acc rule: total_formats.induct) (auto split: sum.splits)

definition blind_to_indexer :: "scoring_db \<Rightarrow> int \<Rightarrow> bool" where
  "blind_to_indexer db sid \<longleftrightarrow> (case scoring_profile db (Some sid) of None \<Rightarrow> True
     | Some p \<Rightarrow> list_all (\<lambda>(_, specs, _). indexer_free (from_json_list (Some specs))) (profile_formats db (qp_id p)))"

lemma score_indexer:
  assumes "blind_to_indexer db sid"
  shows "score_release rx cfg db title (Some sid) rg i la vol pub = score_release rx cfg db title (Some sid) rg i' la vol pub"
proof -
  have eq: "score_custom_formats rx db (Some sid) title rg i la = score_custom_formats rx db (Some sid) title rg i' la"
  proof (cases "scoring_profile db (Some sid)")
    case (Some p)
    then have "list_all (\<lambda>(_, specs, _). indexer_free (from_json_list (Some specs))) (profile_formats db (qp_id p))"
      using assms by (simp add: blind_to_indexer_def)
    then have "list_all (\<lambda>(_, specs, _). evaluate_custom_format rx (from_json_list (Some specs)) title 0 rg i la
        = evaluate_custom_format rx (from_json_list (Some specs)) title 0 rg i' la) (profile_formats db (qp_id p))"
      by (auto simp: list_all_iff intro: format_indexer)
    from total_formats_cong [OF this] show ?thesis by (simp add: score_custom_formats_def Some)
  qed (simp add: score_custom_formats_def)
  show ?thesis unfolding score_release_def eq by (rule refl)
qed

text \<open>
  C35: A volume in the library is not replaced by the release it came from: offered again under the
  same title and group, with no better quality in its name, the release does not pass the gate,
  whatever the settings, as long as the profile of the series asks for a gain of at least one point
  and none of its custom formats looks at the indexer (the score of the held release is computed
  without an indexer, that of the offer with it).
\<close>

theorem held_release_not_regrabbed:
  assumes "hv_status held = HeldDownloaded"
    and "opt_text (hv_torrent_name held) = rh_title h" "opt_text (hv_group held) = rh_group h"
    and "quality_rank (quality_from_filename magic (rh_title h)) \<le> quality_rank (hv_quality held)"
    and "snd (upgrade_gates db s) > 0" "blind_to_indexer db (ss_id s)"
  shows "volume_gate rx magic cfg db s h vol pub_year (Some held) \<noteq> GateOpen"
proof -
  obtain ceiling gain where g: "upgrade_gates db s = (ceiling, gain)" by (cases "upgrade_gates db s")
  have "format_gate rx cfg db s h vol pub_year held \<noteq> GateOpen"
    using assms(2,3,5) g score_indexer [OF assms(6), of rx cfg "rh_title h" "rh_group h" "rh_indexer h" "[]" "Some vol" pub_year "[]"]
    by (simp add: format_gate_def Let_def)
  then show ?thesis using assms(1,4) by (auto simp: volume_gate_def repack_gate_def Let_def split: option.splits if_splits)
qed

subsection \<open>Concrete decisions\<close>

text \<open>A series whose profile rewards an indexer with 50 points and asks upgrades for 10.\<close>

definition no_rx :: user_rx where "no_rx pattern text = None"

definition scored_series :: scoring_series where
  "scored_series = \<lparr>ss_id = 1, ss_language_profile = None, ss_blocked_groups = None, ss_preferred_groups = None,
     ss_source_type = Some ''any'', ss_required_scanlator = None, ss_omnibus = None, ss_quality_profile = Some 2,
     ss_quality_cutoff = None, ss_update_strategy = None\<rparr>"

definition scored_db :: "custom_format list \<Rightarrow> scoring_db" where
  "scored_db formats = \<lparr>sd_series = [scored_series], sd_series_tags = [(1, ''en'')], sd_default_language = None,
     sd_profiles = [\<lparr>pf_id = 4, pf_enabled = Some 1, pf_required = Some ''Bone, v02'', pf_ignored = Some ''raw'', pf_preferred = None\<rparr>],
     sd_profile_tags = [(4, ''en'')], sd_languages = [],
     sd_quality_profiles = [\<lparr>qp_id = 2, qp_default = None, qp_minimum = None, qp_cutoff = None, qp_min_upgrade = Some 10\<rparr>],
     sd_formats = formats, sd_format_scores = [\<lparr>fs_profile = 2, fs_format = 7, fs_score = 50\<rparr>], sd_quality_definitions = []\<rparr>"

definition indexer_format :: custom_format where
  "indexer_format = \<lparr>cf_id = 7, cf_name = ''N'', cf_specifications =
     ''[{'' @ json_string ''type'' @ '':'' @ json_string ''indexer_is'' @ '','' @ json_string ''value'' @ '':'' @ json_string ''ny'' @ ''}]''\<rparr>"

definition bone_hit :: release_hit where
  "bone_hit = \<lparr>rh_title = ''Bone v02'', rh_url = ''u'', rh_size_bytes = None, rh_size = None, rh_group = [], rh_indexer = ''Ny'', rh_seeders = None\<rparr>"

definition held_bone :: held_volume where
  "held_bone = \<lparr>hv_status = HeldDownloaded, hv_quality = Some ''cbz'', hv_group = None, hv_torrent_name = Some ''Bone v02''\<rparr>"

lemma alt_single: "attempts (alt [r]) s = attempts r s" by (simp add: alt_def)
lemma alt_more: "attempts (alt (r # q # rs)) s = attempts r s @ attempts (alt (q # rs)) s" by (simp add: alt_def)
lemma cat_none: "attempts (cat []) s = [s]" by (simp add: cat_def)
lemma cat_more: "attempts (cat (r # rs)) s = concat (map (attempts (cat rs)) (attempts r s))" by (simp add: cat_def)
lemma lit_none: "attempts (lit []) s = [s]" by (simp add: lit_def cat_def)
lemma exact_none: "attempts (exact []) s = [s]" by (simp add: exact_def cat_def)

lemma lit_more:
  "attempts (lit (c # w)) (pre, rest, caps) =
     (case rest of [] \<Rightarrow> [] | x # xs \<Rightarrow> if py_lower_char x = c then attempts (lit w) (x # pre, xs, caps) else [])"
  by (cases rest) (simp_all add: lit_def cat_def advance_def ci_def)

lemma exact_more:
  "attempts (exact (c # w)) (pre, rest, caps) =
     (case rest of [] \<Rightarrow> [] | x # xs \<Rightarrow> if x = c then attempts (exact w) (x # pre, xs, caps) else [])"
  by (cases rest) (simp_all add: exact_def cat_def advance_def)

text \<open>Searching a concrete title by rewriting.\<close>

lemmas rx_run = alt_single alt_more cat_none cat_more lit_none lit_more exact_none exact_more word_edge_def advance_def
  span_limit_def re_found_def re_search_def match_here_def letter_in_def ci_def one_of_def spaces_def spaces1_def digits_def wide_def

lemma bone_lower: "map py_lower_char ''Bone v02'' = ''bone v02''" by code_simp
lemma bone_word: "map re_word ''Bone v02'' = [True, True, True, True, False, True, True, True]" "re_word (CHR ''b'')" by code_simp+
lemma bone_space: "map py_is_space ''Bone v02'' = [False, False, False, False, True, False, False, False]" by code_simp
lemma bone_digit: "map is_digit ''Bone v02'' = [False, False, False, False, False, False, True, True]" by code_simp
lemmas bone_chars = bone_lower [simplified] bone_word [simplified] bone_space [simplified] bone_digit [simplified]

lemma bone_title: "py_lower ''Bone v02'' = ''bone v02''" by code_simp

lemma bone_native: "\<not> is_foreign_language ''Bone v02''"
  by (simp add: is_foreign_language_def foreign_rx_def foreign_word_rx_def foreign_manga_rx_def foreign_code_rx_def rx_run bone_chars)

lemma bone_unofficial: "\<not> is_official_release ''Bone v02''"
  by (simp add: is_official_release_def official_rx_def rx_run bone_chars)

lemma bone_no_group: "\<not> is_quality_fan_release ''Bone v02''"
  by (simp add: is_quality_fan_release_def fan_group_rx_def rx_run bone_chars)

lemma bone_manga: "\<not> other_media ''bone v02''"
  by (simp add: other_media_def video_rx_def game_rx_def iso_rx_def audio_rx_def rx_run bone_chars)

lemma bone_volume: "extract_volume_range ''Bone v02'' = None" by code_simp
lemma bone_partial: "\<not> is_complete_pack ''Bone v02'' 0" by code_simp

lemma bone_single: "\<not> is_omnibus ''Bone v02''"
proof -
  have "\<not> list_ex (\<lambda>w. sublist w ''bone v02'') [''omnibus'', ''3-in-1'', ''2-in-1'', ''box set'', ''collected edition'', ''deluxe edition'']" by code_simp
  then show ?thesis by (simp add: is_omnibus_def bone_volume bone_partial bone_title)
qed

lemma bone_plain: "\<not> rv_repack (parse_revision ''Bone v02'')" "detect_quality_from_title ''Bone v02'' = ''unknown''" by code_simp+

lemma bone_rules:
  "get_applicable_profiles (scored_db fs) (tags_of (sd_series_tags (scored_db fs)) 1)
     = [\<lparr>rp_required = [Plain ''bone'', Plain ''v02''], rp_ignored = [Plain ''raw''], rp_preferred = JArr []\<rparr>]"
proof -
  have "parse_term_list ''Bone, v02'' = [Plain ''bone'', Plain ''v02'']" "parse_term_list ''raw'' = [Plain ''raw'']" by code_simp+
  then show ?thesis
    by (simp add: get_applicable_profiles_def scored_db_def tags_of_def profile_applies_def read_profile_def opt_text_def from_json_list_def)
qed

lemma bone_words: "word_score rx [] (scored_db fs) (Some 1) ''Bone v02'' = Inr 0"
proof -
  have "sublist ''bone'' ''bone v02''" "\<not> sublist ''raw'' ''bone v02''" "py_lower ''bone'' = ''bone''" "py_lower ''raw'' = ''raw''"
    by code_simp+
  then show ?thesis
    by (simp add: word_score_def score_from_release_profiles_def bone_rules score_profile_def profile_term_match_def bone_title json_iter_def)
qed

lemma bone_series: "scored_series_of (scored_db fs) (Some 1) = Some scored_series" "series_language_profile (scored_db fs) (Some 1) = None"
  by (simp_all add: scored_series_of_def scored_db_def scored_series_def series_language_profile_def)

text \<open>Every term of the score but the bonuses and the custom formats is 0.\<close>

lemma bone_score:
  "score_release rx [] (scored_db fs) ''Bone v02'' (Some 1) rg i la vol pub
     = volume_bonus vol ''Bone v02'' + year_bonus pub ''Bone v02''
       + (case score_custom_formats rx (scored_db fs) (Some 1) ''Bone v02'' rg i la of Inl _ \<Rightarrow> 0 | Inr n \<Rightarrow> n)"
proof -
  have "blocked_groups [] (Some scored_series) = []" "preferred_groups [] (Some scored_series) = []"
    "\<not> source_refused (Some scored_series) ''Bone v02''" "\<not> scanlator_refused (Some scored_series) ''Bone v02''"
    "omnibus_preference (Some scored_series) = ''prefer_individual''"
    by code_simp+
  then show ?thesis
    by (simp add: score_release_def bone_series bone_native bone_words bone_title bone_manga language_refused_def omnibus_score_def
        bone_single bone_partial quality_bonus_def bone_unofficial bone_no_group Let_def)
qed

theorem would_grab_passes_filters_witness:
  "ev_score (evaluate_release no_rx no_rx [] (scored_db []) 1 bone_hit) \<ge> 0"
proof -
  have "list_ex (\<lambda>m. sublist (term_text m) ''bone v02'') [Plain ''bone'', Plain ''v02'']" "\<not> sublist (term_text (Plain ''raw'')) ''bone v02''"
    by code_simp+
  then have rules: "word_rejections no_rx [] (scored_db []) 1 ''bone v02'' = []"
    using profile_rejections_Nil [OF order_refl, of "scored_db []" "tags_of (sd_series_tags (scored_db [])) 1" no_rx "''bone v02''"]
    by (simp add: word_rejections_def bone_rules text_rules_def text_term_def profile_admits_def)
  have none: "score_custom_formats no_rx (scored_db []) (Some 1) ''Bone v02'' [] [] [] = Inr 0"
    "format_matches no_rx (scored_db []) 1 ''Bone v02'' 0 = ([], [])" "size_rejections (scored_db []) ''unknown'' 0 = []"
    "size_in_mb 0 = 0" "hit_size bone_hit = 0" "comma_words (get_cfg [] ''blocked_groups'' []) = []"
    by code_simp+
  have "ev_status (evaluate_release no_rx no_rx [] (scored_db []) 1 bone_hit) = WouldGrab"
    using bone_score [of no_rx "[]" "[]" "[]" "[]" None None] none rules
    by (simp add: evaluate_release_def bone_hit_def bone_native bone_title bone_plain volume_bonus_def year_bonus_def hit_size_def)
  moreover have "list_all text_rules (get_applicable_profiles (scored_db []) (tags_of (sd_series_tags (scored_db [])) 1))"
    by (simp add: bone_rules text_rules_def text_term_def)
  ultimately show ?thesis using would_grab_passes_filters [of no_rx no_rx "[]" "scored_db []" 1 bone_hit] by (simp add: Let_def)
qed

theorem held_release_not_regrabbed_witness:
  "volume_gate no_rx (\<lambda>_. None) [] (scored_db []) scored_series bone_hit 2 None (Some held_bone) \<noteq> GateOpen"
  by (rule held_release_not_regrabbed) (code_simp+)

text \<open>With a format that looks at the indexer, the held release passes the gate again and again.\<close>

lemma indexer_format_regrabs:
  "volume_gate no_rx (\<lambda>_. None) [] (scored_db [indexer_format]) scored_series bone_hit 2 None (Some held_bone) = GateOpen"
proof -
  have formats: "score_custom_formats no_rx (scored_db [indexer_format]) (Some 1) ''Bone v02'' [] ''Ny'' [] = Inr 50"
    "score_custom_formats no_rx (scored_db [indexer_format]) (Some 1) ''Bone v02'' [] [] [] = Inr 0"
    "upgrade_gates (scored_db [indexer_format]) scored_series = (10000, 10)"
    by code_simp+
  have bonus: "volume_bonus (Some 2) ''Bone v02'' \<le> 3"
    by (simp add: volume_bonus_def bone_volume Let_def split: option.splits)
  have "format_gate no_rx [] (scored_db [indexer_format]) scored_series bone_hit 2 None held_bone = GateOpen"
    using bone_score [of no_rx "[indexer_format]"] formats bonus
    by (simp add: format_gate_def bone_hit_def held_bone_def scored_series_def opt_text_def year_bonus_def)
  moreover have "update_strategy scored_series \<noteq> ''once''" "quality_cutoff [] scored_series = []"
    "\<not> quality_rank (quality_from_filename (\<lambda>_. None) ''Bone v02'') > quality_rank (Some ''cbz'')"
    by code_simp+
  ultimately show ?thesis
    by (simp add: volume_gate_def held_bone_def bone_hit_def repack_gate_def bone_plain)
qed

text \<open>
  Titles of English releases that the keywords of \<open>language_profiles.py\<close> read as another language:
  a keyword is found inside other words.
\<close>

lemma keywords_inside_words:
  "profile_language ''Frieren v01 English'' = ''fr''" "profile_language ''Dorohedoro Deluxe v01'' = ''de''"
  "profile_language ''Nana v01 (Yen Press)'' = ''es''"
  by code_simp+

text \<open>
  A size given as a number, not as a text, makes the format raise: the value is lower-cased before
  it is read as a number, and the total of the profile is lost with it.
\<close>

lemma numeric_size_raises:
  "evaluate_custom_format rx (JArr [JObj [(''type'', JStr ''size_minimum''), (''value'', JInt 5)]]) title n rg i la = Inl AttributeError"
  by (simp add: evaluate_custom_format_def json_iter_def spec_holds_def obj_lower_def obj_get_def json_truthy_def)

end
