(* ===== verification/Metadata_Provenance.thy ===== *)
theory Metadata_Provenance
  imports Volumes Py_Values "HOL-Library.List_Lexorder" "HOL-Library.Char_ord" "HOL-Library.Product_Lexorder" "HOL-Library.AList"
begin

text \<open>
  Who says what about a series (\<open>app/metadata_provenance.py\<close>): the candidates of the sources, the
  selected value of each field with its lock, and the rules that apply a candidate. A series row
  keeps one value per field; the stub code of \<open>Volumes\<close> reads its own columns of the same row, which
  \<open>sync_library\<close> copies. \<open>store\<close> is SQLite: what a column gives back after a value is written to it,
  None when the value cannot be bound. \<open>now\<close> is the clock. The display texts of the fields are left
  out.
\<close>

subsection \<open>Fields and sources\<close>

datatype meta_field = MfTitle | MfAnilistId | MfMalId | MfMangadexId | MfMuId | MfCoverUrl | MfStatus | MfDescription | MfPubYear
  | MfTotalVolumes | MfTotalChapters | MfChapterVolMap

definition meta_fields :: "(string \<times> meta_field) list" where
  "meta_fields = [(''title'', MfTitle), (''anilist_id'', MfAnilistId), (''mal_id'', MfMalId), (''mangadex_id'', MfMangadexId), (''mu_id'', MfMuId),
     (''cover_url'', MfCoverUrl), (''status'', MfStatus), (''description'', MfDescription), (''pub_year'', MfPubYear),
     (''total_volumes'', MfTotalVolumes), (''total_chapters'', MfTotalChapters), (''chapter_vol_map'', MfChapterVolMap)]"

definition field_of_name :: "string \<Rightarrow> meta_field option" where
  "field_of_name name = map_of meta_fields name"

definition has_source_column :: "meta_field \<Rightarrow> bool" where
  "has_source_column f \<longleftrightarrow> f \<in> {MfTotalVolumes, MfTotalChapters, MfChapterVolMap}"

definition count_field :: "meta_field \<Rightarrow> bool" where
  "count_field f \<longleftrightarrow> f \<in> {MfTotalVolumes, MfTotalChapters}"

definition default_source :: "meta_field \<Rightarrow> string" where
  "default_source f = (case f of
      MfAnilistId \<Rightarrow> ''anilist'' | MfMangadexId \<Rightarrow> ''mangadex'' | MfMuId \<Rightarrow> ''mangaupdates'' | MfCoverUrl \<Rightarrow> ''anilist'' | MfStatus \<Rightarrow> ''anilist''
    | MfDescription \<Rightarrow> ''anilist'' | MfPubYear \<Rightarrow> ''anilist'' | MfTotalVolumes \<Rightarrow> ''anilist'' | MfTotalChapters \<Rightarrow> ''anilist'' | _ \<Rightarrow> ''legacy'')"

definition source_priority :: "(string \<times> int) list" where
  "source_priority = [(''manual'', 1000), (''local'', 900), (''google_books'', 850), (''wikipedia'', 825), (''mangaupdates'', 800),
     (''mangadex'', 775), (''kitsu'', 700), (''cbz'', 675), (''anilist'', 650), (''legacy'', 100)]"

definition field_source_priority :: "meta_field \<Rightarrow> (string \<times> int) list" where
  "field_source_priority f = (case f of
      MfChapterVolMap \<Rightarrow> [(''manual'', 1000), (''mangadex'', 850), (''kitsu'', 800), (''cbz'', 750), (''legacy'', 100)]
    | MfTotalChapters \<Rightarrow> [(''manual'', 1000), (''local'', 850), (''anilist'', 700)]
    | MfTotalVolumes \<Rightarrow> [(''manual'', 1000), (''google_books'', 900), (''wikipedia'', 875), (''mangaupdates'', 800), (''local'', 750), (''anilist'', 700)]
    | _ \<Rightarrow> [])"

definition priority :: "meta_field \<Rightarrow> string \<Rightarrow> int" where
  "priority f src = (case map_of (field_source_priority f) src of Some n \<Rightarrow> n
     | None \<Rightarrow> (case map_of source_priority src of Some n \<Rightarrow> n | None \<Rightarrow> 500))"

subsection \<open>Values\<close>

text \<open>A parsed object keeps the last value of a key; \<open>sort_keys\<close> orders the keys.\<close>

fun canonical :: "json \<Rightarrow> json" where
  "canonical (JArr xs) = JArr (map canonical xs)"
| "canonical (JObj kvs) = JObj (sort_key fst (rev (AList.clearjunk (rev (map (\<lambda>(k, v). (k, canonical v)) kvs)))))"
| "canonical j = j"

definition encode :: "json \<Rightarrow> string" where
  "encode v = dumps True (canonical v)"

definition decode :: "string option \<Rightarrow> json" where
  "decode value_json = (case value_json of None \<Rightarrow> JNull | Some s \<Rightarrow> (case loads s of None \<Rightarrow> JStr s | Some j \<Rightarrow> j))"

definition value_from_storage :: "meta_field \<Rightarrow> json \<Rightarrow> json" where
  "value_from_storage f v =
     (case v of
        JStr s \<Rightarrow> if f = MfChapterVolMap then (case loads s of Some (JObj kvs) \<Rightarrow> JObj kvs | _ \<Rightarrow> v) else v
      | _ \<Rightarrow> v)"

definition value_for_storage :: "meta_field \<Rightarrow> json \<Rightarrow> json" where
  "value_for_storage f v = (case v of JObj kvs \<Rightarrow> if f = MfChapterVolMap then JStr (encode v) else v | _ \<Rightarrow> v)"

definition unset :: "json \<Rightarrow> bool" where
  "unset v \<longleftrightarrow> v = JNull \<or> v = JStr []"

text \<open>\<open>isinstance(v, (int, float))\<close>, booleans included.\<close>

definition number_of :: "json \<Rightarrow> rat option" where
  "number_of v = (case v of JInt i \<Rightarrow> Some (of_int i) | JFloat x \<Rightarrow> Some x | JBool b \<Rightarrow> Some (if b then 1 else 0) | _ \<Rightarrow> None)"

definition lowers :: "meta_field \<Rightarrow> json \<Rightarrow> json \<Rightarrow> bool" where
  "lowers f current v \<longleftrightarrow> count_field f
     \<and> (case (number_of current, number_of v) of (Some a, Some b) \<Rightarrow> b < a | _ \<Rightarrow> False)"

subsection \<open>State\<close>

record meta_row =
  mr_id :: int
  mr_values :: "meta_field \<Rightarrow> json"
  mr_sources :: "meta_field \<Rightarrow> string option"
  mr_map_updated :: "string option"
  mr_refreshed :: "string option"
  mr_added :: "string option"

record field_row =
  fr_series :: int
  fr_field :: meta_field
  fr_value :: string
  fr_source :: string
  fr_locked :: bool
  fr_at :: string

record candidate_row =
  ca_series :: int
  ca_field :: meta_field
  ca_source :: string
  ca_value :: string
  ca_confidence :: "rat option"
  ca_at :: string

record metadata =
  md_series :: "meta_row list"
  md_fields :: "field_row list"
  md_candidates :: "candidate_row list"
  md_library :: library

datatype meta_error = UnsupportedField string | SeriesMissing | FieldLocked | CandidateMissing | LowerCount | Unbindable | Raised py_exn

type_synonym store = "meta_field \<Rightarrow> json \<Rightarrow> json option"

definition meta_series :: "int \<Rightarrow> metadata \<Rightarrow> meta_row option" where
  "meta_series sid md = find (\<lambda>r. mr_id r = sid) (md_series md)"

definition field_row_of :: "int \<Rightarrow> meta_field \<Rightarrow> metadata \<Rightarrow> field_row option" where
  "field_row_of sid f md = find (\<lambda>r. fr_series r = sid \<and> fr_field r = f) (md_fields md)"

definition candidates_of :: "int \<Rightarrow> meta_field \<Rightarrow> metadata \<Rightarrow> candidate_row list" where
  "candidates_of sid f md = filter (\<lambda>c. ca_series c = sid \<and> ca_field c = f) (md_candidates md)"

definition is_locked :: "int \<Rightarrow> meta_field \<Rightarrow> metadata \<Rightarrow> bool" where
  "is_locked sid f md = (case field_row_of sid f md of None \<Rightarrow> False | Some r \<Rightarrow> fr_locked r)"

definition current_value :: "int \<Rightarrow> meta_field \<Rightarrow> metadata \<Rightarrow> json" where
  "current_value sid f md = (case meta_series sid md of None \<Rightarrow> JNull | Some r \<Rightarrow> value_from_storage f (mr_values r f))"

text \<open>INSERT with ON CONFLICT DO UPDATE on the primary key.\<close>

definition upsert :: "('r \<Rightarrow> bool) \<Rightarrow> 'r \<Rightarrow> 'r list \<Rightarrow> 'r list" where
  "upsert key r rows = (if list_ex key rows then map (\<lambda>x. if key x then r else x) rows else rows @ [r])"

definition put_field :: "field_row \<Rightarrow> metadata \<Rightarrow> metadata" where
  "put_field r md = md\<lparr>md_fields := upsert (\<lambda>x. fr_series x = fr_series r \<and> fr_field x = fr_field r) r (md_fields md)\<rparr>"

definition put_candidate :: "candidate_row \<Rightarrow> metadata \<Rightarrow> metadata" where
  "put_candidate r md = md\<lparr>md_candidates :=
     upsert (\<lambda>x. ca_series x = ca_series r \<and> ca_field x = ca_field r \<and> ca_source x = ca_source r) r (md_candidates md)\<rparr>"

subsection \<open>Recording\<close>

definition record_selection ::
  "string \<Rightarrow> int \<Rightarrow> meta_field \<Rightarrow> json \<Rightarrow> string \<Rightarrow> bool option \<Rightarrow> metadata \<Rightarrow> meta_error + metadata" where
  "record_selection now sid f v src locked md =
     (if meta_series sid md = None then Inl (Raised IntegrityError)
      else Inr (put_field \<lparr>fr_series = sid, fr_field = f, fr_value = encode (value_from_storage f v), fr_source = src,
        fr_locked = (case locked of None \<Rightarrow> src = ''manual'' | Some b \<Rightarrow> b), fr_at = now\<rparr> md))"

fun record_metadata_candidates ::
  "string \<Rightarrow> int \<Rightarrow> string \<Rightarrow> rat option \<Rightarrow> (string \<times> json) list \<Rightarrow> metadata \<Rightarrow> meta_error + metadata" where
  "record_metadata_candidates now sid src conf [] md = Inr md"
| "record_metadata_candidates now sid src conf ((name, v) # vs) md =
     (case field_of_name name of
        None \<Rightarrow> record_metadata_candidates now sid src conf vs md
      | Some f \<Rightarrow>
          if unset v then record_metadata_candidates now sid src conf vs md
          else if meta_series sid md = None then Inl (Raised IntegrityError)
          else record_metadata_candidates now sid src conf vs (put_candidate
            \<lparr>ca_series = sid, ca_field = f, ca_source = src, ca_value = encode (value_from_storage f v), ca_confidence = conf, ca_at = now\<rparr> md))"

fun record_metadata_selections ::
  "string \<Rightarrow> int \<Rightarrow> (string \<times> json) list \<Rightarrow> (string \<times> string) list \<Rightarrow> (string \<times> bool) list \<Rightarrow> metadata \<Rightarrow> meta_error + metadata" where
  "record_metadata_selections now sid [] sources locks md = Inr md"
| "record_metadata_selections now sid ((name, v) # vs) sources locks md =
     (case field_of_name name of
        None \<Rightarrow> record_metadata_selections now sid vs sources locks md
      | Some f \<Rightarrow>
          (case record_selection now sid f v (case map_of sources name of None \<Rightarrow> ''legacy'' | Some s \<Rightarrow> s) (map_of locks name) md of
             Inl e \<Rightarrow> Inl e
           | Inr md' \<Rightarrow> record_metadata_selections now sid vs sources locks md'))"

definition record_initial_title :: "string \<Rightarrow> int \<Rightarrow> string \<Rightarrow> string \<Rightarrow> bool \<Rightarrow> metadata \<Rightarrow> meta_error + metadata" where
  "record_initial_title now sid title src locked md =
     (case record_selection now sid MfTitle (JStr title) src (Some locked) md of
        Inl e \<Rightarrow> Inl e
      | Inr md' \<Rightarrow> record_metadata_candidates now sid src None [(''title'', JStr title)] md')"

fun record_manual_metadata :: "string \<Rightarrow> int \<Rightarrow> (string \<times> json) list \<Rightarrow> bool \<Rightarrow> metadata \<Rightarrow> meta_error + metadata" where
  "record_manual_metadata now sid [] locked md = Inr md"
| "record_manual_metadata now sid ((name, v) # vs) locked md =
     (case field_of_name name of
        None \<Rightarrow> record_manual_metadata now sid vs locked md
      | Some f \<Rightarrow>
          (case record_selection now sid f v ''manual'' (Some locked) md of
             Inl e \<Rightarrow> Inl e
           | Inr md1 \<Rightarrow>
               (case record_metadata_candidates now sid ''manual'' None [(name, v)] md1 of
                  Inl e \<Rightarrow> Inl e
                | Inr md2 \<Rightarrow> record_manual_metadata now sid vs locked md2)))"

text \<open>The rows a legacy series gets: INSERT OR IGNORE.\<close>

definition backfill_field :: "string \<Rightarrow> meta_row \<Rightarrow> meta_field \<Rightarrow> metadata \<Rightarrow> metadata" where
  "backfill_field selected_at r f md =
     (let v = value_from_storage f (mr_values r f);
          src = (if has_source_column f \<and> opt_text (mr_sources r f) \<noteq> [] then opt_text (mr_sources r f) else default_source f);
          md1 = (if field_row_of (mr_id r) f md \<noteq> None then md
            else md\<lparr>md_fields := md_fields md @ [\<lparr>fr_series = mr_id r, fr_field = f, fr_value = encode v, fr_source = src,
              fr_locked = (src = ''manual''), fr_at = selected_at\<rparr>]\<rparr>)
      in if unset v \<or> list_ex (\<lambda>c. ca_source c = src) (candidates_of (mr_id r) f md) then md1
         else md1\<lparr>md_candidates := md_candidates md1 @ [\<lparr>ca_series = mr_id r, ca_field = f, ca_source = src, ca_value = encode v,
           ca_confidence = None, ca_at = selected_at\<rparr>]\<rparr>)"

definition backfill_row :: "string \<Rightarrow> meta_row \<Rightarrow> metadata \<Rightarrow> metadata" where
  "backfill_row now r md =
     fold (backfill_field (if opt_text (mr_refreshed r) \<noteq> [] then opt_text (mr_refreshed r)
       else if opt_text (mr_added r) \<noteq> [] then opt_text (mr_added r) else now) r) (map snd meta_fields) md"

definition backfill_metadata_provenance :: "string \<Rightarrow> metadata \<Rightarrow> metadata" where
  "backfill_metadata_provenance now md = fold (backfill_row now) (md_series md) md"

subsection \<open>Field states\<close>

definition relinquished :: "meta_field \<Rightarrow> bool \<Rightarrow> string \<Rightarrow> bool" where
  "relinquished f locked src \<longleftrightarrow> \<not> locked \<and> (src = ''manual'' \<or> f = MfTitle \<and> src = ''local'')"

definition candidate_priority :: "meta_field \<Rightarrow> bool \<Rightarrow> candidate_row \<Rightarrow> int \<times> string" where
  "candidate_priority f locked c = (- (if relinquished f locked (ca_source c) then 0 else priority f (ca_source c)), ca_source c)"

definition ca_json :: "candidate_row \<Rightarrow> json" where "ca_json c = decode (Some (ca_value c))"

definition ranked :: "meta_field \<Rightarrow> bool \<Rightarrow> candidate_row list \<Rightarrow> candidate_row list" where
  "ranked f locked cs = sort_key (candidate_priority f locked) cs"

definition first_of :: "'a list \<Rightarrow> 'a option" where
  "first_of xs = (case xs of [] \<Rightarrow> None | x # _ \<Rightarrow> Some x)"

definition voiced_values :: "meta_field \<Rightarrow> bool \<Rightarrow> candidate_row list \<Rightarrow> string list" where
  "voiced_values f locked cs = remdups (map (encode \<circ> ca_json)
     (filter (\<lambda>c. \<not> unset (ca_json c) \<and> ca_source c \<noteq> ''legacy'' \<and> \<not> relinquished f locked (ca_source c)) cs))"

record field_state =
  st_field :: meta_field
  st_value :: json
  st_source :: string
  st_locked :: bool
  st_pending :: bool
  st_drift :: bool
  st_conflict :: bool
  st_recommended :: "candidate_row option"
  st_candidates :: "candidate_row list"

definition selected_source :: "int \<Rightarrow> meta_field \<Rightarrow> metadata \<Rightarrow> string" where
  "selected_source sid f md = (case field_row_of sid f md of None \<Rightarrow> ''legacy'' | Some r \<Rightarrow> if fr_source r = [] then ''legacy'' else fr_source r)"

definition field_state_of :: "int \<Rightarrow> metadata \<Rightarrow> meta_field \<Rightarrow> field_state" where
  "field_state_of sid md f =
     (let locked = is_locked sid f md; current = current_value sid f md; cs = ranked f locked (candidates_of sid f md); best = first_of cs;
          conflict = length (voiced_values f locked cs) > 1;
          differs = (\<lambda>c. encode (ca_json c) \<noteq> encode current)
      in \<lparr>st_field = f, st_value = current, st_source = selected_source sid f md, st_locked = locked,
           st_pending = (case best of None \<Rightarrow> False | Some c \<Rightarrow> differs c \<and> \<not> locked),
           st_drift = (case best of None \<Rightarrow> False | Some c \<Rightarrow> \<not> locked \<and> \<not> conflict \<and> \<not> relinquished f locked (ca_source c) \<and> \<not> differs c
              \<and> ca_source c \<noteq> selected_source sid f md),
           st_conflict = conflict, st_recommended = best, st_candidates = cs\<rparr>)"

definition get_metadata_field_states :: "int \<Rightarrow> metadata \<Rightarrow> field_state list" where
  "get_metadata_field_states sid md = (if meta_series sid md = None then [] else map (field_state_of sid md) (map snd meta_fields))"

definition metadata_field_is_locked :: "int \<Rightarrow> string \<Rightarrow> metadata \<Rightarrow> meta_error + bool" where
  "metadata_field_is_locked sid name md = (case field_of_name name of None \<Rightarrow> Inl (UnsupportedField name) | Some f \<Rightarrow> Inr (is_locked sid f md))"

definition set_metadata_field_lock :: "string \<Rightarrow> int \<Rightarrow> string \<Rightarrow> bool \<Rightarrow> metadata \<Rightarrow> meta_error + metadata" where
  "set_metadata_field_lock now sid name locked md =
     (case field_of_name name of
        None \<Rightarrow> Inl (UnsupportedField name)
      | Some f \<Rightarrow>
          (case find (\<lambda>st. st_field st = f) (get_metadata_field_states sid md) of
             None \<Rightarrow> Inl SeriesMissing
           | Some st \<Rightarrow> record_selection now sid f (st_value st) (st_source st) (Some locked) md))"

subsection \<open>Applying candidates\<close>

definition text_column :: "json \<Rightarrow> json_column" where
  "text_column v = (case v of JStr s \<Rightarrow> if s = [] then JsonEmpty else (case loads s of None \<Rightarrow> JsonMalformed | Some j \<Rightarrow> JsonParsed j) | _ \<Rightarrow> JsonEmpty)"

definition int_column :: "json \<Rightarrow> int option" where
  "int_column v = (case v of JInt i \<Rightarrow> Some i | _ \<Rightarrow> None)"

text \<open>The columns the stub code reads are columns of the same row.\<close>

definition sync_library :: "int \<Rightarrow> metadata \<Rightarrow> metadata" where
  "sync_library sid md =
     (case meta_series sid md of
        None \<Rightarrow> md
      | Some r \<Rightarrow> md\<lparr>md_library := (md_library md)\<lparr>series := map (\<lambda>s. if s_id s = sid
          then s\<lparr>s_total_volumes := int_column (mr_values r MfTotalVolumes), s_total_chapters := int_column (mr_values r MfTotalChapters),
                 s_chapter_map := text_column (mr_values r MfChapterVolMap)\<rparr> else s) (series (md_library md))\<rparr>\<rparr>)"

definition on_series :: "int \<Rightarrow> (meta_row \<Rightarrow> meta_row) \<Rightarrow> metadata \<Rightarrow> metadata" where
  "on_series sid g md = sync_library sid (md\<lparr>md_series := map (\<lambda>r. if mr_id r = sid then g r else r) (md_series md)\<rparr>)"

definition after_change :: "int \<Rightarrow> meta_field \<Rightarrow> json \<Rightarrow> metadata \<Rightarrow> meta_error + metadata" where
  "after_change sid f v md =
     (if f = MfTotalVolumes \<and> json_truthy v then
        (case json_int v of
           Inl e \<Rightarrow> Inl (Raised e)
         | Inr n \<Rightarrow> (case create_volume_stubs sid n (md_library md) of
             Inl e \<Rightarrow> Inl (Raised e) | Inr lib \<Rightarrow> Inr (md\<lparr>md_library := lib\<rparr>)))
      else if f = MfChapterVolMap \<and> json_truthy v then
        (case populate_chapters sid (md_library md) of
           Inl e \<Rightarrow> Inl (Raised e) | Inr (lib, _) \<Rightarrow> Inr (md\<lparr>md_library := lib\<rparr>))
      else Inr md)"

definition write_metadata_candidate ::
  "store \<Rightarrow> string \<Rightarrow> int \<Rightarrow> meta_field \<Rightarrow> string \<Rightarrow> json \<Rightarrow> json \<Rightarrow> metadata \<Rightarrow> meta_error + metadata" where
  "write_metadata_candidate store now sid f src current v md =
     (let changed = encode v \<noteq> encode current;
          own = (\<lambda>r. if has_source_column f then r\<lparr>mr_sources := (mr_sources r)(f := Some src)\<rparr> else r);
          stamp = (\<lambda>r. if f = MfChapterVolMap then r\<lparr>mr_map_updated := Some now\<rparr> else r)
      in case (if changed then
                 (case store f (value_for_storage f v) of
                    None \<Rightarrow> Inl Unbindable
                  | Some w \<Rightarrow> Inr (on_series sid (\<lambda>r. stamp (own (r\<lparr>mr_values := (mr_values r)(f := w)\<rparr>))) md))
               else Inr (if has_source_column f then on_series sid own md else md)) of
           Inl e \<Rightarrow> Inl e
         | Inr md1 \<Rightarrow>
             (case record_selection now sid f v src (Some False) md1 of
                Inl e \<Rightarrow> Inl e
              | Inr md2 \<Rightarrow> if changed then after_change sid f v md2 else Inr md2))"

definition apply_metadata_candidate ::
  "store \<Rightarrow> string \<Rightarrow> int \<Rightarrow> string \<Rightarrow> string \<Rightarrow> bool \<Rightarrow> metadata \<Rightarrow> meta_error + metadata" where
  "apply_metadata_candidate store now sid name src allow_decrease md =
     (case field_of_name name of
        None \<Rightarrow> Inl (UnsupportedField name)
      | Some f \<Rightarrow>
          if is_locked sid f md then Inl FieldLocked
          else (case find (\<lambda>c. ca_source c = src) (candidates_of sid f md) of
            None \<Rightarrow> Inl CandidateMissing
          | Some c \<Rightarrow>
              if meta_series sid md = None then Inl SeriesMissing
              else if lowers f (current_value sid f md) (ca_json c) \<and> \<not> allow_decrease then Inl LowerCount
              else write_metadata_candidate store now sid f src (current_value sid f md) (ca_json c) md))"

datatype applied = Applied | Reconciled

text \<open>\<open>_apply_safe_metadata_candidate\<close>; None leaves the database as it is.\<close>

definition apply_safe ::
  "store \<Rightarrow> string \<Rightarrow> int \<Rightarrow> meta_field \<Rightarrow> string \<Rightarrow> json \<Rightarrow> bool \<Rightarrow> metadata \<Rightarrow> meta_error + (applied \<times> metadata) option" where
  "apply_safe store now sid f expected_source expected_value allow_change md =
     (if meta_series sid md = None then Inr None
      else
        let locked = is_locked sid f md; current = current_value sid f md; cs = ranked f locked (candidates_of sid f md)
        in case first_of cs of
          None \<Rightarrow> Inr None
        | Some c \<Rightarrow>
            if locked \<or> length (voiced_values f locked cs) > 1 \<or> relinquished f locked (ca_source c) \<or> ca_source c \<noteq> expected_source
              \<or> encode (ca_json c) \<noteq> encode expected_value then Inr None
            else
              let changed = encode (ca_json c) \<noteq> encode current
              in if changed \<and> (\<not> allow_change \<or> lowers f current (ca_json c)) then Inr None
                 else if \<not> changed \<and> selected_source sid f md = expected_source then Inr None
                 else map_sum id (\<lambda>md'. Some (if changed then Applied else Reconciled, md'))
                   (write_metadata_candidate store now sid f expected_source current (ca_json c) md))"

datatype skip_reason = Conflict | Decrease | StaleState

record apply_report =
  ar_applied :: "meta_field list"
  ar_reconciled :: "meta_field list"
  ar_skipped :: "(meta_field \<times> skip_reason) list"

definition empty_report :: apply_report where
  "empty_report = \<lparr>ar_applied = [], ar_reconciled = [], ar_skipped = []\<rparr>"

text \<open>One turn of the loop, on the states read before it; an exception ends the loop and keeps what
  was committed.\<close>

definition apply_state ::
  "store \<Rightarrow> string \<Rightarrow> int \<Rightarrow> field_state \<Rightarrow> metadata \<Rightarrow> apply_report \<Rightarrow> meta_error + metadata \<times> apply_report" where
  "apply_state store now sid st md rep =
     (case st_recommended st of
        None \<Rightarrow> Inr (md, rep)
      | Some c \<Rightarrow>
          if \<not> (st_pending st \<or> st_drift st) then Inr (md, rep)
          else if st_conflict st then Inr (md, rep\<lparr>ar_skipped := ar_skipped rep @ [(st_field st, Conflict)]\<rparr>)
          else if lowers (st_field st) (st_value st) (ca_json c) then Inr (md, rep\<lparr>ar_skipped := ar_skipped rep @ [(st_field st, Decrease)]\<rparr>)
          else (case apply_safe store now sid (st_field st) (ca_source c) (ca_json c) (st_pending st) md of
            Inl e \<Rightarrow> Inl e
          | Inr None \<Rightarrow> Inr (md, rep\<lparr>ar_skipped := ar_skipped rep @ [(st_field st, StaleState)]\<rparr>)
          | Inr (Some (Applied, md')) \<Rightarrow> Inr (md', rep\<lparr>ar_applied := ar_applied rep @ [st_field st]\<rparr>)
          | Inr (Some (Reconciled, md')) \<Rightarrow> Inr (md', rep\<lparr>ar_reconciled := ar_reconciled rep @ [st_field st]\<rparr>)))"

fun apply_states ::
  "store \<Rightarrow> string \<Rightarrow> int \<Rightarrow> field_state list \<Rightarrow> metadata \<Rightarrow> apply_report \<Rightarrow> metadata \<times> (meta_error + apply_report)" where
  "apply_states store now sid [] md rep = (md, Inr rep)"
| "apply_states store now sid (st # sts) md rep =
     (case apply_state store now sid st md rep of
        Inl e \<Rightarrow> (md, Inl e)
      | Inr (md', rep') \<Rightarrow> apply_states store now sid sts md' rep')"

definition apply_recommended_candidates :: "store \<Rightarrow> string \<Rightarrow> int \<Rightarrow> metadata \<Rightarrow> metadata \<times> (meta_error + apply_report)" where
  "apply_recommended_candidates store now sid md = apply_states store now sid (get_metadata_field_states sid md) md empty_report"

record repair_report =
  rr_pending :: nat
  rr_drift :: nat
  rr_conflicts :: nat
  rr_locked :: nat
  rr_candidates :: nat

definition build_metadata_repair_report :: "int \<Rightarrow> metadata \<Rightarrow> repair_report" where
  "build_metadata_repair_report sid md =
     (let sts = get_metadata_field_states sid md
      in \<lparr>rr_pending = length (filter st_pending sts), rr_drift = length (filter st_drift sts), rr_conflicts = length (filter st_conflict sts),
          rr_locked = length (filter st_locked sts), rr_candidates = sum_list (map (length \<circ> st_candidates) sts)\<rparr>)"

end
