(* ===== verification/Metadata_Rules.thy ===== *)
theory Metadata_Rules
  imports Metadata_Provenance
begin

text \<open>
  What applying candidates does to the fields of a series: a change is safe, and the recommended
  changes settle.
\<close>

subsection \<open>Frames\<close>

definition column :: "int \<Rightarrow> meta_field \<Rightarrow> metadata \<Rightarrow> json option" where
  "column sid f md = map_option (\<lambda>r. mr_values r f) (meta_series sid md)"

definition same_field :: "int \<Rightarrow> meta_field \<Rightarrow> metadata \<Rightarrow> metadata \<Rightarrow> bool" where
  "same_field sid f md md' \<longleftrightarrow> column sid f md' = column sid f md \<and> field_row_of sid f md' = field_row_of sid f md
     \<and> candidates_of sid f md' = candidates_of sid f md"

lemma same_field_refl: "same_field sid f md md" by (simp add: same_field_def)

lemma same_field_trans: "same_field sid f a b \<Longrightarrow> same_field sid f b c \<Longrightarrow> same_field sid f a c"
  by (simp add: same_field_def)

lemma column_None: "column sid f md = None \<longleftrightarrow> meta_series sid md = None" by (simp add: column_def)

lemma current_column: "current_value sid f md = (case column sid f md of None \<Rightarrow> JNull | Some v \<Rightarrow> value_from_storage f v)"
  by (simp add: current_value_def column_def split: option.splits)

lemma same_field_state:
  assumes "same_field sid f md md'"
  shows "field_state_of sid md' f = field_state_of sid md f" "is_locked sid f md' = is_locked sid f md"
    "current_value sid f md' = current_value sid f md" "selected_source sid f md' = selected_source sid f md"
    "candidates_of sid f md' = candidates_of sid f md"
proof -
  show eqs: "is_locked sid f md' = is_locked sid f md" "current_value sid f md' = current_value sid f md"
    "selected_source sid f md' = selected_source sid f md" "candidates_of sid f md' = candidates_of sid f md"
    using assms by (simp_all add: same_field_def is_locked_def current_column selected_source_def)
  show "field_state_of sid md' f = field_state_of sid md f" unfolding field_state_of_def eqs ..
qed

lemma find_map_id:
  assumes "\<And>r. key (g r) = key r"
  shows "find (\<lambda>r. key r = i) (map (\<lambda>r. if key r = k then g r else r) rs)
     = map_option (\<lambda>r. if k = i then g r else r) (find (\<lambda>r. key r = i) rs)"
  using assms by (induction rs) auto

lemma sync_frame [simp]:
  "md_series (sync_library sid md) = md_series md" "md_fields (sync_library sid md) = md_fields md"
  "md_candidates (sync_library sid md) = md_candidates md"
  by (simp_all add: sync_library_def split: option.splits)

lemma on_series_frame [simp]:
  "md_fields (on_series sid g md) = md_fields md" "md_candidates (on_series sid g md) = md_candidates md"
  by (simp_all add: on_series_def)

lemma meta_series_on_series:
  assumes "\<And>r. mr_id (g r) = mr_id r"
  shows "meta_series i (on_series sid g md) = map_option (\<lambda>r. if sid = i then g r else r) (meta_series i md)"
  using find_map_id [of mr_id g, OF assms] by (simp add: meta_series_def on_series_def)

lemma field_row_put:
  "field_row_of sid f (put_field r md) = (if fr_series r = sid \<and> fr_field r = f then Some r else field_row_of sid f md)"
proof -
  let ?k = "\<lambda>x. fr_series x = fr_series r \<and> fr_field x = fr_field r" and ?P = "\<lambda>x. fr_series x = sid \<and> fr_field x = f"
  show ?thesis
  proof (cases "?P r")
    case True
    then have "?k = ?P" by auto
    have "find ?P (map (\<lambda>x. if ?P x then r else x) rows) = Some r" if "list_ex ?P rows" for rows
      using that True by (induction rows) auto
    moreover have "find ?P (rows @ [r]) = Some r" if "\<not> list_ex ?P rows" for rows
      using that True by (induction rows) auto
    ultimately show ?thesis using True \<open>?k = ?P\<close> by (simp add: field_row_of_def put_field_def upsert_def)
  next
    case False
    then have no: "?k x \<Longrightarrow> \<not> ?P x" for x by auto
    have "find ?P (map (\<lambda>x. if ?k x then r else x) rows) = find ?P rows" for rows
      using False no by (induction rows) auto
    moreover have "find ?P (rows @ [r]) = find ?P rows" for rows using False by (induction rows) auto
    ultimately show ?thesis unfolding if_not_P [OF False] field_row_of_def put_field_def upsert_def by simp
  qed
qed

lemma put_field_frame [simp]:
  "md_series (put_field r md) = md_series md" "md_candidates (put_field r md) = md_candidates md" "md_library (put_field r md) = md_library md"
  by (simp_all add: put_field_def)

lemma record_selection_Inr:
  assumes "record_selection now sid f v src locked md = Inr md'"
  obtains r where "md' = put_field r md" "fr_series r = sid" "fr_field r = f" "fr_source r = src"
    "fr_locked r = (case locked of None \<Rightarrow> src = ''manual'' | Some b \<Rightarrow> b)" "fr_value r = encode (value_from_storage f v)" "meta_series sid md \<noteq> None"
proof -
  let ?r = "\<lparr>fr_series = sid, fr_field = f, fr_value = encode (value_from_storage f v), fr_source = src,
    fr_locked = (case locked of None \<Rightarrow> src = ''manual'' | Some b \<Rightarrow> b), fr_at = now\<rparr>"
  have "md' = put_field ?r md" "meta_series sid md \<noteq> None" using assms by (simp_all add: record_selection_def split: if_splits)
  then show ?thesis by (intro that [of ?r]) simp_all
qed

lemma after_change_frame:
  assumes "after_change sid f v md = Inr md'"
  shows "md_series md' = md_series md" "md_fields md' = md_fields md" "md_candidates md' = md_candidates md"
  using assms by (auto simp: after_change_def split: if_splits sum.splits prod.splits)

text \<open>What writing a candidate leaves: the column of the field, its row, nothing else.\<close>

definition written_field :: "store \<Rightarrow> int \<Rightarrow> meta_field \<Rightarrow> string \<Rightarrow> json \<Rightarrow> json \<Rightarrow> metadata \<Rightarrow> metadata \<Rightarrow> bool" where
  "written_field store sid f src current v md md' \<longleftrightarrow>
     (if encode v = encode current then column sid f md' = column sid f md
      else \<exists>w. store f (value_for_storage f v) = Some w \<and> column sid f md' = Some w)
     \<and> (\<exists>r. field_row_of sid f md' = Some r \<and> fr_source r = src \<and> \<not> fr_locked r \<and> fr_value r = encode (value_from_storage f v))
     \<and> candidates_of sid f md' = candidates_of sid f md"

definition written :: "store \<Rightarrow> int \<Rightarrow> meta_field \<Rightarrow> string \<Rightarrow> json \<Rightarrow> json \<Rightarrow> metadata \<Rightarrow> metadata \<Rightarrow> bool" where
  "written store sid f src current v md md' \<longleftrightarrow> written_field store sid f src current v md md'
     \<and> (\<forall>i g. (i, g) \<noteq> (sid, f) \<longrightarrow> same_field i g md md')"

lemma column_on_series:
  assumes "\<And>r. mr_id (h r) = mr_id r"
  shows "column i g (on_series sid h md) = map_option (\<lambda>r. mr_values (if sid = i then h r else r) g) (meta_series i md)"
  by (simp add: column_def meta_series_on_series [OF assms] option.map_comp comp_def)

lemma write_candidate:
  assumes "write_metadata_candidate store now sid f src current v md = Inr md'"
  shows "written store sid f src current v md md'"
proof -
  let ?same = "encode v = encode current"
  let ?own = "\<lambda>r. if has_source_column f then r\<lparr>mr_sources := (mr_sources r)(f := Some src)\<rparr> else r"
  let ?stamp = "\<lambda>r. if f = MfChapterVolMap then r\<lparr>mr_map_updated := Some now\<rparr> else r"
  let ?put = "\<lambda>w r. ?stamp (?own (r\<lparr>mr_values := (mr_values r)(f := w)\<rparr>))"
  obtain md1 md2 where first: "if ?same then md1 = (if has_source_column f then on_series sid ?own md else md)
      else \<exists>w. store f (value_for_storage f v) = Some w \<and> md1 = on_series sid (?put w) md"
    and sel: "record_selection now sid f v src (Some False) md1 = Inr md2"
    and rest: "if ?same then md' = md2 else after_change sid f v md2 = Inr md'"
    using assms unfolding write_metadata_candidate_def Let_def
    by (cases ?same; cases "store f (value_for_storage f v)") (auto split: sum.splits)
  obtain r where md2: "md2 = put_field r md1" and r: "fr_series r = sid" "fr_field r = f" "fr_source r = src" "\<not> fr_locked r"
      "fr_value r = encode (value_from_storage f v)" and some: "meta_series sid md1 \<noteq> None"
    by (rule record_selection_Inr [OF sel]) auto
  have md': "md_series md' = md_series md1" "md_fields md' = md_fields md2" "md_candidates md' = md_candidates md1"
    using rest after_change_frame [of sid f v md2 md'] md2 by (auto split: if_splits)
  have kept1: "md_fields md1 = md_fields md" "md_candidates md1 = md_candidates md" using first by (auto split: if_splits)
  have columns: "column i g md1 = column i g md" if "(i, g) \<noteq> (sid, f) \<or> ?same" for i g
    using first that
    by (cases "meta_series i md") (auto simp: column_def meta_series_on_series split: if_splits)
  have own_column: "\<exists>w. store f (value_for_storage f v) = Some w \<and> column sid f md1 = Some w" if changed: "\<not> ?same"
  proof -
    obtain w where w: "store f (value_for_storage f v) = Some w" "md1 = on_series sid (?put w) md"
      using first unfolding if_not_P [OF changed] by blast
    have "meta_series sid md \<noteq> None" using some w(2) by (auto simp: meta_series_on_series)
    then have "column sid f md1 = Some w" using w(2) by (auto simp: column_on_series)
    with w(1) show ?thesis by blast
  qed
  have column': "column i g md' = column i g md1" for i g using md'(1) by (simp add: column_def meta_series_def)
  have row': "field_row_of i g md' = (if i = sid \<and> g = f then Some r else field_row_of i g md)" for i g
    using field_row_put [of i g r md1] md2 md'(2) kept1(1) r(1,2) by (auto simp: field_row_of_def)
  have cand': "candidates_of i g md' = candidates_of i g md" for i g using md'(3) kept1(2) by (simp add: candidates_of_def)
  have others: "same_field i g md md'" if "(i, g) \<noteq> (sid, f)" for i g
    using that columns [of i g] column' [of i g] row' [of i g] cand' [of i g] by (auto simp: same_field_def)
  show ?thesis unfolding written_def written_field_def
    using own_column columns [of sid f] column' [of sid f] row' [of sid f] cand' [of sid f] r others by auto
qed

subsection \<open>One safe application\<close>

text \<open>What licenses a change: the field is open, its best candidate is not one the operator gave up,
  and every source that has a say agrees.\<close>

definition licensed :: "int \<Rightarrow> meta_field \<Rightarrow> metadata \<Rightarrow> candidate_row \<Rightarrow> bool" where
  "licensed sid f md c \<longleftrightarrow> \<not> is_locked sid f md \<and> first_of (ranked f False (candidates_of sid f md)) = Some c
     \<and> length (voiced_values f False (ranked f False (candidates_of sid f md))) \<le> 1 \<and> \<not> relinquished f False (ca_source c)
     \<and> (encode (ca_json c) = encode (current_value sid f md) \<or> \<not> lowers f (current_value sid f md) (ca_json c))"

definition safe_change :: "store \<Rightarrow> int \<Rightarrow> meta_field \<Rightarrow> metadata \<Rightarrow> metadata \<Rightarrow> bool" where
  "safe_change store sid f md md' \<longleftrightarrow>
     (\<exists>c. licensed sid f md c \<and> written_field store sid f (ca_source c) (current_value sid f md) (ca_json c) md md')"

lemma apply_safe_change:
  assumes "apply_safe store now sid f src v allow md = Inr (Some (how, md'))"
  shows "\<exists>c. ca_source c = src \<and> licensed sid f md c \<and> written store sid f src (current_value sid f md) (ca_json c) md md'"
proof -
  let ?cs = "ranked f (is_locked sid f md) (candidates_of sid f md)"
  obtain c where c: "first_of ?cs = Some c" and lic: "\<not> is_locked sid f md" "\<not> length (voiced_values f (is_locked sid f md) ?cs) > 1"
      "\<not> relinquished f (is_locked sid f md) (ca_source c)" "ca_source c = src"
      "encode (ca_json c) = encode (current_value sid f md) \<or> \<not> lowers f (current_value sid f md) (ca_json c)"
    and w: "write_metadata_candidate store now sid f src (current_value sid f md) (ca_json c) md = Inr md'"
    using assms by (auto simp: apply_safe_def Let_def map_sum_def split: if_splits option.splits sum.splits)
  have "licensed sid f md c" using c lic by (simp add: licensed_def)
  with write_candidate [OF w] lic(4) show ?thesis by blast
qed

subsection \<open>The loop over the fields\<close>

lemma licensed_same: "same_field sid f md md' \<Longrightarrow> licensed sid f md' c = licensed sid f md c"
  using same_field_state [of sid f md md'] by (simp add: licensed_def)

lemma safe_change_same:
  assumes "same_field sid f md0 md" "same_field sid f md' md1" "safe_change store sid f md md'"
  shows "safe_change store sid f md0 md1"
proof -
  obtain c where c: "licensed sid f md c" "written_field store sid f (ca_source c) (current_value sid f md) (ca_json c) md md'"
    using assms(3) by (auto simp: safe_change_def)
  have "licensed sid f md0 c" using c(1) licensed_same [OF assms(1)] by simp
  moreover have "written_field store sid f (ca_source c) (current_value sid f md0) (ca_json c) md0 md1"
    using c(2) same_field_state(3) [OF assms(1)] assms(1,2) unfolding written_field_def same_field_def by metis
  ultimately show ?thesis by (auto simp: safe_change_def)
qed

lemma apply_state_cases:
  assumes "apply_state store now sid st md rep = Inr (md', rep')"
  shows "md' = md \<or> (\<exists>c how. st_recommended st = Some c \<and> (st_pending st \<or> st_drift st) \<and> \<not> st_conflict st
      \<and> \<not> lowers (st_field st) (st_value st) (ca_json c)
      \<and> apply_safe store now sid (st_field st) (ca_source c) (ca_json c) (st_pending st) md = Inr (Some (how, md')))"
  using assms by (auto simp: apply_state_def split: option.splits if_splits sum.splits prod.splits applied.splits)

lemma apply_state_safe:
  assumes "apply_state store now sid st md rep = Inr (md', rep')"
  shows "same_field i g md md' \<or> (i = sid \<and> g = st_field st \<and> safe_change store sid g md md')"
proof (cases "md' = md")
  case False
  then obtain c how where "apply_safe store now sid (st_field st) (ca_source c) (ca_json c) (st_pending st) md = Inr (Some (how, md'))"
    using apply_state_cases [OF assms] by blast
  then obtain d where d: "ca_source d = ca_source c" "licensed sid (st_field st) md d"
      "written store sid (st_field st) (ca_source d) (current_value sid (st_field st) md) (ca_json d) md md'"
    using apply_safe_change by metis
  show ?thesis
  proof (cases "(i, g) = (sid, st_field st)")
    case True
    then show ?thesis using d by (auto simp: safe_change_def written_def)
  next
    case False
    then show ?thesis using d(3) by (auto simp: written_def)
  qed
qed (simp add: same_field_refl)

lemma apply_states_safe:
  assumes "apply_states store now sid sts md rep = (md', res)" "distinct (map st_field sts)"
  shows "same_field i g md md' \<or> (i = sid \<and> g \<in> set (map st_field sts) \<and> safe_change store sid g md md')"
  using assms
proof (induction sts arbitrary: md rep)
  case Nil
  then show ?case by (simp add: same_field_refl)
next
  case (Cons st sts)
  show ?case
  proof (cases "apply_state store now sid st md rep")
    case (Inl e)
    with Cons.prems show ?thesis by (simp add: same_field_refl)
  next
    case (Inr p)
    obtain md1 rep1 where p: "p = (md1, rep1)" by (cases p)
    have rest: "same_field i g md1 md' \<or> (i = sid \<and> g \<in> set (map st_field sts) \<and> safe_change store sid g md1 md')"
      using Cons.IH [of md1 rep1] Cons.prems Inr p by simp
    from apply_state_safe [OF Inr [unfolded p], of i g] show ?thesis
    proof (elim disjE conjE)
      assume "same_field i g md md1"
      with rest same_field_trans safe_change_same [OF _ same_field_refl] show ?thesis by auto
    next
      assume h: "i = sid" "g = st_field st" "safe_change store sid g md md1"
      then have "same_field i g md1 md'" using rest Cons.prems(2) by auto
      with h safe_change_same [OF same_field_refl] show ?thesis by auto
    qed
  qed
qed

lemma states_distinct: "distinct (map st_field (get_metadata_field_states sid md))"
  by (simp add: get_metadata_field_states_def comp_def field_state_of_def Let_def meta_fields_def)

text \<open>
  C36: Applying the recommended metadata of a series changes nothing but what may be changed, even
  when the states it works through were read from an older database: every field of every series
  keeps its column, its selection row and its candidates, except fields of this series that are not
  locked now, whose best candidate is not one the operator gave up, on which all the sources that
  have a say agree, and whose count does not sink; such a field then has the value of that candidate
  and an open selection that names its source. This holds also when the stub code raises midway.
\<close>

theorem recommendations_change_safely:
  "case apply_states store now sid (get_metadata_field_states sid older) md empty_report of (md', res) \<Rightarrow>
     same_field i f md md' \<or> (i = sid \<and> safe_change store sid f md md')"
proof (cases "apply_states store now sid (get_metadata_field_states sid older) md empty_report")
  case (Pair md' res)
  with apply_states_safe [OF Pair states_distinct, of i f] show ?thesis by auto
qed

subsection \<open>Recommended changes settle\<close>

text \<open>What a value must satisfy to be found again: the column gives back a value of the same text,
  and the source has a name.\<close>

definition reads_back :: "store \<Rightarrow> candidate_row \<Rightarrow> bool" where
  "reads_back store c \<longleftrightarrow> ca_source c \<noteq> []
     \<and> (case store (ca_field c) (value_for_storage (ca_field c) (ca_json c)) of None \<Rightarrow> True
        | Some w \<Rightarrow> encode (value_from_storage (ca_field c) w) = encode (ca_json c))"

definition field_settled :: "int \<Rightarrow> meta_field \<Rightarrow> metadata \<Rightarrow> bool" where
  "field_settled sid f md \<longleftrightarrow> (let st = field_state_of sid md f in
     case st_recommended st of None \<Rightarrow> True
     | Some c \<Rightarrow> (st_pending st \<or> st_drift st) \<longrightarrow>
         st_conflict st \<or> lowers f (st_value st) (ca_json c) \<or> relinquished f False (ca_source c))"

lemma ranked_set: "set (ranked f locked cs) = set cs" by (simp add: ranked_def)

lemma first_of_ranked: "first_of (ranked f locked cs) = Some c \<Longrightarrow> c \<in> set cs"
  using ranked_set [of f locked cs] by (auto simp: first_of_def split: list.splits)

lemma applied_settled:
  assumes "apply_safe store now sid f src v allow md = Inr (Some (how, md'))"
    and "\<And>c. c \<in> set (candidates_of sid f md) \<Longrightarrow> reads_back store c"
  shows "field_settled sid f md'"
proof -
  obtain c where c: "ca_source c = src" "licensed sid f md c" "written_field store sid f src (current_value sid f md) (ca_json c) md md'"
    using apply_safe_change [OF assms(1)] by (auto simp: written_def)
  have best: "first_of (ranked f False (candidates_of sid f md)) = Some c" using c(2) by (simp add: licensed_def)
  then have mem: "c \<in> set (candidates_of sid f md)" by (rule first_of_ranked)
  have cf: "ca_field c = f" using mem by (simp add: candidates_of_def)
  have reads: "reads_back store c" using mem by (rule assms(2))
  obtain r where r: "field_row_of sid f md' = Some r" "fr_source r = src" "\<not> fr_locked r" and same: "candidates_of sid f md' = candidates_of sid f md"
    using c(3) by (auto simp: written_field_def)
  have current: "encode (current_value sid f md') = encode (ca_json c)"
  proof (cases "encode (ca_json c) = encode (current_value sid f md)")
    case True
    then show ?thesis using c(3) by (simp add: written_field_def current_column)
  next
    case False
    then obtain w where "store f (value_for_storage f (ca_json c)) = Some w" "column sid f md' = Some w"
      using c(3) by (auto simp: written_field_def)
    then show ?thesis using reads cf by (simp add: reads_back_def current_column)
  qed
  have open': "\<not> is_locked sid f md'" "selected_source sid f md' = src"
    using r reads c(1) by (simp_all add: is_locked_def selected_source_def reads_back_def)
  have "st_recommended (field_state_of sid md' f) = Some c" "\<not> st_pending (field_state_of sid md' f)" "\<not> st_drift (field_state_of sid md' f)"
    using best same current open' c(1) by (simp_all add: field_state_of_def Let_def)
  then show ?thesis by (simp add: field_settled_def Let_def)
qed

lemma column_kept:
  assumes "same_field sid f md md' \<or> safe_change store sid f md md'" "meta_series sid md \<noteq> None"
  shows "meta_series sid md' \<noteq> None"
proof -
  have "column sid f md \<noteq> None" using assms(2) by (simp add: column_None)
  then have "column sid f md' \<noteq> None"
    using assms(1) by (auto simp: same_field_def safe_change_def written_field_def split: if_splits)
  then show ?thesis by (simp add: column_None)
qed

lemma settled_same: "same_field sid f md md' \<Longrightarrow> field_settled sid f md' = field_settled sid f md"
  by (simp add: field_settled_def same_field_state(1))

lemma field_of_state [simp]: "st_field (field_state_of sid md f) = f"
  by (simp add: field_state_of_def Let_def)

lemma refused_safe:
  assumes "apply_safe store now sid f (ca_source c) (ca_json c) (st_pending st) md = Inr None"
    and st: "st = field_state_of sid md f" "st_recommended st = Some c" "st_pending st \<or> st_drift st" "\<not> st_conflict st"
      "\<not> lowers f (st_value st) (ca_json c)" "meta_series sid md \<noteq> None"
  shows "relinquished f False (ca_source c)"
proof -
  have unlocked: "\<not> is_locked sid f md" using st by (auto simp: field_state_of_def Let_def split: option.splits)
  have "first_of (ranked f False (candidates_of sid f md)) = Some c" using st(1,2) unlocked by (simp add: field_state_of_def Let_def)
  then show ?thesis using assms(1) st unlocked
    by (auto simp: apply_safe_def field_state_of_def Let_def map_sum_def split: if_splits sum.splits)
qed

lemma apply_state_settles:
  assumes "apply_state store now sid st md rep = Inr (md1, rep1)" "st = field_state_of sid md f" "meta_series sid md \<noteq> None"
    and "\<And>c. c \<in> set (candidates_of sid f md) \<Longrightarrow> reads_back store c"
  shows "field_settled sid f md1"
proof (cases "md1 = md")
  case True
  show ?thesis
  proof (cases "field_settled sid f md")
    case False
    then obtain c where c: "st_recommended st = Some c" "st_pending st \<or> st_drift st" "\<not> st_conflict st"
        "\<not> lowers f (st_value st) (ca_json c)" "\<not> relinquished f False (ca_source c)"
      using assms(2) by (auto simp: field_settled_def Let_def split: option.splits)
    have f: "st_field st = f" using assms(2) by simp
    show ?thesis
    proof (cases "apply_safe store now sid f (ca_source c) (ca_json c) (st_pending st) md")
      case (Inl e)
      then show ?thesis using assms(1) c f by (simp add: apply_state_def)
    next
      case (Inr u)
      show ?thesis
      proof (cases u)
        case None
        with Inr have "apply_safe store now sid f (ca_source c) (ca_json c) (st_pending st) md = Inr None" by simp
        from refused_safe [OF this assms(2) c(1-4) assms(3)] c(5) show ?thesis by simp
      next
        case (Some p)
        obtain how md2 where p: "p = (how, md2)" by (cases p)
        have "md2 = md1" using assms(1) c f Inr Some p by (cases how) (auto simp: apply_state_def)
        with applied_settled [OF Inr [unfolded Some p] assms(4)] show ?thesis by simp
      qed
    qed
  qed (use True in simp)
next
  case False
  then obtain c how where "apply_safe store now sid f (ca_source c) (ca_json c) (st_pending st) md = Inr (Some (how, md1))"
    using apply_state_cases [OF assms(1)] assms(2) by auto
  from applied_settled [OF this assms(4)] show ?thesis .
qed

lemma apply_states_settle:
  assumes "apply_states store now sid sts md rep = (md', Inr rep')" "distinct (map st_field sts)" "meta_series sid md \<noteq> None"
    and "\<And>st. st \<in> set sts \<Longrightarrow> st = field_state_of sid md (st_field st)"
    and "\<And>f c. c \<in> set (candidates_of sid f md) \<Longrightarrow> reads_back store c"
  shows "\<forall>st \<in> set sts. field_settled sid (st_field st) md'"
  using assms
proof (induction sts arbitrary: md rep)
  case (Cons st sts)
  obtain md1 rep1 where step: "apply_state store now sid st md rep = Inr (md1, rep1)"
    using Cons.prems(1) by (auto split: sum.splits)
  have rest: "apply_states store now sid sts md1 rep1 = (md', Inr rep')" using Cons.prems(1) step by simp
  have first: "field_settled sid (st_field st) md1"
    using apply_state_settles [OF step] Cons.prems(3-5) by auto
  have frame: "same_field sid g md md1" if "g \<noteq> st_field st" for g using apply_state_safe [OF step, of sid g] that by auto
  have cands: "candidates_of sid g md1 = candidates_of sid g md" for g
    using apply_state_safe [OF step, of sid g] by (auto simp: same_field_def safe_change_def written_field_def)
  have some: "meta_series sid md1 \<noteq> None"
  proof -
    obtain g where "g \<noteq> st_field st" using meta_field.exhaust meta_field.distinct by metis
    from frame [OF this] Cons.prems(3) show ?thesis by (metis column_None same_field_def)
  qed
  have states: "st' = field_state_of sid md1 (st_field st')" if "st' \<in> set sts" for st'
  proof -
    have "st_field st' \<in> st_field ` set sts" using that by (rule imageI)
    then have "st_field st' \<noteq> st_field st" using Cons.prems(2) by auto
    then have "field_state_of sid md1 (st_field st') = field_state_of sid md (st_field st')"
      by (rule same_field_state(1) [OF frame])
    moreover have "st' = field_state_of sid md (st_field st')" using Cons.prems(4) [of st'] that by simp
    ultimately show ?thesis by simp
  qed
  have "\<forall>st \<in> set sts. field_settled sid (st_field st) md'"
    using Cons.IH [OF rest _ some states] Cons.prems(2,5) cands by auto
  moreover have "same_field sid (st_field st) md1 md'"
    using apply_states_safe [OF rest, of sid "st_field st"] Cons.prems(2) by auto
  ultimately show ?case using first settled_same by auto
qed simp

lemma settled_state_kept:
  assumes "field_settled sid f md" "meta_series sid md \<noteq> None"
  shows "\<exists>skip. apply_state store now sid (field_state_of sid md f) md rep = Inr (md, rep\<lparr>ar_skipped := ar_skipped rep @ skip\<rparr>)"
proof -
  let ?st = "field_state_of sid md f"
  show ?thesis
  proof (cases "st_recommended ?st")
    case None
    then show ?thesis by (intro exI [of _ "[]"]) (simp add: apply_state_def)
  next
    case (Some c)
    show ?thesis
    proof (cases "(st_pending ?st \<or> st_drift ?st) \<and> \<not> st_conflict ?st \<and> \<not> lowers f (st_value ?st) (ca_json c)")
      case False
      then show ?thesis using Some
        by (cases "st_pending ?st \<or> st_drift ?st"; cases "st_conflict ?st") (auto simp: apply_state_def intro: exI [of _ "[]"])
    next
      case True
      then have rel: "relinquished f False (ca_source c)" using assms(1) Some by (auto simp: field_settled_def Let_def)
      have unlocked: "\<not> is_locked sid f md" using True Some by (auto simp: field_state_of_def Let_def split: option.splits)
      then have "first_of (ranked f False (candidates_of sid f md)) = Some c" using Some by (simp add: field_state_of_def Let_def)
      then have "apply_safe store now sid f (ca_source c) (ca_json c) (st_pending ?st) md = Inr None"
        using rel unlocked by (simp add: apply_safe_def Let_def)
      then show ?thesis using True Some by (auto simp: apply_state_def)
    qed
  qed
qed

lemma settled_states_kept:
  assumes "\<And>st. st \<in> set sts \<Longrightarrow> st = field_state_of sid md (st_field st) \<and> field_settled sid (st_field st) md" "meta_series sid md \<noteq> None"
  shows "\<exists>rep'. apply_states store now sid sts md rep = (md, Inr rep') \<and> ar_applied rep' = ar_applied rep \<and> ar_reconciled rep' = ar_reconciled rep"
  using assms(1)
proof (induction sts arbitrary: rep)
  case (Cons st sts)
  have st: "st = field_state_of sid md (st_field st)" "field_settled sid (st_field st) md" using Cons.prems by auto
  obtain skip where "apply_state store now sid st md rep = Inr (md, rep\<lparr>ar_skipped := ar_skipped rep @ skip\<rparr>)"
    using settled_state_kept [OF st(2) assms(2)] st(1) by metis
  with Cons.IH [of "rep\<lparr>ar_skipped := ar_skipped rep @ skip\<rparr>"] Cons.prems show ?case by auto
qed simp

text \<open>
  C37: Applying the recommended metadata settles in one pass: when it ends without an exception, a
  second pass over the result changes nothing, it neither applies nor reconciles a field; what it may
  still report are the fields it skips. Each candidate's value must read back from its column as it
  was written (up to the order of keys) and its source must have a name.
\<close>

theorem recommendations_settle:
  assumes "apply_recommended_candidates store now sid md = (md', Inr rep)"
    and "\<And>f c. c \<in> set (candidates_of sid f md) \<Longrightarrow> reads_back store c"
  shows "\<exists>rep'. apply_recommended_candidates store later sid md' = (md', Inr rep') \<and> ar_applied rep' = [] \<and> ar_reconciled rep' = []"
proof (cases "meta_series sid md = None")
  case True
  then have "md' = md" using assms(1) by (simp add: apply_recommended_candidates_def get_metadata_field_states_def)
  with True show ?thesis by (simp add: apply_recommended_candidates_def get_metadata_field_states_def empty_report_def)
next
  case False
  have run: "apply_states store now sid (get_metadata_field_states sid md) md empty_report = (md', Inr rep)"
    using assms(1) by (simp add: apply_recommended_candidates_def)
  have states: "st = field_state_of sid md (st_field st)" if "st \<in> set (get_metadata_field_states sid md)" for st
    using that by (auto simp: get_metadata_field_states_def split: if_splits)
  have all: "\<forall>st \<in> set (get_metadata_field_states sid md). field_settled sid (st_field st) md'"
    by (rule apply_states_settle [OF run states_distinct False states assms(2)])
  have some: "meta_series sid md' \<noteq> None"
  proof (rule column_kept [OF _ False])
    show "same_field sid MfTitle md md' \<or> safe_change store sid MfTitle md md'"
      using apply_states_safe [OF run states_distinct, of sid MfTitle] by blast
  qed
  have "field_settled sid f md'" if "(name, f) \<in> set meta_fields" for name f
  proof -
    have "field_state_of sid md f \<in> set (get_metadata_field_states sid md)"
      using that False by (force simp: get_metadata_field_states_def)
    with all show ?thesis by (metis field_of_state)
  qed
  then have "\<exists>rep'. apply_states store later sid (get_metadata_field_states sid md') md' empty_report = (md', Inr rep')
      \<and> ar_applied rep' = ar_applied empty_report \<and> ar_reconciled rep' = ar_reconciled empty_report"
    by (intro settled_states_kept [OF _ some]) (auto simp: get_metadata_field_states_def some)
  then show ?thesis by (auto simp: apply_recommended_candidates_def empty_report_def)
qed

subsection \<open>A series with two sources\<close>

definition plain_store :: store where "plain_store f v = Some v"

definition counted_row :: meta_row where
  "counted_row = \<lparr>mr_id = 1, mr_values = (\<lambda>f. if f = MfTotalChapters then JInt 10 else if f = MfStatus then JStr ''RELEASING'' else JNull),
     mr_sources = (\<lambda>_. None), mr_map_updated = None, mr_refreshed = None, mr_added = None\<rparr>"

definition said :: "meta_field \<Rightarrow> string \<Rightarrow> json \<Rightarrow> candidate_row" where
  "said f src v = \<lparr>ca_series = 1, ca_field = f, ca_source = src, ca_value = encode v, ca_confidence = None, ca_at = ''t''\<rparr>"

text \<open>More chapters are known; the status is contested; the description is locked.\<close>

definition counted :: metadata where
  "counted = \<lparr>md_series = [counted_row],
     md_fields = [\<lparr>fr_series = 1, fr_field = MfDescription, fr_value = ''null'', fr_source = ''manual'', fr_locked = True, fr_at = ''t''\<rparr>],
     md_candidates = [said MfTotalChapters ''anilist'' (JInt 12), said MfStatus ''anilist'' (JStr ''A''), said MfStatus ''kitsu'' (JStr ''B''),
       said MfDescription ''anilist'' (JStr ''C'')],
     md_library = \<lparr>series = [], volumes = [], chapters = [], next_volume_id = 1, next_chapter_id = 1\<rparr>\<rparr>"

definition counted_report :: apply_report where
  "counted_report = \<lparr>ar_applied = [MfTotalChapters], ar_reconciled = [], ar_skipped = [(MfStatus, Conflict)]\<rparr>"

lemma counted_applied: "snd (apply_recommended_candidates plain_store ''t'' 1 counted) = Inr counted_report"
  by code_simp

theorem recommendations_settle_witness:
  "\<exists>rep'. apply_recommended_candidates plain_store ''u'' 1 (fst (apply_recommended_candidates plain_store ''t'' 1 counted))
       = (fst (apply_recommended_candidates plain_store ''t'' 1 counted), Inr rep') \<and> ar_applied rep' = [] \<and> ar_reconciled rep' = []"
proof (rule recommendations_settle)
  show "apply_recommended_candidates plain_store ''t'' 1 counted
      = (fst (apply_recommended_candidates plain_store ''t'' 1 counted), Inr counted_report)"
    using counted_applied by (metis prod.collapse)
  have all: "list_all (reads_back plain_store) (md_candidates counted)" by code_simp
  show "reads_back plain_store c" if "c \<in> set (candidates_of 1 f counted)" for f c
    using all that by (auto simp: candidates_of_def list_all_iff)
qed

end
