(* ===== verification/Import_Plan.thy ===== *)
theory Import_Plan
  imports Import_Lease Import_Policy Release_Tags Py_Values
begin

text \<open>
  Planning an import (\<open>app/import_plan.py\<close>): phase 1 of an import reads a leased queue row, its
  files and the rows they could replace, decides what happens to every file and renews the lease,
  all in one transaction. The queue rows and their fences are those of \<open>Import_Lease\<close>, with the
  columns only this phase reads beside them; a claim is a volume or chapter row with the download
  that grabbed it. The directory of a series, the file names and the kinds are those of
  \<open>File_Names\<close> and \<open>Import_Policy\<close>. A plan records what it was made from (\<open>publication_admission\<close>). Event lines are left out.
\<close>

subsection \<open>Tables\<close>

datatype file_status = FilePending | FileNeedsReview | FileSkipped | FileImported | FileFailed

record import_file =
  if_id :: int
  if_queue :: int
  if_status :: file_status
  if_src :: string
  if_name :: string
  if_volume :: "rat option"
  if_chapter :: "rat option"
  if_type :: "string option"
  if_volume_start :: "rat option"
  if_volume_end :: "rat option"
  if_chapter_end :: "rat option"
  if_pack :: "string option"
  if_special :: bool
  if_kind :: "string option"
  if_title :: "string option"
  if_dst :: "string option"

datatype claim_status = ClWanted | ClGrabbed | ClDownloaded

text \<open>A row of \<open>volumes\<close> or \<open>chapters\<close>: the columns both tables have, then those of one of them
  (\<open>cl_chapter\<close> to \<open>cl_title\<close> of a volume, \<open>cl_volume\<close> and \<open>cl_end\<close> of a chapter).\<close>

record claim_row =
  cl_id :: int
  cl_series :: int
  cl_num :: "rat option"
  cl_status :: claim_status
  cl_quality :: "string option"
  cl_client :: "int option"
  cl_download :: "string option"
  cl_protocol :: "string option"
  cl_url :: "string option"
  cl_path :: "string option"
  cl_grabbed_at :: "string option"
  cl_imported_at :: "string option"
  cl_torrent :: "string option"
  cl_indexer :: "string option"
  cl_client_name :: "string option"
  cl_group :: "string option"
  cl_size :: "int option"
  cl_monitored :: bool
  cl_chapter :: "rat option"
  cl_pack :: "string option"
  cl_start :: "rat option"
  cl_last :: "rat option"
  cl_special :: bool
  cl_edition :: "string option"
  cl_language :: "string option"
  cl_title :: "string option"
  cl_volume :: "int option"
  cl_end :: "rat option"

text \<open>What is known of a release.\<close>

record release_meta =
  rm_name :: "string option"
  rm_indexer :: "string option"
  rm_protocol :: "string option"
  rm_client :: "string option"
  rm_group :: "string option"
  rm_size :: "int option"

record series_more =
  sm_id :: int
  sm_deleted :: "string option"
  sm_edition :: "string option"
  sm_cover :: "string option"

record queue_more =
  qm_id :: int
  qm_url :: "string option"
  qm_policy :: py_value
  qm_name :: "string option"
  qm_volume :: "rat option"

record plan_db =
  pd_lease :: lease_db
  pd_more :: "queue_more list"
  pd_files :: "import_file list"
  pd_volumes :: "claim_row list"
  pd_chapters :: "claim_row list"
  pd_seen :: "seen_claim list"
  pd_history :: "grab_history list"
  pd_clients :: "(int \<times> py_value) list"
  pd_roots :: "root_folder list"
  pd_series :: "series_place list"
  pd_series_more :: "series_more list"
  pd_seen_meta :: "(string \<times> release_meta) list"

text \<open>What the process around the database gives: the settings and the resolution of symbolic links.\<close>

record plan_env =
  pe_cfg :: "string \<Rightarrow> string"
  pe_realpath :: "string \<Rightarrow> string"

definition claim_evidence :: "claim_row \<Rightarrow> evidence_row" where
  "claim_evidence r = \<lparr>ev_protocol = text_value (cl_protocol r), ev_download_id = cl_download r, ev_series_id = Some (cl_series r),
     ev_client_id = cl_client r, ev_url = cl_url r\<rparr>"

definition seen_evidence :: "seen_claim \<Rightarrow> evidence_row" where
  "seen_evidence r = \<lparr>ev_protocol = text_value (aq_protocol r), ev_download_id = aq_download_id r, ev_series_id = aq_series r,
     ev_client_id = aq_client r, ev_url = aq_url r\<rparr>"

definition protocol_view :: "plan_db \<Rightarrow> protocol_db" where
  "protocol_view db = \<lparr>client_types = pd_clients db, seen_rows = map seen_evidence (pd_seen db),
     volume_rows = map claim_evidence (pd_volumes db), chapter_rows = map claim_evidence (pd_chapters db)\<rparr>"

text \<open>The lease operations see the files through their review flags.\<close>

definition lease_view :: "plan_db \<Rightarrow> lease_db" where
  "lease_view db = (pd_lease db)\<lparr>queue_files := map (\<lambda>f. \<lparr>f_queue = Some (if_queue f), f_needs_review = (if_status f = FileNeedsReview)\<rparr>) (pd_files db)\<rparr>"

subsection \<open>The download of a queue row\<close>

record queue_job =
  qj_id :: int
  qj_series :: int
  qj_client :: "int option"
  qj_download :: "string option"
  qj_protocol :: "download_protocol option"
  qj_url :: "string option"
  qj_policy :: py_value
  qj_name :: "string option"
  qj_volume :: "rat option"

abbreviation source_of :: "queue_job \<Rightarrow> string" where "source_of q \<equiv> opt_text (qj_url q)"

definition queue_identity :: "plan_db \<Rightarrow> queue_job \<Rightarrow> download_identity" where
  "queue_identity db q =
     (let owner = coerce_download_client_id (owner_value (qj_client q)); did = opt_text (qj_download q);
          known = normalize_download_protocol (stored_protocol (qj_protocol q));
          prot = (case known of Some p \<Rightarrow> Some p
            | None \<Rightarrow> resolve_download_protocol (protocol_view db) owner (Some (qj_series q)) did (source_of q) False)
      in \<lparr>download_client_id = owner, protocol = prot, download_id = did\<rparr>)"

definition claim_identity_matches :: "claim_row \<Rightarrow> download_identity \<Rightarrow> bool" where
  "claim_identity_matches r i =
     (let prot = normalize_download_protocol (text_value (cl_protocol r))
      in if opt_text (cl_protocol r) \<noteq> [] \<and> prot = None then False
         else download_identities_match
           \<lparr>download_client_id = coerce_download_client_id (owner_value (cl_client r)), protocol = prot, download_id = opt_text (cl_download r)\<rparr> i)"

text \<open>Whether the import may only touch what the download claimed.\<close>

definition automatic_grab_import :: "plan_db \<Rightarrow> queue_job \<Rightarrow> bool" where
  "automatic_grab_import db q =
     (case policy_value (qj_policy q) of
        Some p \<Rightarrow> p \<noteq> 0
      | None \<Rightarrow> acquisition_policy (pd_seen db) (pd_history db) (qj_series q) (source_of q) (queue_identity db q) \<noteq> Some 0)"

subsection \<open>The plan of a file\<close>

datatype plan_status = PlanReady | PlanNeedsReview | PlanSkip | PlanPreFailed

record file_plan =
  fp_id :: int
  fp_src :: string
  fp_name :: string
  fp_dst :: string
  fp_kind :: import_kind
  fp_type :: "string option"
  fp_volume :: "rat option"
  fp_chapter :: "rat option"
  fp_chapter_end :: "rat option"
  fp_volume_start :: "rat option"
  fp_volume_end :: "rat option"
  fp_pack :: "string option"
  fp_special :: bool
  fp_title :: "string option"
  fp_range :: bool
  fp_stub :: bool
  fp_recheck :: bool
  fp_status :: plan_status
  fp_reason :: "join_error option"

text \<open>The decisions of a request and what is fixed for all its files.\<close>

record plan_job =
  pj_queue :: queue_job
  pj_auto :: bool
  pj_volumes :: "(int \<times> rat) list"
  pj_chapters :: "(int \<times> rat) list"
  pj_skips :: "int list"
  pj_qualities :: "(int \<times> string option) list option"
  pj_title :: string
  pj_dst_dir :: string

definition manual_file :: "plan_job \<Rightarrow> int \<Rightarrow> bool" where
  "manual_file j i \<longleftrightarrow> map_of (pj_volumes j) i \<noteq> None \<or> map_of (pj_chapters j) i \<noteq> None"

definition owned_rows :: "plan_job \<Rightarrow> download_identity \<Rightarrow> (claim_row \<Rightarrow> bool) \<Rightarrow> claim_row list \<Rightarrow> claim_row list" where
  "owned_rows j i covered rows =
     filter (\<lambda>r. cl_series r = qj_series (pj_queue j) \<and> covered r \<and> cl_status r = ClGrabbed
       \<and> cl_client r = download_client_id i \<and> cl_url r = Some (source_of (pj_queue j))) rows"

definition foreign_artifact :: "plan_job \<Rightarrow> download_identity \<Rightarrow> claim_row \<Rightarrow> bool" where
  "foreign_artifact j i r \<longleftrightarrow> cl_series r \<noteq> qj_series (pj_queue j) \<or> cl_status r \<noteq> ClGrabbed
     \<or> coerce_download_client_id (owner_value (cl_client r)) \<noteq> download_client_id i \<or> cl_url r \<noteq> Some (source_of (pj_queue j))
     \<or> \<not> claim_identity_matches r i"

definition between :: "rat option \<Rightarrow> rat option \<Rightarrow> rat option \<Rightarrow> bool" where
  "between lo hi x = (case (lo, hi, x) of (Some a, Some b, Some v) \<Rightarrow> a \<le> v \<and> v \<le> b | _ \<Rightarrow> False)"

definition file_has_grab_claim :: "plan_db \<Rightarrow> plan_job \<Rightarrow> file_plan \<Rightarrow> bool" where
  "file_has_grab_claim db j fp =
     (let i = queue_identity db (pj_queue j);
          claimed = (\<lambda>covered rows. list_ex (\<lambda>r. claim_identity_matches r i) (owned_rows j i covered rows))
      in if \<not> pj_auto j \<or> manual_file j (fp_id fp) then True
         else if fp_chapter fp \<noteq> None \<and> fp_type fp = Some ''chapter'' then claimed (\<lambda>r. cl_num r = fp_chapter fp) (pd_chapters db)
         else if fp_volume fp \<noteq> None then claimed (\<lambda>r. cl_num r = fp_volume fp) (pd_volumes db)
         else if fp_range fp then
           (if list_ex (\<lambda>r. cl_path r = Some (fp_dst fp) \<and> foreign_artifact j i r) (pd_volumes db) then False
            else claimed (\<lambda>r. between (fp_volume_start fp) (fp_volume_end fp) (cl_num r)) (pd_volumes db))
         else True)"

definition skip_plan :: "import_file \<Rightarrow> file_plan" where
  "skip_plan f = \<lparr>fp_id = if_id f, fp_src = if_src f, fp_name = if_name f, fp_dst = [], fp_kind = KSkip, fp_type = Some [], fp_volume = None,
     fp_chapter = None, fp_chapter_end = None, fp_volume_start = None, fp_volume_end = None, fp_pack = None, fp_special = False,
     fp_title = None, fp_range = False, fp_stub = False, fp_recheck = False, fp_status = PlanSkip, fp_reason = None\<rparr>"

text \<open>The mapping a file asks for, with the corrections of the request.\<close>

definition override_file :: "plan_job \<Rightarrow> import_file \<Rightarrow> import_file" where
  "override_file j f =
     (let f1 = (case map_of (pj_volumes j) (if_id f) of None \<Rightarrow> f | Some v \<Rightarrow> f\<lparr>if_volume := Some v\<rparr>)
      in case map_of (pj_chapters j) (if_id f) of None \<Rightarrow> f1 | Some c \<Rightarrow> f1\<lparr>if_chapter := Some c, if_type := Some ''chapter''\<rparr>)"

definition corrected_kind :: "plan_job \<Rightarrow> import_file \<Rightarrow> import_kind" where
  "corrected_kind j f =
     (let kind = normalize_import_kind (if_kind f) \<lparr>lf_file_type = if_type f, lf_pack_type = if_pack f, lf_is_special = if_special f,
        lf_volume_end = if_volume_end f, lf_chapter_end = if_chapter_end f\<rparr>
      in if map_of (pj_chapters j) (if_id f) \<noteq> None then (if if_chapter_end f \<noteq> None then KChapterRange else KChapter)
         else if map_of (pj_volumes j) (if_id f) \<noteq> None \<and> kind \<noteq> KSpecial then (if if_volume_end f \<noteq> None then KVolumeRange else KVolume)
         else kind)"

text \<open>The effective mapping of a file: row, kind, special title.\<close>

record mapping =
  mp_kind :: import_kind
  mp_type :: "string option"
  mp_volume :: "rat option"
  mp_chapter :: "rat option"
  mp_volume_start :: "rat option"
  mp_volume_end :: "rat option"
  mp_chapter_end :: "rat option"
  mp_special :: bool
  mp_title :: "string option"

definition effective_mapping :: "plan_job \<Rightarrow> import_file \<Rightarrow> mapping" where
  "effective_mapping j f =
     (let kind = corrected_kind j f
      in if kind = KSpecial
         then \<lparr>mp_kind = KSpecial, mp_type = Some ''special'', mp_volume = None, mp_chapter = None, mp_volume_start = None, mp_volume_end = None,
                mp_chapter_end = None, mp_special = True,
                mp_title = Some (if opt_text (if_title f) \<noteq> [] then opt_text (if_title f)
                  else derive_special_title (pj_title j) (if if_src f \<noteq> [] then if_src f else if_name f))\<rparr>
         else \<lparr>mp_kind = kind, mp_type = if_type f, mp_volume = if_volume f, mp_chapter = if_chapter f, mp_volume_start = if_volume_start f,
                mp_volume_end = if_volume_end f, mp_chapter_end = if_chapter_end f, mp_special = if_special f, mp_title = if_title f\<rparr>)"

text \<open>A volume without a number whose name reads as a chapter.\<close>

definition recheck_chapter :: "plan_job \<Rightarrow> import_file \<Rightarrow> mapping \<Rightarrow> rat option" where
  "recheck_chapter j f m =
     (if mp_kind m = KVolume \<and> mp_volume m = None \<and> mp_chapter m = None \<and> map_of (pj_volumes j) (if_id f) = None
      then extract_chapter_num (path_basename (if_src f)) else None)"

definition rechecked :: "rat option \<Rightarrow> mapping \<Rightarrow> mapping" where
  "rechecked c m = (case c of None \<Rightarrow> m | Some x \<Rightarrow> m\<lparr>mp_chapter := Some x, mp_type := Some ''chapter'', mp_kind := KChapter\<rparr>)"

definition has_volume_range :: "mapping \<Rightarrow> bool" where
  "has_volume_range m \<longleftrightarrow> mp_volume_start m \<noteq> None \<and> mp_volume_end m \<noteq> None"

definition same_stored_download :: "download_protocol option \<Rightarrow> string \<Rightarrow> claim_row \<Rightarrow> bool" where
  "same_stored_download prot did r \<longleftrightarrow> (case cl_download r of None \<Rightarrow> False
     | Some d \<Rightarrow> if prot = Some Torrent then sql_lower d = sql_lower did else d = did)"

text \<open>The stub row a chapter pack was grabbed into.\<close>

definition legacy_stub :: "plan_db \<Rightarrow> plan_job \<Rightarrow> bool" where
  "legacy_stub db j =
     (let q = pj_queue j; owner = coerce_download_client_id (owner_value (qj_client q)); did = opt_text (qj_download q);
          prot = resolve_download_protocol (protocol_view db) owner (Some (qj_series q)) did (source_of q) True
      in did \<noteq> [] \<and> owner \<noteq> None
         \<and> list_ex (\<lambda>r. cl_series r = qj_series q \<and> cl_client r = owner \<and> same_stored_download prot did r
              \<and> cl_status r = ClGrabbed \<and> cl_pack r = Some ''chapter'') (pd_volumes db))"

definition unmapped_volume :: "plan_job \<Rightarrow> import_file \<Rightarrow> mapping \<Rightarrow> bool" where
  "unmapped_volume j f m \<longleftrightarrow> mp_kind m = KVolume \<and> mp_volume m = None \<and> \<not> has_volume_range m \<and> map_of (pj_volumes j) (if_id f) = None"

definition has_template :: "string \<Rightarrow> string \<Rightarrow> bool" where "has_template token name \<longleftrightarrow> sublist token name"

definition planned_name :: "plan_env \<Rightarrow> plan_job \<Rightarrow> import_file \<Rightarrow> mapping \<Rightarrow> string" where
  "planned_name env j f m =
     (let original = path_basename (if if_src f \<noteq> [] then if_src f else if_name f)
      in if mp_kind m = KSpecial
         then build_special_filename (pj_title j) (if opt_text (mp_title m) \<noteq> [] then opt_text (mp_title m) else ''Special'') (if_src f)
         else if mp_type m = Some ''chapter'' \<and> mp_chapter m \<noteq> None \<and> (has_template ''{Volume'' (if_name f) \<or> has_template ''{Chapter'' (if_name f))
         then build_filename (pe_cfg env) (pj_title j) (mp_volume m) original None (mp_chapter m)
         else if mp_kind m = KVolume \<and> mp_volume m \<noteq> None \<and> has_template ''{Volume'' (if_name f)
         then build_filename (pe_cfg env) (pj_title j) (mp_volume m) original None None
         else if_name f)"

definition ext_quality :: "string \<Rightarrow> string option" where
  "ext_quality name = (let ext = dropWhile (\<lambda>c. c = CHR ''.'') (py_lower (snd (splitext name)))
     in if ext \<in> fst ` set quality_rank_table then Some ext else None)"

definition new_quality :: "plan_job \<Rightarrow> import_file \<Rightarrow> string \<Rightarrow> string option" where
  "new_quality j f name =
     (case pj_qualities j of
        Some observed \<Rightarrow> (case map_of observed (if_id f) of None \<Rightarrow> None | Some q \<Rightarrow> q)
      | None \<Rightarrow> ext_quality (if if_src f \<noteq> [] then if_src f else name))"

text \<open>A volume in the library of no lower quality keeps its place.\<close>

definition kept_volume :: "plan_db \<Rightarrow> plan_job \<Rightarrow> import_file \<Rightarrow> mapping \<Rightarrow> string \<Rightarrow> bool" where
  "kept_volume db j f m name =
     (mp_kind m = KVolume \<and> mp_volume m \<noteq> None
      \<and> (case find (\<lambda>r. cl_series r = qj_series (pj_queue j) \<and> cl_num r = mp_volume m) (pd_volumes db) of
           None \<Rightarrow> False
         | Some r \<Rightarrow> cl_status r = ClDownloaded \<and> opt_text (cl_quality r) \<noteq> [] \<and> opt_text (new_quality j f name) \<noteq> []
             \<and> quality_rank (cl_quality r) \<ge> quality_rank (new_quality j f name)))"

definition plan_of :: "import_file \<Rightarrow> mapping \<Rightarrow> string \<Rightarrow> bool \<Rightarrow> bool \<Rightarrow> file_plan" where
  "plan_of f m name stub recheck = \<lparr>fp_id = if_id f, fp_src = if_src f, fp_name = name, fp_dst = [], fp_kind = mp_kind m, fp_type = mp_type m,
     fp_volume = mp_volume m, fp_chapter = mp_chapter m, fp_chapter_end = mp_chapter_end m, fp_volume_start = mp_volume_start m,
     fp_volume_end = mp_volume_end m, fp_pack = if_pack f, fp_special = mp_special m, fp_title = mp_title m, fp_range = has_volume_range m,
     fp_stub = stub, fp_recheck = recheck, fp_status = PlanReady, fp_reason = None\<rparr>"

text \<open>The row after the decisions: corrections, recheck, name, status.\<close>

definition settled_row :: "plan_job \<Rightarrow> import_file \<Rightarrow> rat option \<Rightarrow> mapping \<Rightarrow> string \<Rightarrow> import_file" where
  "settled_row j f recheck m name =
     (let f1 = override_file j f;
          f2 = (case recheck of None \<Rightarrow> f1 | Some c \<Rightarrow> f1\<lparr>if_chapter := Some c, if_type := Some ''chapter''\<rparr>)
      in if mp_kind m = KSpecial
         then f2\<lparr>if_name := name, if_title := mp_title m, if_special := True, if_kind := Some (kind_name KSpecial)\<rparr>
         else f2\<lparr>if_name := name\<rparr>)"

text \<open>The destination, then the claim: the last two decisions on a file that is still ready.\<close>

definition place_file :: "plan_env \<Rightarrow> plan_db \<Rightarrow> plan_job \<Rightarrow> file_plan \<Rightarrow> file_plan" where
  "place_file env db j fp =
     (case safe_join_under (pe_realpath env) (pj_dst_dir j) (fp_name fp) of
        Inl e \<Rightarrow> fp\<lparr>fp_status := PlanPreFailed, fp_reason := Some e\<rparr>
      | Inr dst \<Rightarrow>
          if file_has_grab_claim db j (fp\<lparr>fp_dst := dst\<rparr>) then fp\<lparr>fp_dst := dst\<rparr>
          else fp\<lparr>fp_status := PlanSkip\<rparr>)"

definition plan_file :: "plan_env \<Rightarrow> plan_db \<Rightarrow> plan_job \<Rightarrow> import_file \<Rightarrow> import_file \<times> file_plan" where
  "plan_file env db j f =
     (if if_id f \<in> set (pj_skips j) \<or> if_status f = FileSkipped then (f\<lparr>if_status := FileSkipped\<rparr>, skip_plan f)
      else
        let f1 = override_file j f; m0 = effective_mapping j f1; c = recheck_chapter j f1 m0; m = rechecked c m0;
            name = planned_name env j f1 m; row = settled_row j f c m name;
            unmapped = unmapped_volume j f1 m; stub = (unmapped \<and> legacy_stub db j);
            review = (if_status f = FileNeedsReview \<or> unmapped \<and> \<not> stub);
            fp = plan_of f1 m name stub (c \<noteq> None)
        in if review then ((if unmapped \<and> \<not> stub then row\<lparr>if_status := FileNeedsReview\<rparr> else row), fp\<lparr>fp_status := PlanNeedsReview\<rparr>)
           else if kept_volume db j f1 m name then (row\<lparr>if_status := FileSkipped\<rparr>, fp\<lparr>fp_status := PlanSkip\<rparr>)
           else (let fp' = place_file env db j fp
             in ((if fp_status fp' = PlanSkip then row\<lparr>if_status := FileSkipped\<rparr> else row), fp')))"

subsection \<open>What the plan was made from\<close>

text \<open>The release of a queue row: the \<open>seen\<close> row of its download, else a volume, else a chapter.\<close>

definition claim_meta :: "claim_row \<Rightarrow> release_meta" where
  "claim_meta r = \<lparr>rm_name = cl_torrent r, rm_indexer = cl_indexer r, rm_protocol = cl_protocol r, rm_client = cl_client_name r,
     rm_group = cl_group r, rm_size = cl_size r\<rparr>"

definition queue_download_protocol :: "plan_db \<Rightarrow> queue_job \<Rightarrow> download_protocol option" where
  "queue_download_protocol db q =
     (case normalize_download_protocol (stored_protocol (qj_protocol q)) of
        Some p \<Rightarrow> Some p
      | None \<Rightarrow> resolve_download_protocol (protocol_view db) (coerce_download_client_id (owner_value (qj_client q))) (Some (qj_series q))
          (opt_text (qj_download q)) (source_of q) False)"

definition of_download :: "plan_db \<Rightarrow> queue_job \<Rightarrow> int option \<Rightarrow> int option \<Rightarrow> string option \<Rightarrow> string option \<Rightarrow> bool" where
  "of_download db q row_series row_client row_url row_download \<longleftrightarrow>
     row_series = Some (qj_series q) \<and> row_client = coerce_download_client_id (owner_value (qj_client q))
     \<and> (source_of q \<noteq> [] \<and> row_url = Some (source_of q)
        \<or> (case row_download of None \<Rightarrow> False
           | Some d \<Rightarrow> if queue_download_protocol db q = Some Torrent then sql_lower d = sql_lower (opt_text (qj_download q)) else d = opt_text (qj_download q)))"

definition no_meta :: release_meta where
  "no_meta = \<lparr>rm_name = None, rm_indexer = None, rm_protocol = None, rm_client = None, rm_group = None, rm_size = None\<rparr>"

definition queue_meta_row :: "plan_db \<Rightarrow> queue_job \<Rightarrow> release_meta option" where
  "queue_meta_row db q =
     (let seen_rows = filter (\<lambda>r. of_download db q (aq_series r) (aq_client r) (aq_url r) (aq_download_id r)) (pd_seen db);
          claims = filter (\<lambda>r. of_download db q (Some (cl_series r)) (cl_client r) (cl_url r) (cl_download r)) (pd_volumes db @ pd_chapters db)
      in case seen_rows of
           r # _ \<Rightarrow> Some (case map_of (pd_seen_meta db) (opt_text (aq_url r)) of None \<Rightarrow> no_meta\<lparr>rm_protocol := aq_protocol r\<rparr>
             | Some m \<Rightarrow> m\<lparr>rm_protocol := aq_protocol r\<rparr>)
         | [] \<Rightarrow> (case claims of [] \<Rightarrow> None | r # _ \<Rightarrow> Some (claim_meta r)))"

definition queue_metadata :: "plan_db \<Rightarrow> queue_job \<Rightarrow> release_meta" where
  "queue_metadata db q =
     (let m = (case queue_meta_row db q of None \<Rightarrow> no_meta | Some m \<Rightarrow> m)
      in if rm_protocol m = None then m\<lparr>rm_protocol := map_option (\<lambda>p. protocol_name (Some p)) (queue_download_protocol db q)\<rparr> else m)"

text \<open>Display and monitoring columns are not observed, nor are the status and the destination of a file.\<close>

definition observed_claim :: "claim_row \<Rightarrow> claim_row" where
  "observed_claim r = r\<lparr>cl_title := None, cl_monitored := False\<rparr>"

definition observed_file :: "import_file \<Rightarrow> import_file" where
  "observed_file f = f\<lparr>if_status := FilePending, if_dst := None\<rparr>"

definition observed_plan :: "file_plan \<Rightarrow> file_plan" where
  "observed_plan fp = fp\<lparr>fp_id := 0, fp_src := [], fp_name := [], fp_range := False, fp_stub := False, fp_recheck := False,
     fp_status := PlanReady, fp_reason := None\<rparr>"

record file_admission =
  fa_mapping :: "import_file option"
  fa_effective :: file_plan
  fa_volumes :: "claim_row list"
  fa_chapters :: "claim_row list"
  fa_other_volumes :: "claim_row list"
  fa_other_chapters :: "claim_row list"
  fa_claims :: bool

record admission =
  ad_known :: bool
  ad_metadata :: release_meta
  ad_series :: "(int \<times> int option \<times> string option \<times> string option) option"
  ad_queue :: "(int option \<times> string option \<times> int option \<times> string option \<times> download_protocol option \<times> py_value) option"
  ad_identity :: "int option \<times> download_protocol option \<times> string"
  ad_policy :: bool
  ad_manual :: "int list"
  ad_files :: "(int \<times> file_admission) list"

definition owned_by_download :: "plan_job \<Rightarrow> download_identity \<Rightarrow> claim_row \<Rightarrow> bool" where
  "owned_by_download j i r \<longleftrightarrow> cl_client r = download_client_id i \<and> cl_url r = Some (source_of (pj_queue j)) \<and> claim_identity_matches r i"

definition admitted_volume :: "plan_job \<Rightarrow> download_identity \<Rightarrow> file_plan \<Rightarrow> claim_row \<Rightarrow> bool" where
  "admitted_volume j i fp r \<longleftrightarrow> cl_series r = qj_series (pj_queue j)
     \<and> (owned_by_download j i r \<or> cl_path r = Some (fp_dst fp) \<or> fp_volume fp \<noteq> None \<and> cl_num r = fp_volume fp
        \<or> fp_range fp \<and> between (fp_volume_start fp) (fp_volume_end fp) (cl_num r))"

definition admitted_chapter :: "plan_job \<Rightarrow> download_identity \<Rightarrow> int list \<Rightarrow> file_plan \<Rightarrow> claim_row \<Rightarrow> bool" where
  "admitted_chapter j i chosen fp r \<longleftrightarrow> cl_series r = qj_series (pj_queue j)
     \<and> (owned_by_download j i r \<or> (case cl_volume r of None \<Rightarrow> False | Some v \<Rightarrow> v \<in> set chosen) \<or> cl_path r = Some (fp_dst fp)
        \<or> fp_chapter fp \<noteq> None \<and> cl_num r = fp_chapter fp)"

definition admit_file :: "plan_db \<Rightarrow> plan_job \<Rightarrow> file_plan \<Rightarrow> file_admission" where
  "admit_file db j fp =
     (let i = queue_identity db (pj_queue j); vols = filter (admitted_volume j i fp) (pd_volumes db);
          elsewhere = (\<lambda>r. cl_series r \<noteq> qj_series (pj_queue j) \<and> cl_path r = Some (fp_dst fp))
      in \<lparr>fa_mapping = map_option observed_file (find (\<lambda>f. if_id f = fp_id fp) (pd_files db)), fa_effective = observed_plan fp,
          fa_volumes = map observed_claim vols,
          fa_chapters = map observed_claim (filter (admitted_chapter j i (map cl_id vols) fp) (pd_chapters db)),
          fa_other_volumes = map observed_claim (filter elsewhere (pd_volumes db)),
          fa_other_chapters = map observed_claim (filter elsewhere (pd_chapters db)),
          fa_claims = file_has_grab_claim db j fp\<rparr>)"

definition publication_admission :: "plan_db \<Rightarrow> plan_job \<Rightarrow> file_plan list \<Rightarrow> admission" where
  "publication_admission db j fps =
     (let q = pj_queue j; i = queue_identity db q; extra = find (\<lambda>r. qm_id r = qj_id q) (pd_more db)
      in \<lparr>ad_known = (queue_meta_row db q \<noteq> None), ad_metadata = queue_metadata db q,
          ad_series = map_option (\<lambda>s. let m = find (\<lambda>m. sm_id m = sp_id s) (pd_series_more db) in
            (sp_id s, sp_root s, Option.bind m sm_deleted, Option.bind m sm_edition)) (find (\<lambda>s. sp_id s = qj_series q) (pd_series db)),
          ad_queue = map_option (\<lambda>r. (q_series r, Option.bind extra qm_url, q_client r, q_download r, q_protocol r,
            case extra of None \<Rightarrow> PyNone | Some e \<Rightarrow> qm_policy e)) (find (\<lambda>r. q_id r = qj_id q) (queue (pd_lease db))),
          ad_identity = (download_client_id i, protocol i, normalize_download_id (download_id i) (protocol i)),
          ad_policy = pj_auto j, ad_manual = sort (remdups (map fst (pj_volumes j) @ map fst (pj_chapters j))),
          ad_files = map (\<lambda>fp. (fp_id fp, admit_file db j fp)) (filter (\<lambda>fp. fp_status fp = PlanReady) fps)\<rparr>)"

subsection \<open>Phase 1\<close>

record import_plan =
  pl_job :: plan_job
  pl_files :: "file_plan list"
  pl_admission :: admission

text \<open>No plan, with the transaction committed; a plan; or a rollback, by the lost lease or an exception.\<close>

datatype plan_outcome = NoPlan plan_db | Planned import_plan plan_db | PlanLeaseLost | PlanRaised

definition with_lease :: "plan_db \<Rightarrow> lease_db \<Rightarrow> plan_db" where
  "with_lease db ld = db\<lparr>pd_lease := ld\<rparr>"

definition job_of :: "plan_db \<Rightarrow> queue_row \<Rightarrow> queue_job option" where
  "job_of db q =
     (case q_series q of
        None \<Rightarrow> None
      | Some sid \<Rightarrow>
          (let more = find (\<lambda>r. qm_id r = q_id q) (pd_more db)
           in Some \<lparr>qj_id = q_id q, qj_series = sid, qj_client = q_client q, qj_download = q_download q, qj_protocol = q_protocol q,
                qj_url = (case more of None \<Rightarrow> None | Some r \<Rightarrow> qm_url r), qj_policy = (case more of None \<Rightarrow> PyNone | Some r \<Rightarrow> qm_policy r),
                qj_name = (case more of None \<Rightarrow> None | Some r \<Rightarrow> qm_name r), qj_volume = (case more of None \<Rightarrow> None | Some r \<Rightarrow> qm_volume r)\<rparr>))"

text \<open>Files to decide on; a retry may find only its own skips.\<close>

definition planned_files :: "plan_db \<Rightarrow> int \<Rightarrow> import_file list" where
  "planned_files db qid =
     (let own = filter (\<lambda>f. if_queue f = qid) (pd_files db);
          open_files = filter (\<lambda>f. if_status f = FilePending \<or> if_status f = FileNeedsReview) own
      in if open_files \<noteq> [] then open_files else if list_all (\<lambda>f. if_status f = FileSkipped) own then own else [])"

definition skip_replay :: "plan_db \<Rightarrow> int \<Rightarrow> bool" where
  "skip_replay db qid \<longleftrightarrow> list_all (\<lambda>f. if_status f = FileSkipped) (planned_files db qid)"

definition release_claim :: "claim_row \<Rightarrow> claim_row" where
  "release_claim r = r\<lparr>cl_status := ClWanted, cl_grabbed_at := None, cl_download := None, cl_url := None, cl_torrent := None, cl_indexer := None,
     cl_protocol := None, cl_client_name := None, cl_client := None, cl_group := None, cl_path := None\<rparr>"

text \<open>Without a destination the row fails, and its grabbed volumes become wanted again unless another
  import may still use the download.\<close>

definition fail_without_destination :: "plan_db \<Rightarrow> int \<Rightarrow> string \<Rightarrow> queue_job \<Rightarrow> plan_outcome" where
  "fail_without_destination db now lease_owner q =
     (case transition_import_queue_row (lease_view db) now (qj_id q) lease_owner Failed of
        Inl e \<Rightarrow> PlanRaised
      | Inr (transitioned, ld) \<Rightarrow>
          (let db1 = with_lease db ld;
               shared = has_import_sibling_that_may_use_download (lease_view db1) (qj_id q) (qj_download q) (owner_value (qj_client q))
                 (Some (qj_series q)) None;
               owner = coerce_download_client_id (owner_value (qj_client q));
               prot = resolve_download_protocol (protocol_view db1) owner (Some (qj_series q)) (opt_text (qj_download q)) (source_of q) True
           in NoPlan (if transitioned \<and> \<not> shared \<and> \<not> skip_replay db (qj_id q)
             then db1\<lparr>pd_volumes := map (\<lambda>r. if cl_series r = qj_series q \<and> cl_client r = owner \<and> qj_download q \<noteq> None
                    \<and> same_stored_download prot (opt_text (qj_download q)) r \<and> cl_status r = ClGrabbed
                  then release_claim r else r) (pd_volumes db1)\<rparr>
             else db1)))"

definition update_files :: "(import_file \<Rightarrow> import_file) \<Rightarrow> import_file list \<Rightarrow> import_file list \<Rightarrow> import_file list" where
  "update_files g picked rows = map (\<lambda>f. if if_id f \<in> if_id ` set picked then g f else f) rows"

definition remember_policy :: "int \<Rightarrow> bool \<Rightarrow> queue_more list \<Rightarrow> queue_more list" where
  "remember_policy qid auto rows =
     map (\<lambda>r. if qm_id r = qid \<and> qm_policy r = PyNone then r\<lparr>qm_policy := PyInt (if auto then 1 else 0)\<rparr> else r) rows"

text \<open>A row without a series has no destination; its policy must be stored, or reading the series id raises.\<close>

definition plan_orphan :: "plan_db \<Rightarrow> int \<Rightarrow> int \<Rightarrow> string \<Rightarrow> plan_outcome" where
  "plan_orphan db now qid lease_owner =
     (case find (\<lambda>r. qm_id r = qid) (pd_more db) of
        None \<Rightarrow> PlanRaised
      | Some extra \<Rightarrow>
          if policy_value (qm_policy extra) = None then PlanRaised
          else (case (if planned_files db qid = [] then release_import_queue_lease (lease_view db) now qid lease_owner
              else transition_import_queue_row (lease_view db) now qid lease_owner Failed) of
            Inl e \<Rightarrow> PlanRaised | Inr (_, ld) \<Rightarrow> NoPlan (with_lease db ld)))"

text \<open>The decisions of the request for one row.\<close>

definition make_job :: "plan_db \<Rightarrow> queue_job \<Rightarrow> string \<Rightarrow> (int \<times> rat) list \<Rightarrow> (int \<times> rat) list \<Rightarrow> int list \<Rightarrow> (int \<times> string option) list option \<Rightarrow> plan_job" where
  "make_job db q dst_dir volume_overrides chapter_overrides skip_ids qualities =
     \<lparr>pj_queue = q, pj_auto = automatic_grab_import db q, pj_volumes = volume_overrides, pj_chapters = chapter_overrides, pj_skips = skip_ids,
      pj_qualities = qualities,
      pj_title = (case find (\<lambda>s. sp_id s = qj_series q) (pd_series db) of None \<Rightarrow> [] | Some s \<Rightarrow> opt_text (sp_title s)), pj_dst_dir = dst_dir\<rparr>"

definition decided :: "plan_env \<Rightarrow> plan_db \<Rightarrow> plan_job \<Rightarrow> plan_db" where
  "decided env db j =
     (let qid = qj_id (pj_queue j)
      in db\<lparr>pd_files := update_files (fst \<circ> plan_file env db j) (planned_files db qid) (pd_files db),
            pd_more := remember_policy qid (pj_auto j) (pd_more db)\<rparr>)"

definition make_plan :: "plan_job \<Rightarrow> file_plan list \<Rightarrow> plan_db \<Rightarrow> import_plan" where
  "make_plan j fps db = \<lparr>pl_job = j, pl_files = fps, pl_admission = publication_admission db j fps\<rparr>"

definition plan_import ::
  "plan_env \<Rightarrow> plan_db \<Rightarrow> int \<Rightarrow> int \<Rightarrow> string \<Rightarrow> (int \<times> rat) list \<Rightarrow> (int \<times> rat) list \<Rightarrow> int list \<Rightarrow> py_float
     \<Rightarrow> (int \<times> string option) list option \<Rightarrow> plan_outcome" where
  "plan_import env db now qid lease_owner volume_overrides chapter_overrides skip_ids lease_seconds qualities =
     (case find (live_row now qid lease_owner) (queue (pd_lease db)) of
        None \<Rightarrow> NoPlan db
      | Some row \<Rightarrow>
          (case job_of db row of
             None \<Rightarrow> plan_orphan db now qid lease_owner
           | Some q \<Rightarrow>
               if planned_files db qid = [] then
                 (case release_import_queue_lease (lease_view db) now qid lease_owner of
                    Inl e \<Rightarrow> PlanRaised | Inr (_, ld) \<Rightarrow> NoPlan (with_lease db ld))
               else (case series_library_dir (pe_cfg env) (pd_roots db) (pd_series db) (qj_series q) of
                    Inl e \<Rightarrow> PlanRaised
                  | Inr None \<Rightarrow> fail_without_destination db now lease_owner q
                  | Inr (Some dst_dir) \<Rightarrow>
                      (let j = make_job db q dst_dir volume_overrides chapter_overrides skip_ids qualities; db1 = decided env db j
                       in case refresh_import_queue_lease (lease_view db1) now qid lease_owner lease_seconds of
                            Inl e \<Rightarrow> PlanRaised
                          | Inr (renewed, ld) \<Rightarrow>
                              if renewed then Planned (make_plan j (map (snd \<circ> plan_file env db j) (planned_files db qid)) (with_lease db1 ld)) (with_lease db1 ld)
                              else PlanLeaseLost))))"

subsection \<open>What a ready file has passed\<close>

text \<open>The target a file would replace has a grabbed row of this very download.\<close>

definition claimed_target :: "plan_db \<Rightarrow> plan_job \<Rightarrow> (claim_row \<Rightarrow> bool) \<Rightarrow> claim_row list \<Rightarrow> bool" where
  "claimed_target db j covered rows \<longleftrightarrow>
     list_ex (\<lambda>r. cl_series r = qj_series (pj_queue j) \<and> covered r \<and> cl_status r = ClGrabbed
       \<and> cl_url r = Some (source_of (pj_queue j)) \<and> claim_identity_matches r (queue_identity db (pj_queue j))) rows"

definition admitted_target :: "plan_db \<Rightarrow> plan_job \<Rightarrow> file_plan \<Rightarrow> bool" where
  "admitted_target db j fp \<longleftrightarrow>
     (if fp_chapter fp \<noteq> None \<and> fp_type fp = Some ''chapter'' then claimed_target db j (\<lambda>r. cl_num r = fp_chapter fp) (pd_chapters db)
      else if fp_volume fp \<noteq> None then claimed_target db j (\<lambda>r. cl_num r = fp_volume fp) (pd_volumes db)
      else fp_range fp \<longrightarrow>
        claimed_target db j (\<lambda>r. between (fp_volume_start fp) (fp_volume_end fp) (cl_num r)) (pd_volumes db)
        \<and> list_all (\<lambda>r. cl_path r = Some (fp_dst fp) \<longrightarrow> cl_series r = qj_series (pj_queue j) \<and> cl_status r = ClGrabbed) (pd_volumes db))"

lemma claim_admits:
  assumes "file_has_grab_claim db j fp" "pj_auto j" "\<not> manual_file j (fp_id fp)"
  shows "admitted_target db j fp"
  using assms
  by (auto simp: file_has_grab_claim_def admitted_target_def claimed_target_def owned_rows_def foreign_artifact_def list_ex_iff list_all_iff Let_def
      split: if_splits)

definition mapped :: "file_plan \<Rightarrow> bool" where
  "mapped fp \<longleftrightarrow> (fp_kind fp = KVolume \<longrightarrow> fp_volume fp \<noteq> None \<or> fp_range fp \<or> fp_stub fp)"

lemma plan_file_ready:
  assumes "plan_file env db j f = (row, fp)" "fp_status fp = PlanReady" "map_of (pj_volumes j) (if_id f) = None"
  shows "mapped fp"
proof -
  let ?f1 = "override_file j f"
  let ?m = "rechecked (recheck_chapter j ?f1 (effective_mapping j ?f1)) (effective_mapping j ?f1)"
  have ids: "if_id ?f1 = if_id f" by (simp add: override_file_def Let_def split: option.splits)
  have "\<not> (unmapped_volume j ?f1 ?m \<and> \<not> legacy_stub db j)"
    using assms(1,2) by (auto simp: plan_file_def Let_def skip_plan_def split: if_splits)
  then have "mp_kind ?m = KVolume \<longrightarrow> mp_volume ?m \<noteq> None \<or> has_volume_range ?m \<or> unmapped_volume j ?f1 ?m \<and> legacy_stub db j"
    using assms(3) ids by (auto simp: unmapped_volume_def)
  moreover have "fp_kind fp = mp_kind ?m" "fp_volume fp = mp_volume ?m" "fp_range fp = has_volume_range ?m"
    "fp_stub fp = (unmapped_volume j ?f1 ?m \<and> legacy_stub db j)"
    using assms(1,2) by (auto simp: plan_file_def Let_def skip_plan_def plan_of_def place_file_def split: if_splits sum.splits)
  ultimately show ?thesis by (simp add: mapped_def)
qed

subsection \<open>What a plan commits\<close>

lemma planned_cases:
  assumes "plan_import env db now qid lease_owner vols chaps skips secs quals = Planned plan db'"
  obtains row q dst_dir ms where "find (live_row now qid lease_owner) (queue (pd_lease db)) = Some row" "job_of db row = Some q"
    "series_library_dir (pe_cfg env) (pd_roots db) (pd_series db) (qj_series q) = Inr (Some dst_dir)"
    "pl_job plan = make_job db q dst_dir vols chaps skips quals"
    "pl_files plan = map (snd \<circ> plan_file env db (pl_job plan)) (planned_files db qid)"
    "lease_owner \<noteq> []" "lease_modifier secs = Inr ms"
    "db' = with_lease (decided env db (pl_job plan)) (upd_queue (live_row now qid lease_owner)
       (\<lambda>r. r\<lparr>q_expires := datetime_plus now ms\<rparr>) (lease_view (decided env db (pl_job plan))))"
    "length (filter (live_row now qid lease_owner) (queue (pd_lease db))) = 1"
proof -
  have no: "plan_orphan db now qid lease_owner \<noteq> Planned plan db'" "fail_without_destination db now lease_owner q \<noteq> Planned plan db'" for q
    by (auto simp: plan_orphan_def fail_without_destination_def Let_def split: option.splits sum.splits prod.splits if_splits)
  obtain row where row: "find (live_row now qid lease_owner) (queue (pd_lease db)) = Some row"
    using assms unfolding plan_import_def by (cases "find (live_row now qid lease_owner) (queue (pd_lease db))") simp_all
  obtain q where q: "job_of db row = Some q" using assms no row unfolding plan_import_def by (cases "job_of db row") simp_all
  have files: "planned_files db qid \<noteq> []"
  proof
    assume "planned_files db qid = []"
    with assms row q show False unfolding plan_import_def
      by (cases "release_import_queue_lease (lease_view db) now qid lease_owner") (simp_all split: prod.splits)
  qed
  have "\<exists>d. series_library_dir (pe_cfg env) (pd_roots db) (pd_series db) (qj_series q) = Inr (Some d)"
  proof (cases "series_library_dir (pe_cfg env) (pd_roots db) (pd_series db) (qj_series q)")
    case (Inl u)
    with assms row q files show ?thesis unfolding plan_import_def by simp
  next
    case (Inr r)
    with assms no row q files show ?thesis unfolding plan_import_def by (cases r) simp_all
  qed
  then obtain d where d: "series_library_dir (pe_cfg env) (pd_roots db) (pd_series db) (qj_series q) = Inr (Some d)" by blast
  note rq = row q d files
  let ?j = "make_job db q d vols chaps skips quals"
  let ?lv = "lease_view (decided env db ?j)"
  have qu: "queue ?lv = queue (pd_lease db)" by (simp add: lease_view_def decided_def Let_def)
  have step: "(case refresh_import_queue_lease ?lv now qid lease_owner secs of Inl e \<Rightarrow> PlanRaised
      | Inr (renewed, ld) \<Rightarrow> if renewed then Planned (make_plan ?j (map (snd \<circ> plan_file env db ?j) (planned_files db qid)) (with_lease (decided env db ?j) ld)) (with_lease (decided env db ?j) ld)
          else PlanLeaseLost) = Planned plan db'"
    using assms rq by (simp add: plan_import_def Let_def)
  have w: "lease_owner \<noteq> []" using step by (auto simp: refresh_import_queue_lease_def)
  obtain ms where ms: "lease_modifier secs = Inr ms" using step w by (auto simp: refresh_import_queue_lease_def split: sum.splits)
  have "length (filter (live_row now qid lease_owner) (queue (pd_lease db))) = 1"
    "plan = make_plan ?j (map (snd \<circ> plan_file env db ?j) (planned_files db qid)) db'"
    "db' = with_lease (decided env db ?j) (upd_queue (live_row now qid lease_owner) (\<lambda>r. r\<lparr>q_expires := datetime_plus now ms\<rparr>) ?lv)"
    using step unfolding refresh_eq [OF w ms] qu by (auto split: if_splits)
  then show thesis using that [OF rq(1,2,3)] w ms by (simp add: make_plan_def)
qed

lemma settled_row_frame:
  "if_id (settled_row j f c m name) = if_id f \<and> if_queue (settled_row j f c m name) = if_queue f \<and> if_status (settled_row j f c m name) = if_status f"
  by (simp add: settled_row_def override_file_def Let_def split: option.splits)

lemma override_frame:
  "if_id (override_file j f) = if_id f \<and> if_queue (override_file j f) = if_queue f \<and> if_status (override_file j f) = if_status f"
  by (simp add: override_file_def Let_def split: option.splits)

lemma place_file_status:
  assumes "fp_status fp = PlanReady"
  shows "fp_id (place_file env db j fp) = fp_id fp \<and> fp_status (place_file env db j fp) \<in> {PlanReady, PlanPreFailed, PlanSkip}"
  using assms by (simp add: place_file_def split: sum.splits)

text \<open>The status a file is left with is the decision of its plan.\<close>

definition decision_of :: "file_status \<Rightarrow> plan_status" where
  "decision_of s = (case s of FileSkipped \<Rightarrow> PlanSkip | FileNeedsReview \<Rightarrow> PlanNeedsReview | _ \<Rightarrow> PlanReady)"

lemma plan_file_status:
  assumes "plan_file env db j f = (row, fp)"
  shows "if_id row = if_id f \<and> if_queue row = if_queue f \<and> fp_id fp = if_id f
    \<and> (if fp_status fp = PlanPreFailed then PlanReady else fp_status fp) = decision_of (if_status row)
    \<and> (fp_status fp \<in> {PlanReady, PlanPreFailed} \<longrightarrow> if_status row = if_status f)"
proof (cases "if_id f \<in> set (pj_skips j) \<or> if_status f = FileSkipped")
  case True
  then have "row = f\<lparr>if_status := FileSkipped\<rparr>" "fp = skip_plan f" using assms by (simp_all add: plan_file_def)
  then show ?thesis by (simp add: skip_plan_def decision_of_def)
next
  case False
  let ?f1 = "override_file j f"
  let ?m0 = "effective_mapping j ?f1"
  let ?c = "recheck_chapter j ?f1 ?m0"
  let ?m = "rechecked ?c ?m0"
  let ?name = "planned_name env j ?f1 ?m"
  let ?row = "settled_row j f ?c ?m ?name"
  let ?un = "unmapped_volume j ?f1 ?m"
  let ?fp = "plan_of ?f1 ?m ?name (?un \<and> legacy_stub db j) (?c \<noteq> None)"
  have eq: "(row, fp) = (if if_status f = FileNeedsReview \<or> ?un \<and> \<not> (?un \<and> legacy_stub db j)
      then ((if ?un \<and> \<not> (?un \<and> legacy_stub db j) then ?row\<lparr>if_status := FileNeedsReview\<rparr> else ?row), ?fp\<lparr>fp_status := PlanNeedsReview\<rparr>)
      else if kept_volume db j ?f1 ?m ?name then (?row\<lparr>if_status := FileSkipped\<rparr>, ?fp\<lparr>fp_status := PlanSkip\<rparr>)
      else ((if fp_status (place_file env db j ?fp) = PlanSkip then ?row\<lparr>if_status := FileSkipped\<rparr> else ?row), place_file env db j ?fp))"
    using assms False unfolding plan_file_def Let_def if_not_P [OF False] by simp
  have fp: "fp_id ?fp = if_id f" "fp_status ?fp = PlanReady" by (simp_all add: plan_of_def override_frame)
  show ?thesis
  proof (cases "if_status f = FileNeedsReview \<or> ?un \<and> \<not> (?un \<and> legacy_stub db j)")
    case True
    then show ?thesis using eq fp by (auto simp: settled_row_frame decision_of_def split: if_splits)
  next
    case ready: False
    show ?thesis
    proof (cases "kept_volume db j ?f1 ?m ?name")
      case True
      then show ?thesis using eq fp ready by (simp add: settled_row_frame decision_of_def)
    next
      case kept: False
      then have "fp = place_file env db j ?fp"
        "row = (if fp_status (place_file env db j ?fp) = PlanSkip then ?row\<lparr>if_status := FileSkipped\<rparr> else ?row)"
        using eq unfolding if_not_P [OF ready] if_not_P [OF kept] by blast+
      moreover have "decision_of (if_status f) = PlanReady" using False ready by (cases "if_status f") (auto simp: decision_of_def)
      ultimately show ?thesis using place_file_status [OF fp(2), of env db j] fp(1) settled_row_frame [of j f ?c ?m ?name]
        by (auto simp: decision_of_def)
    qed
  qed
qed

lemma plan_file_checked:
  assumes "plan_file env db j f = (row, fp)" "fp_status fp = PlanReady"
  shows "if_id f \<notin> set (pj_skips j) \<and> safe_join_under (pe_realpath env) (pj_dst_dir j) (fp_name fp) = Inr (fp_dst fp) \<and> file_has_grab_claim db j fp"
  using assms by (auto simp: plan_file_def place_file_def Let_def skip_plan_def plan_of_def split: if_splits sum.splits)

lemma planned_files_member:
  assumes "f \<in> set (planned_files db qid)"
  shows "f \<in> set (pd_files db) \<and> if_queue f = qid \<and> if_status f \<in> {FilePending, FileNeedsReview, FileSkipped}"
  using assms by (auto simp: planned_files_def Let_def list_all_iff split: if_splits)

text \<open>The folder of a series: below its own root folder when it has one, else below any of the library's,
  by the name the settings give it.\<close>

definition home_folder :: "plan_env \<Rightarrow> plan_db \<Rightarrow> int \<Rightarrow> string \<Rightarrow> bool" where
  "home_folder env db sid d \<longleftrightarrow>
     (\<exists>s \<in> set (pd_series db). \<exists>root \<in> set (pd_roots db). sp_id s = sid
        \<and> d = path_join (rf_path root) (series_folder (pe_cfg env) s) \<and> plain_name (series_folder (pe_cfg env) s)
        \<and> (sp_root s = Some (rf_id root) \<or> sp_root s \<in> {None, Some 0} \<or> sp_root s \<notin> (Some \<circ> rf_id) ` set (pd_roots db)))"

lemma library_dir_home:
  assumes "series_library_dir (pe_cfg env) (pd_roots db) (pd_series db) sid = Inr (Some d)"
  shows "home_folder env db sid d"
proof -
  obtain s where s: "find (\<lambda>s. sp_id s = sid) (pd_series db) = Some s"
    using assms by (auto simp: series_library_dir_def split: option.splits)
  then have mem: "s \<in> set (pd_series db)" "sp_id s = sid" by (auto simp: find_Some_iff)
  let ?row = "case sp_root s of None \<Rightarrow> None | Some i \<Rightarrow> if i = 0 then None else find (\<lambda>r. rf_id r = i) (pd_roots db)"
  obtain dest where dest: "resolve_series_dest_root (pd_roots db) ?row = Some dest" "d = path_join dest (series_folder (pe_cfg env) s)"
    using assms unfolding series_library_dir_def s Let_def by (cases "resolve_series_dest_root (pd_roots db) ?row") auto
  have "\<exists>root \<in> set (pd_roots db). rf_path root = dest
      \<and> (sp_root s = Some (rf_id root) \<or> sp_root s \<in> {None, Some 0} \<or> sp_root s \<notin> (Some \<circ> rf_id) ` set (pd_roots db))"
  proof (cases ?row)
    case (Some root)
    then have "root \<in> set (pd_roots db)" "sp_root s = Some (rf_id root)" by (auto simp: find_Some_iff split: option.splits if_splits)
    then show ?thesis using dest(1) Some by (auto simp: resolve_series_dest_root_def)
  next
    case None
    then have "sp_root s \<in> {None, Some 0} \<or> sp_root s \<notin> (Some \<circ> rf_id) ` set (pd_roots db)"
      by (auto simp: find_None_iff split: option.splits if_splits)
    then show ?thesis using resolve_dest_member [OF dest(1)] None by auto
  qed
  then show ?thesis using mem dest(2) series_folder_plain by (auto simp: home_folder_def)
qed

text \<open>What the request or the extension says of the quality of a file.\<close>

definition file_quality :: "(int \<times> string option) list option \<Rightarrow> file_plan \<Rightarrow> string option" where
  "file_quality quals fp =
     (case quals of
        None \<Rightarrow> ext_quality (if fp_src fp = [] then fp_name fp else fp_src fp)
      | Some observed \<Rightarrow> (case map_of observed (fp_id fp) of None \<Rightarrow> None | Some q \<Rightarrow> q))"

lemma plan_file_upgrades:
  assumes "plan_file env db j f = (row, fp)" "fp_status fp = PlanReady" "fp_kind fp = KVolume" "fp_volume fp = Some v"
    and "find (\<lambda>r. cl_series r = qj_series (pj_queue j) \<and> cl_num r = Some v) (pd_volumes db) = Some r" "cl_status r = ClDownloaded"
  shows "opt_text (cl_quality r) = [] \<or> opt_text (file_quality (pj_qualities j) fp) = []
    \<or> quality_rank (cl_quality r) < quality_rank (file_quality (pj_qualities j) fp)"
proof -
  let ?f1 = "override_file j f"
  let ?m = "rechecked (recheck_chapter j ?f1 (effective_mapping j ?f1)) (effective_mapping j ?f1)"
  let ?name = "planned_name env j ?f1 ?m"
  have kept: "\<not> kept_volume db j ?f1 ?m ?name" using assms(1,2) by (auto simp: plan_file_def Let_def skip_plan_def split: if_splits)
  have "fp_kind fp = mp_kind ?m" "fp_volume fp = mp_volume ?m" "fp_id fp = if_id ?f1" "fp_src fp = if_src ?f1" "fp_name fp = ?name"
    using assms(1,2) by (auto simp: plan_file_def Let_def skip_plan_def plan_of_def place_file_def split: if_splits sum.splits)
  moreover from this have "file_quality (pj_qualities j) fp = new_quality j ?f1 ?name" by (cases "pj_qualities j") (simp_all add: file_quality_def new_quality_def)
  ultimately show ?thesis using kept assms(3-6) by (auto simp: kept_volume_def)
qed

text \<open>
  C38: A file that a plan releases for publication was waiting in the queue row and is not skipped
  by the request; its destination is a plain file name directly in the folder of the row's own
  series, below the root folder of that series, and does not leave it through symbolic links; for an
  automatic import its target is a volume or chapter this download grabbed unless the request maps
  the file by hand; a file of kind volume has a number, a range or the row of the chapter pack it
  was grabbed for; and when the library already holds its volume in a known quality, the file is of
  a strictly better one or of none that is known.
\<close>

theorem planned_files_admitted:
  assumes "plan_import env db now qid lease_owner vols chaps skips secs quals = Planned plan db'"
    and "fp \<in> set (pl_files plan)" "fp_status fp = PlanReady"
  shows "(\<exists>f \<in> set (pd_files db). if_id f = fp_id fp \<and> if_queue f = qid \<and> if_status f = FilePending \<and> if_id f \<notin> set skips)
    \<and> (\<exists>row \<in> set (queue (pd_lease db)). \<exists>sid dir fname. live_row now qid lease_owner row \<and> q_series row = Some sid
        \<and> qj_series (pj_queue (pl_job plan)) = sid
        \<and> home_folder env db sid dir \<and> plain_name fname \<and> fp_dst fp = path_join dir fname
        \<and> (pe_realpath env (fp_dst fp) = pe_realpath env dir \<or> prefix (pe_realpath env dir @ ''/'') (pe_realpath env (fp_dst fp))))
    \<and> (automatic_grab_import db (pj_queue (pl_job plan)) \<longrightarrow> fp_id fp \<notin> set (map fst vols @ map fst chaps) \<longrightarrow> admitted_target db (pl_job plan) fp)
    \<and> (fp_id fp \<notin> set (map fst vols) \<longrightarrow> mapped fp)
    \<and> (\<forall>v r. fp_kind fp = KVolume \<longrightarrow> fp_volume fp = Some v
        \<longrightarrow> find (\<lambda>r. cl_series r = qj_series (pj_queue (pl_job plan)) \<and> cl_num r = Some v) (pd_volumes db) = Some r \<longrightarrow> cl_status r = ClDownloaded
        \<longrightarrow> opt_text (cl_quality r) = [] \<or> opt_text (file_quality quals fp) = [] \<or> quality_rank (cl_quality r) < quality_rank (file_quality quals fp))"
proof -
  let ?j = "pl_job plan"
  obtain row q d ms where p: "series_library_dir (pe_cfg env) (pd_roots db) (pd_series db) (qj_series q) = Inr (Some d)"
      "?j = make_job db q d vols chaps skips quals" "pl_files plan = map (snd \<circ> plan_file env db ?j) (planned_files db qid)"
    and row: "find (live_row now qid lease_owner) (queue (pd_lease db)) = Some row" "job_of db row = Some q"
    by (rule planned_cases [OF assms(1)])
  obtain f where f: "f \<in> set (planned_files db qid)" "fp = snd (plan_file env db ?j f)" using assms(2) p(3) by auto
  obtain r where pf: "plan_file env db ?j f = (r, fp)" using f(2) by (cases "plan_file env db ?j f") simp
  have job: "pj_queue ?j = q" "pj_auto ?j = automatic_grab_import db q" "pj_volumes ?j = vols" "pj_chapters ?j = chaps"
    "pj_skips ?j = skips" "pj_dst_dir ?j = d" "pj_qualities ?j = quals"
    unfolding p(2) make_job_def by simp_all
  note st = plan_file_status [OF pf] and checked = plan_file_checked [OF pf assms(3)]
  have pending: "if_status f = FilePending"
    using planned_files_member [OF f(1)] st assms(3) by (auto simp: decision_of_def)
  have claim: "file_has_grab_claim db ?j fp" and dst: "safe_join_under (pe_realpath env) d (fp_name fp) = Inr (fp_dst fp)"
    using checked job by simp_all
  have "manual_file ?j (fp_id fp) \<longleftrightarrow> fp_id fp \<in> set (map fst vols @ map fst chaps)"
    using job by (auto simp: manual_file_def map_of_eq_None_iff)
  then have "automatic_grab_import db q \<longrightarrow> fp_id fp \<notin> set (map fst vols @ map fst chaps) \<longrightarrow> admitted_target db ?j fp"
    using claim_admits [OF claim] job(2) by simp
  moreover have "fp_id fp \<notin> set (map fst vols) \<longrightarrow> mapped fp"
    using plan_file_ready [OF pf assms(3)] st job(3) by (simp add: map_of_eq_None_iff)
  moreover have "\<exists>f \<in> set (pd_files db). if_id f = fp_id fp \<and> if_queue f = qid \<and> if_status f = FilePending \<and> if_id f \<notin> set skips"
    using planned_files_member [OF f(1)] pending st checked job(5) by (intro bexI [of _ f]) auto
  moreover have "row \<in> set (queue (pd_lease db))" "live_row now qid lease_owner row" "q_series row = Some (qj_series q)"
    using row by (auto simp: find_Some_iff job_of_def Let_def split: option.splits)
  moreover note plan_file_upgrades [OF pf assms(3), unfolded job]
  ultimately show ?thesis
    unfolding job using library_dir_home [OF p(1)] safe_join_eq [OF dst] sanitize_plain by (intro conjI) blast+
qed

text \<open>
  C39: Committing a plan changes only what was decided: the plan covers the open files of the row in
  order, the files of every other import are untouched, every planned file is left with the status
  of its decision, the row that is still leased to the caller is the only one renewed, the policy
  the plan was made under is remembered on this row when it had none and the row keeps everything
  else, and no other queue row, claim, volume, chapter, release, history entry, series, root
  folder, publication or reservation changes.
\<close>

theorem plan_commits_decisions:
  assumes "plan_import env db now qid lease_owner vols chaps skips secs quals = Planned plan db'" "distinct (map if_id (pd_files db))"
  shows "map fp_id (pl_files plan) = map if_id (planned_files db qid)
    \<and> list_all2 (\<lambda>f f'. if_id f' = if_id f \<and> if_queue f' = if_queue f \<and> (if_queue f \<noteq> qid \<longrightarrow> f' = f)) (pd_files db) (pd_files db')
    \<and> (\<forall>fp \<in> set (pl_files plan). \<exists>f' \<in> set (pd_files db'). if_id f' = fp_id fp
        \<and> decision_of (if_status f') = (if fp_status fp = PlanPreFailed then PlanReady else fp_status fp))
    \<and> length (filter (live_row now qid lease_owner) (queue (pd_lease db))) = 1
    \<and> (\<exists>ms. lease_modifier secs = Inr ms \<and> queue (pd_lease db') =
        map (\<lambda>r. if live_row now qid lease_owner r then r\<lparr>q_expires := datetime_plus now ms\<rparr> else r) (queue (pd_lease db)))
    \<and> pd_more db' = map (\<lambda>r. if qm_id r = qid \<and> qm_policy r = PyNone
        then r\<lparr>qm_policy := PyInt (if automatic_grab_import db (pj_queue (pl_job plan)) then 1 else 0)\<rparr> else r) (pd_more db)
    \<and> pd_volumes db' = pd_volumes db \<and> pd_chapters db' = pd_chapters db
    \<and> pd_seen db' = pd_seen db \<and> pd_history db' = pd_history db \<and> pd_clients db' = pd_clients db \<and> pd_roots db' = pd_roots db
    \<and> pd_series db' = pd_series db \<and> pd_series_more db' = pd_series_more db \<and> pd_seen_meta db' = pd_seen_meta db
    \<and> publications (pd_lease db') = publications (pd_lease db) \<and> reservations (pd_lease db') = reservations (pd_lease db)"
proof -
  let ?j = "pl_job plan"
  obtain row q d ms where p: "find (live_row now qid lease_owner) (queue (pd_lease db)) = Some row" "job_of db row = Some q"
      "?j = make_job db q d vols chaps skips quals" "pl_files plan = map (snd \<circ> plan_file env db ?j) (planned_files db qid)"
      "lease_modifier secs = Inr ms"
      "db' = with_lease (decided env db ?j) (upd_queue (live_row now qid lease_owner) (\<lambda>r. r\<lparr>q_expires := datetime_plus now ms\<rparr>) (lease_view (decided env db ?j)))"
      "length (filter (live_row now qid lease_owner) (queue (pd_lease db))) = 1"
    by (rule planned_cases [OF assms(1)])
  have "qj_id (pj_queue ?j) = qid"
    using p(1,2) unfolding p(3) by (auto simp: make_job_def job_of_def live_row_def find_Some_iff Let_def split: option.splits)
  then have files: "pd_files db' = update_files (fst \<circ> plan_file env db ?j) (planned_files db qid) (pd_files db)"
    and frame: "pd_volumes db' = pd_volumes db" "pd_chapters db' = pd_chapters db" "pd_seen db' = pd_seen db" "pd_history db' = pd_history db"
      "pd_clients db' = pd_clients db" "pd_roots db' = pd_roots db" "pd_series db' = pd_series db" "pd_series_more db' = pd_series_more db"
      "pd_seen_meta db' = pd_seen_meta db" "pd_more db' = remember_policy qid (pj_auto ?j) (pd_more db)"
      "queue (pd_lease db') = map (\<lambda>r. if live_row now qid lease_owner r then r\<lparr>q_expires := datetime_plus now ms\<rparr> else r) (queue (pd_lease db))"
      "publications (pd_lease db') = publications (pd_lease db)" "reservations (pd_lease db') = reservations (pd_lease db)"
    unfolding p(6) by (simp_all add: with_lease_def decided_def lease_view_def Let_def upd_queue_def)
  have auto: "pj_auto ?j = automatic_grab_import db (pj_queue ?j)" unfolding p(3) make_job_def by simp
  have st: "if_id (fst (plan_file env db ?j f)) = if_id f \<and> if_queue (fst (plan_file env db ?j f)) = if_queue f \<and> fp_id (snd (plan_file env db ?j f)) = if_id f
      \<and> decision_of (if_status (fst (plan_file env db ?j f)))
        = (if fp_status (snd (plan_file env db ?j f)) = PlanPreFailed then PlanReady else fp_status (snd (plan_file env db ?j f)))" for f
    using plan_file_status [of env db ?j f "fst (plan_file env db ?j f)" "snd (plan_file env db ?j f)"] by simp
  have own: "if_queue f = qid" if mem: "f \<in> set (pd_files db)" "if_id f \<in> if_id ` set (planned_files db qid)" for f
  proof -
    obtain g where "g \<in> set (planned_files db qid)" "if_id g = if_id f" using mem(2) by force
    with planned_files_member [of g db qid] have "g = f" "if_queue g = qid"
      using assms(2) mem(1) by (auto simp: distinct_map dest: inj_onD)
    then show ?thesis by simp
  qed
  have "list_all2 (\<lambda>f f'. if_id f' = if_id f \<and> if_queue f' = if_queue f \<and> (if_queue f \<noteq> qid \<longrightarrow> f' = f)) (pd_files db) (pd_files db')"
    unfolding files update_files_def list_all2_map2 using own st by (auto simp: list_all2_same)
  moreover have "\<exists>f' \<in> set (pd_files db'). if_id f' = fp_id fp \<and> decision_of (if_status f') = (if fp_status fp = PlanPreFailed then PlanReady else fp_status fp)"
    if fp: "fp \<in> set (pl_files plan)" for fp
  proof -
    obtain f where f: "f \<in> set (planned_files db qid)" "fp = snd (plan_file env db ?j f)" using fp unfolding p(4) by auto
    have "fst (plan_file env db ?j f) \<in> set (pd_files db')"
      unfolding files update_files_def using f(1) planned_files_member [OF f(1)] by (auto intro!: image_eqI [of _ _ f])
    then show ?thesis using st [of f] f(2) by (intro bexI [of _ "fst (plan_file env db ?j f)"]) simp_all
  qed
  moreover have "map fp_id (pl_files plan) = map if_id (planned_files db qid)" unfolding p(4) using st by simp
  ultimately show ?thesis using p(5,7) frame(1-9,11-) frame(10) [unfolded auto remember_policy_def] by blast
qed

subsection \<open>An automatic import\<close>

text \<open>A download that claimed volume 3 delivers volumes 3 and 4 and an extra the user skips; another
  import waits beside it.\<close>

definition demo_file :: "int \<Rightarrow> int \<Rightarrow> string \<Rightarrow> rat option \<Rightarrow> import_file" where
  "demo_file i qid name v = \<lparr>if_id = i, if_queue = qid, if_status = FilePending, if_src = ''/dl/'' @ name, if_name = name, if_volume = v,
     if_chapter = None, if_type = Some ''volume'', if_volume_start = None, if_volume_end = None, if_chapter_end = None, if_pack = None,
     if_special = False, if_kind = Some ''volume'', if_title = None, if_dst = None\<rparr>"

definition demo_claim :: claim_row where
  "demo_claim = \<lparr>cl_id = 1, cl_series = 2, cl_num = Some 3, cl_status = ClGrabbed, cl_quality = None, cl_client = Some 5,
     cl_download = Some ''ab'', cl_protocol = Some ''nzb'', cl_url = Some ''u'', cl_path = None, cl_grabbed_at = None, cl_imported_at = None,
     cl_torrent = None, cl_indexer = None, cl_client_name = None, cl_group = None, cl_size = None, cl_monitored = True, cl_chapter = None,
     cl_pack = None, cl_start = None, cl_last = None, cl_special = False, cl_edition = None, cl_language = None, cl_title = None,
     cl_volume = None, cl_end = None\<rparr>"

definition demo_plan_db :: plan_db where
  "demo_plan_db = \<lparr>pd_lease = \<lparr>queue = [\<lparr>q_id = 7, q_series = Some 2, q_download = Some ''ab'', q_client = Some 5, q_protocol = Some Nzb,
        q_status = Importing, q_failed_at = None, q_owner = Some ''w'', q_expires = Some 1000000\<rparr>],
        queue_files = [], reservations = [], publications = [], deletions = [], rescans = [], quarantines = []\<rparr>,
     pd_more = [\<lparr>qm_id = 7, qm_url = Some ''u'', qm_policy = PyInt 1, qm_name = None, qm_volume = None\<rparr>],
     pd_files = [demo_file 1 7 ''v03.cbz'' (Some 3), demo_file 2 7 ''v04.cbz'' (Some 4), demo_file 3 7 ''x.cbz'' None, demo_file 4 8 ''y.cbz'' None],
     pd_volumes = [demo_claim], pd_chapters = [], pd_seen = [], pd_history = [], pd_clients = [],
     pd_roots = [\<lparr>rf_id = 1, rf_path = ''/lib'', rf_default = Some 1\<rparr>],
     pd_series = [\<lparr>sp_id = 2, sp_title = Some ''A'', sp_root = None, sp_year = None, sp_folder = None\<rparr>],
     pd_series_more = [], pd_seen_meta = []\<rparr>"

definition demo_env :: plan_env where "demo_env = \<lparr>pe_cfg = (\<lambda>_. []), pe_realpath = (\<lambda>p. p)\<rparr>"

abbreviation demo_planning :: plan_outcome where
  "demo_planning \<equiv> plan_import demo_env demo_plan_db 500 7 ''w'' [] [] [3] (Fin 60) None"

lemma demo_planned:
  "(case demo_planning of Planned plan db' \<Rightarrow> map fp_status (pl_files plan) = [PlanReady, PlanSkip, PlanSkip]
     \<and> map if_status (pd_files db') = [FilePending, FileSkipped, FileSkipped, FilePending]
     \<and> automatic_grab_import demo_plan_db (pj_queue (pl_job plan)) | _ \<Rightarrow> False)"
  by code_simp

theorem planned_files_admitted_witness:
  "(case demo_planning of Planned plan db' \<Rightarrow> list_ex (\<lambda>fp. admitted_target demo_plan_db (pl_job plan) fp
      \<and> (\<exists>dir fname. home_folder demo_env demo_plan_db 2 dir \<and> plain_name fname \<and> fp_dst fp = path_join dir fname)) (pl_files plan) | _ \<Rightarrow> False)"
proof (cases demo_planning)
  case (Planned plan db')
  have p: "map fp_status (pl_files plan) = [PlanReady, PlanSkip, PlanSkip]" "automatic_grab_import demo_plan_db (pj_queue (pl_job plan))"
    using demo_planned unfolding Planned by simp_all
  then obtain fp where fp: "fp \<in> set (pl_files plan)" "fp_status fp = PlanReady" by (cases "pl_files plan") auto
  have rows: "\<forall>row \<in> set (queue (pd_lease demo_plan_db)). q_series row = Some 2" by code_simp
  have "admitted_target demo_plan_db (pl_job plan) fp"
    using planned_files_admitted [OF Planned fp] p(2) by simp
  moreover have "\<exists>dir fname. home_folder demo_env demo_plan_db 2 dir \<and> plain_name fname \<and> fp_dst fp = path_join dir fname"
    using planned_files_admitted [OF Planned fp] rows by force
  ultimately show ?thesis using fp(1) unfolding Planned by (auto simp: list_ex_iff)
qed (use demo_planned in simp_all)

theorem plan_commits_decisions_witness:
  "(case demo_planning of Planned plan db' \<Rightarrow> map fp_id (pl_files plan) = [1, 2, 3] \<and> pd_volumes db' = [demo_claim] | _ \<Rightarrow> False)"
proof (cases demo_planning)
  case (Planned plan db')
  have "distinct (map if_id (pd_files demo_plan_db))" "map if_id (planned_files demo_plan_db 7) = [1, 2, 3]" "pd_volumes demo_plan_db = [demo_claim]"
    by code_simp+
  then show ?thesis using plan_commits_decisions [OF Planned] unfolding Planned by simp
qed (use demo_planned in simp_all)

end
