(* ===== verification/Import_Commit.thy ===== *)
theory Import_Commit
  imports Import_Plan
begin

text \<open>
  Committing an import (\<open>app/import_commit.py\<close> and \<open>_mark_downloaded\<close> of \<open>app/import_download.py\<close>):
  phase 3 records in one transaction what the files of a plan have become. It runs under the lease of
  the queue row or, once files are published, under the row's publication journal
  (\<open>claim_publication_phase3\<close> and \<open>mark_publication_db_committed\<close> of \<open>app/import_publication.py\<close>).
  Rows are those of \<open>Import_Plan\<close>; the trigger on the status of a volume and the foreign key of a
  chapter are written out. Events, the history line, the notification queue and error texts are left
  out.
\<close>

subsection \<open>State\<close>

datatype decision = DecisionPending | DecisionCompensate | DecisionCommit

record journal_row =
  jr_id :: int
  jr_queue :: int
  jr_state :: publication_state
  jr_owner :: "string option"
  jr_expires :: "int option"
  jr_decision :: decision
  jr_result :: "(bool \<times> nat \<times> queue_status) option"

record commit_db =
  cm_db :: plan_db
  cm_journal :: "journal_row list"
  cm_next_volume :: int
  cm_next_chapter :: int

text \<open>The outcome of phase 2 for a file.\<close>

record stage_outcome =
  so_id :: int
  so_ok :: bool
  so_final :: string

text \<open>Clock, its two texts, the qualities the journal recorded, and the decision and admission of the
  journal's snapshot, None when it has none of this version.\<close>

record commit_env =
  ce_now :: int
  ce_stamp :: string
  ce_sql_stamp :: string
  ce_qualities :: "(int \<times> string option) list"
  ce_recorded :: "(decision \<times> admission) option"

datatype commit_error = MissingOutcome | AdmissionUnproven | TransitionLost | RowVanished | ReferenceBroken | OwnershipLost | LeaseRaised py_exn

datatype refusal = LeaseLost | JournalClaimLost | AdmissionChanged

datatype download_label = VolumeLabel rat | CompleteLabel | ChapterPackLabel | RangeLabel int int

text \<open>What a commit returns: a refusal or a result, with the database it commits; or an exception.\<close>

datatype commit_outcome =
  CommitRaised commit_error
| Refused refusal commit_db
| Committed bool nat queue_status "download_label option" commit_db

definition lease_of :: "commit_db \<Rightarrow> lease_db" where
  "lease_of db = (lease_view (cm_db db))\<lparr>publications := map (\<lambda>r. \<lparr>pub_queue = jr_queue r, pub_state = jr_state r\<rparr>) (cm_journal db)\<rparr>"

definition set_queue :: "queue_row list \<Rightarrow> commit_db \<Rightarrow> commit_db" where
  "set_queue rows db = db\<lparr>cm_db := (cm_db db)\<lparr>pd_lease := (pd_lease (cm_db db))\<lparr>queue := rows\<rparr>\<rparr>\<rparr>"

subsection \<open>Statements\<close>

definition change_rows :: "('r \<Rightarrow> bool) \<Rightarrow> ('r \<Rightarrow> 'r) \<Rightarrow> 'r list \<Rightarrow> 'r list" where
  "change_rows P g rows = map (\<lambda>r. if P r then g r else r) rows"

text \<open>\<open>trg_vol_downloaded_cascade\<close>: a volume that becomes downloaded takes its chapters along.\<close>

definition newly_downloaded :: "(claim_row \<Rightarrow> bool) \<Rightarrow> (claim_row \<Rightarrow> claim_row) \<Rightarrow> claim_row list \<Rightarrow> int list" where
  "newly_downloaded P g rows = map cl_id (filter (\<lambda>r. P r \<and> cl_status (g r) = ClDownloaded \<and> cl_status r \<noteq> ClDownloaded) rows)"

definition member_of :: "int list \<Rightarrow> claim_row \<Rightarrow> bool" where
  "member_of ids c \<longleftrightarrow> (case cl_volume c of None \<Rightarrow> False | Some v \<Rightarrow> v \<in> set ids)"

definition set_chapters :: "(claim_row \<Rightarrow> bool) \<Rightarrow> (claim_row \<Rightarrow> claim_row) \<Rightarrow> commit_db \<Rightarrow> commit_db" where
  "set_chapters P g db = db\<lparr>cm_db := (cm_db db)\<lparr>pd_chapters := change_rows P g (pd_chapters (cm_db db))\<rparr>\<rparr>"

definition set_volumes :: "(claim_row \<Rightarrow> bool) \<Rightarrow> (claim_row \<Rightarrow> claim_row) \<Rightarrow> commit_db \<Rightarrow> commit_db" where
  "set_volumes P g db =
     (let rows = pd_volumes (cm_db db); fired = newly_downloaded P g rows
      in set_chapters (member_of fired) (\<lambda>c. c\<lparr>cl_status := ClDownloaded\<rparr>)
           (db\<lparr>cm_db := (cm_db db)\<lparr>pd_volumes := change_rows P g rows\<rparr>\<rparr>))"

definition add_volume :: "claim_row \<Rightarrow> commit_db \<Rightarrow> commit_db" where
  "add_volume r db = db\<lparr>cm_db := (cm_db db)\<lparr>pd_volumes := pd_volumes (cm_db db) @ [r\<lparr>cl_id := cm_next_volume db\<rparr>]\<rparr>,
     cm_next_volume := cm_next_volume db + 1\<rparr>"

definition add_chapter :: "claim_row \<Rightarrow> commit_db \<Rightarrow> commit_db" where
  "add_chapter r db = db\<lparr>cm_db := (cm_db db)\<lparr>pd_chapters := pd_chapters (cm_db db) @ [r\<lparr>cl_id := cm_next_chapter db\<rparr>]\<rparr>,
     cm_next_chapter := cm_next_chapter db + 1\<rparr>"

text \<open>A deleted volume leaves its chapters without one.\<close>

definition drop_volumes :: "(claim_row \<Rightarrow> bool) \<Rightarrow> commit_db \<Rightarrow> commit_db" where
  "drop_volumes P db =
     (let gone = map cl_id (filter P (pd_volumes (cm_db db)))
      in set_chapters (member_of gone) (\<lambda>c. c\<lparr>cl_volume := None\<rparr>)
           (db\<lparr>cm_db := (cm_db db)\<lparr>pd_volumes := filter (\<lambda>r. \<not> P r) (pd_volumes (cm_db db))\<rparr>\<rparr>))"

definition set_files :: "(import_file \<Rightarrow> bool) \<Rightarrow> (import_file \<Rightarrow> import_file) \<Rightarrow> commit_db \<Rightarrow> commit_db" where
  "set_files P g db = db\<lparr>cm_db := (cm_db db)\<lparr>pd_files := change_rows P g (pd_files (cm_db db))\<rparr>\<rparr>"

definition file_imported :: "int \<Rightarrow> string \<Rightarrow> commit_db \<Rightarrow> commit_db" where
  "file_imported i dst = set_files (\<lambda>f. if_id f = i) (\<lambda>f. f\<lparr>if_status := FileImported, if_dst := Some dst\<rparr>)"

definition file_failed :: "int \<Rightarrow> commit_db \<Rightarrow> commit_db" where
  "file_failed i = set_files (\<lambda>f. if_id f = i) (\<lambda>f. f\<lparr>if_status := FileFailed\<rparr>)"

definition find_volume :: "int \<Rightarrow> rat option \<Rightarrow> commit_db \<Rightarrow> claim_row option" where
  "find_volume sid num db = (if num = None then None else find (\<lambda>r. cl_series r = sid \<and> cl_num r = num) (pd_volumes (cm_db db)))"

definition find_chapter :: "int \<Rightarrow> rat option \<Rightarrow> commit_db \<Rightarrow> claim_row option" where
  "find_chapter sid num db = (if num = None then None else find (\<lambda>r. cl_series r = sid \<and> cl_num r = num) (pd_chapters (cm_db db)))"

text \<open>COALESCE and Python's \<open>or\<close> on a nullable column.\<close>

definition fill :: "'a option \<Rightarrow> 'a option \<Rightarrow> 'a option" where
  "fill a b = (case a of None \<Rightarrow> b | Some x \<Rightarrow> Some x)"

definition or_text :: "string option \<Rightarrow> string option \<Rightarrow> string option" where
  "or_text a b = (if opt_text a \<noteq> [] then a else b)"

definition or_size :: "int option \<Rightarrow> int option \<Rightarrow> int option" where
  "or_size a b = (if a = None \<or> a = Some 0 then b else a)"

subsection \<open>The rows of a download\<close>

definition job_owner :: "queue_job \<Rightarrow> int option" where
  "job_owner q = coerce_download_client_id (owner_value (qj_client q))"

definition same_acquisition :: "claim_row \<Rightarrow> download_identity \<Rightarrow> string option \<Rightarrow> bool" where
  "same_acquisition r i source \<longleftrightarrow> coerce_download_client_id (owner_value (cl_client r)) = download_client_id i
     \<and> cl_url r = source \<and> claim_identity_matches r i"

definition claimed_by :: "plan_db \<Rightarrow> plan_job \<Rightarrow> claim_row \<Rightarrow> bool" where
  "claimed_by db j r \<longleftrightarrow> cl_status r = ClGrabbed \<and> same_acquisition r (queue_identity db (pj_queue j)) (Some (source_of (pj_queue j)))"

definition stored_by :: "download_protocol option \<Rightarrow> queue_job \<Rightarrow> claim_row \<Rightarrow> bool" where
  "stored_by prot q r \<longleftrightarrow> cl_series r = qj_series q \<and> cl_client r = job_owner q \<and> qj_download q \<noteq> None
     \<and> same_stored_download prot (opt_text (qj_download q)) r"

record protected_rows =
  pr_volumes :: "claim_row list"
  pr_chapters :: "claim_row list"

definition manual_numbers :: "plan_job \<Rightarrow> file_plan list \<Rightarrow> bool \<Rightarrow> (file_plan \<Rightarrow> rat option) \<Rightarrow> rat option list" where
  "manual_numbers j fps chapter num = map num (filter (\<lambda>fp. manual_file j (fp_id fp) \<and> (fp_type fp = Some ''chapter'') = chapter) fps)"

definition manual_volume_ids :: "plan_db \<Rightarrow> plan_job \<Rightarrow> file_plan list \<Rightarrow> int list" where
  "manual_volume_ids db j fps = map cl_id (filter (\<lambda>r. cl_series r = qj_series (pj_queue j) \<and> cl_num r \<noteq> None
     \<and> cl_num r \<in> set (manual_numbers j fps False fp_volume)) (pd_volumes db))"

definition protected_volume :: "plan_db \<Rightarrow> plan_job \<Rightarrow> file_plan list \<Rightarrow> claim_row \<Rightarrow> bool" where
  "protected_volume db j fps r \<longleftrightarrow> cl_series r = qj_series (pj_queue j) \<and> cl_num r \<noteq> None
     \<and> cl_id r \<notin> set (manual_volume_ids db j fps) \<and> \<not> claimed_by db j r"

definition protected_chapter :: "plan_db \<Rightarrow> plan_job \<Rightarrow> file_plan list \<Rightarrow> claim_row \<Rightarrow> bool" where
  "protected_chapter db j fps r \<longleftrightarrow> cl_series r = qj_series (pj_queue j)
     \<and> \<not> member_of (manual_volume_ids db j fps) r \<and> cl_num r \<notin> set (manual_numbers j fps True fp_chapter) \<and> \<not> claimed_by db j r"

definition protected_grab_rows :: "plan_db \<Rightarrow> plan_job \<Rightarrow> file_plan list \<Rightarrow> protected_rows option" where
  "protected_grab_rows db j fps =
     (if pj_auto j then Some \<lparr>pr_volumes = filter (protected_volume db j fps) (pd_volumes db),
        pr_chapters = filter (protected_chapter db j fps) (pd_chapters db)\<rparr> else None)"

fun restore_volumes :: "claim_row list \<Rightarrow> commit_db \<Rightarrow> commit_error + commit_db" where
  "restore_volumes [] db = Inr db"
| "restore_volumes (r # rs) db =
     (case find (\<lambda>x. cl_id x = cl_id r) (pd_volumes (cm_db db)) of
        None \<Rightarrow> Inl RowVanished
      | Some x \<Rightarrow> restore_volumes rs (if x = r then db else set_volumes (\<lambda>y. cl_id y = cl_id r) (\<lambda>_. r) db))"

definition volume_exists :: "int option \<Rightarrow> commit_db \<Rightarrow> bool" where
  "volume_exists v db = (case v of None \<Rightarrow> True | Some i \<Rightarrow> i \<in> cl_id ` set (pd_volumes (cm_db db)))"

fun restore_chapters :: "claim_row list \<Rightarrow> commit_db \<Rightarrow> commit_error + commit_db" where
  "restore_chapters [] db = Inr db"
| "restore_chapters (r # rs) db =
     (case find (\<lambda>x. cl_id x = cl_id r) (pd_chapters (cm_db db)) of
        None \<Rightarrow> Inl RowVanished
      | Some x \<Rightarrow>
          if x = r then restore_chapters rs db
          else if \<not> volume_exists (cl_volume r) db then Inl ReferenceBroken
          else restore_chapters rs (set_chapters (\<lambda>y. cl_id y = cl_id r) (\<lambda>_. r) db))"

definition restore_protected_grab_rows :: "protected_rows option \<Rightarrow> commit_db \<Rightarrow> commit_error + commit_db" where
  "restore_protected_grab_rows rows db =
     (case rows of None \<Rightarrow> Inr db
      | Some p \<Rightarrow> (case restore_volumes (pr_volumes p) db of Inl e \<Rightarrow> Inl e | Inr db1 \<Rightarrow> restore_chapters (pr_chapters p) db1))"

text \<open>A download whose files were all skipped gives back the claims that hold no file.\<close>

definition unclaim :: "claim_row \<Rightarrow> claim_row" where
  "unclaim r = r\<lparr>cl_status := ClWanted, cl_grabbed_at := None, cl_url := None, cl_download := None, cl_client := None, cl_torrent := None,
     cl_indexer := None, cl_protocol := None, cl_client_name := None, cl_group := None\<rparr>"

definition skipped_claim :: "plan_job \<Rightarrow> download_identity \<Rightarrow> claim_row \<Rightarrow> bool" where
  "skipped_claim j i r \<longleftrightarrow> cl_series r = qj_series (pj_queue j) \<and> cl_status r = ClGrabbed \<and> cl_client r = download_client_id i
     \<and> cl_url r = Some (source_of (pj_queue j)) \<and> opt_text (cl_path r) = [] \<and> same_acquisition r i (Some (source_of (pj_queue j)))"

definition settle_skipped_grab_claims :: "plan_job \<Rightarrow> commit_db \<Rightarrow> commit_db" where
  "settle_skipped_grab_claims j db =
     (let i = queue_identity (cm_db db) (pj_queue j)
      in if download_client_id i = None \<or> protocol i = None \<or> py_strip (download_id i) = [] \<or> py_strip (source_of (pj_queue j)) = [] then db
         else set_chapters (skipped_claim j i) unclaim (set_volumes (\<lambda>r. skipped_claim j i r \<and> cl_num r \<noteq> None) unclaim db))"

subsection \<open>One file\<close>

definition blank_row :: "int \<Rightarrow> claim_row" where
  "blank_row sid = \<lparr>cl_id = 0, cl_series = sid, cl_num = None, cl_status = ClWanted, cl_quality = None, cl_client = None, cl_download = None,
     cl_protocol = None, cl_url = None, cl_path = None, cl_grabbed_at = None, cl_imported_at = None, cl_torrent = None, cl_indexer = None,
     cl_client_name = None, cl_group = None, cl_size = None, cl_monitored = True, cl_chapter = None, cl_pack = None, cl_start = None,
     cl_last = None, cl_special = False, cl_edition = None, cl_language = None, cl_title = None, cl_volume = None, cl_end = None\<rparr>"

definition publication_quality :: "commit_env \<Rightarrow> int \<Rightarrow> string \<Rightarrow> string option" where
  "publication_quality env i fallback = (case map_of (ce_qualities env) i of Some q \<Rightarrow> q | None \<Rightarrow> ext_quality fallback)"

text \<open>The release columns of a row, as \<open>_queue_metadata\<close> has them.\<close>

definition with_meta :: "release_meta \<Rightarrow> claim_row \<Rightarrow> claim_row" where
  "with_meta m r = r\<lparr>cl_torrent := rm_name m, cl_indexer := rm_indexer m, cl_protocol := rm_protocol m, cl_client_name := rm_client m,
     cl_group := rm_group m, cl_size := rm_size m\<rparr>"

definition special_title_of :: "file_plan \<Rightarrow> string" where
  "special_title_of fp = (let t = py_strip (if opt_text (fp_title fp) \<noteq> [] then opt_text (fp_title fp) else ''Special'')
     in if t = [] then ''Special'' else t)"

definition special_columns :: "commit_env \<Rightarrow> queue_job \<Rightarrow> release_meta \<Rightarrow> file_plan \<Rightarrow> claim_row \<Rightarrow> claim_row" where
  "special_columns env q m fp r = (with_meta (m\<lparr>rm_name := or_text (rm_name m) (qj_name q)\<rparr>) r)
     \<lparr>cl_title := Some (special_title_of fp), cl_status := ClDownloaded, cl_url := qj_url q, cl_download := qj_download q, cl_client := job_owner q,
      cl_quality := publication_quality env (fp_id fp) (fp_name fp), cl_imported_at := fill (cl_imported_at r) (Some (ce_stamp env)),
      cl_pack := Some ''special'', cl_special := True, cl_edition := Some ''special''\<rparr>"

definition process_special_import :: "commit_env \<Rightarrow> queue_job \<Rightarrow> file_plan \<Rightarrow> string \<Rightarrow> commit_db \<Rightarrow> commit_db" where
  "process_special_import env q fp dst db =
     (let m = queue_metadata (cm_db db) q;
          db1 = (case find (\<lambda>r. cl_series r = qj_series q \<and> cl_special r \<and> cl_path r = Some dst) (pd_volumes (cm_db db)) of
            Some x \<Rightarrow> set_volumes (\<lambda>r. cl_id r = cl_id x) (special_columns env q m fp) db
          | None \<Rightarrow> add_volume (special_columns env q m fp ((blank_row (qj_series q))\<lparr>cl_path := Some dst\<rparr>)) db)
      in file_imported (fp_id fp) dst db1)"

definition unclaimed_target :: "plan_job \<Rightarrow> file_plan \<Rightarrow> plan_db \<Rightarrow> claim_row option \<Rightarrow> bool" where
  "unclaimed_target j fp db target \<longleftrightarrow> pj_auto j \<and> \<not> manual_file j (fp_id fp) \<and> (case target of None \<Rightarrow> True | Some r \<Rightarrow> \<not> claimed_by db j r)"

definition chapter_columns :: "commit_env \<Rightarrow> queue_job \<Rightarrow> release_meta \<Rightarrow> file_plan \<Rightarrow> string \<Rightarrow> int option \<Rightarrow> claim_row \<Rightarrow> claim_row" where
  "chapter_columns env q m fp dst vol r = r\<lparr>cl_status := ClDownloaded, cl_path := Some dst,
     cl_quality := fill (cl_quality r) (publication_quality env (fp_id fp) dst), cl_torrent := fill (or_text (rm_name m) (qj_name q)) (cl_torrent r),
     cl_indexer := fill (rm_indexer m) (cl_indexer r), cl_protocol := fill (rm_protocol m) (cl_protocol r),
     cl_client_name := fill (rm_client m) (cl_client_name r), cl_client := job_owner q, cl_group := fill (rm_group m) (cl_group r),
     cl_size := or_size (rm_size m) (cl_size r), cl_volume := fill (cl_volume r) vol,
     cl_download := (if opt_text (cl_download r) \<noteq> [] then cl_download r else qj_download q),
     cl_imported_at := fill (cl_imported_at r) (Some (ce_stamp env)), cl_end := fill (fp_chapter_end fp) (cl_end r)\<rparr>"

definition new_chapter :: "commit_env \<Rightarrow> queue_job \<Rightarrow> release_meta \<Rightarrow> file_plan \<Rightarrow> string \<Rightarrow> int option \<Rightarrow> claim_row" where
  "new_chapter env q m fp dst vol = (with_meta (m\<lparr>rm_name := or_text (rm_name m) (qj_name q)\<rparr>) (blank_row (qj_series q)))
     \<lparr>cl_volume := vol, cl_num := fp_chapter fp, cl_status := ClDownloaded, cl_path := Some dst, cl_download := qj_download q,
      cl_client := job_owner q, cl_quality := publication_quality env (fp_id fp) dst, cl_imported_at := Some (ce_stamp env), cl_end := fp_chapter_end fp\<rparr>"

text \<open>The volume a chapter file names, made when it is not there.\<close>

definition chapter_volume :: "int \<Rightarrow> rat option \<Rightarrow> commit_db \<Rightarrow> int option \<times> commit_db" where
  "chapter_volume sid num db =
     (if num = None then (None, db)
      else case find_volume sid num db of
        Some r \<Rightarrow> (Some (cl_id r), db)
      | None \<Rightarrow> (Some (cm_next_volume db), add_volume ((blank_row sid)\<lparr>cl_num := num\<rparr>) db))"

text \<open>Second result: the volume whose completion is checked at the end.\<close>

definition process_chapter_import :: "commit_env \<Rightarrow> plan_job \<Rightarrow> file_plan \<Rightarrow> string \<Rightarrow> commit_db \<Rightarrow> commit_db \<times> int option" where
  "process_chapter_import env j fp dst db =
     (let q = pj_queue j; db1 = file_imported (fp_id fp) dst db
      in if unclaimed_target j fp (cm_db db1) (find_chapter (qj_series q) (fp_chapter fp) db1) then (db1, None)
         else
           (let (vol, db2) = chapter_volume (qj_series q) (fp_volume fp) db1; m = queue_metadata (cm_db db2) q
            in ((case find_chapter (qj_series q) (fp_chapter fp) db2 of
                  Some x \<Rightarrow> set_chapters (\<lambda>r. cl_id r = cl_id x) (chapter_columns env q m fp dst vol) db2
                | None \<Rightarrow> add_chapter (new_chapter env q m fp dst vol) db2), vol)))"

text \<open>\<open>_check_volume_completion\<close> and \<open>_cascade_chapters\<close> of \<open>app/volumes.py\<close> on these rows.\<close>

definition complete_volume :: "string \<Rightarrow> int \<Rightarrow> int \<Rightarrow> commit_db \<Rightarrow> commit_db" where
  "complete_volume stamp sid vid db =
     (let members = filter (\<lambda>c. cl_series c = sid \<and> cl_volume c = Some vid \<and> cl_monitored c) (pd_chapters (cm_db db))
      in if members \<noteq> [] \<and> list_all (\<lambda>c. cl_status c = ClDownloaded) members
         then set_volumes (\<lambda>r. cl_id r = vid \<and> cl_status r \<noteq> ClDownloaded)
           (\<lambda>r. r\<lparr>cl_status := ClDownloaded, cl_imported_at := fill (cl_imported_at r) (Some stamp)\<rparr>) db
         else db)"

definition cascade_rows :: "int \<Rightarrow> int \<Rightarrow> (claim_row \<Rightarrow> claim_row) \<Rightarrow> commit_db \<Rightarrow> commit_db" where
  "cascade_rows sid vid g = set_chapters (\<lambda>c. cl_series c = sid \<and> cl_volume c = Some vid \<and> cl_monitored c) (\<lambda>c. (g c)\<lparr>cl_status := ClDownloaded\<rparr>)"

definition cascade_import :: "commit_env \<Rightarrow> queue_job \<Rightarrow> release_meta \<Rightarrow> file_plan \<Rightarrow> string \<Rightarrow> bool \<Rightarrow> int \<Rightarrow> commit_db \<Rightarrow> commit_db" where
  "cascade_import env q m fp dst with_download vid db =
     set_chapters (\<lambda>c. cl_series c = qj_series q \<and> cl_volume c = Some vid) (\<lambda>c. c\<lparr>cl_client := job_owner q\<rparr>)
       (cascade_rows (qj_series q) vid (\<lambda>c. (with_meta m c)\<lparr>cl_path := Some dst, cl_download := (if with_download then qj_download q else cl_download c),
          cl_quality := publication_quality env (fp_id fp) (fp_name fp), cl_imported_at := Some (ce_stamp env)\<rparr>) db)"

definition volume_columns :: "commit_env \<Rightarrow> queue_job \<Rightarrow> release_meta \<Rightarrow> file_plan \<Rightarrow> string \<Rightarrow> claim_row \<Rightarrow> claim_row" where
  "volume_columns env q m fp dst r = (with_meta m r)\<lparr>cl_status := ClDownloaded, cl_path := Some dst,
     cl_quality := publication_quality env (fp_id fp) (fp_name fp), cl_imported_at := fill (cl_imported_at r) (Some (ce_stamp env)),
     cl_download := fill (cl_download r) (qj_download q), cl_client := job_owner q\<rparr>"

definition new_volume :: "commit_env \<Rightarrow> queue_job \<Rightarrow> release_meta \<Rightarrow> file_plan \<Rightarrow> string \<Rightarrow> claim_row" where
  "new_volume env q m fp dst = (with_meta m (blank_row (qj_series q)))\<lparr>cl_num := fp_volume fp, cl_status := ClDownloaded, cl_url := qj_url q,
     cl_path := Some dst, cl_download := qj_download q, cl_client := job_owner q, cl_quality := publication_quality env (fp_id fp) (fp_name fp),
     cl_imported_at := Some (ce_stamp env)\<rparr>"

definition listed :: "string option \<Rightarrow> string list \<Rightarrow> string option \<Rightarrow> string option" where
  "listed pack allowed other = (case pack of None \<Rightarrow> other | Some p \<Rightarrow> if p \<in> set allowed then Some p else other)"

definition import_stub :: "commit_env \<Rightarrow> queue_job \<Rightarrow> string \<Rightarrow> commit_db \<Rightarrow> commit_db" where
  "import_stub env q dst db =
     (case find (\<lambda>r. stored_by (queue_download_protocol (cm_db db) q) q r \<and> cl_status r = ClGrabbed \<and> cl_pack r = Some ''chapter'') (pd_volumes (cm_db db)) of
        None \<Rightarrow> db
      | Some x \<Rightarrow> set_volumes (\<lambda>r. cl_id r = cl_id x) (\<lambda>r. r\<lparr>cl_status := ClDownloaded, cl_path := Some dst,
          cl_imported_at := fill (cl_imported_at r) (Some (ce_stamp env)), cl_client := job_owner q\<rparr>) db)"

definition process_volume_import :: "commit_env \<Rightarrow> plan_job \<Rightarrow> file_plan \<Rightarrow> string \<Rightarrow> commit_db \<Rightarrow> commit_db" where
  "process_volume_import env j fp dst db =
     (let q = pj_queue j; db1 = file_imported (fp_id fp) dst db
      in if fp_volume fp = None then
           (let db2 = (if fp_stub fp then import_stub env q dst db1 else db1)
            in if fp_range fp then
                 add_volume ((new_volume env q (queue_metadata (cm_db db2) q) fp dst)\<lparr>cl_start := fp_volume_start fp, cl_last := fp_volume_end fp,
                   cl_pack := listed (fp_pack fp) [''volume'', ''volume_range'', ''complete''] (Some ''volume'')\<rparr>) db2
               else db2)
         else if unclaimed_target j fp (cm_db db1) (find_volume (qj_series q) (fp_volume fp) db1) then db1
         else
           (let m = queue_metadata (cm_db db1) q
            in case find_volume (qj_series q) (fp_volume fp) db1 of
                 Some x \<Rightarrow> cascade_import env q m fp dst (\<not> pj_auto j) (cl_id x)
                   (complete_volume (ce_sql_stamp env) (qj_series q) (cl_id x) (set_volumes (\<lambda>r. cl_id r = cl_id x) (volume_columns env q m fp dst) db1))
               | None \<Rightarrow> cascade_import env q m fp dst True (cm_next_volume db1)
                   (add_volume ((new_volume env q m fp dst)\<lparr>cl_pack := listed (fp_pack fp) [''volume'', ''complete''] None\<rparr>) db1)))"

definition process_import_file :: "commit_env \<Rightarrow> plan_job \<Rightarrow> file_plan \<Rightarrow> string \<Rightarrow> commit_db \<Rightarrow> commit_db \<times> int option" where
  "process_import_file env j fp dst db =
     (if fp_kind fp = KSpecial then (process_special_import env (pj_queue j) fp dst db, None)
      else if fp_kind fp \<in> {KChapter, KChapterRange} \<and> fp_chapter fp \<noteq> None then process_chapter_import env j fp dst db
      else (process_volume_import env j fp dst db, None))"

subsection \<open>Phase 3\<close>

text \<open>\<open>_mark_downloaded\<close>: the volume of the queue row, or the pack it stands for with the claims it covers.\<close>

definition finish_volume :: "int \<Rightarrow> rat \<Rightarrow> commit_db \<Rightarrow> commit_db \<times> bool" where
  "finish_volume sid num db =
     (let hit = (\<lambda>r. cl_series r = sid \<and> cl_num r = Some num \<and> cl_status r = ClGrabbed)
      in if list_ex hit (pd_volumes (cm_db db)) then
           (let db1 = set_volumes hit (\<lambda>r. r\<lparr>cl_status := ClDownloaded\<rparr>) db
            in ((case find_volume sid (Some num) db1 of None \<Rightarrow> db1 | Some x \<Rightarrow> cascade_rows sid (cl_id x) (\<lambda>c. c) db1), True))
         else (db, False))"

definition pack_row :: "plan_db \<Rightarrow> queue_job \<Rightarrow> download_protocol option \<Rightarrow> claim_row option" where
  "pack_row db q prot =
     (let hits = filter (\<lambda>r. cl_series r = qj_series q \<and> qj_url q \<noteq> None \<and> cl_url r = qj_url q \<and> cl_num r = None
          \<and> (opt_text (qj_download q) = [] \<or> cl_client r = job_owner q \<and> same_stored_download prot (opt_text (qj_download q)) r)) (pd_volumes db)
      in find (\<lambda>r. list_all (\<lambda>x. cl_id x \<le> cl_id r) hits) hits)"

definition pack_identity :: "claim_row \<Rightarrow> download_protocol option \<Rightarrow> download_identity" where
  "pack_identity r prot = \<lparr>download_client_id = coerce_download_client_id (owner_value (cl_client r)),
     protocol = (if prot \<noteq> None then prot else normalize_download_protocol (text_value (cl_protocol r))), download_id = opt_text (cl_download r)\<rparr>"

definition set_number :: "rat option \<Rightarrow> bool" where
  "set_number x \<longleftrightarrow> x \<noteq> None \<and> x \<noteq> Some 0"

definition covers_range :: "claim_row \<Rightarrow> bool" where
  "covers_range pack \<longleftrightarrow> cl_pack pack = Some ''complete'' \<or> cl_pack pack = Some ''volume'' \<and> set_number (cl_start pack) \<and> set_number (cl_last pack)"

definition pack_claim :: "queue_job \<Rightarrow> claim_row \<Rightarrow> download_identity \<Rightarrow> claim_row \<Rightarrow> bool" where
  "pack_claim q pack i r \<longleftrightarrow> cl_series r = qj_series q \<and> cl_num r \<noteq> None \<and> cl_status r = ClGrabbed \<and> cl_url r = qj_url q
     \<and> (cl_pack pack = Some ''volume'' \<longrightarrow> between (cl_start pack) (cl_last pack) (cl_num r)) \<and> same_acquisition r i (qj_url q)"

text \<open>The children of the claims keep their status unless the download claimed them too.\<close>

definition settle_child :: "queue_job \<Rightarrow> download_identity \<Rightarrow> claim_row list \<Rightarrow> claim_row \<Rightarrow> claim_row" where
  "settle_child q i before c = (case find (\<lambda>x. cl_id x = cl_id c) before of
     None \<Rightarrow> c
   | Some x \<Rightarrow> c\<lparr>cl_status := (if cl_status x = ClGrabbed \<and> same_acquisition x i (qj_url q) then ClDownloaded else cl_status x)\<rparr>)"

definition finish_pack :: "queue_job \<Rightarrow> release_meta \<Rightarrow> claim_row \<Rightarrow> download_identity \<Rightarrow> commit_db \<Rightarrow> commit_db \<times> bool" where
  "finish_pack q m pack i db =
     (let claims = map cl_id (filter (pack_claim q pack i) (pd_volumes (cm_db db)));
          children = filter (\<lambda>c. cl_series c = qj_series q \<and> member_of claims c) (pd_chapters (cm_db db));
          columns = (\<lambda>owner r. r\<lparr>cl_status := ClDownloaded, cl_torrent := rm_name m, cl_indexer := rm_indexer m, cl_protocol := rm_protocol m,
            cl_client_name := rm_client m, cl_client := owner, cl_group := rm_group m, cl_size := rm_size m\<rparr>)
      in if covers_range pack then
           (if claims = [] then (db, False)
            else (set_chapters (\<lambda>c. cl_id c \<in> cl_id ` set children) (settle_child q i children)
                    (set_volumes (\<lambda>r. cl_id r \<in> set claims) (columns (cl_client pack)) db), True))
         else if cl_pack pack = Some ''chapter'' then
           (set_volumes (\<lambda>r. cl_id r = cl_id pack \<and> cl_status r \<noteq> ClDownloaded) (columns (job_owner q)) db, cl_status pack \<noteq> ClDownloaded)
         else (db, False))"

definition whole :: "rat \<Rightarrow> int" where "whole x = (if x < 0 then - \<lfloor>- x\<rfloor> else \<lfloor>x\<rfloor>)"

definition pack_label :: "claim_row \<Rightarrow> download_label" where
  "pack_label pack = (if cl_pack pack = Some ''complete'' then CompleteLabel else if cl_pack pack = Some ''chapter'' then ChapterPackLabel
     else (case (cl_start pack, cl_last pack) of (Some a, Some b) \<Rightarrow> RangeLabel (whole a) (whole b) | _ \<Rightarrow> ChapterPackLabel))"

definition series_known :: "int \<Rightarrow> commit_db \<Rightarrow> bool" where
  "series_known sid db = list_ex (\<lambda>s. sp_id s = sid) (pd_series (cm_db db))"

definition mark_downloaded :: "queue_job \<Rightarrow> download_protocol option \<Rightarrow> commit_db \<Rightarrow> commit_db \<times> download_label option" where
  "mark_downloaded q known db =
     (let sid = qj_series q; intent = (\<lambda>moved label. if moved \<and> series_known sid db then Some label else None)
      in case qj_volume q of
           Some num \<Rightarrow> (case finish_volume sid num db of (db1, moved) \<Rightarrow> (db1, intent moved (VolumeLabel num)))
         | None \<Rightarrow>
             (let prot = (if known \<noteq> None then known
                    else resolve_download_protocol (protocol_view (cm_db db)) (job_owner q) (Some sid) (opt_text (qj_download q)) (source_of q) True)
              in case pack_row (cm_db db) q prot of
                   None \<Rightarrow> (db, None)
                 | Some pack \<Rightarrow>
                     (let i = pack_identity pack prot
                      in if \<not> same_acquisition pack i (qj_url q) then (db, None)
                         else (case finish_pack q (queue_metadata (cm_db db) q) pack i db of
                           (db1, moved) \<Rightarrow> (db1, intent moved (pack_label pack))))))"

text \<open>The files of the plan after phase 2 published them: \<open>imported_count\<close>, the volumes to check, an error.\<close>

record progress =
  pg_db :: commit_db
  pg_count :: nat
  pg_touched :: "int list"
  pg_error :: bool

definition outcome_of :: "stage_outcome list \<Rightarrow> int \<Rightarrow> stage_outcome option" where
  "outcome_of outs i = find (\<lambda>x. so_id x = i) (rev outs)"

definition staged :: "stage_outcome list \<Rightarrow> file_plan \<Rightarrow> bool" where
  "staged outs fp \<longleftrightarrow> (case outcome_of outs (fp_id fp) of None \<Rightarrow> False | Some x \<Rightarrow> so_ok x)"

definition commit_file :: "commit_env \<Rightarrow> plan_job \<Rightarrow> stage_outcome list \<Rightarrow> file_plan \<Rightarrow> progress \<Rightarrow> progress" where
  "commit_file env j outs fp pg =
     (if fp_status fp \<in> {PlanSkip, PlanNeedsReview} then pg
      else case (if fp_status fp = PlanReady then outcome_of outs (fp_id fp) else None) of
        Some x \<Rightarrow>
          if so_ok x then
            (case process_import_file env j fp (so_final x) (pg_db pg) of (db, vol) \<Rightarrow>
               pg\<lparr>pg_db := db, pg_count := pg_count pg + 1,
                  pg_touched := (case vol of None \<Rightarrow> pg_touched pg | Some v \<Rightarrow> List.insert v (pg_touched pg))\<rparr>)
          else pg\<lparr>pg_db := file_failed (fp_id fp) (pg_db pg), pg_error := True\<rparr>
      | None \<Rightarrow> pg\<lparr>pg_db := file_failed (fp_id fp) (pg_db pg), pg_error := True\<rparr>)"

text \<open>Without publication only the failures are recorded.\<close>

definition record_failures :: "file_plan list \<Rightarrow> stage_outcome list \<Rightarrow> string \<Rightarrow> commit_db \<Rightarrow> commit_db" where
  "record_failures fps outs reason db =
     (let ready = (\<lambda>fp. fp_status fp = PlanReady)
      in if list_ex (\<lambda>fp. ready fp \<and> staged outs fp) fps then
           (if reason = [] then (case find (\<lambda>fp. ready fp \<and> \<not> staged outs fp) fps of None \<Rightarrow> db | Some fp \<Rightarrow> file_failed (fp_id fp) db) else db)
         else fold (\<lambda>fp d. if fp_status fp = PlanPreFailed \<or> ready fp then file_failed (fp_id fp) d else d) fps db)"

definition finish_touched :: "int \<Rightarrow> commit_db \<Rightarrow> commit_db" where
  "finish_touched vid db =
     (let members = filter (\<lambda>c. cl_volume c = Some vid \<and> cl_monitored c) (pd_chapters (cm_db db))
      in if members \<noteq> [] \<and> list_all (\<lambda>c. cl_status c = ClDownloaded) members
         then set_volumes (\<lambda>r. cl_id r = vid \<and> cl_status r \<noteq> ClDownloaded) (\<lambda>r. r\<lparr>cl_status := ClDownloaded\<rparr>) db
         else db)"

definition all_skipped :: "file_plan list \<Rightarrow> bool" where
  "all_skipped fps \<longleftrightarrow> fps \<noteq> [] \<and> list_all (\<lambda>fp. fp_status fp = PlanSkip) fps"

definition preparation_failed :: "file_plan list \<Rightarrow> bool \<Rightarrow> string \<Rightarrow> bool" where
  "preparation_failed fps published reason \<longleftrightarrow> \<not> published \<and> reason \<noteq> [] \<and> all_skipped fps"

definition commit_files :: "commit_env \<Rightarrow> import_plan \<Rightarrow> stage_outcome list \<Rightarrow> bool \<Rightarrow> string \<Rightarrow> commit_db \<Rightarrow> progress" where
  "commit_files env plan outs published reason db =
     (let fps = pl_files plan;
          failed = list_ex (\<lambda>fp. fp_status fp = PlanPreFailed \<or> fp_status fp = PlanReady \<and> \<not> staged outs fp) fps;
          start = \<lparr>pg_db = db, pg_count = 0, pg_touched = [], pg_error = failed \<or> preparation_failed fps published reason\<rparr>
      in if published then
           (let pg = fold (commit_file env (pl_job plan) outs) fps start in pg\<lparr>pg_db := fold finish_touched (pg_touched pg) (pg_db pg)\<rparr>)
         else start\<lparr>pg_db := record_failures fps outs reason db,
           pg_error := (pg_error start \<or> reason \<noteq> [] \<and> list_ex (\<lambda>fp. fp_status fp = PlanReady \<and> staged outs fp) fps)\<rparr>)"

definition commit_status :: "int \<Rightarrow> progress \<Rightarrow> queue_status" where
  "commit_status qid pg =
     (if pg_count pg = 0 \<and> pg_error pg then Failed
      else if list_ex (\<lambda>f. if_queue f = qid \<and> if_status f = FileNeedsReview) (pd_files (cm_db (pg_db pg))) then Partial
      else if pg_error pg then Partial else Imported)"

text \<open>The queue row: under the journal by its status alone, else by its lease.\<close>

definition finish_queue :: "int \<Rightarrow> int \<Rightarrow> string \<Rightarrow> bool \<Rightarrow> queue_status \<Rightarrow> commit_db \<Rightarrow> commit_error + commit_db" where
  "finish_queue now qid lease_owner journaled status db =
     (if journaled then
        (let (rows, n) = sql_update (\<lambda>q. q_id q = qid \<and> q_status q = Importing)
           (\<lambda>q. q\<lparr>q_status := status, q_owner := None, q_expires := None,
                  q_failed_at := (if status = Failed then Some (sql_now now) else q_failed_at q)\<rparr>) (queue (pd_lease (cm_db db)))
         in if n = 1 then Inr (set_queue rows db) else Inl TransitionLost)
      else (case transition_import_queue_row (lease_of db) now qid lease_owner status of
        Inl e \<Rightarrow> Inl (LeaseRaised e)
      | Inr (moved, ld) \<Rightarrow> if moved then Inr (set_queue (queue ld) db) else Inl TransitionLost))"

definition delete_queue_row :: "int \<Rightarrow> commit_db \<Rightarrow> commit_db" where
  "delete_queue_row qid db =
     (let db1 = set_queue (filter (\<lambda>q. q_id q \<noteq> qid) (queue (pd_lease (cm_db db)))) db
      in db1\<lparr>cm_db := (cm_db db1)\<lparr>pd_files := filter (\<lambda>f. if_queue f \<noteq> qid) (pd_files (cm_db db)),
           pd_more := filter (\<lambda>r. qm_id r \<noteq> qid) (pd_more (cm_db db))\<rparr>\<rparr>)"

text \<open>What the status means for the claims of the download.\<close>

definition settle_claims :: "import_plan \<Rightarrow> download_protocol option \<Rightarrow> bool \<Rightarrow> bool \<Rightarrow> bool \<Rightarrow> queue_status \<Rightarrow> commit_db \<Rightarrow> commit_db" where
  "settle_claims plan prot unprepared journaled shared status db =
     (let q = pj_queue (pl_job plan); has_download = (opt_text (qj_download q) \<noteq> [])
      in if status = Failed \<and> has_download \<and> \<not> shared \<and> \<not> unprepared then
           set_volumes (\<lambda>r. stored_by prot q r \<and> cl_status r = ClGrabbed) release_claim db
         else if status = Imported then
           (let db1 = (if has_download then drop_volumes (\<lambda>r. stored_by prot q r \<and> cl_num r = None \<and> cl_status r = ClGrabbed
                  \<and> cl_pack r \<noteq> Some ''chapter'') db else db)
            in if journaled then db1 else delete_queue_row (qj_id q) db1)
         else db)"

text \<open>The acquisition after its files: the volume or pack is downloaded, or its claims are given back.\<close>

definition settle_acquisition :: "import_plan \<Rightarrow> download_protocol option \<Rightarrow> string \<Rightarrow> bool \<Rightarrow> queue_status \<Rightarrow> progress \<Rightarrow> commit_db \<Rightarrow> commit_db \<times> download_label option" where
  "settle_acquisition plan prot reason shared status pg db =
     (let q = pj_queue (pl_job plan)
      in if pg_count pg > 0 then
           (case mark_downloaded q prot db of (db1, intent) \<Rightarrow>
              (set_volumes (\<lambda>r. stored_by prot q r \<and> cl_num r = None \<and> \<not> cl_special r)
                 (\<lambda>r. r\<lparr>cl_path := Some (pj_dst_dir (pl_job plan))\<rparr>) db1, intent))
         else if status = Imported \<and> \<not> pg_error pg \<and> all_skipped (pl_files plan) \<and> reason = [] \<and> \<not> shared then
           (settle_skipped_grab_claims (pl_job plan) db, None)
         else (db, None))"

text \<open>The journal: phase 3 takes it over, and hands it on with the result.\<close>

definition claim_publication_phase3 :: "int \<Rightarrow> int \<Rightarrow> string \<Rightarrow> commit_db \<Rightarrow> bool \<times> commit_db" where
  "claim_publication_phase3 now pub who db =
     (let (rows, n) = sql_update (\<lambda>r. jr_id r = pub \<and> jr_state r = Published
           \<and> (jr_owner r = None \<or> jr_owner r = Some who \<or> (case jr_expires r of None \<Rightarrow> True | Some x \<Rightarrow> x \<le> sql_now now)))
         (\<lambda>r. r\<lparr>jr_owner := Some who, jr_expires := datetime_plus now 120000\<rparr>) (cm_journal db)
      in (n = 1, db\<lparr>cm_journal := rows\<rparr>))"

definition decide :: "int \<Rightarrow> string \<Rightarrow> decision \<Rightarrow> commit_db \<Rightarrow> commit_db" where
  "decide pub who d db = db\<lparr>cm_journal := change_rows (\<lambda>r. jr_id r = pub \<and> jr_state r = Published \<and> jr_owner r = Some who)
     (\<lambda>r. r\<lparr>jr_decision := d\<rparr>) (cm_journal db)\<rparr>"

definition mark_publication_db_committed :: "int \<Rightarrow> int \<Rightarrow> string \<Rightarrow> bool \<times> nat \<times> queue_status \<Rightarrow> commit_db \<Rightarrow> commit_error + commit_db" where
  "mark_publication_db_committed now pub who result db =
     (let (rows, n) = sql_update (\<lambda>r. jr_id r = pub \<and> jr_state r = Published \<and> jr_owner r = Some who
           \<and> (case jr_expires r of None \<Rightarrow> False | Some x \<Rightarrow> x > sql_now now))
         (\<lambda>r. r\<lparr>jr_state := Db_committed, jr_result := Some result, jr_owner := None, jr_expires := None\<rparr>) (cm_journal db)
      in if n = 1 then Inr (db\<lparr>cm_journal := rows\<rparr>) else Inl OwnershipLost)"

text \<open>The authority of the transaction: \<open>None\<close> to go on, else the refusal.\<close>

definition take_authority :: "commit_env \<Rightarrow> import_plan \<Rightarrow> string \<Rightarrow> py_float \<Rightarrow> int option \<Rightarrow> commit_db \<Rightarrow> commit_error + refusal option \<times> commit_db" where
  "take_authority env plan who lease_seconds pub db =
     (case pub of
        Some p \<Rightarrow>
          (let (won, db1) = claim_publication_phase3 (ce_now env) p who db
           in if \<not> won then Inr (Some JournalClaimLost, db1)
              else (case ce_recorded env of
                None \<Rightarrow> Inl AdmissionUnproven
              | Some (d, adm) \<Rightarrow>
                  if d \<noteq> DecisionPending \<or> adm \<noteq> publication_admission (cm_db db1) (pl_job plan) (pl_files plan)
                  then Inr (Some AdmissionChanged, decide p who DecisionCompensate db1)
                  else Inr (None, decide p who DecisionCommit db1)))
      | None \<Rightarrow>
          (case refresh_import_queue_lease (lease_of db) (ce_now env) (qj_id (pj_queue (pl_job plan))) who lease_seconds of
             Inl e \<Rightarrow> Inl (LeaseRaised e)
           | Inr (held, ld) \<Rightarrow> Inr (if held then None else Some LeaseLost, set_queue (queue ld) db)))"

text \<open>The writes between the authority and the restored rows.\<close>

definition commit_writes ::
  "commit_env \<Rightarrow> import_plan \<Rightarrow> stage_outcome list \<Rightarrow> bool \<Rightarrow> string \<Rightarrow> string \<Rightarrow> bool \<Rightarrow> commit_db
     \<Rightarrow> commit_error + progress \<times> queue_status \<times> download_label option \<times> commit_db" where
  "commit_writes env plan outs published reason who journaled db =
     (let q = pj_queue (pl_job plan); pg = commit_files env plan outs published reason db; status = commit_status (qj_id q) pg
      in case finish_queue (ce_now env) (qj_id q) who journaled status (pg_db pg) of
           Inl e \<Rightarrow> Inl e
         | Inr db1 \<Rightarrow>
             (let prot = queue_download_protocol (cm_db db1) q;
                  shared = has_import_sibling_that_may_use_download (lease_of db1) (qj_id q) (qj_download q) (owner_value (qj_client q))
                    (Some (qj_series q)) prot;
                  db2 = settle_claims plan prot (preparation_failed (pl_files plan) published reason) journaled shared status db1
              in case settle_acquisition plan prot (if published then [] else reason) shared status pg db2 of (db3, intent) \<Rightarrow> Inr (pg, status, intent, db3)))"

definition commit_import ::
  "commit_env \<Rightarrow> import_plan \<Rightarrow> stage_outcome list \<Rightarrow> bool \<Rightarrow> string \<Rightarrow> string \<Rightarrow> py_float \<Rightarrow> int option \<Rightarrow> commit_db \<Rightarrow> commit_outcome" where
  "commit_import env plan outs published reason who lease_seconds pub db =
     (case take_authority env plan who lease_seconds pub db of
        Inl e \<Rightarrow> CommitRaised e
      | Inr (Some r, db1) \<Rightarrow> Refused r db1
      | Inr (None, db1) \<Rightarrow>
          if list_ex (\<lambda>fp. fp_status fp = PlanReady \<and> outcome_of outs (fp_id fp) = None) (pl_files plan) then CommitRaised MissingOutcome
          else (case commit_writes env plan outs published reason who (pub \<noteq> None) db1 of
            Inl e \<Rightarrow> CommitRaised e
          | Inr (pg, status, intent, db2) \<Rightarrow>
              (case restore_protected_grab_rows (protected_grab_rows (cm_db db1) (pl_job plan) (pl_files plan)) db2 of
                 Inl e \<Rightarrow> CommitRaised e
               | Inr db3 \<Rightarrow>
                   (case (case pub of None \<Rightarrow> Inr db3
                       | Some p \<Rightarrow> mark_publication_db_committed (ce_now env) p who (\<not> pg_error pg, pg_count pg, status) db3) of
                      Inl e \<Rightarrow> CommitRaised e
                    | Inr db4 \<Rightarrow> Committed (\<not> pg_error pg) (pg_count pg) status intent db4))))"

end
