(* ===== verification/Import_Outcome.thy ===== *)
theory Import_Outcome
  imports Import_Commit
begin

text \<open>
  What a commit guarantees: rows the download did not claim are as they were, and the result says
  what became of the files.
\<close>

subsection \<open>Frames\<close>

lemma change_rows_Nil [simp]: "change_rows P g [] = []" by (simp add: change_rows_def)

lemma statement_frames [simp]:
  "pd_files (cm_db (set_chapters P g db)) = pd_files (cm_db db)" "pd_lease (cm_db (set_chapters P g db)) = pd_lease (cm_db db)"
  "cm_journal (set_chapters P g db) = cm_journal db" "pd_volumes (cm_db (set_chapters P g db)) = pd_volumes (cm_db db)"
  "pd_chapters (cm_db (set_chapters P g db)) = change_rows P g (pd_chapters (cm_db db))"
  "pd_files (cm_db (set_volumes P h db)) = pd_files (cm_db db)" "pd_lease (cm_db (set_volumes P h db)) = pd_lease (cm_db db)"
  "cm_journal (set_volumes P h db) = cm_journal db" "pd_volumes (cm_db (set_volumes P h db)) = change_rows P h (pd_volumes (cm_db db))"
  "pd_files (cm_db (add_volume r db)) = pd_files (cm_db db)" "pd_lease (cm_db (add_volume r db)) = pd_lease (cm_db db)"
  "cm_journal (add_volume r db) = cm_journal db"
  "pd_files (cm_db (add_chapter r db)) = pd_files (cm_db db)" "pd_lease (cm_db (add_chapter r db)) = pd_lease (cm_db db)"
  "cm_journal (add_chapter r db) = cm_journal db"
  "pd_files (cm_db (drop_volumes P db)) = pd_files (cm_db db)" "pd_lease (cm_db (drop_volumes P db)) = pd_lease (cm_db db)"
  "cm_journal (drop_volumes P db) = cm_journal db" "pd_volumes (cm_db (drop_volumes P db)) = filter (\<lambda>r. \<not> P r) (pd_volumes (cm_db db))"
  "pd_files (cm_db (set_files R k db)) = change_rows R k (pd_files (cm_db db))" "pd_lease (cm_db (set_files R k db)) = pd_lease (cm_db db)"
  "cm_journal (set_files R k db) = cm_journal db" "pd_volumes (cm_db (set_files R k db)) = pd_volumes (cm_db db)"
  "pd_chapters (cm_db (set_files R k db)) = pd_chapters (cm_db db)"
  "pd_files (cm_db (set_queue rows db)) = pd_files (cm_db db)" "queue (pd_lease (cm_db (set_queue rows db))) = rows"
  "cm_journal (set_queue rows db) = cm_journal db" "pd_volumes (cm_db (set_queue rows db)) = pd_volumes (cm_db db)"
  "pd_chapters (cm_db (set_queue rows db)) = pd_chapters (cm_db db)"
  by (simp_all add: set_chapters_def set_volumes_def add_volume_def add_chapter_def drop_volumes_def set_files_def set_queue_def Let_def)

lemma set_volumes_chapters:
  "pd_chapters (cm_db (set_volumes P g db))
     = change_rows (member_of (newly_downloaded P g (pd_volumes (cm_db db)))) (\<lambda>c. c\<lparr>cl_status := ClDownloaded\<rparr>) (pd_chapters (cm_db db))"
  by (simp add: set_volumes_def set_chapters_def Let_def)

lemma member_of_Nil [simp]: "\<not> member_of [] c" by (simp add: member_of_def split: option.splits)

lemma change_rows_none: "(\<And>r. r \<in> set rows \<Longrightarrow> \<not> P r) \<Longrightarrow> change_rows P g rows = rows"
  by (simp add: change_rows_def map_idI)

lemma find_change_other:
  assumes "\<And>r. P r \<Longrightarrow> cl_id r \<noteq> i" "\<And>r. P r \<Longrightarrow> cl_id (g r) \<noteq> i"
  shows "find (\<lambda>x. cl_id x = i) (change_rows P g rows) = find (\<lambda>x. cl_id x = i) rows"
  using assms by (induction rows) (auto simp: change_rows_def)

lemma find_change_same:
  "find (\<lambda>x. cl_id x = cl_id r) (change_rows (\<lambda>x. cl_id x = cl_id r) (\<lambda>_. r) rows)
     = map_option (\<lambda>_. r) (find (\<lambda>x. cl_id x = cl_id r) rows)"
  by (induction rows) (auto simp: change_rows_def)

subsection \<open>Restoring\<close>

definition row_of :: "int \<Rightarrow> claim_row list \<Rightarrow> claim_row option" where
  "row_of i rows = find (\<lambda>x. cl_id x = i) rows"

lemma row_of_put:
  "row_of i (change_rows (\<lambda>x. cl_id x = cl_id r) (\<lambda>_. r) rows) = (if i = cl_id r then map_option (\<lambda>_. r) (row_of i rows) else row_of i rows)"
  using find_change_same [of r rows] find_change_other [of "\<lambda>x. cl_id x = cl_id r" i "\<lambda>_. r" rows]
  by (auto simp: row_of_def)

lemma restore_volumes_other:
  assumes "restore_volumes rs db = Inr db'" "i \<notin> cl_id ` set rs"
  shows "row_of i (pd_volumes (cm_db db')) = row_of i (pd_volumes (cm_db db))"
  using assms
proof (induction rs arbitrary: db)
  case (Cons r rs)
  then show ?case by (auto simp: row_of_put split: option.splits if_splits)
qed simp

lemma restore_volumes_all:
  assumes "restore_volumes rs db = Inr db'" "distinct (map cl_id rs)" "r \<in> set rs"
  shows "row_of (cl_id r) (pd_volumes (cm_db db')) = Some r"
  using assms
proof (induction rs arbitrary: db)
  case (Cons a rs)
  obtain x where x: "row_of (cl_id a) (pd_volumes (cm_db db)) = Some x"
      and rest: "restore_volumes rs (if x = a then db else set_volumes (\<lambda>y. cl_id y = cl_id a) (\<lambda>_. a) db) = Inr db'"
    using Cons.prems(1) by (auto simp: row_of_def split: option.splits)
  show ?case
  proof (cases "r = a")
    case True
    have "row_of (cl_id a) (pd_volumes (cm_db db')) = row_of (cl_id a) (pd_volumes (cm_db (if x = a then db else set_volumes (\<lambda>y. cl_id y = cl_id a) (\<lambda>_. a) db)))"
      using restore_volumes_other [OF rest, of "cl_id a"] Cons.prems(2) by simp
    then show ?thesis using True x by (simp add: row_of_put)
  next
    case False
    then show ?thesis using Cons.IH [OF rest] Cons.prems(2,3) by simp
  qed
qed simp

lemma restore_chapters_other:
  assumes "restore_chapters rs db = Inr db'" "i \<notin> cl_id ` set rs"
  shows "row_of i (pd_chapters (cm_db db')) = row_of i (pd_chapters (cm_db db))"
  using assms
proof (induction rs arbitrary: db)
  case (Cons r rs)
  then show ?case by (auto simp: row_of_put split: option.splits if_splits)
qed simp

lemma restore_chapters_all:
  assumes "restore_chapters rs db = Inr db'" "distinct (map cl_id rs)" "r \<in> set rs"
  shows "row_of (cl_id r) (pd_chapters (cm_db db')) = Some r"
  using assms
proof (induction rs arbitrary: db)
  case (Cons a rs)
  obtain x where x: "row_of (cl_id a) (pd_chapters (cm_db db)) = Some x"
      and rest: "restore_chapters rs (if x = a then db else set_chapters (\<lambda>y. cl_id y = cl_id a) (\<lambda>_. a) db) = Inr db'"
    using Cons.prems(1) by (auto simp: row_of_def split: option.splits if_splits)
  show ?case
  proof (cases "r = a")
    case True
    have "row_of (cl_id a) (pd_chapters (cm_db db')) = row_of (cl_id a) (pd_chapters (cm_db (if x = a then db else set_chapters (\<lambda>y. cl_id y = cl_id a) (\<lambda>_. a) db)))"
      using restore_chapters_other [OF rest, of "cl_id a"] Cons.prems(2) by simp
    then show ?thesis using True x by (simp add: row_of_put)
  next
    case False
    then show ?thesis using Cons.IH [OF rest] Cons.prems(2,3) by simp
  qed
qed simp

lemma restore_chapters_volumes: "restore_chapters rs db = Inr db' \<Longrightarrow> pd_volumes (cm_db db') = pd_volumes (cm_db db)"
proof (induction rs arbitrary: db)
  case (Cons r rs)
  then show ?case by (fastforce split: option.splits if_splits)
qed simp

lemma restored_rows:
  assumes "restore_protected_grab_rows (Some p) db = Inr db'" "distinct (map cl_id (pr_volumes p))" "distinct (map cl_id (pr_chapters p))"
  shows "(\<forall>r \<in> set (pr_volumes p). row_of (cl_id r) (pd_volumes (cm_db db')) = Some r)
    \<and> (\<forall>r \<in> set (pr_chapters p). row_of (cl_id r) (pd_chapters (cm_db db')) = Some r)"
proof -
  obtain db1 where db1: "restore_volumes (pr_volumes p) db = Inr db1" "restore_chapters (pr_chapters p) db1 = Inr db'"
    using assms(1) by (auto simp: restore_protected_grab_rows_def split: sum.splits)
  show ?thesis
    using restore_volumes_all [OF db1(1) assms(2)] restore_chapters_all [OF db1(2) assms(3)] restore_chapters_volumes [OF db1(2)] by simp
qed

subsection \<open>The authority of a commit\<close>

definition library_eq :: "plan_db \<Rightarrow> plan_db \<Rightarrow> bool" where
  "library_eq a b \<longleftrightarrow> pd_volumes a = pd_volumes b \<and> pd_chapters a = pd_chapters b \<and> pd_files a = pd_files b \<and> pd_seen a = pd_seen b
     \<and> pd_clients a = pd_clients b"

lemma library_eq_protected:
  assumes "library_eq a b"
  shows "protected_volume a j fps = protected_volume b j fps" "protected_chapter a j fps = protected_chapter b j fps"
    "protected_grab_rows a j fps = protected_grab_rows b j fps"
proof -
  have pv: "protocol_view a = protocol_view b" using assms by (simp add: protocol_view_def library_eq_def)
  have i: "queue_identity a q = queue_identity b q" for q unfolding queue_identity_def pv ..
  have m: "manual_volume_ids a j fps = manual_volume_ids b j fps" using assms by (simp add: manual_volume_ids_def library_eq_def)
  have c: "claimed_by a j = claimed_by b j" using i by (simp add: claimed_by_def fun_eq_iff)
  show v: "protected_volume a j fps = protected_volume b j fps" "protected_chapter a j fps = protected_chapter b j fps"
    using m c by (simp_all add: protected_volume_def protected_chapter_def fun_eq_iff)
  show "protected_grab_rows a j fps = protected_grab_rows b j fps" using v assms by (simp add: protected_grab_rows_def library_eq_def)
qed

lemma library_eq_queue [simp]: "library_eq (cm_db (set_queue rows db)) (cm_db db)"
  by (simp add: library_eq_def set_queue_def)

lemma library_eq_refl [simp]: "library_eq a a" by (simp add: library_eq_def)

lemma decide_db [simp]: "cm_db (decide p who d db) = cm_db db" by (simp add: decide_def)

lemma claim_db: "claim_publication_phase3 now p who db = (won, db1) \<Longrightarrow> cm_db db1 = cm_db db"
  by (auto simp: claim_publication_phase3_def split: prod.splits)

lemma mark_db: "mark_publication_db_committed now p who result db = Inr db' \<Longrightarrow> cm_db db' = cm_db db"
  by (auto simp: mark_publication_db_committed_def split: prod.splits if_splits)

lemma authority_library:
  assumes "take_authority env plan who secs pub db = Inr (r, db1)"
  shows "library_eq (cm_db db1) (cm_db db)"
  using assms by (auto simp: take_authority_def claim_db split: option.splits sum.splits prod.splits if_splits)

lemma committed_cases:
  assumes "commit_import env plan outs published reason who secs pub db = Committed ok n st intent db'"
  obtains db1 pg db2 db3 where "take_authority env plan who secs pub db = Inr (None, db1)"
    "commit_writes env plan outs published reason who (pub \<noteq> None) db1 = Inr (pg, st, intent, db2)"
    "restore_protected_grab_rows (protected_grab_rows (cm_db db1) (pl_job plan) (pl_files plan)) db2 = Inr db3"
    "case pub of None \<Rightarrow> db' = db3 | Some p \<Rightarrow> mark_publication_db_committed (ce_now env) p who (ok, n, st) db3 = Inr db'"
    "ok = (\<not> pg_error pg)" "n = pg_count pg" "\<And>fp. fp \<in> set (pl_files plan) \<Longrightarrow> fp_status fp = PlanReady \<Longrightarrow> outcome_of outs (fp_id fp) \<noteq> None"
proof -
  obtain db1 where a: "take_authority env plan who secs pub db = Inr (None, db1)"
    using assms by (auto simp: commit_import_def split: sum.splits prod.splits option.splits)
  have complete: "\<not> list_ex (\<lambda>fp. fp_status fp = PlanReady \<and> outcome_of outs (fp_id fp) = None) (pl_files plan)"
    using assms a by (auto simp: commit_import_def)
  obtain pg status i db2 where w: "commit_writes env plan outs published reason who (pub \<noteq> None) db1 = Inr (pg, status, i, db2)"
    using assms a complete by (auto simp: commit_import_def split: sum.splits)
  obtain db3 where r: "restore_protected_grab_rows (protected_grab_rows (cm_db db1) (pl_job plan) (pl_files plan)) db2 = Inr db3"
    using assms a complete w by (auto simp: commit_import_def split: sum.splits)
  have last_step: "(case (case pub of None \<Rightarrow> Inr db3 | Some p \<Rightarrow> mark_publication_db_committed (ce_now env) p who (\<not> pg_error pg, pg_count pg, status) db3) of
      Inl e \<Rightarrow> CommitRaised e | Inr db4 \<Rightarrow> Committed (\<not> pg_error pg) (pg_count pg) status i db4) = Committed ok n st intent db'"
    using assms a complete w r by (simp add: commit_import_def)
  then have eqs: "ok = (\<not> pg_error pg)" "n = pg_count pg" "status = st" "i = intent"
    by (auto split: sum.splits)
  have "case pub of None \<Rightarrow> db' = db3 | Some p \<Rightarrow> mark_publication_db_committed (ce_now env) p who (ok, n, st) db3 = Inr db'"
    using last_step eqs by (auto split: option.splits sum.splits)
  then show thesis using that [OF a, of pg db2 db3] w r eqs complete by (auto simp: list_ex_iff)
qed

subsection \<open>The result\<close>

text \<open>A file of the plan that phase 2 has put in place, and one that stands in the way of success.\<close>

definition arrived :: "stage_outcome list \<Rightarrow> file_plan \<Rightarrow> bool" where
  "arrived outs fp \<longleftrightarrow> fp_status fp = PlanReady \<and> staged outs fp"

definition fails :: "stage_outcome list \<Rightarrow> file_plan \<Rightarrow> bool" where
  "fails outs fp \<longleftrightarrow> fp_status fp = PlanPreFailed \<or> fp_status fp = PlanReady \<and> \<not> staged outs fp"

lemma commit_file_counts:
  "pg_count (commit_file env j outs fp pg) = pg_count pg + (if arrived outs fp then 1 else 0)
   \<and> pg_error (commit_file env j outs fp pg) = (pg_error pg \<or> fails outs fp)"
  by (cases "fp_status fp"; cases "outcome_of outs (fp_id fp)") (auto simp: commit_file_def arrived_def fails_def staged_def split: prod.splits)

lemma commit_fold_counts:
  "pg_count (fold (commit_file env j outs) fps pg) = pg_count pg + length (filter (arrived outs) fps)
   \<and> pg_error (fold (commit_file env j outs) fps pg) = (pg_error pg \<or> list_ex (fails outs) fps)"
  by (induction fps arbitrary: pg) (use commit_file_counts in auto)

text \<open>The result of a commit: how many files were imported, whether all went well, and the status.\<close>

lemma commit_accounts:
  assumes "commit_import env plan outs published reason who secs pub db = Committed ok n st intent db'"
  shows "n = (if published then length (filter (arrived outs) (pl_files plan)) else 0)"
    and "ok \<longleftrightarrow> \<not> list_ex (fails outs) (pl_files plan)
           \<and> (published \<or> reason = [] \<or> \<not> all_skipped (pl_files plan) \<and> \<not> list_ex (arrived outs) (pl_files plan))"
    and "st = Failed \<longleftrightarrow> n = 0 \<and> \<not> ok" "st = Imported \<Longrightarrow> ok" "st \<in> {Failed, Partial, Imported}"
proof -
  obtain db1 pg db2 where w: "commit_writes env plan outs published reason who (pub \<noteq> None) db1 = Inr (pg, st, intent, db2)"
    and res: "ok = (\<not> pg_error pg)" "n = pg_count pg"
    by (rule committed_cases [OF assms])
  have pg: "pg = commit_files env plan outs published reason db1" and st: "st = commit_status (qj_id (pj_queue (pl_job plan))) pg"
    using w by (auto simp: commit_writes_def Let_def split: sum.splits prod.splits)
  have "list_ex (\<lambda>fp. fp_status fp = PlanPreFailed \<or> fp_status fp = PlanReady \<and> \<not> staged outs fp) fps = list_ex (fails outs) fps"
    "list_ex (\<lambda>fp. fp_status fp = PlanReady \<and> staged outs fp) fps = list_ex (arrived outs) fps" for fps
    by (simp_all add: fails_def arrived_def list_ex_iff)
  then show "n = (if published then length (filter (arrived outs) (pl_files plan)) else 0)"
    and "ok \<longleftrightarrow> \<not> list_ex (fails outs) (pl_files plan)
           \<and> (published \<or> reason = [] \<or> \<not> all_skipped (pl_files plan) \<and> \<not> list_ex (arrived outs) (pl_files plan))"
    using res unfolding pg by (auto simp: commit_files_def preparation_failed_def commit_fold_counts Let_def)
  show "st = Failed \<longleftrightarrow> n = 0 \<and> \<not> ok" "st = Imported \<Longrightarrow> ok" "st \<in> {Failed, Partial, Imported}"
    using res unfolding st by (auto simp: commit_status_def split: if_splits)
qed

subsection \<open>The rows of others\<close>

text \<open>Whether a row is held by the grab a queue row stands for, and whether the request maps a file to a number.\<close>

definition held_by_grab :: "plan_db \<Rightarrow> queue_job \<Rightarrow> claim_row \<Rightarrow> bool" where
  "held_by_grab db q r \<longleftrightarrow> cl_status r = ClGrabbed \<and> cl_url r = Some (source_of q)
     \<and> coerce_download_client_id (owner_value (cl_client r)) = coerce_download_client_id (owner_value (qj_client q))
     \<and> claim_identity_matches r (queue_identity db q)"

lemma held_by_grab_claimed: "held_by_grab db (pj_queue j) r = claimed_by db j r"
  by (auto simp: held_by_grab_def claimed_by_def same_acquisition_def queue_identity_def Let_def)

definition mapped_by_hand :: "import_plan \<Rightarrow> bool \<Rightarrow> rat option \<Rightarrow> bool" where
  "mapped_by_hand plan chapter num \<longleftrightarrow>
     (\<exists>fp \<in> set (pl_files plan). fp_id fp \<in> set (map fst (pj_volumes (pl_job plan)) @ map fst (pj_chapters (pl_job plan)))
        \<and> (fp_type fp = Some ''chapter'') = chapter \<and> num = (if chapter then fp_chapter fp else fp_volume fp))"

lemma mapped_by_hand_numbers:
  "mapped_by_hand plan False num \<longleftrightarrow> num \<in> set (manual_numbers (pl_job plan) (pl_files plan) False fp_volume)"
  "mapped_by_hand plan True num \<longleftrightarrow> num \<in> set (manual_numbers (pl_job plan) (pl_files plan) True fp_chapter)"
  by (auto simp: mapped_by_hand_def manual_numbers_def manual_file_def map_of_eq_None_iff)

lemma protected_rows_eq:
  assumes "r \<in> set (pd_volumes db)" "distinct (map cl_id (pd_volumes db))"
    "cl_series r = qj_series (pj_queue (pl_job plan))" "cl_num r \<noteq> None" "\<not> mapped_by_hand plan False (cl_num r)" "\<not> held_by_grab db (pj_queue (pl_job plan)) r"
  shows "protected_volume db (pl_job plan) (pl_files plan) r"
proof -
  have "cl_id r \<notin> set (manual_volume_ids db (pl_job plan) (pl_files plan))"
    using assms(1,2,5) by (auto simp: manual_volume_ids_def mapped_by_hand_numbers(1) distinct_map dest: inj_onD)
  then show ?thesis using assms(3,4,6) by (simp add: protected_volume_def held_by_grab_claimed)
qed

lemma protected_chapter_eq:
  assumes "cl_series c = qj_series (pj_queue (pl_job plan))" "\<not> mapped_by_hand plan True (cl_num c)" "\<not> held_by_grab db (pj_queue (pl_job plan)) c"
    "\<forall>v \<in> set (pd_volumes db). cl_volume c = Some (cl_id v) \<longrightarrow> cl_series v = qj_series (pj_queue (pl_job plan)) \<longrightarrow> cl_num v \<noteq> None
       \<longrightarrow> \<not> mapped_by_hand plan False (cl_num v)"
  shows "protected_chapter db (pl_job plan) (pl_files plan) c"
proof -
  have "\<not> member_of (manual_volume_ids db (pl_job plan) (pl_files plan)) c"
    using assms(4) by (auto simp: manual_volume_ids_def member_of_def mapped_by_hand_numbers(1) split: option.splits)
  then show ?thesis using assms(1-3) by (simp add: protected_chapter_def held_by_grab_claimed mapped_by_hand_numbers(2))
qed

text \<open>
  C40: An automatic import leaves alone what its download did not claim: when phase 3 commits, every
  numbered volume of the series that is not grabbed by this very download and that the request does
  not map by hand is the row it was before, in all its columns, and so is every such chapter whose
  volume is not mapped by hand either, whatever the files of the plan, the cascades from volumes to
  chapters and the settling of claims did to them meanwhile.
\<close>

theorem unclaimed_rows_untouched:
  assumes "commit_import env plan outs published reason who secs pub db = Committed ok n st intent db'" "pj_auto (pl_job plan)"
    and "distinct (map cl_id (pd_volumes (cm_db db)))" "distinct (map cl_id (pd_chapters (cm_db db)))"
  shows "(\<forall>r \<in> set (pd_volumes (cm_db db)). cl_series r = qj_series (pj_queue (pl_job plan)) \<longrightarrow> cl_num r \<noteq> None
        \<longrightarrow> \<not> mapped_by_hand plan False (cl_num r) \<longrightarrow> \<not> held_by_grab (cm_db db) (pj_queue (pl_job plan)) r
        \<longrightarrow> find (\<lambda>x. cl_id x = cl_id r) (pd_volumes (cm_db db')) = Some r)
    \<and> (\<forall>c \<in> set (pd_chapters (cm_db db)). cl_series c = qj_series (pj_queue (pl_job plan))
        \<longrightarrow> \<not> mapped_by_hand plan True (cl_num c) \<longrightarrow> \<not> held_by_grab (cm_db db) (pj_queue (pl_job plan)) c
        \<longrightarrow> (\<forall>v \<in> set (pd_volumes (cm_db db)). cl_volume c = Some (cl_id v) \<longrightarrow> cl_series v = qj_series (pj_queue (pl_job plan))
              \<longrightarrow> cl_num v \<noteq> None \<longrightarrow> \<not> mapped_by_hand plan False (cl_num v))
        \<longrightarrow> find (\<lambda>x. cl_id x = cl_id c) (pd_chapters (cm_db db')) = Some c)"
proof -
  obtain db1 pg db2 db3 where a: "take_authority env plan who secs pub db = Inr (None, db1)"
      and r: "restore_protected_grab_rows (protected_grab_rows (cm_db db1) (pl_job plan) (pl_files plan)) db2 = Inr db3"
      and m: "case pub of None \<Rightarrow> db' = db3 | Some p \<Rightarrow> mark_publication_db_committed (ce_now env) p who (ok, n, st) db3 = Inr db'"
    by (rule committed_cases [OF assms(1)])
  have eq: "protected_grab_rows (cm_db db1) (pl_job plan) (pl_files plan)
      = Some \<lparr>pr_volumes = filter (protected_volume (cm_db db) (pl_job plan) (pl_files plan)) (pd_volumes (cm_db db)),
          pr_chapters = filter (protected_chapter (cm_db db) (pl_job plan) (pl_files plan)) (pd_chapters (cm_db db))\<rparr>"
    unfolding library_eq_protected(3) [OF authority_library [OF a]] using assms(2) by (simp add: protected_grab_rows_def)
  have "cm_db db' = cm_db db3" using m mark_db by (auto split: option.splits)
  then have "(\<forall>r \<in> set (filter (protected_volume (cm_db db) (pl_job plan) (pl_files plan)) (pd_volumes (cm_db db))).
        find (\<lambda>x. cl_id x = cl_id r) (pd_volumes (cm_db db')) = Some r)
    \<and> (\<forall>r \<in> set (filter (protected_chapter (cm_db db) (pl_job plan) (pl_files plan)) (pd_chapters (cm_db db))).
        find (\<lambda>x. cl_id x = cl_id r) (pd_chapters (cm_db db')) = Some r)"
    using restored_rows [OF r [unfolded eq]] assms(3,4) by (simp add: distinct_map_filter row_of_def)
  then show ?thesis
    using protected_rows_eq [OF _ assms(3), of _ plan] protected_chapter_eq [of _ plan "cm_db db"] by simp
qed

subsection \<open>A commit\<close>

text \<open>The download of \<open>demo_planning\<close> delivers volume 3, which it grabbed, and a file that is volume 4
  of an import without claims; the library holds chapter 31 of volume 3 by another download.\<close>

definition demo_owned :: claim_row where
  "demo_owned = demo_claim\<lparr>cl_id := 2, cl_num := Some 4, cl_status := ClDownloaded, cl_client := Some 9, cl_url := Some ''other'', cl_path := Some ''/lib/A/v04.cbz''\<rparr>"

definition demo_chapter :: claim_row where
  "demo_chapter = demo_claim\<lparr>cl_num := Some 31, cl_client := Some 9, cl_url := Some ''other'', cl_volume := Some 1\<rparr>"

definition demo_commit_db :: commit_db where
  "demo_commit_db = \<lparr>cm_db = demo_plan_db\<lparr>pd_volumes := [demo_claim, demo_owned], pd_chapters := [demo_chapter]\<rparr>, cm_journal = [],
     cm_next_volume = 3, cm_next_chapter = 2\<rparr>"

definition demo_commit_env :: commit_env where
  "demo_commit_env = \<lparr>ce_now = 500, ce_stamp = ''t'', ce_sql_stamp = ''s'', ce_qualities = [], ce_recorded = None\<rparr>"

abbreviation demo_replan :: plan_outcome where
  "demo_replan \<equiv> plan_import demo_env (cm_db demo_commit_db) 500 7 ''w'' [] [] [3] (Fin 60) None"

abbreviation demo_commit :: "import_plan \<Rightarrow> plan_db \<Rightarrow> commit_outcome" where
  "demo_commit plan db \<equiv> commit_import demo_commit_env plan [\<lparr>so_id = 1, so_ok = True, so_final = ''/lib/A/v03.cbz''\<rparr>] True [] ''w'' (Fin 60) None
     (demo_commit_db\<lparr>cm_db := db\<rparr>)"

lemma demo_committed:
  "(case demo_replan of Planned plan db \<Rightarrow>
      (case demo_commit plan db of
         Committed ok n st intent db' \<Rightarrow> ok \<and> n = 1 \<and> st = Imported \<and> map cl_status (pd_volumes (cm_db db')) = [ClDownloaded, ClDownloaded]
           \<and> map cl_path (pd_volumes (cm_db db')) = [Some ''/lib/A/v03.cbz'', Some ''/lib/A/v04.cbz'']
       | _ \<Rightarrow> False)
      \<and> pj_auto (pl_job plan) \<and> qj_series (pj_queue (pl_job plan)) = 2 \<and> pd_volumes db = [demo_claim, demo_owned] \<and> pd_chapters db = [demo_chapter]
      \<and> \<not> mapped_by_hand plan False (Some 4) \<and> \<not> mapped_by_hand plan False (Some 3) \<and> \<not> mapped_by_hand plan True (Some 31)
      \<and> \<not> held_by_grab db (pj_queue (pl_job plan)) demo_owned \<and> \<not> held_by_grab db (pj_queue (pl_job plan)) demo_chapter
    | _ \<Rightarrow> False)"
  by code_simp

theorem unclaimed_rows_untouched_witness:
  "(case demo_replan of Planned plan db \<Rightarrow>
      (case demo_commit plan db of
         Committed ok n st intent db' \<Rightarrow> n = 1 \<and> map cl_path (pd_volumes (cm_db db')) = [Some ''/lib/A/v03.cbz'', Some ''/lib/A/v04.cbz'']
           \<and> find (\<lambda>x. cl_id x = 2) (pd_volumes (cm_db db')) = Some demo_owned \<and> find (\<lambda>x. cl_id x = 1) (pd_chapters (cm_db db')) = Some demo_chapter
       | _ \<Rightarrow> False)
    | _ \<Rightarrow> False)"
proof (cases demo_replan)
  case (Planned plan db)
  note made = demo_committed [unfolded Planned plan_outcome.case]
  have columns: "cl_id demo_owned = 2" "cl_num demo_owned = Some 4" "cl_series demo_owned = 2" "cl_id demo_claim = 1" "cl_num demo_claim = Some 3"
    "cl_id demo_chapter = 1" "cl_num demo_chapter = Some 31" "cl_series demo_chapter = 2"
    by (simp_all add: demo_owned_def demo_claim_def demo_chapter_def)
  show ?thesis
  proof (cases "demo_commit plan db")
    case (Committed ok n st intent db')
    have "find (\<lambda>x. cl_id x = cl_id demo_owned) (pd_volumes (cm_db db')) = Some demo_owned"
      "find (\<lambda>x. cl_id x = cl_id demo_chapter) (pd_chapters (cm_db db')) = Some demo_chapter"
      using unclaimed_rows_untouched [OF Committed] made columns by simp_all
    then show ?thesis using made unfolding Planned plan_outcome.case Committed commit_outcome.case by (simp add: columns)
  qed (use made in simp_all)
qed (use demo_committed in simp_all)

end
