(* ===== verification/Spec2Isabelle.thy ===== *)
theory Spec2Isabelle
  imports Import_Lease Reconcile_Map Import_Policy Metadata_State Ownership_Locks Release_Selections Release_Sources Volume_Assembly Quarantine_Recovery
    Rename_Safety Grab_Backlog Import_Workers Status_Cache Title_Facts Release_Decision Metadata_Rules Import_Outcome
begin

text \<open>
  A verification development of manga-arr, a server that keeps a library of manga: it searches
  indexers for releases, scores them, hands the chosen ones to download clients, imports what they
  deliver into folders of series, and keeps metadata and chapters in step. The source is Python with
  SQLite under \<^verbatim>\<open>src/app\<close>; every definition is translated from it.

  \<^bold>\<open>Conventions.\<close> A table is the list of its rows, a row a record, NULL is None; a statement is a
  function on the rows with the number of rows it changed (\<open>Manga_Prelude\<close>). A transaction is a
  function from a database to an error or a result and a new database, so that a rollback keeps the
  old one. An exception is a value of a sum type. Python's ints are \<open>int\<close>; finite floats are the
  rationals they stand for, rounded by \<open>round_double\<close> where the source computes
  (\<open>Py_Number\<close>, \<open>Py_Float_Facts\<close>). Texts are lists of Latin-1 characters. Hash functions, the clock,
  tokens, the settings, the answers of indexers and clients, the engine for regular expressions the
  operator writes, and the resolution of symbolic links are arguments.

  \<^bold>\<open>Python and its library.\<close> \<open>Json_Text\<close> and \<open>Json_Codec\<close>: \<open>json.dumps\<close> and \<open>json.loads\<close>, with the round trip.
  \<open>Py_Path\<close>: \<open>os.path\<close>. \<open>Py_Regex\<close>: a backtracking matcher for \<open>re\<close>. \<open>Py_Difflib\<close>: \<open>SequenceMatcher.ratio\<close>.
  \<open>Py_Values\<close>: truth, text and numbers of untyped values.

  \<^bold>\<open>Downloads and imports.\<close>
  \<^item> \<open>Download_Identity\<close> (\<^verbatim>\<open>download_identity.py\<close>): which rows belong to one download; the key is
    unambiguous.
  \<^item> \<open>Import_Lease\<close> (\<^verbatim>\<open>import_lease.py\<close>): leases on rows of the import queue; exclusion, fencing of stale
    workers and of rows under publication over arbitrary interleavings.
  \<^item> \<open>Import_Workers\<close> (\<^verbatim>\<open>import_workers.py\<close>): one task for a queue row in a process.
  \<^item> \<open>Import_Policy\<close> (\<^verbatim>\<open>import_kinds.py\<close>, \<^verbatim>\<open>acquisition_policy.py\<close>, \<^verbatim>\<open>grab_dedup.py\<close>): what is imported, and
    whether an import may touch only what its download claimed.
  \<^item> \<open>Import_Plan\<close> (\<^verbatim>\<open>import_plan.py\<close>, \<open>_queue_metadata\<close> of \<^verbatim>\<open>import_commit.py\<close>): phase 1; a file of a plan
    has passed every check, and planning changes only what it decides.
  \<^item> \<open>Import_Commit\<close> (\<^verbatim>\<open>import_commit.py\<close>, \<^verbatim>\<open>import_download.py\<close>, two steps of \<^verbatim>\<open>import_publication.py\<close>) and
    \<open>Import_Outcome\<close>: phase 3, its accounts, and the rows of others it leaves alone. It runs on the
    database and the plan of \<open>Import_Plan\<close> and takes its authority from \<open>Import_Lease\<close> or the journal.
  \<^item> \<open>Status_Cache\<close> (\<^verbatim>\<open>status_cache.py\<close>): what the pages show of the clients refines the history of polls.

  \<^bold>\<open>Searching and choosing.\<close>
  \<^item> \<open>Title_Parsing\<close>, \<open>Title_Facts\<close> (\<^verbatim>\<open>parsing.py\<close>) and \<open>Release_Tags\<close> (the classifying half of \<^verbatim>\<open>files.py\<close>,
    formats and languages of \<^verbatim>\<open>routers\<close>): what a title says; bounds of numbers, display and parse.
  \<^item> \<open>Release_Scoring\<close> (\<^verbatim>\<open>evaluation.py\<close>, \<^verbatim>\<open>release_profiles.py\<close>) and \<open>Release_Decision\<close> (\<^verbatim>\<open>grab_core.py\<close>): the score
    of a release and whether it is grabbed; every hard filter is passed, nothing is collected twice.
  \<^item> \<open>Grab_Backlog\<close> (\<^verbatim>\<open>grab_backlog.py\<close>): packs that cover missing volumes.
  \<^item> \<open>Release_Identity\<close>, \<open>Release_Selections\<close>, \<open>Release_Sources\<close> (\<^verbatim>\<open>release_identity.py\<close>, \<^verbatim>\<open>release_selections.py\<close>,
    \<^verbatim>\<open>release_sources.py\<close>, \<^verbatim>\<open>routers/indexers.py\<close>): identities, one-use receipts of search results and the
    epochs of the indexer they come from. This theory composes the last two.

  \<^bold>\<open>The library.\<close>
  \<^item> \<open>Volumes\<close> (\<^verbatim>\<open>volumes.py\<close>) and \<open>Reconcile_Map\<close> (\<^verbatim>\<open>reconcile_map.py\<close>): stubs of volumes and chapters, their
    links, and the repair of links that drifted.
  \<^item> \<open>File_Names\<close> (\<^verbatim>\<open>files.py\<close>, \<open>_series_library_dir\<close> of \<^verbatim>\<open>rescan.py\<close>): names and folders, confined to the
    library.
  \<^item> \<open>Durable_World\<close>: a file system with hard links whose calls may be refused and where a process may
    stop at any call, with the laws of programs that keep a journal. On it run \<open>Rename_Plan\<close> and
    \<open>Rename_Safety\<close> (\<^verbatim>\<open>rename_plan.py\<close>), and \<open>Chapter_Quarantine\<close>, \<open>Quarantine_Safety\<close>, \<open>Quarantine_Runs\<close>,
    \<open>Quarantine_Lifecycle\<close>, \<open>Quarantine_Recovery\<close> (\<^verbatim>\<open>volume_chapter_cleanup.py\<close>): no schedule of refusals and
    crashes loses a file, and a replay ends what was interrupted.
  \<^item> \<open>Volume_Assembly\<close> (\<^verbatim>\<open>volume_assembly.py\<close>): merging chapters into a volume and the evidence of it.
  \<^item> \<open>Ownership_Locks\<close> (\<^verbatim>\<open>maintenance_lock.py\<close>, \<^verbatim>\<open>file_mutation_lock.py\<close>): advisory locks on files another process
    may replace.
  \<^item> \<open>Metadata_State\<close> (\<^verbatim>\<open>metadata_state.py\<close>), \<open>Metadata_Provenance\<close> and \<open>Metadata_Rules\<close>
    (\<^verbatim>\<open>metadata_provenance.py\<close>): the state of refreshes, who said what of a series, and which recommended
    change is applied.

  \<^bold>\<open>Bounds and fuel.\<close> The reader of \<open>Json_Codec\<close>, the loops of \<open>Py_Regex\<close> over a text and \<open>Py_Difflib\<close> take the
  length of the text as fuel; each round consumes a character, so it suffices. The replay loop \<open>drain\<close>
  of the quarantine takes a bound on its pages, and any bound above the number of rows beyond the
  cursor suffices (\<open>drain_terminates\<close>). Everything else is total by its recursion. Statements mention 2
  to the 53, below which integers are exact doubles, and 2 to the 64, the range of the length
  prefixes of page digests.

  \<^bold>\<open>Not modelled.\<close> HTTP to providers, indexers and clients; request handlers and pages; staging and
  durable publication of files and the ledger of file identities, which are mostly inspections of the
  file system; walks over the library; migrations of the schema; log lines, events and notifications.
  Texts beyond Latin-1 are out of reach of the regular expressions of titles.
\<close>

subsection \<open>Release receipts and the epochs of their indexer\<close>

text \<open>
  C23: Rebinding an indexer revokes the receipts issued from its earlier configuration: after the
  row is bound to a scope, no receipt whose context names the row under another scope can be
  consumed, and every consumption that succeeds rests on an active row that still has the scope of
  the receipt's context.
\<close>

theorem rebinding_revokes_receipts:
  assumes "bind_indexer_scope token i previous parent sub ix = Inr (scope, ix')"
  shows "case consume_selection digest (source_context_is_current ix') handle who sid vid posted now db of
      Inl e \<Rightarrow> True
    | Inr (snap, db') \<Rightarrow>
        (sc_indexer (sn_context snap) = i \<longrightarrow> sc_scope (sn_context snap) = scope)
        \<and> (\<exists>r \<in> set (active_indexer_rows ix' (sc_purpose (sn_context snap)) (sc_series (sn_context snap))).
              ix_id r = sc_indexer (sn_context snap) \<and> ix_scope r = Some (sc_scope (sn_context snap)))"
proof (cases "consume_selection digest (source_context_is_current ix') handle who sid vid posted now db")
  case (Inr p)
  obtain snap db' where p: "p = (snap, db')" by (cases p)
  let ?c = "sn_context snap"
  have current: "source_context_is_current ix' ?c" using receipt_current [OF Inr [unfolded p]] .
  have "ix' = set_scope i scope ix" using assms by (rule bind_Inr)
  then have "sc_indexer ?c = i \<Longrightarrow> sc_scope ?c = scope"
    using current rebound_not_current [of scope "sc_scope ?c" i ix] by (auto simp: source_context_is_current_def)
  moreover have "\<exists>r \<in> set (active_indexer_rows ix' (sc_purpose ?c) (sc_series ?c)). ix_id r = sc_indexer ?c \<and> ix_scope r = Some (sc_scope ?c)"
    using current by (auto simp: source_context_is_current_def source_is_current_def find_Some_iff split: if_splits option.splits)
  ultimately show ?thesis using Inr p by simp
qed simp

theorem rebinding_revokes_receipts_witness:
  "consume_selection (\<lambda>h. h) (source_context_is_current (set_scope 3 (''bs1:d:'' @ demo_token) demo_indexers))
     demo_handle ApiIssuer 5 9 demo_item 500 demo_stored \<noteq> Inr (demo_snapshot, demo_receipts)"
proof -
  have "sc_indexer (sn_context demo_snapshot) = 3" "sc_scope (sn_context demo_snapshot) \<noteq> ''bs1:d:'' @ demo_token"
    by code_simp+
  then show ?thesis
    using rebinding_revokes_receipts [OF demo_bind, of "\<lambda>h. h" demo_handle ApiIssuer 5 9 demo_item 500 demo_stored]
    by (auto split: sum.splits)
qed

end
